(* ===== verification/Prelude.thy ===== *)
theory Prelude
  imports Complex_Main "HOL-Library.Sublist"
begin

text \<open>
  The vocabulary every component shares: results of fallible calls, the code points of
  a Python \<open>str\<close> and the string methods the sources use, decimal numerals, and the
  generic lemmas on lists that the component proofs need.

  A Python \<open>str\<close> is modelled by \<open>string\<close>, whose characters are the code points
  0 to 255; \<open>str.strip\<close>, \<open>str.isdigit\<close> and \<open>str.isascii\<close> are written out for
  that range, the non-ASCII part included.
\<close>

named_theorems res_simps \<open>unfolding of results of fallible calls\<close>
named_theorems frame_simps \<open>which parts of a state an operation leaves alone\<close>

section \<open>Results\<close>

text \<open>
  The exceptions of the sources. The message text is left out; the class is what a
  caller can tell apart. The last three are the errors the database itself raises.
\<close>

datatype py_error =
    ValueError | KeyError | IndexError | TypeError | NotFoundError | ConflictError | ValidationError
  | AssertionError | OverflowError | IncompleteReadError | TerminalLimitError | AccessDeniedError
  | CheckViolation | UniqueViolation | ForeignKeyViolation | NotNullViolation | DataError

type_synonym 'a res = "py_error + 'a"

definition bind_res :: "('e + 'a) \<Rightarrow> ('a \<Rightarrow> 'e + 'b) \<Rightarrow> 'e + 'b" where
  "bind_res m f = (case m of Inl e \<Rightarrow> Inl e | Inr x \<Rightarrow> f x)"

definition guard_res :: "bool \<Rightarrow> 'e \<Rightarrow> 'e + unit" where
  "guard_res b e = (if b then Inr () else Inl e)"

lemma bind_res_simps [simp]:
  "bind_res (Inl e) f = Inl e"
  "bind_res (Inr x) f = f x"
  by (simp_all add: bind_res_def)

lemma bind_res_Inr_iff [res_simps]:
  "bind_res m f = Inr y \<longleftrightarrow> (\<exists>x. m = Inr x \<and> f x = Inr y)"
  by (cases m) simp_all

lemma bind_res_Inl_iff [res_simps]:
  "bind_res m f = Inl e \<longleftrightarrow> m = Inl e \<or> (\<exists>x. m = Inr x \<and> f x = Inl e)"
  by (cases m) auto

lemma bind_res_cong [fundef_cong]:
  "m = m' \<Longrightarrow> (\<And>x. m' = Inr x \<Longrightarrow> f x = f' x) \<Longrightarrow> bind_res m f = bind_res m' f'"
  by (cases m') auto

lemma guard_res_Inr [simp]: "guard_res b e = Inr u \<longleftrightarrow> b"
  by (simp add: guard_res_def)

lemma guard_res_Inl [simp]: "guard_res b e = Inl e' \<longleftrightarrow> \<not> b \<and> e' = e"
  by (auto simp add: guard_res_def)

lemma guard_res_True [simp]: "guard_res True e = Inr ()"
  by (simp add: guard_res_def)

lemma guard_res_False [simp]: "guard_res False e = Inl e"
  by (simp add: guard_res_def)

text \<open>A database transaction: an error leaves the state as it was.\<close>

definition in_tx :: "('s \<Rightarrow> 'e + ('s \<times> 'a)) \<Rightarrow> 's \<Rightarrow> 's \<times> ('e + 'a)" where
  "in_tx f s = (case f s of Inl e \<Rightarrow> (s, Inl e) | Inr (t, x) \<Rightarrow> (t, Inr x))"

lemma in_tx_error: "f s = Inl e \<Longrightarrow> in_tx f s = (s, Inl e)"
  by (simp add: in_tx_def)

lemma in_tx_ok: "f s = Inr (t, x) \<Longrightarrow> in_tx f s = (t, Inr x)"
  by (simp add: in_tx_def)

lemma in_tx_cases:
  obtains (rolled_back) e where "f s = Inl e" "in_tx f s = (s, Inl e)"
  | (committed) t x where "f s = Inr (t, x)" "in_tx f s = (t, Inr x)"
  by (cases "f s") (auto simp: in_tx_def)

section \<open>Code points and string methods\<close>

definition code :: "char \<Rightarrow> nat" where
  "code c = of_char c"

definition is_ascii :: "string \<Rightarrow> bool" where
  "is_ascii s = list_all (\<lambda>c. code c < 128) s"

text \<open>The whitespace \<open>str.strip\<close> removes: Unicode whitespace below U+0100.\<close>

definition is_space :: "char \<Rightarrow> bool" where
  "is_space c \<longleftrightarrow> code c \<in> {9, 10, 11, 12, 13, 28, 29, 30, 31, 32, 133, 160}"

definition lstrip :: "string \<Rightarrow> string" where
  "lstrip s = dropWhile is_space s"

definition strip :: "string \<Rightarrow> string" where
  "strip s = rev (lstrip (rev (lstrip s)))"

text \<open>\<open>str.isdigit\<close> also accepts the superscripts U+00B2, U+00B3 and U+00B9.\<close>

definition ascii_digit :: "char \<Rightarrow> bool" where
  "ascii_digit c \<longleftrightarrow> 48 \<le> code c \<and> code c \<le> 57"

definition digit_char :: "char \<Rightarrow> bool" where
  "digit_char c \<longleftrightarrow> ascii_digit c \<or> code c \<in> {178, 179, 185}"

definition isdigit :: "string \<Rightarrow> bool" where
  "isdigit s \<longleftrightarrow> s \<noteq> [] \<and> list_all digit_char s"

text \<open>\<open>str.lower\<close> on ASCII text, the only text the sources compare after it.\<close>

definition lower_char :: "char \<Rightarrow> char" where
  "lower_char c = (if 65 \<le> code c \<and> code c \<le> 90 then char_of (code c + 32) else c)"

definition lower :: "string \<Rightarrow> string" where
  "lower s = map lower_char s"

lemma code_inject [simp]: "code c = code d \<longleftrightarrow> c = d"
  by (simp add: code_def)

lemma code_char_of: "n < 256 \<Longrightarrow> code (char_of n) = n"
  by (simp add: code_def of_char_of)

lemma code_less: "code c < 256"
  by (simp add: code_def)

lemma lower_char_idem [simp]: "lower_char (lower_char c) = lower_char c"
  by (auto simp: lower_char_def code_char_of)

lemma lower_lower [simp]: "lower (lower s) = lower s"
  by (simp add: lower_def)

lemma lower_Nil [simp]: "lower [] = []"
  by (simp add: lower_def)

lemma lower_append [simp]: "lower (s @ t) = lower s @ lower t"
  by (simp add: lower_def)

lemma dropWhile_last:
  "xs \<noteq> [] \<Longrightarrow> \<not> P (last xs) \<Longrightarrow> dropWhile P xs \<noteq> [] \<and> last (dropWhile P xs) = last xs"
  by (induction xs) auto

lemma lstrip_head: "lstrip s \<noteq> [] \<Longrightarrow> \<not> is_space (hd (lstrip s))"
  unfolding lstrip_def by (rule hd_dropWhile)

lemma lstrip_fixed: "s = [] \<or> \<not> is_space (hd s) \<Longrightarrow> lstrip s = s"
  by (cases s) (auto simp: lstrip_def)

lemma strip_ends:
  "strip s = [] \<or> (\<not> is_space (hd (strip s)) \<and> \<not> is_space (last (strip s)))"
proof (cases "strip s = []")
  case False
  let ?l = "lstrip s" and ?r = "lstrip (rev (lstrip s))"
  have r: "?r \<noteq> []" using False by (simp add: strip_def)
  then have l: "?l \<noteq> []" by (cases "?l") (auto simp: lstrip_def [of "[]"])
  have "last (rev ?l) = hd ?l" using l by (simp add: last_rev)
  then have "\<not> is_space (last (rev ?l))" using lstrip_head [OF l] by simp
  then have "last ?r = hd ?l"
    using dropWhile_last [of "rev ?l" is_space] l by (simp add: lstrip_def last_rev)
  then have "hd (strip s) = hd ?l" using r by (simp add: strip_def hd_rev)
  moreover have "last (strip s) = hd ?r" using r by (simp add: strip_def last_rev)
  ultimately show ?thesis using lstrip_head [OF l] lstrip_head [OF r] by simp
qed simp

lemma strip_strip [simp]: "strip (strip s) = strip s"
proof -
  have 1: "lstrip (strip s) = strip s"
    using strip_ends [of s] by (intro lstrip_fixed) auto
  have 2: "lstrip (rev (strip s)) = rev (strip s)"
    using strip_ends [of s] by (intro lstrip_fixed) (auto simp: hd_rev)
  have "strip (strip s) = rev (lstrip (rev (lstrip (strip s))))" by (simp only: strip_def)
  also have "\<dots> = strip s" by (simp only: 1 2 rev_rev_ident)
  finally show ?thesis .
qed

lemma strip_Nil [simp]: "strip [] = []"
  by (simp add: strip_def lstrip_def)

section \<open>Decimal numerals\<close>

definition digit_of :: "nat \<Rightarrow> char" where
  "digit_of n = char_of (48 + n)"

definition digit_value :: "char \<Rightarrow> nat" where
  "digit_value c = code c - 48"

fun show_nat :: "nat \<Rightarrow> string" where
  "show_nat n = (if n < 10 then [digit_of n] else show_nat (n div 10) @ [digit_of (n mod 10)])"

declare show_nat.simps [simp del]

definition show_int :: "int \<Rightarrow> string" where
  "show_int i = (if i < 0 then CHR ''-'' # show_nat (nat (- i)) else show_nat (nat i))"

definition read_nat :: "string \<Rightarrow> nat" where
  "read_nat s = foldl (\<lambda>n c. 10 * n + digit_value c) 0 s"

lemma digit_of_value: "n < 10 \<Longrightarrow> ascii_digit (digit_of n) \<and> digit_value (digit_of n) = n"
  by (simp add: digit_of_def ascii_digit_def digit_value_def code_char_of)

lemma show_nat_digits: "show_nat n \<noteq> [] \<and> list_all ascii_digit (show_nat n)"
proof (induction n rule: show_nat.induct)
  case (1 n)
  then show ?case
    by (cases "n < 10") (simp_all add: show_nat.simps [of n] digit_of_value)
qed

lemma read_show_nat [simp]: "read_nat (show_nat n) = n"
proof (induction n rule: show_nat.induct)
  case (1 n)
  show ?case
  proof (cases "n < 10")
    case True
    then show ?thesis by (simp add: show_nat.simps [of n] read_nat_def digit_of_value)
  next
    case False
    then have "read_nat (show_nat (n div 10)) = n div 10" by (rule "1")
    with False show ?thesis
      by (simp add: show_nat.simps [of n] read_nat_def digit_of_value)
  qed
qed

lemma ascii_digit_digit_char: "ascii_digit c \<Longrightarrow> digit_char c"
  by (simp add: digit_char_def)

lemma isdigit_show_nat [simp]: "isdigit (show_nat n)"
  using show_nat_digits [of n]
  by (auto simp: isdigit_def list_all_iff intro: ascii_digit_digit_char)

text \<open>\<open>int(s)\<close> for a string of digit characters: the superscripts are refused.\<close>

definition int_of_digits :: "string \<Rightarrow> int res" where
  "int_of_digits s = (if s \<noteq> [] \<and> list_all ascii_digit s then Inr (int (read_nat s)) else Inl ValueError)"

lemma int_of_digits_show_nat [simp]: "int_of_digits (show_nat n) = Inr (int n)"
  using show_nat_digits [of n] by (simp add: int_of_digits_def)

section \<open>Floats\<close>

text \<open>
  A Python float: the exact value of a finite one, or one of the three values that are
  not numbers. Every comparison with \<open>NaN\<close> is false; rounding is not modelled.
\<close>

datatype pyfloat = NaN | PosInf | NegInf | Fin rat

fun float_lt :: "pyfloat \<Rightarrow> pyfloat \<Rightarrow> bool" where
  "float_lt NaN y = False"
| "float_lt x NaN = False"
| "float_lt PosInf y = False"
| "float_lt NegInf y = (y \<noteq> NegInf)"
| "float_lt x NegInf = False"
| "float_lt x PosInf = True"
| "float_lt (Fin a) (Fin b) = (a < b)"

definition isfinite :: "pyfloat \<Rightarrow> bool" where
  "isfinite x = (case x of Fin r \<Rightarrow> True | _ \<Rightarrow> False)"

definition isnan :: "pyfloat \<Rightarrow> bool" where
  "isnan x \<longleftrightarrow> x = NaN"

lemma isfinite_iff: "isfinite x \<longleftrightarrow> (\<exists>r. x = Fin r)"
  by (cases x) (simp_all add: isfinite_def)

lemma float_lt_irrefl [simp]: "\<not> float_lt x x"
  by (cases x) simp_all

lemma float_lt_trans: "float_lt x y \<Longrightarrow> float_lt y z \<Longrightarrow> float_lt x z"
  by (cases x; cases y; cases z) auto

section \<open>Lists\<close>

text \<open>\<open>seen.setdefault\<close> over a list: the first occurrence of each element, in order.\<close>

definition dedup :: "'a list \<Rightarrow> 'a list" where
  "dedup xs = foldl (\<lambda>acc x. if x \<in> set acc then acc else acc @ [x]) [] xs"

lemma foldl_dedup_set:
  "set (foldl (\<lambda>acc x. if x \<in> set acc then acc else acc @ [x]) acc xs) = set acc \<union> set xs"
  by (induction xs arbitrary: acc) auto

lemma foldl_dedup_distinct:
  "distinct acc \<Longrightarrow> distinct (foldl (\<lambda>acc x. if x \<in> set acc then acc else acc @ [x]) acc xs)"
  by (induction xs arbitrary: acc) auto

lemma foldl_dedup_id:
  "distinct (acc @ xs) \<Longrightarrow> foldl (\<lambda>acc x. if x \<in> set acc then acc else acc @ [x]) acc xs = acc @ xs"
  by (induction xs arbitrary: acc) auto

lemma set_dedup [simp]: "set (dedup xs) = set xs"
  by (simp add: dedup_def foldl_dedup_set)

lemma distinct_dedup [simp]: "distinct (dedup xs)"
  by (simp add: dedup_def foldl_dedup_distinct)

lemma dedup_distinct: "distinct xs \<Longrightarrow> dedup xs = xs"
  using foldl_dedup_id [of "[]" xs] by (simp add: dedup_def)

lemma dedup_Nil_iff [simp]: "dedup xs = [] \<longleftrightarrow> xs = []"
  by (metis set_dedup set_empty)

lemma find_Some_iff_mem: "List.find P xs = Some x \<Longrightarrow> x \<in> set xs \<and> P x"
  by (auto simp: find_Some_iff)

lemma find_None_iff_all: "List.find P xs = None \<longleftrightarrow> (\<forall>x \<in> set xs. \<not> P x)"
  by (auto simp: find_None_iff)

section \<open>Transition systems\<close>

text \<open>
  What a component with a state promises: an invariant its first states have and every
  step keeps; a system with an audit trail also only ever appends to it. The state
  machines of the development are interpretations.
\<close>

locale transition_system =
  fixes init :: "'s \<Rightarrow> bool" and step :: "'s \<Rightarrow> 's \<Rightarrow> bool" and inv :: "'s \<Rightarrow> bool"
  assumes base: "init s \<Longrightarrow> inv s"
    and keep: "inv s \<Longrightarrow> step s t \<Longrightarrow> inv t"
begin

lemma run_keeps: "rtranclp step s t \<Longrightarrow> inv s \<Longrightarrow> inv t"
  by (induction rule: rtranclp_induct) (auto intro: keep)

lemma reachable_inv: "init s \<Longrightarrow> rtranclp step s t \<Longrightarrow> inv t"
  by (rule run_keeps [OF _ base])

end

locale audited_system = transition_system init step inv
  for init :: "'s \<Rightarrow> bool" and step :: "'s \<Rightarrow> 's \<Rightarrow> bool" and inv :: "'s \<Rightarrow> bool" +
  fixes trail :: "'s \<Rightarrow> 'c list"
  assumes appends: "inv s \<Longrightarrow> step s t \<Longrightarrow> prefix (trail s) (trail t)"
begin

lemma trail_grows: "rtranclp step s t \<Longrightarrow> inv s \<Longrightarrow> prefix (trail s) (trail t)"
proof (induction rule: rtranclp_induct)
  case (step u v)
  then show ?case using run_keeps [OF step(1)] appends [of u v] prefix_order.trans by blast
qed simp

end

end
