(* ===== verification/Seq_Ranges.thy ===== *)
theory Seq_Ranges
  imports Prelude
begin

text \<open>
  \<open>wire/seq_ranges.py\<close>: one inclusive interval of sequence numbers and its wire
  spelling \<open>start..stop\<close>. The lemmas show that the wire spelling is read back as
  written, and exactly which texts the range-checked parser accepts.
\<close>

record seq_range =
  start :: "int option"
  stop :: "int option"

text \<open>\<open>SeqRange.__post_init__\<close>: a range has at least one bound.\<close>

definition SeqRange :: "int option \<Rightarrow> int option \<Rightarrow> seq_range res" where
  "SeqRange a b =
     (if a = None \<and> b = None then Inl ValueError else Inr \<lparr>start = a, stop = b\<rparr>)"

definition show_bound :: "int option \<Rightarrow> string" where
  "show_bound b = (case b of None \<Rightarrow> [] | Some n \<Rightarrow> show_int n)"

definition format_interval :: "seq_range \<Rightarrow> string" where
  "format_interval r = show_bound (start r) @ ''..'' @ show_bound (stop r)"

text \<open>\<open>text.split("..")\<close>: the leftmost non-overlapping separators, as \<open>str.split\<close> and
  \<open>str.count\<close> find them.\<close>

fun split_dots :: "string \<Rightarrow> string list" where
  "split_dots [] = [[]]"
| "split_dots [c] = [[c]]"
| "split_dots (c # d # cs) =
     (if c = CHR ''.'' \<and> d = CHR ''.'' then [] # split_dots cs
      else (c # hd (split_dots (d # cs))) # tl (split_dots (d # cs)))"

definition count_dots :: "string \<Rightarrow> nat" where
  "count_dots s = length (split_dots s) - 1"

definition parse_bound :: "string \<Rightarrow> int option res" where
  "parse_bound s = (if s = [] then Inr None else bind_res (int_of_digits s) (\<lambda>n. Inr (Some n)))"

definition parse_interval :: "string \<Rightarrow> seq_range res" where
  "parse_interval t =
     (if count_dots t \<noteq> 1 then Inl ValueError
      else let a = split_dots t ! 0; b = split_dots t ! 1
      in if a = [] \<and> b = [] then Inl ValueError
      else if a \<noteq> [] \<and> \<not> isdigit a then Inl ValueError
      else if b \<noteq> [] \<and> \<not> isdigit b then Inl ValueError
      else bind_res (parse_bound a) (\<lambda>x. bind_res (parse_bound b) (\<lambda>y. SeqRange x y)))"

definition below :: "int option \<Rightarrow> int \<Rightarrow> bool" where
  "below b n = (case b of None \<Rightarrow> False | Some x \<Rightarrow> x < n)"

definition inverted :: "seq_range \<Rightarrow> bool" where
  "inverted r = (case (start r, stop r) of (Some a, Some b) \<Rightarrow> a > b | _ \<Rightarrow> False)"

definition parse_seq_range :: "string \<Rightarrow> int \<Rightarrow> seq_range res" where
  "parse_seq_range t min_seq =
     bind_res (parse_interval t) (\<lambda>r.
       if below (start r) min_seq then Inl ValueError
       else if below (stop r) min_seq then Inl ValueError
       else if inverted r then Inl ValueError
       else Inr r)"

text \<open>The numbers a range selects.\<close>

definition selects :: "seq_range \<Rightarrow> int \<Rightarrow> bool" where
  "selects r n \<longleftrightarrow>
     (case start r of None \<Rightarrow> True | Some a \<Rightarrow> a \<le> n) \<and>
     (case stop r of None \<Rightarrow> True | Some b \<Rightarrow> n \<le> b)"

definition wire_range :: "seq_range \<Rightarrow> bool" where
  "wire_range r \<longleftrightarrow> \<not> (start r = None \<and> stop r = None) \<and> \<not> below (start r) 0 \<and> \<not> below (stop r) 0"

section \<open>Splitting\<close>

lemma split_dots_nonempty [simp]: "split_dots s \<noteq> []"
  by (cases s rule: split_dots.cases) auto

lemma split_dots_plain:
  "list_all (\<lambda>c. c \<noteq> CHR ''.'') s \<Longrightarrow> split_dots s = [s]"
  by (induction s rule: split_dots.induct) auto

lemma split_dots_pair:
  assumes "list_all (\<lambda>c. c \<noteq> CHR ''.'') a" "list_all (\<lambda>c. c \<noteq> CHR ''.'') b"
  shows "split_dots (a @ ''..'' @ b) = [a, b]"
  using assms
proof (induction a)
  case Nil
  then show ?case by (simp add: split_dots_plain)
next
  case (Cons c a)
  then have IH: "split_dots (a @ ''..'' @ b) = [a, b]" and c: "c \<noteq> CHR ''.''" by auto
  obtain d ds where "a @ ''..'' @ b = d # ds" by (cases a) auto
  with IH c show ?case by simp
qed

lemma ascii_digit_not_dot: "ascii_digit c \<Longrightarrow> c \<noteq> CHR ''.''"
  by (auto simp: ascii_digit_def code_def)

lemma show_nat_plain: "list_all (\<lambda>c. c \<noteq> CHR ''.'') (show_nat n)"
  using show_nat_digits [of n] ascii_digit_not_dot by (auto simp: list_all_iff)

lemma show_bound_plain:
  "\<not> below b 0 \<Longrightarrow> list_all (\<lambda>c. c \<noteq> CHR ''.'') (show_bound b)"
  by (auto simp: show_bound_def show_int_def below_def show_nat_plain split: option.splits)

lemma parse_show_bound: "\<not> below b 0 \<Longrightarrow> parse_bound (show_bound b) = Inr b"
  using show_nat_digits
  by (auto simp: parse_bound_def show_bound_def show_int_def below_def split: option.splits)

lemma show_bound_digits:
  "\<not> below b 0 \<Longrightarrow> show_bound b \<noteq> [] \<Longrightarrow> isdigit (show_bound b)"
  by (auto simp: show_bound_def show_int_def below_def split: option.splits)

lemma show_bound_Nil: "\<not> below b 0 \<Longrightarrow> show_bound b = [] \<longleftrightarrow> b = None"
  using show_nat_digits
  by (auto simp: show_bound_def show_int_def below_def split: option.splits)

lemma parse_interval_bounds:
  assumes "parse_interval t = Inr r"
  shows "wire_range r"
  using assms
  by (auto simp: parse_interval_def parse_bound_def int_of_digits_def SeqRange_def wire_range_def
      below_def Let_def res_simps split: if_splits)

section \<open>Properties\<close>

text \<open>The wire spelling of a range with natural bounds is parsed back to that range.\<close>

theorem parse_format_interval:
  assumes "wire_range r"
  shows "parse_interval (format_interval r) = Inr r"
proof -
  have b: "\<not> below (start r) 0" "\<not> below (stop r) 0" "\<not> (start r = None \<and> stop r = None)"
    using assms by (auto simp: wire_range_def)
  have s: "split_dots (format_interval r) = [show_bound (start r), show_bound (stop r)]"
    unfolding format_interval_def using b by (intro split_dots_pair show_bound_plain)
  then have c: "count_dots (format_interval r) = 1"
    by (simp add: count_dots_def)
  let ?a = "show_bound (start r)" and ?b = "show_bound (stop r)"
  have ok: "\<not> (?a = [] \<and> ?b = [])" "\<not> (?a \<noteq> [] \<and> \<not> isdigit ?a)" "\<not> (?b \<noteq> [] \<and> \<not> isdigit ?b)"
    using b show_bound_digits [OF b(1)] show_bound_digits [OF b(2)] show_bound_Nil [OF b(1)]
      show_bound_Nil [OF b(2)] by blast+
  have "parse_interval (format_interval r) = bind_res (parse_bound ?a) (\<lambda>x. bind_res (parse_bound ?b) (SeqRange x))"
    unfolding parse_interval_def Let_def c s nth_Cons_0 One_nat_def nth_Cons_Suc if_not_P [OF ok(1)]
      if_not_P [OF ok(2)] if_not_P [OF ok(3)] by simp
  also have "\<dots> = SeqRange (start r) (stop r)" using b by (simp add: parse_show_bound)
  finally show ?thesis using b by (simp add: SeqRange_def)
qed

theorem parse_format_interval_witness:
  "parse_interval (format_interval \<lparr>start = Some 222, stop = None\<rparr>)
     = Inr \<lparr>start = Some 222, stop = None\<rparr>"
  by (rule parse_format_interval) (simp add: wire_range_def below_def)

text \<open>A range the parser accepts has a bound, every bound is at least \<open>min_seq\<close>, and it selects
  at least one number: no accepted range is empty.\<close>

theorem parse_seq_range_nonempty:
  assumes "parse_seq_range t m = Inr r" and "0 \<le> m"
  shows "wire_range r \<and> \<not> below (start r) m \<and> \<not> below (stop r) m \<and> (\<exists>n \<ge> m. selects r n)"
proof -
  have r: "parse_interval t = Inr r" "\<not> below (start r) m" "\<not> below (stop r) m" "\<not> inverted r"
    using assms by (auto simp: parse_seq_range_def res_simps split: if_splits)
  have "\<exists>n \<ge> m. selects r n"
    using r(2-4)
    by (intro exI [of _ "case start r of None \<Rightarrow> m | Some a \<Rightarrow> a"])
      (auto simp: selects_def below_def inverted_def split: option.splits)
  with r parse_interval_bounds [OF r(1)] show ?thesis by simp
qed

theorem parse_seq_range_nonempty_witness:
  "wire_range \<lparr>start = Some 3, stop = Some 7\<rparr> \<and> (\<exists>n \<ge> 1. selects \<lparr>start = Some 3, stop = Some 7\<rparr> n)"
proof -
  have p: "parse_seq_range ''3..7'' 1 = Inr \<lparr>start = Some 3, stop = Some 7\<rparr>" by code_simp
  show ?thesis using parse_seq_range_nonempty [OF p] by simp
qed

end
