(* ===== verification/Values.thy ===== *)
theory Values
  imports Prelude
begin

text \<open>
  \<open>server/values.py\<close>: the shape every string list and every optional column takes at
  the storage boundary. \<open>canonical_strs\<close> strips, drops blanks and keeps the first of
  equal entries; \<open>byline_strs\<close> keeps repetitions; \<open>empty_optional_to_none\<close> makes SQL
  NULL the one spelling of an absent value. The lemmas give the fixed points of the
  three, on which the edge and inquiry stores rely.
\<close>

definition byline_strs :: "string list \<Rightarrow> string list" where
  "byline_strs vs = filter (\<lambda>s. s \<noteq> []) (map strip vs)"

definition canonical_strs :: "string list \<Rightarrow> string list" where
  "canonical_strs vs =
     foldl (\<lambda>seen v. if strip v \<noteq> [] \<and> strip v \<notin> set seen then seen @ [strip v] else seen) [] vs"

text \<open>The string and the sequence case of \<open>empty_optional_to_none\<close>; any other value passes.\<close>

definition empty_str_to_none :: "string \<Rightarrow> string option" where
  "empty_str_to_none s = (if strip s = [] then None else Some s)"

definition empty_list_to_none :: "'a list \<Rightarrow> 'a list option" where
  "empty_list_to_none xs = (if xs = [] then None else Some xs)"

definition list_or_none :: "'a list option \<Rightarrow> 'a list option" where
  "list_or_none v = (case v of None \<Rightarrow> None | Some xs \<Rightarrow> Some xs)"

text \<open>A list that \<open>canonical_strs\<close> could have produced.\<close>

definition canonical :: "string list \<Rightarrow> bool" where
  "canonical xs \<longleftrightarrow> distinct xs \<and> (\<forall>x \<in> set xs. x \<noteq> [] \<and> strip x = x)"

lemma canonical_foldl:
  "foldl (\<lambda>seen v. if strip v \<noteq> [] \<and> strip v \<notin> set seen then seen @ [strip v] else seen) acc vs
   = foldl (\<lambda>acc x. if x \<in> set acc then acc else acc @ [x]) acc (byline_strs vs)"
  by (induction vs arbitrary: acc) (simp_all add: byline_strs_def)

lemma canonical_strs_dedup: "canonical_strs vs = dedup (byline_strs vs)"
  by (simp add: canonical_strs_def canonical_foldl dedup_def)

lemma set_canonical_strs: "set (canonical_strs vs) = strip ` set vs - {[]}"
  by (auto simp: canonical_strs_dedup byline_strs_def)

lemma canonical_canonical_strs [simp]: "canonical (canonical_strs vs)"
  by (auto simp: canonical_def canonical_strs_dedup byline_strs_def)

lemma canonical_strs_Nil [simp]: "canonical_strs [] = []"
  by (simp add: canonical_strs_def)

lemma canonical_strs_fixed: "canonical xs \<Longrightarrow> canonical_strs xs = xs"
proof -
  assume c: "canonical xs"
  then have "map strip xs = xs" by (auto simp: canonical_def intro: map_idI)
  then have "byline_strs xs = xs" using c by (auto simp: byline_strs_def canonical_def filter_id_conv)
  with c show ?thesis by (simp add: canonical_strs_dedup dedup_distinct canonical_def)
qed

lemma canonical_strs_idem [simp]: "canonical_strs (canonical_strs vs) = canonical_strs vs"
  by (simp add: canonical_strs_fixed)

lemma canonical_Nil [simp]: "canonical []"
  by (simp add: canonical_def)

lemma canonical_filter: "canonical xs \<Longrightarrow> canonical (filter P xs)"
  by (auto simp: canonical_def)

lemma canonical_snoc:
  "canonical xs \<Longrightarrow> x \<notin> set xs \<Longrightarrow> x \<noteq> [] \<Longrightarrow> strip x = x \<Longrightarrow> canonical (xs @ [x])"
  by (auto simp: canonical_def)

lemma list_or_none_id [simp]: "list_or_none v = v"
  by (cases v) (simp_all add: list_or_none_def)

lemma empty_list_to_none_simps [simp]:
  "empty_list_to_none [] = None"
  "empty_list_to_none (x # xs) = Some (x # xs)"
  by (simp_all add: empty_list_to_none_def)

lemma empty_list_to_none_Some: "empty_list_to_none xs = Some ys \<longleftrightarrow> ys = xs \<and> xs \<noteq> []"
  by (auto simp: empty_list_to_none_def)

lemma empty_str_to_none_Some: "empty_str_to_none s = Some t \<longleftrightarrow> t = s \<and> strip s \<noteq> []"
  by (auto simp: empty_str_to_none_def)

text \<open>Canonicalizing a string list is idempotent; its result has no blank entry, no
  padding and no repetition, and it keeps exactly the stripped non-blank entries.\<close>

theorem canonical_strs_correct:
  "canonical_strs (canonical_strs vs) = canonical_strs vs
   \<and> distinct (canonical_strs vs) \<and> set (canonical_strs vs) = strip ` set vs - {[]}"
  using canonical_canonical_strs [of vs] unfolding canonical_def
  by (simp only: set_canonical_strs canonical_strs_idem simp_thms)

end
