(* ===== verification/Ontology.thy ===== *)
theory Ontology
  imports Prelude
begin

text \<open>
  \<open>types/edges.py\<close>, and the kind discriminators of \<open>types/inquiries.py\<close>: the closed
  sets of inquiry kinds and edge kinds, the policy table that says how each edge kind
  behaves, and the three tables derived from it. The prose description of a policy is
  left out. The lemmas pin the topology and the partition of the edge kinds that
  provenance inference relies on.
\<close>

datatype inquiry_kind =
    Issue | Artifact | Experiment | Paper | Belief | CodeChange | WebResult | WebSearch
  | AgentSession | AccessGroup

datatype edge_kind = Narrows | Requires | ProducedBy | Proves | Favors | Supersedes | CitesPaper

definition inquiry_kinds :: "inquiry_kind list" where
  "inquiry_kinds = [Issue, Artifact, Experiment, Paper, Belief, CodeChange, WebResult, WebSearch,
     AgentSession, AccessGroup]"

definition evidence_kinds :: "inquiry_kind list" where
  "evidence_kinds = [Artifact, Experiment, Paper, Belief, CodeChange, WebResult, WebSearch, AgentSession]"

definition edge_kinds :: "edge_kind list" where
  "edge_kinds = [Narrows, Requires, ProducedBy, Proves, Favors, Supersedes, CitesPaper]"

text \<open>The members' spellings, as the \<open>Literal\<close> types and the database carry them.\<close>

fun edge_kind_name :: "edge_kind \<Rightarrow> string" where
  "edge_kind_name Narrows = ''narrows''"
| "edge_kind_name Requires = ''requires''"
| "edge_kind_name ProducedBy = ''produced_by''"
| "edge_kind_name Proves = ''proves''"
| "edge_kind_name Favors = ''favors''"
| "edge_kind_name Supersedes = ''supersedes''"
| "edge_kind_name CitesPaper = ''cites_paper''"

definition edge_kind_of_name :: "string \<Rightarrow> edge_kind option" where
  "edge_kind_of_name s = List.find (\<lambda>k. edge_kind_name k = s) edge_kinds"

datatype edge_endpoint = From | To

datatype kind_group =
  GIssue | GInquiry | GEvidence | GBelief | GExperiment | GClaimable | GPaper

fun kind_group_members :: "kind_group \<Rightarrow> inquiry_kind list" where
  "kind_group_members GIssue = [Issue]"
| "kind_group_members GInquiry = inquiry_kinds"
| "kind_group_members GEvidence = evidence_kinds"
| "kind_group_members GBelief = [Belief]"
| "kind_group_members GExperiment = [Experiment]"
| "kind_group_members GClaimable = [Belief, Experiment]"
| "kind_group_members GPaper = [Paper]"

record edge_kind_policy =
  forward_label :: string
  inverse_label :: string
  from_kinds :: kind_group
  to_kinds :: kind_group
  cascade_dependent :: edge_endpoint
  skips_scheduler_on :: "edge_endpoint option"
  invalidates_currency_on :: "edge_endpoint option"
  enforces_acyclicity :: bool

text \<open>The constructor's defaults: the from side depends, nothing is skipped, cycles are refused.\<close>

definition EdgeKindPolicy :: "string \<Rightarrow> string \<Rightarrow> kind_group \<Rightarrow> kind_group \<Rightarrow> edge_kind_policy" where
  "EdgeKindPolicy fwd back f t =
     \<lparr>forward_label = fwd, inverse_label = back, from_kinds = f, to_kinds = t,
      cascade_dependent = From, skips_scheduler_on = None, invalidates_currency_on = None,
      enforces_acyclicity = True\<rparr>"

fun EDGE_POLICIES :: "edge_kind \<Rightarrow> edge_kind_policy" where
  "EDGE_POLICIES Narrows =
     (EdgeKindPolicy ''narrows'' ''narrowed_by'' GIssue GIssue)\<lparr>cascade_dependent := To\<rparr>"
| "EDGE_POLICIES Requires = EdgeKindPolicy ''requires'' ''required_by'' GIssue GIssue"
| "EDGE_POLICIES ProducedBy = EdgeKindPolicy ''produced_by'' ''produces'' GInquiry GInquiry"
| "EDGE_POLICIES Proves =
     (EdgeKindPolicy ''proves'' ''proved_by'' GEvidence GClaimable)\<lparr>cascade_dependent := To\<rparr>"
| "EDGE_POLICIES Favors =
     (EdgeKindPolicy ''favors'' ''favored_by'' GEvidence GClaimable)\<lparr>cascade_dependent := To\<rparr>"
| "EDGE_POLICIES Supersedes =
     (EdgeKindPolicy ''supersedes'' ''superseded_by'' GInquiry GInquiry)
       \<lparr>skips_scheduler_on := Some To, invalidates_currency_on := Some To\<rparr>"
| "EDGE_POLICIES CitesPaper =
     (EdgeKindPolicy ''cites'' ''cited_by'' GPaper GPaper)\<lparr>enforces_acyclicity := False\<rparr>"

definition PRODUCED_INFERENCE_PRECEDENCE :: "edge_kind list" where
  "PRODUCED_INFERENCE_PRECEDENCE = [ProducedBy, Narrows, Requires, Supersedes]"

definition PRODUCED_INFERENCE_SUPPRESSED :: "edge_kind list" where
  "PRODUCED_INFERENCE_SUPPRESSED = [ProducedBy]"

definition PRODUCED_INFERENCE_NEUTRAL :: "edge_kind list" where
  "PRODUCED_INFERENCE_NEUTRAL = [CitesPaper, Proves, Favors]"

text \<open>
  \<open>applies_to_edge_kinds\<close> of the four annotation fields of \<open>Edge\<close>: \<open>None\<close> for a field
  that applies to every kind.
\<close>

datatype annotation = APriority | ANote | AValence | ALabels

fun applies_to_edge_kinds :: "annotation \<Rightarrow> edge_kind list option" where
  "applies_to_edge_kinds APriority = Some [Narrows, Requires]"
| "applies_to_edge_kinds ANote = None"
| "applies_to_edge_kinds AValence = Some [Proves, Favors]"
| "applies_to_edge_kinds ALabels = None"

definition carries :: "annotation \<Rightarrow> edge_kind \<Rightarrow> bool" where
  "carries a k = (case applies_to_edge_kinds a of None \<Rightarrow> True | Some ks \<Rightarrow> k \<in> set ks)"

definition edge_topology :: "(edge_kind \<times> inquiry_kind list \<times> inquiry_kind list) list" where
  "edge_topology = map (\<lambda>k. (k, kind_group_members (from_kinds (EDGE_POLICIES k)),
     kind_group_members (to_kinds (EDGE_POLICIES k)))) edge_kinds"

definition edge_labels :: "(edge_kind \<times> string \<times> string) list" where
  "edge_labels = map (\<lambda>k. (k, forward_label (EDGE_POLICIES k), inverse_label (EDGE_POLICIES k))) edge_kinds"

definition edge_annotations :: "(edge_kind \<times> annotation list) list" where
  "edge_annotations = map (\<lambda>k. (k, filter (\<lambda>a. carries a k) [APriority, ANote, AValence, ALabels])) edge_kinds"

definition admits :: "edge_kind \<Rightarrow> inquiry_kind \<Rightarrow> inquiry_kind \<Rightarrow> bool" where
  "admits k f t \<longleftrightarrow> f \<in> set (kind_group_members (from_kinds (EDGE_POLICIES k)))
     \<and> t \<in> set (kind_group_members (to_kinds (EDGE_POLICIES k)))"

text \<open>The edge-validity CHECK of \<open>assets/schema.sql\<close>, disjunct by disjunct.\<close>

definition edges_check :: "edge_kind \<Rightarrow> inquiry_kind \<Rightarrow> inquiry_kind \<Rightarrow> bool" where
  "edges_check k f t \<longleftrightarrow>
     (k = Narrows \<and> f = Issue \<and> t = Issue)
   \<or> (k = Requires \<and> f = Issue \<and> t = Issue)
   \<or> (k = ProducedBy \<and> f \<in> set inquiry_kinds \<and> t \<in> set inquiry_kinds)
   \<or> (k \<in> {Proves, Favors} \<and> f \<in> set evidence_kinds \<and> t \<in> set [Belief, Experiment])
   \<or> (k = Supersedes \<and> f \<in> set inquiry_kinds \<and> t \<in> set inquiry_kinds)
   \<or> (k = CitesPaper \<and> f \<in> set [Paper] \<and> t \<in> set [Paper])"

lemma set_inquiry_kinds: "set inquiry_kinds = UNIV"
  using inquiry_kind.nchotomy by (auto simp: inquiry_kinds_def)

lemma set_edge_kinds: "set edge_kinds = UNIV"
  using edge_kind.nchotomy by (auto simp: edge_kinds_def)

lemma edge_kind_of_name_Some: "edge_kind_of_name s = Some k \<longleftrightarrow> s = edge_kind_name k"
  by (cases k) (auto simp: edge_kind_of_name_def edge_kinds_def)

lemma carries_simps [simp]:
  "carries APriority k \<longleftrightarrow> k = Narrows \<or> k = Requires"
  "carries AValence k \<longleftrightarrow> k = Proves \<or> k = Favors"
  "carries ANote k" "carries ALabels k"
  by (simp_all add: carries_def)

lemma admits_cites_paper: "admits CitesPaper f t \<longleftrightarrow> f = Paper \<and> t = Paper"
  by (simp add: admits_def EdgeKindPolicy_def)

lemma admits_any: "k \<in> {ProducedBy, Supersedes} \<Longrightarrow> admits k f t"
  by (auto simp: admits_def EdgeKindPolicy_def set_inquiry_kinds)

lemma admits_edges_check: "admits k f t \<longleftrightarrow> edges_check k f t"
  by (cases k) (auto simp: admits_def edges_check_def EdgeKindPolicy_def set_inquiry_kinds)

text \<open>C27: the policy table and the database agree: an edge kind admits a pair of endpoint kinds by
  its policy exactly when the edges table's CHECK accepts the triple.\<close>

theorem policy_topology_is_schema_check: "admits k f t \<longleftrightarrow> edges_check k f t"
  by (rule admits_edges_check)

text \<open>Every edge kind either takes part in provenance inference or is explicitly neutral, never
  both; only a kind that takes part can suppress it.\<close>

theorem inference_partition:
  "set PRODUCED_INFERENCE_PRECEDENCE \<inter> set PRODUCED_INFERENCE_NEUTRAL = {}
   \<and> set PRODUCED_INFERENCE_PRECEDENCE \<union> set PRODUCED_INFERENCE_NEUTRAL = set edge_kinds
   \<and> set PRODUCED_INFERENCE_SUPPRESSED \<subseteq> set PRODUCED_INFERENCE_PRECEDENCE"
  unfolding set_edge_kinds
  using edge_kind.nchotomy
  by (auto simp: PRODUCED_INFERENCE_PRECEDENCE_def PRODUCED_INFERENCE_NEUTRAL_def
      PRODUCED_INFERENCE_SUPPRESSED_def)

end
