(* ===== verification/Column_Specs.thy ===== *)
theory Column_Specs
  imports Values Ontology
begin

text \<open>
  \<open>types/columns.py\<close>, the column fields of \<open>types/inquiries.py\<close>, the behavioral hooks of
  \<open>server/setter_dispatch.py\<close> and the CHECK bodies \<open>server/schema_gen.py\<close> renders from
  them: what the editable columns of an inquiry are, what each may hold, and how a value
  is normalized and compared. A column is named by its storage name.
\<close>

section \<open>JSON values\<close>

text \<open>
  A number with a fraction is a decimal \<open>JDec m k\<close>, the value \<open>m / 10 ^ k\<close> with \<open>k\<close> digits
  after the point, as \<open>JSONB\<close> keeps it. The keys of an object are distinct.
\<close>

datatype json =
    JNull | JBool bool | JInt int | JDec int nat | JStr string
  | JArr "json list" | JObj "(string \<times> json) list"

text \<open>What two values are compared by. An object's members are sorted by their key.\<close>

datatype json_key =
    KNull | KBool bool | KInt int | KNum rat | KStr string
  | KArr "json_key list" | KObj "(string \<times> json_key) list"

definition dec_value :: "int \<Rightarrow> nat \<Rightarrow> rat" where
  "dec_value m k = of_int m / 10 ^ k"

fun str_less :: "string \<Rightarrow> string \<Rightarrow> bool" where
  "str_less [] [] = False"
| "str_less [] (y # ys) = True"
| "str_less (x # xs) [] = False"
| "str_less (x # xs) (y # ys) =
     (code x < code y \<or> (x = y \<and> str_less xs ys))"

fun insert_member :: "string \<times> 'a \<Rightarrow> (string \<times> 'a) list \<Rightarrow> (string \<times> 'a) list" where
  "insert_member m [] = [m]"
| "insert_member m (x # xs) = (if str_less (fst m) (fst x) then m # x # xs else x # insert_member m xs)"

definition sort_members :: "(string \<times> 'a) list \<Rightarrow> (string \<times> 'a) list" where
  "sort_members ms = foldr insert_member ms []"

text \<open>\<open>json.dumps(v, sort_keys=True)\<close>, as the tree it spells: two values have one text iff
  they have one key.\<close>

fun dumps_key :: "json \<Rightarrow> json_key" where
  "dumps_key JNull = KNull"
| "dumps_key (JBool b) = KBool b"
| "dumps_key (JInt i) = KInt i"
| "dumps_key (JDec m k) = KNum (dec_value m k)"
| "dumps_key (JStr s) = KStr s"
| "dumps_key (JArr xs) = KArr (map dumps_key xs)"
| "dumps_key (JObj ms) = KObj (sort_members (map (\<lambda>(n, v). (n, dumps_key v)) ms))"

text \<open>What Python's \<open>==\<close> compares: a boolean is the integer it equals, an integer the number.\<close>

fun python_key :: "json \<Rightarrow> json_key" where
  "python_key JNull = KNull"
| "python_key (JBool b) = KNum (if b then 1 else 0)"
| "python_key (JInt i) = KNum (of_int i)"
| "python_key (JDec m k) = KNum (dec_value m k)"
| "python_key (JStr s) = KStr s"
| "python_key (JArr xs) = KArr (map python_key xs)"
| "python_key (JObj ms) = KObj (sort_members (map (\<lambda>(n, v). (n, python_key v)) ms))"

text \<open>The length of a value's \<open>JSONB\<close> text: \<open>, \<close> between elements, \<open>: \<close> after a key.\<close>

fun digits :: "nat \<Rightarrow> nat" where
  "digits n = (if n < 10 then 1 else Suc (digits (n div 10)))"

declare digits.simps [simp del]

definition escaped_octets :: "char \<Rightarrow> nat" where
  "escaped_octets c =
     (if code c \<in> {34, 92, 8, 9, 10, 12, 13} then 2 else if code c < 32 then 6
      else if code c < 128 then 1 else 2)"

definition str_octets :: "string \<Rightarrow> nat" where
  "str_octets s = 2 + sum_list (map escaped_octets s)"

fun json_octets :: "json \<Rightarrow> nat" where
  "json_octets JNull = 4"
| "json_octets (JBool b) = (if b then 4 else 5)"
| "json_octets (JInt i) = (if i < 0 then 1 else 0) + digits (nat \<bar>i\<bar>)"
| "json_octets (JDec m k) =
     (if m < 0 then 1 else 0) + max (digits (nat \<bar>m\<bar>)) (Suc k) + (if k = 0 then 0 else 1)"
| "json_octets (JStr s) = str_octets s"
| "json_octets (JArr xs) = 2 + sum_list (map json_octets xs) + 2 * (length xs - 1)"
| "json_octets (JObj ms) =
     2 + sum_list (map (\<lambda>(n, v). str_octets n + 2 + json_octets v) ms) + 2 * (length ms - 1)"

section \<open>Columns and their values\<close>

text \<open>\<open>CHANGE_LOG_COLUMN_ORDER\<close>, then the columns that are set once and have no mirror.\<close>

datatype column =
    Title | Description | Labels | Owner | Account | Subscribers | Status
  | BeliefJudgement | BeliefConfidence
  | IssueKind | IssueValidation | IssuePriority
  | ExperimentOutcome | ExperimentConfig
  | PaperAbstract | PaperAuthors | PaperPublicationType | PaperVenue | PaperSubvenue
  | PaperPublishDate | PaperSource | PaperClusterId | PaperCitesId
  | CodechangeSha | WebresultUrl | WebsearchQuery | WebsearchProvider
  | ExperimentCodechanges
  | SessionCli | SessionCliId | SessionStarted | SessionEnded | SessionRooms
  | App | SessionAudience | GroupRead | GroupWrite
  | SessionOpenedBy | GroupSystem | GroupDomain

definition CHANGE_LOG_COLUMN_ORDER :: "column list" where
  "CHANGE_LOG_COLUMN_ORDER =
     [Title, Description, Labels, Owner, Account, Subscribers, Status,
      BeliefJudgement, BeliefConfidence, IssueKind, IssueValidation, IssuePriority,
      ExperimentOutcome, ExperimentConfig,
      PaperAbstract, PaperAuthors, PaperPublicationType, PaperVenue, PaperSubvenue,
      PaperPublishDate, PaperSource, PaperClusterId, PaperCitesId,
      CodechangeSha, WebresultUrl, WebsearchQuery, WebsearchProvider, ExperimentCodechanges,
      SessionCli, SessionCliId, SessionStarted, SessionEnded, SessionRooms,
      App, SessionAudience, GroupRead, GroupWrite]"

definition columns :: "column list" where
  "columns = CHANGE_LOG_COLUMN_ORDER @ [SessionOpenedBy, GroupSystem, GroupDomain]"

lemma set_columns [simp]: "c \<in> set columns"
  by (cases c) (simp_all add: columns_def CHANGE_LOG_COLUMN_ORDER_def)

text \<open>A non-NULL value, by the Python type its field is annotated with. A date is a number
  of microseconds, an id the natural number it is in the tables.\<close>

datatype cval =
    VStr string | VStrs "string list" | VIds "nat list" | VInt int | VFloat pyfloat
  | VTime int | VJson json | VId nat | VBool bool

record column_spec =
  applies_to :: "inquiry_kind option"
  required :: bool
  min_items :: nat
  immutable :: bool
  compare_and_set :: bool
  is_byline :: bool
  references :: "inquiry_kind list"

definition ColumnSpec :: "inquiry_kind option \<Rightarrow> column_spec" where
  "ColumnSpec k =
     \<lparr>applies_to = k, required = False, min_items = 0, immutable = False,
      compare_and_set = False, is_byline = False, references = []\<rparr>"

fun COLUMN_SPECS :: "column \<Rightarrow> column_spec" where
  "COLUMN_SPECS Title = (ColumnSpec None)\<lparr>required := True\<rparr>"
| "COLUMN_SPECS Description = ColumnSpec None"
| "COLUMN_SPECS Labels = ColumnSpec None"
| "COLUMN_SPECS Owner = (ColumnSpec None)\<lparr>compare_and_set := True\<rparr>"
| "COLUMN_SPECS Account = (ColumnSpec None)\<lparr>required := True\<rparr>"
| "COLUMN_SPECS Subscribers = ColumnSpec None"
| "COLUMN_SPECS Status = (ColumnSpec None)\<lparr>required := True, compare_and_set := True\<rparr>"
| "COLUMN_SPECS App = (ColumnSpec None)\<lparr>compare_and_set := True\<rparr>"
| "COLUMN_SPECS BeliefJudgement = (ColumnSpec (Some Belief))\<lparr>compare_and_set := True\<rparr>"
| "COLUMN_SPECS BeliefConfidence = ColumnSpec (Some Belief)"
| "COLUMN_SPECS IssueKind = (ColumnSpec (Some Issue))\<lparr>min_items := 1\<rparr>"
| "COLUMN_SPECS IssueValidation = ColumnSpec (Some Issue)"
| "COLUMN_SPECS IssuePriority = ColumnSpec (Some Issue)"
| "COLUMN_SPECS ExperimentOutcome = ColumnSpec (Some Experiment)"
| "COLUMN_SPECS ExperimentConfig = ColumnSpec (Some Experiment)"
| "COLUMN_SPECS ExperimentCodechanges = (ColumnSpec (Some Experiment))\<lparr>references := [CodeChange]\<rparr>"
| "COLUMN_SPECS PaperAbstract = ColumnSpec (Some Paper)"
| "COLUMN_SPECS PaperAuthors = (ColumnSpec (Some Paper))\<lparr>is_byline := True\<rparr>"
| "COLUMN_SPECS PaperPublicationType = ColumnSpec (Some Paper)"
| "COLUMN_SPECS PaperVenue = ColumnSpec (Some Paper)"
| "COLUMN_SPECS PaperSubvenue = ColumnSpec (Some Paper)"
| "COLUMN_SPECS PaperPublishDate = ColumnSpec (Some Paper)"
| "COLUMN_SPECS PaperSource = ColumnSpec (Some Paper)"
| "COLUMN_SPECS PaperClusterId = ColumnSpec (Some Paper)"
| "COLUMN_SPECS PaperCitesId = ColumnSpec (Some Paper)"
| "COLUMN_SPECS CodechangeSha = ColumnSpec (Some CodeChange)"
| "COLUMN_SPECS WebresultUrl = ColumnSpec (Some WebResult)"
| "COLUMN_SPECS WebsearchQuery = ColumnSpec (Some WebSearch)"
| "COLUMN_SPECS WebsearchProvider = ColumnSpec (Some WebSearch)"
| "COLUMN_SPECS SessionCli = ColumnSpec (Some AgentSession)"
| "COLUMN_SPECS SessionCliId = ColumnSpec (Some AgentSession)"
| "COLUMN_SPECS SessionStarted = ColumnSpec (Some AgentSession)"
| "COLUMN_SPECS SessionEnded = ColumnSpec (Some AgentSession)"
| "COLUMN_SPECS SessionRooms = ColumnSpec (Some AgentSession)"
| "COLUMN_SPECS SessionOpenedBy = (ColumnSpec (Some AgentSession))\<lparr>immutable := True\<rparr>"
| "COLUMN_SPECS SessionAudience = (ColumnSpec (Some AgentSession))\<lparr>required := True\<rparr>"
| "COLUMN_SPECS GroupRead = (ColumnSpec (Some AccessGroup))\<lparr>required := True\<rparr>"
| "COLUMN_SPECS GroupWrite = (ColumnSpec (Some AccessGroup))\<lparr>required := True\<rparr>"
| "COLUMN_SPECS GroupSystem = (ColumnSpec (Some AccessGroup))\<lparr>required := True, immutable := True\<rparr>"
| "COLUMN_SPECS GroupDomain = (ColumnSpec (Some AccessGroup))\<lparr>immutable := True\<rparr>"

text \<open>\<open>_set_field\<close>'s \<open>collapsible\<close>: a nullable column, whose empty value is NULL.\<close>

definition collapsible :: "column \<Rightarrow> bool" where
  "collapsible c \<longleftrightarrow> \<not> required (COLUMN_SPECS c) \<and> min_items (COLUMN_SPECS c) = 0"

fun empty_optional_to_none :: "cval option \<Rightarrow> cval option" where
  "empty_optional_to_none (Some (VStr s)) = map_option VStr (empty_str_to_none s)"
| "empty_optional_to_none (Some (VStrs xs)) = map_option VStrs (empty_list_to_none xs)"
| "empty_optional_to_none (Some (VIds xs)) = map_option VIds (empty_list_to_none xs)"
| "empty_optional_to_none v = v"

text \<open>The SQL types. \<open>INTEGER\<close> is a 32-bit column; the driver refuses what does not fit.\<close>

datatype sql_type = TEXT | TEXTS | INTEGER | DOUBLE | JSONB | TIMESTAMPTZ | UUID | UUIDS | BOOLEAN

fun sql_type_of :: "column \<Rightarrow> sql_type" where
  "sql_type_of Labels = TEXTS" | "sql_type_of Subscribers = TEXTS" | "sql_type_of IssueKind = TEXTS"
| "sql_type_of PaperAuthors = TEXTS" | "sql_type_of SessionRooms = TEXTS"
| "sql_type_of IssuePriority = INTEGER" | "sql_type_of BeliefConfidence = DOUBLE"
| "sql_type_of ExperimentConfig = JSONB" | "sql_type_of App = JSONB"
| "sql_type_of PaperPublishDate = TIMESTAMPTZ" | "sql_type_of SessionStarted = TIMESTAMPTZ"
| "sql_type_of SessionEnded = TIMESTAMPTZ"
| "sql_type_of SessionOpenedBy = UUID" | "sql_type_of GroupRead = UUID" | "sql_type_of GroupWrite = UUID"
| "sql_type_of ExperimentCodechanges = UUIDS" | "sql_type_of GroupSystem = BOOLEAN"
| "sql_type_of c = TEXT"

fun has_type :: "sql_type \<Rightarrow> cval \<Rightarrow> bool" where
  "has_type t (VStr s) = (t = TEXT)"
| "has_type t (VStrs xs) = (t = TEXTS)"
| "has_type t (VIds xs) = (t = UUIDS)"
| "has_type t (VInt n) = (t = INTEGER \<and> - (2 ^ 31) \<le> n \<and> n < 2 ^ 31)"
| "has_type t (VFloat x) = (t = DOUBLE)"
| "has_type t (VTime n) = (t = TIMESTAMPTZ)"
| "has_type t (VJson j) = (t = JSONB)"
| "has_type t (VId i) = (t = UUID)"
| "has_type t (VBool b) = (t = BOOLEAN)"

definition typed :: "column \<Rightarrow> cval option \<Rightarrow> bool" where
  "typed c v \<longleftrightarrow> (case v of None \<Rightarrow> True | Some x \<Rightarrow> has_type (sql_type_of c) x)"

section \<open>Value checks\<close>

definition ISSUE_KINDS :: "string list" where
  "ISSUE_KINDS = [''feature'', ''bug'', ''task'', ''question'']"

definition STATUSES :: "string list" where
  "STATUSES = [''active'', ''complete'', ''stopped'', ''abandoned'', ''invalid'']"

definition JUDGEMENTS :: "string list" where
  "JUDGEMENTS = [''proven'', ''disproven'', ''unproven'', ''undecidable'']"

definition PUBLICATION_TYPES :: "string list" where
  "PUBLICATION_TYPES = [''article'', ''inproceedings'', ''book'', ''thesis'', ''techreport'', ''misc'']"

definition ascii_lower :: "char \<Rightarrow> bool" where
  "ascii_lower c \<longleftrightarrow> 97 \<le> code c \<and> code c \<le> 122"

text \<open>\<open>^[a-z][a-z0-9_-]{0,31}$\<close>.\<close>

definition audience_shape :: "string \<Rightarrow> bool" where
  "audience_shape s \<longleftrightarrow>
     (case s of [] \<Rightarrow> False
      | c # cs \<Rightarrow> ascii_lower c \<and> length cs \<le> 31
          \<and> (\<forall>x \<in> set cs. ascii_lower x \<or> ascii_digit x \<or> x = CHR ''_'' \<or> x = CHR ''-''))"

text \<open>
  \<open>column_check_body\<close>: the CHECK of a non-NULL value, its \<open>min_items\<close> included. The check of
  \<open>accessgroup_domain\<close> reads another column and is a check of the row.
\<close>

definition column_check :: "column \<Rightarrow> cval \<Rightarrow> bool" where
  "column_check c v =
     (case v of
        VStr s \<Rightarrow>
          if c = Status then s \<in> set STATUSES
          else if c = BeliefJudgement then s \<in> set JUDGEMENTS
          else if c = PaperPublicationType then s \<in> set PUBLICATION_TYPES
          else if c = SessionAudience then audience_shape s else True
      | VJson j \<Rightarrow>
          if c = App then (case j of JObj _ \<Rightarrow> True | _ \<Rightarrow> False) \<and> json_octets j \<le> 65536 else True
      | VStrs xs \<Rightarrow> if c = IssueKind then set xs \<subseteq> set ISSUE_KINDS \<and> min_items (COLUMN_SPECS c) \<le> length xs else True
      | VInt n \<Rightarrow> if c = IssuePriority then 0 \<le> n else True
      | VFloat x \<Rightarrow>
          if c = BeliefConfidence then x \<noteq> NaN \<and> \<not> float_lt x (Fin 0) \<and> \<not> float_lt (Fin 1) x else True
      | _ \<Rightarrow> True)"

section \<open>Hooks\<close>

text \<open>\<open>RUNTIME_HOOKS\<close>: the normalizer of a list column; the stored form and the decoded one
  are the same list. The reference hook is the column's \<open>references\<close>.\<close>

definition normalize_col :: "column \<Rightarrow> cval \<Rightarrow> cval" where
  "normalize_col c v =
     (case v of
        VStrs xs \<Rightarrow> VStrs (if c \<in> {IssueKind, Labels, SessionRooms, Subscribers} then canonical_strs xs
                            else if c = PaperAuthors then byline_strs xs else xs)
      | _ \<Rightarrow> v)"

definition notify_old_subscribers :: "column \<Rightarrow> bool" where
  "notify_old_subscribers c \<longleftrightarrow> c = Subscribers"

text \<open>Python's \<open>==\<close> on two values of one column: a NaN differs from itself, and JSON compares
  as plain objects do.\<close>

fun py_eq :: "cval option \<Rightarrow> cval option \<Rightarrow> bool" where
  "py_eq (Some (VFloat x)) (Some (VFloat y)) = (x = y \<and> x \<noteq> NaN)"
| "py_eq (Some (VJson x)) (Some (VJson y)) = (python_key x = python_key y)"
| "py_eq v w = (v = w)"

text \<open>\<open>_same_json\<close>: equal as JSON, key order aside.\<close>

definition same_json :: "json option \<Rightarrow> json option \<Rightarrow> bool" where
  "same_json x y \<longleftrightarrow>
     dumps_key (case x of None \<Rightarrow> JNull | Some v \<Rightarrow> v) = dumps_key (case y of None \<Rightarrow> JNull | Some v \<Rightarrow> v)"

section \<open>Lemmas\<close>

text \<open>The value a setter stores and audits: normalized, and NULL when that leaves nothing.\<close>

definition canonical_value :: "column \<Rightarrow> cval option \<Rightarrow> cval option" where
  "canonical_value c v =
     (case v of None \<Rightarrow> None
      | Some x \<Rightarrow> if collapsible c then empty_optional_to_none (Some (normalize_col c x)) else Some (normalize_col c x))"

lemma strip_byline [simp]: "byline_strs (byline_strs xs) = byline_strs xs"
  by (induction xs) (auto simp: byline_strs_def)

lemma normalize_col_idem [simp]: "normalize_col c (normalize_col c v) = normalize_col c v"
  by (cases v) (simp_all add: normalize_col_def)

lemma empty_optional_cases:
  "empty_optional_to_none v = None \<or> empty_optional_to_none v = v"
  by (cases v rule: empty_optional_to_none.cases)
    (auto simp: empty_str_to_none_def empty_list_to_none_def)

lemma empty_optional_idem [simp]:
  "empty_optional_to_none (empty_optional_to_none v) = empty_optional_to_none v"
  using empty_optional_cases [of v] by auto

lemma canonical_value_None [simp]: "canonical_value c None = None"
  by (simp add: canonical_value_def)

lemma canonical_value_cases:
  obtains "canonical_value c v = None" | x where "v = Some x" "canonical_value c v = Some (normalize_col c x)"
proof (cases v)
  case (Some x)
  with empty_optional_cases [of "Some (normalize_col c x)"]
  have "canonical_value c v = None \<or> canonical_value c v = Some (normalize_col c x)"
    by (auto simp: canonical_value_def)
  then show ?thesis by (rule disjE) (erule that(1), erule that(2) [OF Some])
next
  case None
  show ?thesis by (rule that(1)) (simp add: None canonical_value_def)
qed

lemma canonical_value_idem [simp]: "canonical_value c (canonical_value c v) = canonical_value c v"
proof (cases v)
  case (Some x)
  show ?thesis
    using empty_optional_cases [of "Some (normalize_col c x)"] by (auto simp: Some canonical_value_def)
qed simp

lemma canonical_value_storage [simp]:
  "collapsible c \<Longrightarrow> empty_optional_to_none (canonical_value c v) = canonical_value c v"
  by (cases v) (simp_all add: canonical_value_def)

lemma py_eq_refl: "py_eq v v \<longleftrightarrow> v \<noteq> Some (VFloat NaN)"
  by (cases "(v, v)" rule: py_eq.cases) auto

lemma py_eq_sym: "py_eq v w = py_eq w v"
  by (cases "(v, w)" rule: py_eq.cases) auto

text \<open>Outside JSON columns the comparison is equality, so no edit is dropped by it.\<close>

lemma py_eq_exact: "py_eq v w \<Longrightarrow> \<forall>j. w \<noteq> Some (VJson j) \<Longrightarrow> v = w"
  by (cases "(v, w)" rule: py_eq.cases) auto

lemma same_json_refl [simp]: "same_json x x"
  by (simp add: same_json_def)

end
