(* ===== verification/Accounting.thy ===== *)
theory Accounting
  imports Prelude
begin

text \<open>
  \<open>types/cost.py\<close>: the two accounting values. A \<open>cost\<close> is a pair of finite signed USD
  amounts, kept here as exact rationals: its constructor refuses a non-finite axis, and
  the rounding of a float or of the NUMERIC(14, 6) columns is not modelled. Costs form an
  abelian group, so a running total is a \<open>sum_list\<close>. A \<open>token_count\<close> is clamped at
  zero by subtraction.
\<close>

section \<open>Cost\<close>

datatype cost = Cost (agent_usd: rat) (resource_usd: rat)

text \<open>\<open>Cost.__post_init__\<close>: the first axis that is not finite is reported.\<close>

fun finite_axis :: "pyfloat \<Rightarrow> rat res" where
  "finite_axis (Fin r) = Inr r"
| "finite_axis x = Inl ValueError"

definition make_cost :: "pyfloat \<Rightarrow> pyfloat \<Rightarrow> cost res" where
  "make_cost a r = bind_res (finite_axis a) (\<lambda>x. bind_res (finite_axis r) (\<lambda>y. Inr (Cost x y)))"

definition total_usd :: "cost \<Rightarrow> rat" where
  "total_usd c = agent_usd c + resource_usd c"

definition cost_bool :: "cost \<Rightarrow> bool" where
  "cost_bool c \<longleftrightarrow> agent_usd c \<noteq> 0 \<or> resource_usd c \<noteq> 0"

definition cost_add :: "cost \<Rightarrow> cost \<Rightarrow> cost" where
  "cost_add c d = Cost (agent_usd c + agent_usd d) (resource_usd c + resource_usd d)"

definition cost_sub :: "cost \<Rightarrow> cost \<Rightarrow> cost" where
  "cost_sub c d = Cost (agent_usd c - agent_usd d) (resource_usd c - resource_usd d)"

text \<open>\<open>Cost.from_row\<close>: a column the row lacks reads as zero.\<close>

definition cost_from_row :: "(string \<Rightarrow> pyfloat option) \<Rightarrow> string \<Rightarrow> cost res" where
  "cost_from_row row pre =
     make_cost
       (case row (pre @ ''marginal_cost_agent_usd'') of None \<Rightarrow> Fin 0 | Some v \<Rightarrow> v)
       (case row (pre @ ''marginal_cost_resource_usd'') of None \<Rightarrow> Fin 0 | Some v \<Rightarrow> v)"

instantiation cost :: ab_group_add
begin

definition zero_cost :: cost where "0 = Cost 0 0"
definition plus_cost :: "cost \<Rightarrow> cost \<Rightarrow> cost" where "c + d = cost_add c d"
definition minus_cost :: "cost \<Rightarrow> cost \<Rightarrow> cost" where "c - d = cost_sub c d"
definition uminus_cost :: "cost \<Rightarrow> cost" where "- c = Cost (- agent_usd c) (- resource_usd c)"

instance
  by standard (simp_all add: zero_cost_def plus_cost_def minus_cost_def uminus_cost_def
      cost_add_def cost_sub_def cost.expand)

end

text \<open>The floor the storage columns keep: both axes at least zero.\<close>

definition nonneg :: "cost \<Rightarrow> bool" where
  "nonneg c \<longleftrightarrow> 0 \<le> agent_usd c \<and> 0 \<le> resource_usd c"

lemma cost_axes [simp]:
  "agent_usd (c + d) = agent_usd c + agent_usd d"
  "resource_usd (c + d) = resource_usd c + resource_usd d"
  "agent_usd (c - d) = agent_usd c - agent_usd d"
  "resource_usd (c - d) = resource_usd c - resource_usd d"
  "agent_usd (0 :: cost) = 0" "resource_usd (0 :: cost) = 0"
  by (simp_all add: zero_cost_def plus_cost_def minus_cost_def cost_add_def cost_sub_def)

lemma cost_bool_iff: "cost_bool c \<longleftrightarrow> c \<noteq> 0"
  by (cases c) (simp add: cost_bool_def zero_cost_def)

lemma nonneg_zero [simp]: "nonneg 0"
  by (simp add: nonneg_def)

lemma make_cost_ok_iff: "make_cost a r = Inr c \<longleftrightarrow> a = Fin (agent_usd c) \<and> r = Fin (resource_usd c)"
  by (cases a; cases r; cases c) (auto simp: make_cost_def)

lemma make_cost_error_iff: "(\<exists>e. make_cost a r = Inl e) \<longleftrightarrow> \<not> isfinite a \<or> \<not> isfinite r"
  by (cases a; cases r) (auto simp: make_cost_def isfinite_def)

section \<open>Token counts\<close>

record token_count =
  input_tokens :: int
  output_tokens :: int
  cache_creation_tokens :: int
  cache_read_tokens :: int

definition token_add :: "token_count \<Rightarrow> token_count \<Rightarrow> token_count" where
  "token_add a b =
     \<lparr>input_tokens = input_tokens a + input_tokens b,
      output_tokens = output_tokens a + output_tokens b,
      cache_creation_tokens = cache_creation_tokens a + cache_creation_tokens b,
      cache_read_tokens = cache_read_tokens a + cache_read_tokens b\<rparr>"

definition token_sub :: "token_count \<Rightarrow> token_count \<Rightarrow> token_count" where
  "token_sub a b =
     \<lparr>input_tokens = max 0 (input_tokens a - input_tokens b),
      output_tokens = max 0 (output_tokens a - output_tokens b),
      cache_creation_tokens = max 0 (cache_creation_tokens a - cache_creation_tokens b),
      cache_read_tokens = max 0 (cache_read_tokens a - cache_read_tokens b)\<rparr>"

definition token_nonneg :: "token_count \<Rightarrow> bool" where
  "token_nonneg t \<longleftrightarrow> 0 \<le> input_tokens t \<and> 0 \<le> output_tokens t
     \<and> 0 \<le> cache_creation_tokens t \<and> 0 \<le> cache_read_tokens t"

lemma token_sub_nonneg [simp]: "token_nonneg (token_sub a b)"
  by (simp add: token_nonneg_def token_sub_def)

lemma token_add_sub: "token_nonneg a \<Longrightarrow> token_sub (token_add a b) b = a"
  by (simp add: token_nonneg_def token_sub_def token_add_def)

end
