(* ===== verification/Graph_State.thy ===== *)
theory Graph_State
  imports Column_Specs Accounting
begin

text \<open>
  The tables the store reads and writes (\<open>server/assets/schema.sql\<close> with the columns and
  CHECKs \<open>server/schema_gen.py\<close> renders from the \<open>ColumnSpec\<close> and \<open>Edge\<close> metadata):
  inquiries, edges and the change log, each with its constraints, and the state of the code
  around them: the idempotency slot of \<open>store/change_id_slot.py\<close> and the notification
  buffer of \<open>server/notify.py\<close>.

  An id is a natural number ordered as the bytes of the UUID are. Edges and the change log
  are lists in insertion order; \<open>inquiries\<close> is read by primary key, and scanned through
  \<open>iq_ids\<close>, its ids in insertion order. The clock stands for \<open>clock_timestamp()\<close>: it moves
  with every statement that reads it.
\<close>

type_synonym uuid = nat

text \<open>\<open>iq_columns\<close> holds the editable columns, NULL being \<open>None\<close>; \<open>iq_locked\<close> is the admin's flag.\<close>

record inquiry =
  iq_kind :: inquiry_kind
  iq_seq :: nat
  iq_created :: nat
  iq_modified :: nat
  iq_locked :: bool
  iq_cost :: cost
  iq_columns :: "column \<Rightarrow> cval option"

definition iq_owner :: "inquiry \<Rightarrow> string option" where
  "iq_owner r = (case iq_columns r Owner of Some (VStr s) \<Rightarrow> Some s | _ \<Rightarrow> None)"

definition iq_subscribers :: "inquiry \<Rightarrow> string list option" where
  "iq_subscribers r = (case iq_columns r Subscribers of Some (VStrs xs) \<Rightarrow> Some xs | _ \<Rightarrow> None)"

record edge =
  from_id :: uuid
  from_kind :: inquiry_kind
  to_id :: uuid
  to_kind :: inquiry_kind
  edge_kind :: edge_kind
  e_priority :: "int option"
  e_note :: "string option"
  e_valence :: "pyfloat option"
  e_labels :: "string list option"

datatype change_kind =
    Created | Purged | FieldEdited column | MarginalCost
  | EdgeAdded | EdgeRemoved | EdgeAnnotationChanged | DependencyChanged
  | ImplicitSubsOpened | ImplicitSubsClosed

text \<open>A \<open>Snapshot\<close>: its edge-peer block, and \<open>edited\<close>, the one column field it sets.\<close>

record snapshot =
  peer_id :: "uuid option"
  peer_kind :: "inquiry_kind option"
  peer_edge_kind :: "edge_kind option"
  edge_priority :: "int option"
  edge_note :: "string option"
  edge_valence :: "pyfloat option"
  edge_labels :: "string list option"
  edited :: "(column \<times> cval) option"

definition empty_snapshot :: snapshot where
  "empty_snapshot = \<lparr>peer_id = None, peer_kind = None, peer_edge_kind = None, edge_priority = None,
     edge_note = None, edge_valence = None, edge_labels = None, edited = None\<rparr>"

record change =
  change_id :: uuid
  change_created :: nat
  api_key_id :: "uuid option"
  actor :: string
  subject_id :: uuid
  subject_kind :: inquiry_kind
  change_kind :: change_kind
  caused_by :: "uuid option"
  reason :: string
  subscribers_snapshot :: "string list"
  old :: snapshot
  new :: snapshot
  old_cost :: cost
  new_cost :: cost

text \<open>\<open>sequences\<close> holds the last value of each kind's sequence, \<open>buffer\<close> the subjects queued inside
  the open transaction, \<open>published\<close> those sent.\<close>

record store =
  inquiries :: "uuid \<Rightarrow> inquiry option"
  iq_ids :: "uuid list"
  sequences :: "inquiry_kind \<Rightarrow> nat"
  edges :: "edge list"
  change_log :: "change list"
  client_change_id :: "uuid option"
  buffer :: "uuid list"
  published :: "uuid list"
  clock :: nat

definition edge_key :: "edge \<Rightarrow> uuid \<times> uuid \<times> edge_kind" where
  "edge_key e = (from_id e, to_id e, edge_kind e)"

definition change_ids :: "store \<Rightarrow> uuid set" where
  "change_ids s = change_id ` set (change_log s)"

text \<open>\<open>uuid.uuid4()\<close>: some id no change has.\<close>

definition uuid4 :: "store \<Rightarrow> uuid" where
  "uuid4 s = Suc (fold max (map change_id (change_log s)) 0)"

section \<open>Constraints of the tables\<close>

text \<open>
  The annotation CHECKs \<open>_edge_column_check_body\<close> renders. A CHECK passes when it is
  NULL, so without an edge kind only the value itself is tested.
\<close>

definition annotation_check :: "edge_kind option \<Rightarrow> int option \<Rightarrow> pyfloat option \<Rightarrow> bool" where
  "annotation_check k p v \<longleftrightarrow>
     (case p of None \<Rightarrow> True | Some n \<Rightarrow> 0 \<le> n \<and> (case k of None \<Rightarrow> True | Some k' \<Rightarrow> carries APriority k'))
   \<and> (case v of None \<Rightarrow> True
      | Some x \<Rightarrow> x \<noteq> NaN \<and> \<not> float_lt x (Fin (-1)) \<and> \<not> float_lt (Fin 1) x
                \<and> (case k of None \<Rightarrow> True | Some k' \<Rightarrow> carries AValence k'))"

definition edge_row_check :: "edge \<Rightarrow> bool" where
  "edge_row_check e \<longleftrightarrow> from_id e \<noteq> to_id e
     \<and> edges_check (edge_kind e) (from_kind e) (to_kind e)
     \<and> annotation_check (Some (edge_kind e)) (e_priority e) (e_valence e)"

definition carries_peer :: "change_kind \<Rightarrow> bool" where
  "carries_peer k \<longleftrightarrow> k \<in> {EdgeAdded, EdgeRemoved, EdgeAnnotationChanged, DependencyChanged}"

definition peer_present :: "snapshot \<Rightarrow> bool" where
  "peer_present n \<longleftrightarrow>
     (peer_id n \<noteq> None) = (peer_kind n \<noteq> None)
   \<and> (peer_id n \<noteq> None) = (peer_edge_kind n \<noteq> None)
   \<and> (peer_id n \<noteq> None) = (edge_note n \<noteq> None)
   \<and> (peer_id n \<noteq> None) = (edge_labels n \<noteq> None)"

definition peers_check :: "change_kind \<Rightarrow> snapshot \<Rightarrow> snapshot \<Rightarrow> bool" where
  "peers_check k o' n \<longleftrightarrow>
     (if carries_peer k
      then peer_present o' \<and> peer_present n \<and> (peer_id o' \<noteq> None \<or> peer_id n \<noteq> None)
      else o'\<lparr>edited := None\<rparr> = empty_snapshot \<and> n\<lparr>edited := None\<rparr> = empty_snapshot)
   \<and> annotation_check (peer_edge_kind o') (edge_priority o') (edge_valence o')
   \<and> annotation_check (peer_edge_kind n) (edge_priority n) (edge_valence n)"

text \<open>
  The mirror columns of one side (\<open>generate_change_log_mirror\<close>): a column's mirror is NULL
  under every other change kind, not NULL under its own when the column is required, and
  passes the column's CHECK.
\<close>

definition mirror_side_check :: "change_kind \<Rightarrow> snapshot \<Rightarrow> bool" where
  "mirror_side_check k n \<longleftrightarrow>
     (case edited n of
        None \<Rightarrow> (case k of FieldEdited c \<Rightarrow> \<not> required (COLUMN_SPECS c) | _ \<Rightarrow> True)
      | Some (c, v) \<Rightarrow> k = FieldEdited c \<and> column_check c v)"

text \<open>\<open>generate_change_log_kind_matrix\<close>, and that the kind is one of \<open>Change.Kind\<close>.\<close>

definition kind_matrix_check :: "change_kind \<Rightarrow> inquiry_kind \<Rightarrow> bool" where
  "kind_matrix_check k sk \<longleftrightarrow>
     (case k of
        FieldEdited c \<Rightarrow> c \<in> set CHANGE_LOG_COLUMN_ORDER
          \<and> (case applies_to (COLUMN_SPECS c) of None \<Rightarrow> True | Some k' \<Rightarrow> sk = k')
      | _ \<Rightarrow> True)"

definition mirror_check :: "change_kind \<Rightarrow> inquiry_kind \<Rightarrow> snapshot \<Rightarrow> snapshot \<Rightarrow> bool" where
  "mirror_check k sk o' n \<longleftrightarrow>
     mirror_side_check k o' \<and> mirror_side_check k n \<and> kind_matrix_check k sk"

definition change_row_check :: "change \<Rightarrow> bool" where
  "change_row_check c \<longleftrightarrow>
     peers_check (change_kind c) (old c) (new c)
   \<and> mirror_check (change_kind c) (subject_kind c) (old c) (new c)"

lemma mirror_check_plain [simp]:
  "edited o' = None \<Longrightarrow> edited n = None \<Longrightarrow> (case k of FieldEdited c \<Rightarrow> False | _ \<Rightarrow> True)
    \<Longrightarrow> mirror_check k sk o' n"
  by (cases k) (simp_all add: mirror_check_def mirror_side_check_def kind_matrix_check_def)

lemma edited_empty [simp]: "edited empty_snapshot = None"
  by (simp add: empty_snapshot_def)

text \<open>
  The constraints of an inquiry row (\<open>generate_inquiry_kind_columns\<close> and the table's own): a
  column of another kind is NULL, a required one is not, a value passes its CHECK, a
  session is ended iff it is complete, and only a server-managed group holds a domain.
\<close>

definition column_applies :: "inquiry_kind \<Rightarrow> column \<Rightarrow> bool" where
  "column_applies k c \<longleftrightarrow> (case applies_to (COLUMN_SPECS c) of None \<Rightarrow> True | Some k' \<Rightarrow> k = k')"

text \<open>What one side of a column edit's snapshot pair is, and when the pair is accepted.\<close>

definition field_snapshot :: "column \<Rightarrow> cval option \<Rightarrow> snapshot" where
  "field_snapshot c v = empty_snapshot\<lparr>edited := map_option (\<lambda>x. (c, x)) v\<rparr>"

lemma mirror_check_edit:
  "mirror_check (FieldEdited c) sk (field_snapshot c v) (field_snapshot c w) \<longleftrightarrow>
     c \<in> set CHANGE_LOG_COLUMN_ORDER \<and> column_applies sk c
   \<and> (\<forall>x \<in> {v, w}. case x of None \<Rightarrow> \<not> required (COLUMN_SPECS c) | Some y \<Rightarrow> column_check c y)"
  by (auto simp: mirror_check_def mirror_side_check_def kind_matrix_check_def column_applies_def
      field_snapshot_def split: option.splits)

lemma field_snapshot_None [simp]: "field_snapshot c None = empty_snapshot"
  by (simp add: field_snapshot_def empty_snapshot_def)

definition column_row_check :: "inquiry \<Rightarrow> column \<Rightarrow> bool" where
  "column_row_check r c \<longleftrightarrow>
     (case iq_columns r c of
        None \<Rightarrow> \<not> (column_applies (iq_kind r) c \<and> required (COLUMN_SPECS c))
      | Some v \<Rightarrow> column_applies (iq_kind r) c \<and> column_check c v)"

definition inquiry_row_check :: "inquiry \<Rightarrow> bool" where
  "inquiry_row_check r \<longleftrightarrow>
     (\<forall>c \<in> set columns. column_row_check r c)
   \<and> (iq_kind r = AgentSession \<longrightarrow>
        (iq_columns r SessionEnded \<noteq> None) = (iq_columns r Status = Some (VStr ''complete'')))
   \<and> (case iq_columns r GroupDomain of
        Some (VStr d) \<Rightarrow> d = lower d \<and> iq_columns r GroupSystem = Some (VBool True)
      | _ \<Rightarrow> True)"

definition not_null_check :: "inquiry \<Rightarrow> bool" where
  "not_null_check r \<longleftrightarrow> iq_columns r Title \<noteq> None \<and> iq_columns r Account \<noteq> None \<and> iq_columns r Status \<noteq> None"

definition row_typed :: "inquiry \<Rightarrow> bool" where
  "row_typed r \<longleftrightarrow> (\<forall>c \<in> set columns. typed c (iq_columns r c))"

text \<open>The unique keys beside the primary one: \<open>(kind, seq)\<close>, the name of a live session, and a
  group's domain.\<close>

definition live_session_owner :: "inquiry \<Rightarrow> string option" where
  "live_session_owner r =
     (if iq_kind r = AgentSession \<and> iq_columns r SessionEnded = None then iq_owner r else None)"

definition collides :: "inquiry \<Rightarrow> inquiry \<Rightarrow> bool" where
  "collides r q \<longleftrightarrow>
     (iq_kind r = iq_kind q \<and> iq_seq r = iq_seq q)
   \<or> (live_session_owner r \<noteq> None \<and> live_session_owner r = live_session_owner q)
   \<or> (iq_columns r GroupDomain \<noteq> None \<and> iq_columns r GroupDomain = iq_columns q GroupDomain)"

section \<open>Statements\<close>

text \<open>
  \<open>INSERT INTO change_log\<close>: the CHECKs, then the primary key, then the \<open>caused_by\<close>
  foreign key. The row's \<open>created\<close> is the clock.
\<close>

definition insert_change :: "change \<Rightarrow> store \<Rightarrow> store res" where
  "insert_change c s =
     (if \<not> change_row_check c then Inl CheckViolation
      else if change_id c \<in> change_ids s then Inl UniqueViolation
      else if \<not> (case caused_by c of None \<Rightarrow> True | Some i \<Rightarrow> i = change_id c \<or> i \<in> change_ids s)
      then Inl ForeignKeyViolation
      else Inr (s\<lparr>change_log := change_log s @ [c\<lparr>change_created := clock s\<rparr>], clock := Suc (clock s)\<rparr>))"

text \<open>
  A row that goes into \<open>inquiries\<close>: the driver encodes the values, then come NOT NULL, the
  CHECKs and the unique keys against every other row.
\<close>

definition place_inquiry_row :: "uuid \<Rightarrow> inquiry \<Rightarrow> store \<Rightarrow> store res" where
  "place_inquiry_row i r s =
     (if \<not> row_typed r then Inl DataError
      else if \<not> not_null_check r then Inl NotNullViolation
      else if \<not> inquiry_row_check r then Inl CheckViolation
      else if \<exists>j \<in> set (iq_ids s). j \<noteq> i \<and> (case inquiries s j of None \<Rightarrow> False | Some q \<Rightarrow> collides r q)
      then Inl UniqueViolation
      else Inr (s\<lparr>inquiries := (inquiries s)(i \<mapsto> r)\<rparr>))"

definition insert_inquiry_row :: "uuid \<Rightarrow> inquiry \<Rightarrow> store \<Rightarrow> store res" where
  "insert_inquiry_row i r s =
     bind_res (place_inquiry_row i r s) (\<lambda>t.
       if inquiries s i \<noteq> None then Inl UniqueViolation
       else Inr (t\<lparr>iq_ids := iq_ids t @ [i], clock := Suc (clock t)\<rparr>))"

lemma place_inquiry_row_Inr [res_simps]:
  "place_inquiry_row i r s = Inr t \<longleftrightarrow>
     row_typed r \<and> not_null_check r \<and> inquiry_row_check r
   \<and> (\<forall>j \<in> set (iq_ids s). j \<noteq> i \<longrightarrow> (\<forall>q. inquiries s j = Some q \<longrightarrow> \<not> collides r q))
   \<and> t = s\<lparr>inquiries := (inquiries s)(i \<mapsto> r)\<rparr>"
  by (auto simp: place_inquiry_row_def split: option.splits)

lemma insert_inquiry_row_Inr [res_simps]:
  "insert_inquiry_row i r s = Inr t \<longleftrightarrow>
     inquiries s i = None
   \<and> (\<exists>u. place_inquiry_row i r s = Inr u \<and> t = u\<lparr>iq_ids := iq_ids u @ [i], clock := Suc (clock u)\<rparr>)"
  by (auto simp: insert_inquiry_row_def bind_res_Inr_iff split: if_splits)

text \<open>
  \<open>INSERT INTO edges ... ON CONFLICT DO NOTHING\<close>: the CHECKs come before the key, and the
  endpoints' foreign keys are tested on a row that went in.
\<close>

definition insert_edge_row :: "edge \<Rightarrow> store \<Rightarrow> (store \<times> bool) res" where
  "insert_edge_row e s =
     (if \<not> edge_row_check e then Inl CheckViolation
      else if edge_key e \<in> edge_key ` set (edges s) then Inr (s, False)
      else if inquiries s (from_id e) = None \<or> inquiries s (to_id e) = None then Inl ForeignKeyViolation
      else Inr (s\<lparr>edges := edges s @ [e]\<rparr>, True))"

definition find_edge :: "uuid \<Rightarrow> uuid \<Rightarrow> edge_kind \<Rightarrow> store \<Rightarrow> edge option" where
  "find_edge f t k s = List.find (\<lambda>e. edge_key e = (f, t, k)) (edges s)"

definition update_edge_row ::
  "uuid \<Rightarrow> uuid \<Rightarrow> edge_kind \<Rightarrow> int option \<Rightarrow> string option \<Rightarrow> pyfloat option \<Rightarrow> string list option
   \<Rightarrow> store \<Rightarrow> store res" where
  "update_edge_row f t k p n v l s =
     (if \<forall>e \<in> set (edges s). edge_key e = (f, t, k) \<longrightarrow> annotation_check (Some k) p v
      then Inr (s\<lparr>edges := map (\<lambda>e. if edge_key e = (f, t, k)
             then e\<lparr>e_priority := p, e_note := n, e_valence := v, e_labels := l\<rparr> else e) (edges s)\<rparr>)
      else Inl CheckViolation)"

definition delete_edge_row :: "uuid \<Rightarrow> uuid \<Rightarrow> edge_kind \<Rightarrow> store \<Rightarrow> store" where
  "delete_edge_row f t k s = s\<lparr>edges := filter (\<lambda>e. edge_key e \<noteq> (f, t, k)) (edges s)\<rparr>"

definition touches :: "uuid \<Rightarrow> edge \<Rightarrow> bool" where
  "touches i e \<longleftrightarrow> from_id e = i \<or> to_id e = i"

definition edges_touching :: "uuid \<Rightarrow> store \<Rightarrow> edge list" where
  "edges_touching i s = filter (touches i) (edges s)"

text \<open>\<open>DELETE FROM inquiries\<close>: the edges of the row go with it (\<open>ON DELETE CASCADE\<close>).\<close>

definition delete_inquiry_row :: "uuid \<Rightarrow> store \<Rightarrow> store" where
  "delete_inquiry_row i s =
     s\<lparr>inquiries := (inquiries s)(i := None), iq_ids := removeAll i (iq_ids s),
       edges := filter (\<lambda>e. \<not> touches i e) (edges s)\<rparr>"

text \<open>
  \<open>tx\<close> inside \<open>notify_after_commit\<close>: an error rolls the tables back and drops the queued
  notifications; a commit publishes them.
\<close>

definition transaction :: "(store \<Rightarrow> (store \<times> 'a) res) \<Rightarrow> store \<Rightarrow> store \<times> 'a res" where
  "transaction f s =
     in_tx (\<lambda>s. bind_res (f (s\<lparr>buffer := []\<rparr>))
       (\<lambda>(t, x). Inr (t\<lparr>published := published t @ buffer t, buffer := []\<rparr>, x))) s"

section \<open>Lemmas\<close>

lemma fold_max_ge: "x \<in> set xs \<Longrightarrow> (x::nat) \<le> fold max xs a"
  by (simp add: Max.set_eq_fold [symmetric])

lemma uuid4_fresh: "uuid4 s \<notin> change_ids s"
proof
  assume "uuid4 s \<in> change_ids s"
  then obtain c where "c \<in> set (change_log s)" "change_id c = uuid4 s" by (auto simp: change_ids_def)
  then have "uuid4 s \<le> fold max (map change_id (change_log s)) 0" by (intro fold_max_ge) force
  then show False by (simp add: uuid4_def)
qed

lemma insert_change_ok [res_simps]:
  "insert_change c s = Inr t \<longleftrightarrow> change_row_check c \<and> change_id c \<notin> change_ids s
     \<and> (case caused_by c of None \<Rightarrow> True | Some i \<Rightarrow> i = change_id c \<or> i \<in> change_ids s)
     \<and> t = s\<lparr>change_log := change_log s @ [c\<lparr>change_created := clock s\<rparr>], clock := Suc (clock s)\<rparr>"
  by (auto simp: insert_change_def)

lemma insert_edge_row_True [res_simps]:
  "insert_edge_row e s = Inr (t, True) \<longleftrightarrow> edge_row_check e \<and> edge_key e \<notin> edge_key ` set (edges s)
     \<and> inquiries s (from_id e) \<noteq> None \<and> inquiries s (to_id e) \<noteq> None \<and> t = s\<lparr>edges := edges s @ [e]\<rparr>"
  by (auto simp: insert_edge_row_def)

lemma insert_edge_row_False [res_simps]:
  "insert_edge_row e s = Inr (t, False) \<longleftrightarrow>
     edge_row_check e \<and> edge_key e \<in> edge_key ` set (edges s) \<and> t = s"
  by (auto simp: insert_edge_row_def)

lemma find_edge_Some:
  "find_edge f t k s = Some e \<Longrightarrow> e \<in> set (edges s) \<and> edge_key e = (f, t, k)"
  by (auto simp: find_edge_def dest: find_Some_iff_mem)

lemma find_edge_None: "find_edge f t k s = None \<longleftrightarrow> (f, t, k) \<notin> edge_key ` set (edges s)"
  by (auto simp: find_edge_def find_None_iff_all image_iff)

lemma transaction_cases:
  obtains (rolled_back) e where "f (s\<lparr>buffer := []\<rparr>) = Inl e" "transaction f s = (s, Inl e)"
  | (committed) t x where "f (s\<lparr>buffer := []\<rparr>) = Inr (t, x)"
      "transaction f s = (t\<lparr>published := published t @ buffer t, buffer := []\<rparr>, Inr x)"
  by (cases "f (s\<lparr>buffer := []\<rparr>)") (auto simp: transaction_def in_tx_def)

section \<open>The invariant of the edges table\<close>

definition edge_rel :: "edge list \<Rightarrow> edge_kind \<Rightarrow> (uuid \<times> uuid) set" where
  "edge_rel es k = {(from_id e, to_id e) |e. e \<in> set es \<and> edge_kind e = k}"

text \<open>
  A stored edge: the row CHECK, the denormalized kinds those of live rows, an annotation
  in its one spelling of absence, and a valence on every citation.
\<close>

definition edge_ok :: "store \<Rightarrow> edge \<Rightarrow> bool" where
  "edge_ok s e \<longleftrightarrow> edge_row_check e
     \<and> map_option iq_kind (inquiries s (from_id e)) = Some (from_kind e)
     \<and> map_option iq_kind (inquiries s (to_id e)) = Some (to_kind e)
     \<and> (carries AValence (edge_kind e) \<longleftrightarrow> e_valence e \<noteq> None)
     \<and> (case e_note e of None \<Rightarrow> True | Some n \<Rightarrow> strip n \<noteq> [])
     \<and> (case e_labels e of None \<Rightarrow> True | Some l \<Rightarrow> l \<noteq> [] \<and> canonical l)"

definition edges_ok :: "store \<Rightarrow> bool" where
  "edges_ok s \<longleftrightarrow> distinct (map edge_key (edges s)) \<and> (\<forall>e \<in> set (edges s). edge_ok s e)
     \<and> (\<forall>k. enforces_acyclicity (EDGE_POLICIES k) \<longrightarrow> acyclic (edge_rel (edges s) k))"

lemma edge_okD:
  assumes "edge_ok s e"
  shows "from_id e \<noteq> to_id e" "edge_row_check e" "inquiries s (from_id e) \<noteq> None" "inquiries s (to_id e) \<noteq> None"
  using assms by (auto simp: edge_ok_def edge_row_check_def)

lemma edge_ok_cong:
  "(\<And>i. i \<in> {from_id e, to_id e} \<Longrightarrow> map_option iq_kind (inquiries t i) = map_option iq_kind (inquiries s i))
   \<Longrightarrow> edge_ok t e = edge_ok s e"
  by (simp add: edge_ok_def)

lemma edges_ok_cong:
  assumes "edges t = edges s" "\<And>i. map_option iq_kind (inquiries t i) = map_option iq_kind (inquiries s i)"
  shows "edges_ok t = edges_ok s"
  using assms by (simp add: edges_ok_def edge_ok_def)

lemma edges_ok_state [simp]:
  "edges_ok (s\<lparr>client_change_id := k\<rparr>) = edges_ok s"
  "edges_ok (s\<lparr>buffer := b\<rparr>) = edges_ok s"
  "edges_ok (s\<lparr>published := b\<rparr>) = edges_ok s"
  "edges_ok (s\<lparr>clock := n\<rparr>) = edges_ok s"
  "edges_ok (s\<lparr>change_log := l\<rparr>) = edges_ok s"
  by (simp_all add: edges_ok_def edge_ok_def)

lemma edge_rel_mono: "set es \<subseteq> set fs \<Longrightarrow> edge_rel es k \<subseteq> edge_rel fs k"
  by (auto simp: edge_rel_def)

lemma edge_rel_snoc:
  "edge_rel (es @ [e]) k = (if edge_kind e = k then insert (from_id e, to_id e) (edge_rel es k) else edge_rel es k)"
  by (auto simp: edge_rel_def)

lemma edges_ok_subset:
  assumes "edges_ok s" "set (edges t) \<subseteq> set (edges s)" "distinct (map edge_key (edges t))"
    and "\<And>e. e \<in> set (edges t) \<Longrightarrow> edge_ok s e \<Longrightarrow> edge_ok t e"
  shows "edges_ok t"
  using assms by (auto simp: edges_ok_def subset_iff intro: acyclic_subset [OF _ edge_rel_mono])

end
