(* ===== verification/Change_Emission.thy ===== *)
theory Change_Emission
  imports Graph_State
begin

text \<open>
  \<open>store/cascade.py\<close>, first half: \<open>_apply_change\<close>, which charges the subject and writes
  one row of the change log, \<open>emit_change\<close> up to the cascade it may start, and the
  idempotency slot of \<open>store/change_id_slot.py\<close>. The lemmas say what an emission does to
  every table, and that it keeps the constraints of the log and the cost ledger.
\<close>

section \<open>The idempotency slot\<close>

definition set_client_change_id :: "uuid option \<Rightarrow> store \<Rightarrow> store" where
  "set_client_change_id v s = s\<lparr>client_change_id := v\<rparr>"

definition consume_client_change_id :: "store \<Rightarrow> uuid option \<times> store" where
  "consume_client_change_id s = (client_change_id s, s\<lparr>client_change_id := None\<rparr>)"

definition peek_client_change_id :: "store \<Rightarrow> uuid option" where
  "peek_client_change_id s = client_change_id s"

section \<open>Writing one change\<close>

text \<open>The keyword arguments of \<open>emit_change\<close>, and their defaults.\<close>

record emission =
  em_subject_id :: uuid
  em_subject_kind :: inquiry_kind
  em_kind :: Graph_State.change_kind
  em_api_key_id :: "uuid option"
  em_actor :: string
  em_caused_by :: "uuid option"
  em_reason :: string
  em_marginal_cost :: cost
  em_cost_delta :: cost
  em_old :: snapshot
  em_new :: snapshot
  em_extra_subscribers :: "string list"

definition emit_args :: "uuid \<Rightarrow> inquiry_kind \<Rightarrow> Graph_State.change_kind \<Rightarrow> emission" where
  "emit_args i ik k =
     \<lparr>em_subject_id = i, em_subject_kind = ik, em_kind = k, em_api_key_id = None,
      em_actor = ''system'', em_caused_by = None, em_reason = [], em_marginal_cost = 0,
      em_cost_delta = 0, em_old = empty_snapshot, em_new = empty_snapshot, em_extra_subscribers = []\<rparr>"

text \<open>The cost UPDATE with its floor guard: the old cost, the new one, and the subscribers;
  a row that is gone is a tombstone with no cost.\<close>

definition charge :: "uuid \<Rightarrow> cost \<Rightarrow> store \<Rightarrow> (store \<times> cost \<times> cost \<times> string list) res" where
  "charge i delta s =
     (case inquiries s i of
        None \<Rightarrow> Inr (s, 0, 0, [])
      | Some r \<Rightarrow>
          let total = iq_cost r + delta in
          if nonneg total
          then Inr (s\<lparr>inquiries := (inquiries s)(i \<mapsto> r\<lparr>iq_cost := total, iq_modified := clock s\<rparr>),
                      clock := Suc (clock s)\<rparr>,
                    total - delta, total,
                    case iq_subscribers r of None \<Rightarrow> [] | Some xs \<Rightarrow> xs)
          else Inl ConflictError)"

definition add_extras :: "string list \<Rightarrow> string list \<Rightarrow> string list" where
  "add_extras subs extras = foldl (\<lambda>acc x. if x \<in> set acc then acc else acc @ [x]) subs extras"

text \<open>The presence CHECK wants a note and labels beside a peer: NULL is coerced then.\<close>

definition coerce_peer :: "snapshot \<Rightarrow> snapshot" where
  "coerce_peer n =
     (if peer_id n = None then n
      else n\<lparr>edge_note := Some (case edge_note n of None \<Rightarrow> [] | Some t \<Rightarrow> t),
             edge_labels := Some (case edge_labels n of None \<Rightarrow> [] | Some l \<Rightarrow> l)\<rparr>)"

definition apply_change :: "uuid \<Rightarrow> emission \<Rightarrow> store \<Rightarrow> (store \<times> cost \<times> cost \<times> string list) res" where
  "apply_change cid e s =
     bind_res (charge (em_subject_id e) (em_marginal_cost e + em_cost_delta e) s)
       (\<lambda>(s, oc, nc, subs).
         let subs = add_extras subs (em_extra_subscribers e) in
         bind_res
           (insert_change
             \<lparr>change_id = cid, change_created = 0, api_key_id = em_api_key_id e, actor = em_actor e,
              subject_id = em_subject_id e, subject_kind = em_subject_kind e, change_kind = em_kind e,
              caused_by = em_caused_by e, reason = em_reason e, subscribers_snapshot = subs,
              old = coerce_peer (em_old e), new = coerce_peer (em_new e), old_cost = oc, new_cost = nc\<rparr> s)
           (\<lambda>t. Inr (t, oc, nc, subs)))"

definition find_change :: "uuid \<Rightarrow> store \<Rightarrow> change option" where
  "find_change i s = List.find (\<lambda>c. change_id c = i) (change_log s)"

definition buffer_notification :: "uuid \<Rightarrow> store \<Rightarrow> store" where
  "buffer_notification i s = s\<lparr>buffer := buffer s @ [i]\<rparr>"

text \<open>
  \<open>emit_change\<close> up to its cascade. The flag says that a keyed retry was replayed: the
  savepoint was rolled back, so nothing but the slot changed.
\<close>

definition emit_once :: "emission \<Rightarrow> store \<Rightarrow> (store \<times> uuid \<times> string list \<times> bool) res" where
  "emit_once e s0 =
     (let (key, s) = consume_client_change_id s0 in
      case key of
        None \<Rightarrow>
          bind_res (apply_change (uuid4 s) e s) (\<lambda>(t, oc, nc, subs).
            Inr (buffer_notification (em_subject_id e) t, uuid4 s, subs, False))
      | Some k \<Rightarrow>
          (case apply_change k e s of
             Inr (t, oc, nc, subs) \<Rightarrow> Inr (buffer_notification (em_subject_id e) t, k, subs, False)
           | Inl err \<Rightarrow>
               if err \<noteq> UniqueViolation then Inl err
               else (case find_change k s of
                       None \<Rightarrow> Inl UniqueViolation
                     | Some c \<Rightarrow>
                         if em_kind e = Created then Inl UniqueViolation
                         else if actor c = em_actor e \<and> subject_id c = em_subject_id e
                           \<and> change_kind c = em_kind e
                         then Inr (s, k, subscribers_snapshot c, True)
                         else Inl ConflictError)))"

text \<open>\<open>emit_change(cascade=False)\<close>.\<close>

definition emit_quiet :: "emission \<Rightarrow> store \<Rightarrow> (store \<times> uuid \<times> string list) res" where
  "emit_quiet e s = bind_res (emit_once e s) (\<lambda>(t, cid, subs, replayed). Inr (t, cid, subs))"

definition peer_snapshot :: "edge \<Rightarrow> uuid \<Rightarrow> inquiry_kind \<Rightarrow> snapshot" where
  "peer_snapshot e i k =
     \<lparr>peer_id = Some i, peer_kind = Some k, peer_edge_kind = Some (edge_kind e),
      edge_priority = e_priority e, edge_note = e_note e, edge_valence = e_valence e,
      edge_labels = Some (case e_labels e of None \<Rightarrow> [] | Some l \<Rightarrow> l), edited = None\<rparr>"

lemma edited_peer [simp]: "edited (coerce_peer n) = edited n" "edited (peer_snapshot e i k) = None"
  by (simp_all add: coerce_peer_def peer_snapshot_def)

lemma coerce_unpeered [simp]: "peer_id n = None \<Longrightarrow> coerce_peer n = n"
  by (simp add: coerce_peer_def)

lemma peer_id_empty [simp]: "peer_id empty_snapshot = None"
  by (simp add: empty_snapshot_def)

section \<open>The log's invariant\<close>

definition spent :: "uuid \<Rightarrow> change list \<Rightarrow> cost" where
  "spent i cs = sum_list (map (\<lambda>c. new_cost c - old_cost c) (filter (\<lambda>c. subject_id c = i) cs))"

definition log_ok :: "store \<Rightarrow> bool" where
  "log_ok s \<longleftrightarrow> distinct (map change_id (change_log s))
     \<and> (\<forall>c \<in> set (change_log s). change_row_check c \<and> change_created c < clock s
          \<and> (\<forall>i. caused_by c = Some i \<longrightarrow> i \<in> change_ids s))
     \<and> sorted_wrt (<) (map change_created (change_log s))"

definition costs_ok :: "store \<Rightarrow> bool" where
  "costs_ok s \<longleftrightarrow> (\<forall>i r. inquiries s i = Some r \<longrightarrow>
     nonneg (iq_cost r) \<and> iq_cost r = spent i (change_log s))"

text \<open>What an emission leaves of the inquiries: everything but the running cost and the
  modification time.\<close>

definition iq_static :: "inquiry \<Rightarrow> inquiry_kind \<times> nat \<times> nat \<times> bool \<times> (column \<Rightarrow> cval option)" where
  "iq_static r = (iq_kind r, iq_seq r, iq_created r, iq_locked r, iq_columns r)"

definition rows_kept :: "store \<Rightarrow> store \<Rightarrow> bool" where
  "rows_kept s t \<longleftrightarrow> (\<forall>i. map_option iq_static (inquiries t i) = map_option iq_static (inquiries s i))"

text \<open>\<open>t\<close> is \<open>s\<close> after change rows were written.\<close>

definition wrote :: "store \<Rightarrow> store \<Rightarrow> bool" where
  "wrote s t \<longleftrightarrow> edges t = edges s \<and> rows_kept s t \<and> published t = published s
     \<and> iq_ids t = iq_ids s \<and> sequences t = sequences s \<and> prefix (change_log s) (change_log t)
     \<and> (log_ok s \<longrightarrow> log_ok t) \<and> (costs_ok s \<longrightarrow> costs_ok t)"

lemma costs_okD: "costs_ok s \<Longrightarrow> inquiries s i = Some r \<Longrightarrow> nonneg (iq_cost r)"
  unfolding costs_ok_def by blast

lemma costs_ok_mono:
  assumes "costs_ok s" "change_log t = change_log s"
    and "\<And>i r. inquiries t i = Some r \<Longrightarrow> \<exists>q. inquiries s i = Some q \<and> iq_cost q = iq_cost r"
  shows "costs_ok t"
  using assms unfolding costs_ok_def by metis

lemma costs_ok_slot [simp]: "costs_ok (s\<lparr>client_change_id := k\<rparr>) = costs_ok s"
  unfolding costs_ok_def by simp

lemma change_ids_slot [simp]: "change_ids (s\<lparr>client_change_id := k\<rparr>) = change_ids s"
  unfolding change_ids_def by simp

lemma wrote_state [simp]:
  "wrote (s\<lparr>client_change_id := k\<rparr>) t = wrote s t"
  "wrote s (t\<lparr>client_change_id := k\<rparr>) = wrote s t"
  "wrote s (buffer_notification i t) = wrote s t"
  by (simp_all add: wrote_def rows_kept_def log_ok_def costs_ok_def change_ids_def buffer_notification_def)

section \<open>What an emission does\<close>

lemma spent_snoc: "spent i (cs @ [c]) = spent i cs + (if subject_id c = i then new_cost c - old_cost c else 0)"
  by (simp add: spent_def)

lemma charge_emitted:
  assumes "charge i d s = Inr (t, oc, nc, subs)"
  shows "edges t = edges s" "change_log t = change_log s" "rows_kept s t" "published t = published s"
    "buffer t = buffer s" "client_change_id t = client_change_id s" "clock s \<le> clock t"
    "iq_ids t = iq_ids s" "sequences t = sequences s"
    "inquiries s i = None \<Longrightarrow> inquiries t = inquiries s \<and> nc = 0 \<and> oc = 0 \<and> subs = []"
    "inquiries s i = Some r \<Longrightarrow> inquiries t = (inquiries s)(i \<mapsto> r\<lparr>iq_cost := nc, iq_modified := clock s\<rparr>)
       \<and> nonneg nc \<and> oc = iq_cost r \<and> nc = iq_cost r + d
       \<and> subs = (case iq_subscribers r of None \<Rightarrow> [] | Some xs \<Rightarrow> xs)"
  using assms
  by (auto simp: charge_def rows_kept_def iq_static_def Let_def split: option.splits if_splits)

lemma log_ok_charge: "charge i d s = Inr (t, x) \<Longrightarrow> log_ok s \<Longrightarrow> log_ok t"
  using charge_emitted [of i d s t "fst x" "fst (snd x)" "snd (snd x)"]
  by (cases x) (force simp: log_ok_def change_ids_def)

lemma log_ok_insert: "insert_change c s = Inr t \<Longrightarrow> log_ok s \<Longrightarrow> log_ok t"
  by (auto simp: res_simps log_ok_def change_ids_def change_row_check_def sorted_wrt_append less_Suc_eq
      split: option.splits)

lemma costs_ok_apply:
  assumes c: "charge i d s = Inr (t, oc, nc, subs)" and ok: "costs_ok s"
    and l: "change_log u = change_log t @ [c]" "inquiries u = inquiries t"
    and f: "subject_id c = i" "old_cost c = oc" "new_cost c = nc"
  shows "costs_ok u"
  unfolding costs_ok_def
proof (intro allI impI)
  fix j r assume r: "inquiries u j = Some r"
  note ce = charge_emitted [OF c]
  show "nonneg (iq_cost r) \<and> iq_cost r = spent j (change_log u)"
  proof (cases "inquiries s i")
    case None
    from None ce(10) l r have "inquiries s j = Some r" by simp
    with ok have "nonneg (iq_cost r) \<and> iq_cost r = spent j (change_log s)" unfolding costs_ok_def by blast
    with None l ce(2) ce(10) f show ?thesis by (auto simp: spent_snoc)
  next
    case (Some q)
    note ce9 = ce(11) [OF Some]
    show ?thesis
    proof (cases "j = i")
      case True
      with Some ok have "iq_cost q = spent i (change_log s)" by (auto simp: costs_ok_def)
      with True r l ce(2) ce9 f show ?thesis by (auto simp: spent_snoc)
    next
      case False
      with r l ce9 have "inquiries s j = Some r" by simp
      with ok have "nonneg (iq_cost r) \<and> iq_cost r = spent j (change_log s)" unfolding costs_ok_def by blast
      with False l ce(2) f show ?thesis by (auto simp: spent_snoc)
    qed
  qed
qed

text \<open>The row an emission writes, as a record of its arguments.\<close>

definition change_of :: "uuid \<Rightarrow> emission \<Rightarrow> string list \<Rightarrow> change \<Rightarrow> bool" where
  "change_of cid e subs c \<longleftrightarrow> change_id c = cid \<and> api_key_id c = em_api_key_id e \<and> actor c = em_actor e
     \<and> subject_id c = em_subject_id e \<and> subject_kind c = em_subject_kind e \<and> change_kind c = em_kind e
     \<and> caused_by c = em_caused_by e \<and> reason c = em_reason e \<and> subscribers_snapshot c = subs
     \<and> old c = coerce_peer (em_old e) \<and> new c = coerce_peer (em_new e)"

lemma apply_change_ok:
  assumes "apply_change cid e s = Inr (t, oc, nc, subs)"
  shows "wrote s t" "\<exists>c. change_log t = change_log s @ [c] \<and> change_of cid e subs c
      \<and> old_cost c = oc \<and> new_cost c = nc"
    "buffer t = buffer s" "client_change_id t = client_change_id s" "cid \<notin> change_ids s"
proof -
  obtain u subs' c where ch: "charge (em_subject_id e) (em_marginal_cost e + em_cost_delta e) s = Inr (u, oc, nc, subs')"
    and ins: "insert_change c u = Inr t" and subs: "subs = add_extras subs' (em_extra_subscribers e)"
    and c: "change_of cid e subs c" "old_cost c = oc" "new_cost c = nc" "subject_id c = em_subject_id e"
    using assms by (auto simp: apply_change_def res_simps Let_def change_of_def)
  note ce = charge_emitted [OF ch]
  have t: "change_log t = change_log s @ [c\<lparr>change_created := clock u\<rparr>]" "edges t = edges s"
    "inquiries t = inquiries u" "published t = published s" "buffer t = buffer s"
    "client_change_id t = client_change_id s" "cid \<notin> change_ids s"
    "iq_ids t = iq_ids s" "sequences t = sequences s"
    using ins ce c by (auto simp: res_simps change_ids_def change_of_def)
  show "buffer t = buffer s" "client_change_id t = client_change_id s" "cid \<notin> change_ids s"
    by (fact t)+
  show "\<exists>c. change_log t = change_log s @ [c] \<and> change_of cid e subs c \<and> old_cost c = oc \<and> new_cost c = nc"
    using t c by (intro exI [of _ "c\<lparr>change_created := clock u\<rparr>"]) (simp add: change_of_def)
  have "costs_ok s \<Longrightarrow> costs_ok t"
    by (rule costs_ok_apply [OF ch, of _ "c\<lparr>change_created := clock u\<rparr>"]) (use t c ce in simp_all)
  moreover have "log_ok s \<Longrightarrow> log_ok t"
    using log_ok_insert [OF ins] log_ok_charge [of _ _ s u "(oc, nc, subs')"] ch by simp
  ultimately show "wrote s t"
    using t ce by (auto simp: wrote_def rows_kept_def)
qed

text \<open>The two ways an emission can end well: a new row, or the replay of a keyed one.\<close>

lemma emit_once_cases:
  assumes "emit_once e s = Inr (t, cid, subs, r)"
  obtains (fresh) c where "\<not> r" "change_log t = change_log s @ [c]" "change_of cid e subs c"
      "buffer t = buffer s @ [em_subject_id e]" "client_change_id t = None" "cid \<notin> change_ids s" "wrote s t"
  | (replay) c where "r" "t = s\<lparr>client_change_id := None\<rparr>" "client_change_id s = Some cid"
      "find_change cid s = Some c" "actor c = em_actor e" "subject_id c = em_subject_id e"
      "change_kind c = em_kind e" "subs = subscribers_snapshot c"
proof (cases "client_change_id s")
  case None
  let ?s = "s\<lparr>client_change_id := None\<rparr>"
  obtain u oc nc where a: "apply_change (uuid4 ?s) e ?s = Inr (u, oc, nc, subs)"
    and t: "t = buffer_notification (em_subject_id e) u" "cid = uuid4 ?s" "\<not> r"
    using assms None by (auto simp: emit_once_def consume_client_change_id_def res_simps)
  obtain c where "change_log u = change_log ?s @ [c]" "change_of (uuid4 ?s) e subs c"
    using apply_change_ok(2) [OF a] by blast
  then show ?thesis
    using apply_change_ok(1,3-5) [OF a] t by (intro fresh [of c]) (simp_all, simp_all add: buffer_notification_def)
next
  case (Some k)
  let ?s = "s\<lparr>client_change_id := None\<rparr>"
  show ?thesis
  proof (cases "apply_change k e ?s")
    case (Inr v)
    then obtain u oc nc where a: "apply_change k e ?s = Inr (u, oc, nc, subs)"
      and t: "t = buffer_notification (em_subject_id e) u" "cid = k" "\<not> r"
      using assms Some by (cases v) (auto simp: emit_once_def consume_client_change_id_def)
    obtain c where "change_log u = change_log ?s @ [c]" "change_of k e subs c"
      using apply_change_ok(2) [OF a] by blast
    then show ?thesis
      using apply_change_ok(1,3-5) [OF a] t by (intro fresh [of c]) (simp_all, simp_all add: buffer_notification_def)
  next
    case (Inl err)
    with assms Some have e: "err = UniqueViolation" by (auto simp: emit_once_def consume_client_change_id_def
          split: if_splits)
    show ?thesis
    proof (cases "find_change k ?s")
      case None
      with assms Some Inl e show ?thesis by (simp add: emit_once_def consume_client_change_id_def)
    next
      case c: (Some c)
      with assms Some Inl e have "actor c = em_actor e" "subject_id c = em_subject_id e"
        "change_kind c = em_kind e" "t = ?s" "cid = k" "subs = subscribers_snapshot c" r
        by (auto simp: emit_once_def consume_client_change_id_def split: if_splits)
      with c Some show ?thesis by (intro replay [of c]) (simp_all add: find_change_def)
    qed
  qed
qed

text \<open>Every row written is notified once: the queue follows the log.\<close>

definition mirrored :: "store \<Rightarrow> store \<Rightarrow> bool" where
  "mirrored s t \<longleftrightarrow> (\<exists>cs. change_log t = change_log s @ cs \<and> buffer t = buffer s @ map subject_id cs)"

text \<open>\<open>t\<close> is \<open>s\<close> after emissions only.\<close>

definition emitted :: "store \<Rightarrow> store \<Rightarrow> bool" where
  "emitted s t \<longleftrightarrow> wrote s t \<and> mirrored s t"

lemma mirrored_refl [simp]: "mirrored s s"
  by (simp add: mirrored_def)

lemma mirrored_trans: "mirrored s t \<Longrightarrow> mirrored t u \<Longrightarrow> mirrored s u"
  unfolding mirrored_def by (metis append.assoc map_append)

lemma emitted_refl [simp]: "emitted s s"
  by (simp add: emitted_def wrote_def rows_kept_def)

lemma emitted_trans [trans]: "emitted s t \<Longrightarrow> emitted t u \<Longrightarrow> emitted s u"
  by (auto simp: emitted_def wrote_def rows_kept_def intro: prefix_order.trans mirrored_trans)

lemma emitted_edges: "emitted s t \<Longrightarrow> edges t = edges s"
  by (simp add: emitted_def wrote_def)

lemma emitted_kind:
  "emitted s t \<Longrightarrow> map_option iq_kind (inquiries t i) = map_option iq_kind (inquiries s i)"
  unfolding emitted_def wrote_def rows_kept_def iq_static_def
  by (elim conjE allE [of _ i]) (cases "inquiries s i"; cases "inquiries t i"; simp)

lemma emitted_present: "emitted s t \<Longrightarrow> inquiries t i = None \<longleftrightarrow> inquiries s i = None"
  using emitted_kind [of s t i] by (metis map_option_is_None)

lemma emitted_ids: "emitted s t \<Longrightarrow> change_ids s \<subseteq> change_ids t"
  by (auto simp: emitted_def wrote_def change_ids_def prefix_def)

lemma emitted_slot [simp]:
  "emitted (s\<lparr>client_change_id := k\<rparr>) t = emitted s t"
  "emitted s (t\<lparr>client_change_id := k\<rparr>) = emitted s t"
  by (simp_all add: emitted_def mirrored_def)

lemma emit_once_emitted:
  assumes "emit_once e s = Inr (t, cid, subs, r)"
  shows "emitted s t"
proof -
  have r: "wrote s s" by (simp add: wrote_def rows_kept_def)
  show ?thesis
    using assms by (cases rule: emit_once_cases) (auto simp: emitted_def mirrored_def change_of_def r)
qed

lemma emit_quiet_once: "emit_quiet e s = Inr (t, cid, subs) \<longleftrightarrow> (\<exists>r. emit_once e s = Inr (t, cid, subs, r))"
  by (auto simp: emit_quiet_def res_simps)

lemma emit_quiet_emitted: "emit_quiet e s = Inr (t, cid, subs) \<Longrightarrow> emitted s t"
  by (auto simp: emit_quiet_once intro: emit_once_emitted)

lemma find_change_ids: "find_change k s = Some c \<Longrightarrow> k \<in> change_ids s"
  by (auto simp: find_change_def change_ids_def dest!: find_Some_iff_mem)

lemma find_change_None: "find_change k s = None \<longleftrightarrow> k \<notin> change_ids s"
  by (auto simp: find_change_def find_None_iff_all change_ids_def)

lemma emit_quiet_slot: "emit_quiet e s = Inr (t, cid, subs) \<Longrightarrow> client_change_id t = None \<and> cid \<in> change_ids t"
  unfolding emit_quiet_once
  by (elim exE, erule emit_once_cases)
    (auto simp: change_ids_def change_of_def dest: find_change_ids [unfolded change_ids_def])

section \<open>Emissions that cannot fail\<close>

lemma charge_zero:
  assumes "costs_ok s"
  shows "\<exists>t oc nc subs. charge i 0 s = Inr (t, oc, nc, subs)"
  using assms costs_okD [OF assms, of i] by (cases "inquiries s i") (auto simp: charge_def Let_def)

text \<open>No key, or one that names no change yet.\<close>

definition unused_key :: "store \<Rightarrow> bool" where
  "unused_key s \<longleftrightarrow> (case client_change_id s of None \<Rightarrow> True | Some k \<Rightarrow> k \<notin> change_ids s)"

lemma emit_unused_total:
  assumes "unused_key s" "costs_ok s" "em_marginal_cost e + em_cost_delta e = 0"
    and "peers_check (em_kind e) (coerce_peer (em_old e)) (coerce_peer (em_new e))"
    and "mirror_check (em_kind e) (em_subject_kind e) (coerce_peer (em_old e)) (coerce_peer (em_new e))"
    and "em_caused_by e = None \<or> (\<exists>i. em_caused_by e = Some i \<and> i \<in> change_ids s)"
  shows "\<exists>t cid subs c. emit_quiet e s = Inr (t, cid, subs) \<and> change_log t = change_log s @ [c]
    \<and> change_of cid e subs c"
proof -
  let ?s = "s\<lparr>client_change_id := None\<rparr>"
  let ?cid = "case client_change_id s of None \<Rightarrow> uuid4 ?s | Some k \<Rightarrow> k"
  have ok: "costs_ok ?s" using assms(2) by simp
  obtain u oc nc subs where ch: "charge (em_subject_id e) 0 ?s = Inr (u, oc, nc, subs)"
    using charge_zero [OF ok] by blast
  have u: "change_ids u = change_ids s" using charge_emitted(2) [OF ch] by (simp add: change_ids_def)
  have "?cid \<notin> change_ids s"
    using uuid4_fresh [of ?s] assms(1) by (simp add: change_ids_def unused_key_def split: option.splits)
  then have "\<exists>v. apply_change ?cid e ?s = Inr v"
    using ch assms(4-6) u by (auto simp: apply_change_def assms(3) insert_change_def change_row_check_def Let_def)
  then obtain v subs' where "emit_quiet e s = Inr (v, ?cid, subs')" "emit_once e s = Inr (v, ?cid, subs', False)"
    by (cases "client_change_id s") (auto simp: emit_quiet_def emit_once_def consume_client_change_id_def)
  then show ?thesis by (blast elim: emit_once_cases)
qed

lemma emit_quiet_total:
  assumes "client_change_id s = None" "costs_ok s" "em_marginal_cost e + em_cost_delta e = 0"
    and "peers_check (em_kind e) (coerce_peer (em_old e)) (coerce_peer (em_new e))"
    and "mirror_check (em_kind e) (em_subject_kind e) (coerce_peer (em_old e)) (coerce_peer (em_new e))"
    and "em_caused_by e = None \<or> (\<exists>i. em_caused_by e = Some i \<and> i \<in> change_ids s)"
  shows "\<exists>t cid subs c. emit_quiet e s = Inr (t, cid, subs) \<and> change_log t = change_log s @ [c]
    \<and> change_of cid e subs c"
  using assms by (intro emit_unused_total) (simp_all add: unused_key_def)

end
