(* ===== verification/Cascade.thy ===== *)
theory Cascade
  imports Change_Emission "HOL-Library.Multiset"
begin

text \<open>
  \<open>store/cascade.py\<close>, second half: the walk that alerts every inquiry depending on a
  changed one, \<open>emit_change\<close> with that walk, and \<open>purge\<close>. The walk is proved to end
  (each round either shortens the queue or marks a dependent for the first time), never
  to fail on a well-formed store, and to fire one alert for every edge that leaves the
  set of affected inquiries, no more and no fewer.
\<close>

section \<open>The walk\<close>

text \<open>The endpoint a change of the other one alerts.\<close>

definition dependent_id :: "edge \<Rightarrow> uuid" where
  "dependent_id e = (if cascade_dependent (EDGE_POLICIES (edge_kind e)) = To then to_id e else from_id e)"

definition dependent_kind :: "edge \<Rightarrow> inquiry_kind" where
  "dependent_kind e = (if cascade_dependent (EDGE_POLICIES (edge_kind e)) = To then to_kind e else from_kind e)"

definition parent_edges :: "uuid \<Rightarrow> edge list option \<Rightarrow> store \<Rightarrow> (uuid \<times> inquiry_kind \<times> edge) list" where
  "parent_edges i edge_rows s =
     (let rows = (case edge_rows of None \<Rightarrow> edges_touching i s | Some es \<Rightarrow> es) in
      map (\<lambda>e. (dependent_id e, dependent_kind e, e)) (filter (\<lambda>e. dependent_id e \<noteq> i) rows))"

type_synonym frontier = "(uuid \<times> inquiry_kind \<times> uuid \<times> edge list option) list"

text \<open>The inner loop: one alert per edge, and a dependent queued the first time it is met.\<close>

fun alert_parents ::
  "uuid \<Rightarrow> inquiry_kind \<Rightarrow> uuid \<Rightarrow> (uuid \<times> inquiry_kind \<times> edge) list \<Rightarrow> store \<Rightarrow> uuid set \<Rightarrow> frontier
   \<Rightarrow> (store \<times> uuid set \<times> frontier) res" where
  "alert_parents cur ck cause [] s walked queue = Inr (s, walked, queue)"
| "alert_parents cur ck cause ((p, pk, e) # ps) s walked queue =
     bind_res
       (emit_quiet ((emit_args p pk DependencyChanged)\<lparr>em_actor := ''librarian'',
          em_caused_by := Some cause, em_new := peer_snapshot e cur ck\<rparr>) s)
       (\<lambda>(t, cid, subs).
         if p \<in> walked then alert_parents cur ck cause ps t walked queue
         else alert_parents cur ck cause ps t (insert p walked) (queue @ [(p, pk, cid, None)]))"

definition captured :: "frontier \<Rightarrow> edge list" where
  "captured q = concat (map (\<lambda>(i, k, c, es). case es of None \<Rightarrow> [] | Some l \<Rightarrow> l) q)"

text \<open>What the walk can still mark.\<close>

definition markable :: "store \<Rightarrow> frontier \<Rightarrow> uuid set" where
  "markable s q = dependent_id ` (set (edges s) \<union> set (captured q))"

lemma captured_simps [simp]:
  "captured (q @ r) = captured q @ captured r"
  "captured [] = []"
  "captured ((i, k, c, es) # q) = (case es of None \<Rightarrow> [] | Some l \<Rightarrow> l) @ captured q"
  by (simp_all add: captured_def)

lemma alert_parents_ok:
  assumes "alert_parents cur ck cause ps s walked queue = Inr (t, w, q)"
  shows "emitted s t \<and> (client_change_id s = None \<or> ps \<noteq> [] \<longrightarrow> client_change_id t = None)
    \<and> w = walked \<union> fst ` set ps
    \<and> (\<exists>new. q = queue @ new \<and> captured new = [] \<and> distinct (map fst new)
         \<and> fst ` set new = fst ` set ps - walked
         \<and> (\<forall>(i, k, c, es) \<in> set new. es = None \<and> c \<in> change_ids t))"
  using assms
proof (induction ps arbitrary: s walked queue)
  case Nil
  then show ?case by auto
next
  case (Cons p ps)
  obtain i pk e where p: "p = (i, pk, e)" by (cases p) auto
  let ?e = "(emit_args i pk DependencyChanged)\<lparr>em_actor := ''librarian'',
          em_caused_by := Some cause, em_new := peer_snapshot e cur ck\<rparr>"
  obtain u cid subs where em: "emit_quiet ?e s = Inr (u, cid, subs)"
    using Cons.prems by (auto simp: p res_simps)
  note u = emit_quiet_emitted [OF em] emit_quiet_slot [OF em]
  show ?case
  proof (cases "i \<in> walked")
    case True
    then have "alert_parents cur ck cause ps u walked queue = Inr (t, w, q)"
      using Cons.prems em by (simp add: p)
    from Cons.IH [OF this] u True show ?thesis
      by (auto simp: p insert_absorb intro: emitted_trans)
  next
    case False
    then have "alert_parents cur ck cause ps u (insert i walked) (queue @ [(i, pk, cid, None)]) = Inr (t, w, q)"
      using Cons.prems em by (simp add: p)
    from Cons.IH [OF this] obtain new where ih: "emitted u t" "client_change_id t = None"
      "w = insert i walked \<union> fst ` set ps" "q = (queue @ [(i, pk, cid, None)]) @ new"
      "captured new = []" "distinct (map fst new)" "fst ` set new = fst ` set ps - insert i walked"
      "\<forall>(j, k, c, es) \<in> set new. es = None \<and> c \<in> change_ids t" using u by auto
    have "cid \<in> change_ids t" using u emitted_ids [OF ih(1)] by auto
    with ih u False show ?thesis
      by (intro conjI exI [of _ "(i, pk, cid, None) # new"])
        (auto simp: p intro: emitted_trans)
  qed
qed

lemma parent_edges_ids:
  "fst ` set (parent_edges i rows s) \<subseteq> dependent_id ` (set (edges s) \<union> set (case rows of None \<Rightarrow> [] | Some es \<Rightarrow> es))"
  by (auto simp: parent_edges_def edges_touching_def Let_def split: option.splits)

function (sequential) cascade_loop :: "store \<Rightarrow> uuid set \<Rightarrow> frontier \<Rightarrow> store res" where
  "cascade_loop s walked [] = Inr s"
| "cascade_loop s walked ((cur, ck, cause, rows) # queue) =
     bind_res (alert_parents cur ck cause (parent_edges cur rows s) s walked queue)
       (\<lambda>(t, w, q). cascade_loop t w q)"
  by pat_completeness auto

text \<open>Each round takes one entry off the queue and puts one on for each newly marked id.\<close>

lemma cascade_decreases:
  assumes "alert_parents cur ck cause (parent_edges cur rows s) s walked queue = Inr (t, w, q)"
  shows "card (markable t q - w) + length q
    < card (markable s ((cur, ck, cause, rows) # queue) - walked) + length ((cur, ck, cause, rows) # queue)"
proof -
  let ?U = "markable s ((cur, ck, cause, rows) # queue)" and ?ps = "parent_edges cur rows s"
  obtain new where a: "emitted s t" "w = walked \<union> fst ` set ?ps" "q = queue @ new" "captured new = []"
    "distinct (map fst new)" "fst ` set new = fst ` set ?ps - walked"
    using alert_parents_ok [OF assms] by auto
  have fin: "finite ?U" unfolding markable_def by (intro finite_imageI finite_UnI finite_set)
  have sub: "fst ` set ?ps \<subseteq> ?U"
    using parent_edges_ids [of cur rows s] by (auto simp: markable_def)
  have "markable t q \<subseteq> ?U"
    using a by (auto simp: markable_def emitted_edges)
  then have "card (markable t q - w) \<le> card (?U - w)"
    using fin by (intro card_mono) auto
  also have "card (?U - w) = card ((?U - walked) - (fst ` set ?ps - walked))"
    using a(2) by (intro arg_cong [where f = card]) auto
  also have "\<dots> = card (?U - walked) - card (fst ` set ?ps - walked)"
    using fin sub by (intro card_Diff_subset) (auto intro: finite_subset)
  finally have le: "card (markable t q - w) \<le> card (?U - walked) - card (fst ` set ?ps - walked)" .
  have "card (fst ` set ?ps - walked) \<le> card (?U - walked)"
    using fin sub by (intro card_mono) auto
  moreover have "card (fst ` set ?ps - walked) = length new"
    using a(5,6) distinct_card [of "map fst new"] by simp
  ultimately show ?thesis using le a(3) by simp
qed

termination cascade_loop
  by (relation "measure (\<lambda>(s, walked, q). card (markable s q - walked) + length q)")
    (auto dest: cascade_decreases)

lemmas cascade_loop_simps = cascade_loop.simps
declare cascade_loop.simps [simp del]

definition cascade_dependency_changed ::
  "uuid \<Rightarrow> inquiry_kind \<Rightarrow> uuid \<Rightarrow> edge list option \<Rightarrow> store \<Rightarrow> store res" where
  "cascade_dependency_changed child ck cause rows s = cascade_loop s {child} [(child, ck, cause, rows)]"

section \<open>Emission with its cascade\<close>

definition non_propagating :: "Graph_State.change_kind \<Rightarrow> bool" where
  "non_propagating k \<longleftrightarrow> k \<in> {Created, DependencyChanged, EdgeRemoved, EdgeAnnotationChanged,
     ImplicitSubsOpened, ImplicitSubsClosed, Purged}"

definition emit_change :: "emission \<Rightarrow> bool \<Rightarrow> store \<Rightarrow> (store \<times> uuid \<times> string list) res" where
  "emit_change e cascade s =
     bind_res (emit_once e s) (\<lambda>(t, cid, subs, replayed).
       if replayed then Inr (t, cid, subs)
       else if cascade \<and> \<not> non_propagating (em_kind e)
       then bind_res (cascade_dependency_changed (em_subject_id e) (em_subject_kind e) cid None t)
              (\<lambda>u. Inr (u, cid, subs))
       else Inr (t, cid, subs))"

lemma cascade_loop_emitted: "cascade_loop s walked q = Inr t \<Longrightarrow> emitted s t"
proof (induction s walked q rule: cascade_loop.induct)
  case (2 s walked cur ck cause rows queue)
  then obtain u w q where a: "alert_parents cur ck cause (parent_edges cur rows s) s walked queue = Inr (u, w, q)"
    and "cascade_loop u w q = Inr t" by (auto simp: cascade_loop_simps res_simps)
  then have "emitted u t" using "2.IH" [of "(u, w, q)" u "(w, q)" w q] by simp
  with alert_parents_ok [OF a] show ?case by (blast intro: emitted_trans)
qed (simp add: cascade_loop_simps)

lemma cascade_loop_slot: "cascade_loop s walked q = Inr t \<Longrightarrow> client_change_id s = None \<Longrightarrow> client_change_id t = None"
proof (induction s walked q rule: cascade_loop.induct)
  case (2 s walked cur ck cause rows queue)
  then obtain u w q where a: "alert_parents cur ck cause (parent_edges cur rows s) s walked queue = Inr (u, w, q)"
    and "cascade_loop u w q = Inr t" by (auto simp: cascade_loop_simps res_simps)
  then show ?case using "2.IH" [of "(u, w, q)" u "(w, q)" w q] alert_parents_ok [OF a] "2.prems" by simp
qed (simp add: cascade_loop_simps)

lemma emit_change_emitted:
  assumes "emit_change e c s = Inr (t, cid, subs)"
  shows "emitted s t" "client_change_id t = None" "cid \<in> change_ids t"
proof -
  obtain u r where o: "emit_once e s = Inr (u, cid, subs, r)"
    using assms by (auto simp: emit_change_def res_simps split: if_splits)
  then have q: "emit_quiet e s = Inr (u, cid, subs)" by (auto simp: emit_quiet_once)
  note u = emit_quiet_emitted [OF q] emit_quiet_slot [OF q]
  have t: "emitted u t" "client_change_id t = None"
    using assms o u cascade_loop_emitted cascade_loop_slot
    by (auto simp: emit_change_def cascade_dependency_changed_def res_simps split: if_splits)
  with u show "emitted s t" "client_change_id t = None" "cid \<in> change_ids t"
    using emitted_ids [OF t(1)] by (auto intro: emitted_trans)
qed

section \<open>Which alerts are fired\<close>

definition other_id :: "edge \<Rightarrow> uuid" where
  "other_id e = (if cascade_dependent (EDGE_POLICIES (edge_kind e)) = To then from_id e else to_id e)"

text \<open>\<open>(a, b)\<close>: a change of \<open>a\<close> alerts \<open>b\<close>.\<close>

definition dep_rel :: "edge list \<Rightarrow> (uuid \<times> uuid) set" where
  "dep_rel es = (\<lambda>e. (other_id e, dependent_id e)) ` set es"

text \<open>An alert, as the edge that fired it.\<close>

definition alert_key :: "change \<Rightarrow> uuid \<times> uuid option \<times> edge_kind option" where
  "alert_key c = (subject_id c, peer_id (new c), peer_edge_kind (new c))"

definition alert_of :: "edge \<Rightarrow> uuid \<times> uuid option \<times> edge_kind option" where
  "alert_of e = (dependent_id e, Some (other_id e), Some (edge_kind e))"

definition is_alert :: "change \<Rightarrow> bool" where
  "is_alert c \<longleftrightarrow> change_kind c = DependencyChanged \<and> actor c = ''librarian''"

lemma touches_other: "from_id e \<noteq> to_id e \<Longrightarrow> touches i e \<and> dependent_id e \<noteq> i \<longleftrightarrow> other_id e = i"
  by (auto simp: touches_def dependent_id_def other_id_def)

lemma other_not_dependent: "from_id e \<noteq> to_id e \<Longrightarrow> other_id e \<noteq> dependent_id e"
  by (auto simp: dependent_id_def other_id_def)

lemma parent_edges_touching: "parent_edges i (Some (edges_touching i s)) s = parent_edges i None s"
  by (simp add: parent_edges_def)

lemma parent_edges_live:
  assumes "\<forall>e \<in> set (edges s). edge_row_check e"
  shows "parent_edges i None s = map (\<lambda>e. (dependent_id e, dependent_kind e, e)) (filter (\<lambda>e. other_id e = i) (edges s))"
proof -
  have "filter (\<lambda>e. dependent_id e \<noteq> i) (edges_touching i s) = filter (\<lambda>e. other_id e = i) (edges s)"
    unfolding edges_touching_def filter_filter using assms touches_other
    by (intro filter_cong) (auto simp: edge_row_check_def)
  then show ?thesis by (simp add: parent_edges_def)
qed

lemma alert_peers_check:
  "edge_row_check e \<Longrightarrow>
   peers_check DependencyChanged (coerce_peer empty_snapshot) (coerce_peer (peer_snapshot e i k))"
  by (auto simp: peers_check_def carries_peer_def coerce_peer_def peer_snapshot_def peer_present_def
      empty_snapshot_def edge_row_check_def annotation_check_def)

lemma alert_parents_exact:
  assumes "costs_ok s" "client_change_id s = None" "cause \<in> change_ids s"
    and "\<forall>(i, k, e) \<in> set ps. edge_row_check e"
  shows "\<exists>t w q cs. alert_parents cur ck cause ps s walked queue = Inr (t, w, q)
    \<and> change_log t = change_log s @ cs \<and> (\<forall>c \<in> set cs. is_alert c)
    \<and> map alert_key cs = map (\<lambda>(i, k, e). (i, Some cur, Some (edge_kind e))) ps"
  using assms
proof (induction ps arbitrary: s walked queue)
  case Nil
  then show ?case by simp
next
  case (Cons p ps)
  obtain i pk e where p: "p = (i, pk, e)" by (cases p) auto
  let ?e = "(emit_args i pk DependencyChanged)\<lparr>em_actor := ''librarian'',
          em_caused_by := Some cause, em_new := peer_snapshot e cur ck\<rparr>"
  have "edge_row_check e" using Cons.prems(4) by (simp add: p)
  then obtain t cid subs c where em: "emit_quiet ?e s = Inr (t, cid, subs)"
    "change_log t = change_log s @ [c]" "change_of cid ?e subs c"
    using emit_quiet_total [of s ?e] Cons.prems alert_peers_check [of e cur ck]
    by (auto simp: emit_args_def)
  note t = emit_quiet_emitted [OF em(1)] emit_quiet_slot [OF em(1)]
  have ok: "costs_ok t" "client_change_id t = None" "cause \<in> change_ids t"
    using t Cons.prems emitted_ids [OF t(1)] by (auto simp: emitted_def wrote_def)
  have c: "is_alert c" "alert_key c = (i, Some cur, Some (edge_kind e))"
    using em(3) by (simp_all add: is_alert_def alert_key_def change_of_def emit_args_def coerce_peer_def
        peer_snapshot_def)
  have "\<exists>u w q cs. alert_parents cur ck cause (p # ps) s walked queue = Inr (u, w, q)
    \<and> change_log u = change_log t @ cs \<and> (\<forall>c \<in> set cs. is_alert c)
    \<and> map alert_key cs = map (\<lambda>(i, k, e). (i, Some cur, Some (edge_kind e))) ps"
    using Cons.IH [OF ok, of walked queue] Cons.IH [OF ok, of "insert i walked" "queue @ [(i, pk, cid, None)]"]
      Cons.prems(4) em(1) by (simp add: p)
  then show ?case using em(2) c by (fastforce simp: p)
qed

lemma cascade_loop_exact:
  assumes "costs_ok s" "client_change_id s = None" "\<forall>e \<in> set (edges s). edge_row_check e"
    and "\<forall>(i, k, c, es) \<in> set q. es = None \<and> c \<in> change_ids s"
    and "distinct (map fst q)" "fst ` set q \<subseteq> walked"
  shows "\<exists>t cs P. cascade_loop s walked q = Inr t \<and> change_log t = change_log s @ cs
    \<and> (\<forall>c \<in> set cs. is_alert c) \<and> fst ` set q \<subseteq> P \<and> P \<inter> walked = fst ` set q
    \<and> P \<subseteq> (dep_rel (edges s) \<inter> P \<times> UNIV)\<^sup>* `` (fst ` set q)
    \<and> dep_rel (edges s) `` P \<subseteq> walked \<union> P
    \<and> mset (map alert_key cs) = mset (map alert_of (filter (\<lambda>e. other_id e \<in> P) (edges s)))"
  using assms
proof (induction s walked q rule: cascade_loop.induct)
  case (1 s walked)
  show ?case by (rule exI [of _ s], rule exI [of _ "[]"], rule exI [of _ "{}"]) (simp add: cascade_loop_simps)
next
  case (2 s walked cur ck cause rows queue)
  let ?E = "edges s" and ?ps = "parent_edges cur rows s"
  have rows: "rows = None" and cause: "cause \<in> change_ids s" using "2.prems"(4) by auto
  have live: "?ps = map (\<lambda>e. (dependent_id e, dependent_kind e, e)) (filter (\<lambda>e. other_id e = cur) ?E)"
    unfolding rows by (rule parent_edges_live [OF "2.prems"(3)])
  obtain u w q cs where a: "alert_parents cur ck cause ?ps s walked queue = Inr (u, w, q)"
    and cs: "change_log u = change_log s @ cs" "\<forall>c \<in> set cs. is_alert c"
      "map alert_key cs = map (\<lambda>(i, k, e). (i, Some cur, Some (edge_kind e))) ?ps"
    using alert_parents_exact [OF "2.prems"(1,2) cause, of ?ps cur ck walked queue] "2.prems"(3)
    by (auto simp: live)
  obtain new where n: "emitted s u" "client_change_id u = None" "w = walked \<union> fst ` set ?ps" "q = queue @ new"
    "distinct (map fst new)" "fst ` set new = fst ` set ?ps - walked"
    "\<forall>(i, k, c, es) \<in> set new. es = None \<and> c \<in> change_ids u"
    using alert_parents_ok [OF a] "2.prems"(2) by auto
  have u: "costs_ok u" "edges u = ?E" "change_ids s \<subseteq> change_ids u"
    using n(1) "2.prems"(1) emitted_ids by (auto simp: emitted_def wrote_def)
  have q: "\<forall>(i, k, c, es) \<in> set q. es = None \<and> c \<in> change_ids u" "distinct (map fst q)" "fst ` set q \<subseteq> w"
    using n u(3) "2.prems"(4-6) by (auto simp: subset_iff)
  obtain t ds P where P: "cascade_loop u w q = Inr t" "change_log t = change_log u @ ds"
    "\<forall>c \<in> set ds. is_alert c" "fst ` set q \<subseteq> P" "P \<inter> w = fst ` set q"
    "P \<subseteq> (dep_rel ?E \<inter> P \<times> UNIV)\<^sup>* `` (fst ` set q)" "dep_rel ?E `` P \<subseteq> w \<union> P"
    "mset (map alert_key ds) = mset (map alert_of (filter (\<lambda>e. other_id e \<in> P) ?E))"
    using "2.IH" [OF a refl refl u(1) n(2) _ q, unfolded u(2), OF "2.prems"(3)]
    by (elim exE conjE) (rule that, assumption+)
  define QU NW PS QS where d: "QU = fst ` set queue" "NW = fst ` set new" "PS = fst ` set ?ps" "QS = fst ` set q"
  have w: "w = walked \<union> PS" and nw: "NW = PS - walked" and qs: "QS = QU \<union> NW"
    and cq: "cur \<notin> QU" "insert cur QU \<subseteq> walked" and pw: "P \<inter> w = QS" and qp: "QS \<subseteq> P"
    and pr: "P \<subseteq> (dep_rel ?E \<inter> P \<times> UNIV)\<^sup>* `` QS"
    using n(3,4,6) "2.prems"(5,6) P(4-6) by (simp_all add: d image_Un)
  have succ: "PS = dep_rel ?E `` {cur}"
    by (auto simp: live dep_rel_def image_iff d)
  have cP: "cur \<notin> P" using pw w nw qs cq by blast
  let ?P = "insert cur P" and ?q = "(cur, ck, cause, rows) # queue"
  let ?R = "dep_rel ?E \<inter> ?P \<times> UNIV"
  have Q: "fst ` set ?q = insert cur QU" by (simp add: d)
  have "cascade_loop s walked ?q = Inr t" using a P(1) by (simp add: cascade_loop_simps)
  moreover have "change_log t = change_log s @ (cs @ ds)" using cs P by simp
  moreover have "\<forall>c \<in> set (cs @ ds). is_alert c" using cs P by auto
  moreover have "fst ` set ?q \<subseteq> ?P" unfolding Q using qp qs by blast
  moreover have "?P \<inter> walked = fst ` set ?q" unfolding Q using pw w nw qs cq by blast
  moreover have "?P \<subseteq> ?R\<^sup>* `` (fst ` set ?q)"
  proof -
    have "NW \<subseteq> ?R `` {cur}" using nw succ by blast
    then have "QS \<subseteq> ?R\<^sup>* `` insert cur QU" unfolding qs by blast
    then have 1: "?R\<^sup>* `` QS \<subseteq> ?R\<^sup>* `` insert cur QU" by (blast intro: rtrancl_trans)
    have "(dep_rel ?E \<inter> P \<times> UNIV)\<^sup>* `` QS \<subseteq> ?R\<^sup>* `` QS"
      by (intro Image_mono rtrancl_mono) auto
    with 1 pr show ?thesis unfolding Q by blast
  qed
  moreover have "dep_rel ?E `` ?P \<subseteq> walked \<union> ?P"
  proof -
    have "PS \<subseteq> walked \<union> P" using nw qp qs by blast
    then show ?thesis using P(7) w succ by blast
  qed
  moreover have "mset (map alert_key (cs @ ds)) = mset (map alert_of (filter (\<lambda>e. other_id e \<in> ?P) ?E))"
  proof -
    have "map alert_key cs = map alert_of (filter (\<lambda>e. other_id e = cur) ?E)"
      unfolding cs(3) live by (auto simp: alert_of_def)
    moreover have "filter_mset (\<lambda>e. other_id e \<in> ?P) (mset ?E)
      = filter_mset (\<lambda>e. other_id e = cur) (mset ?E) + filter_mset (\<lambda>e. other_id e \<in> P) (mset ?E)"
      using cP by (intro multiset_eqI) auto
    ultimately show ?thesis using P(8) by (simp flip: mset_filter)
  qed
  ultimately show ?case by blast
qed

text \<open>The edges the walk from \<open>child\<close> goes by: for \<open>child\<close> itself the caller's rows, when it
  hands some in, and the live table everywhere else.\<close>

definition walk_edges :: "uuid \<Rightarrow> edge list option \<Rightarrow> store \<Rightarrow> edge list" where
  "walk_edges child rows s =
     filter (\<lambda>e. other_id e = child) (case rows of None \<Rightarrow> edges s | Some es \<Rightarrow> es)
     @ filter (\<lambda>e. other_id e \<noteq> child) (edges s)"

definition affected :: "uuid \<Rightarrow> edge list \<Rightarrow> uuid set" where
  "affected child es = (dep_rel es)\<^sup>* `` {child}"

definition store_ok :: "store \<Rightarrow> bool" where
  "store_ok s \<longleftrightarrow> edges_ok s \<and> log_ok s \<and> costs_ok s"

lemma store_okD:
  assumes "store_ok s"
  shows "costs_ok s" "edges_ok s" "log_ok s" "\<forall>e \<in> set (edges s). edge_row_check e"
  using assms by (auto simp: store_ok_def edges_ok_def dest: edge_okD)

lemma emitted_store_ok: "emitted s t \<Longrightarrow> store_ok s \<Longrightarrow> store_ok t"
  using edges_ok_cong [of t s] by (simp add: store_ok_def emitted_edges emitted_kind) (simp add: emitted_def wrote_def)

lemma closed_rtrancl: "x \<in> A \<Longrightarrow> R `` A \<subseteq> A \<Longrightarrow> R\<^sup>* `` {x} \<subseteq> A"
  by (metis Image_closed_trancl Image_mono empty_subsetI insert_subset order_refl)

lemma cascade_fires:
  assumes "costs_ok s" "client_change_id s = None" "cause \<in> change_ids s"
    and row_ok: "\<forall>e \<in> set (edges s). edge_row_check e"
    and captured_ok: "\<forall>es. rows = Some es \<longrightarrow> (\<forall>e \<in> set es. edge_row_check e \<and> touches child e)"
  shows "\<exists>t cs. cascade_dependency_changed child ck cause rows s = Inr t
    \<and> change_log t = change_log s @ cs \<and> (\<forall>c \<in> set cs. is_alert c)
    \<and> mset (map alert_key cs)
      = mset (map alert_of (filter (\<lambda>e. other_id e \<in> affected child (walk_edges child rows s)) (walk_edges child rows s)))"
proof -
  let ?ps = "parent_edges child rows s" and ?E = "edges s" and ?W = "walk_edges child rows s"
  let ?C = "filter (\<lambda>e. other_id e = child) (case rows of None \<Rightarrow> edges s | Some es \<Rightarrow> es)"
  have ps: "?ps = map (\<lambda>e. (dependent_id e, dependent_kind e, e)) ?C"
  proof (cases rows)
    case None
    then show ?thesis using parent_edges_live [OF row_ok, of child] by simp
  next
    case (Some es)
    then have "filter (\<lambda>e. dependent_id e \<noteq> child) es = filter (\<lambda>e. other_id e = child) es"
      using captured_ok touches_other by (intro filter_cong) (auto simp: edge_row_check_def)
    with Some show ?thesis by (simp add: parent_edges_def)
  qed
  have Cok: "\<forall>e \<in> set ?C. edge_row_check e" using row_ok captured_ok by (auto split: option.splits)
  obtain u w q cs where a: "alert_parents child ck cause ?ps s {child} [] = Inr (u, w, q)"
    and cs: "change_log u = change_log s @ cs" "\<forall>c \<in> set cs. is_alert c"
      "map alert_key cs = map (\<lambda>(i, k, e). (i, Some child, Some (edge_kind e))) ?ps"
    using alert_parents_exact [OF assms(1-3), of ?ps child ck "{child}" "[]"] Cok by (auto simp: ps)
  define PS where "PS = fst ` set ?ps"
  have n: "emitted s u" "client_change_id u = None" "w = {child} \<union> PS" "distinct (map fst q)"
    "fst ` set q = PS - {child}" "\<forall>(i, k, c, es) \<in> set q. es = None \<and> c \<in> change_ids u"
    using alert_parents_ok [OF a] assms(2) by (auto simp: PS_def)
  have u: "costs_ok u" "edges u = ?E" using n(1) assms(1) by (auto simp: emitted_def wrote_def)
  have qw: "fst ` set q \<subseteq> w" using n(3,5) by auto
  obtain t ds P where P: "cascade_loop u w q = Inr t" "change_log t = change_log u @ ds"
    "\<forall>c \<in> set ds. is_alert c" "PS - {child} \<subseteq> P" "P \<inter> w = PS - {child}"
    "P \<subseteq> (dep_rel ?E \<inter> P \<times> UNIV)\<^sup>* `` (PS - {child})" "dep_rel ?E `` P \<subseteq> w \<union> P"
    "mset (map alert_key ds) = mset (map alert_of (filter (\<lambda>e. other_id e \<in> P) ?E))"
    using cascade_loop_exact [OF u(1) n(2) _ n(6,4) qw, unfolded u(2), OF row_ok] unfolding n(5)
    by (elim exE conjE) (rule that, assumption+)
  have cP: "child \<notin> P" using P(5) n(3) by blast
  have C: "\<forall>e \<in> set ?C. other_id e = child" and PS: "PS = dependent_id ` set ?C"
    by (simp_all add: PS_def ps image_image)
  have WR: "dep_rel ?W = {child} \<times> PS \<union> (dep_rel ?E \<inter> (- {child}) \<times> UNIV)"
    unfolding dep_rel_def walk_edges_def PS set_append image_Un using C
    by (auto simp: image_iff split: option.splits) (blast+)?
  have A: "affected child ?W = insert child P"
  proof (rule subset_antisym)
    have "dep_rel ?W `` insert child P \<subseteq> insert child P"
      using WR P(4,7) n(3) by auto
    then show "affected child ?W \<subseteq> insert child P"
      unfolding affected_def by (intro closed_rtrancl) auto
    have "PS \<subseteq> (dep_rel ?W)\<^sup>* `` {child}" using WR by auto
    then have 1: "(dep_rel ?W)\<^sup>* `` PS \<subseteq> (dep_rel ?W)\<^sup>* `` {child}" by (blast intro: rtrancl_trans)
    have "dep_rel ?E \<inter> P \<times> UNIV \<subseteq> dep_rel ?W" using WR cP by auto
    then have "(dep_rel ?E \<inter> P \<times> UNIV)\<^sup>* `` (PS - {child}) \<subseteq> (dep_rel ?W)\<^sup>* `` PS"
      by (intro Image_mono rtrancl_mono) auto
    with 1 P(6) show "insert child P \<subseteq> affected child ?W" unfolding affected_def by blast
  qed
  have "map alert_key cs = map alert_of ?C" unfolding cs(3) ps by (auto simp: alert_of_def)
  moreover have "filter (\<lambda>e. other_id e \<in> P) ?E = filter (\<lambda>e. other_id e \<in> insert child P) (filter (\<lambda>e. other_id e \<noteq> child) ?E)"
    using cP by (auto intro: filter_cong)
  moreover have "filter (\<lambda>e. other_id e \<in> insert child P) ?C = ?C"
    unfolding filter_filter by (intro filter_cong) auto
  ultimately have "mset (map alert_key (cs @ ds)) = mset (map alert_of (filter (\<lambda>e. other_id e \<in> insert child P) ?W))"
    using P(8) by (simp add: walk_edges_def)
  moreover have "cascade_dependency_changed child ck cause rows s = Inr t"
    using a P(1) by (simp add: cascade_dependency_changed_def cascade_loop_simps)
  moreover have "change_log t = change_log s @ (cs @ ds)" "\<forall>c \<in> set (cs @ ds). is_alert c" using cs P by auto
  ultimately show ?thesis unfolding A by blast
qed

end
