(* ===== verification/Edge_Primitives.thy ===== *)
theory Edge_Primitives
  imports Cascade
begin

text \<open>
  \<open>server/primitives.py\<close>: the lookups, the annotation guards, the cycle test and the
  guarded edge insert the store's mixins share, and the rule that orders a pair of
  inquiries by age. The lemmas show that the recursive query computes reachability, that
  a guarded insert keeps the edges table well formed and acyclic per kind, and that no
  guarded insert fails at a table constraint other than the topology CHECK.
\<close>

section \<open>Lookups\<close>

definition lookup_kind :: "uuid \<Rightarrow> store \<Rightarrow> inquiry_kind res" where
  "lookup_kind i s = (case inquiries s i of None \<Rightarrow> Inl NotFoundError | Some r \<Rightarrow> Inr (iq_kind r))"

text \<open>The row filter of the access policy, code outside the store, is the argument \<open>readable\<close>;
  a trusted read passes \<open>\<lambda>i. True\<close>.\<close>

definition lookup_kinds :: "(uuid \<Rightarrow> bool) \<Rightarrow> uuid list \<Rightarrow> store \<Rightarrow> uuid \<Rightarrow> inquiry_kind option" where
  "lookup_kinds readable ids s i =
     (if i \<in> set ids \<and> readable i then map_option iq_kind (inquiries s i) else None)"

fun check_references ::
  "inquiry_kind list \<Rightarrow> (uuid \<Rightarrow> inquiry_kind option) \<Rightarrow> (uuid \<times> inquiry_kind option) list \<Rightarrow> unit res" where
  "check_references permitted found [] = Inr ()"
| "check_references permitted found ((i, declared) # ps) =
     (case found i of
        None \<Rightarrow> Inl NotFoundError
      | Some actual \<Rightarrow>
          if actual \<notin> set permitted then Inl ConflictError
          else if declared \<noteq> None \<and> declared \<noteq> Some actual then Inl ConflictError
          else check_references permitted found ps)"

definition validate_list_references ::
  "inquiry_kind list \<Rightarrow> (uuid \<times> inquiry_kind option) list \<Rightarrow> store \<Rightarrow> unit res" where
  "validate_list_references permitted pairs s =
     (if pairs = [] then Inr ()
      else if permitted = [] then Inl AssertionError
      else check_references permitted (lookup_kinds (\<lambda>i. True) (map fst pairs) s) pairs)"

section \<open>Annotation guards\<close>

definition CITATION_VALENCE_DEFAULT :: pyfloat where
  "CITATION_VALENCE_DEFAULT = Fin (1 / 2)"

definition reject_unknown_edge_kind :: "string \<Rightarrow> edge_kind res" where
  "reject_unknown_edge_kind name =
     (case edge_kind_of_name name of None \<Rightarrow> Inl ValidationError | Some k \<Rightarrow> Inr k)"

definition validate_edge_priority :: "edge_kind \<Rightarrow> int option \<Rightarrow> unit res" where
  "validate_edge_priority k p = (if p = None \<or> carries APriority k then Inr () else Inl ValidationError)"

definition validate_edge_valence :: "edge_kind \<Rightarrow> pyfloat option \<Rightarrow> pyfloat option res" where
  "validate_edge_valence k v =
     (if \<not> carries AValence k then (if v \<noteq> None then Inl ValidationError else Inr None)
      else case v of
        None \<Rightarrow> Inr (Some CITATION_VALENCE_DEFAULT)
      | Some x \<Rightarrow> if isnan x \<or> float_lt x (Fin (-1)) \<or> float_lt (Fin 1) x then Inl ValidationError
                   else Inr (Some x))"

section \<open>The cycle test\<close>

text \<open>
  \<open>WITH RECURSIVE descendants ... UNION\<close>: the working table holds the rows found in the
  last round, and \<open>UNION\<close> keeps the ids not seen before.
\<close>

definition next_round :: "edge list \<Rightarrow> edge_kind \<Rightarrow> uuid list \<Rightarrow> uuid list \<Rightarrow> uuid list" where
  "next_round es k working seen =
     dedup (filter (\<lambda>i. i \<notin> set seen)
       (map to_id (filter (\<lambda>e. edge_kind e = k \<and> from_id e \<in> set working) es)))"

function descend :: "edge list \<Rightarrow> edge_kind \<Rightarrow> uuid list \<Rightarrow> uuid list \<Rightarrow> uuid list" where
  "descend es k working seen =
     (if working = [] then seen
      else descend es k (next_round es k working seen) (seen @ next_round es k working seen))"
  by pat_completeness auto

lemma next_round_set:
  "set (next_round es k working seen) = edge_rel es k `` set working - set seen"
  by (auto simp: next_round_def edge_rel_def image_iff)

termination descend
proof (relation "measures [\<lambda>(es, k, working, seen). card (to_id ` set es - set seen), \<lambda>(es, k, working, seen). length working]",
    goal_cases)
  case (2 es k working seen)
  let ?n = "next_round es k working seen"
  show ?case
  proof (cases "?n = []")
    case True
    with 2 show ?thesis by simp
  next
    case False
    then obtain x where x: "x \<in> set ?n" by (cases ?n) auto
    then have "x \<in> to_id ` set es - set seen" unfolding next_round_set by (auto simp: edge_rel_def)
    then have "to_id ` set es - set (seen @ ?n) \<subset> to_id ` set es - set seen" using x by auto
    then show ?thesis by (auto intro: psubset_card_mono)
  qed
qed simp

declare descend.simps [simp del]

definition descendants :: "edge list \<Rightarrow> edge_kind \<Rightarrow> uuid \<Rightarrow> uuid list" where
  "descendants es k i = descend es k [i] [i]"

definition reject_edge_cycle :: "uuid \<Rightarrow> uuid \<Rightarrow> edge_kind \<Rightarrow> store \<Rightarrow> unit res" where
  "reject_edge_cycle f t k s =
     (if f = t then Inl ValidationError
      else if \<not> enforces_acyclicity (EDGE_POLICIES k) then Inr ()
      else if f \<in> set (descendants (edges s) k t) then Inl ConflictError
      else Inr ())"

lemma descend_set:
  assumes "set working \<subseteq> set seen" "edge_rel es k `` (set seen - set working) \<subseteq> set seen"
  shows "set (descend es k working seen) = (edge_rel es k)\<^sup>* `` set seen"
  using assms
proof (induction es k working seen rule: descend.induct)
  case (1 es k working seen)
  let ?R = "edge_rel es k" and ?n = "next_round es k working seen"
  show ?case
  proof (cases "working = []")
    case True
    then have "?R `` set seen \<subseteq> set seen" using 1 by simp
    then have "?R\<^sup>* `` set seen = set seen" by (rule Image_closed_trancl)
    with True show ?thesis by (simp add: descend.simps)
  next
    case False
    have "set ?n \<subseteq> set (seen @ ?n)" by simp
    moreover have "?R `` (set (seen @ ?n) - set ?n) \<subseteq> set (seen @ ?n)"
      using 1(3) by (auto simp: next_round_set)
    ultimately have "set (descend es k ?n (seen @ ?n)) = ?R\<^sup>* `` set (seen @ ?n)"
      using "1.IH" [OF False] by blast
    also have "\<dots> = ?R\<^sup>* `` set seen"
    proof -
      have "set ?n \<subseteq> ?R\<^sup>* `` set seen" using 1(2) by (auto simp: next_round_set)
      then have "?R\<^sup>* `` set ?n \<subseteq> ?R\<^sup>* `` set seen" by (blast intro: rtrancl_trans)
      then show ?thesis by (auto simp: Image_Un)
    qed
    finally show ?thesis using False by (simp add: descend.simps [of es k working])
  qed
qed

lemma set_descendants: "set (descendants es k i) = (edge_rel es k)\<^sup>* `` {i}"
  by (simp add: descendants_def descend_set)

section \<open>The guarded insert\<close>

definition insert_edge ::
  "uuid \<Rightarrow> inquiry_kind \<Rightarrow> uuid \<Rightarrow> edge_kind \<Rightarrow> int option \<Rightarrow> string \<Rightarrow> pyfloat option \<Rightarrow> string list
   \<Rightarrow> store \<Rightarrow> (store \<times> bool \<times> inquiry_kind) res" where
  "insert_edge f fk t k p n v ls s =
     bind_res (lookup_kind t s) (\<lambda>tk.
     bind_res (validate_edge_priority k p) (\<lambda>u.
     bind_res (validate_edge_valence k v) (\<lambda>v'.
     bind_res (reject_edge_cycle f t k s) (\<lambda>u.
     bind_res (insert_edge_row
         \<lparr>from_id = f, from_kind = fk, to_id = t, to_kind = tk, edge_kind = k, e_priority = p,
          e_note = empty_str_to_none n, e_valence = v',
          e_labels = empty_list_to_none (canonical_strs ls)\<rparr> s)
       (\<lambda>(s', inserted). Inr (s', inserted, tk))))))"

section \<open>Age order\<close>

text \<open>\<open>sorted((from_id, to_id), key=lambda i: (created[i], i.bytes))\<close>.\<close>

definition ct_first :: "uuid \<Rightarrow> nat \<Rightarrow> uuid \<Rightarrow> nat \<Rightarrow> bool" where
  "ct_first f cf t ct \<longleftrightarrow> ct < cf \<or> ct = cf \<and> t < f"

definition older_first :: "uuid \<Rightarrow> nat \<Rightarrow> uuid \<Rightarrow> nat \<Rightarrow> uuid \<times> uuid" where
  "older_first f cf t ct = (if ct_first f cf t ct then (t, f) else (f, t))"

definition pair_kinds :: "uuid \<Rightarrow> uuid \<Rightarrow> edge list \<Rightarrow> edge_kind list" where
  "pair_kinds f t es =
     map edge_kind (filter (\<lambda>e. from_id e = f \<and> to_id e = t \<or> from_id e = t \<and> to_id e = f) es)"

definition inference_winner :: "edge_kind list \<Rightarrow> edge_kind option" where
  "inference_winner kinds = List.find (\<lambda>k. k \<in> set kinds) PRODUCED_INFERENCE_PRECEDENCE"

definition infer_produced_endpoints ::
  "uuid \<Rightarrow> uuid \<Rightarrow> store \<Rightarrow> (uuid \<times> uuid \<times> edge_kind) option res" where
  "infer_produced_endpoints f t s =
     (case inference_winner (pair_kinds f t (edges s)) of
        None \<Rightarrow> Inr None
      | Some w \<Rightarrow>
          if w \<in> set PRODUCED_INFERENCE_SUPPRESSED then Inr None
          else (case (inquiries s f, inquiries s t) of
                  (Some a, Some b) \<Rightarrow>
                    let (older, younger) = older_first f (iq_created a) t (iq_created b)
                    in Inr (Some (older, younger, w))
                | _ \<Rightarrow> Inl KeyError))"

section \<open>Lemmas\<close>

lemma lookup_kind_Inr [res_simps]: "lookup_kind i s = Inr k \<longleftrightarrow> map_option iq_kind (inquiries s i) = Some k"
  by (auto simp: lookup_kind_def split: option.splits)

lemma reject_edge_cycle_Inr [res_simps]:
  "reject_edge_cycle f t k s = Inr u \<longleftrightarrow> f \<noteq> t
     \<and> (enforces_acyclicity (EDGE_POLICIES k) \<longrightarrow> (t, f) \<notin> (edge_rel (edges s) k)\<^sup>*)"
  by (auto simp: reject_edge_cycle_def set_descendants)

lemma validate_edge_valence_Inr:
  "validate_edge_valence k v = Inr v' \<Longrightarrow>
     (carries AValence k \<longleftrightarrow> v' \<noteq> None) \<and> annotation_check (Some k) None v' \<and> (v = None \<or> v' = v)"
  by (auto simp: validate_edge_valence_def annotation_check_def isnan_def CITATION_VALENCE_DEFAULT_def
      split: if_splits option.splits)

lemma insert_acyclic:
  assumes "acyclic (edge_rel es k)" "(t, f) \<notin> (edge_rel es k)\<^sup>*"
  shows "acyclic (insert (f, t) (edge_rel es k))"
  using assms by (simp add: acyclic_insert)

lemma insert_edge_Inr:
  assumes "insert_edge f fk t k p n v ls s = Inr (s', ins, tk)"
  obtains v' e where
    "e = \<lparr>from_id = f, from_kind = fk, to_id = t, to_kind = tk, edge_kind = k, e_priority = p,
          e_note = empty_str_to_none n, e_valence = v', e_labels = empty_list_to_none (canonical_strs ls)\<rparr>"
    "map_option iq_kind (inquiries s t) = Some tk" "validate_edge_priority k p = Inr ()"
    "validate_edge_valence k v = Inr v'" "reject_edge_cycle f t k s = Inr ()"
    "insert_edge_row e s = Inr (s', ins)"
  using assms by (auto simp: insert_edge_def res_simps)

lemma insert_edge_edges_ok:
  assumes i: "insert_edge f fk t k p n v ls s = Inr (s', ins, tk)" and ok: "edges_ok s"
    and fk: "map_option iq_kind (inquiries s f) = Some fk"
  shows "edges_ok s'"
proof (cases ins)
  case False
  with i show ?thesis using ok by (auto elim!: insert_edge_Inr simp: res_simps)
next
  case True
  from i obtain v' e where e:
    "e = \<lparr>from_id = f, from_kind = fk, to_id = t, to_kind = tk, edge_kind = k, e_priority = p,
          e_note = empty_str_to_none n, e_valence = v', e_labels = empty_list_to_none (canonical_strs ls)\<rparr>"
    "map_option iq_kind (inquiries s t) = Some tk" "validate_edge_valence k v = Inr v'"
    "reject_edge_cycle f t k s = Inr ()" and row: "insert_edge_row e s = Inr (s', ins)"
    by (rule insert_edge_Inr) blast
  have s': "s' = s\<lparr>edges := edges s @ [e]\<rparr>" "edge_row_check e" "edge_key e \<notin> edge_key ` set (edges s)"
    using row True by (auto simp: res_simps)
  have "edge_ok s e"
    using s'(2) e fk validate_edge_valence_Inr [OF e(3)]
    by (auto simp: edge_ok_def empty_str_to_none_def empty_list_to_none_def)
  moreover have "acyclic (edge_rel (edges s @ [e]) j)" if "enforces_acyclicity (EDGE_POLICIES j)" for j
  proof -
    have a: "acyclic (edge_rel (edges s) j)" using ok that by (simp add: edges_ok_def)
    show ?thesis
    proof (cases "j = k")
      case True
      then have "(t, f) \<notin> (edge_rel (edges s) j)\<^sup>*" using e(4) that by (simp add: res_simps)
      with insert_acyclic [OF a this] True show ?thesis by (simp add: edge_rel_snoc e(1))
    next
      case False
      with a show ?thesis by (simp add: edge_rel_snoc e(1))
    qed
  qed
  ultimately show ?thesis
    using ok s' by (simp add: edges_ok_def edge_ok_def)
qed

lemma pair_kinds_mem:
  "k \<in> set (pair_kinds f t es) \<longleftrightarrow> (f, t, k) \<in> edge_key ` set es \<or> (t, f, k) \<in> edge_key ` set es"
  by (auto simp: pair_kinds_def edge_key_def image_iff)

lemma inference_winner_Some:
  assumes "inference_winner kinds = Some w" "w \<notin> set PRODUCED_INFERENCE_SUPPRESSED"
  shows "w \<in> {Narrows, Requires, Supersedes} \<and> w \<in> set kinds \<and> ProducedBy \<notin> set kinds"
  using assms
  by (auto simp: inference_winner_def PRODUCED_INFERENCE_PRECEDENCE_def PRODUCED_INFERENCE_SUPPRESSED_def
      split: if_splits)

lemma inference_winner_None:
  "inference_winner kinds = None \<longleftrightarrow> set kinds \<subseteq> {CitesPaper, Proves, Favors}"
proof -
  have "k \<in> {CitesPaper, Proves, Favors} \<longleftrightarrow> k \<notin> {ProducedBy, Narrows, Requires, Supersedes}" for k
    by (cases k) simp_all
  then have "set kinds \<subseteq> {CitesPaper, Proves, Favors}
      \<longleftrightarrow> (\<forall>k \<in> set kinds. k \<notin> {ProducedBy, Narrows, Requires, Supersedes})"
    by blast
  then show ?thesis
    unfolding inference_winner_def PRODUCED_INFERENCE_PRECEDENCE_def find_None_iff_all by auto
qed

text \<open>The producer is the older of the pair, and the pair has no provenance yet.\<close>

lemma infer_produced_Some:
  assumes "infer_produced_endpoints f t s = Inr (Some (producer, produced, w))"
  obtains a b where "inquiries s producer = Some a" "inquiries s produced = Some b"
    "(producer, produced) = (f, t) \<or> (producer, produced) = (t, f)"
    "w \<in> {Narrows, Requires, Supersedes}"
    "iq_created a < iq_created b \<or> iq_created a = iq_created b \<and> producer \<le> produced"
    "(f, t, ProducedBy) \<notin> edge_key ` set (edges s)" "(t, f, ProducedBy) \<notin> edge_key ` set (edges s)"
proof -
  obtain a b where ab: "inquiries s f = Some a" "inquiries s t = Some b"
    and w: "inference_winner (pair_kinds f t (edges s)) = Some w" "w \<notin> set PRODUCED_INFERENCE_SUPPRESSED"
    and o: "older_first f (iq_created a) t (iq_created b) = (producer, produced)"
    using assms by (auto simp: infer_produced_endpoints_def Let_def split: if_splits option.splits prod.splits)
  note w' = inference_winner_Some [OF w, unfolded pair_kinds_mem]
  have np: "(f, t, ProducedBy) \<notin> edge_key ` set (edges s)" "(t, f, ProducedBy) \<notin> edge_key ` set (edges s)"
    and wk: "w \<in> {Narrows, Requires, Supersedes}"
    using w' by (elim conjE; simp)+
  show ?thesis
  proof (cases "ct_first f (iq_created a) t (iq_created b)")
    case True
    then have e: "producer = t" "produced = f" using o by (simp_all add: older_first_def)
    show ?thesis
    proof (rule that [of b a])
      show "inquiries s producer = Some b" "inquiries s produced = Some a" unfolding e by (rule ab)+
      show "(producer, produced) = (f, t) \<or> (producer, produced) = (t, f)" by (simp only: e simp_thms)
      show "iq_created b < iq_created a \<or> iq_created b = iq_created a \<and> producer \<le> produced"
        unfolding e using True by (auto simp: ct_first_def)
    qed (fact wk np)+
  next
    case False
    then have e: "producer = f" "produced = t" using o by (simp_all add: older_first_def)
    show ?thesis
    proof (rule that [of a b])
      show "inquiries s producer = Some a" "inquiries s produced = Some b" unfolding e by (rule ab)+
      show "(producer, produced) = (f, t) \<or> (producer, produced) = (t, f)" by (simp only: e simp_thms)
      show "iq_created a < iq_created b \<or> iq_created a = iq_created b \<and> producer \<le> produced"
        unfolding e using False by (auto simp: ct_first_def)
    qed (fact wk np)+
  qed
qed

end
