(* ===== verification/Edge_Store.thy ===== *)
theory Edge_Store
  imports Edge_Primitives Purge
begin

text \<open>
  \<open>store/edge.py\<close>: creation of an edge as an upsert, provenance inference, annotation,
  labels, removal and the submit path's citation insert, each an operation of one
  transaction. An annotation argument is absent, or given as a value or as \<open>None\<close>.
\<close>

datatype 'a arg = ABSENT | Given 'a

type_synonym annots = "int option \<times> string option \<times> pyfloat option \<times> string list option"

definition annots_of :: "edge \<Rightarrow> annots" where
  "annots_of e = (e_priority e, e_note e, e_valence e, e_labels e)"

text \<open>\<open>Snapshot(peer_id=..., edge_priority=..., ...)\<close>; no argument is the empty snapshot.\<close>

definition peer_of :: "uuid \<times> inquiry_kind \<Rightarrow> edge_kind \<Rightarrow> annots option \<Rightarrow> snapshot" where
  "peer_of peer k a =
     (case a of
        None \<Rightarrow> empty_snapshot
      | Some (p, n, v, l) \<Rightarrow>
          \<lparr>peer_id = Some (fst peer), peer_kind = Some (snd peer), peer_edge_kind = Some k,
           edge_priority = p, edge_note = n, edge_valence = v, edge_labels = l, edited = None\<rparr>)"

text \<open>The two audit rows of one edge event: on \<open>a\<close>, then on \<open>b\<close>, caused by the first.\<close>

definition emit_paired ::
  "Graph_State.change_kind \<Rightarrow> uuid \<times> inquiry_kind \<Rightarrow> uuid \<times> inquiry_kind \<Rightarrow> edge_kind
   \<Rightarrow> annots option \<Rightarrow> annots option \<Rightarrow> uuid option \<Rightarrow> bool \<Rightarrow> string \<Rightarrow> uuid option \<Rightarrow> string
   \<Rightarrow> store \<Rightarrow> (store \<times> uuid) res" where
  "emit_paired ck a b k o' n caused cascade why key who s =
     bind_res (emit_change ((emit_args (fst a) (snd a) ck)\<lparr>em_api_key_id := key, em_actor := who,
         em_caused_by := caused, em_reason := why, em_old := peer_of b k o', em_new := peer_of b k n\<rparr>)
         cascade s) (\<lambda>(t, cause, subs).
     bind_res (emit_change ((emit_args (fst b) (snd b) ck)\<lparr>em_api_key_id := key, em_actor := who,
         em_caused_by := Some cause, em_reason := why, em_old := peer_of a k o', em_new := peer_of a k n\<rparr>)
         False t) (\<lambda>(u, cid, subs). Inr (u, cause)))"

section \<open>Annotation\<close>

definition given_or :: "'a \<Rightarrow> 'a arg \<Rightarrow> 'a" where
  "given_or x a = (case a of ABSENT \<Rightarrow> x | Given y \<Rightarrow> y)"

text \<open>The new labels: one added or removed, replaced, cleared, or left as they are.\<close>

definition new_labels ::
  "string list option \<Rightarrow> string list option arg \<Rightarrow> (string \<times> bool) option \<Rightarrow> string list option res" where
  "new_labels old_labels ls delta =
     (case delta of
        Some (raw, include) \<Rightarrow>
          (case canonical_strs [raw] of
             [l] \<Rightarrow>
               let current = (case old_labels of None \<Rightarrow> [] | Some xs \<Rightarrow> xs);
                   changed = (if include then (if l \<in> set current then current else current @ [l])
                              else filter (\<lambda>x. x \<noteq> l) current)
               in Inr (empty_list_to_none (canonical_strs changed))
           | _ \<Rightarrow> Inl ValidationError)
      | None \<Rightarrow>
          (case ls of
             ABSENT \<Rightarrow> Inr old_labels
           | Given None \<Rightarrow> Inr None
           | Given (Some xs) \<Rightarrow> Inr (empty_list_to_none (canonical_strs xs))))"

definition set_edge_annotation_on_conn ::
  "uuid \<Rightarrow> uuid \<Rightarrow> edge_kind \<Rightarrow> int option arg \<Rightarrow> string option arg \<Rightarrow> pyfloat option arg
   \<Rightarrow> string list option arg \<Rightarrow> (string \<times> bool) option \<Rightarrow> string \<Rightarrow> bool \<Rightarrow> uuid option \<Rightarrow> string
   \<Rightarrow> store \<Rightarrow> (store \<times> uuid option) res" where
  "set_edge_annotation_on_conn f t k p n v ls delta why require_existing key who s =
     (if delta \<noteq> None \<and> ls \<noteq> ABSENT then Inl ValueError
      else case find_edge f t k s of
        None \<Rightarrow> if require_existing then Inl NotFoundError else Inr (s, None)
      | Some row \<Rightarrow>
          let p' = given_or (e_priority row) p in
          bind_res (validate_edge_priority k p') (\<lambda>u.
          let n' = (case n of ABSENT \<Rightarrow> e_note row | Given None \<Rightarrow> None
                    | Given (Some txt) \<Rightarrow> empty_str_to_none txt) in
          bind_res (case v of ABSENT \<Rightarrow> Inr (e_valence row) | Given w \<Rightarrow> validate_edge_valence k w) (\<lambda>v'.
          bind_res (new_labels (e_labels row) ls delta) (\<lambda>l'.
          if (p', n', v', l') = annots_of row then Inr (s, None)
          else
            bind_res (update_edge_row f t k p' n' v' l' s) (\<lambda>s1.
            bind_res (emit_paired EdgeAnnotationChanged (f, from_kind row) (t, to_kind row) k
                (Some (annots_of row)) (Some (p', n', v', l')) None True why key who s1)
              (\<lambda>(s2, cause). Inr (s2, Some cause)))))))"

definition set_edge_annotation where
  "set_edge_annotation f t k p n v ls delta why key who s =
     transaction (set_edge_annotation_on_conn f t k p n v ls delta why True key who) s"

definition mutate_edge_label where
  "mutate_edge_label f t k l include why key who s =
     set_edge_annotation f t k ABSENT ABSENT ABSENT ABSENT (Some (l, include)) why key who s"

definition add_edge_label where
  "add_edge_label f t k l why key who s = mutate_edge_label f t k l True why key who s"

definition remove_edge_label where
  "remove_edge_label f t k l why key who s = mutate_edge_label f t k l False why key who s"

section \<open>Creation and provenance inference\<close>

definition INFERRED_PROVENANCE_REASON :: string where
  "INFERRED_PROVENANCE_REASON = ''inferred provenance''"

definition inferred_reason :: "edge_kind \<Rightarrow> string" where
  "inferred_reason w =
     INFERRED_PROVENANCE_REASON @ '': first edge ('' @ edge_kind_name w @ '') between the pair''"

definition or_absent :: "'a option \<Rightarrow> 'a option arg" where
  "or_absent x = (case x of None \<Rightarrow> ABSENT | Some y \<Rightarrow> Given (Some y))"

function (sequential)
  add_edge_on_conn ::
    "uuid \<Rightarrow> uuid \<Rightarrow> edge_kind \<Rightarrow> int option \<Rightarrow> string \<Rightarrow> pyfloat option \<Rightarrow> string list \<Rightarrow> string
     \<Rightarrow> uuid option \<Rightarrow> bool \<Rightarrow> uuid option \<Rightarrow> string \<Rightarrow> store \<Rightarrow> (store \<times> uuid option \<times> bool) res"
and infer_produced_on_conn ::
    "uuid \<Rightarrow> uuid \<Rightarrow> edge_kind \<Rightarrow> uuid option \<Rightarrow> uuid option \<Rightarrow> string \<Rightarrow> store \<Rightarrow> store res" where
  "add_edge_on_conn f t k p n v ls why caused cascade key who s =
     bind_res (lookup_kind f s) (\<lambda>fk.
     bind_res (insert_edge f fk t k p n v (canonical_strs ls) s) (\<lambda>(s1, inserted, tk).
       if \<not> inserted then
         bind_res (set_edge_annotation_on_conn f t k (or_absent p)
             (if n = [] then ABSENT else Given (Some n)) (or_absent v)
             (if canonical_strs ls = [] then ABSENT else Given (Some (canonical_strs ls)))
             None why False key who s1)
           (\<lambda>(s2, cid). Inr (s2, cid, False))
       else
         bind_res (emit_paired EdgeAdded (f, fk) (t, tk) k None
             (Some (p, empty_str_to_none n, v, Some (canonical_strs ls))) caused cascade why key who s1)
           (\<lambda>(s2, cause).
         bind_res (infer_produced_on_conn f t k (Some cause) key who s2) (\<lambda>s3.
           Inr (s3, Some cause, True)))))"
| "infer_produced_on_conn f t k caused key who s =
     (if k = ProducedBy then Inr s
      else bind_res (infer_produced_endpoints f t s) (\<lambda>ends.
        case ends of
          None \<Rightarrow> Inr s
        | Some (producer, produced, w) \<Rightarrow>
            bind_res (add_edge_on_conn produced producer ProducedBy None [] None [] (inferred_reason w)
                caused False key who s)
              (\<lambda>(s1, cid, created). Inr s1)))"
  by pat_completeness auto

termination
  by (relation "measure (\<lambda>x. case x of
        Inl (f, t, k, rest) \<Rightarrow> if k = ProducedBy then 1 else (3::nat)
      | Inr (f, t, k, rest) \<Rightarrow> if k = ProducedBy then 0 else 2)") auto

declare add_edge_on_conn.simps [simp del] infer_produced_on_conn.simps [simp del]

definition add_edge where
  "add_edge f t k p n v ls why key who s =
     transaction (\<lambda>s. bind_res (add_edge_on_conn f t k p n v ls why None True key who s)
       (\<lambda>(s', cid, created). Inr (s', (cid, created)))) s"

text \<open>The submit path: the cited peer is the from side when \<open>cite_peer_as_from\<close> is set.\<close>

definition insert_edge_and_audit ::
  "uuid \<Rightarrow> inquiry_kind \<Rightarrow> uuid \<Rightarrow> edge_kind \<Rightarrow> uuid option \<Rightarrow> string \<Rightarrow> uuid \<Rightarrow> int option
   \<Rightarrow> pyfloat option \<Rightarrow> inquiry_kind option \<Rightarrow> bool \<Rightarrow> store \<Rightarrow> (store \<times> bool) res" where
  "insert_edge_and_audit subj sk peer k key who caused p v require_to_kind cite_peer_as_from s =
     bind_res (if cite_peer_as_from then bind_res (lookup_kind peer s) (\<lambda>pk. Inr (peer, pk, subj))
               else Inr (subj, sk, peer)) (\<lambda>(f, fk, t).
     bind_res (insert_edge f fk t k p [] v [] s) (\<lambda>(s1, inserted, stk).
     let tk = (if cite_peer_as_from then fk else stk) in
     if require_to_kind \<noteq> None \<and> require_to_kind \<noteq> Some tk then Inl ConflictError
     else if \<not> inserted then
       bind_res (set_edge_annotation_on_conn f t k (or_absent p) ABSENT (or_absent v) ABSENT None []
           False key who s1) (\<lambda>(s2, cid). Inr (s2, False))
     else
       bind_res (emit_paired EdgeAdded (subj, sk) (peer, tk) k None (Some (p, Some [], v, Some []))
           (Some caused) True [] key who s1) (\<lambda>(s2, cause).
       bind_res (infer_produced_on_conn f t k (Some cause) key who s2) (\<lambda>s3. Inr (s3, True)))))"

section \<open>Removal and reading\<close>

definition remove_edge_on_conn ::
  "uuid \<Rightarrow> uuid \<Rightarrow> edge_kind \<Rightarrow> string \<Rightarrow> uuid option \<Rightarrow> string \<Rightarrow> store \<Rightarrow> (store \<times> uuid option) res" where
  "remove_edge_on_conn f t k why key who s =
     (case find_edge f t k s of
        None \<Rightarrow> Inr (s, None)
      | Some row \<Rightarrow>
          let captured_edges = edges_touching f s; fk = from_kind row; tk = to_kind row;
              a = Some (annots_of row) in
          bind_res (emit_change ((emit_args f fk EdgeRemoved)\<lparr>em_api_key_id := key, em_actor := who,
              em_reason := why, em_old := peer_of (t, tk) k a\<rparr>) False (delete_edge_row f t k s))
            (\<lambda>(s1, cause, subs).
          bind_res (cascade_dependency_changed f fk cause (Some captured_edges) s1) (\<lambda>s2.
          bind_res (emit_change ((emit_args t tk EdgeRemoved)\<lparr>em_api_key_id := key, em_actor := who,
              em_caused_by := Some cause, em_reason := why, em_old := peer_of (f, fk) k a\<rparr>) False s2)
            (\<lambda>(s3, cid, subs). Inr (s3, Some cause)))))"

definition remove_edge where
  "remove_edge f t k why key who s = transaction (remove_edge_on_conn f t k why key who) s"

text \<open>The two read filters of the access policy are the argument \<open>readable\<close>.\<close>

definition get_edge :: "(uuid \<Rightarrow> bool) \<Rightarrow> uuid \<Rightarrow> uuid \<Rightarrow> edge_kind \<Rightarrow> store \<Rightarrow> edge option" where
  "get_edge readable f t k s =
     List.find (\<lambda>e. edge_key e = (f, t, k) \<and> readable (from_id e) \<and> readable (to_id e)) (edges s)"

end
