(* ===== verification/Graph_Invariants.thy ===== *)
theory Graph_Invariants
  imports Edge_Store
begin

text \<open>
  What every operation of the edge store keeps: the edges table well formed and acyclic
  per kind, the change log consistent and only ever longer, and the running costs equal
  to the log's sums. The operations are then the steps of one transition system, whose
  reachable states have all of it.
\<close>

section \<open>Advancing a store\<close>

definition advances :: "store \<Rightarrow> store \<Rightarrow> bool" where
  "advances s t \<longleftrightarrow> (store_ok s \<longrightarrow> store_ok t) \<and> rows_kept s t \<and> published t = published s
     \<and> iq_ids t = iq_ids s \<and> sequences t = sequences s
     \<and> prefix (change_log s) (change_log t) \<and> mirrored s t"

lemma advances_refl [simp]: "advances s s"
  by (simp add: advances_def rows_kept_def)

lemma advances_trans [trans]: "advances s t \<Longrightarrow> advances t u \<Longrightarrow> advances s u"
  by (auto simp: advances_def rows_kept_def intro: prefix_order.trans mirrored_trans)

lemma emitted_advances: "emitted s t \<Longrightarrow> advances s t"
  using emitted_store_ok [of s t] by (simp add: advances_def emitted_def wrote_def)

lemma advancesD:
  assumes "advances s t"
  shows "store_ok s \<Longrightarrow> store_ok t" "rows_kept s t" "change_ids s \<subseteq> change_ids t"
    "map_option iq_kind (inquiries t i) = map_option iq_kind (inquiries s i)"
    "map_option iq_created (inquiries t i) = map_option iq_created (inquiries s i)"
proof -
  show "store_ok s \<Longrightarrow> store_ok t" "rows_kept s t" "change_ids s \<subseteq> change_ids t"
    using assms by (auto simp: advances_def change_ids_def prefix_def)
  have "map_option iq_static (inquiries t i) = map_option iq_static (inquiries s i)"
    using assms by (simp add: advances_def rows_kept_def)
  then show "map_option iq_kind (inquiries t i) = map_option iq_kind (inquiries s i)"
    "map_option iq_created (inquiries t i) = map_option iq_created (inquiries s i)"
    by (cases "inquiries s i"; cases "inquiries t i"; simp add: iq_static_def)+
qed

lemma log_ok_edges [simp]: "log_ok (s\<lparr>edges := es\<rparr>) = log_ok s"
  by (simp add: log_ok_def change_ids_def)

lemma costs_ok_edges [simp]: "costs_ok (s\<lparr>edges := es\<rparr>) = costs_ok s"
  unfolding costs_ok_def by simp

lemma edge_ok_edges [simp]: "edge_ok (s\<lparr>edges := es\<rparr>) e = edge_ok s e"
  by (simp add: edge_ok_def)

lemma edge_rel_keys: "edge_rel es k = {(a, b). (a, b, k) \<in> edge_key ` set es}"
  by (auto simp: edge_rel_def edge_key_def image_iff)

lemma advances_edges:
  assumes "t = s\<lparr>edges := es\<rparr>" "edges_ok s \<Longrightarrow> edges_ok t"
  shows "advances s t"
  using assms
  by (simp add: advances_def rows_kept_def store_ok_def mirrored_def)

lemma emit_paired_emitted:
  assumes "emit_paired ck a b k o' n caused c why key who s = Inr (t, cause)"
  shows "emitted s t" "client_change_id t = None" "cause \<in> change_ids t"
proof -
  obtain u subs cid subs' where e: "emit_change ((emit_args (fst a) (snd a) ck)\<lparr>em_api_key_id := key, em_actor := who,
         em_caused_by := caused, em_reason := why, em_old := peer_of b k o', em_new := peer_of b k n\<rparr>)
         c s = Inr (u, cause, subs)"
    "emit_change ((emit_args (fst b) (snd b) ck)\<lparr>em_api_key_id := key, em_actor := who,
         em_caused_by := Some cause, em_reason := why, em_old := peer_of a k o', em_new := peer_of a k n\<rparr>)
         False u = Inr (t, cid, subs')"
    using assms by (auto simp: emit_paired_def res_simps)
  note u = emit_change_emitted [OF e(1)] and t = emit_change_emitted [OF e(2)]
  show "emitted s t" using u(1) t(1) by (rule emitted_trans)
  show "client_change_id t = None" by (rule t(2))
  show "cause \<in> change_ids t" using u(3) emitted_ids [OF t(1)] by auto
qed

section \<open>Annotation\<close>

lemma new_labels_ok:
  assumes "new_labels old_labels ls delta = Inr l"
    and "case old_labels of None \<Rightarrow> True | Some xs \<Rightarrow> xs \<noteq> [] \<and> canonical xs"
  shows "case l of None \<Rightarrow> True | Some xs \<Rightarrow> xs \<noteq> [] \<and> canonical xs"
  using assms
  by (auto simp: new_labels_def empty_list_to_none_def Let_def split: option.splits list.splits arg.splits if_splits)

lemma update_edge_row_ok:
  assumes u: "update_edge_row f t k p n v l s = Inr s'" and ok: "edges_ok s"
    and a: "\<And>e. e \<in> set (edges s) \<Longrightarrow> edge_key e = (f, t, k) \<Longrightarrow>
      edge_ok s (e\<lparr>e_priority := p, e_note := n, e_valence := v, e_labels := l\<rparr>)"
  shows "edges_ok s' \<and> map edge_key (edges s') = map edge_key (edges s) \<and> s' = s\<lparr>edges := edges s'\<rparr>"
proof -
  let ?g = "\<lambda>e. if edge_key e = (f, t, k) then e\<lparr>e_priority := p, e_note := n, e_valence := v, e_labels := l\<rparr> else e"
  have s': "s' = s\<lparr>edges := map ?g (edges s)\<rparr>"
    using u by (auto simp: update_edge_row_def split: if_splits)
  have k: "edge_key (?g e) = edge_key e" for e by (simp add: edge_key_def)
  then have keys: "map edge_key (edges s') = map edge_key (edges s)" by (simp add: s')
  have "edge_rel (edges s') j = edge_rel (edges s) j" for j
    unfolding edge_rel_keys set_map [symmetric] keys ..
  moreover have "\<forall>e \<in> set (edges s'). edge_ok s' e"
  proof
    fix e assume "e \<in> set (edges s')"
    then obtain x where x: "x \<in> set (edges s)" "e = ?g x" by (auto simp: s')
    then have "edge_ok s x" using ok by (simp add: edges_ok_def)
    then have "edge_ok s e" using a [OF x(1)] unfolding x(2) by (cases "edge_key x = (f, t, k)") auto
    then show "edge_ok s' e" by (simp add: s')
  qed
  ultimately show ?thesis using ok keys by (simp add: edges_ok_def) (simp add: s')
qed

lemma set_edge_annotation_cases:
  assumes "set_edge_annotation_on_conn f t k p n v ls delta why req key who s = Inr (s', cid)"
  obtains (unchanged) "s' = s" "cid = None"
  | (changed) row p' n' v' l' s1 cause where "find_edge f t k s = Some row" "cid = Some cause"
      "p' = given_or (e_priority row) p" "validate_edge_priority k p' = Inr ()"
      "n' = (case n of ABSENT \<Rightarrow> e_note row | Given None \<Rightarrow> None | Given (Some txt) \<Rightarrow> empty_str_to_none txt)"
      "(case v of ABSENT \<Rightarrow> Inr (e_valence row) | Given w \<Rightarrow> validate_edge_valence k w) = Inr v'"
      "new_labels (e_labels row) ls delta = Inr l'" "(p', n', v', l') \<noteq> annots_of row"
      "update_edge_row f t k p' n' v' l' s = Inr s1"
      "emit_paired EdgeAnnotationChanged (f, from_kind row) (t, to_kind row) k (Some (annots_of row))
         (Some (p', n', v', l')) None True why key who s1 = Inr (s', cause)"
proof (cases "find_edge f t k s")
  case None
  with assms show ?thesis
    by (intro unchanged) (auto simp: set_edge_annotation_on_conn_def split: if_splits)
next
  case (Some row)
  let ?p = "given_or (e_priority row) p"
  let ?n = "case n of ABSENT \<Rightarrow> e_note row | Given None \<Rightarrow> None | Given (Some txt) \<Rightarrow> empty_str_to_none txt"
  have d: "\<not> (delta \<noteq> None \<and> ls \<noteq> ABSENT)"
    using assms by (auto simp: set_edge_annotation_on_conn_def split: if_splits)
  obtain v' l' where g: "validate_edge_priority k ?p = Inr ()"
    "(case v of ABSENT \<Rightarrow> Inr (e_valence row) | Given w \<Rightarrow> validate_edge_valence k w) = Inr v'"
    "new_labels (e_labels row) ls delta = Inr l'"
    using assms unfolding set_edge_annotation_on_conn_def Some if_not_P [OF d] option.case Let_def
      bind_res_Inr_iff by (elim exE conjE) (rule that, simp_all)
  show ?thesis
  proof (cases "(?p, ?n, v', l') = annots_of row")
    case True
    then have "s' = s \<and> cid = None"
      using assms unfolding set_edge_annotation_on_conn_def Some if_not_P [OF d] option.case Let_def g
        bind_res_simps by simp
    then show ?thesis by (intro unchanged) auto
  next
    case False
    then have "\<exists>s1 cause. update_edge_row f t k ?p ?n v' l' s = Inr s1 \<and> cid = Some cause \<and>
      emit_paired EdgeAnnotationChanged (f, from_kind row) (t, to_kind row) k (Some (annots_of row))
         (Some (?p, ?n, v', l')) None True why key who s1 = Inr (s', cause)"
      using assms unfolding set_edge_annotation_on_conn_def Some if_not_P [OF d] option.case Let_def g
        bind_res_simps if_not_P [OF False] by (auto simp: res_simps)
    with Some g False show ?thesis by (elim exE conjE) (rule changed [OF Some _ refl _ refl], assumption+)
  qed
qed

lemma set_edge_annotation_advances:
  assumes a: "set_edge_annotation_on_conn f t k p n v ls delta why req key who s = Inr (s', cid)"
    and ok: "store_ok s"
  shows "advances s s'" "map edge_key (edges s') = map edge_key (edges s)"
    "client_change_id s = None \<or> cid \<noteq> None \<Longrightarrow> client_change_id s' = None"
proof -
  have "advances s s' \<and> map edge_key (edges s') = map edge_key (edges s)
    \<and> (client_change_id s = None \<or> cid \<noteq> None \<longrightarrow> client_change_id s' = None)"
    using a
  proof (cases rule: set_edge_annotation_cases)
    case unchanged
    then show ?thesis by simp
  next
    case (changed row p' n' v' l' s1 cause)
    have eok: "edges_ok s" using ok by (rule store_okD)
    have row: "row \<in> set (edges s)" "edge_key row = (f, t, k)" using changed(1) by (auto dest: find_edge_Some)
    then have rok: "edge_ok s row" "edge_kind row = k" using eok by (auto simp: edges_ok_def edge_key_def)
    have chk: "annotation_check (Some k) p' v'"
      using changed(9) row by (auto simp: update_edge_row_def split: if_splits)
    have v': "carries AValence k \<longleftrightarrow> v' \<noteq> None"
      using changed(6) rok validate_edge_valence_Inr by (auto simp: edge_ok_def split: arg.splits)
    have n': "case n' of None \<Rightarrow> True | Some x \<Rightarrow> strip x \<noteq> []"
      using rok by (auto simp: changed(5) edge_ok_def empty_str_to_none_def split: arg.splits option.splits)
    have l': "case l' of None \<Rightarrow> True | Some xs \<Rightarrow> xs \<noteq> [] \<and> canonical xs"
      using new_labels_ok [OF changed(7)] rok by (auto simp: edge_ok_def)
    have "edge_ok s (e\<lparr>e_priority := p', e_note := n', e_valence := v', e_labels := l'\<rparr>)"
      if "e \<in> set (edges s)" "edge_key e = (f, t, k)" for e
    proof -
      have "edge_ok s e" "edge_kind e = k" using that eok by (auto simp: edges_ok_def edge_key_def)
      then show ?thesis using chk v' n' l' by (simp add: edge_ok_def edge_row_check_def)
    qed
    from update_edge_row_ok [OF changed(9) eok this]
    have s1: "edges_ok s1" "map edge_key (edges s1) = map edge_key (edges s)" "s1 = s\<lparr>edges := edges s1\<rparr>"
      by auto
    have "advances s s1" using s1(1) by (intro advances_edges [OF s1(3)])
    moreover note em = emit_paired_emitted [OF changed(10)]
    ultimately show ?thesis
      using s1(2) emitted_edges [OF em(1)] advances_trans [OF _ emitted_advances [OF em(1)]] em(2) by simp
  qed
  then show "advances s s'" "map edge_key (edges s') = map edge_key (edges s)"
    "client_change_id s = None \<or> cid \<noteq> None \<Longrightarrow> client_change_id s' = None" by auto
qed

section \<open>Creation\<close>

lemma insert_edge_not_inserted: "insert_edge f fk t k p n v ls s = Inr (s1, False, tk) \<Longrightarrow> s1 = s"
  by (auto elim!: insert_edge_Inr simp: res_simps)

lemma add_edge_cases:
  assumes "add_edge_on_conn f t k p n v ls why caused c key who s = Inr (s', cid, created)"
  obtains (upsert) fk tk where "\<not> created" "insert_edge f fk t k p n v (canonical_strs ls) s = Inr (s, False, tk)"
      "map_option iq_kind (inquiries s f) = Some fk"
      "set_edge_annotation_on_conn f t k (or_absent p) (if n = [] then ABSENT else Given (Some n)) (or_absent v)
         (if canonical_strs ls = [] then ABSENT else Given (Some (canonical_strs ls))) None why False key who s
         = Inr (s', cid)"
  | (created) fk tk s1 s2 cause where "created" "cid = Some cause" "map_option iq_kind (inquiries s f) = Some fk"
      "insert_edge f fk t k p n v (canonical_strs ls) s = Inr (s1, True, tk)"
      "emit_paired EdgeAdded (f, fk) (t, tk) k None (Some (p, empty_str_to_none n, v, Some (canonical_strs ls)))
         caused c why key who s1 = Inr (s2, cause)"
      "infer_produced_on_conn f t k (Some cause) key who s2 = Inr s'"
proof -
  obtain fk s1 ins tk where fk: "map_option iq_kind (inquiries s f) = Some fk"
    and i: "insert_edge f fk t k p n v (canonical_strs ls) s = Inr (s1, ins, tk)"
    using assms by (auto simp: add_edge_on_conn.simps res_simps)
  have lk: "lookup_kind f s = Inr fk" using fk by (simp add: res_simps)
  show ?thesis
  proof (cases ins)
    case True
    with i have i': "insert_edge f fk t k p n v (canonical_strs ls) s = Inr (s1, True, tk)" by simp
    obtain s2 cause where "emit_paired EdgeAdded (f, fk) (t, tk) k None
        (Some (p, empty_str_to_none n, v, Some (canonical_strs ls))) caused c why key who s1 = Inr (s2, cause)"
      "infer_produced_on_conn f t k (Some cause) key who s2 = Inr s'" "cid = Some cause" "created"
      using assms by (auto simp: add_edge_on_conn.simps lk i' res_simps)
    then show ?thesis using that(2) [OF _ _ fk i'] by blast
  next
    case False
    with i have i': "insert_edge f fk t k p n v (canonical_strs ls) s = Inr (s1, False, tk)" by simp
    have s1: "s1 = s" by (rule insert_edge_not_inserted [OF i'])
    with assms have "set_edge_annotation_on_conn f t k (or_absent p) (if n = [] then ABSENT else Given (Some n))
        (or_absent v) (if canonical_strs ls = [] then ABSENT else Given (Some (canonical_strs ls))) None why False
        key who s = Inr (s', cid)" "\<not> created"
      by (auto simp: add_edge_on_conn.simps lk i' res_simps)
    then show ?thesis using that(1) [OF _ i' [unfolded s1] fk] by blast
  qed
qed

lemma infer_produced_cases:
  assumes "infer_produced_on_conn f t k caused key who s = Inr s'"
  obtains (none) "s' = s" "k = ProducedBy \<or> infer_produced_endpoints f t s = Inr None"
  | (stamped) producer produced w cid created where "k \<noteq> ProducedBy"
      "infer_produced_endpoints f t s = Inr (Some (producer, produced, w))"
      "add_edge_on_conn produced producer ProducedBy None [] None [] (inferred_reason w) caused False key who s
        = Inr (s', cid, created)"
proof (cases "k = ProducedBy")
  case True
  with assms show ?thesis by (intro none) (simp_all add: infer_produced_on_conn.simps)
next
  case False
  then obtain ends where e: "infer_produced_endpoints f t s = Inr ends"
    using assms by (auto simp: infer_produced_on_conn.simps res_simps)
  show ?thesis
  proof (cases ends)
    case None
    with assms False e show ?thesis by (intro none) (simp_all add: infer_produced_on_conn.simps)
  next
    case (Some x)
    obtain producer produced w where x: "x = (producer, produced, w)" by (cases x) auto
    with assms False e Some show ?thesis
      by (auto simp: infer_produced_on_conn.simps res_simps intro: stamped)
  qed
qed

lemma insert_edge_advances:
  assumes "insert_edge f fk t k p n v ls s = Inr (s1, ins, tk)" "map_option iq_kind (inquiries s f) = Some fk"
  shows "advances s s1" "client_change_id s1 = client_change_id s"
proof -
  obtain e where "insert_edge_row e s = Inr (s1, ins)" using assms(1) by (auto elim!: insert_edge_Inr)
  then have e: "s1 = s\<lparr>edges := edges s1\<rparr>" by (cases ins) (auto simp: res_simps)
  show "advances s s1"
    by (rule advances_edges [OF e]) (rule insert_edge_edges_ok [OF assms(1) _ assms(2)])
  show "client_change_id s1 = client_change_id s" by (subst e) simp
qed

lemma add_edge_infer_advances:
  shows "add_edge_on_conn f t k p n v ls why caused c key who s = Inr (s', cid, created) \<Longrightarrow> store_ok s \<Longrightarrow> advances s s'"
    and "infer_produced_on_conn f t k caused key who s = Inr s' \<Longrightarrow> store_ok s \<Longrightarrow> advances s s'"
proof -
  have base: "advances s s'"
    if a: "add_edge_on_conn f t k p n v ls why caused c key who s = Inr (s', cid, created)" and ok: "store_ok s"
      and infer: "\<And>caused u. infer_produced_on_conn f t k caused key who u = Inr s' \<Longrightarrow> store_ok u \<Longrightarrow> advances u s'"
    for f t k p n v ls why caused c key who s s' cid created
    using a
  proof (cases rule: add_edge_cases)
    case (upsert fk tk)
    then show ?thesis using ok by (blast intro: set_edge_annotation_advances)
  next
    case (created fk tk s1 s2 cause)
    have "advances s s1" by (rule insert_edge_advances [OF created(4,3)])
    also have "advances s1 s2" by (rule emitted_advances [OF emit_paired_emitted(1) [OF created(5)]])
    finally have s2: "advances s s2" .
    moreover have "advances s2 s'" using infer [OF created(6)] advancesD(1) [OF s2 ok] by simp
    ultimately show ?thesis by (rule advances_trans)
  qed
  have infer: "advances s s'" if i: "infer_produced_on_conn f t k caused key who s = Inr s'" and ok: "store_ok s"
    for f t k caused key who s s'
    using i
  proof (cases rule: infer_produced_cases)
    case none
    then show ?thesis by simp
  next
    case (stamped producer produced w cid created)
    show ?thesis by (rule base [OF stamped(3) ok]) (auto simp: infer_produced_on_conn.simps)
  qed
  show "add_edge_on_conn f t k p n v ls why caused c key who s = Inr (s', cid, created) \<Longrightarrow> store_ok s \<Longrightarrow> advances s s'"
    by (rule base) (auto intro: infer)
  show "infer_produced_on_conn f t k caused key who s = Inr s' \<Longrightarrow> store_ok s \<Longrightarrow> advances s s'" by (rule infer)
qed

section \<open>Removal and deletion\<close>

lemma delete_edge_row_advances: "advances s (delete_edge_row f t k s)"
proof (rule advances_edges)
  show "delete_edge_row f t k s = s\<lparr>edges := edges (delete_edge_row f t k s)\<rparr>"
    by (simp add: delete_edge_row_def)
  show "edges_ok s \<Longrightarrow> edges_ok (delete_edge_row f t k s)"
    by (rule edges_ok_subset [of s])
      (auto simp: delete_edge_row_def edges_ok_def distinct_map inj_on_def)
qed

lemma remove_edge_cases:
  assumes "remove_edge_on_conn f t k why key who s = Inr (s', cid)"
  obtains (missing) "find_edge f t k s = None" "s' = s" "cid = None"
  | (removed) row s1 cause s2 where "find_edge f t k s = Some row" "cid = Some cause"
      "emitted (delete_edge_row f t k s) s1" "client_change_id s1 = None" "cause \<in> change_ids s1"
      "cascade_dependency_changed f (from_kind row) cause (Some (edges_touching f s)) s1 = Inr s2"
      "emitted s2 s'" "client_change_id s' = None"
proof (cases "find_edge f t k s")
  case None
  with assms show ?thesis by (intro missing) (simp_all add: remove_edge_on_conn_def)
next
  case (Some row)
  obtain s1 cause subs s2 cid' subs' where e:
    "emit_change ((emit_args f (from_kind row) EdgeRemoved)\<lparr>em_api_key_id := key, em_actor := who,
       em_reason := why, em_old := peer_of (t, to_kind row) k (Some (annots_of row))\<rparr>) False (delete_edge_row f t k s)
       = Inr (s1, cause, subs)"
    "cascade_dependency_changed f (from_kind row) cause (Some (edges_touching f s)) s1 = Inr s2"
    "emit_change ((emit_args t (to_kind row) EdgeRemoved)\<lparr>em_api_key_id := key, em_actor := who,
       em_caused_by := Some cause, em_reason := why, em_old := peer_of (f, from_kind row) k (Some (annots_of row))\<rparr>)
       False s2 = Inr (s', cid', subs')" "cid = Some cause"
    using assms Some by (auto simp: remove_edge_on_conn_def Let_def res_simps)
  show ?thesis
    by (rule removed [OF Some e(4) emit_change_emitted [OF e(1)] e(2) emit_change_emitted(1,2) [OF e(3)]])
qed

lemma cascade_emitted: "cascade_dependency_changed i ik cause rows s = Inr t \<Longrightarrow> emitted s t"
  unfolding cascade_dependency_changed_def by (rule cascade_loop_emitted)

lemma remove_edge_advances:
  assumes "remove_edge_on_conn f t k why key who s = Inr (s', cid)"
  shows "advances s s'" "edges s' = filter (\<lambda>e. edge_key e \<noteq> (f, t, k)) (edges s)"
proof -
  have "advances s s' \<and> edges s' = filter (\<lambda>e. edge_key e \<noteq> (f, t, k)) (edges s)"
    using assms
  proof (cases rule: remove_edge_cases)
    case missing
    then have "filter (\<lambda>e. edge_key e \<noteq> (f, t, k)) (edges s) = edges s"
      by (intro filter_True) (auto simp: find_edge_None image_iff)
    with missing show ?thesis by simp
  next
    case (removed row s1 cause s2)
    note em = emitted_trans [OF emitted_trans [OF removed(3) cascade_emitted [OF removed(6)]] removed(7)]
    then show ?thesis
      using advances_trans [OF delete_edge_row_advances emitted_advances [OF em]] emitted_edges [OF em]
      by (simp add: delete_edge_row_def)
  qed
  then show "advances s s'" "edges s' = filter (\<lambda>e. edge_key e \<noteq> (f, t, k)) (edges s)" by auto
qed

lemma purge_store_ok:
  assumes "purge_on_conn target key who why s = Inr (s', cid)" "store_ok s"
  shows "store_ok s' \<and> prefix (change_log s) (change_log s') \<and> mirrored s s' \<and> published s' = published s
    \<and> edges s' = filter (\<lambda>e. \<not> touches target e) (edges s) \<and> inquiries s' target = None
    \<and> (\<forall>i. i \<noteq> target \<longrightarrow> map_option iq_static (inquiries s' i) = map_option iq_static (inquiries s i))"
proof -
  obtain r :: inquiry where "purge_held target (iq_kind r) key who why s = Inr (s', cid)"
    using assms(1) by (cases "inquiries s target") (auto simp: purge_on_conn_def split: if_splits)
  then obtain u where u: "emitted s u" "s' = delete_inquiry_row target u"
    using purge_held_ok by blast
  have "store_ok u" using emitted_store_ok [OF u(1) assms(2)] .
  then have "store_ok s'"
    unfolding u(2) store_ok_def by (simp add: edges_ok_delete costs_ok_delete)
  with u show ?thesis by (auto simp: delete_inquiry_row_def emitted_def wrote_def rows_kept_def mirrored_def)
qed

end
