(* ===== verification/Cost_Edits.thy ===== *)
theory Cost_Edits
  imports Graph_Invariants
begin

text \<open>
  \<open>store/edit.py\<close>, the cost edits: a signed charge and the overwrite of one axis, each
  preceded by the replay probe every field edit makes for a keyed retry; and the row
  insert of \<open>server/primitives.py\<close> over the columns the graph store keeps.
\<close>

section \<open>The replay probe\<close>

text \<open>A key that names a committed change is consumed: it is the same edit and replays, or it
  is another one and conflicts.\<close>

definition replay_field_change ::
  "uuid \<Rightarrow> Graph_State.change_kind \<Rightarrow> string \<Rightarrow> store \<Rightarrow> (store \<times> uuid option) res" where
  "replay_field_change i k who s =
     (case peek_client_change_id s of
        None \<Rightarrow> Inr (s, None)
      | Some key \<Rightarrow>
          (case find_change key s of
             None \<Rightarrow> Inr (s, None)
           | Some c \<Rightarrow>
               let (key', t) = consume_client_change_id s in
               if key' \<noteq> Some key then Inr (t, None)
               else if actor c = who \<and> subject_id c = i \<and> change_kind c = k then Inr (t, Some key)
               else Inl ConflictError))"

section \<open>Charging\<close>

definition COST_KIND :: Graph_State.change_kind where
  "COST_KIND = MarginalCost"

definition emit_cost :: "uuid \<Rightarrow> inquiry_kind \<Rightarrow> cost \<Rightarrow> uuid option \<Rightarrow> string \<Rightarrow> string \<Rightarrow> store
   \<Rightarrow> (store \<times> uuid option) res" where
  "emit_cost i ik delta key who why s =
     bind_res (emit_change ((emit_args i ik COST_KIND)\<lparr>em_api_key_id := key, em_actor := who,
         em_cost_delta := delta, em_reason := why\<rparr>) True s)
       (\<lambda>(t, cid, subs). Inr (t, Some cid))"

definition add_cost_on_conn ::
  "uuid \<Rightarrow> cost \<Rightarrow> uuid option \<Rightarrow> string \<Rightarrow> string \<Rightarrow> store \<Rightarrow> (store \<times> uuid option) res" where
  "add_cost_on_conn i delta key who why s =
     bind_res (replay_field_change i COST_KIND who s) (\<lambda>(s1, replay).
       if replay \<noteq> None then Inr (s1, replay)
       else case inquiries s1 i of
         None \<Rightarrow> Inl NotFoundError
       | Some r \<Rightarrow>
           bind_res (replay_field_change i COST_KIND who s1) (\<lambda>(s2, replay).
             if replay \<noteq> None then Inr (s2, replay)
             else if \<not> cost_bool delta then Inr (s2, None)
             else emit_cost i (iq_kind r) delta key who why s2))"

definition add_cost where
  "add_cost i delta key who why s = transaction (add_cost_on_conn i delta key who why) s"

datatype cost_axis = AgentUsd | ResourceUsd

fun axis_of :: "cost_axis \<Rightarrow> cost \<Rightarrow> rat" where
  "axis_of AgentUsd c = agent_usd c"
| "axis_of ResourceUsd c = resource_usd c"

fun float_minus :: "pyfloat \<Rightarrow> rat \<Rightarrow> pyfloat" where
  "float_minus (Fin x) y = Fin (x - y)"
| "float_minus x y = x"

fun axis_cost :: "cost_axis \<Rightarrow> pyfloat \<Rightarrow> cost res" where
  "axis_cost AgentUsd x = make_cost x (Fin 0)"
| "axis_cost ResourceUsd x = make_cost (Fin 0) x"

definition set_cost_axis_on_conn ::
  "uuid \<Rightarrow> cost_axis \<Rightarrow> pyfloat \<Rightarrow> uuid option \<Rightarrow> string \<Rightarrow> string \<Rightarrow> store \<Rightarrow> (store \<times> uuid option) res" where
  "set_cost_axis_on_conn i ax v key who why s =
     bind_res (replay_field_change i COST_KIND who s) (\<lambda>(s1, replay).
       if replay \<noteq> None then Inr (s1, replay)
       else case inquiries s1 i of
         None \<Rightarrow> Inl NotFoundError
       | Some r \<Rightarrow>
           bind_res (replay_field_change i COST_KIND who s1) (\<lambda>(s2, replay).
             if replay \<noteq> None then Inr (s2, replay)
             else if float_lt v (Fin 0) then Inl ConflictError
             else
               bind_res (axis_cost ax (float_minus v (axis_of ax (iq_cost r)))) (\<lambda>delta.
                 if \<not> cost_bool delta then Inr (s2, None)
                 else emit_cost i (iq_kind r) delta key who why s2)))"

definition set_cost_axis where
  "set_cost_axis i ax v key who why s = transaction (set_cost_axis_on_conn i ax v key who why) s"

section \<open>Inserting a row\<close>

text \<open>
  \<open>insert_inquiry\<close>: every column but the identity ones comes from \<open>vals\<close>, normalized; the
  sequence of the kind gives \<open>seq\<close>, and a status not given is \<open>active\<close>. A new row has no
  cost and is not locked. A number drawn from a sequence is not given back by a rollback;
  the gap this leaves is not modelled.
\<close>

definition normalize_for_insert :: "column \<Rightarrow> cval option \<Rightarrow> cval option" where
  "normalize_for_insert c v =
     (case v of None \<Rightarrow> None
      | Some x \<Rightarrow> if collapsible c then empty_optional_to_none (Some (normalize_col c x))
                   else Some (normalize_col c x))"

definition insert_inquiry ::
  "uuid \<Rightarrow> inquiry_kind \<Rightarrow> string option \<Rightarrow> nat option \<Rightarrow> (column \<Rightarrow> cval option) \<Rightarrow> store \<Rightarrow> store res" where
  "insert_inquiry i k status created vals s =
     (if \<exists>c \<in> set columns. c \<noteq> Status \<and> required (COLUMN_SPECS c) \<and> column_applies k c \<and> vals c = None
      then Inl ValueError
      else
        let n = Suc (sequences s k);
            status = (case status of None \<Rightarrow> ''active'' | Some x \<Rightarrow> x)
        in insert_inquiry_row i
             \<lparr>iq_kind = k, iq_seq = n, iq_created = (case created of None \<Rightarrow> clock s | Some d \<Rightarrow> d),
              iq_modified = clock s, iq_locked = False, iq_cost = 0,
              iq_columns = (\<lambda>c. if c = Status then Some (VStr status) else normalize_for_insert c (vals c))\<rparr>
             (s\<lparr>sequences := (sequences s)(k := n)\<rparr>))"

text \<open>A submitted row and its \<open>created\<close> change, which carries the first cost.\<close>

definition submit_row ::
  "uuid \<Rightarrow> inquiry_kind \<Rightarrow> string option \<Rightarrow> nat option \<Rightarrow> (column \<Rightarrow> cval option) \<Rightarrow> cost \<Rightarrow> uuid option \<Rightarrow> string
   \<Rightarrow> store \<Rightarrow> (store \<times> uuid) res" where
  "submit_row i k status created vals c key who s =
     bind_res (insert_inquiry i k status created vals s) (\<lambda>s1.
     bind_res (emit_change ((emit_args i k Created)\<lparr>em_api_key_id := key, em_actor := who,
         em_marginal_cost := c\<rparr>) True s1) (\<lambda>(t, cid, subs). Inr (t, cid)))"

section \<open>Lemmas\<close>

lemma peers_check_plain [simp]:
  "(\<not> carries_peer k) \<Longrightarrow> peers_check k empty_snapshot empty_snapshot"
  by (simp add: peers_check_def annotation_check_def empty_snapshot_def)

lemma replay_cases:
  assumes "replay_field_change i k who s = Inr (t, r)"
  obtains (fresh) "t = s" "r = None" "client_change_id s = None \<or> (\<exists>key. client_change_id s = Some key \<and> key \<notin> change_ids s)"
  | (replay) key c where "r = Some key" "t = s\<lparr>client_change_id := None\<rparr>" "client_change_id s = Some key"
      "find_change key s = Some c" "actor c = who" "subject_id c = i" "change_kind c = k"
proof (cases "client_change_id s")
  case None
  with assms show ?thesis by (intro fresh) (simp_all add: replay_field_change_def peek_client_change_id_def)
next
  case (Some key)
  show ?thesis
  proof (cases "find_change key s")
    case None
    with assms Some show ?thesis
      by (intro fresh) (simp_all add: replay_field_change_def peek_client_change_id_def find_change_None)
  next
    case c: (Some c)
    with assms Some show ?thesis
      by (intro replay [of key c])
        (auto simp: replay_field_change_def peek_client_change_id_def consume_client_change_id_def split: if_splits)
  qed
qed

lemma replay_advances: "replay_field_change i k who s = Inr (t, r) \<Longrightarrow> advances s t"
  by (erule replay_cases)
    (auto simp: advances_def rows_kept_def store_ok_def log_ok_def mirrored_def)

lemma emit_cost_advances: "emit_cost i ik d key who why s = Inr (t, cid) \<Longrightarrow> advances s t"
  by (auto simp: emit_cost_def res_simps dest!: emit_change_emitted(1) intro: emitted_advances)

lemma add_cost_cases:
  assumes "add_cost_on_conn i d key who why s = Inr (t, cid)"
  obtains (replay) k where "replay_field_change i COST_KIND who s = Inr (t, Some k)" "cid = Some k"
  | (zero) r where "t = s" "cid = None" "inquiries s i = Some r" "d = 0"
  | (charged) r where "inquiries s i = Some r" "d \<noteq> 0" "emit_cost i (iq_kind r) d key who why s = Inr (t, cid)"
proof -
  obtain s1 r1 where r: "replay_field_change i COST_KIND who s = Inr (s1, r1)"
    using assms by (auto simp: add_cost_on_conn_def res_simps)
  from r show ?thesis
  proof (cases rule: replay_cases)
    case (replay k c)
    with assms r show ?thesis by (intro that(1) [of k]) (simp_all add: add_cost_on_conn_def)
  next
    case fresh
    note r = r [unfolded fresh]
    obtain q where q: "inquiries s i = Some q"
      using assms by (auto simp: add_cost_on_conn_def r split: option.splits)
    show ?thesis
    proof (cases "d = 0")
      case True
      with assms q show ?thesis by (intro that(2) [OF _ _ q]) (simp_all add: add_cost_on_conn_def r cost_bool_iff)
    next
      case False
      with assms q show ?thesis by (intro that(3) [OF q]) (simp_all add: add_cost_on_conn_def r cost_bool_iff)
    qed
  qed
qed

lemma add_cost_advances: "add_cost_on_conn i d key who why s = Inr (t, cid) \<Longrightarrow> advances s t"
  by (erule add_cost_cases) (auto intro: replay_advances emit_cost_advances)

lemma set_cost_cases:
  assumes "set_cost_axis_on_conn i ax v key who why s = Inr (t, cid)"
  obtains (replay) k where "replay_field_change i COST_KIND who s = Inr (t, Some k)" "cid = Some k"
  | (same) r where "t = s" "cid = None" "inquiries s i = Some r" "v = Fin (axis_of ax (iq_cost r))" "\<not> float_lt v (Fin 0)"
  | (changed) r d where "inquiries s i = Some r" "\<not> float_lt v (Fin 0)" "d \<noteq> 0"
      "axis_cost ax (float_minus v (axis_of ax (iq_cost r))) = Inr d"
      "emit_cost i (iq_kind r) d key who why s = Inr (t, cid)"
proof -
  obtain s1 r1 where r: "replay_field_change i COST_KIND who s = Inr (s1, r1)"
    using assms by (auto simp: set_cost_axis_on_conn_def res_simps)
  from r show ?thesis
  proof (cases rule: replay_cases)
    case (replay k c)
    with assms r show ?thesis by (intro that(1) [of k]) (simp_all add: set_cost_axis_on_conn_def)
  next
    case fresh
    note r = r [unfolded fresh]
    obtain q where q: "inquiries s i = Some q"
      using assms by (auto simp: set_cost_axis_on_conn_def r split: option.splits)
    obtain d where d: "\<not> float_lt v (Fin 0)" "axis_cost ax (float_minus v (axis_of ax (iq_cost q))) = Inr d"
      "if \<not> cost_bool d then t = s \<and> cid = None else emit_cost i (iq_kind q) d key who why s = Inr (t, cid)"
      using assms q by (auto simp: set_cost_axis_on_conn_def r res_simps split: if_splits)
    show ?thesis
    proof (cases "d = 0")
      case True
      have "v = Fin (axis_of ax (iq_cost q))"
        using d(2) True by (cases ax; cases v) (auto simp: make_cost_def zero_cost_def)
      with d True q show ?thesis by (intro that(2)) (simp_all add: cost_bool_iff)
    next
      case False
      with d q show ?thesis by (intro that(3)) (simp_all add: cost_bool_iff)
    qed
  qed
qed

lemma set_cost_advances: "set_cost_axis_on_conn i ax v key who why s = Inr (t, cid) \<Longrightarrow> advances s t"
  by (erule set_cost_cases) (auto intro: replay_advances emit_cost_advances)

end
