(* ===== verification/Graph_Machine.thy ===== *)
theory Graph_Machine
  imports Cost_Edits
begin

text \<open>
  The graph store as one transition system: every public operation is a transaction, a
  step; from empty tables, every reachable store has the invariant of all three tables
  and its change log only grows. The properties of the single operations follow.
\<close>

section \<open>Steps\<close>

definition empty_store :: "store \<Rightarrow> bool" where
  "empty_store s \<longleftrightarrow> (\<forall>i. inquiries s i = None) \<and> edges s = [] \<and> change_log s = []"

definition never_used :: "uuid \<Rightarrow> store \<Rightarrow> bool" where
  "never_used i s \<longleftrightarrow> inquiries s i = None \<and> i \<notin> subject_id ` set (change_log s)"

text \<open>A key is set at the start of a request; a submitted row has a new random id.\<close>

inductive graph_step :: "store \<Rightarrow> store \<Rightarrow> bool" where
  keyed: "graph_step s (set_client_change_id key s)"
| submitted: "never_used i s \<Longrightarrow>
    graph_step s (fst (transaction (submit_row i k status created vals c key who) s))"
| added: "graph_step s (fst (add_edge f t k p n v ls why key who s))"
| annotated: "graph_step s (fst (set_edge_annotation f t k ap an av al delta why key who s))"
| removed: "graph_step s (fst (remove_edge f t k why key who s))"
| purged: "graph_step s (fst (purge i key who why s))"
| charged: "graph_step s (fst (add_cost i c key who why s))"
| cost_set: "graph_step s (fst (set_cost_axis i ax x key who why s))"

lemma store_ok_state [simp]:
  "store_ok (s\<lparr>buffer := b\<rparr>) = store_ok s"
  "store_ok (s\<lparr>published := b\<rparr>) = store_ok s"
  "store_ok (s\<lparr>client_change_id := k\<rparr>) = store_ok s"
  by (simp_all add: store_ok_def log_ok_def change_ids_def) (simp_all add: costs_ok_def)

lemma advances_buffer: "advances (s\<lparr>buffer := b\<rparr>) t \<Longrightarrow> store_ok s \<Longrightarrow> store_ok t \<and> prefix (change_log s) (change_log t)"
  by (simp add: advances_def)

text \<open>A transaction whose body keeps the invariant and the log keeps both.\<close>

lemma transaction_ok:
  assumes "\<And>t x. f (s\<lparr>buffer := []\<rparr>) = Inr (t, x) \<Longrightarrow> store_ok t \<and> prefix (change_log s) (change_log t)"
    and "store_ok s"
  shows "store_ok (fst (transaction f s)) \<and> prefix (change_log s) (change_log (fst (transaction f s)))"
  by (cases f s rule: transaction_cases) (use assms in auto)

lemma transaction_advances:
  assumes "\<And>t x. f (s\<lparr>buffer := []\<rparr>) = Inr (t, x) \<Longrightarrow> advances (s\<lparr>buffer := []\<rparr>) t" and "store_ok s"
  shows "store_ok (fst (transaction f s)) \<and> prefix (change_log s) (change_log (fst (transaction f s)))"
  by (rule transaction_ok) (use assms advances_buffer in blast)+

lemma insert_inquiry_ok:
  assumes i: "insert_inquiry i k status created vals s = Inr t" and ok: "store_ok s" and fresh: "never_used i s"
  shows "store_ok t" "change_log t = change_log s" "buffer t = buffer s" "client_change_id t = client_change_id s"
proof -
  have t: "edges t = edges s" "change_log t = change_log s" "clock t = Suc (clock s)" "buffer t = buffer s"
    "client_change_id t = client_change_id s"
    "\<exists>r. inquiries t = (inquiries s)(i \<mapsto> r) \<and> iq_cost r = 0"
    using i by (auto simp: insert_inquiry_def Let_def res_simps split: if_splits)
  show "change_log t = change_log s" "buffer t = buffer s" "client_change_id t = client_change_id s" by (fact t)+
  have e: "edge_ok t e" if "edge_ok s e" for e
  proof -
    have "from_id e \<noteq> i" "to_id e \<noteq> i"
      using edge_okD [OF that] fresh by (auto simp: never_used_def)
    moreover obtain r where "inquiries t = (inquiries s)(i \<mapsto> r)" using t(6) by blast
    ultimately have "edge_ok t e = edge_ok s e" by (intro edge_ok_cong) auto
    with that show ?thesis by simp
  qed
  have eok: "edges_ok s" using ok by (simp add: store_ok_def)
  then have "distinct (map edge_key (edges t))" by (simp add: t(1) edges_ok_def)
  then have "edges_ok t" by (intro edges_ok_subset [OF eok _ _ e]) (simp_all add: t(1))
  moreover have "log_ok t" using ok t(2,3) by (auto simp: store_ok_def log_ok_def change_ids_def less_Suc_eq)
  moreover have "costs_ok t"
    unfolding costs_ok_def
  proof (intro allI impI)
    fix j r assume r: "inquiries t j = Some r"
    show "nonneg (iq_cost r) \<and> iq_cost r = spent j (change_log t)"
    proof (cases "j = i")
      case True
      have "filter (\<lambda>c. subject_id c = i) (change_log s) = []"
        using fresh by (auto simp: never_used_def filter_empty_conv)
      with True r t(2,6) show ?thesis by (auto simp: spent_def)
    next
      case False
      with r t(6) have "inquiries s j = Some r" by auto
      with ok have "nonneg (iq_cost r) \<and> iq_cost r = spent j (change_log s)"
        unfolding store_ok_def costs_ok_def by blast
      then show ?thesis unfolding t(2) .
    qed
  qed
  ultimately show "store_ok t" by (simp add: store_ok_def)
qed

lemma submit_row_ok:
  assumes s: "submit_row i k status created vals c key who s = Inr (t, x)" and ok: "store_ok s" and fresh: "never_used i s"
  shows "store_ok t \<and> prefix (change_log s) (change_log t)"
proof -
  obtain s1 sb where s1: "insert_inquiry i k status created vals s = Inr s1"
    "emit_change ((emit_args i k Created)\<lparr>em_api_key_id := key, em_actor := who, em_marginal_cost := c\<rparr>) True s1
      = Inr (t, x, sb)"
    using s by (auto simp: submit_row_def res_simps)
  note i = insert_inquiry_ok [OF s1(1) ok fresh]
  show ?thesis using emitted_advances [OF emit_change_emitted(1) [OF s1(2)]] i by (simp add: advances_def)
qed

lemma graph_step_ok:
  assumes "graph_step s t" "store_ok s"
  shows "store_ok t \<and> prefix (change_log s) (change_log t)"
  using assms
proof (induction rule: graph_step.cases)
  case (keyed s key)
  then show ?case by (simp add: set_client_change_id_def)
next
  case (submitted i s k status created vals c key who)
  then have "never_used i (s\<lparr>buffer := []\<rparr>)" by (simp add: never_used_def)
  then show ?case using submitted submit_row_ok [of i k status created vals c key who "s\<lparr>buffer := []\<rparr>"]
    by (simp only:) (rule transaction_ok, auto)
next
  case (added s f t k p n v ls why key who)
  then show ?case unfolding add_edge_def
    by (simp only:) (rule transaction_advances, auto simp: res_simps dest: add_edge_infer_advances(1))
next
  case (annotated s f t k ap an av al delta why key who)
  then show ?case unfolding set_edge_annotation_def
    by (simp only:) (rule transaction_advances, auto dest: set_edge_annotation_advances(1))
next
  case (removed s f t k why key who)
  then show ?case unfolding remove_edge_def
    by (simp only:) (rule transaction_advances, auto dest: remove_edge_advances(1))
next
  case (purged s i key who why)
  then show ?case unfolding purge_def
    by (simp only:) (rule transaction_ok, auto dest: purge_store_ok)
next
  case (charged s i c key who why)
  then show ?case unfolding add_cost_def
    by (simp only:) (rule transaction_advances, auto dest: add_cost_advances)
next
  case (cost_set s i ax x key who why)
  then show ?case unfolding set_cost_axis_def
    by (simp only:) (rule transaction_advances, auto dest: set_cost_advances)
qed

lemma empty_store_ok: "empty_store s \<Longrightarrow> store_ok s"
  by (simp add: empty_store_def store_ok_def edges_ok_def log_ok_def costs_ok_def edge_rel_def acyclic_def)

interpretation graph: audited_system empty_store graph_step store_ok change_log
  by unfold_locales (auto simp: empty_store_ok graph_step_ok)

end
