(* ===== verification/Graph_Properties.thy ===== *)
theory Graph_Properties
  imports Graph_Machine
begin

text \<open>
  The properties of the graph store's operations: what a cascade alerts, what a purge
  leaves, which provenance a new edge gets, that creation is idempotent, that a keyed
  charge happens once, and what is published. The concrete store of the last section
  is where the witnesses evaluate the operations.
\<close>

section \<open>Cascade\<close>

lemma mset_walk_edges_None: "mset (walk_edges child None s) = mset (edges s)"
  by (simp add: walk_edges_def)

lemma affected_mset: "mset es = mset fs \<Longrightarrow> affected i es = affected i fs"
  by (simp add: affected_def dep_rel_def) (metis set_mset_mset)

lemma emit_cascades:
  assumes ok: "store_ok s" and o: "emit_once e s = Inr (u, cid, subs, False)" and np: "\<not> non_propagating (em_kind e)"
  shows "\<exists>t c cs. emit_change e True s = Inr (t, cid, subs) \<and> change_log t = change_log s @ c # cs
    \<and> change_of cid e subs c \<and> (\<forall>a \<in> set cs. is_alert a)
    \<and> mset (map alert_key cs)
      = mset (map alert_of (filter (\<lambda>x. other_id x \<in> affected (em_subject_id e) (edges s)) (edges s)))"
proof -
  let ?i = "em_subject_id e"
  have em: "emitted s u" by (rule emit_once_emitted [OF o])
  from o obtain c where c: "change_log u = change_log s @ [c]" "change_of cid e subs c" "client_change_id u = None"
    by (cases rule: emit_once_cases) auto
  have u: "store_ok u" "edges u = edges s" using emitted_store_ok [OF em ok] emitted_edges [OF em] by auto
  have cid: "cid \<in> change_ids u" using c(1,2) by (simp add: change_ids_def change_of_def)
  let ?W = "walk_edges ?i None u"
  obtain t cs where t: "cascade_dependency_changed ?i (em_subject_kind e) cid None u = Inr t"
    "change_log t = change_log u @ cs" "\<forall>a \<in> set cs. is_alert a"
    "mset (map alert_key cs) = mset (map alert_of (filter (\<lambda>x. other_id x \<in> affected ?i ?W) ?W))"
    using cascade_fires [OF store_okD(1) [OF u(1)] c(3) cid store_okD(4) [OF u(1)], of None ?i "em_subject_kind e"]
    by auto
  have W: "mset ?W = mset (edges s)" using mset_walk_edges_None [of ?i u] u(2) by simp
  have "mset (map alert_key cs) = image_mset alert_of (filter_mset (\<lambda>x. other_id x \<in> affected ?i (edges s)) (mset ?W))"
    using t(4) affected_mset [OF W] by simp
  then have "mset (map alert_key cs) = mset (map alert_of (filter (\<lambda>x. other_id x \<in> affected ?i (edges s)) (edges s)))"
    unfolding W by simp
  moreover have "emit_change e True s = Inr (t, cid, subs)" using o t(1) np by (simp add: emit_change_def)
  ultimately show ?thesis using c t(2,3) by auto
qed

section \<open>Provenance\<close>

definition older_than :: "store \<Rightarrow> uuid \<Rightarrow> uuid \<Rightarrow> bool" where
  "older_than s i j \<longleftrightarrow>
     (case (inquiries s i, inquiries s j) of
        (Some a, Some b) \<Rightarrow> iq_created a < iq_created b \<or> iq_created a = iq_created b \<and> i < j
      | _ \<Rightarrow> False)"

text \<open>Every provenance edge goes from the younger inquiry to the older one.\<close>

definition age_ordered :: "store \<Rightarrow> bool" where
  "age_ordered s \<longleftrightarrow> (\<forall>e \<in> set (edges s). edge_kind e = ProducedBy \<longrightarrow> older_than s (to_id e) (from_id e))"

definition has_provenance :: "uuid \<Rightarrow> uuid \<Rightarrow> store \<Rightarrow> bool" where
  "has_provenance f t s \<longleftrightarrow> (f, t, ProducedBy) \<in> edge_key ` set (edges s) \<or> (t, f, ProducedBy) \<in> edge_key ` set (edges s)"

lemma older_than_trans: "older_than s i j \<Longrightarrow> older_than s j k \<Longrightarrow> older_than s i k"
  by (auto simp: older_than_def split: option.splits)

lemma older_than_irrefl [simp]: "\<not> older_than s i i"
  by (simp add: older_than_def split: option.splits)

lemma older_than_advances: "advances s t \<Longrightarrow> older_than t i j = older_than s i j"
  using advancesD(5) [of s t i] advancesD(5) [of s t j]
  by (auto simp: older_than_def split: option.splits)

lemma inserted_edge:
  assumes "insert_edge f fk t k p n v ls s = Inr (s1, True, tk)"
  obtains v' where "edges s1 = edges s @ [\<lparr>from_id = f, from_kind = fk, to_id = t, to_kind = tk, edge_kind = k,
      e_priority = p, e_note = empty_str_to_none n, e_valence = v', e_labels = empty_list_to_none (canonical_strs ls)\<rparr>]"
    "validate_edge_valence k v = Inr v'" "f \<noteq> t" "(f, t, k) \<notin> edge_key ` set (edges s)"
    "inquiries s f \<noteq> None" "inquiries s t \<noteq> None"
  using assms by (auto elim!: insert_edge_Inr simp: res_simps edge_key_def)

lemma infer_edges:
  assumes i: "infer_produced_on_conn f t k caused key who s = Inr s'" and ft: "f \<noteq> t"
  shows "edges s' = edges s \<and> (k = ProducedBy \<or> infer_produced_endpoints f t s = Inr None)
    \<or> (\<exists>e'. edges s' = edges s @ [e'] \<and> k \<noteq> ProducedBy \<and> edge_kind e' = ProducedBy
         \<and> ((from_id e', to_id e') = (f, t) \<or> (from_id e', to_id e') = (t, f))
         \<and> older_than s (to_id e') (from_id e') \<and> \<not> has_provenance f t s
         \<and> (\<exists>w. infer_produced_endpoints f t s = Inr (Some (to_id e', from_id e', w))))"
  using i
proof (cases rule: infer_produced_cases)
  case none
  then show ?thesis by blast
next
  case (stamped producer produced w cid created)
  from infer_produced_Some [OF stamped(2)] obtain a b where ab: "inquiries s producer = Some a" "inquiries s produced = Some b"
    "(producer, produced) = (f, t) \<or> (producer, produced) = (t, f)"
    "iq_created a < iq_created b \<or> iq_created a = iq_created b \<and> producer \<le> produced"
    "(f, t, ProducedBy) \<notin> edge_key ` set (edges s)" "(t, f, ProducedBy) \<notin> edge_key ` set (edges s)" by metis
  have np: "(produced, producer, ProducedBy) \<notin> edge_key ` set (edges s)" using ab(3,5,6) by auto
  from stamped(3) show ?thesis
  proof (cases rule: add_edge_cases)
    case (upsert fk tk)
    from upsert(2) have "(produced, producer, ProducedBy) \<in> edge_key ` set (edges s)"
      by (auto elim!: insert_edge_Inr simp: res_simps edge_key_def)
    with np show ?thesis by blast
  next
    case (created fk tk s1 s2 cause)
    from inserted_edge [OF created(4)] obtain e' where e': "edges s1 = edges s @ [e']" "from_id e' = produced"
      "to_id e' = producer" "edge_kind e' = ProducedBy" by (metis edge.simps)
    have "s' = s2" using created(6) by (simp add: infer_produced_on_conn.simps)
    then have "edges s' = edges s @ [e']" using emitted_edges [OF emit_paired_emitted(1) [OF created(5)]] e' by simp
    moreover have "older_than s producer produced" using ab ft by (auto simp: older_than_def)
    moreover have "\<not> has_provenance f t s" using ab(5,6) by (simp add: has_provenance_def)
    ultimately show ?thesis using stamped(1,2) ab(3) e'(2-4) by auto
  qed
qed

lemma infer_endpoints_None:
  assumes "infer_produced_endpoints f t s = Inr None"
  shows "has_provenance f t s \<or> set (pair_kinds f t (edges s)) \<subseteq> {CitesPaper, Proves, Favors}"
proof (cases "inference_winner (pair_kinds f t (edges s))")
  case None
  then show ?thesis by (simp add: inference_winner_None)
next
  case (Some w)
  then have "w \<in> set PRODUCED_INFERENCE_SUPPRESSED" "w \<in> set (pair_kinds f t (edges s))"
    using assms by (auto simp: infer_produced_endpoints_def inference_winner_def Let_def
        split: if_splits option.splits prod.splits dest!: find_Some_iff_mem)
  then show ?thesis by (auto simp: PRODUCED_INFERENCE_SUPPRESSED_def pair_kinds_mem has_provenance_def)
qed

lemma infer_endpoints_neutral:
  assumes "set (pair_kinds f t (edges s)) \<subseteq> {CitesPaper, Proves, Favors}"
  shows "infer_produced_endpoints f t s = Inr None"
  using assms by (simp add: infer_produced_endpoints_def inference_winner_None [THEN iffD2])

text \<open>What a created edge adds to the edges table.\<close>

lemma created_edges:
  assumes a: "add_edge_on_conn f t k p n v ls why caused c key who s = Inr (s', cid, True)"
  obtains e s2 where "edge_key e = (f, t, k)" "e_priority e = p" "e_note e = empty_str_to_none n"
    "validate_edge_valence k v = Inr (e_valence e)" "e_labels e = empty_list_to_none (canonical_strs ls)"
    "f \<noteq> t" "(f, t, k) \<notin> edge_key ` set (edges s)"
    "edges s2 = edges s @ [e]" "advances s s2" "cid \<noteq> None" "infer_produced_on_conn f t k cid key who s2 = Inr s'"
  using a
proof (cases rule: add_edge_cases)
  case (created fk tk s1 s2 cause)
  have adv: "advances s s2"
    using insert_edge_advances(1) [OF created(4,3)] emitted_advances [OF emit_paired_emitted(1) [OF created(5)]]
    by (rule advances_trans)
  have es: "edges s2 = edges s1" by (rule emitted_edges [OF emit_paired_emitted(1) [OF created(5)]])
  from inserted_edge [OF created(4)] obtain v' where v: "edges s1 = edges s @ [\<lparr>from_id = f, from_kind = fk, to_id = t,
      to_kind = tk, edge_kind = k, e_priority = p, e_note = empty_str_to_none n, e_valence = v',
      e_labels = empty_list_to_none (canonical_strs (canonical_strs ls))\<rparr>]"
    "validate_edge_valence k v = Inr v'" "f \<noteq> t" "(f, t, k) \<notin> edge_key ` set (edges s)" by metis
  show ?thesis
    by (rule that [OF _ _ _ _ _ v(3,4) _ adv]) (use v es created(2,6) in \<open>auto simp: edge_key_def\<close>)
qed simp

lemma pair_kinds_snoc:
  "set (pair_kinds f t (es @ [e])) = set (pair_kinds f t es) \<union>
     (if edge_key e = (f, t, edge_kind e) \<or> edge_key e = (t, f, edge_kind e) then {edge_kind e} else {})"
  by (auto simp: pair_kinds_def edge_key_def)

lemma created_provenance:
  assumes a: "add_edge_on_conn f t k p n v ls why caused c key who s = Inr (s', cid, True)"
  shows "\<exists>e. edge_key e = (f, t, k) \<and> e_priority e = p \<and> e_note e = empty_str_to_none n
    \<and> validate_edge_valence k v = Inr (e_valence e) \<and> e_labels e = empty_list_to_none (canonical_strs ls)
    \<and> (edges s' = edges s @ [e] \<and> (has_provenance f t s \<or> k = ProducedBy
          \<or> set (k # pair_kinds f t (edges s)) \<subseteq> {CitesPaper, Proves, Favors})
       \<or> (\<exists>e'. edges s' = edges s @ [e, e'] \<and> edge_kind e' = ProducedBy \<and> \<not> has_provenance f t s
            \<and> \<not> set (k # pair_kinds f t (edges s)) \<subseteq> {CitesPaper, Proves, Favors}
            \<and> ((from_id e', to_id e') = (f, t) \<or> (from_id e', to_id e') = (t, f))
            \<and> older_than s (to_id e') (from_id e')))"
proof -
  from created_edges [OF a] obtain e s2 where e: "edge_key e = (f, t, k)" "e_priority e = p"
    "e_note e = empty_str_to_none n" "validate_edge_valence k v = Inr (e_valence e)"
    "e_labels e = empty_list_to_none (canonical_strs ls)" "f \<noteq> t" "(f, t, k) \<notin> edge_key ` set (edges s)"
    and s2: "edges s2 = edges s @ [e]" "advances s s2" and i: "infer_produced_on_conn f t k cid key who s2 = Inr s'"
    by metis
  have ek: "edge_kind e = k" using e(1) by (simp add: edge_key_def)
  have pk: "set (pair_kinds f t (edges s2)) = set (k # pair_kinds f t (edges s))"
    using pair_kinds_snoc [of f t "edges s" e] e(1) ek by (simp add: s2(1))
  have hp: "has_provenance f t s2 \<longleftrightarrow> has_provenance f t s \<or> k = ProducedBy"
    using e(1) by (auto simp: has_provenance_def s2(1))
  from infer_edges [OF i e(6)] show ?thesis
  proof (elim disjE)
    assume "edges s' = edges s2 \<and> (k = ProducedBy \<or> infer_produced_endpoints f t s2 = Inr None)"
    then have "edges s' = edges s @ [e]" "has_provenance f t s \<or> k = ProducedBy
          \<or> set (k # pair_kinds f t (edges s)) \<subseteq> {CitesPaper, Proves, Favors}"
      using infer_endpoints_None [of f t s2] hp pk s2(1) by auto
    then show ?thesis using e(1-5) by blast
  next
    assume "\<exists>e'. edges s' = edges s2 @ [e'] \<and> k \<noteq> ProducedBy \<and> edge_kind e' = ProducedBy
         \<and> ((from_id e', to_id e') = (f, t) \<or> (from_id e', to_id e') = (t, f))
         \<and> older_than s2 (to_id e') (from_id e') \<and> \<not> has_provenance f t s2
         \<and> (\<exists>w. infer_produced_endpoints f t s2 = Inr (Some (to_id e', from_id e', w)))"
    then obtain e' w where e': "edges s' = edges s @ [e, e']" "edge_kind e' = ProducedBy"
      "(from_id e', to_id e') = (f, t) \<or> (from_id e', to_id e') = (t, f)" "older_than s (to_id e') (from_id e')"
      "\<not> has_provenance f t s" "infer_produced_endpoints f t s2 = Inr (Some (to_id e', from_id e', w))"
      using hp s2 older_than_advances by auto
    have "\<not> set (k # pair_kinds f t (edges s)) \<subseteq> {CitesPaper, Proves, Favors}"
      using infer_endpoints_neutral [of f t s2] e'(6) unfolding pk by auto
    then show ?thesis using e(1-5) e' by blast
  qed
qed

section \<open>Idempotence of creation\<close>

lemma insert_edge_again:
  assumes i: "insert_edge f fk t k p n v ls s = Inr (s1, ins, tk)"
    and adv: "map_option iq_kind (inquiries u t) = Some tk" and ok: "edges_ok u"
    and mem: "(f, t, k) \<in> edge_key ` set (edges u)"
  shows "insert_edge f fk t k p n v ls u = Inr (u, False, tk)"
proof -
  from i obtain v' e where e:
    "e = \<lparr>from_id = f, from_kind = fk, to_id = t, to_kind = tk, edge_kind = k, e_priority = p,
          e_note = empty_str_to_none n, e_valence = v', e_labels = empty_list_to_none (canonical_strs ls)\<rparr>"
    "validate_edge_priority k p = Inr ()" "validate_edge_valence k v = Inr v'" "reject_edge_cycle f t k s = Inr ()"
    "insert_edge_row e s = Inr (s1, ins)"
    by (rule insert_edge_Inr) blast
  have row: "edge_row_check e" using e(5) by (cases ins) (auto simp: res_simps)
  have "f \<noteq> t" using e(4) by (simp add: res_simps)
  moreover have "(t, f) \<notin> (edge_rel (edges u) k)\<^sup>*" if en: "enforces_acyclicity (EDGE_POLICIES k)"
  proof
    assume "(t, f) \<in> (edge_rel (edges u) k)\<^sup>*"
    moreover have "(f, t) \<in> edge_rel (edges u) k" using mem by (simp add: edge_rel_keys)
    ultimately have "(f, f) \<in> (edge_rel (edges u) k)\<^sup>+" by (rule rtrancl_into_trancl2 [rotated])
    with ok en show False by (simp add: edges_ok_def acyclic_def)
  qed
  ultimately have "reject_edge_cycle f t k u = Inr ()" by (simp add: res_simps)
  moreover have "insert_edge_row e u = Inr (u, False)"
    using row mem e(1) by (simp add: res_simps edge_key_def)
  moreover have "lookup_kind t u = Inr tk" using adv by (simp add: res_simps)
  ultimately show ?thesis using e(1-3) by (simp add: insert_edge_def)
qed

lemma given_or_same: "given_or x (or_absent p) = (case p of None \<Rightarrow> x | Some q \<Rightarrow> Some q)"
  by (cases p) (simp_all add: given_or_def or_absent_def)

lemma annotate_same:
  assumes row: "find_edge f t k u = Some row" and p: "e_priority row = p" and n: "e_note row = empty_str_to_none n"
    and v: "validate_edge_valence k v = Inr (e_valence row)" and l: "e_labels row = empty_list_to_none (canonical_strs ls)"
    and pv: "validate_edge_priority k p = Inr ()"
  shows "set_edge_annotation_on_conn f t k (or_absent p) (if n = [] then ABSENT else Given (Some n)) (or_absent v)
     (if canonical_strs ls = [] then ABSENT else Given (Some (canonical_strs ls))) None why False key who u = Inr (u, None)"
proof -
  have 1: "given_or (e_priority row) (or_absent p) = p" using p by (simp add: given_or_same split: option.splits)
  have 2: "(case if n = [] then ABSENT else Given (Some n) of ABSENT \<Rightarrow> e_note row | Given None \<Rightarrow> None
      | Given (Some txt) \<Rightarrow> empty_str_to_none txt) = e_note row"
    using n by simp
  have 3: "(case or_absent v of ABSENT \<Rightarrow> Inr (e_valence row) | Given w \<Rightarrow> validate_edge_valence k w) = Inr (e_valence row)"
    using v by (cases v) (simp_all add: or_absent_def)
  have 4: "new_labels (e_labels row) (if canonical_strs ls = [] then ABSENT else Given (Some (canonical_strs ls))) None
      = Inr (e_labels row)"
    using l by (simp add: new_labels_def)
  show ?thesis
    unfolding set_edge_annotation_on_conn_def row option.case 1 2 3 4 Let_def bind_res_simps pv
    by (simp add: annots_of_def p)
qed

lemma find_edge_unique:
  assumes "distinct (map edge_key (edges u))" "e \<in> set (edges u)" "edge_key e = (f, t, k)"
  shows "find_edge f t k u = Some e"
proof (cases "find_edge f t k u")
  case None
  with assms show ?thesis by (auto simp: find_edge_None image_iff)
next
  case (Some x)
  with find_edge_Some [OF Some] assms show ?thesis by (simp add: distinct_map inj_on_def)
qed

lemma add_edge_again:
  assumes a: "add_edge_on_conn f t k p n v ls why caused c key who s = Inr (s', cid, True)" and ok: "store_ok s"
  shows "add_edge_on_conn f t k p n v ls why' caused' c' key' who' s' = Inr (s', None, False)"
proof -
  have adv: "advances s s'" using add_edge_infer_advances(1) [OF a ok] .
  have ok': "edges_ok s'" using advancesD(1) [OF adv ok] by (simp add: store_ok_def)
  from a obtain fk s1 tk where i: "insert_edge f fk t k p n v (canonical_strs ls) s = Inr (s1, True, tk)"
    and fk: "map_option iq_kind (inquiries s f) = Some fk"
    by (cases rule: add_edge_cases) auto
  have tk: "map_option iq_kind (inquiries s t) = Some tk" "validate_edge_priority k p = Inr ()"
    using i by (auto elim: insert_edge_Inr)
  from created_provenance [OF a] obtain e where e: "edge_key e = (f, t, k)" "e_priority e = p"
    "e_note e = empty_str_to_none n" "validate_edge_valence k v = Inr (e_valence e)"
    "e_labels e = empty_list_to_none (canonical_strs ls)"
    and "edges s' = edges s @ [e] \<or> (\<exists>e'. edges s' = edges s @ [e, e'])" by blast
  then have es: "e \<in> set (edges s')" by auto
  have mem: "(f, t, k) \<in> edge_key ` set (edges s')" using e(1) es by force
  have ins: "insert_edge f fk t k p n v (canonical_strs ls) s' = Inr (s', False, tk)"
    by (rule insert_edge_again [OF i _ ok' mem]) (use tk advancesD(4) [OF adv] in simp)
  have "find_edge f t k s' = Some e"
    by (rule find_edge_unique) (use ok' e es in \<open>auto simp: edges_ok_def\<close>)
  note same = annotate_same [OF this e(2-5) tk(2)]
  have "lookup_kind f s' = Inr fk" using fk advancesD(4) [OF adv] by (simp add: res_simps)
  then show ?thesis by (simp add: add_edge_on_conn.simps [of f] ins same)
qed

section \<open>When creation succeeds\<close>

definition annots_ok :: "edge_kind \<Rightarrow> annots option \<Rightarrow> bool" where
  "annots_ok k a = (case a of None \<Rightarrow> True | Some (p, n, v, l) \<Rightarrow> annotation_check (Some k) p v)"

lemma paired_peers_check:
  assumes "carries_peer ck" "annots_ok k o'" "annots_ok k n" "o' \<noteq> None \<or> n \<noteq> None"
  shows "peers_check ck (coerce_peer (peer_of b k o')) (coerce_peer (peer_of b k n))"
  using assms
  by (auto simp: peers_check_def annots_ok_def peer_of_def coerce_peer_def peer_present_def empty_snapshot_def
      annotation_check_def split: option.splits prod.splits)

lemma edited_peer_of [simp]: "edited (peer_of b k a) = None"
  by (simp add: peer_of_def split: option.splits prod.splits)

lemma mirror_check_peer [simp]:
  "carries_peer ck \<Longrightarrow> edited o' = None \<Longrightarrow> edited n = None \<Longrightarrow> mirror_check ck sk o' n"
  by (rule mirror_check_plain) (auto simp: carries_peer_def)

lemma emit_paired_total:
  assumes ok: "store_ok s" and slot: "client_change_id s = None"
    and c: "caused = None \<or> (\<exists>i. caused = Some i \<and> i \<in> change_ids s)"
    and a: "carries_peer ck" "annots_ok k o'" "annots_ok k n" "o' \<noteq> None \<or> n \<noteq> None"
  shows "\<exists>t cause. emit_paired ck a b k o' n caused cas why key who s = Inr (t, cause)"
proof -
  let ?e1 = "(emit_args (fst a) (snd a) ck)\<lparr>em_api_key_id := key, em_actor := who,
         em_caused_by := caused, em_reason := why, em_old := peer_of b k o', em_new := peer_of b k n\<rparr>"
  have costs: "costs_ok s" using ok by (rule store_okD)
  obtain u cid subs where q: "emit_quiet ?e1 s = Inr (u, cid, subs)"
    using emit_quiet_total [OF slot costs, of ?e1] paired_peers_check [OF a, of b] c a(1)
    by (auto simp: emit_args_def)
  then obtain r where o: "emit_once ?e1 s = Inr (u, cid, subs, r)" by (auto simp: emit_quiet_once)
  have "\<exists>t1. emit_change ?e1 cas s = Inr (t1, cid, subs)"
  proof (cases "r \<or> \<not> cas \<or> non_propagating (em_kind ?e1)")
    case True
    with o show ?thesis by (auto simp: emit_change_def)
  next
    case False
    with o emit_cascades [OF ok, of ?e1 u cid subs] show ?thesis by auto
  qed
  then obtain t1 where t1: "emit_change ?e1 cas s = Inr (t1, cid, subs)" by blast
  note e = emit_change_emitted [OF t1]
  let ?e2 = "(emit_args (fst b) (snd b) ck)\<lparr>em_api_key_id := key, em_actor := who,
         em_caused_by := Some cid, em_reason := why, em_old := peer_of a k o', em_new := peer_of a k n\<rparr>"
  have costs1: "costs_ok t1" using emitted_store_ok [OF e(1) ok] by (rule store_okD)
  obtain u2 cid2 subs2 where "emit_quiet ?e2 t1 = Inr (u2, cid2, subs2)"
    using emit_quiet_total [OF e(2) costs1, of ?e2] paired_peers_check [OF a, of a] e(3) a(1)
    by (auto simp: emit_args_def)
  then have "emit_change ?e2 False t1 = Inr (u2, cid2, subs2)" by (simp only: emit_change_quiet)
  with t1 show ?thesis by (simp add: emit_paired_def)
qed

lemma emit_added_total:
  assumes "store_ok s" "client_change_id s = None" "caused = None \<or> (\<exists>i. caused = Some i \<and> i \<in> change_ids s)"
    and "annotation_check (Some k) p v"
  shows "\<exists>t cause. emit_paired EdgeAdded a b k None (Some (p, n, v, l)) caused cas why key who s = Inr (t, cause)"
  by (rule emit_paired_total [OF assms(1-3)]) (simp_all add: assms(4) carries_peer_def annots_ok_def)

lemma older_path:
  assumes ord: "age_ordered s" and p: "(a, b) \<in> (edge_rel (edges s) ProducedBy)\<^sup>*"
  shows "a = b \<or> older_than s b a"
  using p
proof (induction rule: rtrancl_induct)
  case (step y z)
  then have "older_than s z y" using ord by (auto simp: age_ordered_def edge_rel_def)
  with step.IH show ?case by (auto intro: older_than_trans)
qed simp

lemma insert_produced_total:
  assumes ord: "age_ordered s" and o: "older_than s producer produced"
    and np: "(produced, producer, ProducedBy) \<notin> edge_key ` set (edges s)"
    and fk: "map_option iq_kind (inquiries s produced) = Some fk"
  shows "\<exists>s1 tk. insert_edge produced fk producer ProducedBy None [] None [] s = Inr (s1, True, tk)"
proof -
  obtain a b where ab: "inquiries s producer = Some a" "inquiries s produced = Some b"
    using o by (auto simp: older_than_def split: option.splits)
  have ne: "produced \<noteq> producer" using o by auto
  have "(producer, produced) \<notin> (edge_rel (edges s) ProducedBy)\<^sup>*"
    using older_path [OF ord] o ne older_than_trans older_than_irrefl by blast
  then have "reject_edge_cycle produced producer ProducedBy s = Inr ()" using ne by (simp add: res_simps)
  moreover have "lookup_kind producer s = Inr (iq_kind a)" using ab by (simp add: res_simps)
  moreover have "validate_edge_priority ProducedBy None = Inr ()" "validate_edge_valence ProducedBy None = Inr None"
    by (simp_all add: validate_edge_priority_def validate_edge_valence_def)
  moreover have "\<exists>s1. insert_edge_row \<lparr>from_id = produced, from_kind = fk, to_id = producer, to_kind = iq_kind a,
      edge_kind = ProducedBy, e_priority = None, e_note = empty_str_to_none [], e_valence = None,
      e_labels = empty_list_to_none (canonical_strs [])\<rparr> s = Inr (s1, True)"
    using ne np ab by (simp add: insert_edge_row_def edge_row_check_def edges_check_def set_inquiry_kinds
        annotation_check_def edge_key_def)
  ultimately show ?thesis by (fastforce simp: insert_edge_def)
qed

lemma infer_produced_total:
  assumes ok: "store_ok s" and ord: "age_ordered s" and slot: "client_change_id s = None"
    and cause: "cause \<in> change_ids s" and ft: "f \<noteq> t" "inquiries s f \<noteq> None" "inquiries s t \<noteq> None"
  shows "\<exists>s'. infer_produced_on_conn f t k (Some cause) key who s = Inr s'"
proof (cases "k = ProducedBy")
  case True
  then show ?thesis by (simp add: infer_produced_on_conn.simps)
next
  case False
  have "\<exists>ends. infer_produced_endpoints f t s = Inr ends"
    using ft(2,3) by (auto simp: infer_produced_endpoints_def Let_def split_beta split: option.splits)
  then obtain ends where e: "infer_produced_endpoints f t s = Inr ends" by blast
  show ?thesis
  proof (cases ends)
    case None
    with e False show ?thesis by (simp add: infer_produced_on_conn.simps)
  next
    case (Some x)
    obtain producer produced w where x: "x = (producer, produced, w)" by (cases x) auto
    from infer_produced_Some [OF e [unfolded Some x]] obtain a b where
      ab: "inquiries s producer = Some a" "inquiries s produced = Some b"
      "(producer, produced) = (f, t) \<or> (producer, produced) = (t, f)"
      "iq_created a < iq_created b \<or> iq_created a = iq_created b \<and> producer \<le> produced"
      "(f, t, ProducedBy) \<notin> edge_key ` set (edges s)" "(t, f, ProducedBy) \<notin> edge_key ` set (edges s)" by metis
    have o: "older_than s producer produced" using ab ft(1) by (auto simp: older_than_def)
    have np: "(produced, producer, ProducedBy) \<notin> edge_key ` set (edges s)" using ab(3,5,6) by auto
    have fk: "map_option iq_kind (inquiries s produced) = Some (iq_kind b)" using ab by simp
    from insert_produced_total [OF ord o np fk] obtain s1 tk where
      i: "insert_edge produced (iq_kind b) producer ProducedBy None [] None [] s = Inr (s1, True, tk)" by blast
    note adv = insert_edge_advances [OF i fk]
    have ok1: "store_ok s1" and slot1: "client_change_id s1 = None" and c1: "cause \<in> change_ids s1"
      using advancesD(1) [OF adv(1) ok] adv(2) slot advancesD(3) [OF adv(1)] cause by auto
    have chk: "annotation_check (Some ProducedBy) None None" by (simp add: annotation_check_def)
    obtain s2 cid where p: "emit_paired EdgeAdded (produced, iq_kind b) (producer, tk) ProducedBy None
        (Some (None, empty_str_to_none [], None, Some (canonical_strs []))) (Some cause) False (inferred_reason w) key who s1
        = Inr (s2, cid)"
      using emit_added_total [OF ok1 slot1 _ chk] c1 by blast
    have "lookup_kind produced s = Inr (iq_kind b)" using ab by (simp add: res_simps)
    then have "add_edge_on_conn produced producer ProducedBy None [] None [] (inferred_reason w) (Some cause) False key who s
        = Inr (s2, Some cid, True)"
      using i p by (simp add: add_edge_on_conn.simps infer_produced_on_conn.simps)
    with e False Some x show ?thesis by (simp add: infer_produced_on_conn.simps [of f])
  qed
qed

text \<open>What a caller has to get right for a new edge.\<close>

definition edge_admissible :: "uuid \<Rightarrow> uuid \<Rightarrow> edge_kind \<Rightarrow> int option \<Rightarrow> pyfloat option \<Rightarrow> store \<Rightarrow> bool" where
  "edge_admissible f t k p v s \<longleftrightarrow> f \<noteq> t \<and> (\<exists>a b. inquiries s f = Some a \<and> inquiries s t = Some b
       \<and> admits k (iq_kind a) (iq_kind b)) \<and> annotation_check (Some k) p v
     \<and> (enforces_acyclicity (EDGE_POLICIES k) \<longrightarrow> (t, f) \<notin> (edge_rel (edges s) k)\<^sup>*)"

lemma valence_check_iff: "(\<exists>v'. validate_edge_valence k v = Inr v') \<longleftrightarrow> annotation_check (Some k) None v"
  by (cases v) (auto simp: validate_edge_valence_def annotation_check_def isnan_def)

lemma insert_edge_admissible:
  assumes new: "(f, t, k) \<notin> edge_key ` set (edges s)" and fk: "map_option iq_kind (inquiries s f) = Some fk"
  shows "(\<exists>s1 tk. insert_edge f fk t k p n v ls s = Inr (s1, True, tk)) \<longleftrightarrow> edge_admissible f t k p v s"
proof
  assume "\<exists>s1 tk. insert_edge f fk t k p n v ls s = Inr (s1, True, tk)"
  then obtain s1 tk where "insert_edge f fk t k p n v ls s = Inr (s1, True, tk)" by blast
  then obtain v' e where
    "e = \<lparr>from_id = f, from_kind = fk, to_id = t, to_kind = tk, edge_kind = k, e_priority = p,
          e_note = empty_str_to_none n, e_valence = v', e_labels = empty_list_to_none (canonical_strs ls)\<rparr>"
    "map_option iq_kind (inquiries s t) = Some tk" "validate_edge_valence k v = Inr v'"
    "reject_edge_cycle f t k s = Inr ()" "insert_edge_row e s = Inr (s1, True)"
    by (rule insert_edge_Inr) blast
  then show "edge_admissible f t k p v s"
    using fk valence_check_iff [of k v]
    by (auto simp: edge_admissible_def res_simps edge_row_check_def admits_edges_check annotation_check_def)
next
  assume a: "edge_admissible f t k p v s"
  then obtain a b where ab: "inquiries s f = Some a" "inquiries s t = Some b" "admits k (iq_kind a) (iq_kind b)" "f \<noteq> t"
    by (auto simp: edge_admissible_def)
  have "annotation_check (Some k) None v" using a by (auto simp: edge_admissible_def annotation_check_def)
  then obtain v' where v': "validate_edge_valence k v = Inr v'" using valence_check_iff by blast
  have p: "validate_edge_priority k p = Inr ()" "annotation_check (Some k) p None"
    using a by (auto simp: edge_admissible_def annotation_check_def validate_edge_priority_def split: option.splits)
  have "lookup_kind t s = Inr (iq_kind b)" "reject_edge_cycle f t k s = Inr ()"
    using a ab by (auto simp: edge_admissible_def res_simps)
  moreover have "edge_row_check \<lparr>from_id = f, from_kind = fk, to_id = t, to_kind = iq_kind b, edge_kind = k,
      e_priority = p, e_note = empty_str_to_none n, e_valence = v', e_labels = empty_list_to_none (canonical_strs ls)\<rparr>"
    using ab fk p(2) validate_edge_valence_Inr [OF v']
    by (auto simp: edge_row_check_def admits_edges_check annotation_check_def)
  ultimately show "\<exists>s1 tk. insert_edge f fk t k p n v ls s = Inr (s1, True, tk)"
    using v' p(1) new ab by (simp add: insert_edge_def insert_edge_row_def edge_key_def)
qed

lemma add_new_edge_iff:
  assumes ok: "store_ok s" and ord: "age_ordered s" and slot: "client_change_id s = None"
    and new: "(f, t, k) \<notin> edge_key ` set (edges s)"
  shows "(\<exists>r. add_edge_on_conn f t k p n v ls why None True key who s = Inr r) \<longleftrightarrow> edge_admissible f t k p v s"
proof
  assume "\<exists>r. add_edge_on_conn f t k p n v ls why None True key who s = Inr r"
  then obtain s' cid created where "add_edge_on_conn f t k p n v ls why None True key who s = Inr (s', cid, created)"
    by (metis prod_cases3)
  then show "edge_admissible f t k p v s"
  proof (cases rule: add_edge_cases)
    case (upsert fk tk)
    then show ?thesis using new by (auto elim!: insert_edge_Inr simp: res_simps edge_key_def)
  next
    case (created fk tk s1 s2 cause)
    then show ?thesis using insert_edge_admissible [OF new created(3)] by blast
  qed
next
  assume a: "edge_admissible f t k p v s"
  then obtain a b where ab: "inquiries s f = Some a" "inquiries s t = Some b" "f \<noteq> t"
    by (auto simp: edge_admissible_def)
  have fk: "map_option iq_kind (inquiries s f) = Some (iq_kind a)" using ab by simp
  obtain s1 tk where i: "insert_edge f (iq_kind a) t k p n v (canonical_strs ls) s = Inr (s1, True, tk)"
    using insert_edge_admissible [OF new fk] a by blast
  note adv1 = insert_edge_advances [OF i fk]
  have s1: "store_ok s1" "client_change_id s1 = None" using advancesD(1) [OF adv1(1) ok] adv1(2) slot by auto
  have "annotation_check (Some k) p v" using a by (simp add: edge_admissible_def)
  then obtain s2 cause where e: "emit_paired EdgeAdded (f, iq_kind a) (t, tk) k None
      (Some (p, empty_str_to_none n, v, Some (canonical_strs ls))) None True why key who s1 = Inr (s2, cause)"
    using emit_added_total [OF s1, of None] by blast
  note em = emit_paired_emitted [OF e]
  have adv2: "advances s s2" using advances_trans [OF adv1(1) emitted_advances [OF em(1)]] .
  have ord2: "age_ordered s2 \<or> k = ProducedBy"
  proof (rule disjCI)
    assume k: "k \<noteq> ProducedBy"
    from inserted_edge [OF i] obtain e' where "edges s1 = edges s @ [e']" "edge_kind e' = k"
      by (metis edge.simps(5))
    then have "edges s2 = edges s @ [e']" "edge_kind e' \<noteq> ProducedBy" using emitted_edges [OF em(1)] k by auto
    then show "age_ordered s2" using ord by (auto simp: age_ordered_def older_than_advances [OF adv2])
  qed
  have "inquiries s2 f \<noteq> None" "inquiries s2 t \<noteq> None"
    using advancesD(4) [OF adv2, of f] advancesD(4) [OF adv2, of t] ab by auto
  then have "\<exists>s'. infer_produced_on_conn f t k (Some cause) key who s2 = Inr s'"
    using ord2 infer_produced_total [OF advancesD(1) [OF adv2 ok] _ em(2,3) ab(3)]
    by (auto simp: infer_produced_on_conn.simps [of f t ProducedBy])
  moreover have "lookup_kind f s = Inr (iq_kind a)" using ab by (simp add: res_simps)
  ultimately show "\<exists>r. add_edge_on_conn f t k p n v ls why None True key who s = Inr r"
    using i e by (auto simp: add_edge_on_conn.simps)
qed

section \<open>Purge and removal\<close>

lemma cascade_captured:
  assumes ok: "store_ok s" and slot: "client_change_id s = None" and cause: "cause \<in> change_ids s"
    and es: "\<forall>e \<in> set es. edge_row_check e \<and> touches child e"
  shows "\<exists>t cs. cascade_dependency_changed child ck cause (Some es) s = Inr t \<and> change_log t = change_log s @ cs
    \<and> (\<forall>c \<in> set cs. is_alert c)
    \<and> mset (map alert_key cs) = mset (map alert_of
        (filter (\<lambda>e. other_id e \<in> affected child (walk_edges child (Some es) s)) (walk_edges child (Some es) s)))"
  using cascade_fires [OF store_okD(1) [OF ok] slot cause store_okD(4) [OF ok], of "Some es" child ck] es by blast

lemma touching_ok: "store_ok s \<Longrightarrow> \<forall>e \<in> set (edges_touching i s). edge_row_check e \<and> touches i e"
  using store_okD(4) [of s] by (auto simp: edges_touching_def)

lemma emit_quiet_of_total:
  assumes "store_ok s" "client_change_id s = None" "em_marginal_cost e + em_cost_delta e = 0"
    and "peers_check (em_kind e) (coerce_peer (em_old e)) (coerce_peer (em_new e))"
    and "mirror_check (em_kind e) (em_subject_kind e) (coerce_peer (em_old e)) (coerce_peer (em_new e))"
    and "em_caused_by e = None \<or> (\<exists>i. em_caused_by e = Some i \<and> i \<in> change_ids s)"
  shows "\<exists>t cid subs. emit_change e False s = Inr (t, cid, subs)"
  using emit_quiet_total [OF assms(2) store_okD(1) [OF assms(1)] assms(3-6)] by (auto simp: emit_change_quiet)

lemma purge_iff:
  assumes ok: "store_ok s" and slot: "client_change_id s = None"
  shows "(\<exists>r. purge_on_conn target key who why s = Inr r)
    \<longleftrightarrow> (\<exists>r :: inquiry. inquiries s target = Some r \<and> iq_owner r = None \<and> iq_kind r \<noteq> AccessGroup)"
proof
  assume "\<exists>r. purge_on_conn target key who why s = Inr r"
  then show "\<exists>r :: inquiry. inquiries s target = Some r \<and> iq_owner r = None \<and> iq_kind r \<noteq> AccessGroup"
    by (auto simp: purge_on_conn_def purge_held_def split: option.splits if_splits)
next
  assume "\<exists>r :: inquiry. inquiries s target = Some r \<and> iq_owner r = None \<and> iq_kind r \<noteq> AccessGroup"
  then obtain r :: inquiry where r: "inquiries s target = Some r" "iq_owner r = None" "iq_kind r \<noteq> AccessGroup" by blast
  let ?P = "edges_touching target s" and ?k = "iq_kind r"
  let ?e = "(emit_args target ?k Purged)\<lparr>em_api_key_id := key, em_actor := who, em_reason := why\<rparr>"
  obtain t cause sb where t: "emit_change ?e False s = Inr (t, cause, sb)"
    using emit_quiet_of_total [OF ok slot, of ?e]
    by (auto simp: emit_args_def peers_check_def carries_peer_def coerce_peer_def empty_snapshot_def annotation_check_def)
  note et = emit_change_emitted [OF t]
  have okt: "store_ok t" by (rule emitted_store_ok [OF et(1) ok])
  obtain u where u: "cascade_dependency_changed target ?k cause (Some ?P) t = Inr u"
    using cascade_captured [OF okt et(2,3) touching_ok [OF ok]] by blast
  have eu: "emitted t u" "client_change_id u = None"
    using cascade_emitted [OF u] cascade_loop_slot [OF u [unfolded cascade_dependency_changed_def] et(2)] by auto
  have "costs_ok u" "cause \<in> change_ids u" "\<forall>e \<in> set ?P. edge_row_check e"
    using emitted_store_ok [OF eu(1) okt] emitted_ids [OF eu(1)] et(3) touching_ok [OF ok] by (auto dest: store_okD)
  then obtain v where "purge_edges target ?k cause key who ?P u = Inr v"
    using purge_edges_total [OF _ eu(2)] by blast
  with r t u show "\<exists>r. purge_on_conn target key who why s = Inr r"
    by (simp add: purge_on_conn_def purge_held_def)
qed

lemma remove_alerts:
  assumes r: "remove_edge_on_conn f t k why key who s = Inr (s', Some cause)" and ok: "store_ok s"
    and slot: "client_change_id s = None"
  obtains row cs c1 c2 where "find_edge f t k s = Some row" "change_log s' = change_log s @ c1 # cs @ [c2]"
    "\<forall>c \<in> set cs. is_alert c"
    "mset (map alert_key cs) = mset (map alert_of (filter (\<lambda>e. other_id e \<in>
        affected f (walk_edges f (Some (edges_touching f s)) (delete_edge_row f t k s)))
      (walk_edges f (Some (edges_touching f s)) (delete_edge_row f t k s))))"
    "subject_id c1 = f" "subject_id c2 = t" "change_id c1 = cause" "caused_by c2 = Some cause"
proof -
  let ?d = "delete_edge_row f t k s"
  obtain row where row: "find_edge f t k s = Some row"
    using r by (cases "find_edge f t k s") (auto simp: remove_edge_on_conn_def)
  let ?e1 = "(emit_args f (from_kind row) EdgeRemoved)\<lparr>em_api_key_id := key, em_actor := who,
       em_reason := why, em_old := peer_of (t, to_kind row) k (Some (annots_of row))\<rparr>"
  let ?e2 = "(emit_args t (to_kind row) EdgeRemoved)\<lparr>em_api_key_id := key, em_actor := who,
       em_caused_by := Some cause, em_reason := why, em_old := peer_of (f, from_kind row) k (Some (annots_of row))\<rparr>"
  obtain s1 sb s2 cid sb2 where e: "emit_change ?e1 False ?d = Inr (s1, cause, sb)"
    "cascade_dependency_changed f (from_kind row) cause (Some (edges_touching f s)) s1 = Inr s2"
    "emit_change ?e2 False s2 = Inr (s', cid, sb2)"
    using r row by (auto simp: remove_edge_on_conn_def Let_def res_simps)
  note em1 = emit_change_emitted [OF e(1)]
  have okd: "store_ok ?d" using delete_edge_row_advances ok advancesD(1) by blast
  have ok1: "store_ok s1" by (rule emitted_store_ok [OF em1(1) okd])
  obtain s2' cs where cs: "cascade_dependency_changed f (from_kind row) cause (Some (edges_touching f s)) s1 = Inr s2'"
    "change_log s2' = change_log s1 @ cs" "\<forall>c \<in> set cs. is_alert c"
    "mset (map alert_key cs) = mset (map alert_of (filter (\<lambda>e. other_id e \<in> affected f
      (walk_edges f (Some (edges_touching f s)) s1)) (walk_edges f (Some (edges_touching f s)) s1)))"
    using cascade_captured [OF ok1 em1(2,3) touching_ok [OF ok]] by blast
  have W: "walk_edges f (Some (edges_touching f s)) s1 = walk_edges f (Some (edges_touching f s)) ?d"
    using emitted_edges [OF em1(1)] by (simp add: walk_edges_def)
  obtain r1 where o1: "emit_once ?e1 ?d = Inr (s1, cause, sb, r1)"
    using e(1) by (auto simp: emit_change_quiet emit_quiet_once)
  obtain r2 where o2: "emit_once ?e2 s2 = Inr (s', cid, sb2, r2)"
    using e(3) by (auto simp: emit_change_quiet emit_quiet_once)
  obtain c1 where c1: "change_log s1 = change_log s @ [c1]" "change_of cause ?e1 sb c1"
    using o1 slot by (cases rule: emit_once_cases) (auto simp: delete_edge_row_def)
  have slot2: "client_change_id s2 = None"
    using cascade_loop_slot [OF e(2) [unfolded cascade_dependency_changed_def] em1(2)] .
  obtain c2 where c2: "change_log s' = change_log s2 @ [c2]" "change_of cid ?e2 sb2 c2"
    using o2 slot2 by (cases rule: emit_once_cases) auto
  have "s2' = s2" using cs(1) e(2) by simp
  then show ?thesis
    using that [OF row, of c1 cs c2] c1 c2 cs unfolding W by (auto simp: change_of_def emit_args_def)
qed

section \<open>Costs\<close>

definition cost_at :: "store \<Rightarrow> uuid \<Rightarrow> cost option" where
  "cost_at s i = map_option iq_cost (inquiries s i)"

lemma emit_once_cost:
  assumes "emit_once e s = Inr (t, cid, subs, False)"
  shows "cost_at t i = map_option (\<lambda>c. if i = em_subject_id e then c + (em_marginal_cost e + em_cost_delta e) else c) (cost_at s i)"
proof -
  let ?s = "s\<lparr>client_change_id := None\<rparr>"
  obtain k u oc nc where a: "apply_change k e ?s = Inr (u, oc, nc, subs)" "t = buffer_notification (em_subject_id e) u"
    using assms
    by (auto simp: emit_once_def consume_client_change_id_def res_simps split: option.splits sum.splits if_splits)
  then obtain v sb where ch: "charge (em_subject_id e) (em_marginal_cost e + em_cost_delta e) ?s = Inr (v, oc, nc, sb)"
    and "inquiries u = inquiries v"
    by (auto simp: apply_change_def res_simps Let_def)
  then have t: "inquiries t = inquiries v" using a(2) by (simp add: buffer_notification_def)
  show ?thesis
  proof (cases "inquiries s (em_subject_id e)")
    case None
    then show ?thesis using charge_emitted(10) [OF ch] t
      by (cases "i = em_subject_id e") (simp_all add: cost_at_def option.map_ident)
  next
    case (Some r)
    then show ?thesis using charge_emitted(11) [OF ch, of r] t by (auto simp: cost_at_def option.map_ident)
  qed
qed

lemma emit_quiet_free:
  assumes "emit_quiet e s = Inr (t, cid, subs)" "em_marginal_cost e + em_cost_delta e = 0"
  shows "cost_at t i = cost_at s i"
proof -
  obtain r where o: "emit_once e s = Inr (t, cid, subs, r)" using assms(1) by (auto simp: emit_quiet_once)
  show ?thesis
  proof (cases r)
    case True
    with o have "t = s\<lparr>client_change_id := None\<rparr>" by (cases rule: emit_once_cases) auto
    then show ?thesis by (simp add: cost_at_def)
  next
    case False
    with o have "emit_once e s = Inr (t, cid, subs, False)" by simp
    from emit_once_cost [OF this, of i] show ?thesis unfolding assms(2) by (cases "cost_at s i") simp_all
  qed
qed

lemma alert_parents_free:
  "alert_parents cur ck cause ps s walked q = Inr (t, w, q') \<Longrightarrow> cost_at t i = cost_at s i"
proof (induction ps arbitrary: s walked q)
  case (Cons p ps)
  obtain j pk e where p: "p = (j, pk, e)" by (cases p) auto
  obtain u cid subs w1 q1 where em: "emit_quiet ((emit_args j pk DependencyChanged)\<lparr>em_actor := ''librarian'',
          em_caused_by := Some cause, em_new := peer_snapshot e cur ck\<rparr>) s = Inr (u, cid, subs)"
    "alert_parents cur ck cause ps u w1 q1 = Inr (t, w, q')"
    using Cons.prems by (auto simp: p res_simps split: if_splits)
  have "cost_at u i = cost_at s i" by (rule emit_quiet_free [OF em(1)]) (simp add: emit_args_def)
  with Cons.IH [OF em(2)] show ?case by simp
qed simp

lemma cascade_loop_free: "cascade_loop s walked q = Inr t \<Longrightarrow> cost_at t i = cost_at s i"
proof (induction s walked q rule: cascade_loop.induct)
  case (2 s walked cur ck cause rows queue)
  then obtain u w q where a: "alert_parents cur ck cause (parent_edges cur rows s) s walked queue = Inr (u, w, q)"
    and "cascade_loop u w q = Inr t" by (auto simp: cascade_loop_simps res_simps)
  then have "cost_at t i = cost_at u i" using "2.IH" [of "(u, w, q)" u "(w, q)" w q] by simp
  with alert_parents_free [OF a] show ?case by simp
qed (simp add: cascade_loop_simps)

lemma emit_cost_effect:
  assumes e: "emit_cost i ik d key who why s = Inr (t, cid)" and fresh: "\<forall>k. client_change_id s = Some k \<longrightarrow> k \<notin> change_ids s"
  shows "cost_at t j = map_option (\<lambda>c. if j = i then c + d else c) (cost_at s j)"
    "\<exists>c cs k. cid = Some k \<and> change_log t = change_log s @ c # cs \<and> change_id c = k \<and> actor c = who
       \<and> subject_id c = i \<and> change_kind c = COST_KIND \<and> (\<forall>k'. client_change_id s = Some k' \<longrightarrow> k = k')"
proof -
  let ?e = "(emit_args i ik COST_KIND)\<lparr>em_api_key_id := key, em_actor := who, em_cost_delta := d, em_reason := why\<rparr>"
  obtain k sb where c: "emit_change ?e True s = Inr (t, k, sb)" "cid = Some k"
    using e by (auto simp: emit_cost_def res_simps)
  obtain u r where o: "emit_once ?e s = Inr (u, k, sb, r)"
    using c(1) by (auto simp: emit_change_def res_simps split: if_splits)
  have r: "\<not> r"
    using o fresh by (cases rule: emit_once_cases) (auto dest: find_change_ids)
  have t: "cascade_dependency_changed i ik k None u = Inr t"
    using c(1) o r by (auto simp: emit_change_def res_simps emit_args_def COST_KIND_def non_propagating_def)
  have "cost_at t j = cost_at u j" using t unfolding cascade_dependency_changed_def by (rule cascade_loop_free)
  also have "\<dots> = map_option (\<lambda>c. if j = i then c + d else c) (cost_at s j)"
  proof -
    have "emit_once ?e s = Inr (u, k, sb, False)" using o r by simp
    moreover have "em_marginal_cost ?e = 0" "em_cost_delta ?e = d" "em_subject_id ?e = i"
      by (simp_all add: emit_args_def)
    ultimately show ?thesis using emit_once_cost [of ?e s u k sb j] by (simp only: add_0)
  qed
  finally show "cost_at t j = map_option (\<lambda>c. if j = i then c + d else c) (cost_at s j)" .
  obtain x where x: "change_log u = change_log s @ [x]" "change_of k ?e sb x"
    using o r by (cases rule: emit_once_cases) auto
  have "prefix (change_log u) (change_log t)" using cascade_emitted [OF t] by (simp add: emitted_def wrote_def)
  then obtain cs where "change_log t = change_log s @ x # cs" using x by (auto simp: prefix_def)
  moreover have "client_change_id s = Some k' \<longrightarrow> k = k'" for k'
    using o by (auto simp: emit_once_def consume_client_change_id_def split: sum.splits if_splits option.splits)
  ultimately show "\<exists>c cs k. cid = Some k \<and> change_log t = change_log s @ c # cs \<and> change_id c = k \<and> actor c = who
       \<and> subject_id c = i \<and> change_kind c = COST_KIND \<and> (\<forall>k'. client_change_id s = Some k' \<longrightarrow> k = k')"
    using c(2) x(2) by (intro exI [of _ x] exI [of _ cs] exI [of _ k]) (simp add: change_of_def emit_args_def)
qed

lemma find_append: "List.find P xs = Some x \<Longrightarrow> List.find P (xs @ ys) = Some x"
  by (induction xs) auto

lemma find_snoc_fresh: "k \<notin> change_id ` set cs \<Longrightarrow> List.find (\<lambda>c. change_id c = k) (cs @ c # ds)
    = (if change_id c = k then Some c else List.find (\<lambda>c. change_id c = k) ds)"
  by (induction cs) auto

lemma charged_key_replays:
  assumes a: "add_cost_on_conn i d key who why (s\<lparr>client_change_id := Some k\<rparr>) = Inr (t, Some cid)"
    and fresh: "k \<notin> change_ids s" and later: "prefix (change_log t) (change_log u)"
  shows "cid = k \<and> add_cost_on_conn i d' key' who why' (u\<lparr>client_change_id := Some k\<rparr>) = Inr (u\<lparr>client_change_id := None\<rparr>, Some k)"
proof -
  let ?s = "s\<lparr>client_change_id := Some k\<rparr>"
  from a obtain r :: inquiry where e: "emit_cost i (iq_kind r) d key who why ?s = Inr (t, Some cid)"
  proof (cases rule: add_cost_cases)
    case (replay k')
    from replay(1) show ?thesis
      by (cases rule: replay_cases) (use fresh in \<open>auto dest: find_change_ids\<close>)
  qed auto
  have fr: "\<forall>k'. client_change_id ?s = Some k' \<longrightarrow> k' \<notin> change_ids ?s" using fresh by simp
  from emit_cost_effect(2) [OF e fr] obtain c cs where c: "cid = k" "change_log t = change_log s @ c # cs"
    "change_id c = k" "actor c = who" "subject_id c = i" "change_kind c = COST_KIND" by auto
  obtain ds where u: "change_log u = change_log s @ c # (cs @ ds)" using later c(2) by (auto simp: prefix_def)
  have "find_change k u = Some c"
    using fresh c(3) by (simp add: find_change_def u find_snoc_fresh change_ids_def)
  then have "find_change k (u\<lparr>client_change_id := Some k\<rparr>) = Some c" by (simp add: find_change_def)
  then show ?thesis
    using c by (simp add: add_cost_on_conn_def replay_field_change_def peek_client_change_id_def consume_client_change_id_def)
qed

end
