(* ===== verification/Graph_Claims.thy ===== *)
theory Graph_Claims
  imports Graph_Properties
begin

text \<open>
  The properties of the graph store, each with a witness on a small store: five
  inquiries, with or without three edges between them.
\<close>

definition demo_columns :: "column \<Rightarrow> cval option" where
  "demo_columns = [Title \<mapsto> VStr ''a title'', Account \<mapsto> VStr ''me'', Status \<mapsto> VStr ''active'']"

definition demo_row :: "inquiry_kind \<Rightarrow> nat \<Rightarrow> inquiry" where
  "demo_row k c = \<lparr>iq_kind = k, iq_seq = c, iq_created = c, iq_modified = 0, iq_locked = False, iq_cost = 0,
     iq_columns = demo_columns\<rparr>"

lemma demo_row_unowned [simp]: "iq_columns r = demo_columns \<Longrightarrow> iq_owner r = None"
  by (simp add: iq_owner_def demo_columns_def)

definition demo_edge :: "uuid \<Rightarrow> inquiry_kind \<Rightarrow> uuid \<Rightarrow> inquiry_kind \<Rightarrow> edge_kind \<Rightarrow> pyfloat option \<Rightarrow> edge" where
  "demo_edge f fk t tk k v = \<lparr>from_id = f, from_kind = fk, to_id = t, to_kind = tk, edge_kind = k,
     e_priority = None, e_note = None, e_valence = v, e_labels = None\<rparr>"

definition no_rows :: store where
  "no_rows = \<lparr>inquiries = (\<lambda>i. None), iq_ids = [], sequences = (\<lambda>k. 0), edges = [], change_log = [], client_change_id = None, buffer = [],
     published = [], clock = 0\<rparr>"

definition demo_store :: store where
  "demo_store = no_rows\<lparr>inquiries := [1 \<mapsto> demo_row Issue 10, 2 \<mapsto> demo_row Issue 20, 5 \<mapsto> demo_row Issue 25,
     3 \<mapsto> demo_row Belief 30, 4 \<mapsto> demo_row Paper 40], iq_ids := [1, 2, 5, 3, 4], sequences := (\<lambda>k. 40)\<rparr>"

definition demo_graph :: store where
  "demo_graph = demo_store\<lparr>edges := [demo_edge 2 Issue 1 Issue Narrows None, demo_edge 5 Issue 2 Issue Requires None,
     demo_edge 4 Paper 3 Belief Proves (Some (Fin (1 / 2)))]\<rparr>"

lemma demo_costs: "log_ok s \<and> costs_ok s" if "change_log s = []" "inquiries s = inquiries demo_store"
  using that by (simp add: log_ok_def costs_ok_def demo_store_def demo_row_def spent_def)

lemma demo_store_ok: "store_ok demo_store"
  using demo_costs [of demo_store] by (simp add: store_ok_def demo_store_def no_rows_def edges_ok_def edge_rel_def acyclic_def)

lemma descending_acyclic: "r \<subseteq> {(a, b). (b::nat) < a} \<Longrightarrow> acyclic r"
proof -
  have "{(a, b). (b::nat) < a} = less_than\<inverse>" by auto
  then have "acyclic {(a, b). (b::nat) < a}" by (metis acyclic_converse wf_acyclic wf_less_than)
  then show "r \<subseteq> {(a, b). (b::nat) < a} \<Longrightarrow> acyclic r" by (rule acyclic_subset)
qed

lemma demo_graph_ok: "store_ok demo_graph"
proof -
  have "edges_ok demo_graph"
    unfolding edges_ok_def
  proof (intro conjI allI impI)
    show "distinct (map edge_key (edges demo_graph))" by code_simp
    show "\<forall>e \<in> set (edges demo_graph). edge_ok demo_graph e" by code_simp
    show "acyclic (edge_rel (edges demo_graph) k)" for k
      by (rule descending_acyclic) (auto simp: edge_rel_def demo_graph_def demo_edge_def)
  qed
  moreover have "log_ok demo_graph \<and> costs_ok demo_graph"
    by (rule demo_costs) (simp_all add: demo_graph_def demo_store_def no_rows_def)
  ultimately show ?thesis by (simp add: store_ok_def)
qed

lemma demo_slot [simp]: "client_change_id demo_store = None" "client_change_id demo_graph = None"
  by (simp_all add: demo_graph_def demo_store_def no_rows_def)

section \<open>The store as a whole\<close>

text \<open>Every store reached from empty tables by the store's operations has well-formed edges
  (unique keys, live endpoints of admitted kinds, canonical annotations, a valence on every citation,
  no cycle within a kind), a consistent change log and running costs equal to the log's sums; and from
  any such store on, the change log only grows.\<close>

theorem graph_reachable_ok:
  assumes "empty_store s" "rtranclp graph_step s t" "rtranclp graph_step t u"
  shows "store_ok u \<and> prefix (change_log t) (change_log u)"
  using graph.reachable_inv [OF assms(1,2)] graph.run_keeps [OF assms(3)] graph.trail_grows [OF assms(3)] by blast

theorem graph_reachable_ok_witness:
  "store_ok (fst (transaction (submit_row 1 Issue None None demo_columns (Cost 2 0) None ''me'') no_rows))"
proof -
  have "empty_store no_rows" by (simp add: empty_store_def no_rows_def)
  moreover have "graph_step no_rows (fst (transaction (submit_row 1 Issue None None demo_columns (Cost 2 0) None ''me'') no_rows))"
    by (rule graph_step.submitted) (simp add: never_used_def no_rows_def)
  ultimately show ?thesis using graph_reachable_ok by blast
qed

text \<open>C17: an emission that may propagate fires one \<open>dependency_changed\<close> alert for every edge whose
  non-dependent endpoint is affected by the changed inquiry, and nothing else: an inquiry is affected when
  a path of dependencies leads to it. The walk always ends and never fails.\<close>

theorem emission_alerts_affected:
  assumes "store_ok s" "emit_once e s = Inr (u, cid, subs, False)" "\<not> non_propagating (em_kind e)"
  shows "\<exists>t c cs. emit_change e True s = Inr (t, cid, subs) \<and> change_log t = change_log s @ c # cs
    \<and> change_of cid e subs c \<and> (\<forall>a \<in> set cs. is_alert a)
    \<and> mset (map alert_key cs)
      = mset (map alert_of (filter (\<lambda>x. other_id x \<in> affected (em_subject_id e) (edges s)) (edges s)))"
  by (rule emit_cascades [OF assms])

theorem emission_alerts_affected_witness:
  "\<exists>(t :: store) c cs. change_log t = change_log demo_graph @ c # cs \<and> (\<forall>a \<in> set cs. is_alert a)
    \<and> mset (map alert_key cs) = mset (map alert_of
        (filter (\<lambda>x. other_id x \<in> affected 4 (edges demo_graph)) (edges demo_graph)))"
proof -
  let ?e = "emit_args 4 Paper (FieldEdited Description)"
  obtain t cid subs r where o: "emit_once ?e demo_graph = Inr (t, cid, subs, r)"
    using emit_quiet_total [OF demo_slot(2) store_okD(1) [OF demo_graph_ok], of ?e] mirror_check_edit [of Description Paper None None]
    by (auto simp: emit_args_def carries_peer_def column_applies_def CHANGE_LOG_COLUMN_ORDER_def
        ColumnSpec_def emit_quiet_once)
  have "\<not> r" using o by (cases rule: emit_once_cases) auto
  with o have f: "emit_once ?e demo_graph = Inr (t, cid, subs, False)" by simp
  have np: "\<not> non_propagating (em_kind ?e)" and i: "em_subject_id ?e = 4"
    by (simp_all add: non_propagating_def emit_args_def)
  show ?thesis using emission_alerts_affected [OF demo_graph_ok f np, unfolded i]
    by (elim exE conjE) (intro exI conjI, assumption+)
qed

section \<open>Creating edges\<close>




text \<open>A created edge is stored with its normalized annotations, and provenance is inferred exactly
  when the pair had none and a structural kind joins it: then one \<open>produced_by\<close> edge is added, from
  the younger inquiry of the pair to the older one.\<close>

theorem add_edge_infers_provenance:
  assumes "add_edge_on_conn f t k p n v ls why caused c key who s = Inr (s', cid, True)"
  shows "\<exists>e. edge_key e = (f, t, k) \<and> e_priority e = p \<and> e_note e = empty_str_to_none n
    \<and> validate_edge_valence k v = Inr (e_valence e) \<and> e_labels e = empty_list_to_none (canonical_strs ls)
    \<and> (edges s' = edges s @ [e] \<and> (has_provenance f t s \<or> k = ProducedBy
          \<or> set (k # pair_kinds f t (edges s)) \<subseteq> {CitesPaper, Proves, Favors})
       \<or> (\<exists>e'. edges s' = edges s @ [e, e'] \<and> edge_kind e' = ProducedBy \<and> \<not> has_provenance f t s
            \<and> \<not> set (k # pair_kinds f t (edges s)) \<subseteq> {CitesPaper, Proves, Favors}
            \<and> ((from_id e', to_id e') = (f, t) \<or> (from_id e', to_id e') = (t, f))
            \<and> older_than s (to_id e') (from_id e')))"
  by (rule created_provenance [OF assms])

lemma demo_added:
  "case add_edge_on_conn 2 1 Narrows None [] None [] [] None True None ''me'' demo_store of
     Inr (s', cid, created) \<Rightarrow> created \<and> edge_kind (edges s' ! 1) = ProducedBy | Inl e \<Rightarrow> False"
  by code_simp

theorem add_edge_infers_provenance_witness:
  "\<exists>(s' :: store) (e :: edge) (e' :: edge). edges s' = [e, e'] \<and> edge_key e = (2, 1, Narrows) \<and> edge_key e' = (2, 1, ProducedBy)"
proof -
  obtain s' cid where a: "add_edge_on_conn 2 1 Narrows None [] None [] [] None True None ''me'' demo_store
      = Inr (s', cid, True)"
    using demo_added by (auto split: sum.splits)
  have n: "edges demo_store = []" "\<not> has_provenance 2 1 demo_store"
    by (simp_all add: demo_store_def no_rows_def has_provenance_def)
  have o: "\<not> older_than demo_store 2 1"
    by (simp add: older_than_def demo_store_def no_rows_def demo_row_def)
  have "\<not> set (Narrows # pair_kinds 2 1 (edges demo_store)) \<subseteq> {CitesPaper, Proves, Favors}" by simp
  with add_edge_infers_provenance [OF a] n obtain e e' :: edge where "edges s' = [e, e']" "edge_key e = (2, 1, Narrows)"
    "edge_kind e' = ProducedBy" "(from_id e', to_id e') = (2, 1) \<or> (from_id e', to_id e') = (1, 2)"
    "older_than demo_store (to_id e') (from_id e')"
    by (metis append_Nil edge_kind.distinct(3))
  with o show ?thesis
    by (intro exI [of _ s'] exI [of _ e] exI [of _ e']) (auto simp: edge_key_def)
qed

text \<open>Creation is idempotent: repeating a creation that inserted the edge changes nothing at all,
  whatever the reason and the author of the retry, and reports that nothing was created.\<close>

theorem add_edge_idempotent:
  assumes "add_edge_on_conn f t k p n v ls why caused c key who s = Inr (s', cid, True)" "store_ok s"
  shows "add_edge_on_conn f t k p n v ls why' caused' c' key' who' s' = Inr (s', None, False)"
  by (rule add_edge_again [OF assms])

theorem add_edge_idempotent_witness:
  "\<exists>s'. edges s' \<noteq> [] \<and> add_edge_on_conn 2 1 Narrows None [] None [] ''again'' None True None ''you'' s'
     = Inr (s', None, False)"
proof -
  obtain s' cid where a: "add_edge_on_conn 2 1 Narrows None [] None [] [] None True None ''me'' demo_store
      = Inr (s', cid, True)"
    using demo_added by (auto split: sum.splits)
  have "edges s' \<noteq> []" using created_provenance [OF a] by auto
  with add_edge_idempotent [OF a demo_store_ok] show ?thesis by blast
qed

end
