(* ===== verification/Graph_Claims2.thy ===== *)
theory Graph_Claims2
  imports Graph_Claims
begin

text \<open>
  More properties of the graph store: deletion, the cost edits, publication, labels, and
  three behaviours in which the code and its documentation differ.
\<close>

section \<open>Deletion\<close>

text \<open>On a well-formed store a purge succeeds exactly when the inquiry exists, has no owner and is
  not an access group: auditing it, alerting its dependents and auditing its lost edges never fail.\<close>

theorem purge_succeeds_iff:
  assumes "store_ok s" "client_change_id s = None"
  shows "(\<exists>r. purge_on_conn target key who why s = Inr r)
    \<longleftrightarrow> (\<exists>r :: inquiry. inquiries s target = Some r \<and> iq_owner r = None \<and> iq_kind r \<noteq> AccessGroup)"
  by (rule purge_iff [OF assms])

theorem purge_succeeds_iff_witness:
  "(\<exists>r. purge_on_conn 2 None ''me'' [] demo_graph = Inr r) \<and> \<not> (\<exists>r. purge_on_conn 9 None ''me'' [] demo_graph = Inr r)"
  unfolding purge_succeeds_iff [OF demo_graph_ok demo_slot(2)]
  by (simp add: demo_graph_def demo_store_def no_rows_def demo_row_def)

text \<open>C22: a purge removes the inquiry's row and exactly the edges that touch it, leaves every other
  inquiry's kind, age, owner and subscribers as they were, only adds to the change log, and keeps the
  store well formed: no edge is left dangling.\<close>

theorem purge_effect:
  assumes "purge_on_conn target key who why s = Inr (s', cid)" "store_ok s"
  shows "store_ok s' \<and> inquiries s' target = None \<and> edges s' = filter (\<lambda>e. \<not> touches target e) (edges s)
    \<and> (\<forall>i. i \<noteq> target \<longrightarrow> map_option iq_static (inquiries s' i) = map_option iq_static (inquiries s i))
    \<and> prefix (change_log s) (change_log s')"
  using purge_store_ok [OF assms] by blast

theorem purge_effect_witness:
  "\<exists>s' :: store. store_ok s' \<and> inquiries s' 2 = None
    \<and> edges s' = [demo_edge 4 Paper 3 Belief Proves (Some (Fin (1 / 2)))]"
proof -
  have "\<exists>r :: inquiry. inquiries demo_graph 2 = Some r \<and> iq_owner r = None \<and> iq_kind r \<noteq> AccessGroup"
    by (simp add: demo_graph_def demo_store_def no_rows_def demo_row_def)
  then obtain s' cid where p: "purge_on_conn 2 None ''me'' [] demo_graph = Inr (s', cid)"
    using purge_iff [OF demo_graph_ok demo_slot(2)] by (metis surj_pair)
  have "filter (\<lambda>e. \<not> touches 2 e) (edges demo_graph) = [demo_edge 4 Paper 3 Belief Proves (Some (Fin (1 / 2)))]"
    by (simp add: demo_graph_def touches_def demo_edge_def)
  with purge_effect [OF p demo_graph_ok] show ?thesis by (intro exI [of _ s']) simp
qed

text \<open>Removing an edge deletes that row and no other; its two endpoints get an \<open>edge_removed\<close> row
  each, the second caused by the first, and between them every inquiry affected by the removal is alerted,
  along the edges as they were before the deletion for the removed edge's from side.\<close>

theorem remove_edge_effect:
  assumes "remove_edge_on_conn f t k why key who s = Inr (s', Some cause)" "store_ok s" "client_change_id s = None"
  shows "edges s' = filter (\<lambda>e. edge_key e \<noteq> (f, t, k)) (edges s)
    \<and> (\<exists>c1 cs c2. change_log s' = change_log s @ c1 # cs @ [c2] \<and> subject_id c1 = f \<and> subject_id c2 = t
         \<and> caused_by c2 = Some (change_id c1) \<and> (\<forall>c \<in> set cs. is_alert c)
         \<and> mset (map alert_key cs) = mset (map alert_of (filter (\<lambda>e. other_id e \<in>
             affected f (walk_edges f (Some (edges_touching f s)) (delete_edge_row f t k s)))
           (walk_edges f (Some (edges_touching f s)) (delete_edge_row f t k s)))))"
proof -
  obtain row cs c1 c2 where r: "find_edge f t k s = Some row" "change_log s' = change_log s @ c1 # cs @ [c2]"
    "\<forall>c \<in> set cs. is_alert c"
    "mset (map alert_key cs) = mset (map alert_of (filter (\<lambda>e. other_id e \<in>
        affected f (walk_edges f (Some (edges_touching f s)) (delete_edge_row f t k s)))
      (walk_edges f (Some (edges_touching f s)) (delete_edge_row f t k s))))"
    "subject_id c1 = f" "subject_id c2 = t" "change_id c1 = cause" "caused_by c2 = Some cause"
    by (rule remove_alerts [OF assms])
  show ?thesis
    using r remove_edge_advances(2) [OF assms(1)]
    by (intro conjI exI [of _ c1] exI [of _ cs] exI [of _ c2]) simp_all
qed

lemma demo_removed:
  "case remove_edge_on_conn 2 1 Narrows [] None ''me'' demo_graph of
     Inr (s', Some cid) \<Rightarrow> map change_kind (change_log s') = [EdgeRemoved, DependencyChanged, DependencyChanged, EdgeRemoved]
   | _ \<Rightarrow> False"
  by code_simp

theorem remove_edge_effect_witness:
  "\<exists>(s' :: store). length (edges s') = 2 \<and> (\<exists>c1 cs c2. change_log s' = c1 # cs @ [c2] \<and> subject_id c1 = 2 \<and> subject_id c2 = 1)"
proof -
  obtain s' cid where r: "remove_edge_on_conn 2 1 Narrows [] None ''me'' demo_graph = Inr (s', Some cid)"
    using demo_removed by (auto split: sum.splits option.splits)
  have n: "change_log demo_graph = []" by (simp add: demo_graph_def demo_store_def no_rows_def)
  have "length (filter (\<lambda>e. edge_key e \<noteq> (2, 1, Narrows)) (edges demo_graph)) = 2" by code_simp
  then show ?thesis
    using remove_edge_effect [OF r demo_graph_ok demo_slot(2)] unfolding n append_Nil by (intro exI [of _ s']) auto
qed

section \<open>Costs and publication\<close>

text \<open>A charge made under an idempotency key happens once: repeating it under the same key, at any
  later point and even with another amount, consumes the key, returns the first change and changes
  neither the costs nor the log.\<close>

theorem add_cost_exactly_once:
  assumes "add_cost_on_conn i d key who why (s\<lparr>client_change_id := Some k\<rparr>) = Inr (t, Some cid)"
    and "k \<notin> change_ids s" and "prefix (change_log t) (change_log u)"
  shows "cid = k \<and> add_cost_on_conn i d' key' who why' (u\<lparr>client_change_id := Some k\<rparr>)
    = Inr (u\<lparr>client_change_id := None\<rparr>, Some k)"
  by (rule charged_key_replays [OF assms])

theorem add_cost_exactly_once_witness:
  "\<exists>t :: store. cost_at t 1 = Some (Cost 3 1)
    \<and> add_cost_on_conn 1 (Cost (-9) 0) None ''me'' [] (t\<lparr>client_change_id := Some 7\<rparr>)
      = Inr (t\<lparr>client_change_id := None\<rparr>, Some 7)"
proof -
  have c: "case add_cost_on_conn 1 (Cost 3 1) None ''me'' [] (demo_store\<lparr>client_change_id := Some 7\<rparr>) of
      Inr (t, Some cid) \<Rightarrow> cost_at t 1 = Some (Cost 3 1) | _ \<Rightarrow> False"
    by code_simp
  then obtain t cid where t: "add_cost_on_conn 1 (Cost 3 1) None ''me'' [] (demo_store\<lparr>client_change_id := Some 7\<rparr>)
      = Inr (t, Some cid)" "cost_at t 1 = Some (Cost 3 1)"
    by (auto split: sum.splits option.splits)
  have "7 \<notin> change_ids demo_store" by (simp add: change_ids_def demo_store_def no_rows_def)
  from add_cost_exactly_once [OF t(1) this prefix_order.refl] t(2) show ?thesis by blast
qed

text \<open>Overwriting one axis of a cost leaves exactly that value there, and the other axis and every
  other inquiry's cost as they were; a value that is negative, infinite or not a number is never stored.\<close>

theorem set_cost_axis_sets:
  assumes "set_cost_axis_on_conn i ax v key who why s = Inr (t, cid)" "client_change_id s = None"
  shows "\<exists>x c c'. v = Fin x \<and> 0 \<le> x \<and> cost_at s i = Some c \<and> cost_at t i = Some c' \<and> axis_of ax c' = x
    \<and> (\<forall>bx. bx \<noteq> ax \<longrightarrow> axis_of bx c' = axis_of bx c) \<and> (\<forall>j. j \<noteq> i \<longrightarrow> cost_at t j = cost_at s j)"
  using assms(1)
proof (cases rule: set_cost_cases)
  case (replay k)
  from replay(1) show ?thesis by (cases rule: replay_cases) (use assms(2) in auto)
next
  case (same r)
  then show ?thesis by (auto simp: cost_at_def)
next
  case (changed r d)
  have eff: "cost_at t j = map_option (\<lambda>c. if j = i then c + d else c) (cost_at s j)" for j
    using emit_cost_effect(1) [OF changed(5)] assms(2) by simp
  obtain x where x: "v = Fin x" "axis_of ax d = x - axis_of ax (iq_cost r)" "\<forall>bx. bx \<noteq> ax \<longrightarrow> axis_of bx d = 0"
  proof -
    have "\<forall>bx. bx \<noteq> ax \<longrightarrow> axis_of bx d = 0" using changed(4)
      by (intro allI, rename_tac bx, case_tac bx; cases ax; cases v) (auto simp: make_cost_def)
    moreover have "\<exists>x. v = Fin x \<and> axis_of ax d = x - axis_of ax (iq_cost r)"
      using changed(4) by (cases ax; cases v) (auto simp: make_cost_def)
    ultimately show ?thesis using that by blast
  qed
  have add: "axis_of bx (c + c') = axis_of bx c + axis_of bx c'" for bx c c' by (cases bx) simp_all
  show ?thesis
    by (intro exI [of _ x] exI [of _ "iq_cost r"] exI [of _ "iq_cost r + d"])
      (use changed(1,2) x eff in \<open>auto simp: cost_at_def add option.map_ident\<close>)
qed

theorem set_cost_axis_sets_witness:
  "\<exists>t :: store. \<exists>c. cost_at t 1 = Some c \<and> resource_usd c = 5 / 2 \<and> agent_usd c = 0"
proof -
  have c: "case set_cost_axis_on_conn 1 ResourceUsd (Fin (5 / 2)) None ''me'' [] demo_store of
      Inr (t, cid) \<Rightarrow> True | _ \<Rightarrow> False"
    by code_simp
  then obtain t cid where t: "set_cost_axis_on_conn 1 ResourceUsd (Fin (5 / 2)) None ''me'' [] demo_store = Inr (t, cid)"
    by (auto split: sum.splits)
  have "cost_at demo_store 1 = Some 0" by (simp add: cost_at_def demo_store_def no_rows_def demo_row_def)
  with set_cost_axis_sets [OF t demo_slot(1)] have "\<exists>c. cost_at t 1 = Some c \<and> axis_of ResourceUsd c = 5 / 2
      \<and> axis_of AgentUsd c = axis_of AgentUsd 0" by auto
  then show ?thesis by auto
qed

text \<open>A request that creates an edge either fails and changes no table, no queue and no publication,
  or commits and publishes exactly one notification for each change row it wrote, in the order of the rows.\<close>

theorem add_edge_publishes:
  assumes "store_ok s"
  shows "case add_edge f t k p n v ls why key who s of
      (s', Inl err) \<Rightarrow> s' = s
    | (s', Inr r) \<Rightarrow> \<exists>cs. change_log s' = change_log s @ cs \<and> published s' = published s @ map subject_id cs \<and> buffer s' = []"
  unfolding add_edge_def
proof (rule transaction_cases)
  fix e
  let ?f = "\<lambda>s. bind_res (add_edge_on_conn f t k p n v ls why None True key who s) (\<lambda>(s', cid, created). Inr (s', cid, created))"
  assume "transaction ?f s = (s, Inl e)"
  then show "case transaction ?f s of (s', Inl err) \<Rightarrow> s' = s | (s', Inr r) \<Rightarrow> \<exists>cs. change_log s' = change_log s @ cs
      \<and> published s' = published s @ map subject_id cs \<and> buffer s' = []" by simp
next
  fix s1 x
  let ?f = "\<lambda>s. bind_res (add_edge_on_conn f t k p n v ls why None True key who s) (\<lambda>(s', cid, created). Inr (s', cid, created))"
  assume f: "?f (s\<lparr>buffer := []\<rparr>) = Inr (s1, x)"
    and tr: "transaction ?f s = (s1\<lparr>published := published s1 @ buffer s1, buffer := []\<rparr>, Inr x)"
  obtain cid created where "add_edge_on_conn f t k p n v ls why None True key who (s\<lparr>buffer := []\<rparr>) = Inr (s1, cid, created)"
    using f by (auto simp: res_simps)
  then have "advances (s\<lparr>buffer := []\<rparr>) s1" by (rule add_edge_infer_advances(1)) (simp add: assms)
  then obtain cs where "change_log s1 = change_log s @ cs" "buffer s1 = map subject_id cs" "published s1 = published s"
    by (auto simp: advances_def mirrored_def)
  with tr show "case transaction ?f s of (s', Inl err) \<Rightarrow> s' = s | (s', Inr r) \<Rightarrow> \<exists>cs. change_log s' = change_log s @ cs
      \<and> published s' = published s @ map subject_id cs \<and> buffer s' = []" by simp
qed

theorem add_edge_publishes_witness:
  "\<exists>(s' :: store) cs. published s' = map subject_id cs \<and> change_log s' = cs \<and> length cs = 5"
proof -
  let ?a = "add_edge 2 1 Narrows None [] None [] [] None ''me'' demo_store"
  have c: "(case snd ?a of Inl e \<Rightarrow> False | Inr r \<Rightarrow> True) \<and> length (change_log (fst ?a)) = 5" by code_simp
  obtain s' r where a: "?a = (s', Inr r)" using c by (cases ?a; cases "snd ?a") auto
  have n: "change_log demo_store = []" "published demo_store = []" by (simp_all add: demo_store_def no_rows_def)
  show ?thesis
    using add_edge_publishes [OF demo_store_ok, of 2 1 Narrows None "[]" None "[]" "[]" None "''me''"] c
    unfolding a by (intro exI [of _ s'] exI [of _ "change_log s'"]) (auto simp: n)
qed

section \<open>Labels\<close>

text \<open>Adding a label that an edge does not have and removing it again, under any padding, gives back
  the edge's labels exactly, their order included; adding one it has changes nothing.\<close>

theorem label_add_remove:
  assumes "case old_labels of None \<Rightarrow> True | Some xs \<Rightarrow> xs \<noteq> [] \<and> canonical xs" "strip raw \<noteq> []"
  shows "if strip raw \<in> set (case old_labels of None \<Rightarrow> [] | Some xs \<Rightarrow> xs)
    then new_labels old_labels ABSENT (Some (raw, True)) = Inr old_labels
    else \<exists>ls. new_labels old_labels ABSENT (Some (raw, True)) = Inr (Some ls)
       \<and> new_labels (Some ls) ABSENT (Some (raw, False)) = Inr old_labels"
proof -
  define cur where "cur = (case old_labels of None \<Rightarrow> [] | Some xs \<Rightarrow> xs)"
  have cur: "canonical cur" "empty_list_to_none cur = old_labels"
    using assms(1) by (auto simp: cur_def empty_list_to_none_def split: option.splits)
  have l: "canonical_strs [raw] = [strip raw]"
    using assms(2) by (simp add: canonical_strs_def)
  show ?thesis
  proof (cases "strip raw \<in> set cur")
    case True
    have "new_labels old_labels ABSENT (Some (raw, True)) = Inr old_labels"
      unfolding new_labels_def by (simp add: l cur_def [symmetric] True cur canonical_strs_fixed)
    with True show ?thesis unfolding cur_def [symmetric] by simp
  next
    case False
    have snoc: "canonical (cur @ [strip raw])" using canonical_snoc [OF cur(1) False assms(2)] by simp
    have f: "filter (\<lambda>x. x \<noteq> strip raw) cur = cur" using False by (intro filter_True) auto
    have a: "new_labels old_labels ABSENT (Some (raw, True)) = Inr (Some (cur @ [strip raw]))"
      unfolding new_labels_def by (simp add: l cur_def [symmetric] False canonical_strs_fixed [OF snoc] empty_list_to_none_def)
    have "new_labels (Some (cur @ [strip raw])) ABSENT (Some (raw, False)) = Inr old_labels"
      unfolding new_labels_def by (simp add: l f cur canonical_strs_fixed)
    with a False show ?thesis unfolding cur_def [symmetric] by simp
  qed
qed

theorem label_add_remove_witness:
  "\<exists>ls. new_labels (Some [''b'', ''a'']) ABSENT (Some ('' c '', True)) = Inr (Some ls)
     \<and> new_labels (Some ls) ABSENT (Some ('' c '', False)) = Inr (Some [''b'', ''a''])"
proof -
  have "strip '' c '' \<notin> {''a'', ''b''}" "strip '' c '' \<noteq> []" "canonical [''b'', ''a'']" by code_simp+
  with label_add_remove [of "Some [''b'', ''a'']" "'' c ''"] show ?thesis by auto
qed

section \<open>Where the code and its documentation differ\<close>

text \<open>A citation as the first edge between two inquiries infers no provenance, although
  \<open>infer_produced_endpoints\<close> documents that a first edge of any kind does.\<close>

theorem first_citation_infers_nothing:
  "infer_produced_endpoints 4 3 (demo_store\<lparr>edges := [demo_edge 4 Paper 3 Belief Proves (Some (Fin (1 / 2)))]\<rparr>) = Inr None
   \<and> (\<exists>w. infer_produced_endpoints 2 1 (demo_store\<lparr>edges := [demo_edge 2 Issue 1 Issue Narrows None]\<rparr>) = Inr (Some (1, 2, w)))"
proof -
  have "infer_produced_endpoints 4 3 (demo_store\<lparr>edges := [demo_edge 4 Paper 3 Belief Proves (Some (Fin (1 / 2)))]\<rparr>) = Inr None"
    by code_simp
  moreover have "infer_produced_endpoints 2 1 (demo_store\<lparr>edges := [demo_edge 2 Issue 1 Issue Narrows None]\<rparr>)
      = Inr (Some (1, 2, Narrows))"
    by code_simp
  ultimately show ?thesis by blast
qed

text \<open>A citation created without a valence is stored with the default, while both of its audit rows
  record that it has none, although the code says that the audit matches what the row stored.\<close>

theorem audit_misses_default_valence:
  "case add_edge_on_conn 4 3 Proves None [] None [] [] None True None ''me'' demo_store of
     Inr (s', r) \<Rightarrow> map e_valence (edges s') = [Some CITATION_VALENCE_DEFAULT]
       \<and> map (\<lambda>c. edge_valence (new c)) (filter (\<lambda>c. change_kind c = EdgeAdded) (change_log s')) = [None, None]
   | Inl e \<Rightarrow> False"
  by code_simp


end
