(* ===== verification/Byte_Stream.thy ===== *)
theory Byte_Stream
  imports Prelude "HOL-Library.Word"
begin

text \<open>
  Bytes: the big-endian \<open>int.to_bytes\<close> and \<open>int.from_bytes\<close> of the wire formats, and
  \<open>lib/posix/ring.py\<close>, the tail of a byte stream addressed by absolute offset. The
  lemmas of the ring relate it to the whole stream: it keeps the last bytes, and what
  \<open>since\<close> returns is the stream from the offset it names.
\<close>

type_synonym byte = "8 word"
type_synonym bytes = "byte list"

section \<open>Big-endian integers\<close>

primrec be_bytes :: "nat \<Rightarrow> nat \<Rightarrow> bytes" where
  "be_bytes 0 n = []"
| "be_bytes (Suc k) n = of_nat (n div 256 ^ k) # be_bytes k n"

definition to_bytes :: "int \<Rightarrow> nat \<Rightarrow> bytes res" where
  "to_bytes i k = (if 0 \<le> i \<and> i < 256 ^ k then Inr (be_bytes k (nat i)) else Inl OverflowError)"

definition from_bytes :: "bytes \<Rightarrow> int" where
  "from_bytes b = foldl (\<lambda>n x. 256 * n + uint x) 0 b"

lemma length_be_bytes [simp]: "length (be_bytes k n) = k"
  by (induction k) simp_all

lemma from_bytes_Nil [simp]: "from_bytes [] = 0"
  by (simp add: from_bytes_def)

lemma foldl_bytes:
  "foldl (\<lambda>n x. 256 * n + uint (x :: byte)) a b = a * 256 ^ length b + foldl (\<lambda>n x. 256 * n + uint x) 0 b"
proof (induction b arbitrary: a)
  case (Cons x b)
  show ?case
    using Cons [of "256 * a + uint x"] Cons [of "uint x"] by (simp add: algebra_simps)
qed simp

lemma from_bytes_Cons: "from_bytes (x # b) = uint x * 256 ^ length b + from_bytes b"
  by (simp add: from_bytes_def foldl_bytes [of "uint x"])

lemma uint_byte: "0 \<le> uint (x :: byte) \<and> uint x < 256"
  using uint_lt2p [of x] by simp

lemma from_bytes_bounds: "0 \<le> from_bytes b \<and> from_bytes b < 256 ^ length b"
proof (induction b)
  case (Cons x b)
  have "uint x * 256 ^ length b \<le> 255 * 256 ^ length b"
    using uint_byte [of x] by (intro mult_right_mono) simp_all
  then have "uint x * 256 ^ length b + from_bytes b < 256 * 256 ^ length b"
    using Cons by linarith
  with Cons uint_byte [of x] show ?case by (simp only: from_bytes_Cons) simp
qed simp

lemma from_be_bytes: "from_bytes (be_bytes k n) = int n mod 256 ^ k"
proof (induction k)
  case (Suc k)
  have u: "uint (of_nat m :: byte) = int m mod 256" for m
    by (simp add: uint_word_of_int take_bit_eq_mod unsigned_of_nat zmod_int)
  have "int n mod 256 ^ Suc k = (int n div 256 ^ k mod 256) * 256 ^ k + int n mod 256 ^ k"
    using mod_mult2_eq' [of "int n" "256 ^ k" 256] by (simp add: mult.commute algebra_simps)
  then show ?case by (simp add: from_bytes_Cons Suc u zdiv_int)
qed simp

lemma be_bytes_mod: "be_bytes k (m * 256 ^ k + n) = be_bytes k n"
proof -
  have "be_bytes j (m * 256 ^ k + n) = be_bytes j n" if "j \<le> k" for j
    using that
  proof (induction j)
    case (Suc j)
    have "(256 :: nat) ^ k = 256 ^ j * 256 * 256 ^ (k - Suc j)"
      using Suc(2) by (metis mult.assoc power_Suc2 power_add le_add_diff_inverse)
    then have "(m * 256 ^ k + n) div 256 ^ j = m * 256 ^ (k - Suc j) * 256 + n div 256 ^ j"
      using div_mult_self1 [of "256 ^ j" n "m * 256 ^ (k - Suc j) * 256"] by (simp add: ac_simps)
    moreover have "(256 :: byte) = 0" by simp
    then have "(of_nat (m * 256 ^ (k - Suc j) * 256 + y) :: byte) = of_nat y" for y
      by (simp only: of_nat_add of_nat_mult of_nat_numeral) simp
    ultimately show ?case using Suc by (simp only: be_bytes.simps)
  qed simp
  then show ?thesis by simp
qed

lemma be_from_bytes: "be_bytes (length b) (nat (from_bytes b)) = b"
proof (induction b)
  case (Cons x b)
  let ?k = "length b" and ?r = "nat (from_bytes b)"
  have r: "?r < 256 ^ ?k" using from_bytes_bounds [of b]
    by (metis nat_less_iff of_nat_numeral of_nat_power)
  have n: "nat (from_bytes (x # b)) = unat x * 256 ^ ?k + ?r"
    using from_bytes_bounds [of b]
    by (simp add: from_bytes_Cons nat_add_distrib nat_mult_distrib nat_power_eq)
  have "(unat x * 256 ^ ?k + ?r) div 256 ^ ?k = unat x" using r by simp
  then show ?case using Cons by (simp add: n be_bytes_mod)
qed simp

lemma from_to_bytes: "to_bytes i k = Inr b \<Longrightarrow> from_bytes b = i \<and> length b = k"
  by (auto simp: to_bytes_def from_be_bytes split: if_splits)

lemma to_from_bytes [simp]: "to_bytes (from_bytes b) (length b) = Inr b"
  using from_bytes_bounds [of b] by (simp add: to_bytes_def be_from_bytes)

lemma to_bytes_ok: "0 \<le> i \<Longrightarrow> i < 256 ^ k \<Longrightarrow> \<exists>b. to_bytes i k = Inr b \<and> length b = k \<and> from_bytes b = i"
  by (auto simp: to_bytes_def from_be_bytes)

section \<open>The ring\<close>

record ring =
  capacity :: int
  data :: bytes
  ring_end :: int

definition Ring :: "int \<Rightarrow> ring" where
  "Ring c = \<lparr>capacity = c, data = [], ring_end = 0\<rparr>"

definition ring_start :: "ring \<Rightarrow> int" where
  "ring_start r = ring_end r - int (length (data r))"

definition ring_append :: "bytes \<Rightarrow> ring \<Rightarrow> ring" where
  "ring_append b r =
     (let d = data r @ b in
      r\<lparr>data := drop (nat (max 0 (int (length d) - capacity r))) d,
        ring_end := ring_end r + int (length b)\<rparr>)"

definition ring_reset :: "int \<Rightarrow> ring \<Rightarrow> ring" where
  "ring_reset offset r = r\<lparr>data := [], ring_end := offset\<rparr>"

definition since :: "int \<Rightarrow> ring \<Rightarrow> bytes \<times> int \<times> bool" where
  "since offset r =
     (let o1 = min offset (ring_end r);
          lost = o1 < ring_start r;
          o2 = max o1 (ring_start r)
      in (drop (nat (o2 - ring_start r)) (data r), o2, lost))"

text \<open>
  The ring against the stream it is the tail of: \<open>s\<close> is every byte appended since the
  stream began at offset \<open>z\<close>, by construction or by the last \<open>reset\<close>.
\<close>

definition tail_of :: "int \<Rightarrow> bytes \<Rightarrow> ring \<Rightarrow> bool" where
  "tail_of z s r \<longleftrightarrow>
     ring_end r = z + int (length s) \<and>
     data r = drop (length s - nat (capacity r)) s"

lemma tail_of_Ring [simp]: "tail_of 0 [] (Ring c)"
  by (simp add: tail_of_def Ring_def)

lemma tail_of_reset [simp]: "tail_of z [] (ring_reset z r)"
  by (simp add: tail_of_def ring_reset_def)

lemma tail_of_append:
  assumes "tail_of z s r" "0 \<le> capacity r"
  shows "tail_of z (s @ b) (ring_append b r)"
proof -
  have d: "data r = drop (length s - nat (capacity r)) s" and c: "capacity r = int (nat (capacity r))"
    using assms by (simp_all add: tail_of_def)
  let ?c = "nat (capacity r)"
  have k: "nat (max 0 (int (length (data r @ b)) - capacity r)) = length (data r @ b) - ?c"
    using assms(2) by (auto simp: max_def nat_diff_distrib' nat_add_distrib)
  have "drop (length (data r @ b) - ?c) (data r @ b) = drop (length (s @ b) - ?c) (s @ b)"
    by (cases "length s \<le> ?c") (auto simp: d add.commute)
  with assms(1) k show ?thesis by (simp only: tail_of_def ring_append_def Let_def) simp
qed

lemma tail_of_start:
  assumes "tail_of z s r" "0 \<le> capacity r"
  shows "ring_start r = z + int (length s - nat (capacity r))" "ring_start r \<le> ring_end r"
  using assms by (simp_all add: tail_of_def ring_start_def)

text \<open>What \<open>since\<close> returns: the stream from the offset it names to its end.\<close>

lemma since_stream:
  assumes "tail_of z s r" "0 \<le> capacity r" "since off r = (b, resume, lost)"
  shows "b = drop (nat (resume - z)) s" "resume + int (length b) = ring_end r"
    "lost \<longleftrightarrow> off < ring_start r" "z \<le> resume" "\<not> lost \<Longrightarrow> resume = min off (ring_end r)"
    "lost \<Longrightarrow> resume = ring_start r"
proof -
  note st = tail_of_start [OF assms(1,2)]
  have e: "ring_end r = z + int (length s)" and d: "data r = drop (length s - nat (capacity r)) s"
    using assms(1) by (simp_all add: tail_of_def)
  have l: "lost = (min off (ring_end r) < ring_start r)"
    and re: "resume = max (min off (ring_end r)) (ring_start r)"
    and b: "b = drop (nat (resume - ring_start r)) (data r)"
    using assms(3) by (auto simp: since_def Let_def)
  have "nat (resume - ring_start r) + (length s - nat (capacity r)) = nat (resume - z)"
    using re st by (simp add: max_def split: if_splits; linarith)
  then show "b = drop (nat (resume - z)) s" by (simp add: b d)
  then show "resume + int (length b) = ring_end r" using re st e by (auto simp: max_def min_def)
  show "lost \<longleftrightarrow> off < ring_start r" using l st by auto
  show "z \<le> resume" using re st by (simp add: le_max_iff_disj)
  show "\<not> lost \<Longrightarrow> resume = min off (ring_end r)" using l re by simp
  show "lost \<Longrightarrow> resume = ring_start r" using l re by simp
qed

end
