(* ===== verification/Frame_Codec.thy ===== *)
theory Frame_Codec
  imports Byte_Stream
begin

text \<open>
  The terminal's wire: the frames of \<open>lib/posix/host.py\<close> and the payloads of
  \<open>wire/wire_terminals.py\<close>. A pair of an encoder and a decoder that are exactly inverse
  is a \<open>codec\<close>: its encoder is injective, and its decoder accepts the encodings and
  nothing else. The frame, window size and route codecs are instances.
\<close>

section \<open>Codecs\<close>

locale codec =
  fixes enc :: "'a \<Rightarrow> bytes res" and dec :: "bytes \<Rightarrow> 'a res"
  assumes decodes: "enc x = Inr b \<Longrightarrow> dec b = Inr x"
    and encodes: "dec b = Inr x \<Longrightarrow> enc x = Inr b"
begin

lemma enc_inject: "enc x = Inr b \<Longrightarrow> enc y = Inr b \<Longrightarrow> x = y"
  by (metis decodes sum.inject(2))

lemma dec_inject: "dec b = Inr x \<Longrightarrow> dec c = Inr x \<Longrightarrow> b = c"
  by (metis encodes sum.inject(2))

lemma dec_iff: "dec b = Inr x \<longleftrightarrow> enc x = Inr b"
  using decodes encodes by blast

end

section \<open>Frames\<close>

text \<open>\<open>Frame\<close>; \<open>frame_value\<close> is the value of the \<open>IntEnum\<close>.\<close>

datatype frame = ATTACH | INPUT | RESIZE | SUBMIT | STOP | OUTPUT | ACK | EXIT | SIGNAL
  | ROUTE | KEEPALIVE | VIEWERS | REDRAW | TAKEOVER

definition frames :: "frame list" where
  "frames = [ATTACH, INPUT, RESIZE, SUBMIT, STOP, OUTPUT, ACK, EXIT, SIGNAL,
             ROUTE, KEEPALIVE, VIEWERS, REDRAW, TAKEOVER]"

fun frame_value :: "frame \<Rightarrow> int" where
  "frame_value ATTACH = 1"
| "frame_value INPUT = 2"
| "frame_value RESIZE = 3"
| "frame_value SUBMIT = 4"
| "frame_value STOP = 5"
| "frame_value OUTPUT = 6"
| "frame_value ACK = 7"
| "frame_value EXIT = 8"
| "frame_value SIGNAL = 9"
| "frame_value ROUTE = 10"
| "frame_value KEEPALIVE = 11"
| "frame_value VIEWERS = 12"
| "frame_value REDRAW = 13"
| "frame_value TAKEOVER = 14"

text \<open>\<open>Frame(n)\<close>: the member with that value.\<close>

definition Frame :: "int \<Rightarrow> frame res" where
  "Frame n = (case List.find (\<lambda>k. frame_value k = n) frames of Some k \<Rightarrow> Inr k | None \<Rightarrow> Inl ValueError)"

definition encode_frame :: "frame \<Rightarrow> bytes \<Rightarrow> bytes res" where
  "encode_frame kind payload =
     bind_res (to_bytes (int (length payload)) 4) (\<lambda>n. Inr ([of_int (frame_value kind)] @ n @ payload))"

definition slice :: "nat \<Rightarrow> nat \<Rightarrow> 'a list \<Rightarrow> 'a list" where
  "slice i j xs = drop i (take j xs)"

definition decode_frame :: "bytes \<Rightarrow> (frame \<times> bytes) res" where
  "decode_frame message =
     (if length message < 5 \<or> from_bytes (slice 1 5 message) \<noteq> int (length message) - 5 then Inl ValueError
      else bind_res (Frame (uint (message ! 0))) (\<lambda>k. Inr (k, drop 5 message)))"

text \<open>\<open>StreamReader.readexactly\<close> on the bytes the peer sent before it closed.\<close>

definition readexactly :: "nat \<Rightarrow> bytes \<Rightarrow> (bytes \<times> bytes) res" where
  "readexactly n s = (if length s < n then Inl IncompleteReadError else Inr (take n s, drop n s))"

definition MAX_PAYLOAD_BYTES :: int where
  "MAX_PAYLOAD_BYTES = 16 * 1024 * 1024"

definition read_frame :: "bytes \<Rightarrow> ((frame \<times> bytes) \<times> bytes) res" where
  "read_frame s =
     bind_res (readexactly 5 s) (\<lambda>(header, s1).
       let size = from_bytes (drop 1 header) in
       if size > MAX_PAYLOAD_BYTES then Inl ValueError
       else bind_res (Frame (uint (header ! 0))) (\<lambda>k.
         bind_res (readexactly (nat size) s1) (\<lambda>(payload, s2). Inr ((k, payload), s2))))"

section \<open>Payloads\<close>

definition encode_winsize :: "int \<Rightarrow> int \<Rightarrow> bytes res" where
  "encode_winsize rows cols =
     bind_res (to_bytes rows 2) (\<lambda>r. bind_res (to_bytes cols 2) (\<lambda>c. Inr (r @ c)))"

definition decode_winsize :: "bytes \<Rightarrow> (int \<times> int) res" where
  "decode_winsize payload =
     (if length payload \<noteq> 4 then Inl ValueError
      else Inr (from_bytes (take 2 payload), from_bytes (drop 2 payload)))"

definition decode_status :: "bytes \<Rightarrow> int res" where
  "decode_status payload = (if length payload \<noteq> 4 then Inl ValueError else Inr (from_bytes payload))"

definition ROUTE_RELAY :: int where "ROUTE_RELAY = 0"
definition ROUTE_DIRECT :: int where "ROUTE_DIRECT = 1"

text \<open>\<open>bytes([route])\<close> refuses a number that is no byte.\<close>

definition encode_route :: "int \<Rightarrow> int \<Rightarrow> bytes res" where
  "encode_route route off =
     bind_res (guard_res (0 \<le> route \<and> route < 256) ValueError) (\<lambda>_.
       bind_res (to_bytes off 8) (\<lambda>b. Inr ([of_int route] @ b)))"

definition decode_route :: "bytes \<Rightarrow> (int \<times> int) res" where
  "decode_route payload =
     (if length payload \<noteq> 9 \<or> uint (payload ! 0) \<notin> {ROUTE_RELAY, ROUTE_DIRECT} then Inl ValueError
      else Inr (uint (payload ! 0), from_bytes (drop 1 payload)))"

definition encode_keepalive :: "int \<Rightarrow> bytes res" where
  "encode_keepalive idle_ms = to_bytes (min idle_ms (2 ^ 32 - 1)) 4"

definition decode_keepalive :: "bytes \<Rightarrow> int res" where
  "decode_keepalive payload = (if length payload \<noteq> 4 then Inl ValueError else Inr (from_bytes payload))"

definition TICKET_CHARS :: nat where "TICKET_CHARS = 43"

text \<open>\<open>bytes.decode("ascii")\<close>; its \<open>UnicodeDecodeError\<close> is a \<open>ValueError\<close>.\<close>

definition decode_ascii :: "bytes \<Rightarrow> string res" where
  "decode_ascii b =
     (if list_all (\<lambda>x. uint x < 128) b then Inr (map (\<lambda>x. char_of (unat x)) b) else Inl ValueError)"

definition decode_attach :: "bytes \<Rightarrow> (string \<times> int) res" where
  "decode_attach payload =
     (if length payload \<noteq> TICKET_CHARS + 8 then Inl ValueError
      else bind_res (decode_ascii (take TICKET_CHARS payload)) (\<lambda>ticket.
        Inr (ticket, from_bytes (drop TICKET_CHARS payload))))"

section \<open>The codecs\<close>

lemma Frame_value [simp]: "Frame (frame_value k) = Inr k"
  by (cases k) (simp_all add: Frame_def frames_def)

lemma Frame_ok: "Frame n = Inr k \<longleftrightarrow> n = frame_value k"
proof
  show "Frame n = Inr k \<Longrightarrow> n = frame_value k"
    by (auto simp: Frame_def find_Some_iff split: option.splits)
qed simp

lemma frame_value_bounds: "1 \<le> frame_value k \<and> frame_value k \<le> 14"
  by (cases k) simp_all

lemma uint_of_byte [simp]: "0 \<le> i \<Longrightarrow> i < 256 \<Longrightarrow> uint (of_int i :: byte) = i"
  by (simp add: uint_word_of_int take_bit_eq_mod)

lemma uint_frame_byte [simp]: "uint (of_int (frame_value k) :: byte) = frame_value k"
  using frame_value_bounds [of k] by (intro uint_of_byte) linarith+

lemma encode_frame_ok:
  "encode_frame k p = Inr m \<longleftrightarrow>
     length p < 256 ^ 4 \<and> m = of_int (frame_value k) # be_bytes 4 (length p) @ p"
  by (auto simp: encode_frame_def to_bytes_def)

lemma decode_encode_frame:
  assumes "encode_frame k p = Inr m" shows "decode_frame m = Inr (k, p)"
proof -
  have m: "m = of_int (frame_value k) # be_bytes 4 (length p) @ p" and p: "length p < 256 ^ 4"
    using assms by (simp_all add: encode_frame_ok)
  have l: "length (be_bytes 4 (length p)) = 4" by (rule length_be_bytes)
  have d: "drop 5 m = p" "slice 1 5 m = be_bytes 4 (length p)" "length m = 5 + length p"
    "m ! 0 = of_int (frame_value k)"
    unfolding m slice_def using l by (simp_all del: be_bytes.simps)
  show ?thesis using p by (simp add: decode_frame_def d from_be_bytes del: One_nat_def)
qed

lemma encode_decode_frame:
  assumes "decode_frame m = Inr (k, p)" shows "encode_frame k p = Inr m"
proof -
  have l: "\<not> length m < 5" and n: "from_bytes (slice 1 5 m) = int (length m) - 5"
    and k: "uint (m ! 0) = frame_value k" and p: "p = drop 5 m"
    using assms by (auto simp: decode_frame_def Frame_ok res_simps split: if_splits)
  have s: "length (slice 1 5 m) = 4" using l by (simp add: slice_def)
  have "take 5 m = take 1 m @ slice 1 5 m" using append_take_drop_id [of 1 "take 5 m"]
    by (simp add: slice_def)
  then have "m = take 1 m @ slice 1 5 m @ drop 5 m" using append_take_drop_id [of 5 m] by simp
  moreover have "take 1 m = [of_int (frame_value k)]"
    using l by (cases m) (simp_all add: k [symmetric])
  moreover have "slice 1 5 m = be_bytes 4 (length p)"
    using be_from_bytes [of "slice 1 5 m"] l unfolding s n p by (simp add: nat_diff_distrib')
  moreover have "length p < 256 ^ 4"
    using from_bytes_bounds [of "slice 1 5 m"] l unfolding s n p by simp
  ultimately show ?thesis by (simp add: encode_frame_ok p)
qed

interpretation frame_codec: codec "\<lambda>(k, p). encode_frame k p" decode_frame
  by unfold_locales (auto intro: decode_encode_frame encode_decode_frame)

lemma encode_winsize_ok:
  "encode_winsize r c = Inr b \<longleftrightarrow>
     0 \<le> r \<and> r < 65536 \<and> 0 \<le> c \<and> c < 65536 \<and> b = be_bytes 2 (nat r) @ be_bytes 2 (nat c)"
  by (auto simp: encode_winsize_def to_bytes_def)

interpretation winsize_codec: codec "\<lambda>(r, c). encode_winsize r c" decode_winsize
proof unfold_locales
  fix x b assume "(\<lambda>(r, c). encode_winsize r c) x = Inr b"
  then show "decode_winsize b = Inr x"
    by (cases x) (auto simp: encode_winsize_ok decode_winsize_def from_be_bytes)
next
  fix b x assume d: "decode_winsize b = Inr x"
  then have l: "length b = 4" and x: "x = (from_bytes (take 2 b), from_bytes (drop 2 b))"
    by (auto simp: decode_winsize_def split: if_splits)
  have "be_bytes 2 (nat (from_bytes (take 2 b))) = take 2 b" "be_bytes 2 (nat (from_bytes (drop 2 b))) = drop 2 b"
    using be_from_bytes [of "take 2 b"] be_from_bytes [of "drop 2 b"] l by simp_all
  then show "(\<lambda>(r, c). encode_winsize r c) x = Inr b"
    using from_bytes_bounds [of "take 2 b"] from_bytes_bounds [of "drop 2 b"] l
    by (simp add: x encode_winsize_ok)
qed

text \<open>Only the two known routes are decoded, so the codec is that of a known route.\<close>

definition encode_known_route :: "int \<times> int \<Rightarrow> bytes res" where
  "encode_known_route = (\<lambda>(r, off).
     bind_res (guard_res (r \<in> {ROUTE_RELAY, ROUTE_DIRECT}) ValueError) (\<lambda>_. encode_route r off))"

lemma encode_known_route_ok:
  "encode_known_route (r, off) = Inr b \<longleftrightarrow>
     (r = 0 \<or> r = 1) \<and> 0 \<le> off \<and> off < 256 ^ 8 \<and> b = of_int r # be_bytes 8 (nat off)"
  by (auto simp: encode_known_route_def encode_route_def to_bytes_def ROUTE_RELAY_def ROUTE_DIRECT_def
      res_simps)

interpretation route_codec: codec encode_known_route decode_route
proof unfold_locales
  fix x b assume "encode_known_route x = Inr b"
  then show "decode_route b = Inr x"
    by (cases x) (auto simp: encode_known_route_ok decode_route_def from_be_bytes ROUTE_RELAY_def ROUTE_DIRECT_def)
next
  fix b x assume d: "decode_route b = Inr x"
  then have l: "length b = 9" and x: "x = (uint (b ! 0), from_bytes (drop 1 b))"
    and r: "uint (b ! 0) = 0 \<or> uint (b ! 0) = 1"
    by (auto simp: decode_route_def ROUTE_RELAY_def ROUTE_DIRECT_def split: if_splits)
  obtain c cs where b: "b = c # cs" and cs: "length cs = 8" using l by (cases b) auto
  have "be_bytes 8 (nat (from_bytes cs)) = cs" using be_from_bytes [of cs] cs by simp
  then show "encode_known_route x = Inr b"
    using from_bytes_bounds [of cs] cs r by (simp add: x encode_known_route_ok b)
qed

text \<open>A stream of frames is read back frame by frame.\<close>

lemma read_encoded_frame:
  assumes "encode_frame k p = Inr m" "int (length p) \<le> MAX_PAYLOAD_BYTES"
  shows "read_frame (m @ rest) = Inr ((k, p), rest)"
proof -
  have m: "m = of_int (frame_value k) # be_bytes 4 (length p) @ p" and p: "length p < 256 ^ 4"
    using assms(1) by (simp_all add: encode_frame_ok)
  have h: "readexactly 5 (m @ rest) = Inr (of_int (frame_value k) # be_bytes 4 (length p), p @ rest)"
    unfolding readexactly_def m using length_be_bytes [of 4 "length p"] by (simp del: be_bytes.simps)
  show ?thesis using assms(2) p unfolding read_frame_def h by (simp add: readexactly_def from_be_bytes)
qed

text \<open>A reader never takes more than one frame past its bound.\<close>

lemma read_frame_bound: "read_frame s = Inr ((k, p), rest) \<Longrightarrow> int (length p) \<le> MAX_PAYLOAD_BYTES"
  by (auto simp: read_frame_def readexactly_def Let_def MAX_PAYLOAD_BYTES_def res_simps split: if_splits)

lemma keepalive_round:
  assumes "0 \<le> n" shows "\<exists>b. encode_keepalive n = Inr b \<and> decode_keepalive b = Inr (min n (2 ^ 32 - 1))"
proof -
  have "0 \<le> min n (2 ^ 32 - 1)" "min n (2 ^ 32 - 1) < 256 ^ 4" using assms by simp_all
  from to_bytes_ok [OF this] show ?thesis unfolding encode_keepalive_def decode_keepalive_def by force
qed

end
