(* ===== verification/Terminal_State.thy ===== *)
theory Terminal_State
  imports Frame_Codec
begin

text \<open>
  \<open>server/terminals.py\<close>: the state of the terminal hub. A \<open>Terminal\<close> object is shared
  by the hub's registry, its queues and the running handlers, so terminals live in a heap
  under their id, and the registry and the queues hold ids. Sockets are the routes'
  adapters: \<open>gone\<close> are those a send fails on, \<open>sent\<close> is what each was given, in order,
  a frame by its kind and payload (its bytes are \<open>encode_frame\<close> of them). Times are exact
  rationals, in seconds of the hub's clock.
\<close>

section \<open>Limits\<close>

definition RING_BYTES :: int where "RING_BYTES = 262144"
definition MAX_ROWS :: int where "MAX_ROWS = 500"
definition MAX_COLS :: int where "MAX_COLS = 1000"
definition MAX_INPUT_FRAME_BYTES :: nat where "MAX_INPUT_FRAME_BYTES = 65536"
definition MAX_INPUT_BYTES_PER_SEC :: nat where "MAX_INPUT_BYTES_PER_SEC = 1048576"
definition MAX_OUTPUT_BYTES_PER_SEC :: nat where "MAX_OUTPUT_BYTES_PER_SEC = 4194304"
definition MAX_SIGNAL_BYTES :: nat where "MAX_SIGNAL_BYTES = 16384"
definition MAX_SIGNALS_PER_MIN :: nat where "MAX_SIGNALS_PER_MIN = 6"
definition MAX_OPENS_PER_MIN_PER_USER :: nat where "MAX_OPENS_PER_MIN_PER_USER = 10"
definition KEEPALIVE_SEC :: rat where "KEEPALIVE_SEC = 10"
definition TICKET_TTL_SEC :: rat where "TICKET_TTL_SEC = 30"
definition OPEN_TTL_SEC :: rat where "OPEN_TTL_SEC = 60"
definition WAIT_LEASE_SEC :: rat where "WAIT_LEASE_SEC = 45"
definition DETACH_GRACE_SEC :: rat where "DETACH_GRACE_SEC = 60"
definition IDLE_SEC :: rat where "IDLE_SEC = 3600"
definition LIFETIME_SEC :: rat where "LIFETIME_SEC = 86400"
definition CLOSE_ENDED :: int where "CLOSE_ENDED = 4000"
definition CLOSE_TAKEN_OVER :: int where "CLOSE_TAKEN_OVER = 4001"
definition CLOSE_IDLE :: int where "CLOSE_IDLE = 4002"
definition CLOSE_LIFETIME :: int where "CLOSE_LIFETIME = 4003"
definition CLOSE_HOST_LOST :: int where "CLOSE_HOST_LOST = 4004"
definition CLOSE_MACHINE_REVOKED :: int where "CLOSE_MACHINE_REVOKED = 4410"

section \<open>Rates\<close>

record rate =
  rate_limit :: nat
  rate_start :: rat
  rate_used :: nat

definition Rate :: "nat \<Rightarrow> rate" where
  "Rate limit = \<lparr>rate_limit = limit, rate_start = 0, rate_used = 0\<rparr>"

definition rate_delay :: "nat \<Rightarrow> rat \<Rightarrow> rate \<Rightarrow> rate \<times> rat" where
  "rate_delay n x r =
     (let r1 = (if x - rate_start r \<ge> 1 then r\<lparr>rate_start := x, rate_used := 0\<rparr> else r);
          r2 = r1\<lparr>rate_used := rate_used r1 + n\<rparr>
      in (r2, if rate_used r2 \<le> rate_limit r2 then 0 else rate_start r2 + 1 - x))"

section \<open>Terminals\<close>

datatype terminal_command = claude | codex
datatype terminal_kind = shell | files

type_synonym terminal_id = nat
type_synonym machine_id = nat
type_synonym socket = nat
type_synonym gate = nat

record terminal_opening =
  o_user :: string
  o_machine_id :: machine_id
  o_machine :: string
  o_rows :: int
  o_cols :: int
  o_canvas :: "nat option"
  o_workspace :: "nat option"
  o_requested_by :: "string option"
  o_surface :: "string option"
  o_command :: "terminal_command option"
  o_attach :: "nat option"
  o_run_name :: "string option"
  o_cwd :: "string option"
  o_kind :: terminal_kind

text \<open>\<open>replaying\<close> is the event of the attach whose replay is under way.\<close>

record terminal =
  t_id :: terminal_id
  t_user :: string
  t_machine_id :: machine_id
  t_machine :: string
  t_rows :: int
  t_cols :: int
  opened_at :: rat
  canvas :: "nat option"
  workspace :: "nat option"
  requested_by :: "string option"
  surface :: "string option"
  t_command :: "terminal_command option"
  attach :: "nat option"
  run_name :: "string option"
  cwd :: "string option"
  t_kind :: terminal_kind
  detached_at :: "rat option"
  last_input_at :: rat
  offered :: bool
  host :: "socket option"
  starting :: bool
  browser :: "socket option"
  ended :: bool
  stopping :: bool
  replaying :: "gate option"
  pre_input :: bytes
  pre_resize :: "bytes option"
  t_ring :: ring
  direct_until :: rat
  signals :: "rat list"
  input_rate :: rate
  output_rate :: rate

text \<open>
  The validators of \<open>OpenTerminal\<close>, the body an \<open>Opening\<close> is made from: a run's fields
  need a command, and a \<open>files\<close> terminal names neither a command nor a canvas.
\<close>

definition run_fields_need_a_command :: "terminal_opening \<Rightarrow> bool" where
  "run_fields_need_a_command q =
     (\<not> (o_command q = None \<and> (o_attach q \<noteq> None \<or> o_run_name q \<noteq> None \<or> o_cwd q \<noteq> None)))"

definition files_name_no_run :: "terminal_opening \<Rightarrow> bool" where
  "files_name_no_run q = (\<not> (o_kind q = files \<and> (o_command q \<noteq> None \<or> o_canvas q \<noteq> None)))"

definition hex_digit :: "nat \<Rightarrow> char" where
  "hex_digit n = (if n < 10 then char_of (48 + n) else char_of (87 + n))"

text \<open>\<open>UUID.hex\<close>: 32 hexadecimal digits.\<close>

definition uuid_hex :: "nat \<Rightarrow> string" where
  "uuid_hex n = map (\<lambda>k. hex_digit (n div 16 ^ k mod 16)) (rev [0 ..< 32])"

section \<open>The hub\<close>

record ticket =
  k_user :: string
  k_terminal_id :: terminal_id
  expires :: rat

datatype message = Sent frame bytes | Closed int

record hub =
  heap :: "terminal_id \<Rightarrow> terminal option"
  terminals :: "terminal_id list"
  pending :: "machine_id \<Rightarrow> terminal_id list"
  waiters :: "machine_id \<Rightarrow> (nat \<times> bool) list"
  waited :: "machine_id \<Rightarrow> rat option"
  tickets :: "string \<Rightarrow> ticket option"
  opens :: "string \<Rightarrow> rat list"
  now :: rat
  gone :: "socket set"
  sent :: "(socket \<times> message) list"

definition empty_hub :: "rat \<Rightarrow> hub" where
  "empty_hub t =
     \<lparr>heap = \<lambda>_. None, terminals = [], pending = \<lambda>_. [], waiters = \<lambda>_. [], waited = \<lambda>_. None,
      tickets = \<lambda>_. None, opens = \<lambda>_. [], now = t, gone = {}, sent = []\<rparr>"

text \<open>An assignment to fields of a terminal object.\<close>

definition update :: "terminal_id \<Rightarrow> (terminal \<Rightarrow> terminal) \<Rightarrow> hub \<Rightarrow> hub" where
  "update i f h = h\<lparr>heap := (heap h)(i := map_option f (heap h i))\<rparr>"

definition field :: "terminal_id \<Rightarrow> (terminal \<Rightarrow> 'a) \<Rightarrow> 'a \<Rightarrow> hub \<Rightarrow> 'a" where
  "field i f d h = (case heap h i of None \<Rightarrow> d | Some t \<Rightarrow> f t)"

section \<open>Sockets\<close>

text \<open>A send to a peer that left raises \<open>SocketClosedError\<close>: no hub.\<close>

definition send_bytes :: "socket \<Rightarrow> frame \<Rightarrow> bytes \<Rightarrow> hub \<Rightarrow> hub option" where
  "send_bytes s k p h = (if s \<in> gone h then None else Some (h\<lparr>sent := sent h @ [(s, Sent k p)]\<rparr>))"

definition close_leg :: "socket \<Rightarrow> int \<Rightarrow> hub \<Rightarrow> hub" where
  "close_leg s c h =
     (if s \<in> gone h then h else h\<lparr>gone := insert s (gone h), sent := sent h @ [(s, Closed c)]\<rparr>)"

definition close_legs :: "socket option list \<Rightarrow> int \<Rightarrow> hub \<Rightarrow> hub" where
  "close_legs ls c h = fold (\<lambda>l h. case l of None \<Rightarrow> h | Some s \<Rightarrow> close_leg s c h) ls h"

end
