(* ===== verification/Terminal_Hub.thy ===== *)
theory Terminal_Hub
  imports Terminal_State
begin

text \<open>
  \<open>server/terminals.py\<close>: the operations of \<open>TerminalHub\<close>, one definition per method, in
  the order of their calls. A handler that awaits is one step up to the points where the
  source lets another handler in between to change what it relies on: \<open>wait\<close> holds, the
  rate limits sleep, \<open>from_host\<close> waits for a replay, and \<open>attach_browser\<close> yields at
  each send of its replay. There it is split, and the parts are steps of their own.
\<close>

section \<open>Ending a terminal\<close>

definition end_terminal :: "terminal_id \<Rightarrow> int \<Rightarrow> hub \<Rightarrow> hub" where
  "end_terminal i c h =
     (case heap h i of None \<Rightarrow> h
      | Some t \<Rightarrow>
          if ended t then h
          else let h1 = update i (ended_update (\<lambda>_. True)) h;
                   h2 = h1\<lparr>terminals := filter (\<lambda>j. j \<noteq> i) (terminals h1)\<rparr>
               in close_legs [host t, browser t] c h2)"

section \<open>Frames to the legs\<close>

definition send_to_host :: "terminal_id \<Rightarrow> frame \<Rightarrow> bytes \<Rightarrow> hub \<Rightarrow> hub" where
  "send_to_host i k p h =
     (case field i host None h of None \<Rightarrow> h
      | Some s \<Rightarrow>
          if field i ended True h then h
          else case send_bytes s k p h of Some h1 \<Rightarrow> h1 | None \<Rightarrow> end_terminal i CLOSE_HOST_LOST h)"

definition to_host :: "terminal_id \<Rightarrow> frame \<Rightarrow> bytes \<Rightarrow> hub \<Rightarrow> hub" where
  "to_host i k p h =
     (if field i host None h = None \<or> field i starting False h then
        if k = RESIZE then update i (pre_resize_update (\<lambda>_. Some p)) h
        else if k = INPUT \<and> length (field i pre_input [] h) + length p \<le> MAX_INPUT_FRAME_BYTES
        then update i (pre_input_update (\<lambda>b. b @ p)) h
        else h
      else send_to_host i k p h)"

definition start_host :: "terminal_id \<Rightarrow> hub \<Rightarrow> hub" where
  "start_host i h =
     (let h1 = update i (starting_update (\<lambda>_. False)) h;
          resize = field i pre_resize None h1;
          typed = field i pre_input [] h1;
          h2 = update i (\<lambda>t. t\<lparr>pre_resize := None, pre_input := []\<rparr>) h1;
          h3 = (case resize of None \<Rightarrow> h2 | Some p \<Rightarrow> send_to_host i RESIZE p h2)
      in if typed \<noteq> [] then send_to_host i INPUT typed h3 else h3)"

definition detach_browser :: "terminal_id \<Rightarrow> socket \<Rightarrow> hub \<Rightarrow> hub" where
  "detach_browser i s h =
     (if field i browser None h = Some s
      then update i (\<lambda>t. t\<lparr>browser := None, detached_at := Some (now h)\<rparr>) h else h)"

definition to_browser :: "terminal_id \<Rightarrow> socket \<Rightarrow> frame \<Rightarrow> bytes \<Rightarrow> hub \<Rightarrow> hub" where
  "to_browser i s k p h =
     (case send_bytes s k p h of Some h1 \<Rightarrow> h1 | None \<Rightarrow> detach_browser i s h)"

definition live :: "terminal_id \<Rightarrow> frame \<Rightarrow> bytes \<Rightarrow> hub \<Rightarrow> hub" where
  "live i k p h = (case field i browser None h of None \<Rightarrow> h | Some s \<Rightarrow> to_browser i s k p h)"

section \<open>Opening\<close>

definition ready :: "machine_id \<Rightarrow> hub \<Rightarrow> bool" where
  "ready m h = (case waited h m of None \<Rightarrow> False | Some w \<Rightarrow> now h - w \<le> WAIT_LEASE_SEC)"

definition live_in :: "string \<Rightarrow> nat \<Rightarrow> hub \<Rightarrow> terminal list" where
  "live_in u c h =
     filter (\<lambda>t. t_user t = u \<and> canvas t = Some c \<and> \<not> stopping t) (List.map_filter (heap h) (terminals h))"

definition attached_to :: "nat \<Rightarrow> hub \<Rightarrow> terminal list" where
  "attached_to s h =
     filter (\<lambda>t. attach t = Some s \<and> \<not> stopping t) (List.map_filter (heap h) (terminals h))"

definition check :: "string \<Rightarrow> hub \<Rightarrow> unit res" where
  "check u h =
     (if length (filter (\<lambda>a. now h - a < 60) (opens h u)) \<ge> MAX_OPENS_PER_MIN_PER_USER
      then Inl TerminalLimitError else Inr ())"

text \<open>\<open>open\<close> wakes the first waiter not already woken.\<close>

fun wake_first :: "(nat \<times> bool) list \<Rightarrow> (nat \<times> bool) list" where
  "wake_first [] = []"
| "wake_first ((w, done) # ws) = (if done then (w, done) # wake_first ws else (w, True) # ws)"

definition named_run :: "terminal_id \<Rightarrow> terminal_opening \<Rightarrow> string option" where
  "named_run i q =
     (if o_command q \<noteq> None \<and> o_run_name q = None
      then case o_attach q of
             None \<Rightarrow> Some (''run-'' @ take 8 (uuid_hex i))
           | Some a \<Rightarrow> Some (''chat-'' @ take 8 (uuid_hex a))
      else o_run_name q)"

definition new_terminal :: "terminal_id \<Rightarrow> rat \<Rightarrow> terminal_opening \<Rightarrow> terminal" where
  "new_terminal i x q =
     \<lparr>t_id = i, t_user = o_user q, t_machine_id = o_machine_id q, t_machine = o_machine q,
      t_rows = o_rows q, t_cols = o_cols q, opened_at = x, canvas = o_canvas q,
      workspace = o_workspace q, requested_by = o_requested_by q, surface = o_surface q,
      t_command = o_command q, attach = o_attach q, run_name = named_run i q, cwd = o_cwd q,
      t_kind = o_kind q, detached_at = Some x, last_input_at = x, offered = False, host = None,
      starting = False, browser = None, ended = False, stopping = False, replaying = None,
      pre_input = [], pre_resize = None, t_ring = Ring RING_BYTES, direct_until = 0, signals = [],
      input_rate = Rate MAX_INPUT_BYTES_PER_SEC, output_rate = Rate MAX_OUTPUT_BYTES_PER_SEC\<rparr>"

definition open_terminal :: "terminal_id \<Rightarrow> terminal_opening \<Rightarrow> hub \<Rightarrow> hub res" where
  "open_terminal i q h =
     bind_res (check (o_user q) h) (\<lambda>_.
       let u = o_user q; m = o_machine_id q in
       Inr (h\<lparr>heap := (heap h)(i \<mapsto> new_terminal i (now h) q),
              terminals := terminals h @ [i],
              pending := (pending h)(m := pending h m @ [i]),
              opens := (opens h)(u := dropWhile (\<lambda>a. now h - a \<ge> 60) (opens h u) @ [now h]),
              waiters := (waiters h)(m := wake_first (waiters h m))\<rparr>))"

section \<open>Tickets\<close>

definition mint_ticket :: "string \<Rightarrow> terminal \<Rightarrow> hub \<Rightarrow> hub" where
  "mint_ticket token t h =
     (let kept = (\<lambda>k. case tickets h k of None \<Rightarrow> None
                      | Some x \<Rightarrow> if expires x > now h then Some x else None)
      in h\<lparr>tickets := kept(token \<mapsto>
             \<lparr>k_user = t_user t, k_terminal_id = t_id t, expires = now h + TICKET_TTL_SEC\<rparr>)\<rparr>)"

definition redeem :: "string \<Rightarrow> string \<Rightarrow> terminal_id \<Rightarrow> hub \<Rightarrow> hub \<times> bool" where
  "redeem token u i h =
     (h\<lparr>tickets := (tickets h)(token := None)\<rparr>,
      case tickets h token of None \<Rightarrow> False
      | Some x \<Rightarrow> expires x > now h \<and> k_user x = u \<and> k_terminal_id x = i)"

section \<open>Waiting for an open\<close>

fun take_pending :: "(terminal_id \<Rightarrow> terminal option) \<Rightarrow> terminal_id list \<Rightarrow> terminal_id list \<times> terminal_id option" where
  "take_pending H [] = ([], None)"
| "take_pending H (i # q) =
     (if (case H i of None \<Rightarrow> False | Some t \<Rightarrow> \<not> ended t \<and> \<not> offered t) then (q, Some i)
      else take_pending H q)"

definition take_next :: "machine_id \<Rightarrow> hub \<Rightarrow> hub \<times> terminal_id option" where
  "take_next m h =
     (let (q, r) = take_pending (heap h) (pending h m);
          h1 = h\<lparr>pending := (pending h)(m := q)\<rparr>
      in (case r of None \<Rightarrow> h1 | Some i \<Rightarrow> update i (offered_update (\<lambda>_. True)) h1, r))"

text \<open>
  \<open>wait\<close>, between its holds: \<open>wait_try\<close> is one round of its loop, \<open>wait_begin\<close> its start,
  \<open>wait_woken\<close> the round after the waiter's future was set, \<open>wait_timeout\<close> the end of a
  hold nobody woke. \<open>w\<close> names the waiter's future.
\<close>

datatype wait_result = Returned "terminal_id option" | Holding nat

definition heard :: "machine_id \<Rightarrow> hub \<Rightarrow> hub" where
  "heard m h = h\<lparr>waited := (waited h)(m \<mapsto> now h)\<rparr>"

definition wait_try :: "machine_id \<Rightarrow> rat \<Rightarrow> nat \<Rightarrow> hub \<Rightarrow> hub \<times> wait_result" where
  "wait_try m deadline w h =
     (case take_next m h of
        (h1, Some i) \<Rightarrow> (heard m h1, Returned (Some i))
      | (h1, None) \<Rightarrow>
          if deadline - now h1 \<le> 0 then (heard m h1, Returned None)
          else (h1\<lparr>waiters := (waiters h1)(m := waiters h1 m @ [(w, False)])\<rparr>, Holding w))"

definition wait_begin :: "machine_id \<Rightarrow> rat \<Rightarrow> nat \<Rightarrow> hub \<Rightarrow> hub \<times> wait_result" where
  "wait_begin m wait_sec w h = wait_try m (now h + wait_sec) w (heard m h)"

definition drop_waiter :: "machine_id \<Rightarrow> nat \<Rightarrow> hub \<Rightarrow> hub" where
  "drop_waiter m w h = h\<lparr>waiters := (waiters h)(m := filter (\<lambda>x. fst x \<noteq> w) (waiters h m))\<rparr>"

definition wait_woken :: "machine_id \<Rightarrow> rat \<Rightarrow> nat \<Rightarrow> nat \<Rightarrow> hub \<Rightarrow> hub \<times> wait_result" where
  "wait_woken m deadline w w' h = wait_try m deadline w' (drop_waiter m w h)"

definition wait_timeout :: "machine_id \<Rightarrow> nat \<Rightarrow> hub \<Rightarrow> hub" where
  "wait_timeout m w h = heard m (drop_waiter m w h)"

end
