(* ===== verification/Terminal_Relay.thy ===== *)
theory Terminal_Relay
  imports Terminal_Hub
begin

text \<open>
  \<open>server/terminals.py\<close>: the legs of a terminal. The replay of an attach is a list of
  actions, each up to its await, that the state machine interleaves with every other
  handler; the gate \<open>replaying\<close> holds the host's frames back until it is over.
\<close>

section \<open>Attaching a browser\<close>

datatype action = CloseLeg socket int | ToHost frame bytes | ToBrowser frame bytes | Raise py_error

record replay =
  r_gate :: gate
  r_terminal :: terminal_id
  r_socket :: socket
  r_todo :: "action list"

text \<open>\<open>b"\r\n--- output lost ---\r\n"\<close>.\<close>

definition output_lost :: bytes where
  "output_lost = map (\<lambda>ch. of_nat (code ch))
     ([char_of (13 :: nat), char_of (10 :: nat)] @ ''--- output lost ---'' @ [char_of (13 :: nat), char_of (10 :: nat)])"

definition replay_actions :: "socket option \<Rightarrow> int \<Rightarrow> bytes \<Rightarrow> int \<Rightarrow> bool \<Rightarrow> action list" where
  "replay_actions previous relay_from bs resume lost =
     (case previous of None \<Rightarrow> [] | Some p \<Rightarrow> [CloseLeg p CLOSE_TAKEN_OVER]) @
     (case encode_route ROUTE_RELAY relay_from of
        Inl e \<Rightarrow> [Raise e]
      | Inr r \<Rightarrow>
          [ToHost ROUTE r] @
          (if lost then [ToBrowser OUTPUT output_lost] else []) @
          (case to_bytes resume 8 of
             Inl e \<Rightarrow> [Raise e]
           | Inr a \<Rightarrow> [ToBrowser ACK a] @ (if bs \<noteq> [] then [ToBrowser OUTPUT bs] else [])))"

text \<open>Up to the first await: the gate \<open>g\<close> is a new event.\<close>

definition attach_begin :: "terminal_id \<Rightarrow> socket \<Rightarrow> int \<Rightarrow> gate \<Rightarrow> hub \<Rightarrow> hub \<times> replay" where
  "attach_begin i s off g h =
     (let previous = field i browser None h;
          (bs, resume, lost) = since off (field i t_ring (Ring RING_BYTES) h);
          relay_from = ring_end (field i t_ring (Ring RING_BYTES) h);
          h1 = update i (\<lambda>t. t\<lparr>browser := Some s, detached_at := None, direct_until := 0,
                               replaying := Some g\<rparr>) h
      in (h1, \<lparr>r_gate = g, r_terminal = i, r_socket = s,
               r_todo = replay_actions previous relay_from bs resume lost\<rparr>))"

text \<open>One await of the replay; an error skips the rest.\<close>

definition attach_step :: "replay \<Rightarrow> hub \<Rightarrow> hub \<times> replay" where
  "attach_step r h =
     (case r_todo r of
        [] \<Rightarrow> (h, r)
      | Raise e # as \<Rightarrow> (h, r\<lparr>r_todo := []\<rparr>)
      | CloseLeg s c # as \<Rightarrow> (close_leg s c h, r\<lparr>r_todo := as\<rparr>)
      | ToHost k p # as \<Rightarrow> (to_host (r_terminal r) k p h, r\<lparr>r_todo := as\<rparr>)
      | ToBrowser k p # as \<Rightarrow> (to_browser (r_terminal r) (r_socket r) k p h, r\<lparr>r_todo := as\<rparr>))"

text \<open>The \<open>finally\<close> clause: a later attach's gate is left alone.\<close>

definition attach_finish :: "replay \<Rightarrow> hub \<Rightarrow> hub" where
  "attach_finish r h =
     (if field (r_terminal r) replaying None h = Some (r_gate r)
      then update (r_terminal r) (replaying_update (\<lambda>_. None)) h else h)"

text \<open>The whole handler, when nothing comes in between.\<close>

fun run_actions :: "action list \<Rightarrow> replay \<Rightarrow> hub \<Rightarrow> hub" where
  "run_actions [] r h = h"
| "run_actions (a # as) r h =
     (let (h1, r1) = attach_step (r\<lparr>r_todo := a # as\<rparr>) h
      in if r_todo r1 = [] then h1 else run_actions as r1 h1)"

definition attach_browser :: "terminal_id \<Rightarrow> socket \<Rightarrow> int \<Rightarrow> gate \<Rightarrow> hub \<Rightarrow> hub" where
  "attach_browser i s off g h =
     (let (h1, r) = attach_begin i s off g h in attach_finish r (run_actions (r_todo r) r h1))"

section \<open>The host\<close>

definition host_connected :: "terminal_id \<Rightarrow> socket \<Rightarrow> bool \<Rightarrow> hub \<Rightarrow> hub \<times> bool" where
  "host_connected i s is_ready h =
     (if field i ended True h \<or> (field i host None h \<noteq> None \<and> \<not> field i starting False h) then (h, False)
      else
        let previous = field i host None h;
            h1 = update i (\<lambda>t. t\<lparr>host := Some s, starting := is_ready\<rparr>) h;
            h2 = close_legs [previous] CLOSE_TAKEN_OVER h1
        in if is_ready then
             (case send_bytes s ACK [] h2 of
                Some h3 \<Rightarrow> (h3, True)
              | None \<Rightarrow>
                  (if field i host None h2 = Some s
                   then update i (\<lambda>t. t\<lparr>host := None, starting := False\<rparr>) h2 else h2, False))
           else (start_host i h2, True))"

definition host_lost :: "terminal_id \<Rightarrow> socket \<Rightarrow> hub \<Rightarrow> hub" where
  "host_lost i s h =
     (if field i host None h = Some s \<and> \<not> field i ended True h
      then if field i starting False h then update i (\<lambda>t. t\<lparr>host := None, starting := False\<rparr>) h
           else end_terminal i CLOSE_HOST_LOST h
      else h)"

definition keepalive :: "terminal_id \<Rightarrow> bytes \<Rightarrow> hub \<Rightarrow> hub" where
  "keepalive i p h =
     (case decode_keepalive p of
        Inl _ \<Rightarrow> h
      | Inr idle_ms \<Rightarrow>
          update i (\<lambda>t. t\<lparr>last_input_at := now h - of_int idle_ms / 1000,
                         direct_until := now h + 3 * KEEPALIVE_SEC\<rparr>) h)"

text \<open>
  \<open>from_host\<close>: \<open>host_frame\<close> up to its waits, \<open>deliver\<close> after them. What is left to wait
  for is the sleep \<open>Sleep d\<close> of the output rate, then the end of any replay.
\<close>

datatype host_outcome = Handled | Sleep rat

definition host_frame :: "terminal_id \<Rightarrow> frame \<Rightarrow> bytes \<Rightarrow> hub \<Rightarrow> hub \<times> host_outcome" where
  "host_frame i k p h =
     (if i \<notin> set (terminals h) then (h, Handled)
      else if k = ACK \<and> p = [] \<and> field i starting False h then (start_host i h, Handled)
      else if k = KEEPALIVE then (keepalive i p h, Handled)
      else if k = OUTPUT then
        (let (r, d) = rate_delay (length p) (now h) (field i output_rate (Rate MAX_OUTPUT_BYTES_PER_SEC) h)
         in (update i (output_rate_update (\<lambda>_. r)) h, Sleep d))
      else (h, Sleep 0))"

definition replay_over :: "terminal_id \<Rightarrow> hub \<Rightarrow> bool" where
  "replay_over i h \<longleftrightarrow> field i replaying None h = None \<or> field i ended True h"

definition deliver :: "terminal_id \<Rightarrow> frame \<Rightarrow> bytes \<Rightarrow> hub \<Rightarrow> hub" where
  "deliver i k p h =
     (if field i ended True h then h
      else if k = OUTPUT then live i OUTPUT p (update i (t_ring_update (ring_append p)) h)
      else if k = EXIT then end_terminal i CLOSE_ENDED (live i EXIT p h)
      else if k = SIGNAL then live i SIGNAL p h
      else if k = ACK \<and> length p = 8
      then live i ACK p (update i (t_ring_update (ring_reset (from_bytes p))) h)
      else h)"

section \<open>The browser\<close>

definition stop_terminal :: "terminal_id \<Rightarrow> hub \<Rightarrow> hub" where
  "stop_terminal i h =
     (let h1 = update i (stopping_update (\<lambda>_. True)) h
      in if field i host None h1 = None \<or> field i starting False h1 then end_terminal i CLOSE_ENDED h1
         else to_host i STOP [] h1)"

definition signal_allowed :: "terminal_id \<Rightarrow> nat \<Rightarrow> hub \<Rightarrow> hub \<times> bool" where
  "signal_allowed i n h =
     (let h1 = update i (signals_update (dropWhile (\<lambda>a. now h - a \<ge> 60))) h
      in if n > MAX_SIGNAL_BYTES \<or> length (field i signals [] h1) \<ge> MAX_SIGNALS_PER_MIN then (h1, False)
         else (update i (signals_update (\<lambda>q. q @ [now h])) h1, True))"

definition clamp :: "int \<Rightarrow> int \<Rightarrow> int" where
  "clamp x hi = min (max x 1) hi"

text \<open>
  \<open>from_browser\<close>: an \<open>INPUT\<close> frame is counted by \<open>admit_input\<close>, then sleeps, then goes on
  in \<open>take_input\<close>; every other frame is one step, \<open>browser_frame\<close>. The flag is the result:
  whether the frame was valid.
\<close>

definition admit_input :: "terminal_id \<Rightarrow> bytes \<Rightarrow> hub \<Rightarrow> hub \<times> rat option" where
  "admit_input i p h =
     (if length p > MAX_INPUT_FRAME_BYTES then (h, None)
      else let (r, d) = rate_delay (length p) (now h) (field i input_rate (Rate MAX_INPUT_BYTES_PER_SEC) h)
           in (update i (input_rate_update (\<lambda>_. r)) h, Some d))"

definition take_input :: "terminal_id \<Rightarrow> bytes \<Rightarrow> hub \<Rightarrow> hub" where
  "take_input i p h = to_host i INPUT p (update i (last_input_at_update (\<lambda>_. now h)) h)"

definition browser_frame :: "terminal_id \<Rightarrow> frame \<Rightarrow> bytes \<Rightarrow> hub \<Rightarrow> hub \<times> bool" where
  "browser_frame i k p h =
     (if k = RESIZE then
        (case decode_winsize p of
           Inl _ \<Rightarrow> (h, False)
         | Inr (rows, cols) \<Rightarrow>
             (case encode_winsize (clamp rows MAX_ROWS) (clamp cols MAX_COLS) of
                Inl _ \<Rightarrow> (h, False)
              | Inr b \<Rightarrow> (to_host i RESIZE b h, True)))
      else if k = SIGNAL then
        (let (h1, ok) = signal_allowed i (length p) h
         in if ok then (to_host i SIGNAL p h1, True) else (h1, False))
      else if k = ROUTE then
        (case decode_route p of Inl _ \<Rightarrow> (h, False) | Inr _ \<Rightarrow> (to_host i ROUTE p h, True))
      else if k = STOP then (stop_terminal i h, True)
      else (h, False))"

text \<open>
  The two handlers in one go, when nothing comes in between: the sleep lets the clock
  advance, and a frame that would wait for a replay is not handled (\<open>None\<close>).
\<close>

definition from_browser :: "terminal_id \<Rightarrow> frame \<Rightarrow> bytes \<Rightarrow> hub \<Rightarrow> hub \<times> bool" where
  "from_browser i k p h =
     (if k = INPUT then
        (case admit_input i p h of
           (h1, None) \<Rightarrow> (h1, False)
         | (h1, Some d) \<Rightarrow> (take_input i p (h1\<lparr>now := now h1 + d\<rparr>), True))
      else browser_frame i k p h)"

definition from_host :: "terminal_id \<Rightarrow> frame \<Rightarrow> bytes \<Rightarrow> hub \<Rightarrow> hub option" where
  "from_host i k p h =
     (case host_frame i k p h of
        (h1, Handled) \<Rightarrow> Some h1
      | (h1, Sleep d) \<Rightarrow>
          let h2 = h1\<lparr>now := now h1 + d\<rparr>
          in if replay_over i h2 then Some (deliver i k p h2) else None)"

section \<open>Sweeping\<close>

definition close_machine :: "machine_id \<Rightarrow> hub \<Rightarrow> hub" where
  "close_machine m h =
     fold (\<lambda>i. end_terminal i CLOSE_MACHINE_REVOKED)
       (filter (\<lambda>i. field i t_machine_id m h = m) (terminals h)) h"

definition expired :: "rat \<Rightarrow> terminal \<Rightarrow> int option" where
  "expired x t =
     (if (host t = None \<or> starting t) \<and> x - opened_at t > OPEN_TTL_SEC then Some CLOSE_HOST_LOST
      else if x - opened_at t > LIFETIME_SEC then Some CLOSE_LIFETIME
      else if x - last_input_at t > IDLE_SEC then Some CLOSE_IDLE
      else case detached_at t of
             None \<Rightarrow> None
           | Some d \<Rightarrow> if x - d > DETACH_GRACE_SEC then Some CLOSE_ENDED else None)"

text \<open>The injected liveness question: \<open>None\<close> when it raises.\<close>

definition still_alive :: "(terminal \<Rightarrow> bool option) \<Rightarrow> terminal \<Rightarrow> bool" where
  "still_alive alive t = (case alive t of None \<Rightarrow> True | Some b \<Rightarrow> b)"

definition sweep_code :: "(terminal \<Rightarrow> bool option) \<Rightarrow> rat \<Rightarrow> terminal \<Rightarrow> int option" where
  "sweep_code alive x t =
     (case expired x t of
        Some c \<Rightarrow> Some c
      | None \<Rightarrow> if still_alive alive t then None else Some CLOSE_MACHINE_REVOKED)"

definition sweep_one :: "(terminal \<Rightarrow> bool option) \<Rightarrow> rat \<Rightarrow> terminal_id \<Rightarrow> hub \<Rightarrow> hub" where
  "sweep_one alive x i h =
     (case heap h i of
        None \<Rightarrow> h
      | Some t \<Rightarrow> (case sweep_code alive x t of
                    None \<Rightarrow> h
                  | Some c \<Rightarrow> end_terminal i c (to_host i STOP [] h)))"

definition sweep :: "(terminal \<Rightarrow> bool option) \<Rightarrow> hub \<Rightarrow> hub" where
  "sweep alive h = fold (sweep_one alive (now h)) (terminals h) h"

end
