(* ===== verification/Terminal_Frames.thy ===== *)
theory Terminal_Frames
  imports Terminal_Relay
begin

text \<open>
  What the operations of the hub leave alone. \<open>relays\<close> is what every handler of a leg
  does to the hub as a whole: it may end terminals, and keeps the queues, the tickets,
  the clock and who each terminal is. \<open>calm\<close> says more of the handlers that carry no
  output: every browser that stays attached has seen nothing new, and its ring and its
  gate are as they were.
\<close>

section \<open>Fields\<close>

lemma update_heap [simp]: "heap (update i f h) = (heap h)(i := map_option f (heap h i))"
  by (simp add: update_def)

lemma update_frame [simp]:
  "terminals (update i f h) = terminals h" "pending (update i f h) = pending h"
  "waiters (update i f h) = waiters h" "waited (update i f h) = waited h"
  "tickets (update i f h) = tickets h" "opens (update i f h) = opens h"
  "now (update i f h) = now h" "gone (update i f h) = gone h" "sent (update i f h) = sent h"
  by (simp_all add: update_def)

lemma field_Some: "heap h i = Some t \<Longrightarrow> field i f d h = f t"
  by (simp add: field_def)

lemma close_leg_frame [simp]:
  "heap (close_leg s c h) = heap h" "terminals (close_leg s c h) = terminals h"
  "pending (close_leg s c h) = pending h" "waiters (close_leg s c h) = waiters h"
  "waited (close_leg s c h) = waited h" "tickets (close_leg s c h) = tickets h"
  "opens (close_leg s c h) = opens h" "now (close_leg s c h) = now h"
  "gone (close_leg s c h) = insert s (gone h)"
  by (auto simp: close_leg_def)

section \<open>Relaying\<close>

definition registry_ok :: "hub \<Rightarrow> bool" where
  "registry_ok h \<longleftrightarrow> distinct (terminals h) \<and>
     (\<forall>i. i \<in> set (terminals h) \<longleftrightarrow> (\<exists>t. heap h i = Some t \<and> \<not> ended t))"

definition ident :: "terminal \<Rightarrow> nat \<times> string \<times> nat \<times> rat \<times> nat option \<times> nat option \<times> terminal_command option
    \<times> string option \<times> bool" where
  "ident t = (t_id t, t_user t, t_machine_id t, opened_at t, canvas t, attach t, t_command t, run_name t, offered t)"

definition relays :: "hub \<Rightarrow> hub \<Rightarrow> bool" where
  "relays h k \<longleftrightarrow>
     opens k = opens h \<and> pending k = pending h \<and> waiters k = waiters h \<and> waited k = waited h \<and>
     tickets k = tickets h \<and> now k = now h \<and>
     (\<forall>i. map_option ident (heap k i) = map_option ident (heap h i)) \<and>
     (\<forall>i t u. heap h i = Some t \<longrightarrow> heap k i = Some u \<longrightarrow> ended t \<longrightarrow> ended u) \<and>
     (registry_ok h \<longrightarrow> registry_ok k)"

lemma relays_refl [simp]: "relays h h"
  by (simp add: relays_def)

lemma relays_heap:
  assumes "relays h k"
  shows "heap h i = None \<longleftrightarrow> heap k i = None"
    "heap k i = Some u \<Longrightarrow> \<exists>t. heap h i = Some t \<and> ident u = ident t \<and> (ended t \<longrightarrow> ended u)"
    "heap h i = Some t \<Longrightarrow> \<exists>u. heap k i = Some u \<and> ident u = ident t \<and> (ended t \<longrightarrow> ended u)"
proof -
  have e: "map_option ident (heap k i) = map_option ident (heap h i)" using assms by (simp add: relays_def)
  show "heap h i = None \<longleftrightarrow> heap k i = None" using e by (metis map_option_is_None)
  show "heap k i = Some u \<Longrightarrow> \<exists>t. heap h i = Some t \<and> ident u = ident t \<and> (ended t \<longrightarrow> ended u)"
    using e assms unfolding relays_def by (cases "heap h i") force+
  show "heap h i = Some t \<Longrightarrow> \<exists>u. heap k i = Some u \<and> ident u = ident t \<and> (ended t \<longrightarrow> ended u)"
    using e assms unfolding relays_def by (cases "heap k i") force+
qed

lemma relays_trans [trans]: assumes "relays h k" "relays k l" shows "relays h l"
proof -
  have "ended v" if "heap h i = Some t" "heap l i = Some v" "ended t" for i t v
    using relays_heap(3) [OF assms(1) that(1)] relays_heap(3) [OF assms(2)] that(2,3) by fastforce
  then show ?thesis using assms by (simp add: relays_def)
qed

lemma relays_update:
  assumes "\<And>t. heap h i = Some t \<Longrightarrow> ident (f t) = ident t \<and> ended (f t) = ended t"
  shows "relays h (update i f h)"
proof -
  have "registry_ok h \<longrightarrow> registry_ok (update i f h)"
    using assms unfolding registry_ok_def by (auto split: if_splits)
  moreover have "map_option ident (map_option f (heap h i)) = map_option ident (heap h i)"
    using assms by (cases "heap h i") simp_all
  ultimately show ?thesis using assms by (auto simp: relays_def)
qed

lemma relays_sockets [simp]: "relays h (h\<lparr>gone := g, sent := s\<rparr>)" "relays h (h\<lparr>sent := s\<rparr>)"
  by (simp_all add: relays_def registry_ok_def)

lemma relays_close [simp]: "relays h (close_leg s c h)"
  by (simp add: close_leg_def)

lemma relays_close_legs [simp]: "relays h (close_legs ls c h)"
proof (induction ls arbitrary: h)
  case (Cons l ls)
  let ?k = "case l of None \<Rightarrow> h | Some s \<Rightarrow> close_leg s c h"
  have "relays h ?k" by (cases l) simp_all
  from relays_trans [OF this Cons] show ?case by (simp add: close_legs_def)
qed (simp add: close_legs_def)

lemma relays_end [simp]: "relays h (end_terminal i c h)"
proof (cases "\<exists>t. heap h i = Some t \<and> \<not> ended t")
  case True
  then obtain t where t: "heap h i = Some t" "\<not> ended t" by blast
  let ?k = "(update i (ended_update (\<lambda>_. True)) h)
              \<lparr>terminals := filter (\<lambda>j. j \<noteq> i) (terminals h)\<rparr>"
  have "registry_ok h \<longrightarrow> registry_ok ?k" using t by (auto simp: registry_ok_def)
  then have "relays h ?k" using t by (simp add: relays_def ident_def)
  then have "relays h (close_legs [host t, browser t] c ?k)" by (rule relays_trans) simp
  then show ?thesis using t by (simp add: end_terminal_def Let_def)
next
  case False
  then show ?thesis by (auto simp: end_terminal_def split: option.split)
qed

lemma relays_send_to_host [simp]: "relays h (send_to_host i k p h)"
  by (auto simp: send_to_host_def send_bytes_def split: option.splits)

lemma relays_fields [simp]:
  "relays h (update i (pre_resize_update f1) h)" "relays h (update i (pre_input_update f2) h)"
  "relays h (update i (starting_update f3) h)" "relays h (update i (t_ring_update f4) h)"
  "relays h (update i (output_rate_update f5) h)" "relays h (update i (input_rate_update f6) h)"
  "relays h (update i (stopping_update f7) h)" "relays h (update i (signals_update f8) h)"
  "relays h (update i (replaying_update f9) h)" "relays h (update i (last_input_at_update f10) h)"
  "relays h (update i (\<lambda>t. t\<lparr>pre_resize := None, pre_input := []\<rparr>) h)"
  "relays h (update i (\<lambda>t. t\<lparr>browser := b, detached_at := d\<rparr>) h)"
  "relays h (update i (\<lambda>t. t\<lparr>host := hs, starting := st\<rparr>) h)"
  "relays h (update i (\<lambda>t. t\<lparr>last_input_at := x, direct_until := y\<rparr>) h)"
  "relays h (update i (\<lambda>t. t\<lparr>browser := b, detached_at := d, direct_until := y, replaying := g\<rparr>) h)"
  by (rule relays_update; simp add: ident_def)+

text \<open>
  A relation between hubs that the elementary changes of a leg keep - assignments to its
  fields, closing and ending, a frame to the host - is kept by every handler built from
  them. \<open>relays\<close> and, below the state machine, \<open>calm\<close> are such relations.
\<close>

locale leg_relation =
  fixes R :: "hub \<Rightarrow> hub \<Rightarrow> bool"
  assumes keeps_refl: "R h h"
    and keeps_trans: "R h h1 \<Longrightarrow> R h1 h2 \<Longrightarrow> R h h2"
    and keeps_fields:
      "R h (update i (pre_resize_update f1) h)" "R h (update i (pre_input_update f2) h)"
      "R h (update i (starting_update f3) h)" "R h (update i (output_rate_update f5) h)"
      "R h (update i (input_rate_update f6) h)" "R h (update i (stopping_update f7) h)"
      "R h (update i (signals_update f8) h)" "R h (update i (last_input_at_update f10) h)"
      "R h (update i (\<lambda>t. t\<lparr>pre_resize := None, pre_input := []\<rparr>) h)"
      "R h (update i (\<lambda>t. t\<lparr>browser := None, detached_at := d\<rparr>) h)"
      "R h (update i (\<lambda>t. t\<lparr>host := None, starting := st\<rparr>) h)"
      "R h (update i (\<lambda>t. t\<lparr>last_input_at := x, direct_until := y\<rparr>) h)"
    and keeps_end: "R h (end_terminal i c h)"
    and keeps_send: "R h (send_to_host i kd p h)"
begin

lemmas keeps_simps = keeps_refl keeps_fields keeps_end keeps_send

lemma keeps_to_host: "R h (to_host i k p h)"
  by (simp add: to_host_def keeps_simps)

lemma keeps_start_host: "R h (start_host i h)"
proof -
  let ?h1 = "update i (starting_update (\<lambda>_. False)) h"
  let ?h2 = "update i (\<lambda>t. t\<lparr>pre_resize := None, pre_input := []\<rparr>) ?h1"
  let ?h3 = "case field i pre_resize None ?h1 of None \<Rightarrow> ?h2 | Some p \<Rightarrow> send_to_host i RESIZE p ?h2"
  have "R h ?h2" by (rule keeps_trans [of _ ?h1]) (simp_all add: keeps_simps)
  moreover have "R ?h2 ?h3" by (simp add: keeps_simps split: option.split)
  ultimately have 3: "R h ?h3" by (rule keeps_trans)
  then have "R h (send_to_host i INPUT p ?h3)" for p by (rule keeps_trans) (simp add: keeps_simps)
  with 3 show ?thesis by (simp add: start_host_def Let_def del: update_heap)
qed

lemma keeps_detach: "R h (detach_browser i s h)"
  by (simp add: detach_browser_def keeps_simps)

lemma keeps_host_lost: "R h (host_lost i s h)"
  by (simp add: host_lost_def keeps_simps)

lemma keeps_keepalive: "R h (keepalive i p h)"
  by (simp add: keepalive_def keeps_simps split: sum.split)

lemma keeps_host_frame: "R h (fst (host_frame i k p h))"
  by (simp add: host_frame_def keeps_simps keeps_start_host keeps_keepalive split: prod.split)

lemma keeps_stop: "R h (stop_terminal i h)"
proof -
  have "R h (end_terminal i c (update i (stopping_update f) h))"
    "R h (to_host i k p (update i (stopping_update f) h))" for f c k p
    by (rule keeps_trans [of _ "update i (stopping_update f) h"]; simp add: keeps_simps keeps_to_host)+
  then show ?thesis by (simp add: stop_terminal_def Let_def del: update_heap)
qed

lemma keeps_signal: "R h (fst (signal_allowed i n h))"
proof -
  have "R h (update i (signals_update g) (update i (signals_update f) h))" for f g
    by (rule keeps_trans [of _ "update i (signals_update f) h"]) (simp_all add: keeps_simps)
  then show ?thesis by (simp add: signal_allowed_def Let_def keeps_simps del: update_heap)
qed

lemma keeps_admit: "R h (fst (admit_input i p h))"
  by (simp add: admit_input_def keeps_simps split: prod.split)

lemma keeps_take_input: "R h (take_input i p h)"
  unfolding take_input_def
  by (rule keeps_trans [of _ "update i (last_input_at_update (\<lambda>_. now h)) h"])
    (simp_all add: keeps_simps keeps_to_host)

lemma keeps_browser_frame: "R h (fst (browser_frame i k p h))"
proof -
  have "R h h1" if "signal_allowed i n h = (h1, b)" for n h1 b
    using keeps_signal [of h i n] that by simp
  then show ?thesis
    by (auto simp: browser_frame_def keeps_refl keeps_to_host keeps_stop split: sum.split prod.split
        intro: keeps_trans [OF _ keeps_to_host])
qed

lemma keeps_fold: "(\<And>x h. R h (f x h)) \<Longrightarrow> R h (fold f xs h)"
  by (induction xs arbitrary: h) (auto intro: keeps_trans keeps_refl)

lemma keeps_close_machine: "R h (close_machine m h)"
  by (simp add: close_machine_def keeps_fold keeps_end)

lemma keeps_sweep_one: "R h (sweep_one al x i h)"
proof -
  have "R h (end_terminal i c (to_host i k p h))" for c k p
    by (rule keeps_trans [of _ "to_host i k p h"]) (simp_all add: keeps_end keeps_to_host)
  then show ?thesis by (simp add: sweep_one_def keeps_refl split: option.split)
qed

lemma keeps_sweep: "R h (sweep al h)"
  by (simp add: sweep_def keeps_fold keeps_sweep_one)

lemmas keeps_handlers = keeps_to_host keeps_start_host keeps_detach keeps_host_lost keeps_host_frame
  keeps_stop keeps_admit keeps_take_input keeps_browser_frame keeps_close_machine keeps_sweep

end

interpretation leg: leg_relation relays
  by unfold_locales (simp_all, rule relays_trans)

lemmas relays_handlers [simp] = leg.keeps_handlers

lemma relays_to_browser [simp]: "relays h (to_browser i s k p h)"
  by (auto simp: to_browser_def send_bytes_def split: option.split)

lemma relays_live [simp]: "relays h (live i k p h)"
  by (simp add: live_def split: option.split)

lemma relays_host_connected [simp]: "relays h (fst (host_connected i s r h))"
proof -
  let ?h1 = "update i (\<lambda>t. t\<lparr>host := Some s, starting := r\<rparr>) h"
  let ?h2 = "close_legs [field i host None h] CLOSE_TAKEN_OVER ?h1"
  have 2: "relays h ?h2" by (rule relays_trans [of _ ?h1]) simp_all
  have "relays h (?h2\<lparr>sent := x\<rparr>)" for x by (rule relays_trans [OF 2]) simp
  moreover have "relays h (update i (\<lambda>t. t\<lparr>host := None, starting := False\<rparr>) ?h2)" by (rule relays_trans [OF 2]) simp
  moreover have "relays h (start_host i ?h2)" by (rule relays_trans [OF 2]) simp
  ultimately show ?thesis
    using 2 by (auto simp: host_connected_def send_bytes_def Let_def simp del: update_heap)
qed

lemma relays_deliver [simp]: "relays h (deliver i k p h)"
proof -
  have "relays h (live i kk p (update i (t_ring_update f) h))" for f kk
    by (rule relays_trans [of _ "update i (t_ring_update f) h"]) simp_all
  moreover have "relays h (end_terminal i c (live i kk p h))" for c kk
    by (rule relays_trans [of _ "live i kk p h"]) simp_all
  ultimately show ?thesis by (simp add: deliver_def)
qed

lemma relays_attach_begin [simp]: "relays h (fst (attach_begin i s off g h))"
  by (simp add: attach_begin_def split: prod.split)

lemma relays_attach_step [simp]: "relays h (fst (attach_step r h))"
  by (simp add: attach_step_def split: list.split action.split)

lemma relays_attach_finish [simp]: "relays h (attach_finish r h)"
  by (simp add: attach_finish_def)

end
