(* ===== verification/Terminal_Machine.thy ===== *)
theory Terminal_Machine
  imports Terminal_Frames
begin

text \<open>
  The hub as one transition system. Besides the handlers, time passes and peers leave. A
  replay in progress is part of the state, so that its awaits interleave with every other
  handler; ids, sockets, gates and futures are new where the source makes new ones.
\<close>

type_synonym system = "hub \<times> replay list"

definition fresh_socket :: "socket \<Rightarrow> system \<Rightarrow> bool" where
  "fresh_socket s x \<longleftrightarrow>
     (\<forall>j u. heap (fst x) j = Some u \<longrightarrow> host u \<noteq> Some s \<and> browser u \<noteq> Some s) \<and>
     s \<notin> r_socket ` set (snd x)"

text \<open>The wire's offsets are unsigned 64-bit integers: no stream grows past them.\<close>

definition offsets_fit :: "terminal_id \<Rightarrow> bytes \<Rightarrow> hub \<Rightarrow> bool" where
  "offsets_fit i p h \<longleftrightarrow> ring_end (field i t_ring (Ring RING_BYTES) h) + int (length p) < 256 ^ 8"

inductive hub_step :: "system \<Rightarrow> system \<Rightarrow> bool" where
  tick: "0 \<le> d \<Longrightarrow> hub_step (h, rs) (h\<lparr>now := now h + d\<rparr>, rs)"
| left: "hub_step (h, rs) (h\<lparr>gone := insert s (gone h)\<rparr>, rs)"
| opened: "heap h i = None \<Longrightarrow> open_terminal i q h = Inr k \<Longrightarrow> hub_step (h, rs) (k, rs)"
| minted: "heap h i = Some t \<Longrightarrow> tickets h token = None \<Longrightarrow> hub_step (h, rs) (mint_ticket token t h, rs)"
| redeemed: "hub_step (h, rs) (fst (redeem token u i h), rs)"
| wait_began: "w \<notin> fst ` set (waiters h m) \<Longrightarrow> hub_step (h, rs) (fst (wait_begin m sec w h), rs)"
| wait_woke: "(w, True) \<in> set (waiters h m) \<Longrightarrow> w' \<notin> fst ` set (waiters h m) \<Longrightarrow>
    hub_step (h, rs) (fst (wait_woken m deadline w w' h), rs)"
| wait_timed_out: "(w, False) \<in> set (waiters h m) \<Longrightarrow> hub_step (h, rs) (wait_timeout m w h, rs)"
| attach_began: "i \<in> set (terminals h) \<Longrightarrow> fresh_socket s (h, rs) \<Longrightarrow> g \<notin> r_gate ` set rs \<Longrightarrow>
    attach_begin i s off g h = (k, r) \<Longrightarrow> hub_step (h, rs) (k, rs @ [r])"
| attach_stepped: "n < length rs \<Longrightarrow> attach_step (rs ! n) h = (k, r) \<Longrightarrow> hub_step (h, rs) (k, rs[n := r])"
| attach_finished: "n < length rs \<Longrightarrow> r_todo (rs ! n) = [] \<Longrightarrow>
    hub_step (h, rs) (attach_finish (rs ! n) h, take n rs @ drop (Suc n) rs)"
| browser_left: "hub_step (h, rs) (detach_browser i s h, rs)"
| host_came: "fresh_socket s (h, rs) \<Longrightarrow> hub_step (h, rs) (fst (host_connected i s is_ready h), rs)"
| host_left: "hub_step (h, rs) (host_lost i s h, rs)"
| host_sent: "hub_step (h, rs) (fst (host_frame i k p h), rs)"
| delivered: "replay_over i h \<Longrightarrow> offsets_fit i p h \<Longrightarrow> hub_step (h, rs) (deliver i k p h, rs)"
| input_admitted: "hub_step (h, rs) (fst (admit_input i p h), rs)"
| input_taken: "hub_step (h, rs) (take_input i p h, rs)"
| browser_sent: "hub_step (h, rs) (fst (browser_frame i k p h), rs)"
| stopped: "hub_step (h, rs) (stop_terminal i h, rs)"
| machine_closed: "hub_step (h, rs) (close_machine m h, rs)"
| swept: "hub_step (h, rs) (sweep alive h, rs)"

definition hub_start :: "system \<Rightarrow> bool" where
  "hub_start x \<longleftrightarrow> (\<exists>t. x = (empty_hub t, []))"

text \<open>
  The steps that are neither an open, a wait, a ticket nor the passing of time only relay.
\<close>

lemma hub_step_cases [consumes 1,
    case_names relayed ticked opened minted redeemed waiting rewaiting timed_out]:
  assumes "hub_step (h, rs) (k, ss)"
  obtains "relays h k"
  | d where "0 \<le> d" "k = h\<lparr>now := now h + d\<rparr>"
  | i q where "heap h i = None" "open_terminal i q h = Inr k"
  | i t token where "heap h i = Some t" "tickets h token = None" "k = mint_ticket token t h"
  | token u i where "k = fst (redeem token u i h)"
  | m deadline w where "w \<notin> fst ` set (waiters h m)" "k = fst (wait_try m deadline w (heard m h))"
  | m deadline w w' where "(w, True) \<in> set (waiters h m)" "w' \<notin> fst ` set (waiters h m)"
      "k = fst (wait_try m deadline w' (drop_waiter m w h))"
  | m w where "(w, False) \<in> set (waiters h m)" "k = heard m (drop_waiter m w h)"
  using assms
proof cases
  case (left s)
  have "relays h (h\<lparr>gone := insert s (gone h)\<rparr>)"
    by (simp add: relays_def registry_ok_def)
  then show ?thesis using left that(1) by simp
next
  case (attach_began i s g off r)
  then show ?thesis using that(1) relays_attach_begin by (metis fst_conv)
next
  case (attach_stepped n r)
  then show ?thesis using that(1) relays_attach_step by (metis fst_conv)
next
  case (wait_began w m sec)
  then show ?thesis using that(6) [of w m] by (simp add: wait_begin_def)
next
  case (wait_woke w m w' deadline)
  then show ?thesis using that(7) [of w m w'] by (simp add: wait_woken_def)
next
  case (wait_timed_out w m)
  then show ?thesis using that(8) [of w m] by (simp add: wait_timeout_def)
next
  case (tick d)
  then show ?thesis using that(2) by simp
next
  case (opened i q)
  then show ?thesis using that(3) by simp
next
  case (minted i t token)
  then show ?thesis using that(4) by simp
next
  case (redeemed token u i)
  then show ?thesis using that(5) by simp
qed (rule that(1), simp)+

end
