(* ===== verification/Terminal_Replay.thy ===== *)
theory Terminal_Replay
  imports Terminal_Machine "HOL-Library.Multiset"
begin

text \<open>
  A browser sees the host's output with no gap and no repetition: whatever comes in
  between a replay's awaits, a browser whose replay is over has been told the offset its
  output starts at, and has seen every byte from there to the end of the ring.
\<close>

section \<open>What a browser saw\<close>

definition attached :: "hub \<Rightarrow> terminal_id \<Rightarrow> socket \<Rightarrow> terminal \<Rightarrow> bool" where
  "attached h i s t \<longleftrightarrow> heap h i = Some t \<and> \<not> ended t \<and> browser t = Some s \<and> s \<notin> gone h"

text \<open>The offset of the last \<open>ACK\<close>, and the output since.\<close>

fun watch :: "(int \<times> bytes) option \<Rightarrow> message \<Rightarrow> (int \<times> bytes) option" where
  "watch v (Sent ACK p) = (if length p = 8 then Some (from_bytes p, []) else v)"
| "watch v (Sent OUTPUT p) = map_option (\<lambda>(z, b). (z, b @ p)) v"
| "watch v m = v"

definition seen :: "socket \<Rightarrow> hub \<Rightarrow> (int \<times> bytes) option" where
  "seen s h = foldl watch None (map snd (filter (\<lambda>m. fst m = s) (sent h)))"

definition agrees :: "(int \<times> bytes) option \<Rightarrow> ring \<Rightarrow> bool" where
  "agrees v r =
     (case v of None \<Rightarrow> False
      | Some (z, b) \<Rightarrow> z + int (length b) = ring_end r \<and> (suffix b (data r) \<or> suffix (data r) b))"

definition ring_ok :: "ring \<Rightarrow> bool" where
  "ring_ok r \<longleftrightarrow> capacity r = RING_BYTES \<and> 0 \<le> ring_start r \<and> ring_end r < 256 ^ 8"

lemma agrees_append: "agrees (Some (z, b)) r \<Longrightarrow> agrees (Some (z, b @ p)) (ring_append p r)"
proof -
  assume a: "agrees (Some (z, b)) r"
  let ?d = "data (ring_append p r)"
  have d: "suffix ?d (data r @ p)" by (simp add: ring_append_def Let_def suffix_drop del: drop_append)
  have "suffix (b @ p) (data r @ p) \<or> suffix (data r @ p) (b @ p)"
    using a by (auto simp: agrees_def)
  then have "suffix (b @ p) ?d \<or> suffix ?d (b @ p)"
    using d suffix_same_cases suffix_order.trans by blast
  then show ?thesis using a by (simp add: agrees_def ring_append_def Let_def)
qed

lemma agrees_reset: "length p = 8 \<Longrightarrow> agrees (Some (from_bytes p, [])) (ring_reset (from_bytes p) r)"
  by (simp add: agrees_def ring_reset_def)

lemma ring_ok_Ring [simp]: "ring_ok (Ring RING_BYTES)"
  by (simp add: ring_ok_def Ring_def ring_start_def)

lemma ring_ok_append: "ring_ok r \<Longrightarrow> ring_end r + int (length p) < 256 ^ 8 \<Longrightarrow> ring_ok (ring_append p r)"
  by (auto simp: ring_ok_def ring_append_def ring_start_def Let_def)

lemma ring_ok_reset: "capacity r = RING_BYTES \<Longrightarrow> length p = 8 \<Longrightarrow> ring_ok (ring_reset (from_bytes p) r)"
  using from_bytes_bounds [of p] by (simp add: ring_ok_def ring_reset_def ring_start_def)

section \<open>Handlers that carry no output\<close>

definition apart :: "hub \<Rightarrow> bool" where
  "apart h \<longleftrightarrow> (\<forall>i s t j u. attached h i s t \<longrightarrow> heap h j = Some u \<longrightarrow> \<not> ended u \<longrightarrow>
     host u \<noteq> Some s \<and> (browser u = Some s \<longrightarrow> j = i))"

definition same_views :: "hub \<Rightarrow> hub \<Rightarrow> bool" where
  "same_views h k \<longleftrightarrow> (\<forall>i s u. attached k i s u \<longrightarrow>
     (\<exists>t. attached h i s t \<and> replaying u = replaying t \<and> t_ring u = t_ring t) \<and> seen s k = seen s h)"

definition same_hosts :: "hub \<Rightarrow> hub \<Rightarrow> bool" where
  "same_hosts h k \<longleftrightarrow> (\<forall>j u x. heap k j = Some u \<longrightarrow> \<not> ended u \<longrightarrow> host u = Some x \<longrightarrow>
     (\<exists>t. heap h j = Some t \<and> \<not> ended t \<and> host t = Some x) \<or> (\<forall>i v. \<not> attached k i x v))"

definition same_rings :: "hub \<Rightarrow> hub \<Rightarrow> bool" where
  "same_rings h k \<longleftrightarrow> (\<forall>j u. heap k j = Some u \<longrightarrow>
     (\<exists>t. heap h j = Some t \<and> t_ring u = t_ring t) \<or> t_ring u = Ring RING_BYTES)"

definition calm :: "hub \<Rightarrow> hub \<Rightarrow> bool" where
  "calm h k \<longleftrightarrow> same_rings h k \<and> (apart h \<longrightarrow> same_views h k \<and> same_hosts h k)"

lemma calm_apart:
  assumes "calm h k" "apart h" shows "apart k"
  unfolding apart_def
proof (intro allI impI)
  fix i s t j u assume a: "attached k i s t" and u: "heap k j = Some u" "\<not> ended u"
  have v: "same_views h k" and hs: "same_hosts h k" using assms by (simp_all add: calm_def)
  obtain t' where t': "attached h i s t'" using v a unfolding same_views_def by blast
  have "host u \<noteq> Some s" using hs u a t' assms(2) unfolding same_hosts_def apart_def by blast
  moreover have "j = i" if "browser u = Some s"
  proof -
    have "attached k j s u" using a u that by (simp add: attached_def)
    then obtain u' where "attached h j s u'" using v unfolding same_views_def by blast
    then show "j = i" using assms(2) t' unfolding apart_def attached_def by blast
  qed
  ultimately show "host u \<noteq> Some s \<and> (browser u = Some s \<longrightarrow> j = i)" by blast
qed

lemma calm_refl [simp]: "calm h h"
  unfolding calm_def same_rings_def same_views_def same_hosts_def by blast

lemma calm_trans: assumes "calm h k" "calm k l" shows "calm h l"
proof -
  have "same_rings h l"
    unfolding same_rings_def
  proof (intro allI impI)
    fix j v assume "heap l j = Some v"
    with assms(2) consider u where "heap k j = Some u" "t_ring v = t_ring u" | "t_ring v = Ring RING_BYTES"
      by (auto simp: calm_def same_rings_def)
    then show "(\<exists>t. heap h j = Some t \<and> t_ring v = t_ring t) \<or> t_ring v = Ring RING_BYTES"
      using assms(1) by (cases) (force simp: calm_def same_rings_def)+
  qed
  moreover have "same_views h l" "same_hosts h l" if a: "apart h"
  proof -
    have 1: "same_views h k" "same_hosts h k" and 2: "same_views k l" "same_hosts k l"
      using assms calm_apart [OF assms(1) a] a by (simp_all add: calm_def)
    show "same_views h l" using 1(1) 2(1) unfolding same_views_def by metis
    show "same_hosts h l" unfolding same_hosts_def
    proof (intro allI impI)
      fix j u x assume l: "heap l j = Some u" "\<not> ended u" "host u = Some x"
      have "\<forall>i v. \<not> attached l i x v" if "\<forall>i v. \<not> attached k i x v"
        using that 2(1) unfolding same_views_def by blast
      then show "(\<exists>t. heap h j = Some t \<and> \<not> ended t \<and> host t = Some x) \<or> (\<forall>i v. \<not> attached l i x v)"
        using l 1(2) 2(2) unfolding same_hosts_def by blast
    qed
  qed
  ultimately show ?thesis by (simp add: calm_def)
qed

lemma calm_heap:
  assumes "heap k = heap h" "gone h \<subseteq> gone k" "\<And>s. s \<notin> gone k \<Longrightarrow> seen s k = seen s h"
  shows "calm h k"
  unfolding calm_def same_rings_def same_views_def same_hosts_def attached_def
  using assms by auto

text \<open>An assignment that leaves ring, gate and legs, or lets go of a leg.\<close>

lemma calm_update:
  assumes "\<And>t. heap h i = Some t \<Longrightarrow> t_ring (f t) = t_ring t \<and> (ended t \<longrightarrow> ended (f t)) \<and>
     (replaying (f t) = replaying t \<and> browser (f t) = browser t \<or> browser (f t) = None) \<and>
     (host (f t) = host t \<or> host (f t) = None \<or> (\<forall>j v. \<not> attached h j (the (host (f t))) v))"
  shows "calm h (update i f h)"
proof -
  have s: "seen s (update i f h) = seen s h" for s by (simp add: seen_def)
  have v: "\<exists>t. attached h j s t \<and> replaying u = replaying t \<and> t_ring u = t_ring t"
    if "attached (update i f h) j s u" for j s u
    using that assms by (auto simp: attached_def split: if_splits)
  then have "same_views h (update i f h)" by (simp add: same_views_def s)
  moreover have "same_hosts h (update i f h)"
    unfolding same_hosts_def
  proof (intro allI impI)
    fix j u x assume u: "heap (update i f h) j = Some u" "\<not> ended u" "host u = Some x"
    show "(\<exists>t. heap h j = Some t \<and> \<not> ended t \<and> host t = Some x) \<or> (\<forall>i' v. \<not> attached (update i f h) i' x v)"
    proof (cases "j = i")
      case True
      then obtain t where t: "heap h i = Some t" "u = f t" using u by auto
      then show ?thesis using assms [OF t(1)] u True v by (metis option.distinct(1) option.sel)
    qed (use u in auto)
  qed
  moreover have "same_rings h (update i f h)" using assms by (auto simp: same_rings_def split: if_splits)
  ultimately show ?thesis by (simp add: calm_def)
qed

lemma calm_close [simp]: "calm h (close_leg s c h)"
  by (rule calm_heap) (auto simp: close_leg_def seen_def)

lemma calm_close_legs [simp]: "calm h (close_legs ls c h)"
proof (induction ls arbitrary: h)
  case (Cons l ls)
  let ?k = "case l of None \<Rightarrow> h | Some s \<Rightarrow> close_leg s c h"
  have "calm h ?k" by (cases l) simp_all
  from calm_trans [OF this Cons] show ?case by (simp add: close_legs_def)
qed (simp add: close_legs_def)

lemma calm_end [simp]: "calm h (end_terminal i c h)"
proof (cases "\<exists>t. heap h i = Some t \<and> \<not> ended t")
  case True
  then obtain t where t: "heap h i = Some t" "\<not> ended t" by blast
  let ?h1 = "update i (ended_update (\<lambda>_. True)) h"
  let ?k = "?h1\<lparr>terminals := filter (\<lambda>j. j \<noteq> i) (terminals h)\<rparr>"
  have "calm h ?h1" by (rule calm_update) simp
  moreover have "calm ?h1 ?k" by (rule calm_heap) (simp_all add: seen_def)
  ultimately have "calm h ?k" by (rule calm_trans)
  from calm_trans [OF this calm_close_legs] show ?thesis using t by (simp add: end_terminal_def Let_def)
next
  case False
  then show ?thesis by (auto simp: end_terminal_def split: option.split)
qed

text \<open>A message to a socket no browser is attached through.\<close>

lemma calm_send:
  assumes "apart h \<Longrightarrow> \<forall>i t. \<not> attached h i x t"
  shows "calm h (h\<lparr>sent := sent h @ [(x, m)]\<rparr>)"
proof -
  have a: "attached (h\<lparr>sent := sent h @ [(x, m)]\<rparr>) = attached h" by (simp add: attached_def fun_eq_iff)
  have "seen s (h\<lparr>sent := sent h @ [(x, m)]\<rparr>) = seen s h" if "s \<noteq> x" for s
    using that by (simp add: seen_def)
  then have "same_views h (h\<lparr>sent := sent h @ [(x, m)]\<rparr>)" if "\<forall>i t. \<not> attached h i x t"
    using that unfolding same_views_def a by metis
  then show ?thesis using assms
    by (auto simp: calm_def same_rings_def same_hosts_def a)
qed

lemma calm_send_to_host [simp]: "calm h (send_to_host i k p h)"
proof (cases "\<exists>t x. heap h i = Some t \<and> \<not> ended t \<and> host t = Some x")
  case True
  then obtain t x where t: "heap h i = Some t" "\<not> ended t" "host t = Some x" by blast
  then have "\<forall>j v. \<not> attached h j x v" if "apart h" using that unfolding apart_def by blast
  from calm_send [OF this] show ?thesis
    using t by (simp add: send_to_host_def field_def send_bytes_def)
qed (auto simp: send_to_host_def field_def split: option.split)

lemma calm_fields [simp]:
  "calm h (update i (pre_resize_update f1) h)" "calm h (update i (pre_input_update f2) h)"
  "calm h (update i (starting_update f3) h)"
  "calm h (update i (output_rate_update f5) h)" "calm h (update i (input_rate_update f6) h)"
  "calm h (update i (stopping_update f7) h)" "calm h (update i (signals_update f8) h)"
  "calm h (update i (last_input_at_update f10) h)" "calm h (update i (offered_update f11) h)"
  "calm h (update i (\<lambda>t. t\<lparr>pre_resize := None, pre_input := []\<rparr>) h)"
  "calm h (update i (\<lambda>t. t\<lparr>browser := None, detached_at := d\<rparr>) h)"
  "calm h (update i (\<lambda>t. t\<lparr>host := None, starting := st\<rparr>) h)"
  "calm h (update i (\<lambda>t. t\<lparr>last_input_at := x, direct_until := y\<rparr>) h)"
  by (rule calm_update; simp)+

interpretation legs: leg_relation calm
  by unfold_locales (simp_all, rule calm_trans)

lemmas calm_handlers [simp] = legs.keeps_handlers

section \<open>Handlers of the hub as a whole\<close>

lemma calm_same: "heap k = heap h \<Longrightarrow> gone k = gone h \<Longrightarrow> sent k = sent h \<Longrightarrow> calm h k"
  by (rule calm_heap) (simp_all add: seen_def)

lemma open_terminal_ok:
  "open_terminal i q h = Inr k \<longleftrightarrow> check (o_user q) h = Inr () \<and>
     k = h\<lparr>heap := (heap h)(i \<mapsto> new_terminal i (now h) q), terminals := terminals h @ [i],
           pending := (pending h)(o_machine_id q := pending h (o_machine_id q) @ [i]),
           opens := (opens h)(o_user q := dropWhile (\<lambda>a. now h - a \<ge> 60) (opens h (o_user q)) @ [now h]),
           waiters := (waiters h)(o_machine_id q := wake_first (waiters h (o_machine_id q)))\<rparr>"
  by (auto simp: open_terminal_def res_simps Let_def)

lemma new_terminal_sel [simp]:
  "t_id (new_terminal i x q) = i" "t_user (new_terminal i x q) = o_user q"
  "t_machine_id (new_terminal i x q) = o_machine_id q" "opened_at (new_terminal i x q) = x"
  "t_command (new_terminal i x q) = o_command q" "run_name (new_terminal i x q) = named_run i q"
  "offered (new_terminal i x q) = False" "host (new_terminal i x q) = None"
  "browser (new_terminal i x q) = None" "ended (new_terminal i x q) = False"
  "t_ring (new_terminal i x q) = Ring RING_BYTES"
  by (simp_all add: new_terminal_def)

lemma calm_open: "open_terminal i q h = Inr k \<Longrightarrow> calm h k"
  unfolding open_terminal_ok
  by (auto simp: calm_def same_rings_def same_views_def same_hosts_def attached_def seen_def
      split: if_splits)

lemma calm_take [simp]: "calm h (fst (take_next m h))"
proof -
  have 1: "calm h (h\<lparr>pending := q\<rparr>)" for q by (rule calm_same) simp_all
  have "calm h (update i (offered_update (\<lambda>_. True)) (h\<lparr>pending := q\<rparr>))" for i q
    using calm_trans [OF 1 calm_fields(9)] .
  with 1 show ?thesis by (simp add: take_next_def Let_def split: prod.split option.split)
qed

lemma calm_wait_try [simp]: "calm h (fst (wait_try m deadline w h))"
proof -
  have 1: "calm h h1" if "take_next m h = (h1, x)" for h1 x using calm_take [of h m] that by simp
  have 2: "calm k (heard m k)" "calm k (k\<lparr>waiters := ws\<rparr>)" for k ws
    by (rule calm_same; simp add: heard_def)+
  show ?thesis
    using calm_trans [OF 1 2(1)] calm_trans [OF 1 2(2)]
    by (auto simp: wait_try_def split: prod.split option.split)
qed

lemma calm_wait [simp]:
  "calm h (fst (wait_begin m sec w h))" "calm h (fst (wait_woken m deadline w w' h))"
  "calm h (wait_timeout m w h)" "calm h (mint_ticket token t h)" "calm h (fst (redeem token u i h))"
  "calm h (h\<lparr>now := x\<rparr>)" "calm h (h\<lparr>gone := insert s (gone h)\<rparr>)"
proof -
  have 1: "calm h (heard m h)" "calm h (drop_waiter m w h)"
    by (rule calm_same; simp add: heard_def drop_waiter_def)+
  show "calm h (fst (wait_begin m sec w h))" unfolding wait_begin_def by (rule calm_trans [OF 1(1)]) simp
  show "calm h (fst (wait_woken m deadline w w' h))" unfolding wait_woken_def
    by (rule calm_trans [OF 1(2)]) simp
  show "calm h (wait_timeout m w h)" "calm h (mint_ticket token t h)" "calm h (fst (redeem token u i h))"
    "calm h (h\<lparr>now := x\<rparr>)"
    by (rule calm_same; simp add: wait_timeout_def heard_def drop_waiter_def mint_ticket_def redeem_def Let_def)+
  show "calm h (h\<lparr>gone := insert s (gone h)\<rparr>)" by (rule calm_heap) (auto simp: seen_def)
qed

lemma calm_host_connected:
  assumes "fresh_socket s (h, rs)" shows "calm h (fst (host_connected i s r h))"
proof -
  let ?h1 = "update i (\<lambda>t. t\<lparr>host := Some s, starting := r\<rparr>) h"
  let ?h2 = "close_legs [field i host None h] CLOSE_TAKEN_OVER ?h1"
  have un: "\<not> attached h j s v" for j v using assms by (auto simp: fresh_socket_def attached_def)
  have "calm h ?h1" by (rule calm_update) (use un in auto)
  then have 2: "calm h ?h2" by (rule calm_trans) simp
  have un1: "\<not> attached ?h1 j s v" for j v using assms by (auto simp: fresh_socket_def attached_def)
  have "\<not> attached ?h2 j s v" for j v
    using un1 [of j v] by (auto simp: attached_def close_legs_def simp del: update_heap split: option.splits)
  then have "calm h (?h2\<lparr>sent := sent ?h2 @ [(s, m)]\<rparr>)" for m
    by (intro calm_trans [OF 2] calm_send) blast
  moreover have "calm h (update i (\<lambda>t. t\<lparr>host := None, starting := False\<rparr>) ?h2)"
    "calm h (start_host i ?h2)"
    by (rule calm_trans [OF 2]; simp)+
  ultimately show ?thesis
    using 2 by (auto simp: host_connected_def send_bytes_def Let_def simp del: update_heap)
qed

lemma calm_detaching_send:
  "(apart h \<Longrightarrow> \<forall>i t. \<not> attached h i s t) \<Longrightarrow> calm h (to_browser j s k p h)"
  by (auto simp: to_browser_def send_bytes_def intro: calm_send)

text \<open>A frame the browser does not count as output.\<close>

lemma calm_live:
  assumes "k = SIGNAL \<or> k = EXIT" shows "calm h (live i k p h)"
proof -
  have "seen s (h\<lparr>sent := sent h @ [(x, Sent k p)]\<rparr>) = seen s h" for s x
    using assms by (auto simp: seen_def)
  then have "calm h (h\<lparr>sent := sent h @ [(x, Sent k p)]\<rparr>)" for x by (intro calm_heap) simp_all
  then show ?thesis by (simp add: live_def to_browser_def send_bytes_def split: option.split)
qed

section \<open>The invariant\<close>

definition todo_messages :: "action list \<Rightarrow> message list" where
  "todo_messages as = List.map_filter (\<lambda>a. case a of ToBrowser k p \<Rightarrow> Some (Sent k p) | _ \<Rightarrow> None) as"

definition no_raise :: "action list \<Rightarrow> bool" where
  "no_raise as = list_all (\<lambda>a. case a of Raise e \<Rightarrow> False | _ \<Rightarrow> True) as"

definition replays_for :: "replay \<Rightarrow> terminal_id \<Rightarrow> socket \<Rightarrow> terminal \<Rightarrow> hub \<Rightarrow> bool" where
  "replays_for r i s t h \<longleftrightarrow>
     r_terminal r = i \<and> r_socket r = s \<and> no_raise (r_todo r) \<and>
     agrees (foldl watch (seen s h) (todo_messages (r_todo r))) (t_ring t)"

definition view_ok :: "system \<Rightarrow> terminal_id \<Rightarrow> socket \<Rightarrow> terminal \<Rightarrow> bool" where
  "view_ok x i s t =
     (case replaying t of
        None \<Rightarrow> agrees (seen s (fst x)) (t_ring t)
      | Some g \<Rightarrow> \<exists>r\<in>set (snd x). r_gate r = g \<and> replays_for r i s t (fst x))"

definition replay_ok :: "system \<Rightarrow> bool" where
  "replay_ok x \<longleftrightarrow>
     apart (fst x) \<and> distinct (map r_gate (snd x)) \<and>
     (\<forall>j u. heap (fst x) j = Some u \<longrightarrow> ring_ok (t_ring u)) \<and>
     (\<forall>r\<in>set (snd x). \<forall>i t. attached (fst x) i (r_socket r) t \<longrightarrow>
        r_terminal r = i \<and> replaying t = Some (r_gate r)) \<and>
     (\<forall>i s t. attached (fst x) i s t \<longrightarrow> view_ok x i s t)"

lemma replay_okI:
  assumes "apart h" "distinct (map r_gate rs)" "\<And>j u. heap h j = Some u \<Longrightarrow> ring_ok (t_ring u)"
    "\<And>r i t. r \<in> set rs \<Longrightarrow> attached h i (r_socket r) t \<Longrightarrow> r_terminal r = i \<and> replaying t = Some (r_gate r)"
    "\<And>i s t. attached h i s t \<Longrightarrow> view_ok (h, rs) i s t"
  shows "replay_ok (h, rs)"
  using assms by (simp add: replay_ok_def)

lemma replay_okD:
  assumes "replay_ok (h, rs)"
  shows "apart h" "distinct (map r_gate rs)" "heap h j = Some u \<Longrightarrow> ring_ok (t_ring u)"
    "r \<in> set rs \<Longrightarrow> attached h i (r_socket r) t \<Longrightarrow> r_terminal r = i \<and> replaying t = Some (r_gate r)"
    "attached h i s t \<Longrightarrow> view_ok (h, rs) i s t"
  using assms by (simp_all add: replay_ok_def)

lemma calm_replay_ok:
  assumes c: "calm h k" and ok: "replay_ok (h, rs)" shows "replay_ok (k, rs)"
proof (rule replay_okI)
  note d = replay_okD [OF ok]
  have v: "same_views h k" using c d(1) by (simp add: calm_def)
  have old: "\<exists>t. attached h i s t \<and> replaying u = replaying t \<and> t_ring u = t_ring t" "seen s k = seen s h"
    if "attached k i s u" for i s u
    using v that unfolding same_views_def by blast+
  show "apart k" using calm_apart [OF c d(1)] .
  show "distinct (map r_gate rs)" by (rule d(2))
  show "ring_ok (t_ring u)" if "heap k j = Some u" for j u
  proof -
    have "(\<exists>t. heap h j = Some t \<and> t_ring u = t_ring t) \<or> t_ring u = Ring RING_BYTES"
      using c that by (simp add: calm_def same_rings_def)
    then show ?thesis using d(3) ring_ok_Ring by metis
  qed
  show "r_terminal r = i \<and> replaying u = Some (r_gate r)" if "r \<in> set rs" "attached k i (r_socket r) u" for r i u
    using old(1) [OF that(2)] d(4) [OF that(1)] by metis
  show "view_ok (k, rs) i s u" if a: "attached k i s u" for i s u
  proof -
    obtain t where t: "attached h i s t" "replaying u = replaying t" "t_ring u = t_ring t" using old(1) [OF a] by blast
    show ?thesis using d(5) [OF t(1)]
      by (simp add: view_ok_def replays_for_def t(2,3) old(2) [OF a] cong: option.case_cong)
  qed
qed

lemma calm_system: "replay_ok x \<Longrightarrow> x = (h, rs) \<Longrightarrow> y = (k, rs) \<Longrightarrow> calm h k \<Longrightarrow> replay_ok y"
  using calm_replay_ok by simp

section \<open>The attach\<close>

lemma since_parts:
  assumes "since off r = (bs, resume, lost)" "0 \<le> ring_start r"
  shows "resume + int (length bs) = ring_end r" "suffix bs (data r)" "0 \<le> resume" "resume \<le> ring_end r"
proof -
  have se: "ring_end r = ring_start r + int (length (data r))" by (simp add: ring_start_def)
  have re: "resume = max (min off (ring_end r)) (ring_start r)"
    and b: "bs = drop (nat (resume - ring_start r)) (data r)"
    using assms(1) by (auto simp: since_def Let_def)
  show "suffix bs (data r)" by (simp add: b suffix_drop)
  show "0 \<le> resume" "resume \<le> ring_end r" using re assms(2) se by simp_all
  then show "resume + int (length bs) = ring_end r" using re se by (simp add: b max_def min_def split: if_splits)
qed

lemma foldl_watch_replay:
  assumes "since off r = (bs, resume, lost)" "ring_ok r"
    "as = replay_actions previous (ring_end r) bs resume lost"
  shows "no_raise as" "agrees (foldl watch v (todo_messages as)) r"
proof -
  have r: "0 \<le> ring_start r" "ring_end r < 256 ^ 8" using assms(2) by (simp_all add: ring_ok_def)
  note sp = since_parts [OF assms(1) r(1)]
  have e: "0 \<le> ring_end r" "0 \<le> resume" "resume < 256 ^ 8" using sp r by linarith+
  obtain b where b: "to_bytes (ring_end r) 8 = Inr b" using to_bytes_ok [OF e(1) r(2)] by blast
  obtain a where a: "to_bytes resume 8 = Inr a" "length a = 8" "from_bytes a = resume"
    using to_bytes_ok [OF e(2,3)] by blast
  have as: "as = (case previous of None \<Rightarrow> [] | Some p \<Rightarrow> [CloseLeg p CLOSE_TAKEN_OVER]) @
      [ToHost ROUTE (0 # b)] @ (if lost then [ToBrowser OUTPUT output_lost] else []) @
      [ToBrowser ACK a] @ (if bs \<noteq> [] then [ToBrowser OUTPUT bs] else [])"
    by (simp add: assms(3) replay_actions_def encode_route_def ROUTE_RELAY_def a(1) b split: option.split)
  show "no_raise as" by (simp add: as no_raise_def split: option.split)
  have "foldl watch v (todo_messages as) = Some (resume, bs)"
    by (simp add: as todo_messages_def map_filter_simps a(2,3) split: option.split)
  then show "agrees (foldl watch v (todo_messages as)) r" using sp by (simp add: agrees_def)
qed

lemma attach_begin_ok:
  assumes ok: "replay_ok (h, rs)" and i: "heap h i = Some t" "\<not> ended t"
    and fs: "fresh_socket s (h, rs)" and fg: "g \<notin> r_gate ` set rs"
    and st: "attach_begin i s off g h = (k, r)"
  shows "replay_ok (k, rs @ [r])"
proof (rule replay_okI)
  note d = replay_okD [OF ok]
  let ?f = "\<lambda>t. t\<lparr>browser := Some s, detached_at := None, direct_until := 0, replaying := Some g\<rparr>"
  obtain bs resume lost where sn: "since off (t_ring t) = (bs, resume, lost)" by (metis prod_cases3)
  have k: "k = update i ?f h" and r: "r_gate r = g" "r_terminal r = i" "r_socket r = s"
    and todo: "r_todo r = replay_actions (browser t) (ring_end (t_ring t)) bs resume lost"
    using st i sn by (auto simp: attach_begin_def field_def Let_def)
  have unused: "host u \<noteq> Some s" "browser u \<noteq> Some s" if "heap h j = Some u" for j u
    using fs that by (auto simp: fresh_socket_def)
  have a: "attached k j x u \<longleftrightarrow> (if j = i then x = s \<and> u = ?f t \<and> s \<notin> gone h else attached h j x u)" for j x u
    using i by (auto simp: attached_def k)
  have sv: "seen x k = seen x h" for x by (simp add: k seen_def)
  have hk: "heap k j = (if j = i then Some (?f t) else heap h j)" for j using i by (simp add: k)
  show "apart k"
    unfolding apart_def a
  proof (intro allI impI)
    fix j x v l u assume av: "if j = i then x = s \<and> v = ?f t \<and> s \<notin> gone h else attached h j x v"
      and u: "heap k l = Some u" "\<not> ended u"
    show "host u \<noteq> Some x \<and> (browser u = Some x \<longrightarrow> l = j)"
    proof (cases "j = i")
      case True
      then show ?thesis using av u i unused by (auto simp: hk split: if_splits)
    next
      case False
      then have ah: "attached h j x v" using av by simp
      then have "x \<noteq> s" using unused by (auto simp: attached_def)
      moreover have "host v' \<noteq> Some x \<and> (browser v' = Some x \<longrightarrow> l' = j)"
        if "heap h l' = Some v'" "\<not> ended v'" for l' v'
        using ah that d(1) unfolding apart_def by blast
      ultimately show ?thesis using u i by (auto simp: hk split: if_splits)
    qed
  qed
  show "distinct (map r_gate (rs @ [r]))" using d(2) fg r by auto
  show "ring_ok (t_ring u)" if "heap k j = Some u" for j u
    using that d(3) i by (auto simp: hk split: if_splits)
  show "r_terminal r' = j \<and> replaying u = Some (r_gate r')"
    if r': "r' \<in> set (rs @ [r])" and ak: "attached k j (r_socket r') u" for r' j u
  proof (cases "r' = r")
    case True
    have "\<not> attached h j s u" using unused by (auto simp: attached_def)
    then show ?thesis using ak True r by (auto simp: a split: if_splits)
  next
    case False
    then have "r' \<in> set rs" "r_socket r' \<noteq> s" using r' fs by (auto simp: fresh_socket_def)
    then show ?thesis using ak d(4) by (auto simp: a split: if_splits)
  qed
  show "view_ok (k, rs @ [r]) j x u" if ak: "attached k j x u" for j x u
  proof (cases "j = i")
    case True
    have "replays_for r i s (?f t) k"
      using foldl_watch_replay [OF sn d(3) [OF i(1)] todo] by (simp add: replays_for_def r)
    then show ?thesis using ak True by (simp add: a view_ok_def r)
  next
    case False
    then have "view_ok (h, rs) j x u" using ak d(5) by (simp add: a)
    then show ?thesis by (auto simp: view_ok_def replays_for_def sv split: option.splits)
  qed
qed

lemma nth_gate:
  assumes "distinct (map r_gate rs)" "n < length rs" "r' \<in> set rs" "r_gate r' = r_gate (rs ! n)"
  shows "r' = rs ! n"
  using assms by (metis distinct_map inj_onD nth_mem)

text \<open>Replacing a replay by its rest: the others witness what they witnessed.\<close>

lemma replaced_ok:
  assumes ok: "replay_ok (h, rs)" and n: "n < length rs"
    and r: "r_gate r = r_gate (rs ! n)" "r_terminal r = r_terminal (rs ! n)" "r_socket r = r_socket (rs ! n)"
    and ap: "apart k" and hp: "heap k = heap h" "gone k = gone h"
    and mine: "\<And>t. attached h (r_terminal r) (r_socket r) t \<Longrightarrow> replays_for (rs ! n) (r_terminal r) (r_socket r) t h \<Longrightarrow>
        replays_for r (r_terminal r) (r_socket r) t k"
    and others: "\<And>s i t. attached h i s t \<Longrightarrow> s \<noteq> r_socket r \<Longrightarrow> seen s k = seen s h"
  shows "replay_ok (k, rs[n := r])"
proof (rule replay_okI)
  note d = replay_okD [OF ok]
  have at: "attached k = attached h" by (simp add: attached_def hp fun_eq_iff)
  have gates: "map r_gate (rs[n := r]) = map r_gate rs"
    using n r(1) by (simp add: map_update list_update_same_conv)
  show "apart k" by (rule ap)
  show "distinct (map r_gate (rs[n := r]))" by (simp only: gates d(2))
  show "ring_ok (t_ring u)" if "heap k j = Some u" for j u using that d(3) hp by simp
  show "r_terminal r' = i \<and> replaying t = Some (r_gate r')"
    if "r' \<in> set (rs[n := r])" "attached k i (r_socket r') t" for r' i t
    using that d(4) [of r' i t] d(4) [of "rs ! n" i t] n r set_update_subset_insert [of rs n r]
    by (auto simp: at)
  show "view_ok (k, rs[n := r]) i s t" if "attached k i s t" for i s t
  proof -
    have a: "attached h i s t" using that by (simp add: at)
    note v = d(5) [OF a]
    show ?thesis
    proof (cases "replaying t")
      case None
      have "s \<noteq> r_socket r" using a None d(4) [of "rs ! n" i t] n r(3) by auto
      then show ?thesis using v None others [OF a] by (simp add: view_ok_def)
    next
      case (Some g)
      then obtain r' where r': "r' \<in> set rs" "r_gate r' = g" "replays_for r' i s t h"
        using v by (auto simp: view_ok_def)
      show ?thesis
      proof (cases "r' = rs ! n")
        case True
        then have "i = r_terminal r" "s = r_socket r" using r' r by (auto simp: replays_for_def)
        then have "replays_for r i s t k" using mine r' True a by blast
        then show ?thesis using Some True r' r n by (auto simp: view_ok_def intro: bexI [OF _ set_update_memI])
      next
        case False
        then have m: "r' \<in> set (rs[n := r])" using r'(1) n
          by (metis in_set_conv_nth length_list_update nth_list_update_neq)
        have "s \<noteq> r_socket r"
        proof
          assume "s = r_socket r"
          then have "replaying t = Some (r_gate (rs ! n))" using a d(4) [of "rs ! n" i t] n r(3) by auto
          then show False using nth_gate [OF d(2) n r'(1)] False Some r'(2) by simp
        qed
        then have "seen s k = seen s h" by (rule others [OF a])
        then show ?thesis using Some r' m by (auto simp: view_ok_def replays_for_def)
      qed
    qed
  qed
qed

lemma apart_same: "apart h \<Longrightarrow> heap k = heap h \<Longrightarrow> gone k = gone h \<Longrightarrow> apart k"
  by (simp add: apart_def attached_def)

lemma attach_step_ok:
  assumes ok: "replay_ok (h, rs)" and n: "n < length rs" and st: "attach_step (rs ! n) h = (k, r)"
  shows "replay_ok (k, rs[n := r])"
proof (cases "r_todo (rs ! n)")
  case Nil
  then have "h = k" "rs ! n = r" using st by (simp_all add: attach_step_def)
  then show ?thesis using ok by auto
next
  case (Cons a as)
  let ?r = "rs ! n"
  note simp = attach_step_def Cons
  have ap: "apart h" by (rule replay_okD [OF ok])
  have same: "replay_ok (h, rs[n := r])"
    if "r_gate r = r_gate ?r" "r_terminal r = r_terminal ?r" "r_socket r = r_socket ?r"
      "\<And>i s t. attached h i s t \<Longrightarrow> replays_for ?r i s t h \<Longrightarrow> replays_for r i s t h"
    by (rule replaced_ok [OF ok n that(1-3) ap refl refl that(4) refl])
  show ?thesis
  proof (cases a)
    case (CloseLeg s c)
    then have "k = close_leg s c h" "r = ?r\<lparr>r_todo := as\<rparr>" using st by (simp_all add: simp)
    moreover have "replay_ok (h, rs[n := r])"
      by (rule same) (use Cons CloseLeg calculation in \<open>auto simp: replays_for_def todo_messages_def no_raise_def
          map_filter_simps\<close>)
    ultimately show ?thesis using calm_replay_ok [OF calm_close] by simp
  next
    case (ToHost kd p)
    then have "k = to_host (r_terminal ?r) kd p h" "r = ?r\<lparr>r_todo := as\<rparr>" using st by (simp_all add: simp)
    moreover have "replay_ok (h, rs[n := r])"
      by (rule same) (use Cons ToHost calculation in \<open>auto simp: replays_for_def todo_messages_def no_raise_def
          map_filter_simps\<close>)
    ultimately show ?thesis using calm_replay_ok [OF calm_handlers(1)] by simp
  next
    case (Raise e)
    then have "k = h" "r = ?r\<lparr>r_todo := []\<rparr>" using st by (simp_all add: simp)
    moreover have "replay_ok (h, rs[n := r])"
      by (rule same) (use Cons Raise calculation in \<open>auto simp: replays_for_def no_raise_def\<close>)
    ultimately show ?thesis by simp
  next
    case (ToBrowser kd p)
    let ?s = "r_socket ?r" and ?i = "r_terminal ?r"
    have k: "k = to_browser ?i ?s kd p h" and r: "r = ?r\<lparr>r_todo := as\<rparr>"
      using st ToBrowser by (simp_all add: simp)
    show ?thesis
    proof (cases "?s \<in> gone h")
      case True
      then have kd: "k = detach_browser ?i ?s h" by (simp add: k to_browser_def send_bytes_def)
      have okk: "replay_ok (k, rs)" unfolding kd by (rule calm_replay_ok [OF _ ok]) simp
      have g: "?s \<in> gone k" using True by (simp add: kd detach_browser_def)
      then have "\<not> attached k i ?s t" for i t by (simp add: attached_def)
      then show ?thesis
        by (intro replaced_ok [OF okk n]) (use r replay_okD(1) [OF okk] in auto)
    next
      case False
      then have kk: "k = h\<lparr>sent := sent h @ [(?s, Sent kd p)]\<rparr>" by (simp add: k to_browser_def send_bytes_def)
      have "seen ?s k = watch (seen ?s h) (Sent kd p)" by (simp add: kk seen_def)
      moreover have "seen s k = seen s h" if "s \<noteq> ?s" for s using that by (simp add: kk seen_def)
      ultimately show ?thesis
        using Cons ToBrowser
        by (intro replaced_ok [OF ok n])
          (auto simp: r kk replays_for_def todo_messages_def no_raise_def map_filter_simps intro: apart_same [OF ap])
    qed
  qed
qed

lemma attach_finish_ok:
  assumes ok: "replay_ok (h, rs)" and n: "n < length rs" and todo: "r_todo (rs ! n) = []"
  shows "replay_ok (attach_finish (rs ! n) h, take n rs @ drop (Suc n) rs)"
proof -
  let ?r = "rs ! n" and ?i = "r_terminal (rs ! n)" and ?rs = "take n rs @ drop (Suc n) rs"
  let ?k = "attach_finish ?r h"
  note d = replay_okD [OF ok]
  have perm: "mset rs = mset (?r # ?rs)"
    by (metis Cons_nth_drop_Suc append_take_drop_id mset.simps(2) mset_append n union_mset_add_mset_right)
  have sub: "set ?rs \<subseteq> set rs" using set_take_subset [of n rs] set_drop_subset [of "Suc n" rs] by auto
  have rest: "r' \<in> set ?rs" if "r' \<in> set rs" "r' \<noteq> ?r" for r'
    using that perm by (metis set_ConsD set_mset_mset)
  have dist: "distinct (map r_gate (?r # ?rs))"
    using d(2) perm by (metis distinct_map mset_eq_imp_distinct_iff mset_map)
  have hk: "heap ?k j = Some u \<longleftrightarrow> (\<exists>t. heap h j = Some t \<and>
      u = (if j = ?i \<and> replaying t = Some (r_gate ?r) then t\<lparr>replaying := None\<rparr> else t))" for j u
    by (auto simp: attach_finish_def field_def split: option.splits)
  have fr: "gone ?k = gone h" "sent ?k = sent h" by (simp_all add: attach_finish_def)
  have at: "\<exists>t. attached h j s t \<and>
      u = (if j = ?i \<and> replaying t = Some (r_gate ?r) then t\<lparr>replaying := None\<rparr> else t)"
    if "attached ?k j s u" for j s u
    using that by (auto simp: attached_def hk fr split: if_splits)
  have sv: "seen s ?k = seen s h" for s by (simp add: seen_def fr)
  show ?thesis
  proof (rule replay_okI)
    have "heap ?k j = Some u \<Longrightarrow> \<exists>t. heap h j = Some t \<and> ended t = ended u \<and> host t = host u \<and> browser t = browser u \<and>
      t_ring t = t_ring u" for j u by (auto simp: hk split: if_splits)
    note same = this
    show "apart ?k"
      unfolding apart_def
    proof (intro allI impI)
      fix j s v l u assume a: "attached ?k j s v" and u: "heap ?k l = Some u" "\<not> ended u"
      obtain t where "attached h j s t" using at [OF a] by blast
      moreover obtain u' where "heap h l = Some u'" "\<not> ended u'" "host u' = host u" "browser u' = browser u"
        using same [OF u(1)] u(2) by auto
      ultimately show "host u \<noteq> Some s \<and> (browser u = Some s \<longrightarrow> l = j)"
        using d(1) unfolding apart_def by metis
    qed
    show "distinct (map r_gate ?rs)" using dist by simp
    show "ring_ok (t_ring u)" if "heap ?k j = Some u" for j u using same [OF that] d(3) by metis
    show "r_terminal r' = j \<and> replaying u = Some (r_gate r')"
      if r': "r' \<in> set ?rs" and a: "attached ?k j (r_socket r') u" for r' j u
    proof -
      obtain t where t: "attached h j (r_socket r') t"
        "u = (if j = ?i \<and> replaying t = Some (r_gate ?r) then t\<lparr>replaying := None\<rparr> else t)"
        using at [OF a] by blast
      have "r_gate r' \<noteq> r_gate ?r" using dist r' by (auto simp: image_iff)
      then show ?thesis using d(4) [OF _ t(1)] t(2) r' sub by auto
    qed
    show "view_ok (?k, ?rs) j s u" if a: "attached ?k j s u" for j s u
    proof -
      obtain t where t: "attached h j s t"
        and u: "u = (if j = ?i \<and> replaying t = Some (r_gate ?r) then t\<lparr>replaying := None\<rparr> else t)"
        using at [OF a] by blast
      note v = d(5) [OF t]
      show ?thesis
      proof (cases "replaying t")
        case None
        then show ?thesis using v u by (simp add: view_ok_def sv)
      next
        case (Some g)
        then obtain r' where r': "r' \<in> set rs" "r_gate r' = g" "replays_for r' j s t h"
          using v by (auto simp: view_ok_def)
        show ?thesis
        proof (cases "r' = ?r")
          case True
          then have "u = t\<lparr>replaying := None\<rparr>" using u Some r' by (auto simp: replays_for_def)
          moreover have "agrees (seen s h) (t_ring t)"
            using r'(3) todo True by (simp add: replays_for_def todo_messages_def)
          ultimately show ?thesis by (simp add: view_ok_def sv)
        next
          case False
          then have "r_gate r' \<noteq> r_gate ?r" using nth_gate [OF d(2) n r'(1)] by blast
          then have "u = t" using u Some r'(2) by auto
          moreover have "replays_for r' j s t ?k" using r'(3) by (simp add: replays_for_def sv)
          ultimately show ?thesis using rest [OF r'(1) False] Some r'(2) by (auto simp: view_ok_def)
        qed
      qed
    qed
  qed
qed

section \<open>The host's frames\<close>

text \<open>Output, or an offset, reaches the ring and the browser together.\<close>

lemma relayed_ok:
  assumes ok: "replay_ok (h, rs)" and t: "heap h i = Some t" "\<not> ended t" and gate: "replaying t = None"
    and ring: "ring_ok (f (t_ring t))"
    and step: "\<And>v. agrees v (t_ring t) \<Longrightarrow> agrees (watch v (Sent kd p)) (f (t_ring t))"
  shows "replay_ok (live i kd p (update i (t_ring_update f) h), rs)"
proof -
  note d = replay_okD [OF ok]
  let ?h1 = "update i (t_ring_update f) h"
  let ?u = "t\<lparr>t_ring := f (t_ring t)\<rparr>"
  have h1: "heap ?h1 i = Some ?u" using t by simp
  have at: "attached ?h1 j s u \<longleftrightarrow> (if j = i then u = ?u \<and> attached h j s t else attached h j s u)" for j s u
    using t by (auto simp: attached_def)
  have noreplay: "r \<in> set rs \<Longrightarrow> attached h i (r_socket r) t \<Longrightarrow> False" for r
    using d(4) gate by fastforce
  have main: "replay_ok (k, rs)" if hk: "heap k = heap ?h1" "gone k = gone h"
    and mine: "\<And>s. attached h i s t \<Longrightarrow> seen s k = watch (seen s h) (Sent kd p)"
    and others: "\<And>j s u. attached h j s u \<Longrightarrow> j \<noteq> i \<Longrightarrow> seen s k = seen s h" for k
  proof (rule replay_okI)
    have ak: "attached k j s u \<longleftrightarrow> (if j = i then u = ?u \<and> attached h j s t else attached h j s u)" for j s u
      unfolding at [symmetric] by (simp add: attached_def hk)
    show "apart k"
      unfolding apart_def
    proof (intro allI impI)
      fix j s v l u assume a: "attached k j s v" and u: "heap k l = Some u" "\<not> ended u"
      obtain v' where "attached h j s v'" using a by (auto simp: ak split: if_splits)
      moreover obtain u' where "heap h l = Some u'" "\<not> ended u'" "host u' = host u" "browser u' = browser u"
        using u t by (auto simp: hk split: if_splits)
      ultimately show "host u \<noteq> Some s \<and> (browser u = Some s \<longrightarrow> l = j)"
        using d(1) unfolding apart_def by metis
    qed
    show "distinct (map r_gate rs)" by (rule d(2))
    show "ring_ok (t_ring u)" if "heap k j = Some u" for j u
      using that d(3) ring t by (auto simp: hk split: if_splits)
    show "r_terminal r = j \<and> replaying u = Some (r_gate r)" if "r \<in> set rs" "attached k j (r_socket r) u" for r j u
      using that d(4) noreplay by (auto simp: ak split: if_splits)
    show "view_ok (k, rs) j s u" if a: "attached k j s u" for j s u
    proof (cases "j = i")
      case True
      then have "attached h i s t" and u: "u = ?u" using a by (simp_all add: ak)
      then have "agrees (seen s h) (t_ring t)" using d(5) [of i s t] gate by (simp add: view_ok_def)
      moreover have "seen s k = watch (seen s h) (Sent kd p)" using mine a True by (simp add: ak)
      ultimately show ?thesis using step u gate by (simp add: view_ok_def)
    next
      case False
      then have ah: "attached h j s u" using a by (simp add: ak)
      have "view_ok (k, rs) j s u = view_ok (h, rs) j s u"
        by (simp add: view_ok_def replays_for_def others [OF ah False] cong: option.case_cong)
      then show ?thesis using d(5) [OF ah] by simp
    qed
  qed
  show ?thesis
  proof (cases "browser t")
    case None
    then have "live i kd p ?h1 = ?h1" by (simp add: live_def field_def t del: update_heap add: h1)
    moreover have "replay_ok (?h1, rs)"
      by (rule main) (use None in \<open>auto simp: attached_def seen_def\<close>)
    ultimately show ?thesis by simp
  next
    case (Some s)
    then have l: "live i kd p ?h1 = to_browser i s kd p ?h1" by (simp add: live_def field_def h1 del: update_heap)
    show ?thesis
    proof (cases "s \<in> gone h")
      case True
      then have "live i kd p ?h1 = detach_browser i s ?h1" by (simp add: l to_browser_def send_bytes_def)
      moreover have "replay_ok (?h1, rs)"
        by (rule main) (use Some True in \<open>auto simp: attached_def seen_def\<close>)
      ultimately show ?thesis using calm_replay_ok [OF calm_handlers(3)] by simp
    next
      case False
      then have k: "live i kd p ?h1 = ?h1\<lparr>sent := sent h @ [(s, Sent kd p)]\<rparr>"
        by (simp add: l to_browser_def send_bytes_def)
      have a: "attached h i s t" using Some False t by (simp add: attached_def)
      have "s' \<noteq> s" if "attached h j s' u" "j \<noteq> i" for j s' u
        using that a d(1) unfolding apart_def attached_def by metis
      then show ?thesis unfolding k
        by (intro main) (use Some in \<open>auto simp: seen_def attached_def\<close>)
    qed
  qed
qed

lemma deliver_ok:
  assumes ok: "replay_ok (h, rs)" and over: "replay_over i h" and fit: "offsets_fit i p h"
  shows "replay_ok (deliver i k p h, rs)"
proof (cases "\<exists>t. heap h i = Some t \<and> \<not> ended t")
  case False
  then have "deliver i k p h = h" by (auto simp: deliver_def field_def split: option.splits)
  then show ?thesis using ok by simp
next
  case True
  then obtain t where t: "heap h i = Some t" "\<not> ended t" by blast
  have gate: "replaying t = None" using over t by (simp add: replay_over_def field_def)
  have ring: "ring_ok (t_ring t)" using replay_okD(3) [OF ok t(1)] .
  have end_exit: "calm h (end_terminal i CLOSE_ENDED (live i EXIT p h))"
    by (rule calm_trans [OF calm_live [where i = i and k = EXIT and p = p]]) simp_all
  consider "k = OUTPUT" | "k = EXIT" | "k = SIGNAL" | "k = ACK" "length p = 8"
    | "\<not> (k = OUTPUT \<or> k = EXIT \<or> k = SIGNAL \<or> (k = ACK \<and> length p = 8))" by blast
  then show ?thesis
  proof cases
    case 1
    have "agrees (watch v (Sent OUTPUT p)) (ring_append p (t_ring t))" if "agrees v (t_ring t)" for v
      using that agrees_append by (cases v) (auto simp: agrees_def [of None])
    moreover have "ring_ok (ring_append p (t_ring t))"
      using fit t ring by (intro ring_ok_append) (simp_all add: offsets_fit_def field_def)
    ultimately have "replay_ok (live i OUTPUT p (update i (t_ring_update (ring_append p)) h), rs)"
      using relayed_ok [OF ok t gate] by blast
    then show ?thesis using 1 t by (simp add: deliver_def field_def)
  next
    case 2
    then show ?thesis using t calm_replay_ok [OF end_exit ok] by (simp add: deliver_def field_def)
  next
    case 3
    then show ?thesis using t calm_replay_ok [OF calm_live ok] by (simp add: deliver_def field_def)
  next
    case 4
    have "agrees (watch v (Sent ACK p)) (ring_reset (from_bytes p) (t_ring t))" for v
      using agrees_reset 4 by simp
    moreover have "ring_ok (ring_reset (from_bytes p) (t_ring t))"
      using ring 4 by (intro ring_ok_reset) (simp_all add: ring_ok_def)
    ultimately have "replay_ok (live i ACK p (update i (t_ring_update (ring_reset (from_bytes p))) h), rs)"
      using relayed_ok [OF ok t gate] by blast
    then show ?thesis using 4 t by (simp add: deliver_def field_def)
  next
    case 5
    then have "deliver i k p h = h" unfolding deliver_def by (metis (full_types))
    then show ?thesis using ok by simp
  qed
qed

section \<open>Every reachable state\<close>

lemma replay_ok_start: "hub_start x \<Longrightarrow> replay_ok x"
  by (auto simp: hub_start_def empty_hub_def replay_ok_def apart_def attached_def)

lemma registry_ok_step:
  assumes "hub_step (h, rs) (k, ss)" "registry_ok h" shows "registry_ok k"
  using assms
proof (cases rule: hub_step_cases)
  case (opened i q)
  then show ?thesis using assms(2) unfolding open_terminal_ok registry_ok_def
    by (auto split: if_splits)
qed (use assms(2) in \<open>auto simp: relays_def registry_ok_def wait_try_def take_next_def heard_def drop_waiter_def mint_ticket_def
    redeem_def Let_def split: prod.split option.splits\<close>)

lemma replay_ok_step:
  assumes "hub_step x y" "replay_ok x" "registry_ok (fst x)" shows "replay_ok y"
  using assms
proof cases
  case (attach_began i h s rs g off k r)
  then obtain t where "heap h i = Some t" "\<not> ended t" using assms(3) by (auto simp: registry_ok_def)
  then show ?thesis using attach_began assms(2) attach_begin_ok by simp
next
  case (attach_stepped n rs h k r)
  then show ?thesis using assms(2) attach_step_ok by simp
next
  case (attach_finished n rs h)
  then show ?thesis using assms(2) attach_finish_ok by simp
next
  case (delivered i h p rs k)
  then show ?thesis using assms(2) deliver_ok by simp
next
  case (host_came s h rs i r)
  then show ?thesis using assms(2) calm_replay_ok [OF calm_host_connected] by simp
next
  case (opened h i q k rs)
  then show ?thesis using assms(2) calm_replay_ok [OF calm_open] by simp
qed (rule calm_system [OF assms(2)], assumption, assumption, simp)+

interpretation hub: transition_system hub_start hub_step "\<lambda>x. replay_ok x \<and> registry_ok (fst x)"
proof unfold_locales
  show "hub_start x \<Longrightarrow> replay_ok x \<and> registry_ok (fst x)" for x
    using replay_ok_start by (auto simp: hub_start_def empty_hub_def registry_ok_def)
  show "replay_ok x \<and> registry_ok (fst x) \<Longrightarrow> hub_step x y \<Longrightarrow> replay_ok y \<and> registry_ok (fst y)" for x y
    using replay_ok_step registry_ok_step by (metis prod.collapse)
qed

end
