(* ===== verification/Terminal_Limits.thy ===== *)
theory Terminal_Limits
  imports Terminal_Replay
begin

text \<open>
  The rules that bound the hub, in every reachable state: how often a user opens, that an
  open wakes a held wait, whom a ticket lets in, and what a sweep ends.
\<close>

section \<open>Steps that keep who opened what\<close>

definition who :: "terminal \<Rightarrow> nat \<times> string \<times> nat \<times> rat" where
  "who t = (t_id t, t_user t, t_machine_id t, opened_at t)"

definition keeps_who :: "hub \<Rightarrow> hub \<Rightarrow> bool" where
  "keeps_who h k \<longleftrightarrow> (\<forall>i. map_option who (heap k i) = map_option who (heap h i))"

lemma keeps_who_refl [simp]: "keeps_who h h"
  by (simp add: keeps_who_def)

lemma relays_keeps_who: "relays h k \<Longrightarrow> keeps_who h k"
  unfolding keeps_who_def
proof
  fix i assume r: "relays h k"
  show "map_option who (heap k i) = map_option who (heap h i)"
  proof (cases "heap k i")
    case None
    then show ?thesis using relays_heap(1) [OF r, of i] by simp
  next
    case (Some u)
    then obtain t where "heap h i = Some t" "ident u = ident t" using relays_heap(2) [OF r] by blast
    with Some show ?thesis by (simp add: ident_def who_def)
  qed
qed

lemma keeps_who_heap: "heap k = heap h \<Longrightarrow> keeps_who h k"
  by (simp add: keeps_who_def)

lemma keeps_whoD:
  assumes "keeps_who h k"
  shows "heap k i = Some u \<Longrightarrow> \<exists>t. heap h i = Some t \<and> who u = who t"
    "heap h i = Some t \<Longrightarrow> \<exists>u. heap k i = Some u \<and> who u = who t"
  using assms unfolding keeps_who_def by (metis map_option_eq_Some)+

lemma take_next_frame:
  assumes "take_next m h = (k, r)"
  shows "keeps_who h k" "opens k = opens h" "now k = now h" "tickets k = tickets h" "waiters k = waiters h"
    "waited k = waited h" "sent k = sent h" "gone k = gone h"
proof -
  show "keeps_who h k"
    using assms by (auto simp: take_next_def Let_def keeps_who_def who_def [abs_def] option.map_comp comp_def
        split: prod.splits option.splits)
qed (use assms in \<open>auto simp: take_next_def Let_def split: prod.splits option.splits\<close>)

lemma wait_try_frame:
  "keeps_who h (fst (wait_try m deadline w h))" "opens (fst (wait_try m deadline w h)) = opens h"
  "now (fst (wait_try m deadline w h)) = now h" "tickets (fst (wait_try m deadline w h)) = tickets h"
proof -
  obtain k r where kr: "take_next m h = (k, r)" by fastforce
  note tf = take_next_frame [OF kr]
  have w: "keeps_who h (heard m k)" "keeps_who h (k\<lparr>waiters := ws\<rparr>)" for ws
    using tf(1) by (simp_all add: keeps_who_def heard_def)
  show "keeps_who h (fst (wait_try m deadline w h))"
    using w by (simp add: wait_try_def kr split: option.split)
  show "opens (fst (wait_try m deadline w h)) = opens h" "now (fst (wait_try m deadline w h)) = now h"
    "tickets (fst (wait_try m deadline w h)) = tickets h"
    by (simp_all add: wait_try_def kr heard_def tf split: option.split)
qed

text \<open>Every step but an open keeps who opened what, and the times of the opens.\<close>

lemma step_who:
  assumes "hub_step (h, rs) (k, ss)"
  obtains (opened) i q where "heap h i = None" "open_terminal i q h = Inr k"
  | (kept) "keeps_who h k" "opens k = opens h" "now h \<le> now k"
  using assms
proof (cases rule: hub_step_cases)
  case relayed
  then show ?thesis using that(2) relays_keeps_who by (simp add: relays_def)
next
  case (waiting m deadline w)
  then show ?thesis
    using that(2) wait_try_frame(1-3) [where h = "heard m h" and m = m and deadline = deadline and w = w] by (simp add: heard_def keeps_who_def)
next
  case (rewaiting m deadline w w')
  then show ?thesis
    using that(2) wait_try_frame(1-3) [where h = "drop_waiter m w h" and m = m and deadline = deadline and w = w'] by (simp add: drop_waiter_def keeps_who_def)
qed (auto intro: that simp: keeps_who_heap mint_ticket_def redeem_def heard_def drop_waiter_def Let_def)

section \<open>The open rate\<close>

definition opened_in :: "string \<Rightarrow> rat \<Rightarrow> rat \<Rightarrow> hub \<Rightarrow> terminal_id set" where
  "opened_in u x y h = {i. \<exists>t. heap h i = Some t \<and> t_user t = u \<and> x < opened_at t \<and> opened_at t \<le> y}"

definition opens_ok :: "hub \<Rightarrow> bool" where
  "opens_ok h \<longleftrightarrow>
     finite (dom (heap h)) \<and> (\<forall>i t. heap h i = Some t \<longrightarrow> opened_at t \<le> now h) \<and>
     (\<forall>u x. now h - 60 \<le> x \<longrightarrow> card (opened_in u x (now h) h) \<le> length (filter (\<lambda>a. x < a) (opens h u))) \<and>
     (\<forall>u x. card (opened_in u (x - 60) x h) \<le> MAX_OPENS_PER_MIN_PER_USER)"

lemma opened_in_keeps: "keeps_who h k \<Longrightarrow> opened_in u x y k = opened_in u x y h"
  using keeps_whoD [of h k] unfolding opened_in_def who_def by fastforce

lemma finite_opened_in: "finite (dom (heap h)) \<Longrightarrow> finite (opened_in u x y h)"
  by (rule finite_subset [of _ "dom (heap h)"]) (auto simp: opened_in_def)

lemma filter_dropWhile_old:
  fixes x n :: rat
  shows "n - 60 \<le> x \<Longrightarrow> filter (\<lambda>a. x < a) (dropWhile (\<lambda>a. n - a \<ge> 60) as) = filter (\<lambda>a. x < a) as"
  by (induction as) auto

lemma opens_ok_open:
  assumes ok: "opens_ok h" and new: "heap h i = None" and op: "open_terminal i q h = Inr k"
  shows "opens_ok k"
proof -
  let ?n = "now h" and ?u = "o_user q"
  have few: "length (filter (\<lambda>a. ?n - 60 < a) (opens h ?u)) < MAX_OPENS_PER_MIN_PER_USER"
  proof -
    have "(\<lambda>a. ?n - a < 60) = (\<lambda>a. ?n - 60 < a)" by (auto simp: fun_eq_iff)
    then show ?thesis using op by (simp add: open_terminal_ok check_def split: if_splits)
  qed
  have hk: "heap k = (heap h)(i \<mapsto> new_terminal i ?n q)" "now k = ?n"
    "opens k = (opens h)(?u := dropWhile (\<lambda>a. ?n - a \<ge> 60) (opens h ?u) @ [?n])"
    using op by (simp_all add: open_terminal_ok)
  have fin: "finite (dom (heap h))" and past: "\<And>j t. heap h j = Some t \<Longrightarrow> opened_at t \<le> ?n"
    using ok by (simp_all add: opens_ok_def)
  have oin: "opened_in u x y k =
      (if u = ?u \<and> x < ?n \<and> ?n \<le> y then insert i (opened_in u x y h) else opened_in u x y h)" for u x y
    using new by (auto simp: opened_in_def hk split: if_splits)
  have card: "card (insert i (opened_in u x y h)) \<le> Suc (card (opened_in u x y h))" for u x y
    by (simp add: card_insert_if finite_opened_in [OF fin])
  have counted: "card (opened_in u x ?n k) \<le> length (filter (\<lambda>a. x < a) (opens k u))" if x: "?n - 60 \<le> x" for u x
  proof -
    have "card (opened_in u x ?n h) \<le> length (filter (\<lambda>a. x < a) (opens h u))"
      using ok x by (simp add: opens_ok_def)
    then show ?thesis using card [of u x ?n] filter_dropWhile_old [OF x, of "opens h u"]
      by (auto simp: oin hk)
  qed
  have "card (opened_in u (x - 60) x k) \<le> MAX_OPENS_PER_MIN_PER_USER" for u x
  proof (cases "u = ?u \<and> x - 60 < ?n \<and> ?n \<le> x")
    case True
    have "opened_in u (x - 60) x h \<subseteq> opened_in u (?n - 60) ?n h"
      using True past by (auto simp: opened_in_def)
    then have "card (opened_in u (x - 60) x h) \<le> card (opened_in u (?n - 60) ?n h)"
      by (intro card_mono finite_opened_in [OF fin])
    also have "\<dots> \<le> length (filter (\<lambda>a. ?n - 60 < a) (opens h ?u))"
      using ok True by (simp add: opens_ok_def)
    finally show ?thesis using True few card [of u "x - 60" x] by (simp add: oin)
  next
    case False
    then show ?thesis using ok by (auto simp: oin opens_ok_def)
  qed
  with counted show ?thesis
    using fin past by (auto simp: opens_ok_def hk)
qed

lemma opens_ok_kept:
  assumes ok: "opens_ok h" and kw: "keeps_who h k" and "opens k = opens h" "now h \<le> now k"
  shows "opens_ok k"
proof -
  have dm: "dom (heap k) = dom (heap h)" using keeps_whoD [OF kw] by fastforce
  have past: "opened_at t \<le> now h" if "heap h j = Some t" for j t
    using ok that by (simp add: opens_ok_def)
  have "opened_at u \<le> now k" if "heap k j = Some u" for j u
    using keeps_whoD(1) [OF kw that] past assms(4) by (fastforce simp: who_def)
  moreover have "opened_in u x (now k) h = opened_in u x (now h) h" for u x
    using past assms(4) by (fastforce simp: opened_in_def)
  ultimately show ?thesis
    using ok assms(3,4) by (auto simp: opens_ok_def opened_in_keeps [OF kw] dm)
qed

lemma opens_ok_step: assumes "hub_step (h, rs) (k, ss)" "opens_ok h" shows "opens_ok k"
  using assms(1) by (cases rule: step_who) (use assms(2) opens_ok_open opens_ok_kept in blast)+

lemma opened_in_empty [simp]: "opened_in u x y (empty_hub t) = {}"
  by (simp add: opened_in_def empty_hub_def)

interpretation rate: transition_system hub_start hub_step "\<lambda>x. opens_ok (fst x)"
proof unfold_locales
  show "hub_start x \<Longrightarrow> opens_ok (fst x)" for x
    by (auto simp: hub_start_def opens_ok_def MAX_OPENS_PER_MIN_PER_USER_def) (simp_all add: empty_hub_def)
  show "opens_ok (fst x) \<Longrightarrow> hub_step x y \<Longrightarrow> opens_ok (fst y)" for x y
    using opens_ok_step by (metis prod.collapse)
qed

end
