(* ===== verification/Terminal_Queue.thy ===== *)
theory Terminal_Queue
  imports Terminal_Limits
begin

text \<open>
  The queue of opens and the futures of the held waits: the queue of a machine holds its
  opens nobody was offered, and an open never sleeps in it while a wait is held that
  nobody woke. Tickets: each names a terminal and its opener. Terminals that ended stay
  ended.
\<close>

section \<open>The queue\<close>

definition live_pending :: "machine_id \<Rightarrow> hub \<Rightarrow> terminal_id list" where
  "live_pending m h = filter (\<lambda>i. \<not> field i ended True h) (pending h m)"

definition woken :: "machine_id \<Rightarrow> hub \<Rightarrow> nat list" where
  "woken m h = map fst (filter snd (waiters h m))"

definition queue_ok :: "hub \<Rightarrow> bool" where
  "queue_ok h \<longleftrightarrow> (\<forall>m.
     distinct (pending h m) \<and> distinct (map fst (waiters h m)) \<and>
     (\<forall>i \<in> set (pending h m). \<exists>t. heap h i = Some t \<and> t_machine_id t = m \<and> \<not> offered t) \<and>
     (length (live_pending m h) \<le> length (woken m h) \<or> list_all snd (waiters h m)))"

lemma map_fst_wake [simp]: "map fst (wake_first ws) = map fst ws"
  by (induction ws rule: wake_first.induct) auto

lemma wake_first_woken:
  "list_all snd (wake_first ws) \<or> length (filter snd (wake_first ws)) = Suc (length (filter snd ws))"
  by (induction ws rule: wake_first.induct) auto

text \<open>\<open>_take\<close> on the opens of a machine: the oldest that has not ended.\<close>

lemma take_pending_spec:
  assumes "\<forall>i \<in> set q. \<exists>t. H i = Some t \<and> \<not> offered t" "take_pending H q = (q', r)"
  defines "lv \<equiv> \<lambda>i. case H i of None \<Rightarrow> False | Some t \<Rightarrow> \<not> ended t"
  shows "suffix q' q" "filter lv q = (case r of None \<Rightarrow> [] | Some i \<Rightarrow> i # filter lv q')"
    "r = None \<Longrightarrow> q' = []"
  using assms(1,2)
proof (induction q)
  case (Cons i q)
  { case 1
    then obtain t where "H i = Some t" "\<not> offered t" by auto
    with 1 show ?case using Cons(1) by (auto simp: suffix_Cons split: if_splits) }
  { case 2
    then obtain t where "H i = Some t" "\<not> offered t" by auto
    with 2 show ?case using Cons(2) by (auto simp: lv_def split: if_splits) }
  { case 3
    then obtain t where "H i = Some t" "\<not> offered t" by auto
    with 3 show ?case using Cons(3) by (auto split: if_splits) }
qed (auto split: option.split)

lemma suffix_distinct: "suffix p q \<Longrightarrow> distinct q \<Longrightarrow> distinct p"
  by (auto simp: suffix_def)

lemma live_pending_heap:
  "live_pending m h = filter (\<lambda>i. case heap h i of None \<Rightarrow> False | Some t \<Rightarrow> \<not> ended t) (pending h m)"
  unfolding live_pending_def field_def by (rule filter_cong) (auto split: option.split)

text \<open>One \<open>_take\<close>: the queue loses what it hands out, and nothing else of it changes.\<close>

lemma take_next_queue:
  assumes ok: "queue_ok h" and t: "take_next m h = (k, r)"
  shows "distinct (pending k n)" "waiters k = waiters h"
    "\<forall>i \<in> set (pending k n). \<exists>t. heap k i = Some t \<and> t_machine_id t = n \<and> \<not> offered t"
    "live_pending m h = (case r of None \<Rightarrow> [] | Some i \<Rightarrow> i # live_pending m k)"
    "n \<noteq> m \<Longrightarrow> live_pending n k = live_pending n h" "r = None \<Longrightarrow> live_pending m k = []"
    "r = Some i \<Longrightarrow> i \<in> set (live_pending m h) \<and> (\<exists>t. heap k i = Some t \<and> offered t)"
proof -
  obtain q where q: "take_pending (heap h) (pending h m) = (q, r)"
    and k: "k = (case r of None \<Rightarrow> h\<lparr>pending := (pending h)(m := q)\<rparr>
            | Some i \<Rightarrow> update i (offered_update (\<lambda>_. True)) (h\<lparr>pending := (pending h)(m := q)\<rparr>))"
    using t by (auto simp: take_next_def Let_def split: prod.splits)
  have pend: "\<forall>i \<in> set (pending h n). \<exists>t. heap h i = Some t \<and> t_machine_id t = n \<and> \<not> offered t"
    and dist: "distinct (pending h n)" for n
    using ok by (simp_all add: queue_ok_def)
  then have "\<forall>i \<in> set (pending h m). \<exists>t. heap h i = Some t \<and> \<not> offered t" by blast
  note sp = take_pending_spec [OF this q]
  have pk: "pending k = (pending h)(m := q)" by (simp add: k split: option.split)
  show "waiters k = waiters h" by (simp add: k split: option.split)
  show "distinct (pending k n)" using suffix_distinct [OF sp(1)] dist by (simp add: pk)
  have ek: "field i ended True k = field i ended True h" for i
    by (auto simp: k field_def split: option.split)
  then have lk: "live_pending n k = filter (\<lambda>i. \<not> field i ended True h) (pending k n)" for n
    by (simp add: live_pending_def)
  show "n \<noteq> m \<Longrightarrow> live_pending n k = live_pending n h" by (simp only: lk pk) (simp add: live_pending_def)
  have lm: "live_pending m k = filter (\<lambda>i. case heap h i of None \<Rightarrow> False | Some t \<Rightarrow> \<not> ended t) q"
    unfolding lk pk fun_upd_same field_def by (rule filter_cong) (auto split: option.split)
  show split: "live_pending m h = (case r of None \<Rightarrow> [] | Some i \<Rightarrow> i # live_pending m k)"
    using sp(2) by (simp only: live_pending_heap [of m h] lm)
  show "r = None \<Longrightarrow> live_pending m k = []" using sp(3) by (simp add: lk pk)
  have old: "i \<in> set (live_pending m h)" if "r = Some i" for i using split that by simp
  then have mine: "i \<in> set (pending h m)" if "r = Some i" for i using that by (simp add: live_pending_def)
  then show "r = Some i \<Longrightarrow> i \<in> set (live_pending m h) \<and> (\<exists>t. heap k i = Some t \<and> offered t)"
    using old pend [of m] by (fastforce simp: k)
  have gone: "i \<notin> set (pending k n)" if r: "r = Some i" for i
  proof (cases "n = m")
    case True
    have "distinct (filter (\<lambda>i. case heap h i of None \<Rightarrow> False | Some t \<Rightarrow> \<not> ended t) (pending h m))"
      using dist by simp
    then have "i \<notin> set (live_pending m k)" using sp(2) lm r by simp
    moreover have "\<not> field i ended True h" using old [OF r] by (simp add: live_pending_def)
    ultimately show ?thesis using True by (simp add: lk)
  next
    case False
    obtain t where "heap h i = Some t" "t_machine_id t = m" using mine [OF r] pend by blast
    then show ?thesis using False pend [of n] by (auto simp: pk)
  qed
  have sub: "set (pending k n) \<subseteq> set (pending h n)"
    using sp(1) by (auto simp: pk suffix_def)
  show "\<forall>i \<in> set (pending k n). \<exists>t. heap k i = Some t \<and> t_machine_id t = n \<and> \<not> offered t"
  proof
    fix i assume i: "i \<in> set (pending k n)"
    then obtain t where "heap h i = Some t" "t_machine_id t = n" "\<not> offered t" using pend sub by blast
    moreover have "r \<noteq> Some i" using gone i by blast
    ultimately show "\<exists>t. heap k i = Some t \<and> t_machine_id t = n \<and> \<not> offered t"
      by (auto simp: k split: option.split)
  qed
qed

definition wakes_ok :: "machine_id \<Rightarrow> hub \<Rightarrow> bool" where
  "wakes_ok m h \<longleftrightarrow> length (live_pending m h) \<le> length (woken m h) \<or> list_all snd (waiters h m)"

lemma queue_okI:
  assumes "\<And>m. distinct (pending h m)" "\<And>m. distinct (map fst (waiters h m))"
    "\<And>m. \<forall>i \<in> set (pending h m). \<exists>t. heap h i = Some t \<and> t_machine_id t = m \<and> \<not> offered t"
    "\<And>m. wakes_ok m h"
  shows "queue_ok h"
  using assms by (simp add: queue_ok_def wakes_ok_def)

text \<open>A round of the loop, when one open more may be taken than futures are set.\<close>

lemma wait_try_queue:
  assumes ok: "queue_ok h" and fresh: "w \<notin> fst ` set (waiters h m)"
  shows "queue_ok (fst (wait_try m deadline w h))"
proof -
  obtain k r where kr: "take_next m h = (k, r)" by fastforce
  note t = take_next_queue [OF ok kr]
  have wo: "wakes_ok n h" "distinct (map fst (waiters h n))" for n
    using ok by (simp_all add: queue_ok_def wakes_ok_def)
  have other: "wakes_ok n k" if "n \<noteq> m" for n
    using wo [of n] t(2) t(5) [OF that] by (simp add: wakes_ok_def woken_def)
  have heard: "queue_ok (heard m k)" if "\<And>n. wakes_ok n k"
    using t(1,3) wo(2) that
    by (intro queue_okI) (simp_all add: heard_def t(2) wakes_ok_def live_pending_def woken_def field_def)
  show ?thesis
  proof (cases r)
    case (Some i)
    have "wakes_ok m k" using wo [of m] t(2,4) Some by (auto simp: wakes_ok_def woken_def)
    then have "queue_ok (heard m k)" using heard other by metis
    then show ?thesis by (simp add: wait_try_def kr Some)
  next
    case None
    have "wakes_ok m k" using t(6) [OF None] by (simp add: wakes_ok_def)
    then have q1: "queue_ok (heard m k)" using heard other by metis
    let ?k = "k\<lparr>waiters := (waiters k)(m := waiters k m @ [(w, False)])\<rparr>"
    have "wakes_ok n ?k" for n
      using other [of n] t(6) [OF None] by (auto simp: wakes_ok_def live_pending_def woken_def field_def)
    then have "queue_ok ?k"
      using t(1,3) wo(2) fresh by (intro queue_okI) (auto simp: t(2))
    then show ?thesis using q1 by (simp add: wait_try_def kr None)
  qed
qed

text \<open>A waiter that leaves after it was woken takes a future with it; one that was not woken, none.\<close>

lemma filter_drop_one:
  assumes "distinct (map fst ws)" "(w, b) \<in> set ws"
  shows "length (filter snd ws) = length (filter snd (filter (\<lambda>x. fst x \<noteq> w) ws)) + (if b then 1 else 0)"
  using assms
proof (induction ws)
  case (Cons x ws)
  show ?case
  proof (cases "fst x = w")
    case True
    then have "\<forall>y \<in> set ws. fst y \<noteq> w" using Cons.prems(1) True by (metis distinct.simps(2) image_eqI list.set_map list.simps(9))
    moreover from this have "snd x = b" using Cons.prems(2) True by (metis fst_conv set_ConsD snd_conv)
    ultimately show ?thesis using True by (auto simp: filter_id_conv)
  next
    case False
    then show ?thesis using Cons by auto
  qed
qed simp

lemma drop_waiter_queue:
  assumes ok: "queue_ok h" and w: "(w, False) \<in> set (waiters h m)"
  shows "queue_ok (heard m (drop_waiter m w h))"
proof (rule queue_okI)
  have d: "distinct (map fst (waiters h n))" for n using ok by (simp add: queue_ok_def)
  show "wakes_ok n (heard m (drop_waiter m w h))" for n
  proof (cases "n = m")
    case True
    have "\<not> list_all snd (waiters h m)" using w unfolding list_all_iff by (metis snd_conv)
    then have "length (live_pending m h) \<le> length (woken m h)" using ok by (auto simp: queue_ok_def)
    then show ?thesis using filter_drop_one [OF d w] True
      by (simp add: wakes_ok_def live_pending_def woken_def field_def heard_def drop_waiter_def)
  next
    case False
    then show ?thesis using ok
      by (simp add: queue_ok_def wakes_ok_def live_pending_def woken_def field_def heard_def drop_waiter_def)
  qed
qed (use ok in \<open>auto simp: queue_ok_def heard_def drop_waiter_def distinct_map_filter\<close>)

lemma woken_round_queue:
  assumes ok: "queue_ok h" and w: "(w, True) \<in> set (waiters h m)" "w' \<notin> fst ` set (waiters h m)"
  shows "queue_ok (fst (wait_try m deadline w' (drop_waiter m w h)))"
proof -
  let ?h = "drop_waiter m w h"
  have d: "distinct (map fst (waiters h n))" for n using ok by (simp add: queue_ok_def)
  have fr: "heap ?h = heap h" "pending ?h = pending h" by (simp_all add: drop_waiter_def)
  obtain k r where kr: "take_next m h = (k, r)" by fastforce
  note t = take_next_queue [OF ok kr]
  have kr': "take_next m ?h = (k\<lparr>waiters := waiters ?h\<rparr>, r)"
    using kr by (auto simp: take_next_def drop_waiter_def update_def Let_def split: prod.splits option.splits)
  let ?k = "k\<lparr>waiters := waiters ?h\<rparr>"
  have lp: "live_pending n ?k = live_pending n k" for n by (simp add: live_pending_def field_def)
  have dw: "distinct (map fst (waiters ?h n))" for n using d by (simp add: drop_waiter_def distinct_map_filter)
  have other: "wakes_ok n ?k" if "n \<noteq> m" for n
    unfolding wakes_ok_def woken_def lp t(5) [OF that]
    using ok that by (simp add: queue_ok_def woken_def drop_waiter_def)
  have one: "length (woken m h) = Suc (length (filter snd (waiters ?h m)))"
    using filter_drop_one [OF d w(1)] by (simp add: woken_def drop_waiter_def)
  have mine: "wakes_ok m ?k"
  proof (cases r)
    case (Some i)
    have "length (live_pending m h) \<le> length (woken m h) \<or> list_all snd (waiters h m)"
      using ok by (simp add: queue_ok_def)
    then show ?thesis unfolding woken_def wakes_ok_def woken_def lp using t(4) Some one [unfolded woken_def]
      by (auto simp: drop_waiter_def list_all_iff)
  qed (use t(6) in \<open>simp add: wakes_ok_def lp\<close>)
  then have all: "wakes_ok n ?k" for n using other by metis
  have q: "queue_ok ?k" using t(1,3) dw all by (intro queue_okI) simp_all
  show ?thesis
  proof (cases r)
    case (Some i)
    have "queue_ok (heard m ?k)"
      using q by (simp add: queue_ok_def heard_def live_pending_def woken_def field_def)
    then show ?thesis by (simp add: wait_try_def kr' Some)
  next
    case None
    have "take_next m ?k = (?k, None)"
    proof -
      have "pending ?k m = []" using kr None t(6) take_pending_spec(3)
        ok unfolding take_next_def Let_def queue_ok_def by (auto split: prod.splits) blast
      then have "(pending k)(m := []) = pending k" by (simp add: fun_upd_idem)
      then have "?k\<lparr>pending := (pending k)(m := [])\<rparr> = ?k" by simp
      with \<open>pending ?k m = []\<close> show ?thesis by (simp add: take_next_def Let_def)
    qed
    then have "fst (wait_try m deadline w' ?k) = fst (wait_try m deadline w' ?h)"
      by (simp add: wait_try_def kr' None)
    moreover have "w' \<notin> fst ` set (waiters ?k m)" using w(2) by (auto simp: drop_waiter_def)
    ultimately show ?thesis using wait_try_queue [OF q] by metis
  qed
qed

lemma queue_ok_relays:
  assumes r: "relays h k" and ok: "queue_ok h" shows "queue_ok k"
proof (rule queue_okI)
  have same: "pending k = pending h" "waiters k = waiters h" using r by (simp_all add: relays_def)
  have more: "field i ended True h \<longrightarrow> field i ended True k" for i
    using relays_heap [OF r, of i] by (auto simp: field_def split: option.split)
  have "length (live_pending m k) \<le> length (live_pending m h)" for m
  proof -
    have "live_pending m k = filter (\<lambda>i. \<not> field i ended True k) (live_pending m h)"
      unfolding live_pending_def filter_filter same using more by (intro filter_cong) auto
    then show ?thesis by (simp only: length_filter_le)
  qed
  then show "wakes_ok m k" for m
    using ok le_trans unfolding wakes_ok_def queue_ok_def woken_def same by blast
  show "distinct (pending k m)" "distinct (map fst (waiters k m))" for m
    using ok by (simp_all add: queue_ok_def same)
  show "\<forall>i \<in> set (pending k m). \<exists>t. heap k i = Some t \<and> t_machine_id t = m \<and> \<not> offered t" for m
    using ok relays_heap(3) [OF r] unfolding queue_ok_def same ident_def by fastforce
qed

lemma queue_ok_same:
  "queue_ok h \<Longrightarrow> heap k = heap h \<Longrightarrow> pending k = pending h \<Longrightarrow> waiters k = waiters h \<Longrightarrow> queue_ok k"
  by (simp add: queue_ok_def live_pending_def woken_def field_def)

lemma queue_ok_open:
  assumes ok: "queue_ok h" and new: "heap h i = None" and op: "open_terminal i q h = Inr k"
  shows "queue_ok k"
proof (rule queue_okI)
  let ?m = "o_machine_id q"
  have k: "heap k = (heap h)(i \<mapsto> new_terminal i (now h) q)"
    "pending k = (pending h)(?m := pending h ?m @ [i])"
    "waiters k = (waiters h)(?m := wake_first (waiters h ?m))"
    using op by (simp_all add: open_terminal_ok)
  have out: "i \<notin> set (pending h m)" for m using ok new by (force simp: queue_ok_def)
  show "distinct (pending k m)" "distinct (map fst (waiters k m))" for m
    using ok out by (auto simp: queue_ok_def k)
  show "\<forall>j \<in> set (pending k m). \<exists>t. heap k j = Some t \<and> t_machine_id t = m \<and> \<not> offered t" for m
    using ok out unfolding queue_ok_def k by (auto split: if_splits)
  have old: "filter (\<lambda>j. \<not> field j ended True k) (pending h m) = live_pending m h" for m
    unfolding live_pending_def using out [of m] by (intro filter_cong) (auto simp: field_def k)
  have live: "live_pending m k = (if m = ?m then live_pending m h @ [i] else live_pending m h)" for m
  proof -
    have "live_pending m k = filter (\<lambda>j. \<not> field j ended True k) (pending h m) @
        (if m = ?m then filter (\<lambda>j. \<not> field j ended True k) [i] else [])"
      by (simp add: live_pending_def k(2))
    then show ?thesis by (simp add: old k(1) field_def [of i])
  qed
  show "wakes_ok m k" for m
  proof (cases "m = ?m")
    case True
    have "length (live_pending m h) \<le> length (filter snd (waiters h m)) \<or> list_all snd (waiters h m)"
      using ok by (simp add: queue_ok_def woken_def)
    moreover have "wake_first ws = ws" if "list_all snd ws" for ws
      using that by (induction ws rule: wake_first.induct) auto
    ultimately show ?thesis using True wake_first_woken [of "waiters h m"]
      by (auto simp: wakes_ok_def woken_def k(3) live)
  next
    case False
    then show ?thesis using ok by (simp add: queue_ok_def wakes_ok_def woken_def k(3) live)
  qed
qed

lemma queue_ok_step:
  assumes "hub_step (h, rs) (k, ss)" "queue_ok h" shows "queue_ok k"
  using assms(1)
proof (cases rule: hub_step_cases)
  case relayed
  then show ?thesis using assms(2) queue_ok_relays by blast
next
  case (opened i q)
  then show ?thesis using assms(2) queue_ok_open by blast
next
  case (waiting m deadline w)
  have "queue_ok (heard m h)" using queue_ok_same [OF assms(2)] by (simp add: heard_def)
  then show ?thesis using waiting wait_try_queue by (simp add: heard_def)
next
  case (rewaiting m deadline w w')
  then show ?thesis using assms(2) woken_round_queue by blast
next
  case (timed_out m w)
  then show ?thesis using assms(2) drop_waiter_queue by blast
qed (use queue_ok_same [OF assms(2)] in \<open>simp_all add: mint_ticket_def redeem_def Let_def\<close>)

interpretation queue: transition_system hub_start hub_step "\<lambda>x. queue_ok (fst x)"
proof unfold_locales
  show "hub_start x \<Longrightarrow> queue_ok (fst x)" for x
    by (auto simp: hub_start_def empty_hub_def queue_ok_def live_pending_def woken_def)
  show "queue_ok (fst x) \<Longrightarrow> hub_step x y \<Longrightarrow> queue_ok (fst y)" for x y
    using queue_ok_step by (metis prod.collapse)
qed

section \<open>Tickets\<close>

definition tickets_ok :: "hub \<Rightarrow> bool" where
  "tickets_ok h \<longleftrightarrow>
     (\<forall>i t. heap h i = Some t \<longrightarrow> t_id t = i) \<and>
     (\<forall>tok x. tickets h tok = Some x \<longrightarrow> expires x \<le> now h + TICKET_TTL_SEC \<and>
        (\<exists>t. heap h (k_terminal_id x) = Some t \<and> t_user t = k_user x))"

lemma tickets_ok_kept:
  assumes ok: "tickets_ok h" and kw: "keeps_who h k" and nw: "now h \<le> now k"
    and sub: "\<And>tok x. tickets k tok = Some x \<Longrightarrow> tickets h tok = Some x"
  shows "tickets_ok k"
proof -
  have "t_id u = i" if "heap k i = Some u" for i u
    using keeps_whoD(1) [OF kw that] ok by (auto simp: tickets_ok_def who_def)
  moreover have "expires x \<le> now k + TICKET_TTL_SEC \<and> (\<exists>t. heap k (k_terminal_id x) = Some t \<and> t_user t = k_user x)"
    if x: "tickets k tok = Some x" for tok x
  proof -
    obtain t where "heap h (k_terminal_id x) = Some t" "t_user t = k_user x" "expires x \<le> now h + TICKET_TTL_SEC"
      using ok sub [OF x] unfolding tickets_ok_def by blast
    then show ?thesis using keeps_whoD(2) [OF kw] nw by (fastforce simp: who_def)
  qed
  ultimately show ?thesis unfolding tickets_ok_def by blast
qed

lemma tickets_ok_step:
  assumes st: "hub_step (h, rs) (k, ss)" and ok: "tickets_ok h" shows "tickets_ok k"
  using st
proof (cases rule: hub_step_cases)
  case relayed
  then show ?thesis using tickets_ok_kept [OF ok relays_keeps_who] by (simp add: relays_def)
next
  case (opened i q)
  then have k: "heap k = (heap h)(i \<mapsto> new_terminal i (now h) q)" "tickets k = tickets h" "now k = now h"
    by (simp_all add: open_terminal_ok)
  have "k_terminal_id x \<noteq> i" if "tickets h tok = Some x" for tok x
    using that ok opened(1) unfolding tickets_ok_def by force
  then show ?thesis using ok unfolding tickets_ok_def k by auto
next
  case (minted i t token)
  then show ?thesis using ok by (auto simp: tickets_ok_def mint_ticket_def Let_def split: if_splits option.splits)
next
  case (waiting m deadline w)
  have "keeps_who h (heard m h)" by (simp add: keeps_who_def heard_def)
  then have "keeps_who h k" using wait_try_frame(1) [of "heard m h"] waiting by (simp add: keeps_who_def)
  then show ?thesis using waiting wait_try_frame(3,4) [where h = "heard m h"]
    by (intro tickets_ok_kept [OF ok]) (simp_all add: heard_def)
next
  case (rewaiting m deadline w w')
  have "keeps_who h (drop_waiter m w h)" by (simp add: keeps_who_def drop_waiter_def)
  then have "keeps_who h k" using wait_try_frame(1) [of "drop_waiter m w h"] rewaiting by (simp add: keeps_who_def)
  then show ?thesis using rewaiting wait_try_frame(3,4) [where h = "drop_waiter m w h"]
    by (intro tickets_ok_kept [OF ok]) (simp_all add: drop_waiter_def)
qed (auto intro!: tickets_ok_kept [OF ok] keeps_who_heap simp: redeem_def heard_def drop_waiter_def split: if_splits)

interpretation ticketing: transition_system hub_start hub_step "\<lambda>x. tickets_ok (fst x)"
proof unfold_locales
  show "hub_start x \<Longrightarrow> tickets_ok (fst x)" for x
    by (auto simp: hub_start_def empty_hub_def tickets_ok_def)
  show "tickets_ok (fst x) \<Longrightarrow> hub_step x y \<Longrightarrow> tickets_ok (fst y)" for x y
    using tickets_ok_step by (metis prod.collapse)
qed

section \<open>Ended terminals\<close>

definition over :: "terminal_id \<Rightarrow> hub \<Rightarrow> bool" where
  "over i h \<longleftrightarrow> registry_ok h \<and> (\<exists>t. heap h i = Some t \<and> ended t)"

lemma over_step:
  assumes st: "hub_step (h, rs) (k, ss)" and o: "over i h" shows "over i k"
proof -
  obtain t where t: "heap h i = Some t" "ended t" using o by (auto simp: over_def)
  have "\<exists>u. heap k i = Some u \<and> ended u"
    using st
  proof (cases rule: hub_step_cases)
    case relayed
    then show ?thesis using relays_heap(3) [OF relayed t(1)] t(2) by blast
  qed (use t in \<open>auto simp: open_terminal_ok wait_try_def take_next_def heard_def drop_waiter_def
      mint_ticket_def redeem_def Let_def split: prod.split option.split\<close>)
  then show ?thesis using o registry_ok_step [OF st] by (auto simp: over_def)
qed

lemma over_run: "rtranclp hub_step x y \<Longrightarrow> over i (fst x) \<Longrightarrow> over i (fst y)"
proof (induction rule: rtranclp_induct)
  case (step y z)
  then show ?case using over_step by (metis prod.collapse)
qed

end
