(* ===== verification/Terminal_Claims.thy ===== *)
theory Terminal_Claims
  imports Terminal_Queue
begin

text \<open>
  The properties of the terminals, over the reachable states of the hub, each with a
  concrete run of the machine as its witness.
\<close>

section \<open>A handler in one go is a run of the machine\<close>

lemma run_actions_reachable:
  "r_todo r = as \<Longrightarrow> \<exists>r'. rtranclp hub_step (h, rs @ [r]) (run_actions as r h, rs @ [r']) \<and>
     r_todo r' = [] \<and> r_gate r' = r_gate r \<and> r_terminal r' = r_terminal r \<and> r_socket r' = r_socket r"
proof (induction as arbitrary: r h)
  case (Cons a as)
  obtain h1 r1 where st: "attach_step r h = (h1, r1)" by fastforce
  have r: "r\<lparr>r_todo := a # as\<rparr> = r" using Cons.prems by simp
  have fr: "r_gate r1 = r_gate r" "r_terminal r1 = r_terminal r" "r_socket r1 = r_socket r"
    and todo: "r_todo r1 = [] \<or> r_todo r1 = as"
    using st Cons.prems by (auto simp: attach_step_def split: action.splits)
  have "hub_step (h, rs @ [r]) (h1, (rs @ [r])[length rs := r1])"
    by (rule attach_stepped) (simp_all add: st)
  then have one: "hub_step (h, rs @ [r]) (h1, rs @ [r1])" by simp
  show ?case
  proof (cases "r_todo r1 = []")
    case True
    then have "run_actions (a # as) r h = h1" by (simp add: r st)
    then show ?thesis using one True fr by (metis r_into_rtranclp)
  next
    case False
    then have "r_todo r1 = as" using todo by simp
    from Cons.IH [OF this, of h1] obtain r' where "rtranclp hub_step (h1, rs @ [r1]) (run_actions as r1 h1, rs @ [r'])"
      "r_todo r' = []" "r_gate r' = r_gate r" "r_terminal r' = r_terminal r" "r_socket r' = r_socket r"
      using fr by auto
    then show ?thesis using one False by (simp add: r st) (metis converse_rtranclp_into_rtranclp)
  qed
qed auto

lemma attach_browser_reachable:
  assumes "i \<in> set (terminals h)" "fresh_socket s (h, rs)" "g \<notin> r_gate ` set rs"
  shows "rtranclp hub_step (h, rs) (attach_browser i s off g h, rs)"
proof -
  obtain h1 r where b: "attach_begin i s off g h = (h1, r)" by fastforce
  have "hub_step (h, rs) (h1, rs @ [r])" by (rule attach_began [OF assms b])
  moreover obtain r' where r': "rtranclp hub_step (h1, rs @ [r]) (run_actions (r_todo r) r h1, rs @ [r'])"
    "r_todo r' = []" "r_gate r' = r_gate r" "r_terminal r' = r_terminal r"
    using run_actions_reachable by blast
  moreover have "hub_step (run_actions (r_todo r) r h1, rs @ [r'])
      (attach_finish r' (run_actions (r_todo r) r h1), rs)"
    using attach_finished [of "length rs" "rs @ [r']"] r'(2) by simp
  moreover have "attach_finish r' k = attach_finish r k" for k using r' by (simp add: attach_finish_def)
  ultimately show ?thesis
    by (simp add: attach_browser_def b)
qed

section \<open>Sweeping\<close>

lemma sweep_one_other: "j \<noteq> i \<Longrightarrow> heap (sweep_one alive x i h) j = heap h j"
proof -
  assume j: "j \<noteq> i"
  have legs: "heap (close_legs ls c k) = heap k" for ls c k
    by (induction ls arbitrary: k) (auto simp: close_legs_def split: option.split)
  have e: "heap (end_terminal i c k) j = heap k j" for c k
    using j by (simp add: end_terminal_def legs Let_def split: option.split)
  have "heap (send_to_host i kd p k) j = heap k j" for kd p k
    by (simp add: send_to_host_def send_bytes_def e split: option.split)
  then have "heap (to_host i kd p k) j = heap k j" for kd p k using j by (simp add: to_host_def)
  then show ?thesis by (simp add: sweep_one_def e split: option.split)
qed

lemma end_terminal_ended: "heap h i = Some t \<Longrightarrow> \<exists>u. heap (end_terminal i c h) i = Some u \<and> ended u"
proof -
  assume t: "heap h i = Some t"
  have legs: "heap (close_legs ls c k) = heap k" for ls k
    by (induction ls arbitrary: k) (auto simp: close_legs_def split: option.split)
  show ?thesis using t by (simp add: end_terminal_def legs Let_def)
qed

lemma sweep_one_self:
  "heap h i = Some t \<Longrightarrow> sweep_code alive x t = Some c \<Longrightarrow> \<exists>u. heap (sweep_one alive x i h) i = Some u \<and> ended u"
proof -
  assume t: "heap h i = Some t" "sweep_code alive x t = Some c"
  have "relays h (to_host i STOP [] h)" by simp
  then obtain u where "heap (to_host i STOP [] h) i = Some u" using relays_heap(3) t(1) by blast
  then show ?thesis using end_terminal_ended t by (simp add: sweep_one_def)
qed

lemma sweep_fold:
  assumes "distinct js" "registry_ok h" "set js \<subseteq> set (terminals h)"
  shows "i \<in> set (terminals (fold (sweep_one alive x) js h)) \<longleftrightarrow>
    i \<in> set (terminals h) \<and> (i \<in> set js \<longrightarrow> sweep_code alive x (the (heap h i)) = None)"
  using assms
proof (induction js arbitrary: h)
  case (Cons j js)
  let ?k = "sweep_one alive x j h"
  have rel: "relays h ?k" by (rule leg.keeps_sweep_one)
  have reg: "registry_ok ?k" using rel Cons.prems(2) by (simp add: relays_def)
  obtain t where t: "heap h j = Some t" "\<not> ended t" using Cons.prems by (auto simp: registry_ok_def)
  have same: "heap ?k l = heap h l" if "l \<noteq> j" for l using sweep_one_other that by blast
  have mem: "l \<in> set (terminals ?k) \<longleftrightarrow> l \<in> set (terminals h)" if "l \<noteq> j" for l
    using reg Cons.prems(2) same [OF that] by (simp add: registry_ok_def)
  have memj: "j \<in> set (terminals ?k) \<longleftrightarrow> sweep_code alive x t = None"
  proof (cases "sweep_code alive x t")
    case None
    then have "?k = h" by (simp add: sweep_one_def t)
    then show ?thesis using None Cons.prems by simp
  next
    case (Some c)
    then show ?thesis using sweep_one_self [OF t(1) Some] reg by (auto simp: registry_ok_def)
  qed
  have "set js \<subseteq> set (terminals ?k)" using Cons.prems mem by (metis distinct.simps(2) in_mono insert_subset list.simps(15) subsetI)
  from Cons.IH [OF _ reg this] show ?case
    using Cons.prems memj mem same t by (cases "i = j") auto
qed simp

lemma some_filter: "\<exists>P. xs = filter P xs"
  by (rule exI [of _ "\<lambda>_. True"]) simp

lemma sweep_fold_order:
  "\<exists>P. terminals (fold (sweep_one alive x) js h) = filter P (terminals h)"
proof (induction js arbitrary: h)
  case Nil
  show ?case by (rule exI [of _ "\<lambda>_. True"]) simp
next
  case (Cons j js)
  have e: "\<exists>P. terminals (end_terminal j c k) = filter P (terminals k)" for c k
  proof -
    have legs: "terminals (close_legs ls c k) = terminals k" for ls k
      by (induction ls arbitrary: k) (auto simp: close_legs_def split: option.split)
    show ?thesis by (auto simp: end_terminal_def legs Let_def split: option.split intro: some_filter)
  qed
  have s: "\<exists>P. terminals (to_host j kd p k) = filter P (terminals k)" for kd p k
    using e by (auto simp: to_host_def send_to_host_def send_bytes_def split: option.split intro: some_filter)
  have "\<exists>P. terminals (sweep_one alive x j h) = filter P (terminals h)"
  proof (cases "heap h j")
    case (Some t)
    then show ?thesis using e s
      by (auto simp: sweep_one_def split: option.split intro: some_filter) (metis filter_filter)
  qed (auto simp: sweep_one_def intro: some_filter)
  then show ?case using Cons.IH by (metis filter_filter fold_simps(2))
qed

lemma sweep_terminals:
  assumes "registry_ok h"
  shows "terminals (sweep alive h) =
    filter (\<lambda>i. sweep_code alive (now h) (the (heap h i)) = None) (terminals h)"
proof -
  obtain P where P: "terminals (sweep alive h) = filter P (terminals h)"
    using sweep_fold_order unfolding sweep_def by blast
  have "P i \<longleftrightarrow> sweep_code alive (now h) (the (heap h i)) = None" if "i \<in> set (terminals h)" for i
    using sweep_fold [of "terminals h" h i alive "now h"] assms that
    by (simp add: registry_ok_def P flip: sweep_def)
  then show ?thesis unfolding P by (rule filter_cong [OF refl])
qed

section \<open>Input typed before the host came\<close>

lemma take_input_waiting:
  assumes "heap h i = Some t" "host t = None" "length (pre_input t) + length p \<le> MAX_INPUT_FRAME_BYTES"
  shows "take_input i p h = update i (\<lambda>t. t\<lparr>last_input_at := now h, pre_input := pre_input t @ p\<rparr>) h"
  using assms by (cases t) (simp add: take_input_def to_host_def field_def update_def)

lemma take_inputs_waiting:
  assumes "heap h i = Some t" "host t = None" "length (pre_input t) + length (concat ps) \<le> MAX_INPUT_FRAME_BYTES"
  shows "\<exists>u. heap (fold (take_input i) ps h) i = Some u \<and> host u = None \<and> ended u = ended t \<and>
      pre_resize u = pre_resize t \<and> pre_input u = pre_input t @ concat ps \<and>
      sent (fold (take_input i) ps h) = sent h \<and> gone (fold (take_input i) ps h) = gone h"
  using assms
proof (induction ps arbitrary: h t)
  case (Cons p ps)
  let ?u = "t\<lparr>last_input_at := now h, pre_input := pre_input t @ p\<rparr>"
  have k: "take_input i p h = update i (\<lambda>t. t\<lparr>last_input_at := now h, pre_input := pre_input t @ p\<rparr>) h"
    using Cons.prems by (intro take_input_waiting) auto
  have "heap (take_input i p h) i = Some ?u" using Cons.prems(1) by (simp add: k)
  from Cons.IH [OF this] Cons.prems show ?case by (simp add: k)
qed simp

lemma start_host_flushes:
  assumes "heap h i = Some t" "host t = Some s" "\<not> ended t" "s \<notin> gone h"
  shows "sent (start_host i h) = sent h @
      (case pre_resize t of None \<Rightarrow> [] | Some r \<Rightarrow> [(s, Sent RESIZE r)]) @
      (if pre_input t = [] then [] else [(s, Sent INPUT (pre_input t))])"
  using assms by (simp add: start_host_def field_def send_to_host_def send_bytes_def Let_def split: option.split)

lemma typed_before_host:
  assumes "heap h i = Some t" "host t = None" "\<not> ended t" "pre_input t = []" "s \<notin> gone h"
    "length (concat ps) \<le> MAX_INPUT_FRAME_BYTES"
  shows "sent (fst (host_connected i s False (fold (take_input i) ps h))) = sent h @
      (case pre_resize t of None \<Rightarrow> [] | Some r \<Rightarrow> [(s, Sent RESIZE r)]) @
      (if concat ps = [] then [] else [(s, Sent INPUT (concat ps))])"
proof -
  let ?k = "fold (take_input i) ps h"
  obtain u where u: "heap ?k i = Some u" "host u = None" "ended u = ended t" "pre_resize u = pre_resize t"
    "pre_input u = concat ps" "sent ?k = sent h" "gone ?k = gone h"
    using take_inputs_waiting [OF assms(1,2), of ps] assms(4,6) by auto
  let ?h1 = "update i (\<lambda>t. t\<lparr>host := Some s, starting := False\<rparr>) ?k"
  have "fst (host_connected i s False ?k) = start_host i ?h1"
    using u assms(3) by (simp add: host_connected_def field_def close_legs_def)
  moreover have "heap ?h1 i = Some (u\<lparr>host := Some s, starting := False\<rparr>)" using u by simp
  ultimately show ?thesis
    using start_host_flushes [of ?h1 i _ s] u assms(3,5) by simp
qed

section \<open>The ring and the frames\<close>

lemma appended_tail:
  assumes "0 \<le> c"
  shows "tail_of 0 (concat ps) (fold ring_append ps (Ring c)) \<and> capacity (fold ring_append ps (Ring c)) = c"
proof (induction ps rule: rev_induct)
  case (snoc p ps)
  moreover have "capacity (ring_append p r) = capacity r" for r by (simp add: ring_append_def Let_def)
  ultimately show ?case using tail_of_append [of 0 "concat ps" _ p] assms by simp
qed (simp add: Ring_def tail_of_def)

text \<open>Reading a connection to its end: the frames read, and the error that ended it.\<close>

fun read_frames :: "nat \<Rightarrow> bytes \<Rightarrow> (frame \<times> bytes) list \<times> py_error" where
  "read_frames 0 s = ([], AssertionError)"
| "read_frames (Suc n) s =
     (case read_frame s of
        Inl e \<Rightarrow> ([], e)
      | Inr (f, rest) \<Rightarrow> (let (fs, e) = read_frames n rest in (f # fs, e)))"

lemma read_frames_encoded:
  assumes "list_all (\<lambda>(k, p). int (length p) \<le> MAX_PAYLOAD_BYTES) fs"
    "those (map (\<lambda>(k, p). case encode_frame k p of Inr m \<Rightarrow> Some m | Inl e \<Rightarrow> None) fs) = Some ms"
    "length fs < n"
  shows "read_frames n (concat ms) = (fs, IncompleteReadError)"
  using assms
proof (induction fs arbitrary: ms n)
  case Nil
  then show ?case by (cases n) (auto simp: read_frame_def readexactly_def)
next
  case (Cons f fs)
  obtain k p where f: "f = (k, p)" by fastforce
  obtain n' where n: "n = Suc n'" using Cons.prems(3) by (cases n) auto
  obtain m ms' where m: "encode_frame k p = Inr m" "ms = m # ms'"
    "those (map (\<lambda>(k, p). case encode_frame k p of Inr m \<Rightarrow> Some m | Inl e \<Rightarrow> None) fs) = Some ms'"
    using Cons.prems(2) by (auto simp: f split: sum.splits)
  have "read_frames n' (concat ms') = (fs, IncompleteReadError)"
    using Cons.IH [OF _ m(3)] Cons.prems n by simp
  then show ?case using read_encoded_frame [OF m(1)] Cons.prems(1) by (simp add: n m(2) f)
qed

section \<open>A run\<close>

definition demo_opening :: terminal_opening where
  "demo_opening =
     \<lparr>o_user = ''ann'', o_machine_id = 7, o_machine = ''box'', o_rows = 24, o_cols = 80, o_canvas = None,
      o_workspace = None, o_requested_by = None, o_surface = None, o_command = None, o_attach = None,
      o_run_name = None, o_cwd = None, o_kind = shell\<rparr>"

text \<open>An open, a host, a browser that attaches, and output.\<close>

definition demo_opened :: hub where
  "demo_opened = (case open_terminal 3 demo_opening (empty_hub 0) of Inr k \<Rightarrow> k | Inl _ \<Rightarrow> empty_hub 0)"

definition demo_hosted :: hub where
  "demo_hosted = fst (host_connected 3 100 False demo_opened)"

definition demo_attached :: hub where
  "demo_attached = attach_browser 3 200 0 5 demo_hosted"

definition demo_live :: hub where
  "demo_live = deliver 3 OUTPUT [104, 105] demo_attached"

lemma demo_open: "open_terminal 3 demo_opening (empty_hub 0) = Inr demo_opened"
  by (simp add: demo_opened_def open_terminal_def check_def empty_hub_def MAX_OPENS_PER_MIN_PER_USER_def Let_def)

lemma demo_opened_sel:
  "heap demo_opened = [3 \<mapsto> new_terminal 3 0 demo_opening]" "terminals demo_opened = [3]"
  "gone demo_opened = {}" "sent demo_opened = []" "now demo_opened = 0" "tickets demo_opened = (\<lambda>_. None)"
  "pending demo_opened = (\<lambda>_. [])(7 := [3])" "waiters demo_opened = (\<lambda>_. [])(7 := [])"
  by (simp_all add: conjunct2 [OF demo_open [unfolded open_terminal_ok]] empty_hub_def demo_opening_def)

lemma demo_start: "hub_start (empty_hub 0, [])"
  by (auto simp: hub_start_def)

lemma demo_opened_run: "rtranclp hub_step (empty_hub 0, []) (demo_opened, [])"
  by (rule r_into_rtranclp, rule opened [OF _ demo_open]) (simp add: empty_hub_def)

lemma demo_hosted_run: "rtranclp hub_step (empty_hub 0, []) (demo_hosted, [])"
  unfolding demo_hosted_def
  by (rule rtranclp.rtrancl_into_rtrancl [OF demo_opened_run], rule host_came)
    (simp add: fresh_socket_def demo_opened_sel)

lemma demo_hosted_sel:
  "heap demo_hosted = [3 \<mapsto> (new_terminal 3 0 demo_opening)\<lparr>host := Some 100\<rparr>]"
  "terminals demo_hosted = [3]" "gone demo_hosted = {}" "sent demo_hosted = []"
  by (simp_all add: demo_hosted_def host_connected_def demo_opened_sel field_def start_host_def close_legs_def
      new_terminal_def update_def Let_def)

lemma demo_attached_run: "rtranclp hub_step (empty_hub 0, []) (demo_attached, [])"
  unfolding demo_attached_def
  by (rule rtranclp_trans [OF demo_hosted_run], rule attach_browser_reachable)
    (simp_all add: fresh_socket_def demo_hosted_sel)

lemma zero_offset: "encode_route ROUTE_RELAY 0 = Inr (0 # replicate 8 0)"
  "to_bytes 0 8 = Inr (replicate 8 0)"
proof -
  have "be_bytes k 0 = replicate k 0" for k by (induction k) simp_all
  then show "encode_route ROUTE_RELAY 0 = Inr (0 # replicate 8 0)" "to_bytes 0 8 = Inr (replicate 8 0)"
    by (simp_all only: encode_route_def ROUTE_RELAY_def to_bytes_def) simp_all
qed

lemma demo_attached_sel:
  "heap demo_attached = [3 \<mapsto> (new_terminal 3 0 demo_opening)\<lparr>host := Some 100, browser := Some 200,
      detached_at := None, direct_until := 0, replaying := None\<rparr>]"
  "gone demo_attached = {}" "now demo_attached = 0"
  "sent demo_attached = [(100, Sent ROUTE (0 # replicate 8 0)), (200, Sent ACK (replicate 8 0))]"
proof -
  have s: "since 0 (Ring c) = ([], 0, False)" for c by (simp add: since_def Ring_def ring_start_def)
  have a: "replay_actions None 0 [] 0 False =
      [ToHost ROUTE (0 # replicate 8 0), ToBrowser ACK (replicate 8 0)]"
    by (simp add: replay_actions_def zero_offset)
  have e: "ring_end (Ring c) = 0" for c by (simp add: Ring_def)
  have n: "now demo_hosted = 0" by (simp add: demo_hosted_def host_connected_def demo_opened_sel field_def
      start_host_def close_legs_def new_terminal_def Let_def)
  note d = demo_attached_def attach_browser_def attach_begin_def attach_step_def attach_finish_def
    demo_hosted_sel field_def s e a to_host_def send_to_host_def to_browser_def send_bytes_def
    new_terminal_def n Let_def
  show "heap demo_attached = [3 \<mapsto> (new_terminal 3 0 demo_opening)\<lparr>host := Some 100, browser := Some 200,
      detached_at := None, direct_until := 0, replaying := None\<rparr>]"
    "gone demo_attached = {}" "now demo_attached = 0"
    "sent demo_attached = [(100, Sent ROUTE (0 # replicate 8 0)), (200, Sent ACK (replicate 8 0))]"
    by (simp_all add: d)
qed

lemma demo_live_run: "rtranclp hub_step (empty_hub 0, []) (demo_live, [])"
  unfolding demo_live_def
proof (rule rtranclp.rtrancl_into_rtrancl [OF demo_attached_run], rule delivered)
  show "replay_over 3 demo_attached" by (simp add: replay_over_def field_def demo_attached_sel)
  show "offsets_fit 3 [104, 105] demo_attached"
    by (simp add: offsets_fit_def field_def demo_attached_sel new_terminal_def Ring_def)
qed

lemma from_replicate: "from_bytes (replicate k 0) = 0"
  by (induction k) (simp_all add: from_bytes_Cons)

lemma demo_live_sel:
  "seen 200 demo_live = Some (0, [104, 105])" "field 3 browser None demo_live = Some 200"
  "field 3 ended True demo_live = False" "field 3 replaying (Some 0) demo_live = None"
  "200 \<notin> gone demo_live" "field 3 t_user [] demo_live = ''ann''" "now demo_live = 0"
  by (simp_all add: demo_live_def deliver_def live_def field_def demo_attached_sel to_browser_def send_bytes_def
      seen_def new_terminal_def demo_opening_def from_replicate)

lemma demo_live_terminal: "\<exists>t. heap demo_live 3 = Some t"
  by (cases "heap demo_live 3") (use demo_live_sel(2) in \<open>auto simp: field_def\<close>)

section \<open>Properties\<close>

text \<open>C33: in every reachable state, with the replay's sends interleaved with every other handler, a
  connected browser whose replay is over has been told the offset its output starts at, has seen
  output up to exactly the end of the ring, and what it saw since agrees byte for byte with the ring.\<close>

theorem browser_stream_contiguous:
  assumes "hub_start x" "rtranclp hub_step x (h, rs)"
    and "heap h i = Some t" "\<not> ended t" "browser t = Some s" "s \<notin> gone h" "replaying t = None"
  shows "\<exists>z b. seen s h = Some (z, b) \<and> z + int (length b) = ring_end (t_ring t) \<and>
    (suffix b (data (t_ring t)) \<or> suffix (data (t_ring t)) b)"
proof -
  have "replay_ok (h, rs)" using hub.reachable_inv [OF assms(1,2)] by simp
  moreover have "attached h i s t" using assms by (simp add: attached_def)
  ultimately have "view_ok (h, rs) i s t" by (rule replay_okD(5))
  then show ?thesis using assms(7) by (auto simp: view_ok_def agrees_def split: option.splits)
qed

lemma browser_stream_contiguous_witness:
  "\<exists>t. heap demo_live 3 = Some t \<and> ring_end (t_ring t) = 2"
proof -
  obtain t where t: "heap demo_live 3 = Some t" using demo_live_terminal by blast
  have "\<not> ended t" "browser t = Some 200" "replaying t = None"
    using demo_live_sel by (simp_all add: field_def t)
  from browser_stream_contiguous [OF demo_start demo_live_run t this(1,2) demo_live_sel(5) this(3)]
  show ?thesis using t demo_live_sel(1) by auto
qed

text \<open>In every reachable state and for every instant, a user opened at most ten terminals in the
  minute up to that instant.\<close>

theorem open_rate_bounded:
  assumes "hub_start x" "rtranclp hub_step x (h, rs)"
  shows "card {i. \<exists>t. heap h i = Some t \<and> t_user t = u \<and> y - 60 < opened_at t \<and> opened_at t \<le> y} \<le> 10"
  using rate.reachable_inv [OF assms]
  by (simp add: opens_ok_def opened_in_def MAX_OPENS_PER_MIN_PER_USER_def)

lemma open_rate_bounded_witness:
  "card {i. \<exists>t. heap demo_live i = Some t \<and> t_user t = ''ann'' \<and> 30 - 60 < opened_at t \<and> opened_at t \<le> 30} \<le> 10"
  by (rule open_rate_bounded [OF demo_start demo_live_run])








text \<open>In every reachable state a ticket lets in only the user who opened the terminal it is redeemed
  for, before it expires, and never a second time: once presented it is spent, for everyone.\<close>

theorem ticket_admits_opener_once:
  assumes "hub_start x" "rtranclp hub_step x (h, rs)" "redeem token u i h = (k, True)"
  shows "(\<exists>t. heap h i = Some t \<and> t_user t = u) \<and>
    (\<exists>y. tickets h token = Some y \<and> now h < expires y \<and> expires y \<le> now h + 30) \<and>
    \<not> snd (redeem token v j k)"
proof (intro conjI)
  have ok: "tickets_ok h" using ticketing.reachable_inv [OF assms(1,2)] by simp
  obtain y where y: "tickets h token = Some y" "now h < expires y" "k_user y = u" "k_terminal_id y = i"
    and k: "k = h\<lparr>tickets := (tickets h)(token := None)\<rparr>"
    using assms(3) by (auto simp: redeem_def split: option.splits)
  show "\<exists>t. heap h i = Some t \<and> t_user t = u" using ok y unfolding tickets_ok_def by blast
  show "\<exists>y. tickets h token = Some y \<and> now h < expires y \<and> expires y \<le> now h + 30"
    using ok y by (auto simp: tickets_ok_def TICKET_TTL_SEC_def)
  show "\<not> snd (redeem token v j k)" by (simp add: redeem_def k)
qed

lemma ticket_admits_opener_once_witness:
  "\<exists>k. redeem ''tok'' ''ann'' 3 (mint_ticket ''tok'' (new_terminal 3 0 demo_opening) demo_opened) = (k, True) \<and>
     \<not> snd (redeem ''tok'' ''ann'' 3 k)"
proof -
  let ?h = "mint_ticket ''tok'' (new_terminal 3 0 demo_opening) demo_opened"
  have "rtranclp hub_step (empty_hub 0, []) (?h, [])"
    by (rule rtranclp.rtrancl_into_rtrancl [OF demo_opened_run], rule minted [where i = 3])
      (simp_all add: demo_opened_sel)
  moreover have "snd (redeem ''tok'' ''ann'' 3 ?h)"
    by (simp add: redeem_def mint_ticket_def demo_opened_sel demo_opening_def TICKET_TTL_SEC_def Let_def)
  then have r: "redeem ''tok'' ''ann'' 3 ?h = (fst (redeem ''tok'' ''ann'' 3 ?h), True)" by (simp add: prod_eq_iff)
  ultimately show ?thesis using ticket_admits_opener_once [OF demo_start _ r] by blast
qed

text \<open>In every reachable state a sweep ends exactly the terminals past a limit or whose credential or
  owner no longer stands, and leaves the others registered in their order; a liveness question that
  fails ends nothing.\<close>

theorem sweep_ends_exactly:
  assumes "hub_start x" "rtranclp hub_step x (h, rs)"
  shows "terminals (sweep alive h) =
    filter (\<lambda>i. case heap h i of None \<Rightarrow> False
                | Some t \<Rightarrow> expired (now h) t = None \<and> alive t \<noteq> Some False) (terminals h)"
proof -
  have reg: "registry_ok h" using hub.reachable_inv [OF assms] by simp
  have "sweep_code al y t = None \<longleftrightarrow> expired y t = None \<and> al t \<noteq> Some False" for al y t
    by (auto simp: sweep_code_def still_alive_def split: option.splits)
  then show ?thesis
    using reg by (auto simp: sweep_terminals [OF reg] registry_ok_def intro!: filter_cong split: option.split)
qed

lemma sweep_ends_exactly_witness:
  "terminals (sweep (\<lambda>_. None) demo_opened) = [3] \<and> terminals (sweep (\<lambda>_. Some False) demo_opened) = []"
  by (simp add: sweep_ends_exactly [OF demo_start demo_opened_run] demo_opened_sel expired_def new_terminal_def
      OPEN_TTL_SEC_def LIFETIME_SEC_def IDLE_SEC_def DETACH_GRACE_SEC_def)

text \<open>What is typed before the host dials in reaches it whole and in order when it does, after the
  latest window size, as long as it fits one frame.\<close>

theorem early_input_delivered:
  assumes "heap h i = Some t" "host t = None" "\<not> ended t" "pre_input t = []" "s \<notin> gone h"
    and "length (concat ps) \<le> MAX_INPUT_FRAME_BYTES"
  shows "sent (fst (host_connected i s False (fold (take_input i) ps h))) = sent h @
      (case pre_resize t of None \<Rightarrow> [] | Some r \<Rightarrow> [(s, Sent RESIZE r)]) @
      (if concat ps = [] then [] else [(s, Sent INPUT (concat ps))])"
  by (rule typed_before_host [OF assms])

lemma early_input_delivered_witness:
  "sent (fst (host_connected 3 100 False (fold (take_input 3) [[108], [115, 13]] demo_opened))) =
     [(100, Sent INPUT [108, 115, 13])]"
proof -
  have t: "heap demo_opened 3 = Some (new_terminal 3 0 demo_opening)" by (simp add: demo_opened_sel)
  show ?thesis
    using early_input_delivered [OF t, of 100 "[[108], [115, 13]]"]
    by (simp add: demo_opened_sel new_terminal_def MAX_INPUT_FRAME_BYTES_def)
qed

text \<open>A terminal ends once and for all: in every later state it is still ended and no longer
  registered, no host can claim it, and frames from its host change nothing.\<close>

theorem ended_is_final:
  assumes "hub_start x" "rtranclp hub_step x (h, rs)" "heap h i = Some t" "ended t"
    and "rtranclp hub_step (h, rs) (k, ss)"
  shows "(\<exists>u. heap k i = Some u \<and> ended u) \<and> i \<notin> set (terminals k) \<and>
    host_connected i s b k = (k, False) \<and> deliver i f p k = k \<and> fst (host_frame i f p k) = k"
proof (intro conjI)
  have "over i h" using hub.reachable_inv [OF assms(1,2)] assms(3,4) by (simp add: over_def)
  then have o: "over i k" using over_run [OF assms(5)] by simp
  then show u: "\<exists>u. heap k i = Some u \<and> ended u" by (simp add: over_def)
  show m: "i \<notin> set (terminals k)" using o by (auto simp: over_def registry_ok_def)
  show "host_connected i s b k = (k, False)" "deliver i f p k = k" "fst (host_frame i f p k) = k"
    using u m by (auto simp: host_connected_def deliver_def host_frame_def field_def)
qed

definition demo_ended :: hub where
  "demo_ended = stop_terminal 3 demo_opened"

lemma ended_is_final_witness:
  "host_connected 3 100 True (demo_ended\<lparr>now := 9\<rparr>) = (demo_ended\<lparr>now := 9\<rparr>, False)"
proof -
  let ?t = "(new_terminal 3 0 demo_opening)\<lparr>stopping := True, ended := True\<rparr>"
  have run: "rtranclp hub_step (empty_hub 0, []) (demo_ended, [])"
    unfolding demo_ended_def by (rule rtranclp.rtrancl_into_rtrancl [OF demo_opened_run], rule stopped)
  have t: "heap demo_ended 3 = Some ?t" and n: "now demo_ended = 0"
    by (simp_all add: demo_ended_def stop_terminal_def end_terminal_def close_legs_def field_def demo_opened_sel
        new_terminal_def Let_def)
  have "hub_step (demo_ended, []) (demo_ended\<lparr>now := now demo_ended + 9\<rparr>, [])" by (rule tick) simp
  then have "rtranclp hub_step (demo_ended, []) (demo_ended\<lparr>now := 9\<rparr>, [])" by (simp add: n)
  from ended_is_final [OF demo_start run t _ this, of 100 True] show ?thesis by simp
qed

text \<open>C39: the ring is the tail of the stream: after any appends it holds the last \<open>capacity\<close> bytes, and
  \<open>since\<close> returns the stream's bytes from the offset it names to the end, reporting a loss exactly when
  the caller's offset is older than the oldest byte kept.\<close>

theorem ring_is_stream_tail:
  assumes "0 \<le> c" "since off (fold ring_append ps (Ring c)) = (b, resume, lost)"
  defines "stream \<equiv> concat ps" and "r \<equiv> fold ring_append ps (Ring c)"
  shows "data r = drop (length stream - nat c) stream \<and> ring_end r = int (length stream) \<and>
    b = drop (nat resume) stream \<and> (lost \<longleftrightarrow> off < int (length stream - nat c)) \<and>
    resume = (if lost then int (length stream - nat c) else min off (int (length stream)))"
proof -
  note tl = appended_tail [OF assms(1), of ps, folded r_def stream_def]
  then have t: "tail_of 0 stream r" and c: "capacity r = c" by blast+
  have c0: "0 \<le> capacity r" using assms(1) c by simp
  note s = since_stream [OF t c0 assms(2) [folded r_def]]
  note st = tail_of_start [OF t c0]
  have d: "data r = drop (length stream - nat c) stream" and e: "ring_end r = int (length stream)"
    using t c by (simp_all add: tail_of_def)
  have "b = drop (nat resume) stream" "lost \<longleftrightarrow> off < int (length stream - nat c)"
    "\<not> lost \<Longrightarrow> resume = min off (int (length stream))" "lost \<Longrightarrow> resume = int (length stream - nat c)"
    using s st c e by simp_all
  then show ?thesis using d e by simp
qed

lemma ring_is_stream_tail_witness:
  "data (fold ring_append [[1, 2, 3], [4, 5]] (Ring 4)) = [2, 3, 4, 5]"
proof -
  have "since 0 (fold ring_append [[1, 2, 3], [4, 5]] (Ring 4)) = ([2, 3, 4, 5], 1, True)" by code_simp
  from ring_is_stream_tail [OF _ this] show ?thesis by simp
qed

text \<open>Frames on a byte stream are read back one by one, exactly as written: concatenated encodings of
  frames within the payload bound decode to those frames and then to the end of the stream.\<close>

theorem frames_round_trip:
  assumes "\<forall>(k, p) \<in> set fs. int (length p) \<le> MAX_PAYLOAD_BYTES"
    and "those (map (\<lambda>(k, p). case encode_frame k p of Inr m \<Rightarrow> Some m | Inl e \<Rightarrow> None) fs) = Some ms"
    and "length fs < n"
  shows "read_frames n (concat ms) = (fs, IncompleteReadError)"
  by (rule read_frames_encoded) (use assms in \<open>auto simp: list_all_iff\<close>)

lemma frames_round_trip_witness:
  "read_frames 3 (concat [[2, 0, 0, 0, 1, 65], [5, 0, 0, 0, 0]]) = ([(INPUT, [65]), (STOP, [])], IncompleteReadError)"
proof (rule frames_round_trip)
  have "be_bytes 4 n = [of_nat (n div 256 ^ 3), of_nat (n div 256 ^ 2), of_nat (n div 256), of_nat n]" for n
  proof -
    have f: "(4 :: nat) = Suc (Suc (Suc (Suc 0)))" "(3 :: nat) = Suc (Suc (Suc 0))" "(2 :: nat) = Suc (Suc 0)"
      by simp_all
    show ?thesis by (simp only: f(1) be_bytes.simps) (simp add: f(2,3))
  qed
  then have "encode_frame INPUT [65] = Inr [2, 0, 0, 0, 1, 65]" "encode_frame STOP [] = Inr [5, 0, 0, 0, 0]"
    by (simp_all add: encode_frame_ok)
  then show "those (map (\<lambda>(k, p). case encode_frame k p of Inr m \<Rightarrow> Some m | Inl e \<Rightarrow> None)
      [(INPUT, [65]), (STOP, [])]) = Some [[2, 0, 0, 0, 1, 65], [5, 0, 0, 0, 0]]"
    by simp
qed (simp_all add: MAX_PAYLOAD_BYTES_def)

text \<open>\<open>decode_frame\<close> accepts exactly the encodings: a message decodes to a kind and a payload if and
  only if it is what \<open>encode_frame\<close> makes of them, so no two messages mean the same frame.\<close>

theorem decode_frame_exact:
  "decode_frame m = Inr (k, p) \<longleftrightarrow> encode_frame k p = Inr m"
  using frame_codec.dec_iff [of m "(k, p)"] by simp

end
