(* ===== verification/Field_Edits.thy ===== *)
theory Field_Edits
  imports Cost_Edits
begin

text \<open>
  \<open>store/edit.py\<close>: the edits of one column of an inquiry. \<open>set_field\<close> is the pipeline every
  setter delegates to (replay a keyed retry, lock and read, compare, validate, update,
  audit and cascade), \<open>transition_field\<close> the compare-and-set variant, \<open>mutate_list_field\<close> the
  atomic add and remove of one list entry. A row lock has no content here: an operation is
  one transaction and runs alone; what two of them do is what they do in sequence.

  The deployment's access policy (\<open>server/access_policy.py\<close> declares its interface) is a
  parameter. Embeddings are not modelled.
\<close>

record access_policy =
  prepare_account_change :: "uuid \<Rightarrow> string \<Rightarrow> store \<Rightarrow> unit res"
  validate_account :: "uuid \<Rightarrow> string \<Rightarrow> store \<Rightarrow> unit res"
  readable :: "uuid \<Rightarrow> bool"

section \<open>Steps of the pipeline\<close>

definition read_field ::
  "uuid \<Rightarrow> column \<Rightarrow> inquiry_kind option \<Rightarrow> store \<Rightarrow> (cval option \<times> inquiry_kind) res" where
  "read_field i c expected s =
     (case inquiries s i of
        None \<Rightarrow> Inl NotFoundError
      | Some r \<Rightarrow>
          if expected \<noteq> None \<and> expected \<noteq> Some (iq_kind r) then Inl ConflictError
          else Inr (iq_columns r c, iq_kind r))"

definition update_inquiry_row :: "uuid \<Rightarrow> (inquiry \<Rightarrow> inquiry) \<Rightarrow> store \<Rightarrow> store res" where
  "update_inquiry_row i f s =
     (case inquiries s i of None \<Rightarrow> Inr s | Some r \<Rightarrow> place_inquiry_row i (f r) s)"

definition update_field :: "uuid \<Rightarrow> column \<Rightarrow> cval option \<Rightarrow> store \<Rightarrow> store res" where
  "update_field i c v s =
     (if immutable (COLUMN_SPECS c) then Inl ConflictError
      else
        let x = (if collapsible c then empty_optional_to_none v else v)
        in update_inquiry_row i (\<lambda>r. r\<lparr>iq_columns := (iq_columns r)(c := x), iq_modified := clock s\<rparr>)
             (s\<lparr>clock := Suc (clock s)\<rparr>))"

definition emit_field_change ::
  "uuid \<Rightarrow> inquiry_kind \<Rightarrow> column \<Rightarrow> cval option \<Rightarrow> cval option \<Rightarrow> uuid option \<Rightarrow> string \<Rightarrow> string
   \<Rightarrow> string list \<Rightarrow> store \<Rightarrow> (store \<times> uuid \<times> string list) res" where
  "emit_field_change i k c v w key who why extra s =
     emit_change ((emit_args i k (FieldEdited c))\<lparr>em_api_key_id := key, em_actor := who, em_reason := why,
       em_old := field_snapshot c v, em_new := field_snapshot c w, em_extra_subscribers := extra\<rparr>) True s"

text \<open>\<open>f\<close>, unless the request's key replays.\<close>

definition unless_replayed ::
  "uuid \<Rightarrow> column \<Rightarrow> string \<Rightarrow> (store \<Rightarrow> (store \<times> uuid option) res) \<Rightarrow> store \<Rightarrow> (store \<times> uuid option) res" where
  "unless_replayed i c who f s =
     bind_res (replay_field_change i (FieldEdited c) who s) (\<lambda>(s1, replay).
       if replay \<noteq> None then Inr (s1, replay) else f s1)"

text \<open>\<open>except asyncpg.CheckViolationError\<close>.\<close>

definition check_conflict :: "'a res \<Rightarrow> 'a res" where
  "check_conflict r = (if r = Inl CheckViolation then Inl ConflictError else r)"

text \<open>The \<open>validate\<close> hook \<open>server/primitives.py\<close> binds to a column with references.\<close>

definition validate_hook :: "column \<Rightarrow> cval option \<Rightarrow> store \<Rightarrow> unit res" where
  "validate_hook c v s =
     (if references (COLUMN_SPECS c) = [] then Inr ()
      else case v of
             Some (VIds ids) \<Rightarrow> validate_list_references (references (COLUMN_SPECS c)) (map (\<lambda>i. (i, None)) ids) s
           | _ \<Rightarrow> Inr ())"

definition extra_subscribers :: "column \<Rightarrow> cval option \<Rightarrow> string list" where
  "extra_subscribers c v =
     (if notify_old_subscribers c then (case v of Some (VStrs xs) \<Rightarrow> xs | _ \<Rightarrow> []) else [])"

definition on_account :: "(uuid \<Rightarrow> string \<Rightarrow> store \<Rightarrow> unit res) \<Rightarrow> uuid \<Rightarrow> column \<Rightarrow> cval option \<Rightarrow> store \<Rightarrow> unit res" where
  "on_account f i c v s = (if c = Account then (case v of Some (VStr a) \<Rightarrow> f i a s | _ \<Rightarrow> Inl ValueError) else Inr ())"

section \<open>Setting a column\<close>

definition write_field ::
  "access_policy \<Rightarrow> uuid \<Rightarrow> inquiry_kind \<Rightarrow> column \<Rightarrow> cval option \<Rightarrow> cval option \<Rightarrow> uuid option \<Rightarrow> string
   \<Rightarrow> string \<Rightarrow> store \<Rightarrow> (store \<times> uuid option) res" where
  "write_field pol i k c v w key who why s =
     bind_res (validate_hook c w s) (\<lambda>_.
     bind_res (check_conflict (update_field i c w s)) (\<lambda>t.
     bind_res (on_account (validate_account pol) i c w t) (\<lambda>_.
     bind_res (emit_field_change i k c v w key who why (extra_subscribers c v) t) (\<lambda>(u, cid, subs).
       Inr (u, Some cid)))))"

definition set_field_on_conn ::
  "access_policy \<Rightarrow> uuid \<Rightarrow> cval option \<Rightarrow> column \<Rightarrow> uuid option \<Rightarrow> string \<Rightarrow> string \<Rightarrow> store
   \<Rightarrow> (store \<times> uuid option) res" where
  "set_field_on_conn pol i v c key who why s =
     (let w = canonical_value c v in
      unless_replayed i c who (\<lambda>s1.
        bind_res (on_account (prepare_account_change pol) i c w s1) (\<lambda>_.
        bind_res (read_field i c (applies_to (COLUMN_SPECS c)) s1) (\<lambda>(before, k).
          unless_replayed i c who (\<lambda>s2.
            if py_eq before w then Inr (s2, None)
            else write_field pol i k c before w key who why s2) s1))) s)"

definition set_field ::
  "access_policy \<Rightarrow> uuid \<Rightarrow> cval option \<Rightarrow> column \<Rightarrow> uuid option \<Rightarrow> string \<Rightarrow> string \<Rightarrow> store
   \<Rightarrow> store \<times> uuid option res" where
  "set_field pol i v c key who why s =
     (if immutable (COLUMN_SPECS c) then (s, Inl ConflictError)
      else transaction (set_field_on_conn pol i v c key who why) s)"

text \<open>\<open>set_title\<close>: no normalization, and a blank title is refused.\<close>

definition set_title_on_conn ::
  "uuid \<Rightarrow> string \<Rightarrow> uuid option \<Rightarrow> string \<Rightarrow> string \<Rightarrow> store \<Rightarrow> (store \<times> uuid option) res" where
  "set_title_on_conn i v key who why =
     unless_replayed i Title who (\<lambda>s1.
       bind_res (read_field i Title None s1) (\<lambda>(before, k).
         unless_replayed i Title who (\<lambda>s2.
           if before = Some (VStr v) then Inr (s2, None)
           else bind_res (update_field i Title (Some (VStr v)) s2) (\<lambda>t.
             bind_res (emit_field_change i k Title before (Some (VStr v)) key who why [] t) (\<lambda>(u, cid, subs).
               Inr (u, Some cid)))) s1))"

definition set_title where
  "set_title i v key who why s =
     (if strip v = [] then (s, Inl ConflictError) else transaction (set_title_on_conn i v key who why) s)"

text \<open>\<open>set_account\<close>, \<open>set_issue_kind\<close> and \<open>set_source\<close> guard their value first.\<close>

definition set_account where
  "set_account pol i v key who why s =
     (if strip v = [] then (s, Inl ConflictError)
      else set_field pol i (Some (VStr v)) Account key who why s)"

definition set_issue_kind where
  "set_issue_kind pol i v key who why s =
     (if v = Some [] then (s, Inl ConflictError)
      else set_field pol i (map_option VStrs v) IssueKind key who why s)"

text \<open>\<open>^[A-Za-z][A-Za-z0-9+.\-]*:\s*\S\<close>, anchored at the start only.\<close>

definition ascii_letter :: "char \<Rightarrow> bool" where
  "ascii_letter c \<longleftrightarrow> ascii_lower c \<or> (65 \<le> code c \<and> code c \<le> 90)"

definition scheme_char :: "char \<Rightarrow> bool" where
  "scheme_char c \<longleftrightarrow> ascii_letter c \<or> ascii_digit c \<or> c \<in> {CHR ''+'', CHR ''.'', CHR ''-''}"

definition is_valid_source :: "string \<Rightarrow> bool" where
  "is_valid_source v =
     (case v of [] \<Rightarrow> False
      | c # cs \<Rightarrow>
          ascii_letter c
        \<and> (case dropWhile scheme_char cs of
             [] \<Rightarrow> False
           | x # rest \<Rightarrow> x = CHR '':'' \<and> strip rest \<noteq> []))"

definition set_source where
  "set_source pol i v key who why s =
     (if (case v of None \<Rightarrow> False | Some x \<Rightarrow> strip x \<noteq> [] \<and> \<not> is_valid_source x)
      then (s, Inl ConflictError)
      else set_field pol i (map_option VStr v) PaperSource key who why s)"

end
