(* ===== verification/Row_Invariants.thy ===== *)
theory Row_Invariants
  imports Field_Edits Graph_Properties
begin

text \<open>
  The invariant of the inquiries table: the scan list names every live row once, and every
  row passes the constraints of \<open>schema.sql\<close>, alone and against the others. It depends on
  the columns, the kinds and the sequence numbers only, so whatever keeps those keeps it;
  the statements that write rows keep it by the constraints themselves.
\<close>

definition row_ok :: "store \<Rightarrow> inquiry \<Rightarrow> bool" where
  "row_ok s r \<longleftrightarrow> row_typed r \<and> not_null_check r \<and> inquiry_row_check r \<and> iq_seq r \<le> sequences s (iq_kind r)"

definition rows_ok :: "store \<Rightarrow> bool" where
  "rows_ok s \<longleftrightarrow>
     distinct (iq_ids s)
   \<and> (\<forall>i. inquiries s i \<noteq> None \<longleftrightarrow> i \<in> set (iq_ids s))
   \<and> (\<forall>i r. inquiries s i = Some r \<longrightarrow> row_ok s r)
   \<and> (\<forall>i j r q. inquiries s i = Some r \<longrightarrow> inquiries s j = Some q \<longrightarrow> i \<noteq> j \<longrightarrow> \<not> collides r q)"

lemma rows_okD:
  assumes "rows_ok s"
  shows "distinct (iq_ids s)" "inquiries s i = Some r \<Longrightarrow> i \<in> set (iq_ids s)"
    "i \<in> set (iq_ids s) \<Longrightarrow> \<exists>r. inquiries s i = Some r"
    "inquiries s i = Some r \<Longrightarrow> row_typed r \<and> not_null_check r \<and> inquiry_row_check r"
    "inquiries s i = Some r \<Longrightarrow> iq_seq r \<le> sequences s (iq_kind r)"
    "inquiries s i = Some r \<Longrightarrow> inquiries s j = Some q \<Longrightarrow> i \<noteq> j \<Longrightarrow> \<not> collides r q"
  using assms unfolding rows_ok_def row_ok_def by blast+

lemma collides_sym: "collides r q = collides q r"
  unfolding collides_def by metis

text \<open>The constraints read the static part of a row.\<close>

lemma static_checks:
  assumes "iq_static r = iq_static q"
  shows "row_typed r = row_typed q" "not_null_check r = not_null_check q"
    "inquiry_row_check r = inquiry_row_check q" "collides r x = collides q x" "collides x r = collides x q"
    "iq_seq r = iq_seq q" "iq_kind r = iq_kind q" "iq_columns r = iq_columns q" "iq_created r = iq_created q"
  using assms
  by (simp_all cong: option.case_cong cval.case_cong
      add: iq_static_def row_typed_def not_null_check_def inquiry_row_check_def column_row_check_def
      collides_def live_session_owner_def iq_owner_def)

lemma rows_kept_row:
  "rows_kept s t \<Longrightarrow> inquiries t i = Some r \<Longrightarrow> \<exists>q. inquiries s i = Some q \<and> iq_static q = iq_static r"
  unfolding rows_kept_def by (metis map_option_eq_Some)

lemma rows_kept_present: "rows_kept s t \<Longrightarrow> inquiries t i = None \<longleftrightarrow> inquiries s i = None"
  unfolding rows_kept_def by (metis map_option_is_None)

lemma rows_ok_kept:
  assumes k: "rows_kept s t" "iq_ids t = iq_ids s" "sequences t = sequences s" and ok: "rows_ok s"
  shows "rows_ok t"
  unfolding rows_ok_def
proof (intro conjI allI impI)
  show "distinct (iq_ids t)" using ok k by (simp add: rows_ok_def)
  show "(inquiries t i \<noteq> None) = (i \<in> set (iq_ids t))" for i
    using ok k rows_kept_present [OF k(1), of i] by (simp add: rows_ok_def)
  show "row_ok t r" if r: "inquiries t i = Some r" for i r
  proof -
    obtain q where q: "inquiries s i = Some q" "iq_static q = iq_static r"
      using rows_kept_row [OF k(1) r] by blast
    with ok have "row_ok s q" by (simp add: rows_ok_def)
    with static_checks [OF q(2)] k(3) show ?thesis by (simp add: row_ok_def)
  qed
  show "\<not> collides r q" if rq: "inquiries t i = Some r" "inquiries t j = Some q" "i \<noteq> j" for i j r q
  proof -
    obtain r' where r': "inquiries s i = Some r'" "iq_static r' = iq_static r"
      using rows_kept_row [OF k(1) rq(1)] by blast
    obtain q' where q': "inquiries s j = Some q'" "iq_static q' = iq_static q"
      using rows_kept_row [OF k(1) rq(2)] by blast
    have "\<not> collides r' q'" using rows_okD(6) [OF ok r'(1) q'(1) rq(3)] .
    then show ?thesis using static_checks(4) [OF r'(2)] static_checks(5) [OF q'(2)] by simp
  qed
qed

lemma rows_ok_emitted: "emitted s t \<Longrightarrow> rows_ok s \<Longrightarrow> rows_ok t"
  by (rule rows_ok_kept [of s]) (simp_all add: emitted_def wrote_def)

lemma rows_ok_advances: "advances s t \<Longrightarrow> rows_ok s \<Longrightarrow> rows_ok t"
  by (rule rows_ok_kept [of s]) (simp_all add: advances_def)

lemma rows_ok_state [simp]:
  "rows_ok (s\<lparr>buffer := b\<rparr>) = rows_ok s"
  "rows_ok (s\<lparr>published := b\<rparr>) = rows_ok s"
  "rows_ok (s\<lparr>client_change_id := k\<rparr>) = rows_ok s"
  "rows_ok (s\<lparr>clock := n\<rparr>) = rows_ok s"
  by (simp_all add: rows_ok_def row_ok_def)

text \<open>Writing a row over a live one of the same kind and number, and writing a new one.\<close>

lemma rows_ok_place:
  assumes ok: "rows_ok s" and p: "place_inquiry_row i r s = Inr t"
    and r: "inquiries s i = Some q" "iq_kind r = iq_kind q" "iq_seq r = iq_seq q"
  shows "rows_ok t"
proof -
  note p = p [unfolded place_inquiry_row_Inr]
  have t: "t = s\<lparr>inquiries := (inquiries s)(i \<mapsto> r)\<rparr>" using p by blast
  have new: "row_ok s r" using p r rows_okD(5) [OF ok r(1)] by (simp add: row_ok_def)
  have apart: "\<not> collides r x" if "inquiries s j = Some x" "j \<noteq> i" for j x
    using p that rows_okD(2) [OF ok that(1)] by blast
  have at: "inquiries t j = (if j = i then Some r else inquiries s j)" "iq_ids t = iq_ids s"
    "row_ok t = row_ok s" for j
    by (simp_all add: t row_ok_def fun_eq_iff)
  show ?thesis
    unfolding rows_ok_def at
  proof (intro conjI allI impI)
    show "distinct (iq_ids s)" using ok by (simp add: rows_ok_def)
    show "((if j = i then Some r else inquiries s j) \<noteq> None) = (j \<in> set (iq_ids s))" for j
      using ok r(1) by (auto simp: rows_ok_def)
    show "row_ok s x" if "(if j = i then Some r else inquiries s j) = Some x" for j x
      using ok that new by (auto simp: rows_ok_def split: if_splits)
    show "\<not> collides x y" if "(if j = i then Some r else inquiries s j) = Some x"
        "(if k = i then Some r else inquiries s k) = Some y" "j \<noteq> k" for j k x y
      using that apart collides_sym [of x y] rows_okD(6) [OF ok _ _ that(3), of x y] by (auto split: if_splits)
  qed
qed

lemma rows_ok_insert:
  assumes ok: "rows_ok s" and p: "insert_inquiry_row i r s = Inr t" and n: "iq_seq r \<le> sequences s (iq_kind r)"
  shows "rows_ok t"
proof -
  note p = p [unfolded insert_inquiry_row_Inr place_inquiry_row_Inr]
  have t: "t = s\<lparr>inquiries := (inquiries s)(i \<mapsto> r), iq_ids := iq_ids s @ [i], clock := Suc (clock s)\<rparr>"
    using p by auto
  have new: "row_ok s r" using p n by (simp add: row_ok_def)
  have none: "inquiries s i = None" using p by blast
  then have i: "i \<notin> set (iq_ids s)" using rows_okD(3) [OF ok] by fastforce
  have apart: "\<not> collides r x" if "inquiries s j = Some x" for j x
    using p that none rows_okD(2) [OF ok that] by fastforce
  have at: "inquiries t j = (if j = i then Some r else inquiries s j)" "iq_ids t = iq_ids s @ [i]"
    "row_ok t = row_ok s" for j
    by (simp_all add: t row_ok_def fun_eq_iff)
  show ?thesis
    unfolding rows_ok_def at
  proof (intro conjI allI impI)
    show "distinct (iq_ids s @ [i])" using ok i by (simp add: rows_ok_def)
    show "((if j = i then Some r else inquiries s j) \<noteq> None) = (j \<in> set (iq_ids s @ [i]))" for j
      using ok by (auto simp: rows_ok_def)
    show "row_ok s x" if "(if j = i then Some r else inquiries s j) = Some x" for j x
      using ok that new by (auto simp: rows_ok_def split: if_splits)
    show "\<not> collides x y" if "(if j = i then Some r else inquiries s j) = Some x"
        "(if k = i then Some r else inquiries s k) = Some y" "j \<noteq> k" for j k x y
      using that apart collides_sym [of x y] rows_okD(6) [OF ok _ _ that(3), of x y] by (auto split: if_splits)
  qed
qed

lemma rows_ok_delete:
  assumes "rows_ok s"
  shows "rows_ok (delete_inquiry_row i s)"
proof -
  let ?t = "delete_inquiry_row i s"
  have at: "inquiries ?t j = (if j = i then None else inquiries s j)" "iq_ids ?t = removeAll i (iq_ids s)"
    "row_ok ?t = row_ok s" for j
    by (simp_all add: delete_inquiry_row_def row_ok_def fun_eq_iff)
  show ?thesis
    unfolding rows_ok_def at
    using assms by (intro conjI allI impI) (auto simp: rows_ok_def distinct_removeAll split: if_splits)
qed

end
