(* ===== verification/List_Edits.thy ===== *)
theory List_Edits
  imports Field_Edits
begin

text \<open>
  \<open>store/edit.py\<close>: \<open>mutate_list_field\<close>, the atomic add and remove of one entry of a list
  column, the compare-and-set transitions, and the setters, each one call of the pipeline.
\<close>

section \<open>One entry of a list column\<close>

text \<open>A list column holds strings or ids. \<open>wrap\<close> and \<open>items\<close> go between a list and the value,
  \<open>norm\<close> is the column's normalizer on lists.\<close>

record 'a list_shape =
  wrap :: "'a list \<Rightarrow> cval"
  items :: "cval option \<Rightarrow> 'a list"

definition strs_shape :: "string list_shape" where
  "strs_shape = \<lparr>wrap = VStrs, items = (\<lambda>v. case v of Some (VStrs xs) \<Rightarrow> xs | _ \<Rightarrow> [])\<rparr>"

definition ids_shape :: "uuid list_shape" where
  "ids_shape = \<lparr>wrap = VIds, items = (\<lambda>v. case v of Some (VIds xs) \<Rightarrow> xs | _ \<Rightarrow> [])\<rparr>"

definition norm_items :: "'a list_shape \<Rightarrow> column \<Rightarrow> 'a list \<Rightarrow> 'a list" where
  "norm_items sh c xs = items sh (Some (normalize_col c (wrap sh xs)))"

text \<open>What the list becomes; \<open>None\<close> when it stays as it is.\<close>

definition with_item :: "bool \<Rightarrow> 'a \<Rightarrow> 'a list \<Rightarrow> 'a list option" where
  "with_item byline x xs = (if \<not> byline \<and> x \<in> set xs then None else Some (xs @ [x]))"

definition without_item :: "bool \<Rightarrow> 'a \<Rightarrow> 'a list \<Rightarrow> 'a list option" where
  "without_item byline x xs =
     (if x \<notin> set xs then None else Some (if byline then remove1 x xs else filter (\<lambda>y. y \<noteq> x) xs))"

definition write_items ::
  "'a list_shape \<Rightarrow> uuid \<Rightarrow> inquiry_kind \<Rightarrow> column \<Rightarrow> cval option \<Rightarrow> 'a list \<Rightarrow> 'a list \<Rightarrow> bool \<Rightarrow> uuid option
   \<Rightarrow> string \<Rightarrow> string \<Rightarrow> (store \<Rightarrow> unit res) \<Rightarrow> store \<Rightarrow> (store \<times> uuid option) res" where
  "write_items sh i k c before working xs include key who why validate_item s =
     bind_res (validate_item s) (\<lambda>_.
       let w = (if include \<or> 0 < min_items (COLUMN_SPECS c) then Some (wrap sh xs)
                else empty_optional_to_none (Some (wrap sh xs)))
       in bind_res (check_conflict (update_field i c w s)) (\<lambda>t.
          bind_res (emit_field_change i k c before w key who why
                      (extra_subscribers c (Some (wrap sh working))) t)
            (\<lambda>(u, cid, subs). Inr (u, Some cid))))"

definition mutate_list_field_on_conn ::
  "'a list_shape \<Rightarrow> uuid \<Rightarrow> 'a \<Rightarrow> column \<Rightarrow> uuid option \<Rightarrow> string \<Rightarrow> string \<Rightarrow> bool \<Rightarrow> (store \<Rightarrow> unit res)
   \<Rightarrow> store \<Rightarrow> (store \<times> uuid option) res" where
  "mutate_list_field_on_conn sh i item c key who why include validate_item =
     unless_replayed i c who (\<lambda>s1.
       bind_res (read_field i c (applies_to (COLUMN_SPECS c)) s1) (\<lambda>(before, k).
         unless_replayed i c who (\<lambda>s2.
           let working = norm_items sh c (items sh before) in
           case norm_items sh c [item] of
             [x] \<Rightarrow>
               (case (if include then with_item else without_item) (is_byline (COLUMN_SPECS c)) x working of
                  None \<Rightarrow> Inr (s2, None)
                | Some xs \<Rightarrow> write_items sh i k c before working xs include key who why validate_item s2)
           | _ \<Rightarrow> Inl ConflictError) s1))"

definition mutate_list_field where
  "mutate_list_field sh i item c key who why include validate_item s =
     transaction (mutate_list_field_on_conn sh i item c key who why include validate_item) s"

definition no_check :: "store \<Rightarrow> unit res" where
  "no_check s = Inr ()"

definition add_author where
  "add_author i x key who why s = mutate_list_field strs_shape i x PaperAuthors key who why True no_check s"

definition remove_author where
  "remove_author i x key who why s = mutate_list_field strs_shape i x PaperAuthors key who why False no_check s"

definition add_subscriber where
  "add_subscriber i x key who why s = mutate_list_field strs_shape i x Subscribers key who why True no_check s"

definition remove_subscriber where
  "remove_subscriber i x key who why s = mutate_list_field strs_shape i x Subscribers key who why False no_check s"

definition add_label where
  "add_label i x key who why s = mutate_list_field strs_shape i x Labels key who why True no_check s"

definition remove_label where
  "remove_label i x key who why s = mutate_list_field strs_shape i x Labels key who why False no_check s"

definition add_issue_kind where
  "add_issue_kind i x key who why s = mutate_list_field strs_shape i x IssueKind key who why True no_check s"

definition remove_issue_kind where
  "remove_issue_kind i x key who why s = mutate_list_field strs_shape i x IssueKind key who why False no_check s"

definition add_room where
  "add_room i x key who why s = mutate_list_field strs_shape i x SessionRooms key who why True no_check s"

definition remove_room where
  "remove_room i x key who why s = mutate_list_field strs_shape i x SessionRooms key who why False no_check s"

definition add_codechange where
  "add_codechange i x key who why s =
     mutate_list_field ids_shape i x ExperimentCodechanges key who why True
       (validate_list_references (references (COLUMN_SPECS ExperimentCodechanges)) [(x, None)]) s"

definition remove_codechange where
  "remove_codechange i x key who why s =
     mutate_list_field ids_shape i x ExperimentCodechanges key who why False no_check s"

section \<open>Compare-and-set\<close>

text \<open>
  A transition holds the row from its read to its write: \<open>same\<close> compares the current value
  with the expected one and with the new one, \<open>guard\<close> maps the errors of the update.
\<close>

definition transition_field ::
  "uuid \<Rightarrow> column \<Rightarrow> inquiry_kind option \<Rightarrow> (cval option \<Rightarrow> cval option \<Rightarrow> bool) \<Rightarrow> (store res \<Rightarrow> store res)
   \<Rightarrow> cval option \<Rightarrow> cval option \<Rightarrow> uuid option \<Rightarrow> string \<Rightarrow> string \<Rightarrow> store \<Rightarrow> (store \<times> uuid option) res" where
  "transition_field i c kinds same guard expected target key who why =
     unless_replayed i c who (\<lambda>s1.
       bind_res (read_field i c kinds s1) (\<lambda>(current, k).
         unless_replayed i c who (\<lambda>s2.
           if \<not> same current expected then Inl ConflictError
           else if same current target then Inr (s2, None)
           else bind_res (guard (update_field i c target s2)) (\<lambda>t.
             bind_res (emit_field_change i k c current target key who why [] t) (\<lambda>(u, cid, subs).
               Inr (u, Some cid)))) s1))"

definition transition_owner where
  "transition_owner i expected to key who why s =
     transaction (transition_field i Owner None (=) (\<lambda>r. r)
       (empty_optional_to_none (map_option VStr expected)) (empty_optional_to_none (map_option VStr to))
       key who why) s"

definition transition_status where
  "transition_status i expected to key who why s =
     transaction (transition_field i Status None (=) (\<lambda>r. r) (Some (VStr expected)) (Some (VStr to)) key who why) s"

definition transition_judgement where
  "transition_judgement i expected to key who why s =
     transaction (transition_field i BeliefJudgement (Some Belief) (=) (\<lambda>r. r)
       (map_option VStr expected) (map_option VStr to) key who why) s"

fun as_json :: "cval option \<Rightarrow> json option" where
  "as_json (Some (VJson j)) = Some j"
| "as_json v = None"

definition transition_app where
  "transition_app i expected to key who why s =
     transaction (transition_field i App None (\<lambda>v w. same_json (as_json v) (as_json w)) check_conflict
       (map_option VJson expected) (map_option VJson to) key who why) s"

section \<open>Setters\<close>

definition set_description where "set_description pol i v key who why s = set_field pol i (map_option VStr v) Description key who why s"
definition set_owner where "set_owner pol i v key who why s = set_field pol i (map_option VStr v) Owner key who why s"
definition set_status where "set_status pol i v key who why s = set_field pol i (Some (VStr v)) Status key who why s"
definition set_judgement where "set_judgement pol i v key who why s = set_field pol i (map_option VStr v) BeliefJudgement key who why s"
definition set_confidence where "set_confidence pol i v key who why s = set_field pol i (map_option VFloat v) BeliefConfidence key who why s"
definition set_validation where "set_validation pol i v key who why s = set_field pol i (map_option VStr v) IssueValidation key who why s"
definition set_priority where "set_priority pol i v key who why s = set_field pol i (map_option VInt v) IssuePriority key who why s"
definition set_outcome where "set_outcome pol i v key who why s = set_field pol i (map_option VStr v) ExperimentOutcome key who why s"
definition set_config where "set_config pol i v key who why s = set_field pol i (map_option VJson v) ExperimentConfig key who why s"
definition set_app where "set_app pol i v key who why s = set_field pol i (map_option VJson v) App key who why s"
definition set_abstract where "set_abstract pol i v key who why s = set_field pol i (map_option VStr v) PaperAbstract key who why s"
definition set_authors where "set_authors pol i v key who why s = set_field pol i (map_option VStrs v) PaperAuthors key who why s"
definition set_publication_type where "set_publication_type pol i v key who why s = set_field pol i (map_option VStr v) PaperPublicationType key who why s"
definition set_venue where "set_venue pol i v key who why s = set_field pol i (map_option VStr v) PaperVenue key who why s"
definition set_subvenue where "set_subvenue pol i v key who why s = set_field pol i (map_option VStr v) PaperSubvenue key who why s"
definition set_publish_date where "set_publish_date pol i v key who why s = set_field pol i (map_option VTime v) PaperPublishDate key who why s"
definition set_google_scholar_cluster_id where "set_google_scholar_cluster_id pol i v key who why s = set_field pol i (map_option VStr v) PaperClusterId key who why s"
definition set_google_scholar_cites_id where "set_google_scholar_cites_id pol i v key who why s = set_field pol i (map_option VStr v) PaperCitesId key who why s"
definition set_query where "set_query pol i v key who why s = set_field pol i (map_option VStr v) WebsearchQuery key who why s"
definition set_provider where "set_provider pol i v key who why s = set_field pol i (map_option VStr v) WebsearchProvider key who why s"
definition set_labels where "set_labels pol i v key who why s = set_field pol i (map_option VStrs v) Labels key who why s"
definition set_subscribers where "set_subscribers pol i v key who why s = set_field pol i (Some (VStrs v)) Subscribers key who why s"
definition set_codechanges where "set_codechanges pol i v key who why s = set_field pol i (map_option VIds v) ExperimentCodechanges key who why s"
definition set_sha where "set_sha pol i v key who why s = set_field pol i (map_option VStr v) CodechangeSha key who why s"
definition set_url where "set_url pol i v key who why s = set_field pol i (map_option VStr v) WebresultUrl key who why s"
definition set_cli where "set_cli pol i v key who why s = set_field pol i (map_option VStr v) SessionCli key who why s"
definition set_cli_session_id where "set_cli_session_id pol i v key who why s = set_field pol i (map_option VStr v) SessionCliId key who why s"
definition set_started where "set_started pol i v key who why s = set_field pol i (map_option VTime v) SessionStarted key who why s"
definition set_rooms where "set_rooms pol i v key who why s = set_field pol i (map_option VStrs v) SessionRooms key who why s"

end
