(* ===== verification/Issue_Queue.thy ===== *)
theory Issue_Queue
  imports List_Edits
begin

text \<open>
  The work queue: \<open>server/sql_fragments.py\<close> says which issue is available and which one
  comes first, \<open>claim_next_issue\<close> of \<open>store/edit.py\<close> takes it for an owner, and
  \<open>replay_claim\<close> answers a keyed retry with the issue its first attempt took. The rows
  another transaction has locked (\<open>SKIP LOCKED\<close>) and the rows the claimant may read are
  parameters; where several rows tie, the oldest row of the table comes first.
\<close>

definition is_active :: "uuid \<Rightarrow> store \<Rightarrow> bool" where
  "is_active i s \<longleftrightarrow>
     (case inquiries s i of None \<Rightarrow> False | Some r \<Rightarrow> iq_columns r Status = Some (VStr ''active''))"

text \<open>\<open>_policy_exclude_clauses(policy_attr="skips_scheduler_on")\<close>.\<close>

definition skipped :: "uuid \<Rightarrow> store \<Rightarrow> bool" where
  "skipped i s \<longleftrightarrow>
     (\<exists>e \<in> set (edges s).
        (from_id e = i \<and> skips_scheduler_on (EDGE_POLICIES (edge_kind e)) = Some From)
      \<or> (to_id e = i \<and> skips_scheduler_on (EDGE_POLICIES (edge_kind e)) = Some To))"

definition blocked :: "uuid \<Rightarrow> store \<Rightarrow> bool" where
  "blocked i s \<longleftrightarrow> (\<exists>e \<in> set (edges s). from_id e = i \<and> edge_kind e = Requires \<and> is_active (to_id e) s)"

definition eligible :: "store \<Rightarrow> uuid \<Rightarrow> bool" where
  "eligible s i \<longleftrightarrow>
     (case inquiries s i of
        None \<Rightarrow> False
      | Some r \<Rightarrow> iq_kind r = Issue \<and> iq_columns r Status = Some (VStr ''active'')
          \<and> iq_columns r Owner = None \<and> \<not> iq_locked r)
   \<and> \<not> blocked i s \<and> \<not> skipped i s"

definition priority_of :: "store \<Rightarrow> uuid \<Rightarrow> int option" where
  "priority_of s i =
     (case inquiries s i of
        Some r \<Rightarrow> (case iq_columns r IssuePriority of Some (VInt n) \<Rightarrow> Some n | _ \<Rightarrow> None)
      | None \<Rightarrow> None)"

definition created_of :: "store \<Rightarrow> uuid \<Rightarrow> nat" where
  "created_of s i = (case inquiries s i of Some r \<Rightarrow> iq_created r | None \<Rightarrow> 0)"

text \<open>\<open>ORDER BY issue_priority, created\<close>: NULL comes last.\<close>

definition comes_before :: "store \<Rightarrow> uuid \<Rightarrow> uuid \<Rightarrow> bool" where
  "comes_before s i j \<longleftrightarrow>
     (case (priority_of s i, priority_of s j) of
        (Some m, Some n) \<Rightarrow> m < n \<or> (m = n \<and> created_of s i < created_of s j)
      | (Some m, None) \<Rightarrow> True
      | (None, Some n) \<Rightarrow> False
      | (None, None) \<Rightarrow> created_of s i < created_of s j)"

definition first_of :: "store \<Rightarrow> uuid list \<Rightarrow> uuid option" where
  "first_of s ids =
     (case ids of [] \<Rightarrow> None
      | i # is \<Rightarrow> Some (foldl (\<lambda>best j. if comes_before s j best then j else best) i is))"

definition next_issue :: "(uuid \<Rightarrow> bool) \<Rightarrow> store \<Rightarrow> uuid option" where
  "next_issue reads s = first_of s (filter (\<lambda>i. eligible s i \<and> reads i) (iq_ids s))"

definition claimable_issue :: "(uuid \<Rightarrow> bool) \<Rightarrow> (uuid \<Rightarrow> bool) \<Rightarrow> store \<Rightarrow> uuid option" where
  "claimable_issue reads held s =
     first_of s (filter (\<lambda>i. eligible s i \<and> reads i \<and> \<not> held i) (iq_ids s))"

text \<open>The issue a committed claim under this request's key took.\<close>

definition replay_claim ::
  "(uuid \<Rightarrow> bool) \<Rightarrow> string \<Rightarrow> string \<Rightarrow> store \<Rightarrow> (store \<times> uuid option) res" where
  "replay_claim reads owner who s =
     (case peek_client_change_id s of
        None \<Rightarrow> Inr (s, None)
      | Some key \<Rightarrow>
          (case find_change key s of
             None \<Rightarrow> Inr (s, None)
           | Some c \<Rightarrow>
               let (key', t) = consume_client_change_id s in
               if key' \<noteq> Some key then Inr (t, None)
               else if \<not> (change_kind c = FieldEdited Owner \<and> subject_kind c = Issue \<and> actor c = who
                          \<and> edited (old c) = None \<and> edited (new c) = Some (Owner, VStr owner))
               then Inl ConflictError
               else
                 (case inquiries t (subject_id c) of
                    None \<Rightarrow> Inl NotFoundError
                  | Some r \<Rightarrow>
                      if \<not> reads (subject_id c) then Inl NotFoundError
                      else if iq_columns r Status \<noteq> Some (VStr ''active'') \<or> iq_columns r Owner \<noteq> Some (VStr owner)
                      then Inl ConflictError
                      else Inr (t, Some (subject_id c)))))"

text \<open>\<open>UPDATE inquiries SET owner = $1 ... RETURNING *\<close>: the modification time stays.\<close>

definition claim_next_issue_on_conn ::
  "(uuid \<Rightarrow> bool) \<Rightarrow> (uuid \<Rightarrow> bool) \<Rightarrow> string \<Rightarrow> uuid option \<Rightarrow> string \<Rightarrow> string \<Rightarrow> store
   \<Rightarrow> (store \<times> uuid option) res" where
  "claim_next_issue_on_conn reads held owner key who why s =
     bind_res (replay_claim reads owner who s) (\<lambda>(s1, replayed).
       if replayed \<noteq> None then Inr (s1, replayed)
       else
         (case claimable_issue reads held s1 of
            None \<Rightarrow> Inr (s1, None)
          | Some i \<Rightarrow>
              bind_res (update_inquiry_row i
                  (\<lambda>r. r\<lparr>iq_columns := (iq_columns r)(Owner \<mapsto> VStr owner)\<rparr>) s1) (\<lambda>t.
              bind_res (emit_field_change i Issue Owner None (Some (VStr owner)) key who why [] t)
                (\<lambda>(u, cid, subs). Inr (u, Some i)))))"

definition claim_next_issue where
  "claim_next_issue reads held owner key who why s =
     (if strip owner = [] then (s, Inl ConflictError)
      else transaction (claim_next_issue_on_conn reads held owner key who why) s)"

end
