(* ===== verification/Edit_Lemmas.thy ===== *)
theory Edit_Lemmas
  imports Row_Invariants Issue_Queue
begin

text \<open>
  What a field edit does. Every edit that writes is one update of one row and one emission,
  so one lemma gives the effect of all of them: the column has the new value, every other
  column, row and edge is as before, the log has one new row for the edit, with the value
  before and the value after, followed by the alerts of the cascade, and the invariants hold.
\<close>

definition edited_row :: "column \<Rightarrow> cval option \<Rightarrow> nat \<Rightarrow> inquiry \<Rightarrow> inquiry" where
  "edited_row c w m r = r\<lparr>iq_columns := (iq_columns r)(c := w), iq_modified := m\<rparr>"

definition field_change ::
  "uuid \<Rightarrow> inquiry_kind \<Rightarrow> column \<Rightarrow> cval option \<Rightarrow> cval option \<Rightarrow> uuid option \<Rightarrow> string \<Rightarrow> string \<Rightarrow> uuid
   \<Rightarrow> change \<Rightarrow> bool" where
  "field_change i k c v w key who why cid ch \<longleftrightarrow>
     change_id ch = cid \<and> change_kind ch = FieldEdited c \<and> subject_id ch = i \<and> subject_kind ch = k
   \<and> api_key_id ch = key \<and> actor ch = who \<and> reason ch = why \<and> caused_by ch = None
   \<and> old ch = field_snapshot c v \<and> new ch = field_snapshot c w"

text \<open>The rows of \<open>t\<close> are those of \<open>s\<close> with \<open>w\<close> in column \<open>c\<close> of row \<open>i\<close>.\<close>

definition column_written :: "uuid \<Rightarrow> column \<Rightarrow> cval option \<Rightarrow> store \<Rightarrow> store \<Rightarrow> bool" where
  "column_written i c w s t \<longleftrightarrow>
     (\<forall>j. map_option iq_static (inquiries t j) =
        (if j = i then map_option (\<lambda>r. iq_static (edited_row c w 0 r)) (inquiries s i)
         else map_option iq_static (inquiries s j)))
   \<and> edges t = edges s \<and> iq_ids t = iq_ids s \<and> sequences t = sequences s \<and> published t = published s"

definition wrote_field ::
  "uuid \<Rightarrow> column \<Rightarrow> cval option \<Rightarrow> uuid option \<Rightarrow> string \<Rightarrow> string \<Rightarrow> uuid \<Rightarrow> store \<Rightarrow> store \<Rightarrow> bool" where
  "wrote_field i c w key who why cid s t \<longleftrightarrow>
     column_written i c w s t
   \<and> (\<exists>r ch cs. inquiries s i = Some r
        \<and> field_change i (iq_kind r) c (iq_columns r c) w key who why cid ch
        \<and> change_log t = change_log s @ ch # cs \<and> (\<forall>a \<in> set cs. is_alert a)
        \<and> mset (map alert_key cs) = mset (map alert_of
             (filter (\<lambda>x. other_id x \<in> affected i (edges s)) (edges s))))"

lemma wrote_fieldE:
  assumes "wrote_field i c w key who why cid s t"
  obtains r ch cs where "column_written i c w s t" "inquiries s i = Some r"
    "field_change i (iq_kind r) c (iq_columns r c) w key who why cid ch"
    "change_log t = change_log s @ ch # cs" "\<forall>a \<in> set cs. is_alert a"
  using assms unfolding wrote_field_def by (elim conjE exE) (rule that)

lemma edited_row_simps [simp]:
  "iq_kind (edited_row c w m r) = iq_kind r" "iq_seq (edited_row c w m r) = iq_seq r"
  "iq_created (edited_row c w m r) = iq_created r" "iq_cost (edited_row c w m r) = iq_cost r"
  "iq_locked (edited_row c w m r) = iq_locked r"
  "iq_columns (edited_row c w m r) = (iq_columns r)(c := w)"
  by (simp_all add: edited_row_def)

lemma edited_row_static: "iq_static (edited_row c w m r) = iq_static (edited_row c w n r)"
  by (simp add: iq_static_def)

lemma emit_once_fresh:
  assumes "emit_once e s = Inr (t, cid, subs, r)" "unused_key s"
  shows "\<not> r"
  using assms(1)
proof (cases rule: emit_once_cases)
  case (replay c)
  with assms(2) show ?thesis using find_change_ids [OF replay(4)] by (simp add: unused_key_def)
qed

lemma edges_ok_place:
  assumes "place_inquiry_row i r s = Inr t" "inquiries s i = Some q" "iq_kind r = iq_kind q"
  shows "edges_ok t = edges_ok s"
  using assms by (intro edges_ok_cong) (auto simp: place_inquiry_row_Inr)

lemma store_ok_place:
  assumes p: "place_inquiry_row i r (s\<lparr>clock := n\<rparr>) = Inr t" and n: "clock s \<le> n" and ok: "store_ok s"
    and q: "inquiries s i = Some q" "iq_kind r = iq_kind q" "iq_cost r = iq_cost q"
  shows "store_ok t"
proof -
  have t: "t = s\<lparr>inquiries := (inquiries s)(i \<mapsto> r), clock := n\<rparr>"
    using p by (auto simp: place_inquiry_row_Inr)
  have "edges_ok t = edges_ok s" by (rule edges_ok_cong) (simp_all add: t q)
  moreover have "log_ok t" using ok n by (force simp: t store_ok_def log_ok_def change_ids_def)
  moreover have "costs_ok t"
    by (rule costs_ok_mono [OF store_okD(1) [OF ok]]) (auto simp: t q split: if_splits)
  ultimately show ?thesis using ok by (simp add: store_ok_def)
qed

lemma non_propagating_field [simp]: "\<not> non_propagating (FieldEdited c)"
  by (simp add: non_propagating_def)

lemma rows_kept_written:
  assumes "u = s\<lparr>inquiries := (inquiries s)(i \<mapsto> edited_row c w m r), clock := n\<rparr>" "inquiries s i = Some r"
    and "emitted u t"
  shows "column_written i c w s t"
proof -
  have "map_option iq_static (inquiries t j) = map_option iq_static (inquiries u j)" for j
    using assms(3) by (simp add: emitted_def wrote_def rows_kept_def)
  then have "map_option iq_static (inquiries t j) = (if j = i then map_option (\<lambda>r. iq_static (edited_row c w 0 r)) (inquiries s i)
         else map_option iq_static (inquiries s j))" for j
    using assms(1,2) edited_row_static [of c w m r 0] by simp
  then show ?thesis using assms(1,3) by (simp add: column_written_def emitted_def wrote_def)
qed

lemma write_effect:
  assumes ok: "store_ok s" "rows_ok s" and key: "unused_key s"
    and r: "inquiries s i = Some r" and n: "clock s \<le> n"
    and up: "update_inquiry_row i (\<lambda>r. edited_row c w (m r) r) (s\<lparr>clock := n\<rparr>) = Inr u"
    and em: "emit_field_change i (iq_kind r) c (iq_columns r c) w key' who why ex u = Inr (t, cid, subs)"
  shows "wrote_field i c w key' who why cid s t" "store_ok t" "rows_ok t" "client_change_id t = None"
    "cid \<in> change_ids t" "mirrored s t" "client_change_id s = None \<or> client_change_id s = Some cid"
proof -
  let ?e = "(emit_args i (iq_kind r) (FieldEdited c))\<lparr>em_api_key_id := key', em_actor := who, em_reason := why,
       em_old := field_snapshot c (iq_columns r c), em_new := field_snapshot c w, em_extra_subscribers := ex\<rparr>"
  have p: "place_inquiry_row i (edited_row c w (m r) r) (s\<lparr>clock := n\<rparr>) = Inr u"
    using up r by (simp add: update_inquiry_row_def)
  then have u: "u = s\<lparr>inquiries := (inquiries s)(i \<mapsto> edited_row c w (m r) r), clock := n\<rparr>"
    by (auto simp: place_inquiry_row_Inr)
  have oku: "store_ok u" by (rule store_ok_place [OF p n ok(1) r]) simp_all
  have rowsu: "rows_ok u" by (rule rows_ok_place [OF _ p]) (use ok r in simp_all)
  have em': "emit_change ?e True u = Inr (t, cid, subs)" using em by (simp add: emit_field_change_def)
  note t = emit_change_emitted [OF em']
  show "store_ok t" by (rule emitted_store_ok [OF t(1) oku])
  show "rows_ok t" by (rule rows_ok_emitted [OF t(1) rowsu])
  show "client_change_id t = None" "cid \<in> change_ids t" by (fact t)+
  show "mirrored s t" using t(1) by (simp add: emitted_def mirrored_def u)
  obtain v rep where o: "emit_once ?e u = Inr (v, cid, subs, rep)"
    using em' by (auto simp: emit_change_def res_simps split: if_splits)
  have same: "change_ids u = change_ids s" "client_change_id u = client_change_id s"
    by (simp_all add: u change_ids_def)
  have "unused_key u" using key by (cases "client_change_id s") (simp_all add: unused_key_def same)
  with o have o: "emit_once ?e u = Inr (v, cid, subs, False)" using emit_once_fresh [OF o] by simp
  then show "client_change_id s = None \<or> client_change_id s = Some cid"
    by (auto simp: emit_once_def consume_client_change_id_def u res_simps split: option.splits sum.splits if_splits)
  have np: "\<not> non_propagating (em_kind ?e)" by (simp add: emit_args_def)
  obtain t' ch cs where c: "emit_change ?e True u = Inr (t', cid, subs)" "change_log t' = change_log u @ ch # cs"
    "change_of cid ?e subs ch" "\<forall>a \<in> set cs. is_alert a"
    "mset (map alert_key cs) = mset (map alert_of
        (filter (\<lambda>x. other_id x \<in> affected (em_subject_id ?e) (edges u)) (edges u)))"
    using emit_cascades [OF oku o np] by blast
  have i: "em_subject_id ?e = i" by (simp add: emit_args_def)
  have ch: "field_change i (iq_kind r) c (iq_columns r c) w key' who why cid ch"
    using c(3) by (simp add: field_change_def change_of_def emit_args_def field_snapshot_def)
  show "wrote_field i c w key' who why cid s t"
    unfolding wrote_field_def
  proof (intro conjI exI)
    show "column_written i c w s t" by (rule rows_kept_written [OF u r t(1)])
    show "inquiries s i = Some r" by (fact r)
    show "field_change i (iq_kind r) c (iq_columns r c) w key' who why cid ch" by (fact ch)
    show "change_log t = change_log s @ ch # cs" using c(1,2) em' by (simp add: u)
    show "\<forall>a \<in> set cs. is_alert a" by (fact c(4))
    show "mset (map alert_key cs) = mset (map alert_of (filter (\<lambda>x. other_id x \<in> affected i (edges s)) (edges s)))"
      using c(5) unfolding i by (simp add: u)
  qed
qed

section \<open>The steps of the pipeline\<close>

lemma unless_replayed_fresh [simp]: "unused_key s \<Longrightarrow> unless_replayed i c who f s = f s"
  by (auto simp: unless_replayed_def replay_field_change_def peek_client_change_id_def unused_key_def
      find_change_None [symmetric] split: option.splits)

lemma unless_replayed_cases:
  assumes "unless_replayed i c who f s = Inr (t, r)"
  obtains (replayed) key ch where "r = Some key" "t = s\<lparr>client_change_id := None\<rparr>" "client_change_id s = Some key"
      "find_change key s = Some ch" "actor ch = who" "subject_id ch = i" "change_kind ch = FieldEdited c"
  | (fresh) "unused_key s" "f s = Inr (t, r)"
proof -
  obtain s1 r1 where r1: "replay_field_change i (FieldEdited c) who s = Inr (s1, r1)"
    using assms by (auto simp: unless_replayed_def res_simps)
  from r1 show ?thesis
  proof (cases rule: replay_cases)
    case fresh
    then have "unused_key s" by (auto simp: unused_key_def)
    with assms show ?thesis by (intro that(2)) simp_all
  next
    case (replay key ch)
    with assms r1 show ?thesis by (intro that(1) [of key ch]) (simp_all add: unless_replayed_def)
  qed
qed

definition stored :: "column \<Rightarrow> cval option \<Rightarrow> cval option" where
  "stored c v = (if collapsible c then empty_optional_to_none v else v)"

lemma update_field_Inr:
  "update_field i c v s = Inr u \<longleftrightarrow> \<not> immutable (COLUMN_SPECS c)
     \<and> update_inquiry_row i (\<lambda>r. edited_row c (stored c v) (clock s) r) (s\<lparr>clock := Suc (clock s)\<rparr>) = Inr u"
  by (simp add: update_field_def edited_row_def stored_def)

lemma stored_canonical [simp]: "stored c (canonical_value c v) = canonical_value c v"
  by (simp add: stored_def)

lemma check_conflict_Inr [res_simps]: "check_conflict r = Inr u \<longleftrightarrow> r = Inr u"
  by (auto simp: check_conflict_def)

lemma read_field_Inr [res_simps]:
  "read_field i c k s = Inr x \<longleftrightarrow>
     (\<exists>r :: inquiry. inquiries s i = Some r \<and> (k = None \<or> k = Some (iq_kind r)) \<and> x = (iq_columns r c, iq_kind r))"
  by (auto simp: read_field_def split: option.splits)

text \<open>The tail of every writing edit: update, then emission.\<close>

lemma update_emit_effect:
  assumes "store_ok s" "rows_ok s" "unused_key s" "inquiries s i = Some r"
    and "update_field i c w s = Inr u" "stored c w = w"
    and "emit_field_change i (iq_kind r) c (iq_columns r c) w key who why ex u = Inr (t, cid, subs)"
  shows "wrote_field i c w key who why cid s t" "store_ok t" "rows_ok t" "client_change_id t = None"
    "cid \<in> change_ids t" "mirrored s t" "client_change_id s = None \<or> client_change_id s = Some cid"
proof -
  have up: "update_inquiry_row i (\<lambda>r. edited_row c w (clock s) r) (s\<lparr>clock := Suc (clock s)\<rparr>) = Inr u"
    using assms(5) by (simp add: update_field_Inr assms(6))
  note e = write_effect [where m = "\<lambda>r. clock s", OF assms(1-4) _ up assms(7)]
  show "wrote_field i c w key who why cid s t" "store_ok t" "rows_ok t" "client_change_id t = None"
    "cid \<in> change_ids t" "mirrored s t" "client_change_id s = None \<or> client_change_id s = Some cid"
    by (rule e, simp)+
qed

lemma set_field_cases:
  assumes f: "set_field_on_conn pol i v c key who why s = Inr (t, res)" and ok: "store_ok s" "rows_ok s"
  obtains (replayed) k ch where "res = Some k" "t = s\<lparr>client_change_id := None\<rparr>" "client_change_id s = Some k"
      "find_change k s = Some ch" "actor ch = who" "subject_id ch = i" "change_kind ch = FieldEdited c"
  | (same) r where "res = None" "t = s" "inquiries s i = Some r" "unused_key s"
      "py_eq (iq_columns r c) (canonical_value c v)"
  | (written) r cid where "res = Some cid" "inquiries s i = Some r" "unused_key s"
      "\<not> py_eq (iq_columns r c) (canonical_value c v)"
      "wrote_field i c (canonical_value c v) key who why cid s t" "store_ok t" "rows_ok t"
      "client_change_id t = None" "cid \<in> change_ids t" "mirrored s t"
      "client_change_id s = None \<or> client_change_id s = Some cid"
proof -
  from f show ?thesis
    unfolding set_field_on_conn_def Let_def
  proof (cases rule: unless_replayed_cases)
    case (replayed k ch)
    then show ?thesis by (intro that(1))
  next
    case fresh
    then obtain r where r: "inquiries s i = Some r"
      and w: "(if py_eq (iq_columns r c) (canonical_value c v) then Inr (s, None)
        else write_field pol i (iq_kind r) c (iq_columns r c) (canonical_value c v) key who why s) = Inr (t, res)"
      by (auto simp: res_simps)
    show ?thesis
    proof (cases "py_eq (iq_columns r c) (canonical_value c v)")
      case True
      with w r fresh show ?thesis by (intro that(2)) simp_all
    next
      case False
      with w obtain u subs cid where u: "update_field i c (canonical_value c v) s = Inr u" "res = Some cid"
        "emit_field_change i (iq_kind r) c (iq_columns r c) (canonical_value c v) key who why
           (extra_subscribers c (iq_columns r c)) u = Inr (t, cid, subs)"
        by (auto simp: write_field_def res_simps)
      note e = update_emit_effect [OF ok fresh(1) r u(1) stored_canonical u(3)]
      show ?thesis by (rule that(3) [OF u(2) r fresh(1) False e])
    qed
  qed
qed

text \<open>The title, the list entries, the transitions and the claim.\<close>

lemma set_title_cases:
  assumes f: "set_title_on_conn i v key who why s = Inr (t, res)" and ok: "store_ok s" "rows_ok s"
  obtains (replayed) k ch where "res = Some k" "t = s\<lparr>client_change_id := None\<rparr>" "client_change_id s = Some k"
      "find_change k s = Some ch" "actor ch = who" "subject_id ch = i" "change_kind ch = FieldEdited Title"
  | (same) r where "res = None" "t = s" "inquiries s i = Some r" "unused_key s" "iq_columns r Title = Some (VStr v)"
  | (written) r cid where "res = Some cid" "inquiries s i = Some r" "unused_key s"
      "iq_columns r Title \<noteq> Some (VStr v)" "wrote_field i Title (Some (VStr v)) key who why cid s t"
      "store_ok t" "rows_ok t" "client_change_id t = None" "cid \<in> change_ids t" "mirrored s t"
      "client_change_id s = None \<or> client_change_id s = Some cid"
proof -
  have st: "stored Title (Some (VStr v)) = Some (VStr v)" by (simp add: stored_def collapsible_def ColumnSpec_def)
  from f show ?thesis
    unfolding set_title_on_conn_def
  proof (cases rule: unless_replayed_cases)
    case (replayed k ch)
    then show ?thesis by (intro that(1))
  next
    case fresh
    then obtain r where r: "inquiries s i = Some r"
      and w: "(if iq_columns r Title = Some (VStr v) then Inr (s, None)
        else bind_res (update_field i Title (Some (VStr v)) s) (\<lambda>t.
             bind_res (emit_field_change i (iq_kind r) Title (iq_columns r Title) (Some (VStr v)) key who why [] t)
               (\<lambda>(u, cid, subs). Inr (u, Some cid)))) = Inr (t, res)"
      by (auto simp: res_simps)
    show ?thesis
    proof (cases "iq_columns r Title = Some (VStr v)")
      case True
      with w r fresh show ?thesis by (intro that(2)) simp_all
    next
      case False
      with w obtain u subs cid where u: "update_field i Title (Some (VStr v)) s = Inr u" "res = Some cid"
        "emit_field_change i (iq_kind r) Title (iq_columns r Title) (Some (VStr v)) key who why [] u = Inr (t, cid, subs)"
        by (auto simp: res_simps)
      note e = update_emit_effect [OF ok fresh(1) r u(1) st u(3)]
      show ?thesis by (rule that(3) [OF u(2) r fresh(1) False e])
    qed
  qed
qed

definition shape_ok :: "'a list_shape \<Rightarrow> bool" where
  "shape_ok sh \<longleftrightarrow> (\<forall>xs. items sh (Some (wrap sh xs)) = xs)
     \<and> (\<forall>xs. xs \<noteq> [] \<longrightarrow> empty_optional_to_none (Some (wrap sh xs)) = Some (wrap sh xs))
     \<and> empty_optional_to_none (Some (wrap sh [])) = None"

lemma shapes_ok [simp]: "shape_ok strs_shape" "shape_ok ids_shape"
  by (auto simp: shape_ok_def strs_shape_def ids_shape_def empty_list_to_none_def)

text \<open>The value a list column gets: NULL for an empty list, where the column allows NULL.\<close>

definition listed :: "'a list_shape \<Rightarrow> column \<Rightarrow> 'a list \<Rightarrow> cval option" where
  "listed sh c xs = (if xs = [] \<and> min_items (COLUMN_SPECS c) = 0 then None else Some (wrap sh xs))"

lemma stored_listed: "shape_ok sh \<Longrightarrow> stored c (listed sh c xs) = listed sh c xs"
  by (auto simp: stored_def listed_def shape_ok_def collapsible_def)

lemma listed_new:
  assumes "shape_ok sh" "(if include then with_item else without_item) b x ws = Some xs"
  shows "(if include \<or> 0 < min_items (COLUMN_SPECS c) then Some (wrap sh xs)
           else empty_optional_to_none (Some (wrap sh xs))) = listed sh c xs"
  using assms by (auto simp: listed_def shape_ok_def with_item_def split: if_splits)

lemma mutate_list_cases:
  assumes f: "mutate_list_field_on_conn sh i item c key who why inc check s = Inr (t, res)"
    and ok: "store_ok s" "rows_ok s" and sh: "shape_ok sh"
  obtains (replayed) k ch where "res = Some k" "t = s\<lparr>client_change_id := None\<rparr>" "client_change_id s = Some k"
      "find_change k s = Some ch" "actor ch = who" "subject_id ch = i" "change_kind ch = FieldEdited c"
  | (same) r x where "res = None" "t = s" "inquiries s i = Some r" "unused_key s" "norm_items sh c [item] = [x]"
      "(if inc then with_item else without_item) (is_byline (COLUMN_SPECS c)) x
         (norm_items sh c (items sh (iq_columns r c))) = None"
  | (written) r x xs cid where "res = Some cid" "inquiries s i = Some r" "unused_key s"
      "norm_items sh c [item] = [x]"
      "(if inc then with_item else without_item) (is_byline (COLUMN_SPECS c)) x
         (norm_items sh c (items sh (iq_columns r c))) = Some xs"
      "wrote_field i c (listed sh c xs) key who why cid s t" "store_ok t" "rows_ok t" "client_change_id t = None"
      "cid \<in> change_ids t" "mirrored s t" "client_change_id s = None \<or> client_change_id s = Some cid"
proof -
  from f show ?thesis
    unfolding mutate_list_field_on_conn_def Let_def
  proof (cases rule: unless_replayed_cases)
    case (replayed k ch)
    then show ?thesis by (intro that(1))
  next
    case fresh
    let ?act = "if inc then with_item else without_item" and ?b = "is_byline (COLUMN_SPECS c)"
    obtain r where r: "inquiries s i = Some r"
      and y: "(case norm_items sh c [item] of [x] \<Rightarrow>
           (case ?act ?b x (norm_items sh c (items sh (iq_columns r c))) of None \<Rightarrow> Inr (s, None)
            | Some xs \<Rightarrow> write_items sh i (iq_kind r) c (iq_columns r c)
                (norm_items sh c (items sh (iq_columns r c))) xs inc key who why check s)
         | _ \<Rightarrow> Inl ConflictError) = Inr (t, res)"
      using fresh by (auto simp: bind_res_Inr_iff read_field_Inr simp del: norm_items_def)
    obtain x where x: "norm_items sh c [item] = [x]"
    proof (cases "norm_items sh c [item]")
      case (Cons x l)
      with y that show ?thesis by (cases l) simp_all
    qed (use y in simp)
    note w = y [unfolded x list.case]
    show ?thesis
    proof (cases "(if inc then with_item else without_item) (is_byline (COLUMN_SPECS c)) x
             (norm_items sh c (items sh (iq_columns r c)))")
      case None
      with w r x fresh show ?thesis by (intro that(2)) simp_all
    next
      case (Some xs)
      note n = listed_new [OF sh Some, of c]
      obtain u subs cid where u: "update_field i c (listed sh c xs) s = Inr u" "res = Some cid"
        "emit_field_change i (iq_kind r) c (iq_columns r c) (listed sh c xs) key who why
           (extra_subscribers c (Some (wrap sh (norm_items sh c (items sh (iq_columns r c)))))) u = Inr (t, cid, subs)"
        using w by (auto simp: Some write_items_def n Let_def res_simps)
      note e = update_emit_effect [OF ok fresh(1) r u(1) stored_listed [OF sh] u(3)]
      show ?thesis by (rule that(3) [OF u(2) r fresh(1) x Some e])
    qed
  qed
qed

text \<open>An emission passes the mirror's CHECKs, or it fails.\<close>

lemma emit_field_checks:
  assumes e: "emit_field_change i k c v w key who why ex u = Inr (t, cid, subs)"
    and ok: "store_ok u" and key: "unused_key u"
  shows "mirror_check (FieldEdited c) k (field_snapshot c v) (field_snapshot c w)"
proof -
  let ?e = "(emit_args i k (FieldEdited c))\<lparr>em_api_key_id := key, em_actor := who, em_reason := why,
       em_old := field_snapshot c v, em_new := field_snapshot c w, em_extra_subscribers := ex\<rparr>"
  obtain x rep where o: "emit_once ?e u = Inr (x, cid, subs, rep)"
    using e by (auto simp: emit_field_change_def emit_change_def res_simps split: if_splits)
  have rep: "\<not> rep" by (rule emit_once_fresh [OF o key])
  have "emitted u x" by (rule emit_once_emitted [OF o])
  then have "log_ok x" using emitted_store_ok ok store_okD(3) by blast
  moreover obtain ch where ch: "change_log x = change_log u @ [ch]" "change_of cid ?e subs ch"
    using o rep by (cases rule: emit_once_cases) auto
  ultimately have "change_row_check ch" by (simp add: log_ok_def)
  then show ?thesis
    using ch(2) by (simp add: change_row_check_def change_of_def emit_args_def field_snapshot_def)
qed

lemma unused_key_place:
  "place_inquiry_row i r (s\<lparr>clock := n\<rparr>) = Inr t \<Longrightarrow> unused_key t = unused_key s"
  by (auto simp: place_inquiry_row_Inr unused_key_def change_ids_def split: option.splits)

lemma transition_cases:
  assumes f: "transition_field i c kinds eq guard expected target key who why s = Inr (t, res)"
    and ok: "store_ok s" "rows_ok s" and g: "\<And>r u. guard r = Inr u \<Longrightarrow> r = Inr u"
    and st: "stored c target = target \<or> (\<forall>v. target = Some v \<longrightarrow> \<not> column_check c v)"
  obtains (replayed) k ch where "res = Some k" "t = s\<lparr>client_change_id := None\<rparr>" "client_change_id s = Some k"
      "find_change k s = Some ch" "actor ch = who" "subject_id ch = i" "change_kind ch = FieldEdited c"
  | (same) r where "res = None" "t = s" "inquiries s i = Some r" "unused_key s"
      "eq (iq_columns r c) expected" "eq (iq_columns r c) target"
  | (written) r cid where "res = Some cid" "inquiries s i = Some r" "unused_key s"
      "eq (iq_columns r c) expected" "\<not> eq (iq_columns r c) target"
      "wrote_field i c target key who why cid s t" "store_ok t" "rows_ok t" "client_change_id t = None"
      "cid \<in> change_ids t" "mirrored s t" "client_change_id s = None \<or> client_change_id s = Some cid"
proof -
  from f show ?thesis
    unfolding transition_field_def
  proof (cases rule: unless_replayed_cases)
    case (replayed k ch)
    then show ?thesis by (intro that(1))
  next
    case fresh
    then obtain r where r: "inquiries s i = Some r"
      and w: "(if \<not> eq (iq_columns r c) expected then Inl ConflictError
           else if eq (iq_columns r c) target then Inr (s, None)
           else bind_res (guard (update_field i c target s)) (\<lambda>t.
             bind_res (emit_field_change i (iq_kind r) c (iq_columns r c) target key who why [] t)
               (\<lambda>(u, cid, subs). Inr (u, Some cid)))) = Inr (t, res)"
      by (auto simp: bind_res_Inr_iff read_field_Inr)
    have ex: "eq (iq_columns r c) expected" using w by (simp split: if_splits)
    show ?thesis
    proof (cases "eq (iq_columns r c) target")
      case True
      with w ex r fresh show ?thesis by (intro that(2)) simp_all
    next
      case False
      with w ex obtain u subs cid where u: "update_field i c target s = Inr u" "res = Some cid"
        "emit_field_change i (iq_kind r) c (iq_columns r c) target key who why [] u = Inr (t, cid, subs)"
        by (auto simp: bind_res_Inr_iff dest: g)
      have st': "stored c target = target"
      proof (rule disjE [OF st])
        assume bad: "\<forall>v. target = Some v \<longrightarrow> \<not> column_check c v"
        let ?r = "edited_row c (stored c target) (clock s) r"
        have p: "place_inquiry_row i ?r (s\<lparr>clock := Suc (clock s)\<rparr>) = Inr u"
          using u(1) r by (simp add: update_field_Inr update_inquiry_row_def)
        have "store_ok u" by (rule store_ok_place [OF p _ ok(1) r]) simp_all
        moreover have "unused_key u" using unused_key_place [OF p] fresh(1) by simp
        ultimately have "mirror_check (FieldEdited c) (iq_kind r) (field_snapshot c (iq_columns r c)) (field_snapshot c target)"
          using emit_field_checks [OF u(3)] by blast
        then have "target = None" using bad by (cases target) (auto simp: mirror_check_edit)
        then show ?thesis by (simp add: stored_def)
      qed
      note e = update_emit_effect [OF ok fresh(1) r u(1) st' u(3)]
      show ?thesis by (rule that(3) [OF u(2) r fresh(1) ex False e])
    qed
  qed
qed

text \<open>The four transitions meet \<open>transition_cases\<close>' side conditions.\<close>

lemma stored_transitions:
  "stored Owner (empty_optional_to_none v) = empty_optional_to_none v"
  "stored Status v = v"
  "stored App (map_option VJson j) = map_option VJson j"
  "stored BeliefJudgement (map_option VStr x) = map_option VStr x
     \<or> (\<forall>v. map_option VStr x = Some v \<longrightarrow> \<not> column_check BeliefJudgement v)"
proof -
  show "stored Owner (empty_optional_to_none v) = empty_optional_to_none v" by (simp add: stored_def)
  show "stored Status v = v" by (simp add: stored_def collapsible_def ColumnSpec_def)
  show "stored App (map_option VJson j) = map_option VJson j" by (cases j) (simp_all add: stored_def)
  show "stored BeliefJudgement (map_option VStr x) = map_option VStr x
     \<or> (\<forall>v. map_option VStr x = Some v \<longrightarrow> \<not> column_check BeliefJudgement v)"
  proof (cases x)
    case (Some y)
    have "list_all (\<lambda>z. strip z \<noteq> []) JUDGEMENTS" by code_simp
    then have "strip z \<noteq> []" if "z \<in> set JUDGEMENTS" for z using that by (simp add: list_all_iff)
    then show ?thesis
      by (cases "strip y = []") (auto simp: Some stored_def empty_str_to_none_def column_check_def)
  qed (simp add: stored_def)
qed

section \<open>The claim\<close>

lemma first_of_props:
  assumes "first_of s ids = Some i"
  shows "i \<in> set ids" "j \<in> set ids \<Longrightarrow> \<not> comes_before s j i"
proof -
  let ?f = "\<lambda>best j. if comes_before s j best then j else best"
  have tr: "comes_before s a c" if "comes_before s a b" "comes_before s b c" for a b c
    using that by (auto simp: comes_before_def split: option.splits)
  have asym: "\<not> comes_before s b a" if "comes_before s a b" for a b
    using that by (auto simp: comes_before_def split: option.splits)
  have nt: "\<not> comes_before s a c" if "\<not> comes_before s a b" "\<not> comes_before s b c" for a b c
    using that by (auto simp: comes_before_def split: option.splits)
  have *: "foldl ?f x xs \<in> insert x (set xs) \<and> (\<forall>j \<in> insert x (set xs). \<not> comes_before s j (foldl ?f x xs))" for x xs
  proof (induction xs arbitrary: x)
    case Nil
    then show ?case using asym by auto
  next
    case (Cons y ys)
    show ?case
    proof (cases "comes_before s y x")
      case True
      then have "\<not> comes_before s x y" using asym by blast
      with Cons [of y] nt [of x y "foldl ?f y ys"] True show ?thesis by auto
    next
      case False
      with Cons [of x] nt [of y x "foldl ?f x ys"] show ?thesis by auto
    qed
  qed
  show "i \<in> set ids" "j \<in> set ids \<Longrightarrow> \<not> comes_before s j i"
    using assms * by (cases ids; fastforce simp: first_of_def)+
qed

lemma first_of_None: "first_of s ids = None \<longleftrightarrow> ids = []"
  by (simp add: first_of_def split: list.splits)

lemma claimable_props:
  assumes "claimable_issue reads held s = Some i"
  shows "eligible s i" "reads i" "\<not> held i" "i \<in> set (iq_ids s)"
    "eligible s j \<Longrightarrow> reads j \<Longrightarrow> \<not> held j \<Longrightarrow> j \<in> set (iq_ids s) \<Longrightarrow> \<not> comes_before s j i"
  using first_of_props [OF assms [unfolded claimable_issue_def]] by auto

lemma eligible_row:
  assumes "eligible s i"
  obtains r :: inquiry where "inquiries s i = Some r" "iq_kind r = Issue" "iq_columns r Owner = None"
    "iq_columns r Status = Some (VStr ''active'')" "\<not> iq_locked r"
  using assms by (auto simp: eligible_def split: option.splits)

lemma replay_claim_cases:
  assumes "replay_claim reads owner who s = Inr (t, res)"
  obtains (fresh) "t = s" "res = None" "unused_key s"
  | (replayed) k ch i r where "res = Some i" "t = s\<lparr>client_change_id := None\<rparr>" "client_change_id s = Some k"
      "find_change k s = Some ch" "change_kind ch = FieldEdited Owner" "subject_id ch = i" "actor ch = who"
      "edited (new ch) = Some (Owner, VStr owner)" "inquiries s i = Some r" "reads i"
      "iq_columns r Status = Some (VStr ''active'')" "iq_columns r Owner = Some (VStr owner)"
proof (cases "client_change_id s")
  case None
  with assms show ?thesis by (intro fresh) (simp_all add: replay_claim_def peek_client_change_id_def unused_key_def)
next
  case (Some k)
  show ?thesis
  proof (cases "find_change k s")
    case None
    with assms Some show ?thesis
      by (intro fresh) (simp_all add: replay_claim_def peek_client_change_id_def unused_key_def find_change_None)
  next
    case ch: (Some ch)
    obtain r where r: "inquiries s (subject_id ch) = Some r"
      using assms Some ch
      by (cases "inquiries s (subject_id ch)")
        (auto simp: replay_claim_def peek_client_change_id_def consume_client_change_id_def split: if_splits)
    with assms Some ch show ?thesis
      by (intro replayed [where k = k and ch = ch and i = "subject_id ch" and r = r])
        (auto simp: replay_claim_def peek_client_change_id_def consume_client_change_id_def
          split: if_splits option.splits)
  qed
qed

lemma claim_cases:
  assumes f: "claim_next_issue_on_conn reads held owner key who why s = Inr (t, res)" and ok: "store_ok s" "rows_ok s"
    and owner: "strip owner \<noteq> []"
  obtains (replayed) k i r where "res = Some i" "t = s\<lparr>client_change_id := None\<rparr>" "client_change_id s = Some k"
      "k \<in> change_ids s" "inquiries s i = Some r" "iq_columns r Status = Some (VStr ''active'')"
      "iq_columns r Owner = Some (VStr owner)"
  | (none) "res = None" "t = s" "unused_key s" "claimable_issue reads held s = None"
  | (claimed) i cid where "res = Some i" "unused_key s" "claimable_issue reads held s = Some i"
      "wrote_field i Owner (Some (VStr owner)) key who why cid s t" "store_ok t" "rows_ok t"
      "client_change_id t = None" "cid \<in> change_ids t" "mirrored s t"
      "client_change_id s = None \<or> client_change_id s = Some cid"
proof -
  obtain s1 r1 where r1: "replay_claim reads owner who s = Inr (s1, r1)"
    using f by (auto simp: claim_next_issue_on_conn_def bind_res_Inr_iff)
  from r1 show ?thesis
  proof (cases rule: replay_claim_cases)
    case (replayed k ch i r)
    with f r1 show ?thesis
      by (intro that(1) [of i k r]) (auto simp: claim_next_issue_on_conn_def dest: find_change_ids)
  next
    case fresh
    show ?thesis
    proof (cases "claimable_issue reads held s")
      case None
      with f r1 fresh show ?thesis by (intro that(2)) (simp_all add: claim_next_issue_on_conn_def)
    next
      case (Some i)
      obtain r where r: "inquiries s i = Some r" "iq_kind r = Issue" "iq_columns r Owner = None"
        using eligible_row [OF claimable_props(1) [OF Some]] by blast
      let ?g = "\<lambda>r. r\<lparr>iq_columns := (iq_columns r)(Owner \<mapsto> VStr owner)\<rparr> :: inquiry"
      have g: "?g = (\<lambda>r. edited_row Owner (Some (VStr owner)) (iq_modified r) r)" by (simp add: edited_row_def)
      obtain u cid subs where u: "update_inquiry_row i ?g s = Inr u" "res = Some i"
        "emit_field_change i Issue Owner None (Some (VStr owner)) key who why [] u = Inr (t, cid, subs)"
        using f r1 fresh Some by (auto simp: claim_next_issue_on_conn_def bind_res_Inr_iff)
      have up: "update_inquiry_row i (\<lambda>r. edited_row Owner (Some (VStr owner)) (iq_modified r) r) (s\<lparr>clock := clock s\<rparr>) = Inr u"
        using u(1) unfolding g by simp
      have em: "emit_field_change i (iq_kind r) Owner (iq_columns r Owner) (Some (VStr owner)) key who why [] u = Inr (t, cid, subs)"
        using u(3) r by simp
      note e = write_effect [OF ok fresh(3) r(1) order_refl up em]
      show ?thesis by (rule that(3) [OF u(2) fresh(3) Some e])
    qed
  qed
qed

end
