(* ===== verification/Audit_Trail.thy ===== *)
theory Audit_Trail
  imports Edit_Lemmas
begin

text \<open>
  The change log as the record of every column. The operations of the graph store write no
  field edit: a relation that any other emission respects holds across each of them, which
  the locale \<open>log_relation\<close> proves once. Replaying the field edits of a stretch of the log
  then gives, from the columns a row had before it, the columns the row has after it.
\<close>

section \<open>What the graph store emits\<close>

locale log_relation =
  fixes R :: "store \<Rightarrow> store \<Rightarrow> bool"
  assumes R_trans: "R s t \<Longrightarrow> R t u \<Longrightarrow> R s u"
    and same_log: "change_log t = change_log s \<Longrightarrow> R s t"
    and emits: "emit_once e s = Inr (t, cid, subs, replayed) \<Longrightarrow> (\<And>c. em_kind e \<noteq> FieldEdited c) \<Longrightarrow> R s t"
begin

lemma emit_quiet: "emit_quiet e s = Inr (t, cid, subs) \<Longrightarrow> (\<And>c. em_kind e \<noteq> FieldEdited c) \<Longrightarrow> R s t"
  by (auto simp: emit_quiet_once intro: emits)

lemma alert_parents: "alert_parents cur ck cause ps s walked queue = Inr (t, w, q) \<Longrightarrow> R s t"
proof (induction ps arbitrary: s walked queue)
  case Nil
  then show ?case by (simp add: same_log)
next
  case (Cons p ps)
  obtain i k e where p: "p = (i, k, e)" by (cases p) auto
  obtain u cid subs where u: "emit_quiet ((emit_args i k DependencyChanged)\<lparr>em_actor := ''librarian'',
          em_caused_by := Some cause, em_new := peer_snapshot e cur ck\<rparr>) s = Inr (u, cid, subs)"
    and rest: "(if i \<in> walked then alert_parents cur ck cause ps u walked queue
      else alert_parents cur ck cause ps u (insert i walked) (queue @ [(i, k, cid, None)])) = Inr (t, w, q)"
    using Cons.prems by (auto simp: p bind_res_Inr_iff)
  have "R s u" by (rule emit_quiet [OF u]) (simp add: emit_args_def)
  moreover have "R u t" using rest Cons.IH by (auto split: if_splits)
  ultimately show ?case by (rule R_trans)
qed

lemma cascade_loop: "cascade_loop s walked q = Inr t \<Longrightarrow> R s t"
proof (induction s walked q rule: cascade_loop.induct)
  case (1 s walked)
  then show ?case by (simp add: cascade_loop_simps same_log)
next
  case (2 s walked cur ck cause rows queue)
  then show ?case by (auto simp: cascade_loop_simps bind_res_Inr_iff intro: R_trans alert_parents)
qed

lemma cascade: "cascade_dependency_changed i k cause rows s = Inr t \<Longrightarrow> R s t"
  unfolding cascade_dependency_changed_def by (rule cascade_loop)

lemma emit_change:
  assumes "emit_change e c s = Inr (t, cid, subs)" "\<And>c. em_kind e \<noteq> FieldEdited c"
  shows "R s t"
proof -
  obtain u cid' subs' r where u: "emit_once e s = Inr (u, cid', subs', r)"
    and t: "t = u \<or> (\<exists>i k x. cascade_dependency_changed i k x None u = Inr t)"
    using assms(1) by (fastforce simp: emit_change_def bind_res_Inr_iff split: if_splits)
  have "R s u" by (rule emits [OF u assms(2)])
  with t show ?thesis using R_trans cascade by blast
qed

lemma purge_edges: "purge_edges target tk cause key who es s = Inr t \<Longrightarrow> R s t"
proof (induction es arbitrary: s)
  case (Cons e es)
  then obtain u cid subs where u: "emit_purge_edge_removed target tk e cause key who s = Inr (u, cid, subs)"
    "purge_edges target tk cause key who es u = Inr t" by (auto simp: bind_res_Inr_iff)
  have "R s u" using u(1) unfolding emit_purge_edge_removed_def Let_def split_beta
    by (rule emit_change) (simp add: emit_args_def)
  from R_trans [OF this Cons.IH [OF u(2)]] show ?case .
qed (simp add: same_log)

lemma emit_paired:
  assumes "emit_paired ck a b k o' n caused c why key who s = Inr (t, cause)" "\<And>c. ck \<noteq> FieldEdited c"
  shows "R s t"
  using assms by (auto simp: emit_paired_def bind_res_Inr_iff emit_args_def intro!: R_trans [OF emit_change emit_change])

lemma annotate:
  assumes "set_edge_annotation_on_conn f t k p n v ls delta why req key who s = Inr (s', cid)"
  shows "R s s'"
  using assms
proof (cases rule: set_edge_annotation_cases)
  case (changed row p' n' v' l' s1 cause)
  have "R s s1" using changed(9) by (intro same_log) (auto simp: update_edge_row_def split: if_splits)
  moreover have "R s1 s'" by (rule emit_paired [OF changed(10)]) simp
  ultimately show ?thesis by (rule R_trans)
qed (simp add: same_log)

lemma insert_edge: "insert_edge f fk t k p n v ls s = Inr (s1, ins, tk) \<Longrightarrow> R s s1"
  by (intro same_log) (auto elim!: insert_edge_Inr simp: insert_edge_row_def split: if_splits)

lemma add_edge_infer:
  shows "add_edge_on_conn f t k p n v ls why caused c key who s = Inr (s', cid, created) \<Longrightarrow> R s s'"
    and "infer_produced_on_conn f t k caused key who s = Inr s' \<Longrightarrow> R s s'"
proof -
  have base: "R s s'"
    if a: "add_edge_on_conn f t k p n v ls why caused c key who s = Inr (s', cid, created)"
      and infer: "\<And>caused u. infer_produced_on_conn f t k caused key who u = Inr s' \<Longrightarrow> R u s'"
    for f t k p n v ls why caused c key who s s' cid created
    using a
  proof (cases rule: add_edge_cases)
    case (upsert fk tk)
    then show ?thesis by (blast intro: annotate)
  next
    case (created fk tk s1 s2 cause)
    have "R s s1" by (rule insert_edge [OF created(4)])
    moreover have "R s1 s2" by (rule emit_paired [OF created(5)]) simp
    ultimately show ?thesis using infer [OF created(6)] by (blast intro: R_trans)
  qed
  have infer: "R s s'" if i: "infer_produced_on_conn f t k caused key who s = Inr s'"
    for f t k caused key who s s'
    using i
  proof (cases rule: infer_produced_cases)
    case none
    then show ?thesis by (simp add: same_log)
  next
    case (stamped producer produced w cid created)
    show ?thesis by (rule base [OF stamped(3)]) (auto simp: infer_produced_on_conn.simps intro: same_log)
  qed
  show "add_edge_on_conn f t k p n v ls why caused c key who s = Inr (s', cid, created) \<Longrightarrow> R s s'"
    by (rule base) (auto intro: infer)
  show "infer_produced_on_conn f t k caused key who s = Inr s' \<Longrightarrow> R s s'" by (rule infer)
qed

lemma remove_edge:
  assumes "remove_edge_on_conn f t k why key who s = Inr (s', cid)"
  shows "R s s'"
proof (cases "find_edge f t k s")
  case None
  with assms show ?thesis by (simp add: remove_edge_on_conn_def same_log)
next
  case (Some row)
  have d: "R s (delete_edge_row f t k s)" by (rule same_log) (simp add: delete_edge_row_def)
  show ?thesis
    using assms Some
    by (auto simp: remove_edge_on_conn_def Let_def bind_res_Inr_iff emit_args_def
        intro!: R_trans [OF d] R_trans [OF emit_change R_trans [OF cascade emit_change]])
qed

lemma purge_on_conn:
  assumes "purge_on_conn target key who why s = Inr (s', cid)"
  shows "R s s'"
proof -
  obtain k t1 subs u v where t1:
      "emit_change ((emit_args target k Purged)\<lparr>em_api_key_id := key, em_actor := who, em_reason := why\<rparr>) False s
        = Inr (t1, cid, subs)"
      "cascade_dependency_changed target k cid (Some (edges_touching target s)) t1 = Inr u"
      "purge_edges target k cid key who (edges_touching target s) u = Inr v"
      "s' = delete_inquiry_row target v"
    using assms by (auto simp: purge_on_conn_def purge_held_def Let_def bind_res_Inr_iff split: option.splits if_splits)
  have "R s t1" by (rule emit_change [OF t1(1)]) (simp add: emit_args_def)
  moreover have "R v s'" by (rule same_log) (simp add: t1(4) delete_inquiry_row_def)
  ultimately show ?thesis using cascade [OF t1(2)] purge_edges [OF t1(3)] by (blast intro: R_trans)
qed

lemma replay: "replay_field_change i k who s = Inr (t, r) \<Longrightarrow> R s t"
  by (erule replay_cases) (simp_all add: same_log)

lemma emit_cost: "emit_cost i k d key who why s = Inr (t, cid) \<Longrightarrow> R s t"
  by (auto simp: emit_cost_def bind_res_Inr_iff emit_args_def COST_KIND_def intro!: emit_change)

lemma add_cost: "add_cost_on_conn i d key who why s = Inr (t, cid) \<Longrightarrow> R s t"
  by (erule add_cost_cases) (auto intro: replay emit_cost same_log)

lemma set_cost: "set_cost_axis_on_conn i ax v key who why s = Inr (t, cid) \<Longrightarrow> R s t"
  by (erule set_cost_cases) (auto intro: replay emit_cost same_log)

end

definition no_field_edit :: "store \<Rightarrow> store \<Rightarrow> bool" where
  "no_field_edit s t \<longleftrightarrow>
     (\<exists>cs. change_log t = change_log s @ cs \<and> (\<forall>ch \<in> set cs. \<forall>c. change_kind ch \<noteq> FieldEdited c))"

interpretation unedited: log_relation no_field_edit
proof
  show "no_field_edit s u" if "no_field_edit s t" "no_field_edit t u" for s t u
    using that unfolding no_field_edit_def by (elim exE conjE) (rule_tac x = "cs @ csa" in exI, auto)
  show "no_field_edit s t" if "change_log t = change_log s" for s t
    using that by (simp add: no_field_edit_def)
  show "no_field_edit s t" if "emit_once e s = Inr (t, cid, subs, replayed)" "\<And>c. em_kind e \<noteq> FieldEdited c"
    for e s t cid subs replayed
    using that(1) by (cases rule: emit_once_cases) (auto simp: no_field_edit_def change_of_def that(2))
qed

end
