(* ===== verification/Store_Machine.thy ===== *)
theory Store_Machine
  imports Audit_Trail
begin

text \<open>
  The whole store as a transition system: the steps of the graph store and the field edits
  (every setter is \<open>set_field\<close> on its column or refuses), the list entries, the transitions
  and the claim. Reachable stores have the invariants of every table, and the log replays
  the columns of every row.
\<close>

section \<open>Replaying the log\<close>

definition side :: "snapshot \<Rightarrow> cval option" where
  "side n = map_option snd (edited n)"

text \<open>The field edits of row \<open>i\<close>, applied in order; each must find the value it says it replaced.\<close>

fun replay_edits :: "uuid \<Rightarrow> change list \<Rightarrow> (column \<Rightarrow> cval option) \<Rightarrow> (column \<Rightarrow> cval option) option" where
  "replay_edits i [] cols = Some cols"
| "replay_edits i (ch # chs) cols =
     (case change_kind ch of
        FieldEdited c \<Rightarrow>
          if subject_id ch \<noteq> i then replay_edits i chs cols
          else if cols c = side (old ch) then replay_edits i chs (cols(c := side (new ch))) else None
      | _ \<Rightarrow> replay_edits i chs cols)"

definition subjects :: "store \<Rightarrow> uuid set" where
  "subjects s = subject_id ` set (change_log s)"

text \<open>\<open>t\<close> comes after \<open>s\<close>, and the log between them is the record of the rows that lived through.\<close>

definition recorded :: "store \<Rightarrow> store \<Rightarrow> bool" where
  "recorded s t \<longleftrightarrow>
     (\<exists>chs. change_log t = change_log s @ chs
       \<and> (\<forall>i r q. inquiries s i = Some r \<longrightarrow> inquiries t i = Some q
            \<longrightarrow> replay_edits i chs (iq_columns r) = Some (iq_columns q)))
   \<and> (\<forall>i. inquiries s i \<noteq> None \<longrightarrow> inquiries t i = None \<longrightarrow> i \<in> subjects t)
   \<and> (\<forall>i. inquiries s i = None \<longrightarrow> i \<in> subjects s \<longrightarrow> inquiries t i = None)"

lemma side_field_snapshot [simp]: "side (field_snapshot c v) = v"
  by (cases v) (simp_all add: side_def field_snapshot_def)

lemma replay_append:
  "replay_edits i (xs @ ys) cols =
     (case replay_edits i xs cols of None \<Rightarrow> None | Some c \<Rightarrow> replay_edits i ys c)"
  by (induction xs arbitrary: cols) (simp_all split: change_kind.splits)

lemma replay_unedited:
  "\<forall>ch \<in> set chs. \<forall>c. change_kind ch \<noteq> FieldEdited c \<Longrightarrow> replay_edits i chs cols = Some cols"
  by (induction chs) (auto split: change_kind.splits)

lemma recorded_trans:
  assumes "recorded s t" "recorded t u"
  shows "recorded s u"
proof -
  obtain xs where x: "change_log t = change_log s @ xs"
    "\<And>i r q. inquiries s i = Some r \<Longrightarrow> inquiries t i = Some q \<Longrightarrow> replay_edits i xs (iq_columns r) = Some (iq_columns q)"
    using assms(1) by (auto simp: recorded_def)
  obtain ys where y: "change_log u = change_log t @ ys"
    "\<And>i r q. inquiries t i = Some r \<Longrightarrow> inquiries u i = Some q \<Longrightarrow> replay_edits i ys (iq_columns r) = Some (iq_columns q)"
    using assms(2) by (auto simp: recorded_def)
  have gone: "inquiries s i \<noteq> None \<Longrightarrow> inquiries t i = None \<Longrightarrow> i \<in> subjects t"
    "inquiries s i = None \<Longrightarrow> i \<in> subjects s \<Longrightarrow> inquiries t i = None"
    "inquiries t i \<noteq> None \<Longrightarrow> inquiries u i = None \<Longrightarrow> i \<in> subjects u"
    "inquiries t i = None \<Longrightarrow> i \<in> subjects t \<Longrightarrow> inquiries u i = None" for i
    using assms unfolding recorded_def by blast+
  have sub: "subjects s \<subseteq> subjects t" "subjects t \<subseteq> subjects u" using x(1) y(1) by (auto simp: subjects_def)
  show ?thesis
    unfolding recorded_def
  proof (intro conjI exI allI impI)
    show "change_log u = change_log s @ (xs @ ys)" using x(1) y(1) by simp
    show "replay_edits i (xs @ ys) (iq_columns r) = Some (iq_columns q)"
      if "inquiries s i = Some r" "inquiries u i = Some q" for i r q
    proof (cases "inquiries t i")
      case None
      then show ?thesis using gone(1,4) [of i] that by simp
    next
      case (Some p)
      then show ?thesis using x(2) [OF that(1) Some] y(2) [OF Some that(2)] by (simp add: replay_append)
    qed
    show "i \<in> subjects u" if "inquiries s i \<noteq> None" "inquiries u i = None" for i
      using that gone(1,3) [of i] sub by (cases "inquiries t i") auto
    show "inquiries u i = None" if "inquiries s i = None" "i \<in> subjects s" for i
      using that gone(2,4) [of i] sub by auto
  qed
qed

lemma recorded_refl [simp]: "recorded s s"
  by (auto simp: recorded_def)

text \<open>Steps that keep the columns and log no field edit, and steps that write one column.\<close>

lemma recorded_kept:
  assumes "no_field_edit s t" "rows_kept s t"
  shows "recorded s t"
proof -
  obtain chs where "change_log t = change_log s @ chs" "\<forall>ch \<in> set chs. \<forall>c. change_kind ch \<noteq> FieldEdited c"
    using assms(1) by (auto simp: no_field_edit_def)
  moreover have "iq_columns q = iq_columns r" if "inquiries s i = Some r" "inquiries t i = Some q" for i r q
    using rows_kept_row [OF assms(2) that(2)] that(1) by (auto simp: iq_static_def)
  moreover have "inquiries t i = None \<longleftrightarrow> inquiries s i = None" for i by (rule rows_kept_present [OF assms(2)])
  ultimately show ?thesis by (auto simp: recorded_def replay_unedited)
qed

lemma column_written_row:
  assumes "column_written i c w s t" "inquiries s i = Some r"
  obtains q where "inquiries t i = Some q" "iq_columns q = (iq_columns r)(c := w)" "iq_kind q = iq_kind r"
    "iq_seq q = iq_seq r" "iq_created q = iq_created r" "iq_locked q = iq_locked r"
proof -
  have "map_option iq_static (inquiries t i) = Some (iq_static (edited_row c w 0 r))"
    using assms by (simp add: column_written_def)
  then obtain q where "inquiries t i = Some q" "iq_static q = iq_static (edited_row c w 0 r)"
    by (cases "inquiries t i") auto
  then show ?thesis by (intro that [of q]) (simp_all add: iq_static_def)
qed

lemma column_written_other:
  assumes "column_written i c w s t" "j \<noteq> i"
  shows "map_option iq_static (inquiries t j) = map_option iq_static (inquiries s j)"
  using assms by (simp add: column_written_def)

lemma column_written_present:
  assumes "column_written i c w s t"
  shows "inquiries t j = None \<longleftrightarrow> inquiries s j = None"
proof -
  have "map_option iq_static (inquiries t j) =
        (if j = i then map_option (\<lambda>r. iq_static (edited_row c w 0 r)) (inquiries s i)
         else map_option iq_static (inquiries s j))"
    using assms by (simp add: column_written_def)
  then show ?thesis by (cases "inquiries s j"; cases "inquiries t j"; cases "j = i") auto
qed

lemma recorded_written:
  assumes "wrote_field i c w key who why cid s t"
  shows "recorded s t"
proof -
  obtain r ch cs where w: "column_written i c w s t" "inquiries s i = Some r"
    "field_change i (iq_kind r) c (iq_columns r c) w key who why cid ch"
    "change_log t = change_log s @ ch # cs" "\<forall>a \<in> set cs. is_alert a"
    by (rule wrote_fieldE [OF assms]) (rule that)
  have cs: "replay_edits j cs cols = Some cols" for j cols
    using w(5) by (intro replay_unedited) (auto simp: is_alert_def)
  have ch: "change_kind ch = FieldEdited c" "subject_id ch = i" "side (old ch) = iq_columns r c" "side (new ch) = w"
    using w(3) by (simp_all add: field_change_def)
  have "replay_edits j (ch # cs) (iq_columns p) = Some (iq_columns q)"
    if "inquiries s j = Some p" "inquiries t j = Some q" for j p q
  proof (cases "j = i")
    case True
    obtain q' where "inquiries t i = Some q'" "iq_columns q' = (iq_columns r)(c := w)"
      using column_written_row [OF w(1,2)] by blast
    with True that w(2) show ?thesis by (simp add: ch cs)
  next
    case False
    then have "map_option iq_static (inquiries t j) = map_option iq_static (inquiries s j)"
      by (rule column_written_other [OF w(1)])
    with that have "iq_columns q = iq_columns p" by (simp add: iq_static_def)
    with False show ?thesis by (simp add: ch cs)
  qed
  then show ?thesis
    using w(4) column_written_present [OF w(1)] by (auto simp: recorded_def)
qed

section \<open>Steps\<close>

inductive store_step :: "store \<Rightarrow> store \<Rightarrow> bool" where
  graph: "graph_step s t \<Longrightarrow> store_step s t"
| field_set: "store_step s (fst (set_field pol i v c key who why s))"
| titled: "store_step s (fst (set_title i v key who why s))"
| strs_mutated: "store_step s (fst (mutate_list_field strs_shape i x c key who why include check s))"
| ids_mutated: "store_step s (fst (mutate_list_field ids_shape i y c key who why include check s))"
| owner_moved: "store_step s (fst (transition_owner i expected to key who why s))"
| status_moved: "store_step s (fst (transition_status i expected' to' key who why s))"
| judgement_moved: "store_step s (fst (transition_judgement i expected to key who why s))"
| app_moved: "store_step s (fst (transition_app i expected'' to'' key who why s))"
| claimed: "store_step s (fst (claim_next_issue reads held owner key who why s))"

definition sound :: "store \<Rightarrow> bool" where
  "sound s \<longleftrightarrow> store_ok s \<and> rows_ok s"

text \<open>What every step gives: the invariants hold, and the log records the step.\<close>

definition follows :: "store \<Rightarrow> store \<Rightarrow> bool" where
  "follows s t \<longleftrightarrow> sound t \<and> recorded s t"

lemma sound_state [simp]:
  "sound (s\<lparr>buffer := b\<rparr>) = sound s"
  "sound (s\<lparr>published := b\<rparr>) = sound s"
  "sound (s\<lparr>client_change_id := k\<rparr>) = sound s"
  by (simp_all add: sound_def)

lemma recorded_state [simp]:
  "recorded (s\<lparr>buffer := b\<rparr>) t = recorded s t"
  "recorded s (t\<lparr>buffer := b\<rparr>) = recorded s t"
  "recorded s (t\<lparr>published := b\<rparr>) = recorded s t"
  "recorded s (t\<lparr>client_change_id := k\<rparr>) = recorded s t"
  by (simp_all add: recorded_def subjects_def)

lemma follows_refl: "sound s \<Longrightarrow> follows s s"
  by (simp add: follows_def)

lemma follows_written:
  "wrote_field i c w key who why cid s t \<Longrightarrow> store_ok t \<Longrightarrow> rows_ok t \<Longrightarrow> follows s t"
  by (simp add: follows_def sound_def recorded_written)

lemma follows_advances: "advances s t \<Longrightarrow> no_field_edit s t \<Longrightarrow> sound s \<Longrightarrow> follows s t"
  by (auto simp: follows_def sound_def intro: recorded_kept rows_ok_advances) (simp_all add: advances_def recorded_kept)

text \<open>The body of a transaction is judged on the store with an empty buffer.\<close>

lemma follows_transaction:
  assumes "\<And>t x. f (s\<lparr>buffer := []\<rparr>) = Inr (t, x) \<Longrightarrow> follows (s\<lparr>buffer := []\<rparr>) t" and "sound s"
  shows "follows s (fst (transaction f s))"
  by (cases f s rule: transaction_cases) (use assms in \<open>auto simp: follows_def\<close>)

lemma set_field_follows:
  assumes "set_field_on_conn pol i v c key who why s = Inr (t, res)" "sound s"
  shows "follows s t"
  by (rule set_field_cases [OF assms(1)])
    (use assms(2) in \<open>auto simp: sound_def follows_refl [unfolded sound_def] intro: follows_written\<close>, (simp add: follows_def sound_def)+)

lemma set_title_follows:
  assumes "set_title_on_conn i v key who why s = Inr (t, res)" "sound s"
  shows "follows s t"
  by (rule set_title_cases [OF assms(1)])
    (use assms(2) in \<open>auto simp: sound_def follows_refl [unfolded sound_def] intro: follows_written\<close>, (simp add: follows_def sound_def)+)

lemma mutate_list_follows:
  assumes "mutate_list_field_on_conn sh i x c key who why inc check s = Inr (t, res)" "sound s" "shape_ok sh"
  shows "follows s t"
  by (rule mutate_list_cases [OF assms(1)])
    (use assms(2,3) in \<open>auto simp: sound_def follows_refl [unfolded sound_def] intro: follows_written\<close>, (simp add: follows_def sound_def)+)

lemma transition_follows:
  assumes "transition_field i c kinds eq guard expected target key who why s = Inr (t, res)" "sound s"
    and "\<And>r u. guard r = Inr u \<Longrightarrow> r = Inr u"
    and "stored c target = target \<or> (\<forall>v. target = Some v \<longrightarrow> \<not> column_check c v)"
  shows "follows s t"
  by (rule transition_cases [OF assms(1)])
    (use assms(2-4) in \<open>auto simp: sound_def follows_refl [unfolded sound_def] intro: follows_written\<close>, (simp add: follows_def sound_def)+)

lemma claim_follows:
  assumes "claim_next_issue_on_conn reads held owner key who why s = Inr (t, res)" "sound s" "strip owner \<noteq> []"
  shows "follows s t"
  by (rule claim_cases [OF assms(1)])
    (use assms(2,3) in \<open>auto simp: sound_def follows_refl [unfolded sound_def] intro: follows_written\<close>, (simp add: follows_def sound_def)+)

lemma insert_inquiry_follows:
  assumes f: "insert_inquiry i k status created vals s = Inr t" and ok: "sound s" and fresh: "never_used i s"
  shows "follows s t" "inquiries t i \<noteq> None"
proof -
  obtain r :: inquiry where r: "insert_inquiry_row i r (s\<lparr>sequences := (sequences s)(k := Suc (sequences s k))\<rparr>) = Inr t"
    "iq_kind r = k" "iq_seq r = Suc (sequences s k)"
    using f by (auto simp: insert_inquiry_def Let_def split: if_splits)
  let ?s = "s\<lparr>sequences := (sequences s)(k := Suc (sequences s k))\<rparr>"
  have "row_ok ?s q" if "row_ok s q" for q
    using that by (auto simp: row_ok_def)
  then have "rows_ok ?s" using ok by (auto simp: sound_def rows_ok_def)
  then have rows: "rows_ok t" by (rule rows_ok_insert [OF _ r(1)]) (simp add: r)
  have te: "change_log t = change_log s" "inquiries s i = None" "inquiries t = (inquiries s)(i \<mapsto> r)"
    using r(1) by (auto simp: insert_inquiry_row_Inr place_inquiry_row_Inr)
  then show "inquiries t i \<noteq> None" by simp
  have "store_ok t" using insert_inquiry_ok(1) [OF f _ fresh] ok by (simp add: sound_def)
  moreover have "recorded s t"
    using fresh te by (auto simp: recorded_def never_used_def subjects_def)
  ultimately show "follows s t" using rows by (simp add: follows_def sound_def)
qed

lemma submit_follows:
  assumes f: "submit_row i k status created vals c key who s = Inr (t, x)" and ok: "sound s" and fresh: "never_used i s"
  shows "follows s t"
proof -
  obtain s1 sb where s1: "insert_inquiry i k status created vals s = Inr s1"
    "emit_change ((emit_args i k Created)\<lparr>em_api_key_id := key, em_actor := who, em_marginal_cost := c\<rparr>) True s1
      = Inr (t, x, sb)"
    using f by (auto simp: submit_row_def bind_res_Inr_iff)
  have one: "follows s s1" using insert_inquiry_follows(1) [OF s1(1) ok fresh] .
  have "advances s1 t" by (rule emitted_advances [OF emit_change_emitted(1) [OF s1(2)]])
  moreover have "no_field_edit s1 t" by (rule unedited.emit_change [OF s1(2)]) (simp add: emit_args_def)
  ultimately have "follows s1 t" using one by (intro follows_advances) (simp_all add: follows_def)
  with one show ?thesis by (auto simp: follows_def intro: recorded_trans)
qed

lemma purge_follows:
  assumes f: "purge_on_conn i key who why s = Inr (t, cid)" and ok: "sound s"
  shows "follows s t"
proof -
  obtain r :: inquiry where h: "inquiries s i = Some r" "purge_held i (iq_kind r) key who why s = Inr (t, cid)"
    using f by (auto simp: purge_on_conn_def split: option.splits if_splits)
  obtain u where u: "emitted s u" "t = delete_inquiry_row i u"
    using purge_held_ok [OF h(2)] by blast
  have "store_ok t" using purge_store_ok [OF f] ok by (simp add: sound_def)
  moreover have "rows_ok t" using rows_ok_delete [OF rows_ok_emitted [OF u(1)]] ok by (simp add: u(2) sound_def)
  moreover have "recorded s t"
  proof -
    have nf: "no_field_edit s t" by (rule unedited.purge_on_conn [OF f])
    then have "no_field_edit s u" by (simp add: no_field_edit_def u(2) delete_inquiry_row_def)
    moreover have "rows_kept s u" using u(1) by (simp add: emitted_def wrote_def)
    ultimately have r1: "recorded s u" by (rule recorded_kept)
    have "i \<in> subjects t"
    proof -
      obtain t1 subs where t1: "emit_change ((emit_args i (iq_kind r) Purged)\<lparr>em_api_key_id := key, em_actor := who,
          em_reason := why\<rparr>) False s = Inr (t1, cid, subs)"
        "cid \<in> change_ids t1"
        using h(2) emit_change_emitted(3) by (auto simp: purge_held_def Let_def bind_res_Inr_iff split: if_splits)
      obtain rep where o: "emit_once ((emit_args i (iq_kind r) Purged)\<lparr>em_api_key_id := key, em_actor := who,
          em_reason := why\<rparr>) s = Inr (t1, cid, subs, rep)"
        using t1(1) by (auto simp: emit_change_quiet emit_quiet_once)
      then have "i \<in> subjects t1"
      proof (cases rule: emit_once_cases)
        case (fresh c)
        then show ?thesis by (simp add: subjects_def change_of_def emit_args_def)
      next
        case (replay c)
        then show ?thesis by (auto simp: subjects_def emit_args_def find_change_def dest!: find_Some_iff_mem)
      qed
      moreover have "prefix (change_log t1) (change_log t)"
      proof -
        obtain v w where "cascade_dependency_changed i (iq_kind r) cid (Some (edges_touching i s)) t1 = Inr v"
          "purge_edges i (iq_kind r) cid key who (edges_touching i s) v = Inr w" "t = delete_inquiry_row i w"
          using h(2) t1(1) by (auto simp: purge_held_def Let_def bind_res_Inr_iff split: if_splits)
        then have "emitted t1 w" using cascade_emitted purge_edges_emitted emitted_trans by blast
        then show ?thesis using \<open>t = delete_inquiry_row i w\<close> by (simp add: emitted_def wrote_def delete_inquiry_row_def)
      qed
      ultimately show ?thesis by (auto simp: subjects_def prefix_def)
    qed
    then have "recorded u t"
      by (auto simp: recorded_def u(2) delete_inquiry_row_def subjects_def split: if_splits)
    with r1 show ?thesis by (rule recorded_trans)
  qed
  ultimately show ?thesis by (simp add: follows_def sound_def)
qed

lemma graph_step_follows:
  assumes "graph_step s t" "sound s"
  shows "follows s t"
  using assms
proof (induction rule: graph_step.cases)
  case (keyed s key)
  then show ?case by (simp add: set_client_change_id_def follows_def)
next
  case (submitted i s k status created vals c key who)
  then have "never_used i (s\<lparr>buffer := []\<rparr>)" by (simp add: never_used_def)
  with submitted show ?case by (simp only:) (rule follows_transaction, auto intro: submit_follows)
next
  case (added s f t k p n v ls why key who)
  then have ok: "store_ok (s\<lparr>buffer := []\<rparr>)" "sound (s\<lparr>buffer := []\<rparr>)" by (simp_all add: sound_def)
  have "follows (s\<lparr>buffer := []\<rparr>) u"
    if "add_edge_on_conn f t k p n v ls why None True key who (s\<lparr>buffer := []\<rparr>) = Inr (u, cid, new)" for u cid new
    using follows_advances [OF add_edge_infer_advances(1) [OF that ok(1)] unedited.add_edge_infer(1) [OF that] ok(2)] .
  with added show ?case unfolding add_edge_def
    by (simp only:) (rule follows_transaction, auto simp: bind_res_Inr_iff)
next
  case (annotated s f t k ap an av al delta why key who)
  then have ok: "store_ok (s\<lparr>buffer := []\<rparr>)" "sound (s\<lparr>buffer := []\<rparr>)" by (simp_all add: sound_def)
  have "follows (s\<lparr>buffer := []\<rparr>) u"
    if "set_edge_annotation_on_conn f t k ap an av al delta why True key who (s\<lparr>buffer := []\<rparr>) = Inr (u, cid)" for u cid
    using follows_advances [OF set_edge_annotation_advances(1) [OF that ok(1)] unedited.annotate [OF that] ok(2)] .
  with annotated show ?case unfolding set_edge_annotation_def
    by (simp only:) (rule follows_transaction)
next
  case (removed s f t k why key who)
  then show ?case unfolding remove_edge_def
    by (simp only:) (rule follows_transaction, auto simp: sound_def
      dest: remove_edge_advances(1) unedited.remove_edge intro: follows_advances)
next
  case (purged s i key who why)
  then show ?case unfolding purge_def
    by (simp only:) (rule follows_transaction, auto intro: purge_follows)
next
  case (charged s i c key who why)
  then show ?case unfolding add_cost_def
    by (simp only:) (rule follows_transaction, auto simp: sound_def
      dest: add_cost_advances unedited.add_cost intro: follows_advances)
next
  case (cost_set s i ax x key who why)
  then show ?case unfolding set_cost_axis_def
    by (simp only:) (rule follows_transaction, auto simp: sound_def
      dest: set_cost_advances unedited.set_cost intro: follows_advances)
qed

lemma store_step_follows:
  assumes "store_step s t" "sound s"
  shows "follows s t"
  using assms
proof (induction rule: store_step.cases)
  case (graph s t)
  then show ?case by (blast intro: graph_step_follows)
next
  case (field_set s pol i v c key who why)
  then have "follows s (fst (transaction (set_field_on_conn pol i v c key who why) s))"
    by (intro follows_transaction) (erule set_field_follows, simp_all)
  with field_set show ?case by (simp add: set_field_def follows_refl)
next
  case (titled s i v key who why)
  then have "follows s (fst (transaction (set_title_on_conn i v key who why) s))"
    by (intro follows_transaction) (erule set_title_follows, simp_all)
  with titled show ?case by (simp add: set_title_def follows_refl)
next
  case (strs_mutated s i x c key who why inc check)
  then show ?case unfolding mutate_list_field_def
    by (simp only:) (rule follows_transaction, erule mutate_list_follows, simp_all)
next
  case (ids_mutated s i y c key who why inc check)
  then show ?case unfolding mutate_list_field_def
    by (simp only:) (rule follows_transaction, erule mutate_list_follows, simp_all)
next
  case (owner_moved s i expected to key who why)
  then show ?case unfolding transition_owner_def
    by (simp only:) (rule follows_transaction, erule transition_follows, simp_all add: stored_transitions)
next
  case (status_moved s i expected' to' key who why)
  then show ?case unfolding transition_status_def
    by (simp only:) (rule follows_transaction, erule transition_follows, simp_all add: stored_transitions)
next
  case (judgement_moved s i expected to key who why)
  have "\<And>t x. transition_field i BeliefJudgement (Some Belief) (=) (\<lambda>r. r) (map_option VStr expected)
      (map_option VStr to) key who why (s\<lparr>buffer := []\<rparr>) = Inr (t, x) \<Longrightarrow> follows (s\<lparr>buffer := []\<rparr>) t"
    by (rule transition_follows [OF _ _ _ stored_transitions(4)]) (use judgement_moved in simp_all)
  with judgement_moved show ?case unfolding transition_judgement_def
    by (simp only:) (rule follows_transaction)
next
  case (app_moved s i expected'' to'' key who why)
  then show ?case unfolding transition_app_def
    by (simp only:) (rule follows_transaction, erule transition_follows, simp_all add: stored_transitions check_conflict_Inr)
next
  case (claimed s reads held owner key who why)
  show ?case
  proof (cases "strip owner = []")
    case True
    with claimed show ?thesis by (simp add: claim_next_issue_def follows_refl)
  next
    case False
    from claimed have "follows s (fst (transaction (claim_next_issue_on_conn reads held owner key who why) s))"
      by (intro follows_transaction) (erule claim_follows, simp_all add: False)
    with claimed False show ?thesis by (simp add: claim_next_issue_def)
  qed
qed

lemma empty_sound:
  assumes "empty_store s" "iq_ids s = []"
  shows "sound s"
  using assms empty_store_ok [OF assms(1)] by (simp add: sound_def rows_ok_def empty_store_def)

definition fresh_store :: "store \<Rightarrow> bool" where
  "fresh_store s \<longleftrightarrow> empty_store s \<and> iq_ids s = []"

interpretation store: audited_system fresh_store store_step sound change_log
proof
  show "sound s" if "fresh_store s" for s using that empty_sound by (simp add: fresh_store_def)
  show "sound t" if "sound s" "store_step s t" for s t using store_step_follows [OF that(2,1)] by (simp add: follows_def)
  show "prefix (change_log s) (change_log t)" if "sound s" "store_step s t" for s t
    using store_step_follows [OF that(2,1)] by (auto simp: follows_def recorded_def)
qed

lemma run_recorded: "rtranclp store_step s t \<Longrightarrow> sound s \<Longrightarrow> recorded s t"
proof (induction rule: rtranclp_induct)
  case (step t u)
  have "sound t" using store.run_keeps [OF step(1,4)] .
  then have "recorded t u" using store_step_follows [OF step(2)] by (simp add: follows_def)
  with step show ?case by (blast intro: recorded_trans)
qed simp

end
