(* ===== verification/Edit_Properties.thy ===== *)
theory Edit_Properties
  imports Store_Machine
begin

text \<open>
  When an edit succeeds, what a keyed retry of it does, and how two edits that race for one
  row compose: the lemmas behind the properties of the edits.
\<close>

section \<open>When an edit succeeds\<close>

lemma peers_check_field: "peers_check (FieldEdited c) (field_snapshot c v) (field_snapshot c w)"
  by (simp add: peers_check_def carries_peer_def field_snapshot_def empty_snapshot_def annotation_check_def)

lemma emit_field_total:
  assumes ok: "store_ok u" and slot: "unused_key u"
    and m: "mirror_check (FieldEdited c) k (field_snapshot c v) (field_snapshot c w)"
  shows "\<exists>t cid subs. emit_field_change i k c v w key who why ex u = Inr (t, cid, subs)"
proof -
  let ?e = "(emit_args i k (FieldEdited c))\<lparr>em_api_key_id := key, em_actor := who, em_reason := why,
       em_old := field_snapshot c v, em_new := field_snapshot c w, em_extra_subscribers := ex\<rparr>"
  have p: "peer_id (field_snapshot c x) = None" for x by (simp add: field_snapshot_def)
  obtain t cid subs where "emit_quiet ?e u = Inr (t, cid, subs)"
    using emit_unused_total [OF slot store_okD(1) [OF ok], of ?e] peers_check_field m
    by (auto simp: emit_args_def p)
  then obtain r where o: "emit_once ?e u = Inr (t, cid, subs, r)" by (auto simp: emit_quiet_once)
  have "emit_once ?e u = Inr (t, cid, subs, False)" using o emit_once_fresh [OF o slot] by simp
  from emit_cascades [OF ok this] show ?thesis
    by (fastforce simp: emit_field_change_def emit_args_def)
qed

text \<open>What a column takes, on a row whose other columns are in order.\<close>

definition column_accepts :: "column \<Rightarrow> cval option \<Rightarrow> bool" where
  "column_accepts c w \<longleftrightarrow>
     typed c w \<and> (case w of None \<Rightarrow> \<not> required (COLUMN_SPECS c) | Some x \<Rightarrow> column_check c x)"

text \<open>The columns no constraint ties to another column or another row.\<close>

definition free_column :: "column \<Rightarrow> bool" where
  "free_column c \<longleftrightarrow> c \<notin> {Owner, Status, SessionEnded, GroupSystem, GroupDomain}"

lemma mirrored_columns: "c \<in> set CHANGE_LOG_COLUMN_ORDER \<longleftrightarrow> \<not> immutable (COLUMN_SPECS c)"
  by (cases c) (simp_all add: CHANGE_LOG_COLUMN_ORDER_def ColumnSpec_def)

lemma required_base:
  "c \<in> {Title, Account, Status} \<Longrightarrow> required (COLUMN_SPECS c) \<and> column_applies k c"
  by (auto simp: column_applies_def ColumnSpec_def)

lemma edited_row_typed:
  "row_typed r \<Longrightarrow> row_typed (edited_row c w m r) \<longleftrightarrow> typed c w"
  by (auto simp: row_typed_def)

lemma edited_not_null:
  "not_null_check r \<Longrightarrow> column_accepts c w \<Longrightarrow> not_null_check (edited_row c w m r)"
  using required_base [of c] by (cases w) (auto simp: not_null_check_def column_accepts_def)

lemma column_row_check_edited:
  "column_row_check (edited_row c w m r) d \<longleftrightarrow>
     (if d = c then (case w of None \<Rightarrow> \<not> (column_applies (iq_kind r) c \<and> required (COLUMN_SPECS c))
                     | Some x \<Rightarrow> column_applies (iq_kind r) c \<and> column_check c x)
      else column_row_check r d)"
  by (simp add: column_row_check_def cong: option.case_cong)

lemma edited_row_check:
  assumes "inquiry_row_check r" "column_applies (iq_kind r) c" "free_column c"
  shows "inquiry_row_check (edited_row c w m r) \<longleftrightarrow>
    (case w of None \<Rightarrow> \<not> required (COLUMN_SPECS c) | Some x \<Rightarrow> column_check c x)"
proof -
  have "c \<noteq> Status" "c \<noteq> SessionEnded" "c \<noteq> GroupDomain" "c \<noteq> GroupSystem"
    using assms(3) by (auto simp: free_column_def)
  then have "inquiry_row_check (edited_row c w m r) \<longleftrightarrow> column_row_check (edited_row c w m r) c"
    using assms(1) unfolding inquiry_row_check_def
    by (auto simp: column_row_check_edited split: option.splits cval.splits)
  then show ?thesis using assms(2) by (simp add: column_row_check_edited split: option.splits)
qed

lemma edited_collides:
  assumes "free_column c"
  shows "collides (edited_row c w m r) q = collides r q"
proof -
  have "c \<noteq> Owner" "c \<noteq> SessionEnded" "c \<noteq> GroupDomain" using assms by (auto simp: free_column_def)
  then show ?thesis by (simp add: collides_def live_session_owner_def iq_owner_def)
qed

lemma update_field_accepts:
  assumes ok: "rows_ok s" and r: "inquiries s i = Some r" "column_applies (iq_kind r) c" and c: "free_column c"
    and st: "stored c w = w"
  shows "(\<exists>u. update_field i c w s = Inr u) \<longleftrightarrow> \<not> immutable (COLUMN_SPECS c) \<and> column_accepts c w"
proof -
  let ?q = "edited_row c w (clock s) r"
  note rk = rows_okD(4) [OF ok r(1)]
  have apart: "\<forall>j \<in> set (iq_ids s). j \<noteq> i \<longrightarrow> (\<forall>q. inquiries s j = Some q \<longrightarrow> \<not> collides ?q q)"
    using rows_okD(6) [OF ok r(1)] by (auto simp: edited_collides [OF c])
  have "(\<exists>u. update_field i c w s = Inr u) \<longleftrightarrow> \<not> immutable (COLUMN_SPECS c)
      \<and> row_typed ?q \<and> not_null_check ?q \<and> inquiry_row_check ?q"
    using apart r(1) by (auto simp: update_field_Inr st update_inquiry_row_def place_inquiry_row_Inr)
  also have "\<dots> \<longleftrightarrow> \<not> immutable (COLUMN_SPECS c) \<and> column_accepts c w"
    using rk edited_row_typed [of r c w] edited_not_null [of r c w] edited_row_check [OF _ r(2) c, of w]
    by (auto simp: column_accepts_def)
  finally show ?thesis .
qed

lemma old_value_checks:
  assumes "rows_ok s" "inquiries s i = Some r" "column_applies (iq_kind r) c"
  shows "case iq_columns r c of None \<Rightarrow> \<not> required (COLUMN_SPECS c) | Some x \<Rightarrow> column_check c x"
proof -
  have "inquiry_row_check r" using rows_okD(4) [OF assms(1,2)] by simp
  then have "column_row_check r c" by (simp add: inquiry_row_check_def)
  with assms(3) show ?thesis by (simp add: column_row_check_def split: option.splits)
qed

text \<open>Once the row is written, the audit cannot fail.\<close>

lemma placed_emit_total:
  assumes ok: "sound s" "unused_key s" and r: "inquiries s i = Some r" "column_applies (iq_kind r) c"
    and c: "\<not> immutable (COLUMN_SPECS c)" and n: "clock s \<le> n"
    and p: "place_inquiry_row i (edited_row c w m r) (s\<lparr>clock := n\<rparr>) = Inr u"
  shows "\<exists>t cid subs. emit_field_change i (iq_kind r) c (iq_columns r c) w key who why ex u = Inr (t, cid, subs)"
proof (rule emit_field_total)
  have st: "store_ok s" "rows_ok s" using ok(1) by (simp_all add: sound_def)
  show "store_ok u" by (rule store_ok_place [OF p n st(1) r(1)]) simp_all
  show "unused_key u" using unused_key_place [OF p] ok(2) by simp
  have "column_row_check (edited_row c w m r) c"
    using p by (auto simp: place_inquiry_row_Inr inquiry_row_check_def)
  then have "case w of None \<Rightarrow> \<not> required (COLUMN_SPECS c) | Some x \<Rightarrow> column_check c x"
    using r(2) by (auto simp: column_row_check_edited split: option.splits)
  then show "mirror_check (FieldEdited c) (iq_kind r) (field_snapshot c (iq_columns r c)) (field_snapshot c w)"
    using old_value_checks [OF st(2) r] c r(2) by (simp add: mirror_check_edit mirrored_columns)
qed

text \<open>Outside sessions, an owner is as good as another.\<close>

lemma place_owner_ok:
  assumes ok: "rows_ok s" and r: "inquiries s i = Some r" "iq_kind r \<noteq> AgentSession" and w: "typed Owner w"
  shows "\<exists>u. place_inquiry_row i (edited_row Owner w m r) (s\<lparr>clock := n\<rparr>) = Inr u"
proof -
  let ?q = "edited_row Owner w m r"
  note rk = rows_okD(4) [OF ok r(1)]
  have "row_typed ?q" using edited_row_typed [of r Owner w m] rk w by simp
  moreover have "not_null_check ?q" using rk by (simp add: not_null_check_def)
  moreover have "inquiry_row_check ?q"
    using rk r(2) by (auto simp: inquiry_row_check_def column_row_check_edited column_applies_def ColumnSpec_def
        column_check_def split: option.splits cval.splits)
  moreover have "collides ?q x = collides r x" for x
    using r(2) by (simp add: collides_def live_session_owner_def)
  then have "\<forall>j \<in> set (iq_ids s). j \<noteq> i \<longrightarrow> (\<forall>q. inquiries s j = Some q \<longrightarrow> \<not> collides ?q q)"
    using rows_okD(6) [OF ok r(1)] by auto
  ultimately show ?thesis by (simp add: place_inquiry_row_Inr)
qed

definition edit_admissible :: "uuid \<Rightarrow> column \<Rightarrow> cval option \<Rightarrow> store \<Rightarrow> bool" where
  "edit_admissible i c w s \<longleftrightarrow>
     (\<exists>r :: inquiry. inquiries s i = Some r \<and> column_applies (iq_kind r) c
        \<and> (py_eq (iq_columns r c) w \<or> (validate_hook c w s = Inr () \<and> column_accepts c w)))"

lemma set_field_iff:
  assumes ok: "sound s" and slot: "unused_key s" and c: "free_column c" "c \<noteq> Account"
    and im: "\<not> immutable (COLUMN_SPECS c)"
  shows "(\<exists>x. set_field_on_conn pol i v c key who why s = Inr x) \<longleftrightarrow> edit_admissible i c (canonical_value c v) s"
proof -
  let ?w = "canonical_value c v"
  have sk: "store_ok s" "rows_ok s" "unused_key s" using ok slot by (simp_all add: sound_def)
  have step: "set_field_on_conn pol i v c key who why s =
    bind_res (read_field i c (applies_to (COLUMN_SPECS c)) s) (\<lambda>(before, k).
      if py_eq before ?w then Inr (s, None) else write_field pol i k c before ?w key who why s)"
    using sk(3) c(2) by (simp add: set_field_on_conn_def on_account_def Let_def)
  have wr: "(\<exists>x. write_field pol i (iq_kind r) c (iq_columns r c) ?w key who why s = Inr x)
      \<longleftrightarrow> validate_hook c ?w s = Inr () \<and> column_accepts c ?w"
    if r: "inquiries s i = Some r" "column_applies (iq_kind r) c" for r
  proof -
    note up = update_field_accepts [OF sk(2) r c(1) stored_canonical, of v]
    have em: "\<exists>t cid subs. emit_field_change i (iq_kind r) c (iq_columns r c) ?w key who why ex u = Inr (t, cid, subs)"
      if u: "update_field i c ?w s = Inr u" for u ex
    proof -
      have p: "place_inquiry_row i (edited_row c ?w (clock s) r) (s\<lparr>clock := Suc (clock s)\<rparr>) = Inr u"
        using u r(1) by (simp add: update_field_Inr update_inquiry_row_def)
      show ?thesis by (rule placed_emit_total [OF ok slot r im _ p]) simp
    qed
    have "(\<exists>x. write_field pol i (iq_kind r) c (iq_columns r c) ?w key who why s = Inr x)
        \<longleftrightarrow> validate_hook c ?w s = Inr () \<and> (\<exists>u. update_field i c ?w s = Inr u)"
    proof
      assume "\<exists>x. write_field pol i (iq_kind r) c (iq_columns r c) ?w key who why s = Inr x"
      then show "validate_hook c ?w s = Inr () \<and> (\<exists>u. update_field i c ?w s = Inr u)"
        by (auto simp: write_field_def bind_res_Inr_iff check_conflict_Inr)
    next
      assume "validate_hook c ?w s = Inr () \<and> (\<exists>u. update_field i c ?w s = Inr u)"
      then obtain u where u: "validate_hook c ?w s = Inr ()" "update_field i c ?w s = Inr u" by blast
      obtain t cid subs where "emit_field_change i (iq_kind r) c (iq_columns r c) ?w key who why
          (extra_subscribers c (iq_columns r c)) u = Inr (t, cid, subs)" using em [OF u(2)] by blast
      with u show "\<exists>x. write_field pol i (iq_kind r) c (iq_columns r c) ?w key who why s = Inr x"
        using c(2) by (simp add: write_field_def check_conflict_def on_account_def)
    qed
    with up im show ?thesis by simp
  qed
  have read: "read_field i c (applies_to (COLUMN_SPECS c)) s = Inr x \<longleftrightarrow>
      (\<exists>r :: inquiry. inquiries s i = Some r \<and> column_applies (iq_kind r) c \<and> x = (iq_columns r c, iq_kind r))" for x
    by (cases "applies_to (COLUMN_SPECS c)") (auto simp: read_field_Inr column_applies_def)
  show ?thesis
  proof (cases "\<exists>r :: inquiry. inquiries s i = Some r \<and> column_applies (iq_kind r) c")
    case True
    then obtain r where r: "inquiries s i = Some r" "column_applies (iq_kind r) c" by blast
    then have "read_field i c (applies_to (COLUMN_SPECS c)) s = Inr (iq_columns r c, iq_kind r)"
      unfolding read by blast
    then show ?thesis
      using r wr [OF r] by (cases "py_eq (iq_columns r c) ?w") (simp_all add: step edit_admissible_def)
  next
    case False
    then have "\<nexists>x. read_field i c (applies_to (COLUMN_SPECS c)) s = Inr x" unfolding read by blast
    then have "\<nexists>x. set_field_on_conn pol i v c key who why s = Inr x"
      unfolding step bind_res_Inr_iff by blast
    with False show ?thesis unfolding edit_admissible_def by blast
  qed
qed

section \<open>Retries and races\<close>

text \<open>A keyed edit that wrote its row replays: the retry returns the same change and writes nothing.\<close>

lemma find_change_head:
  assumes "change_log t = change_log s @ ch # cs" "change_id ch \<notin> change_ids s"
  shows "find_change (change_id ch) t = Some ch"
proof -
  have "List.find P (xs @ ch # cs) = Some ch" if "\<forall>x \<in> set xs. \<not> P x" "P ch" for P xs
    using that by (induction xs) simp_all
  moreover have "\<forall>x \<in> set (change_log s). change_id x \<noteq> change_id ch"
    using assms(2) by (metis change_ids_def image_eqI)
  ultimately show ?thesis by (simp add: find_change_def assms(1))
qed

lemma wrote_field_find:
  assumes "wrote_field i c w key who why cid s t" "cid \<notin> change_ids s"
  obtains ch where "find_change cid t = Some ch" "actor ch = who" "subject_id ch = i" "change_kind ch = FieldEdited c"
    "edited (new ch) = map_option (\<lambda>x. (c, x)) w"
proof -
  obtain r ch cs where "column_written i c w s t" "inquiries s i = Some r"
    and ch: "field_change i (iq_kind r) c (iq_columns r c) w key who why cid ch" "change_log t = change_log s @ ch # cs"
      "\<forall>a \<in> set cs. is_alert a"
    by (rule wrote_fieldE [OF assms(1)])
  have "find_change cid t = Some ch"
    using find_change_head [OF ch(2)] ch(1) assms(2) by (simp add: field_change_def)
  with ch(1) show ?thesis by (intro that) (auto simp: field_change_def field_snapshot_def)
qed

lemma unless_replayed_again:
  assumes "find_change k s = Some ch" "actor ch = who" "subject_id ch = i" "change_kind ch = FieldEdited c"
    and "client_change_id s = Some k"
  shows "unless_replayed i c who f s = Inr (s\<lparr>client_change_id := None\<rparr>, Some k)"
  using assms by (simp add: unless_replayed_def replay_field_change_def peek_client_change_id_def
      consume_client_change_id_def)

lemma transition_owner_writes:
  assumes ok: "sound s" "unused_key s" and r: "inquiries s i = Some r" "iq_kind r \<noteq> AgentSession"
    and w: "typed Owner w" "stored Owner w = w" "w \<noteq> iq_columns r Owner"
  shows "\<exists>t cid. transition_field i Owner None (=) (\<lambda>r. r) (iq_columns r Owner) w key who why s = Inr (t, Some cid)"
proof -
  have rows: "rows_ok s" using ok(1) by (simp add: sound_def)
  obtain u where p: "place_inquiry_row i (edited_row Owner w (clock s) r) (s\<lparr>clock := Suc (clock s)\<rparr>) = Inr u"
    using place_owner_ok [OF rows r w(1)] by blast
  then have u: "update_field i Owner w s = Inr u"
    using r(1) w(2) by (simp add: update_field_Inr update_inquiry_row_def ColumnSpec_def)
  have "column_applies (iq_kind r) Owner" "\<not> immutable (COLUMN_SPECS Owner)"
    by (simp_all add: column_applies_def ColumnSpec_def)
  then obtain t cid subs where "emit_field_change i (iq_kind r) Owner (iq_columns r Owner) w key who why [] u = Inr (t, cid, subs)"
    using placed_emit_total [OF ok r(1) _ _ _ p] by fastforce
  with u w(3) r(1) ok(2) show ?thesis by (auto simp: transition_field_def read_field_def)
qed

lemma claim_writes:
  assumes ok: "sound s" "unused_key s" and i: "claimable_issue reads held s = Some i"
  shows "\<exists>t. claim_next_issue_on_conn reads held owner key who why s = Inr (t, Some i)"
proof -
  have rows: "rows_ok s" using ok(1) by (simp add: sound_def)
  obtain r where r: "inquiries s i = Some r" "iq_kind r = Issue" "iq_columns r Owner = None"
    using eligible_row [OF claimable_props(1) [OF i]] by blast
  let ?w = "Some (VStr owner)"
  have "typed Owner ?w" by (simp add: typed_def)
  then obtain u where p: "place_inquiry_row i (edited_row Owner ?w (iq_modified r) r) (s\<lparr>clock := clock s\<rparr>) = Inr u"
    using place_owner_ok [OF rows r(1)] r(2) by (metis inquiry_kind.distinct)
  have "column_applies (iq_kind r) Owner" "\<not> immutable (COLUMN_SPECS Owner)"
    by (simp_all add: column_applies_def ColumnSpec_def)
  then obtain t cid subs where e: "emit_field_change i (iq_kind r) Owner (iq_columns r Owner) ?w key who why [] u = Inr (t, cid, subs)"
    using placed_emit_total [OF ok r(1) _ _ order_refl p] by blast
  have "replay_claim reads owner who s = Inr (s, None)"
    using ok(2) by (auto simp: replay_claim_def peek_client_change_id_def unused_key_def find_change_None [symmetric]
        split: option.splits)
  with i p e r show ?thesis
    by (auto simp: claim_next_issue_on_conn_def update_inquiry_row_def edited_row_def)
qed

end
