(* ===== verification/Edit_Claims.thy ===== *)
theory Edit_Claims
  imports Edit_Properties Graph_Claims
begin

text \<open>
  The properties of the field edits and of the work queue, each with a witness on the small
  store of the graph properties.
\<close>

section \<open>The example store\<close>

lemma demo_row_check: "k \<in> {Issue, Belief, Paper} \<Longrightarrow> inquiry_row_check (demo_row k n)"
  by (auto simp: inquiry_row_check_def columns_def CHANGE_LOG_COLUMN_ORDER_def column_row_check_def demo_row_def
      demo_columns_def column_applies_def ColumnSpec_def column_check_def STATUSES_def)

lemma demo_row_ok: "k \<in> {Issue, Belief, Paper} \<Longrightarrow> n \<le> sequences s k \<Longrightarrow> row_ok s (demo_row k n)"
  using demo_row_check [of k n]
  by (auto simp: row_ok_def row_typed_def not_null_check_def typed_def demo_row_def demo_columns_def)

lemma checks_cong:
  assumes "iq_kind r = iq_kind q" "iq_columns r = iq_columns q"
  shows "row_typed r = row_typed q" "not_null_check r = not_null_check q" "inquiry_row_check r = inquiry_row_check q"
  by (simp_all add: row_typed_def not_null_check_def inquiry_row_check_def column_row_check_def assms
      cong: option.case_cong cval.case_cong)

lemma demo_rows: "inquiries demo_store i = Some r \<longleftrightarrow>
    (i, r) \<in> {(1, demo_row Issue 10), (2, demo_row Issue 20), (5, demo_row Issue 25), (3, demo_row Belief 30),
      (4, demo_row Paper 40)}"
  by (auto simp: demo_store_def no_rows_def)

lemma demo_collides: "collides (demo_row k m) (demo_row l n) \<longleftrightarrow> k = l \<and> m = n"
  by (simp add: collides_def live_session_owner_def demo_row_def) (simp add: demo_columns_def)

lemma demo_sound: "sound demo_store"
proof -
  have "rows_ok demo_store"
    unfolding rows_ok_def
  proof (intro conjI allI impI)
    show "distinct (iq_ids demo_store)" by (simp add: demo_store_def)
    show "(inquiries demo_store i \<noteq> None) = (i \<in> set (iq_ids demo_store))" for i
      by (auto simp: demo_store_def no_rows_def)
    show "row_ok demo_store r" if "inquiries demo_store i = Some r" for i r
      using that unfolding demo_rows by (auto intro!: demo_row_ok simp: demo_store_def)
    show "\<not> collides r q" if "inquiries demo_store i = Some r" "inquiries demo_store j = Some q" "i \<noteq> j" for i j r q
      using that unfolding demo_rows by (auto simp: demo_collides)
  qed
  then show ?thesis using demo_store_ok by (simp add: sound_def)
qed

lemma no_rows_fresh: "fresh_store no_rows"
  by (simp add: fresh_store_def empty_store_def no_rows_def)

text \<open>An issue goes in, and gets a description.\<close>

lemma transaction_commits:
  "f (s\<lparr>buffer := []\<rparr>) = Inr (t, x) \<Longrightarrow> fst (transaction f s) = t\<lparr>published := published t @ buffer t, buffer := []\<rparr>"
  by (simp add: transaction_def in_tx_def)

lemma demo_inserted_columns:
  "(\<lambda>c. if c = Status then Some (VStr ''active'') else normalize_for_insert c (demo_columns c)) = demo_columns"
proof
  fix c
  have "strip ''a title'' \<noteq> []" "strip ''me'' \<noteq> []" by code_simp+
  then show "(if c = Status then Some (VStr ''active'') else normalize_for_insert c (demo_columns c)) = demo_columns c"
    by (auto simp: demo_columns_def normalize_for_insert_def normalize_col_def empty_str_to_none_def)
qed

lemma demo_submitted:
  obtains t r where "store_step no_rows t" "sound t" "client_change_id t = None" "inquiries t 4 = Some r"
    "iq_columns r = demo_columns" "iq_kind r = Issue"
proof -
  let ?s = "no_rows\<lparr>buffer := []\<rparr>"
  let ?f = "submit_row 4 Issue None None demo_columns 0 None ''me''"
  let ?r = "\<lparr>iq_kind = Issue, iq_seq = 1, iq_created = 0, iq_modified = 0, iq_locked = False, iq_cost = 0,
    iq_columns = demo_columns\<rparr>"
  let ?s1 = "?s\<lparr>sequences := (\<lambda>k. 0)(Issue := 1), inquiries := [4 \<mapsto> ?r], iq_ids := [4], clock := 1\<rparr>"
  have same: "iq_kind ?r = iq_kind (demo_row Issue 1)" "iq_columns ?r = iq_columns (demo_row Issue 1)"
    by (simp_all add: demo_row_def)
  have "row_ok demo_store (demo_row Issue 1)" by (rule demo_row_ok) (simp_all add: demo_store_def)
  then have chk: "row_typed ?r" "not_null_check ?r" "inquiry_row_check ?r"
    unfolding row_ok_def checks_cong [OF same] by blast+
  have req: "\<not> (\<exists>c \<in> set columns. c \<noteq> Status \<and> required (COLUMN_SPECS c) \<and> column_applies Issue c \<and> demo_columns c = None)"
    by (auto simp: columns_def CHANGE_LOG_COLUMN_ORDER_def column_applies_def ColumnSpec_def demo_columns_def)
  have ins: "insert_inquiry 4 Issue None None demo_columns ?s = Inr ?s1"
    unfolding insert_inquiry_def if_not_P [OF req] Let_def demo_inserted_columns option.case
    using chk by (simp add: insert_inquiry_row_Inr place_inquiry_row_Inr no_rows_def)
  have fresh: "never_used 4 ?s" by (simp add: never_used_def no_rows_def)
  have ok0: "sound ?s" using store.base [OF no_rows_fresh] by simp
  then have ok: "store_ok ?s1" using insert_inquiry_ok(1) [OF ins _ fresh] by (simp add: sound_def)
  let ?e = "(emit_args 4 Issue Created)\<lparr>em_api_key_id := None, em_actor := ''me'', em_marginal_cost := 0\<rparr>"
  have slot: "client_change_id ?s1 = None" by (simp add: no_rows_def)
  obtain t cid subs where q: "emit_quiet ?e ?s1 = Inr (t, cid, subs)"
    using emit_quiet_total [OF slot store_okD(1) [OF ok], of ?e] by (auto simp: emit_args_def carries_peer_def)
  then have em: "emit_change ?e True ?s1 = Inr (t, cid, subs)"
    by (auto simp: emit_quiet_once emit_change_def non_propagating_def emit_args_def)
  have f: "?f ?s = Inr (t, cid)" using ins em by (simp add: submit_row_def)
  note t = transaction_commits [of ?f no_rows, OF f]
  have "map_option iq_static (inquiries t 4) = map_option iq_static (inquiries ?s1 4)"
    using emit_quiet_emitted [OF q] by (simp only: emitted_def wrote_def rows_kept_def)
  then obtain q where q': "inquiries t 4 = Some q" "iq_columns q = demo_columns" "iq_kind q = Issue"
    by (cases "inquiries t 4") (auto simp: iq_static_def)
  have g: "graph_step no_rows (fst (transaction ?f no_rows))"
    by (rule graph_step.submitted) (simp add: never_used_def no_rows_def)
  show ?thesis
  proof (rule that [of "fst (transaction ?f no_rows)" q])
    show "store_step no_rows (fst (transaction ?f no_rows))" by (rule store_step.graph [OF g])
    then show "sound (fst (transaction ?f no_rows))" using store.keep store.base [OF no_rows_fresh] by blast
    show "client_change_id (fst (transaction ?f no_rows)) = None" using emit_quiet_slot [OF q] by (simp add: t)
    show "inquiries (fst (transaction ?f no_rows)) 4 = Some q" using q' by (simp add: t)
  qed (use q' in simp_all)
qed

lemma demo_described:
  assumes "sound s" "client_change_id s = None" "inquiries s 4 = Some r" "iq_columns r = demo_columns" "iq_kind r = Issue"
  obtains u q where "store_step s u" "inquiries u 4 = Some q" "iq_columns q = demo_columns(Description \<mapsto> VStr ''text'')"
proof -
  let ?s = "s\<lparr>buffer := []\<rparr>" and ?v = "Some (VStr ''text'')"
  let ?f = "set_field_on_conn undefined 4 ?v Description None ''me'' []"
  have ok: "sound ?s" "client_change_id ?s = None" "unused_key ?s" using assms by (simp_all add: unused_key_def)
  have "strip ''text'' \<noteq> []" by code_simp
  then have w: "canonical_value Description ?v = ?v"
    by (simp add: canonical_value_def normalize_col_def empty_str_to_none_def)
  have "edit_admissible 4 Description ?v ?s"
    using assms(3-5)
    by (auto simp: edit_admissible_def column_applies_def ColumnSpec_def validate_hook_def column_accepts_def typed_def
        column_check_def)
  then obtain t res where t: "?f ?s = Inr (t, res)"
    using set_field_iff [OF ok(1,3), of Description undefined 4 ?v None "''me''" "[]"]
    by (auto simp: w free_column_def ColumnSpec_def)
  obtain q where q: "inquiries t 4 = Some q" "iq_columns q = demo_columns(Description \<mapsto> VStr ''text'')"
    using t
  proof (rule set_field_cases)
    show "store_ok ?s" "rows_ok ?s" using ok by (simp_all add: sound_def)
  next
    fix r cid assume "inquiries ?s 4 = Some r" "wrote_field 4 Description (canonical_value Description ?v) None ''me'' [] cid ?s t"
    then show ?thesis using that assms(3,4) unfolding w wrote_field_def
      by (auto elim!: column_written_row)
  qed (use assms(2-4) in \<open>auto simp: w demo_columns_def\<close>)
  have tr: "fst (transaction ?f s) = t\<lparr>published := published t @ buffer t, buffer := []\<rparr>"
    by (rule transaction_commits [of ?f s, OF t])
  have "store_step s (fst (set_field undefined 4 ?v Description None ''me'' [] s))" by (rule store_step.field_set)
  then have "store_step s (fst (transaction ?f s))" by (simp add: set_field_def ColumnSpec_def)
  then show ?thesis using q by (intro that [of "fst (transaction ?f s)" q]) (simp_all add: tr)
qed

section \<open>The store as a whole\<close>

text \<open>Every store reached from empty tables by the operations of the graph store, the field edits
  and the claims is sound: edges well formed and acyclic per kind, costs equal to the log's sums, a
  consistent log, and every inquiry row within the constraints of its table, alone and against the other
  rows; and from any such store on, the change log only grows.\<close>

theorem store_reachable_sound:
  assumes "fresh_store s" "rtranclp store_step s t" "rtranclp store_step t u"
  shows "store_ok u \<and> rows_ok u \<and> prefix (change_log t) (change_log u)"
  using store.reachable_inv [OF assms(1,2)] store.run_keeps [OF assms(3)] store.trail_grows [OF assms(3)]
  by (simp add: sound_def)

theorem store_reachable_sound_witness:
  "\<exists>t. store_step no_rows t \<and> store_ok t \<and> rows_ok t \<and> prefix (change_log no_rows) (change_log t)"
proof -
  let ?t = "fst (transaction (submit_row 1 Issue None None demo_columns (Cost 2 0) None ''me'') no_rows)"
  have "graph_step no_rows ?t" by (rule graph_step.submitted) (simp add: never_used_def no_rows_def)
  then have st: "store_step no_rows ?t" by (rule store_step.graph)
  from store_reachable_sound [OF no_rows_fresh, of no_rows ?t] st show ?thesis by blast
qed

text \<open>The change log is the record of every column: for a row that lives from one reachable store to
  a later one, replaying the field edits the log gained in between, each of which must find the value it
  says it replaced, turns the columns the row had into exactly the columns it has.\<close>

theorem log_replays_columns:
  assumes "fresh_store s" "rtranclp store_step s t" "rtranclp store_step t u"
    and "inquiries t i = Some r" "inquiries u i = Some q"
  shows "replay_edits i (drop (length (change_log t)) (change_log u)) (iq_columns r) = Some (iq_columns q)"
proof -
  have "recorded t u" using run_recorded [OF assms(3)] store.reachable_inv [OF assms(1,2)] by simp
  with assms(4,5) show ?thesis by (auto simp: recorded_def)
qed

theorem log_replays_columns_witness:
  "\<exists>t u r q. store_step no_rows t \<and> store_step t u \<and> inquiries t 4 = Some r \<and> inquiries u 4 = Some q
    \<and> iq_columns q Description = Some (VStr ''text'')
    \<and> replay_edits 4 (drop (length (change_log t)) (change_log u)) (iq_columns r) = Some (iq_columns q)"
proof -
  obtain t r where t: "store_step no_rows t" "sound t" "client_change_id t = None" "inquiries t 4 = Some r"
    "iq_columns r = demo_columns" "iq_kind r = Issue" by (rule demo_submitted)
  obtain u q where u: "store_step t u" "inquiries u 4 = Some q" "iq_columns q = demo_columns(Description \<mapsto> VStr ''text'')"
    by (rule demo_described [OF t(2-6)])
  have "rtranclp store_step no_rows t" "rtranclp store_step t u" using t(1) u(1) by auto
  from log_replays_columns [OF no_rows_fresh this t(4) u(2)]
  have "replay_edits 4 (drop (length (change_log t)) (change_log u)) (iq_columns r) = Some (iq_columns q)" .
  moreover have "iq_columns q Description = Some (VStr ''text'')" by (simp add: u(3))
  ultimately show ?thesis using t(1,4) u(1,2) by blast
qed

section \<open>Field edits\<close>

text \<open>C18: what a setter does. An edit that is not a keyed retry either finds the value there already and
  changes nothing, or writes the canonical value: that column of that row alone changes, the log gains one
  field change with the values before and after, then the alerts of exactly the edges that depend on it.\<close>

theorem set_field_effect:
  assumes "sound s" "unused_key s" "set_field_on_conn pol i v c key who why s = Inr (t, res)"
  shows "\<exists>r :: inquiry. inquiries s i = Some r
    \<and> (case res of
         None \<Rightarrow> t = s \<and> py_eq (iq_columns r c) (canonical_value c v)
       | Some cid \<Rightarrow> \<not> py_eq (iq_columns r c) (canonical_value c v)
           \<and> wrote_field i c (canonical_value c v) key who why cid s t
           \<and> (\<exists>q. inquiries t i = Some q \<and> iq_columns q = (iq_columns r)(c := canonical_value c v)))"
  using assms(1)
  by (rule_tac set_field_cases [OF assms(3)])
    (use assms(1,2) in \<open>auto simp: sound_def unused_key_def wrote_field_def dest: find_change_ids
      elim: column_written_row\<close>)

text \<open>The example edit: an issue's description, canonical as given.\<close>

lemma demo_unused: "unused_key (demo_store\<lparr>client_change_id := k\<rparr>)" "unused_key demo_store"
  by (simp_all add: unused_key_def demo_store_def no_rows_def change_ids_def split: option.split)

abbreviation demo_edit :: "uuid option \<Rightarrow> store \<Rightarrow> (store \<times> uuid option) res" where
  "demo_edit k s \<equiv> set_field_on_conn undefined 2 (Some (VStr ''text'')) Description None ''me'' [] (s\<lparr>client_change_id := k\<rparr>)"

lemma demo_value [simp]: "canonical_value Description (Some (VStr ''text'')) = Some (VStr ''text'')"
proof -
  have "strip ''text'' \<noteq> []" by code_simp
  then show ?thesis by (simp add: canonical_value_def normalize_col_def empty_str_to_none_def)
qed

lemma demo_admissible: "edit_admissible 2 Description (Some (VStr ''text'')) (demo_store\<lparr>client_change_id := k\<rparr>)"
  by (auto simp: edit_admissible_def demo_store_def demo_row_def column_applies_def ColumnSpec_def validate_hook_def
      column_accepts_def typed_def column_check_def)

lemma demo_edit_ok:
  obtains t res where "demo_edit k demo_store = Inr (t, res)"
proof -
  have "sound (demo_store\<lparr>client_change_id := k\<rparr>)" using demo_sound by simp
  from set_field_iff [OF this demo_unused(1), of Description undefined 2 "Some (VStr ''text'')" None "''me''" "[]"]
  show ?thesis using that demo_admissible [of k] by (auto simp: free_column_def ColumnSpec_def)
qed

lemma demo_edit_writes:
  assumes "demo_edit k demo_store = Inr (t, res)"
  obtains cid where "res = Some cid"
proof -
  have "iq_columns (demo_row Issue 20) Description = None" by (simp add: demo_row_def demo_columns_def)
  then have "\<not> py_eq (iq_columns (demo_row Issue 20) Description) (Some (VStr ''text''))" by simp
  moreover have "store_ok (demo_store\<lparr>client_change_id := k\<rparr>)" "rows_ok (demo_store\<lparr>client_change_id := k\<rparr>)"
    using demo_sound by (simp_all add: sound_def)
  ultimately show ?thesis
    using that by (rule_tac set_field_cases [OF assms]) (auto simp: demo_rows)
qed

theorem set_field_effect_witness:
  "\<exists>t cid q. demo_edit None demo_store = Inr (t, Some cid) \<and> inquiries t 2 = Some q
     \<and> iq_columns q Description = Some (VStr ''text'')"
proof -
  obtain t res where t: "demo_edit None demo_store = Inr (t, res)" by (rule demo_edit_ok)
  obtain cid where cid: "res = Some cid" by (rule demo_edit_writes [OF t])
  have "sound (demo_store\<lparr>client_change_id := None\<rparr>)" using demo_sound by simp
  from set_field_effect [OF this demo_unused(1) t] show ?thesis unfolding t cid by auto
qed

text \<open>C19: when a setter succeeds. On a sound store, under no key or a new one, an edit of a column that no constraint
  ties to another (every one but owner, status and the session's end) succeeds exactly when the row exists
  and is of a kind that has the column, and either the value is the one already there, or every row it
  refers to is live and of a permitted kind and the value fits the column; the audit and the cascade never
  make it fail.\<close>

theorem set_field_succeeds_iff:
  assumes "sound s" "unused_key s" "free_column c" "c \<noteq> Account" "\<not> immutable (COLUMN_SPECS c)"
  shows "(\<exists>x. set_field_on_conn pol i v c key who why s = Inr x) \<longleftrightarrow>
    (\<exists>r :: inquiry. inquiries s i = Some r \<and> column_applies (iq_kind r) c
       \<and> (py_eq (iq_columns r c) (canonical_value c v)
          \<or> (validate_hook c (canonical_value c v) s = Inr () \<and> column_accepts c (canonical_value c v))))"
  using set_field_iff [OF assms] by (simp add: edit_admissible_def)

theorem set_field_succeeds_iff_witness:
  "(\<exists>x. set_field_on_conn undefined 4 (Some (VStr ''book'')) PaperPublicationType None ''me'' [] demo_store = Inr x)
   \<and> \<not> (\<exists>x. set_field_on_conn undefined 4 (Some (VStr ''poem'')) PaperPublicationType None ''me'' [] demo_store = Inr x)
   \<and> \<not> (\<exists>x. set_field_on_conn undefined 2 (Some (VStr ''book'')) PaperPublicationType None ''me'' [] demo_store = Inr x)"
proof -
  have c: "free_column PaperPublicationType" "PaperPublicationType \<noteq> Account" "\<not> immutable (COLUMN_SPECS PaperPublicationType)"
    by (simp_all add: free_column_def ColumnSpec_def)
  have strips: "strip ''book'' \<noteq> []" "strip ''poem'' \<noteq> []" by code_simp+
  have v: "canonical_value PaperPublicationType (Some (VStr ''book'')) = Some (VStr ''book'')"
    "canonical_value PaperPublicationType (Some (VStr ''poem'')) = Some (VStr ''poem'')"
    using strips by (simp_all add: canonical_value_def normalize_col_def empty_str_to_none_def)
  note iff = set_field_succeeds_iff [OF demo_sound demo_unused(2) c]
  show ?thesis
    unfolding iff v
    by (auto simp: demo_store_def demo_row_def demo_columns_def column_applies_def ColumnSpec_def validate_hook_def
        column_accepts_def typed_def column_check_def PUBLICATION_TYPES_def)
qed

text \<open>An edit made under a key happens once. When it wrote its change, that change is named by the key,
  and a retry under the same key by the same actor, whatever value it brings, returns the same change and
  leaves the store as the first attempt did.\<close>

theorem keyed_edit_replays:
  assumes "sound s" "client_change_id s = Some k" "k \<notin> change_ids s"
    and "set_field_on_conn pol i v c key who why s = Inr (t, Some cid)"
  shows "cid = k \<and> set_field_on_conn pol' i v' c key' who why' (t\<lparr>client_change_id := Some k\<rparr>) = Inr (t, Some k)"
proof -
  have ok: "store_ok s" "rows_ok s" using assms(1) by (simp_all add: sound_def)
  show ?thesis
  proof (rule set_field_cases [OF assms(4) ok])
    fix k' ch assume "client_change_id s = Some k'" "find_change k' s = Some ch"
    then show ?thesis using assms(2,3) by (auto dest: find_change_ids)
  next
    fix r cid' assume w: "Some cid = Some cid'" "wrote_field i c (canonical_value c v) key who why cid' s t"
      "client_change_id t = None" "client_change_id s = None \<or> client_change_id s = Some cid'"
    then have k: "cid' = k" using assms(2) by simp
    obtain ch where "find_change k t = Some ch" "actor ch = who" "subject_id ch = i" "change_kind ch = FieldEdited c"
      using wrote_field_find [OF w(2)] assms(3) unfolding k by blast
    then have "find_change k (t\<lparr>client_change_id := Some k\<rparr>) = Some ch \<and> actor ch = who \<and> subject_id ch = i
        \<and> change_kind ch = FieldEdited c" by (simp add: find_change_def)
    then have "unless_replayed i c who f (t\<lparr>client_change_id := Some k\<rparr>) = Inr (t, Some k)" for f
      using unless_replayed_again [of k "t\<lparr>client_change_id := Some k\<rparr>" ch who i c f] w(3) by simp
    then show ?thesis using w(1) k by (simp add: set_field_on_conn_def Let_def)
  qed simp_all
qed

theorem keyed_edit_replays_witness:
  "\<exists>t. demo_edit (Some 9) demo_store = Inr (t, Some 9)
     \<and> set_field_on_conn undefined 2 (Some (VStr ''other'')) Description None ''me'' [] (t\<lparr>client_change_id := Some 9\<rparr>)
         = Inr (t, Some 9)"
proof -
  obtain t res where t: "demo_edit (Some 9) demo_store = Inr (t, res)" by (rule demo_edit_ok)
  obtain cid where cid: "res = Some cid" by (rule demo_edit_writes [OF t])
  let ?s = "demo_store\<lparr>client_change_id := Some 9\<rparr>"
  have s: "sound ?s" "client_change_id ?s = Some 9" using demo_sound by simp_all
  have "9 \<notin> change_ids ?s" by (simp add: demo_store_def no_rows_def change_ids_def)
  note s = s this
  from keyed_edit_replays [OF s t [unfolded cid]] t cid show ?thesis by auto
qed

end
