(* ===== verification/Edit_Claims2.thy ===== *)
theory Edit_Claims2
  imports Edit_Claims
begin

text \<open>
  The properties of the compare-and-set transitions, the list entries, the work queue, and
  of the comparison the setters of JSON columns make.
\<close>

section \<open>Compare-and-set\<close>

text \<open>A compare-and-set of the owner excludes its rivals. It succeeds only while the row holds the
  expected owner; once it has written another owner, the row holds that one, and every further transition
  from the same expected owner, made without a key that replays, is refused.\<close>

theorem owner_transition_excludes:
  assumes "sound s" "unused_key s"
    and "transition_field i Owner None (=) (\<lambda>r. r) expected target key who why s = Inr (t, Some cid)"
    and "stored Owner target = target" "unused_key u" "inquiries u i = inquiries t i"
  shows "(\<exists>r q. inquiries s i = Some r \<and> iq_columns r Owner = expected \<and> inquiries t i = Some q
      \<and> iq_columns q = (iq_columns r)(Owner := target))
    \<and> transition_field i Owner None (=) (\<lambda>r. r) expected target' key' who' why' u = Inl ConflictError"
proof -
  have ok: "store_ok s" "rows_ok s" using assms(1) by (simp_all add: sound_def)
  obtain r where r: "inquiries s i = Some r" "iq_columns r Owner = expected" "target \<noteq> expected"
    and w: "wrote_field i Owner target key who why cid s t"
  proof (rule transition_cases [OF assms(3) ok])
    show "\<And>r u. r = Inr u \<Longrightarrow> r = Inr u" .
    show "stored Owner target = target \<or> (\<forall>v. target = Some v \<longrightarrow> \<not> column_check Owner v)" using assms(4) by simp
  qed (use assms(2) that in \<open>auto simp: unused_key_def dest: find_change_ids\<close>)
  obtain q where q: "inquiries t i = Some q" "iq_columns q = (iq_columns r)(Owner := target)"
    using w r(1) by (auto simp: wrote_field_def elim: column_written_row)
  have "transition_field i Owner None (=) (\<lambda>r. r) expected target' key' who' why' u = Inl ConflictError"
    using assms(5,6) q r(3) by (simp add: transition_field_def read_field_def)
  with r q show ?thesis by auto
qed

theorem owner_transition_excludes_witness:
  "\<exists>t cid q. transition_field 2 Owner None (=) (\<lambda>r. r) None (Some (VStr ''ann'')) None ''ann'' [] demo_store = Inr (t, Some cid)
     \<and> inquiries t 2 = Some q \<and> iq_columns q Owner = Some (VStr ''ann'')
     \<and> transition_field 2 Owner None (=) (\<lambda>r. r) None (Some (VStr ''bob'')) None ''bob'' []
         (t\<lparr>client_change_id := None\<rparr>) = Inl ConflictError"
proof -
  let ?w = "Some (VStr ''ann'')"
  have r: "inquiries demo_store 2 = Some (demo_row Issue 20)" "iq_kind (demo_row Issue 20) \<noteq> AgentSession"
    "iq_columns (demo_row Issue 20) Owner = None"
    by (simp_all add: demo_store_def demo_row_def demo_columns_def)
  have "strip ''ann'' \<noteq> []" by code_simp
  then have st: "stored Owner ?w = ?w" by (simp add: stored_def empty_str_to_none_def)
  obtain t cid where t: "transition_field 2 Owner None (=) (\<lambda>r. r) None ?w None ''ann'' [] demo_store = Inr (t, Some cid)"
    using transition_owner_writes [OF demo_sound demo_unused(2) r(1,2) _ st, of None "''ann''" "[]"] r(3)
    by (auto simp: typed_def)
  have "unused_key (t\<lparr>client_change_id := None\<rparr>)" by (simp add: unused_key_def)
  from owner_transition_excludes [OF demo_sound demo_unused(2) t st this, of "Some (VStr ''bob'')" None "''bob''" "[]"]
  show ?thesis using t by auto
qed

section \<open>List entries\<close>

text \<open>The entries of a list column, in their canonical form.\<close>

definition entries :: "column \<Rightarrow> inquiry \<Rightarrow> string list" where
  "entries c r = norm_items strs_shape c (items strs_shape (iq_columns r c))"

lemma norm_strs:
  "c \<in> {IssueKind, Labels, SessionRooms, Subscribers} \<Longrightarrow> norm_items strs_shape c xs = canonical_strs xs"
  "norm_items strs_shape PaperAuthors xs = byline_strs xs"
  by (auto simp: norm_items_def strs_shape_def normalize_col_def)

lemma items_listed [simp]: "items strs_shape (listed strs_shape c xs) = xs"
  by (simp add: listed_def strs_shape_def)

lemma byline_fixed: "\<forall>x \<in> set xs. x \<noteq> [] \<and> strip x = x \<Longrightarrow> byline_strs xs = xs"
  by (induction xs) (auto simp: byline_strs_def)

lemma byline_entries: "x \<in> set (byline_strs xs) \<Longrightarrow> x \<noteq> [] \<and> strip x = x"
  by (auto simp: byline_strs_def)

lemma remove1_split: "x \<in> set xs \<Longrightarrow> \<exists>a b. xs = a @ x # b \<and> x \<notin> set a \<and> remove1 x xs = a @ b"
  by (metis remove1_append remove1.simps(2) split_list_first)

lemma listed_entries:
  assumes c: "c \<in> {IssueKind, Labels, SessionRooms, Subscribers}"
    and y: "norm_items strs_shape c [x] = [y]" and ws: "ws = norm_items strs_shape c zs"
  shows "with_item False y ws = Some xs \<Longrightarrow> norm_items strs_shape c xs = xs \<and> set xs = insert y (set ws) \<and> y \<notin> set ws"
    and "without_item False y ws = Some xs \<Longrightarrow> norm_items strs_shape c xs = xs \<and> set xs = set ws - {y} \<and> y \<in> set ws"
proof -
  have cw: "canonical ws" by (simp add: ws norm_strs(1) [OF c])
  have yy: "y \<noteq> []" "strip y = y"
    using y canonical_canonical_strs [of "[x]"] by (auto simp: norm_strs(1) [OF c] canonical_def)
  show "with_item False y ws = Some xs \<Longrightarrow> norm_items strs_shape c xs = xs \<and> set xs = insert y (set ws) \<and> y \<notin> set ws"
    using canonical_snoc [OF cw] yy by (auto simp: with_item_def norm_strs(1) [OF c] canonical_strs_fixed split: if_splits)
  show "without_item False y ws = Some xs \<Longrightarrow> norm_items strs_shape c xs = xs \<and> set xs = set ws - {y} \<and> y \<in> set ws"
    using canonical_filter [OF cw] by (auto simp: without_item_def norm_strs(1) [OF c] canonical_strs_fixed split: if_splits)
qed

text \<open>What adding or removing one entry does. A labels, subscribers, rooms or issue-kind column is a
  set of stripped entries: the operation adds the entry or takes it away, and is a no-op exactly when there
  is nothing to change. A byline is a sequence: adding always appends, removing takes the first occurrence.\<close>

theorem list_edit_effect:
  assumes "sound s" "unused_key s"
    and "mutate_list_field_on_conn strs_shape i x c key who why inc check s = Inr (t, res)"
  shows "\<exists>r q y. inquiries s i = Some r \<and> inquiries t i = Some q \<and> norm_items strs_shape c [x] = [y]
    \<and> (c \<in> {IssueKind, Labels, SessionRooms, Subscribers} \<longrightarrow>
         set (entries c q) = (if inc then insert y (set (entries c r)) else set (entries c r) - {y})
       \<and> (res = None \<longleftrightarrow> inc = (y \<in> set (entries c r))) \<and> (res = None \<longrightarrow> t = s))
    \<and> (c = PaperAuthors \<longrightarrow>
         (if inc then entries c q = entries c r @ [y]
          else if y \<in> set (entries c r)
          then \<exists>a b. entries c r = a @ y # b \<and> y \<notin> set a \<and> entries c q = a @ b
          else t = s))"
proof -
  have ok: "store_ok s" "rows_ok s" using assms(1) by (simp_all add: sound_def)
  have not_byline: "\<not> is_byline (COLUMN_SPECS c)" if "c \<in> {IssueKind, Labels, SessionRooms, Subscribers}"
    using that by (auto simp: ColumnSpec_def)
  have byline: "is_byline (COLUMN_SPECS PaperAuthors)" by simp
  show ?thesis
  proof (rule mutate_list_cases [OF assms(3) ok shapes_ok(1)])
    fix k ch assume "client_change_id s = Some k" "find_change k s = Some ch"
    then show ?thesis using assms(2) by (auto simp: unused_key_def dest: find_change_ids)
  next
    fix r y assume r: "res = None" "t = s" "inquiries s i = Some r" "norm_items strs_shape c [x] = [y]"
      "(if inc then with_item else without_item) (is_byline (COLUMN_SPECS c)) y
         (norm_items strs_shape c (items strs_shape (iq_columns r c))) = None"
    then show ?thesis
      using not_byline byline
      by (intro exI [of _ r] exI [of _ y] conjI)
        (auto simp: entries_def with_item_def without_item_def split: if_splits)
  next
    fix r y xs cid assume r: "res = Some cid" "inquiries s i = Some r" "norm_items strs_shape c [x] = [y]"
      "(if inc then with_item else without_item) (is_byline (COLUMN_SPECS c)) y
         (norm_items strs_shape c (items strs_shape (iq_columns r c))) = Some xs"
      "wrote_field i c (listed strs_shape c xs) key who why cid s t"
    obtain q where q: "inquiries t i = Some q" "iq_columns q = (iq_columns r)(c := listed strs_shape c xs)"
      using r(2,5) by (auto simp: wrote_field_def elim: column_written_row)
    have eq: "entries c q = norm_items strs_shape c xs" by (simp add: entries_def q)
    have sets: "set (entries c q) = (if inc then insert y (set (entries c r)) else set (entries c r) - {y})
        \<and> (res = None \<longleftrightarrow> inc = (y \<in> set (entries c r)))"
      if c: "c \<in> {IssueKind, Labels, SessionRooms, Subscribers}"
    proof -
      have h: "(if inc then with_item else without_item) False y (entries c r) = Some xs"
        using r(4) not_byline [OF c] by (simp add: entries_def)
      have e: "entries c r = norm_items strs_shape c (items strs_shape (iq_columns r c))" by (simp add: entries_def)
      show ?thesis
      proof (cases inc)
        case True
        with listed_entries(1) [OF c r(3) e] h
        have "norm_items strs_shape c xs = xs" "set xs = insert y (set (entries c r))" "y \<notin> set (entries c r)" by simp_all
        with True r(1) show ?thesis by (simp add: eq)
      next
        case False
        with listed_entries(2) [OF c r(3) e] h
        have "norm_items strs_shape c xs = xs" "set xs = set (entries c r) - {y}" "y \<in> set (entries c r)" by simp_all
        with False r(1) show ?thesis by (simp add: eq)
      qed
    qed
    have seq: "if inc then entries c q = entries c r @ [y]
          else if y \<in> set (entries c r) then \<exists>a b. entries c r = a @ y # b \<and> y \<notin> set a \<and> entries c q = a @ b
          else t = s" if c: "c = PaperAuthors"
    proof -
      have y: "y \<noteq> []" "strip y = y" using r(3) byline_entries [of y "[x]"] by (simp_all add: c norm_strs)
      have e: "\<forall>z \<in> set (entries c r). z \<noteq> [] \<and> strip z = z"
        using byline_entries by (auto simp: entries_def c norm_strs)
      show ?thesis
      proof (cases inc)
        case True
        with r(4) have "xs = entries c r @ [y]" by (simp add: c with_item_def entries_def)
        with e y True show ?thesis by (simp add: eq) (simp add: c norm_strs byline_fixed)
      next
        case False
        with r(4) have xs: "xs = remove1 y (entries c r)" "y \<in> set (entries c r)"
          by (auto simp: c without_item_def entries_def split: if_splits)
        have "\<forall>z \<in> set xs. z \<noteq> [] \<and> strip z = z" using e xs(1) by (auto dest: set_mp [OF set_remove1_subset])
        then have "entries c q = xs" by (simp add: eq) (simp add: c norm_strs byline_fixed)
        with xs False remove1_split [OF xs(2)] show ?thesis by auto
      qed
    qed
    show ?thesis
      using r(1,2,3) q(1) sets seq by (intro exI [of _ r] exI [of _ q] exI [of _ y] conjI impI) simp_all
  qed
qed

text \<open>Adding an entry that is not there yet succeeds when the column takes the new list.\<close>

lemma list_edit_writes:
  assumes ok: "sound s" "unused_key s" and r: "inquiries s i = Some r" "column_applies (iq_kind r) c"
    and c: "free_column c" "\<not> immutable (COLUMN_SPECS c)" "c \<noteq> Account"
    and xs: "norm_items strs_shape c [x] = [y]"
      "with_item (is_byline (COLUMN_SPECS c)) y (norm_items strs_shape c (items strs_shape (iq_columns r c))) = Some xs"
      "column_accepts c (Some (VStrs xs))" "stored c (Some (VStrs xs)) = Some (VStrs xs)"
  shows "\<exists>t cid. mutate_list_field_on_conn strs_shape i x c key who why True no_check s = Inr (t, Some cid)"
proof -
  have rows: "rows_ok s" using ok(1) by (simp add: sound_def)
  obtain u where u: "update_field i c (Some (VStrs xs)) s = Inr u"
    using update_field_accepts [OF rows r c(1) xs(4)] c(2) xs(3) by blast
  then have p: "place_inquiry_row i (edited_row c (Some (VStrs xs)) (clock s) r) (s\<lparr>clock := Suc (clock s)\<rparr>) = Inr u"
    using r(1) by (simp add: update_field_Inr update_inquiry_row_def xs(4))
  have "\<exists>t cid subs. emit_field_change i (iq_kind r) c (iq_columns r c) (Some (VStrs xs)) key who why ex u = Inr (t, cid, subs)" for ex
    using placed_emit_total [OF ok r c(2) _ p] by simp
  then obtain t cid subs where
    e: "emit_field_change i (iq_kind r) c (iq_columns r c) (Some (VStrs xs)) key who why
         (extra_subscribers c (Some (wrap strs_shape (norm_items strs_shape c (items strs_shape (iq_columns r c)))))) u
        = Inr (t, cid, subs)" by blast
  have rd: "read_field i c (applies_to (COLUMN_SPECS c)) s = Inr (iq_columns r c, iq_kind r)"
    using r by (auto simp: read_field_def column_applies_def split: option.splits)
  have w: "wrap strs_shape xs = VStrs xs" by (simp add: strs_shape_def)
  show ?thesis
    using ok(2) rd xs(1,2) u e
    by (auto simp: mutate_list_field_on_conn_def write_items_def no_check_def check_conflict_def w Let_def)
qed

theorem list_edit_effect_witness:
  "\<exists>t cid q. mutate_list_field_on_conn strs_shape 2 '' bug'' Labels None ''me'' [] True no_check demo_store = Inr (t, Some cid)
     \<and> inquiries t 2 = Some q \<and> set (entries Labels q) = {''bug''}"
proof -
  let ?r = "demo_row Issue 20"
  have r: "inquiries demo_store 2 = Some ?r" "column_applies (iq_kind ?r) Labels" "iq_columns ?r Labels = None"
    by (simp_all add: demo_store_def demo_row_def demo_columns_def column_applies_def ColumnSpec_def)
  have n: "norm_items strs_shape Labels ['' bug''] = [''bug'']" by code_simp
  have c: "free_column Labels" "\<not> immutable (COLUMN_SPECS Labels)" "Labels \<noteq> Account"
    by (simp_all add: free_column_def ColumnSpec_def)
  have i: "norm_items strs_shape Labels (items strs_shape (iq_columns ?r Labels)) = []"
    unfolding r(3) by code_simp
  have w: "with_item (is_byline (COLUMN_SPECS Labels)) ''bug'' [] = Some [''bug'']"
    by (simp add: with_item_def)
  have v: "column_accepts Labels (Some (VStrs [''bug'']))" "stored Labels (Some (VStrs [''bug''])) = Some (VStrs [''bug''])"
    by (simp_all add: column_accepts_def typed_def column_check_def stored_def empty_list_to_none_def)
  obtain t cid where t: "mutate_list_field_on_conn strs_shape 2 '' bug'' Labels None ''me'' [] True no_check demo_store
      = Inr (t, Some cid)"
    using list_edit_writes [OF demo_sound demo_unused(2) r(1,2) c n _ v, of None "''me''" "[]"] w unfolding i by blast
  have "entries Labels ?r = []" using i by (simp add: entries_def)
  with list_edit_effect [OF demo_sound demo_unused(2) t] r(1) n
  show ?thesis using t by auto
qed

section \<open>The work queue\<close>

text \<open>C20: a claim takes the first issue. Under no key or a new one it always returns: nothing, and then no
  active, unowned, unlocked, unblocked issue that the claimant reads and nobody holds exists; or the
  one of them that no other precedes by priority and age, which it leaves owned by the claimant and out of
  reach of every later claim. With no rows held, it is the issue the queue shows next.\<close>

theorem claim_takes_first:
  assumes "sound s" "unused_key s" "strip owner \<noteq> []"
  shows "\<exists>t. claim_next_issue_on_conn reads held owner key who why s = Inr (t, claimable_issue reads held s)
    \<and> ((\<forall>j. \<not> held j) \<longrightarrow> claimable_issue reads held s = next_issue reads s)
    \<and> (case claimable_issue reads held s of
         None \<Rightarrow> t = s \<and> \<not> (\<exists>i. eligible s i \<and> reads i \<and> \<not> held i)
       | Some i \<Rightarrow> eligible s i \<and> reads i \<and> \<not> held i
           \<and> \<not> (\<exists>j. eligible s j \<and> reads j \<and> \<not> held j \<and> comes_before s j i)
           \<and> map_option iq_owner (inquiries t i) = Some (Some owner)
           \<and> (\<forall>reads' held'. claimable_issue reads' held' t \<noteq> Some i))"
proof -
  have ok: "store_ok s" "rows_ok s" using assms(1) by (simp_all add: sound_def)
  have listed: "i \<in> set (iq_ids s)" if "eligible s i" for i
    using eligible_row [OF that] ok(2) unfolding rows_ok_def by (metis option.distinct(1))
  show ?thesis
  proof (cases "claimable_issue reads held s")
    case None
    then have "claim_next_issue_on_conn reads held owner key who why s = Inr (s, None)"
      using assms(2) by (auto simp: claim_next_issue_on_conn_def replay_claim_def peek_client_change_id_def
          unused_key_def find_change_None [symmetric] split: option.splits)
    moreover have "(\<forall>j. \<not> held j) \<Longrightarrow> next_issue reads s = None"
      using None by (simp add: claimable_issue_def next_issue_def)
    moreover have "\<not> (\<exists>i. eligible s i \<and> reads i \<and> \<not> held i)"
      using None listed unfolding claimable_issue_def first_of_None filter_empty_conv by blast
    ultimately show ?thesis using None by simp
  next
    case (Some i)
    obtain t where t: "claim_next_issue_on_conn reads held owner key who why s = Inr (t, Some i)"
      using claim_writes [OF assms(1,2) Some] by blast
    obtain r q where q: "inquiries s i = Some r" "inquiries t i = Some q"
      "iq_columns q = (iq_columns r)(Owner \<mapsto> VStr owner)"
    proof (rule claim_cases [OF t ok assms(3)])
      fix j cid assume "Some i = Some j" "wrote_field j Owner (Some (VStr owner)) key who why cid s t"
      moreover obtain r :: inquiry where "inquiries s i = Some r"
        using eligible_row [OF claimable_props(1) [OF Some]] by blast
      ultimately show ?thesis using that by (auto simp: wrote_field_def elim: column_written_row)
    qed (use assms(2) in \<open>auto simp: unused_key_def\<close>)
    have "\<not> eligible t i" using q by (auto simp: eligible_def)
    then have "claimable_issue reads' held' t \<noteq> Some i" for reads' held' using claimable_props(1) by blast
    with t Some q claimable_props [OF Some] listed show ?thesis
      by (auto simp: claimable_issue_def next_issue_def iq_owner_def)
  qed
qed

theorem claim_takes_first_witness:
  "\<exists>t. claim_next_issue_on_conn (\<lambda>i. True) (\<lambda>i. i = 1) ''ann'' None ''ann'' [] demo_store = Inr (t, Some 2)
     \<and> map_option iq_owner (inquiries t 2) = Some (Some ''ann'')"
proof -
  have e: "eligible demo_store i \<longleftrightarrow> i \<in> {1, 2, 5}" for i
    by (auto simp: eligible_def demo_store_def no_rows_def demo_row_def demo_columns_def blocked_def skipped_def)
  have c: "claimable_issue (\<lambda>i. True) (\<lambda>i. i = 1) demo_store = Some 2"
    unfolding claimable_issue_def e
    by (simp add: demo_store_def demo_row_def demo_columns_def first_of_def comes_before_def priority_of_def created_of_def)
  have "strip ''ann'' \<noteq> []" by code_simp
  from claim_takes_first [OF demo_sound demo_unused(2) this, of "\<lambda>i. True" "\<lambda>i. i = 1" None "''ann''" "[]"] c
  show ?thesis by simp blast
qed

section \<open>JSON columns\<close>

text \<open>The setters compare a JSON value with Python's equality, in which true is one and one is 1.0: an edit
  that changes only that is dropped as no change, where the compare-and-set of the same column sees it.\<close>

theorem json_type_change_dropped:
  assumes "unused_key s" "inquiries s i = Some r" "iq_columns r App = Some (VJson (JObj [(n, JInt 1)]))"
  shows "set_field_on_conn pol i (Some (VJson (JObj [(n, JBool True)]))) App key who why s = Inr (s, None)
    \<and> \<not> same_json (as_json (iq_columns r App)) (Some (JObj [(n, JBool True)]))"
  using assms
  by (simp add: set_field_on_conn_def Let_def read_field_def canonical_value_def normalize_col_def
      sort_members_def same_json_def ColumnSpec_def on_account_def)

theorem json_type_change_dropped_witness:
  "set_field_on_conn undefined 2 (Some (VJson (JObj [(''n'', JBool True)]))) App None ''me'' []
     (demo_store\<lparr>inquiries := (inquiries demo_store)(2 \<mapsto>
        (demo_row Issue 20)\<lparr>iq_columns := demo_columns(App \<mapsto> VJson (JObj [(''n'', JInt 1)]))\<rparr>)\<rparr>)
   = Inr (demo_store\<lparr>inquiries := (inquiries demo_store)(2 \<mapsto>
        (demo_row Issue 20)\<lparr>iq_columns := demo_columns(App \<mapsto> VJson (JObj [(''n'', JInt 1)]))\<rparr>)\<rparr>, None)"
  (is "set_field_on_conn _ _ _ _ _ _ _ ?s = _")
proof -
  have "unused_key ?s" by (simp add: unused_key_def demo_store_def no_rows_def)
  from json_type_change_dropped [OF this, of 2 _ "''n''" undefined None "''me''" "[]"] show ?thesis by simp
qed

end
