(* ===== verification/Exec_Hub.thy ===== *)
theory Exec_Hub
  imports Prelude
begin

text \<open>
  \<open>server/execs.py\<close>: the hub that hands a command to a machine's host and carries its result
  back. An \<open>Exec\<close> object is in \<open>execs\<close> from the moment its caller queues it to the moment the
  caller leaves, so the other tables name it by its id. The two futures of a command are the
  fields \<open>taken\<close> and \<open>outcome\<close>; a held wait's future is \<open>None\<close> until it is set. Each coroutine is
  split at its awaits: \<open>result_taken\<close> and \<open>result_outcome\<close> are what a caller does when it
  resumes, \<open>wait_round\<close>, \<open>claim_answered\<close> and \<open>wait_resumed\<close> what a host's wait does. Times are exact
  rationals, in seconds of the hub's clock.
\<close>

section \<open>Limits\<close>

definition MAX_RUNNING_PER_MACHINE :: nat where "MAX_RUNNING_PER_MACHINE = 4"
definition MAX_EXECS_PER_MIN_PER_USER :: nat where "MAX_EXECS_PER_MIN_PER_USER = 60"
definition OFFER_TTL_SEC :: rat where "OFFER_TTL_SEC = 30"
definition RESULT_GRACE_SEC :: rat where "RESULT_GRACE_SEC = 15"

section \<open>Commands\<close>

type_synonym exec_id = nat
type_synonym exec_machine = nat

text \<open>\<open>ExecRequest\<close> and \<open>ExecResult\<close> of \<open>wire/wire_exec.py\<close>.\<close>

record exec_request =
  command_line :: string
  start_cwd :: string
  timeout_sec :: nat
  stdin_b64 :: "string option"
  env_vars :: "(string \<times> string) list option"

record exec_result =
  exit_code :: int
  stdout_b64 :: string
  stderr_b64 :: string
  end_cwd :: string
  truncated :: bool
  duration_ms :: nat

record submission =
  s_user :: string
  s_machine_id :: exec_machine
  s_machine :: string
  s_request :: exec_request

text \<open>\<open>outcome\<close> is \<open>Some None\<close> when the machine was revoked first.\<close>

record exec =
  x_id :: exec_id
  x_user :: string
  x_machine_id :: exec_machine
  x_machine :: string
  x_request :: exec_request
  taken :: bool
  outcome :: "exec_result option option"
  handed_at :: "rat option"

record mark =
  mark_machine :: exec_machine
  mark_until :: rat

text \<open>The argument is \<open>taken\<close>: whether the host was handed the command, so it may have run.\<close>

datatype exec_error =
    ExecBusyError | ExecLimitError | ExecRevokedError bool | ExecStaleError | ExecLostError bool

text \<open>\<open>MayHaveRun.error\<close>.\<close>

definition may_have_run_error :: "bool \<Rightarrow> exec_error" where
  "may_have_run_error revoked = (if revoked then ExecRevokedError True else ExecLostError True)"

record exec_hub =
  clock_now :: rat
  keep_sec :: rat
  execs :: "exec list"
  queued :: "exec_machine \<Rightarrow> exec_id list"
  holds :: "exec_machine \<Rightarrow> (nat \<times> bool option) list"
  starts :: "string \<Rightarrow> rat list"
  held :: "(exec_id \<times> mark) list"
  delivered :: "(exec_id \<times> mark) list"

definition ExecHub :: "rat \<Rightarrow> rat \<Rightarrow> exec_hub" where
  "ExecHub now keep =
     \<lparr>clock_now = now, keep_sec = keep, execs = [], queued = \<lambda>_. [], holds = \<lambda>_. [], starts = \<lambda>_. [],
      held = [], delivered = []\<rparr>"

definition find_exec :: "exec_id \<Rightarrow> exec_hub \<Rightarrow> exec option" where
  "find_exec i h = List.find (\<lambda>e. x_id e = i) (execs h)"

definition update_exec :: "exec_id \<Rightarrow> (exec \<Rightarrow> exec) \<Rightarrow> exec_hub \<Rightarrow> exec_hub" where
  "update_exec i f h = h\<lparr>execs := map (\<lambda>e. if x_id e = i then f e else e) (execs h)\<rparr>"

definition set_mark :: "exec_id \<Rightarrow> mark \<Rightarrow> (exec_id \<times> mark) list \<Rightarrow> (exec_id \<times> mark) list" where
  "set_mark i k ms = (i, k) # filter (\<lambda>x. fst x \<noteq> i) ms"

section \<open>Starting a command\<close>

definition sweep_marks :: "exec_hub \<Rightarrow> exec_hub" where
  "sweep_marks h =
     h\<lparr>held := filter (\<lambda>x. \<not> mark_until (snd x) \<le> clock_now h) (held h),
       delivered := filter (\<lambda>x. \<not> mark_until (snd x) \<le> clock_now h) (delivered h),
       starts := (\<lambda>u. dropWhile (\<lambda>a. clock_now h - a \<ge> 60) (starts h u))\<rparr>"

definition running :: "exec_machine \<Rightarrow> exec_hub \<Rightarrow> nat" where
  "running m h =
     length (filter (\<lambda>e. x_machine_id e = m) (execs h))
   + length (filter (\<lambda>x. mark_machine (snd x) = m) (held h))"

definition set_future :: "bool \<Rightarrow> nat \<times> bool option \<Rightarrow> nat \<times> bool option" where
  "set_future b w = (fst w, case snd w of None \<Rightarrow> Some b | Some r \<Rightarrow> Some r)"

definition new_exec :: "exec_id \<Rightarrow> submission \<Rightarrow> exec" where
  "new_exec i q =
     \<lparr>x_id = i, x_user = s_user q, x_machine_id = s_machine_id q, x_machine = s_machine q,
      x_request = s_request q, taken = False, outcome = None, handed_at = None\<rparr>"

definition queue_exec :: "exec_id \<Rightarrow> submission \<Rightarrow> exec_hub \<Rightarrow> exec_hub \<times> (exec_error + exec_id)" where
  "queue_exec i q h0 =
     (let h = sweep_marks h0; u = s_user q; m = s_machine_id q in
      if length (starts h u) \<ge> MAX_EXECS_PER_MIN_PER_USER then (h, Inl ExecLimitError)
      else if running m h \<ge> MAX_RUNNING_PER_MACHINE then (h, Inl ExecBusyError)
      else (h\<lparr>starts := (starts h)(u := starts h u @ [clock_now h]),
              execs := execs h @ [new_exec i q],
              queued := (queued h)(m := queued h m @ [i]),
              holds := (holds h)(m := map (set_future False) (holds h m))\<rparr>, Inr i))"

section \<open>The caller\<close>

text \<open>\<open>_until\<close> returns once the future is done or its sleep is over.\<close>

definition until_done :: "rat \<Rightarrow> bool \<Rightarrow> exec_hub \<Rightarrow> bool" where
  "until_done timer fut h \<longleftrightarrow> fut \<or> timer \<le> clock_now h"

definition result_timer :: "exec \<Rightarrow> exec_hub \<Rightarrow> rat" where
  "result_timer e h = clock_now h + (rat_of_nat (timeout_sec (x_request e)) + RESULT_GRACE_SEC)"

definition result_taken :: "exec \<Rightarrow> exec_hub \<Rightarrow> exec_error + rat" where
  "result_taken e h = (if \<not> taken e then Inl (ExecLostError False) else Inr (result_timer e h))"

definition result_outcome :: "exec \<Rightarrow> exec_error + exec_result" where
  "result_outcome e =
     (case outcome e of
        None \<Rightarrow> Inl (ExecLostError True)
      | Some None \<Rightarrow> Inl (ExecRevokedError (handed_at e \<noteq> None))
      | Some (Some r) \<Rightarrow> Inr r)"

definition release :: "exec \<Rightarrow> exec_hub \<Rightarrow> exec_hub" where
  "release e h0 =
     (let h = h0\<lparr>execs := filter (\<lambda>x. x_id x \<noteq> x_id e) (execs h0),
                 queued := (queued h0)(x_machine_id e := remove1 (x_id e) (queued h0 (x_machine_id e)))\<rparr>
      in case handed_at e of
           None \<Rightarrow> h
         | Some x \<Rightarrow>
             if outcome e \<noteq> None then h
             else
               let t = x + rat_of_nat (timeout_sec (x_request e)) + RESULT_GRACE_SEC in
               if clock_now h < t
               then h\<lparr>held := set_mark (x_id e) \<lparr>mark_machine = x_machine_id e, mark_until = t\<rparr> (held h)\<rparr>
               else h)"

section \<open>The host\<close>

text \<open>\<open>_take\<close>: commands whose caller has gone, or that a revocation ended, are skipped.\<close>

fun take_live :: "(exec_id \<Rightarrow> bool) \<Rightarrow> exec_id list \<Rightarrow> exec_id list \<times> exec_id option" where
  "take_live ok [] = ([], None)"
| "take_live ok (i # is) = (if ok i then (is, Some i) else take_live ok is)"

definition untaken :: "exec_hub \<Rightarrow> exec_id \<Rightarrow> bool" where
  "untaken h i \<longleftrightarrow> (case find_exec i h of None \<Rightarrow> False | Some e \<Rightarrow> \<not> taken e)"

definition take_exec :: "exec_machine \<Rightarrow> exec_hub \<Rightarrow> exec_hub \<times> exec_id option" where
  "take_exec m h =
     (let (is, found) = take_live (untaken h) (queued h m);
          h1 = h\<lparr>queued := (queued h)(m := is)\<rparr>
      in (case found of
            None \<Rightarrow> h1
          | Some i \<Rightarrow> update_exec i (\<lambda>e. e\<lparr>handed_at := Some (clock_now h), taken := True\<rparr>) h1,
          found))"

definition forget_waiter :: "exec_machine \<Rightarrow> nat \<Rightarrow> exec_hub \<Rightarrow> exec_hub" where
  "forget_waiter m w h = h\<lparr>holds := (holds h)(m := filter (\<lambda>x. fst x \<noteq> w) (holds h m))\<rparr>"

text \<open>
  A wait asks whether its host is current, is parked on its future, or ends. \<open>Asking last\<close> awaits
  \<open>is_current\<close>; \<open>last\<close> after the wait's time is up.
\<close>

datatype wait_stop = Got exec_id | Nothing | Raised exec_error | Asking bool | Parked

definition wait_park :: "exec_machine \<Rightarrow> rat \<Rightarrow> nat \<Rightarrow> exec_hub \<Rightarrow> exec_hub \<times> wait_stop" where
  "wait_park m deadline w h =
     (if deadline - clock_now h \<le> 0 then (h, Nothing)
      else (h\<lparr>holds := (holds h)(m := holds h m @ [(w, None)])\<rparr>, Parked))"

definition wait_round :: "exec_machine \<Rightarrow> rat \<Rightarrow> nat \<Rightarrow> exec_hub \<Rightarrow> exec_hub \<times> wait_stop" where
  "wait_round m deadline w h =
     (if queued h m = [] then wait_park m deadline w h else (h, Asking False))"

definition claim_answered ::
  "exec_machine \<Rightarrow> rat \<Rightarrow> nat \<Rightarrow> bool \<Rightarrow> bool \<Rightarrow> exec_hub \<Rightarrow> exec_hub \<times> wait_stop" where
  "claim_answered m deadline w final is_current h =
     (if \<not> is_current then (h, Raised ExecStaleError)
      else case take_exec m h of
        (h1, Some i) \<Rightarrow> (h1, Got i)
      | (h1, None) \<Rightarrow> if final then (h1, Nothing) else wait_park m deadline w h1)"

definition wait_resumed :: "exec_machine \<Rightarrow> rat \<Rightarrow> nat \<Rightarrow> exec_hub \<Rightarrow> exec_hub \<times> wait_stop" where
  "wait_resumed m deadline w h0 =
     (let h = forget_waiter m w h0 in
      case map_of (holds h0 m) w of
        Some (Some True) \<Rightarrow> (h, Raised (ExecRevokedError False))
      | Some (Some False) \<Rightarrow> wait_round m deadline w h
      | _ \<Rightarrow> if queued h m = [] then (h, Nothing) else (h, Asking True))"

definition wait_start :: "exec_machine \<Rightarrow> rat \<Rightarrow> nat \<Rightarrow> exec_hub \<Rightarrow> exec_hub \<times> wait_stop" where
  "wait_start m wait_sec w h = wait_round m (clock_now h + wait_sec) w h"

section \<open>Results and revocation\<close>

definition deliver_exec :: "exec_machine \<Rightarrow> exec_id \<Rightarrow> exec_result \<Rightarrow> exec_hub \<Rightarrow> exec_hub \<times> bool" where
  "deliver_exec m i r h0 =
     (let h = sweep_marks h0;
          accept = (\<lambda>k. (k\<lparr>delivered := set_mark i \<lparr>mark_machine = m, mark_until = clock_now h + keep_sec h\<rparr> (delivered k)\<rparr>, True))
      in if (case map_of (delivered h) i of None \<Rightarrow> False | Some k \<Rightarrow> mark_machine k = m) then (h, True)
         else case find_exec i h of
           Some e \<Rightarrow>
             if x_machine_id e \<noteq> m \<or> handed_at e = None \<or> outcome e \<noteq> None then (h, False)
             else accept (update_exec i (outcome_update (\<lambda>_. Some (Some r))) h)
         | None \<Rightarrow>
             if (case map_of (held h) i of None \<Rightarrow> False | Some k \<Rightarrow> mark_machine k = m)
             then accept (h\<lparr>held := filter (\<lambda>x. fst x \<noteq> i) (held h)\<rparr>)
             else (h, False))"

definition close_exec_machine :: "exec_machine \<Rightarrow> exec_hub \<Rightarrow> exec_hub" where
  "close_exec_machine m h =
     h\<lparr>execs := map (\<lambda>e. if x_machine_id e = m
          then e\<lparr>taken := True, outcome := (case outcome e of None \<Rightarrow> Some None | Some r \<Rightarrow> Some r)\<rparr> else e) (execs h),
       queued := (queued h)(m := []),
       held := filter (\<lambda>x. mark_machine (snd x) \<noteq> m) (held h),
       delivered := filter (\<lambda>x. mark_machine (snd x) \<noteq> m) (delivered h),
       holds := (holds h)(m := map (set_future True) (holds h m))\<rparr>"

end
