(* ===== verification/Exec_Machine.thy ===== *)
theory Exec_Machine
  imports Exec_Hub
begin

text \<open>
  The exec hub as one transition system: callers and host waits are coroutines whose place is part
  of the state, so that their awaits interleave with every other handler, with the passing of
  time and with tasks that are cancelled. The trace records what the outside sees: commands
  started, handed to a host, reported, and how each caller ended.
\<close>

datatype call = AwaitTaken rat | AwaitOutcome rat

record host_wait =
  w_machine :: exec_machine
  w_deadline :: rat
  w_stop :: wait_stop

datatype event =
    Started exec_id exec_machine nat
  | Handed exec_id exec_machine rat
  | Reported exec_machine exec_id exec_result bool
  | Ended exec_id "exec_error + exec_result"
  | CallerLeft exec_id
  | MachineClosed exec_machine
  | WaitEnded nat wait_stop

record exec_system =
  xhub :: exec_hub
  callers :: "exec_id \<Rightarrow> call option"
  waits :: "nat \<Rightarrow> host_wait option"
  trace :: "event list"

text \<open>A wait's coroutine runs to its next await, or ends.\<close>

definition settle :: "nat \<Rightarrow> exec_machine \<Rightarrow> rat \<Rightarrow> exec_hub \<times> wait_stop \<Rightarrow> exec_system \<Rightarrow> exec_system" where
  "settle w m d x s =
     (case snd x of
        Got i \<Rightarrow> s\<lparr>xhub := fst x, waits := (waits s)(w := None), trace := trace s @ [Handed i m (clock_now (fst x))]\<rparr>
      | Nothing \<Rightarrow> s\<lparr>xhub := fst x, waits := (waits s)(w := None), trace := trace s @ [WaitEnded w Nothing]\<rparr>
      | Raised e \<Rightarrow> s\<lparr>xhub := fst x, waits := (waits s)(w := None), trace := trace s @ [WaitEnded w (Raised e)]\<rparr>
      | stop \<Rightarrow> s\<lparr>xhub := fst x, waits := (waits s)(w \<mapsto> \<lparr>w_machine = m, w_deadline = d, w_stop = stop\<rparr>)\<rparr>)"

text \<open>A caller's coroutine ends: \<open>finally: self._release(found)\<close>.\<close>

definition leave :: "exec \<Rightarrow> event \<Rightarrow> exec_system \<Rightarrow> exec_system" where
  "leave e ev s =
     s\<lparr>xhub := release e (xhub s), callers := (callers s)(x_id e := None), trace := trace s @ [ev]\<rparr>"

definition start_ids :: "event list \<Rightarrow> exec_id set" where
  "start_ids tr = {i. \<exists>m t. Started i m t \<in> set tr}"

inductive exec_step :: "exec_system \<Rightarrow> exec_system \<Rightarrow> bool" where
  tick: "0 \<le> d \<Longrightarrow> exec_step s (s\<lparr>xhub := (xhub s)\<lparr>clock_now := clock_now (xhub s) + d\<rparr>\<rparr>)"
| started: "i \<notin> start_ids (trace s) \<Longrightarrow> queue_exec i q (xhub s) = (h, Inr i) \<Longrightarrow>
    exec_step s (s\<lparr>xhub := h, callers := (callers s)(i \<mapsto> AwaitTaken (clock_now h + OFFER_TTL_SEC)),
      trace := trace s @ [Started i (s_machine_id q) (timeout_sec (s_request q))]\<rparr>)"
| refused: "queue_exec i q (xhub s) = (h, Inl e) \<Longrightarrow> exec_step s (s\<lparr>xhub := h\<rparr>)"
| offered: "callers s i = Some (AwaitTaken d) \<Longrightarrow> find_exec i (xhub s) = Some e \<Longrightarrow>
    until_done d (taken e) (xhub s) \<Longrightarrow> result_taken e (xhub s) = Inr d' \<Longrightarrow>
    exec_step s (s\<lparr>callers := (callers s)(i \<mapsto> AwaitOutcome d')\<rparr>)"
| unoffered: "callers s i = Some (AwaitTaken d) \<Longrightarrow> find_exec i (xhub s) = Some e \<Longrightarrow>
    until_done d (taken e) (xhub s) \<Longrightarrow> result_taken e (xhub s) = Inl err \<Longrightarrow>
    exec_step s (leave e (Ended i (Inl err)) s)"
| answered: "callers s i = Some (AwaitOutcome d) \<Longrightarrow> find_exec i (xhub s) = Some e \<Longrightarrow>
    until_done d (outcome e \<noteq> None) (xhub s) \<Longrightarrow>
    exec_step s (leave e (Ended i (result_outcome e)) s)"
| caller_left: "callers s i \<noteq> None \<Longrightarrow> find_exec i (xhub s) = Some e \<Longrightarrow>
    exec_step s (leave e (CallerLeft i) s)"
| wait_began: "waits s w = None \<Longrightarrow>
    exec_step s (settle w m (clock_now (xhub s) + sec) (wait_start m sec w (xhub s)) s)"
| wait_claimed: "waits s w = Some \<lparr>w_machine = m, w_deadline = d, w_stop = Asking final\<rparr> \<Longrightarrow>
    exec_step s (settle w m d (claim_answered m d w final is_current (xhub s)) s)"
| wait_woke: "waits s w = Some \<lparr>w_machine = m, w_deadline = d, w_stop = Parked\<rparr> \<Longrightarrow>
    until_done d (map_of (holds (xhub s) m) w \<noteq> Some None) (xhub s) \<Longrightarrow>
    exec_step s (settle w m d (wait_resumed m d w (xhub s)) s)"
| wait_left: "waits s w = Some x \<Longrightarrow>
    exec_step s (s\<lparr>xhub := forget_waiter (w_machine x) w (xhub s), waits := (waits s)(w := None)\<rparr>)"
| delivered: "deliver_exec m i r (xhub s) = (h, ok) \<Longrightarrow>
    exec_step s (s\<lparr>xhub := h, trace := trace s @ [Reported m i r ok]\<rparr>)"
| closed: "exec_step s (s\<lparr>xhub := close_exec_machine m (xhub s), trace := trace s @ [MachineClosed m]\<rparr>)"

definition exec_start :: "exec_system \<Rightarrow> bool" where
  "exec_start s \<longleftrightarrow> (\<exists>t k. 0 \<le> k \<and> s = \<lparr>xhub = ExecHub t k, callers = \<lambda>_. None, waits = \<lambda>_. None, trace = []\<rparr>)"

section \<open>What a step changes\<close>

text \<open>
  The steps that neither start, hand out, report nor end a command: at most marks that have run out
  are forgotten, a queue of commands nobody can take is dropped, and a caller whose command was
  taken goes on to wait for its outcome.
\<close>

definition inert :: "exec_system \<Rightarrow> exec_system \<Rightarrow> bool" where
  "inert s t \<longleftrightarrow>
     execs (xhub t) = execs (xhub s)
   \<and> clock_now (xhub s) \<le> clock_now (xhub t) \<and> keep_sec (xhub t) = keep_sec (xhub s)
   \<and> (\<forall>m. queued (xhub t) m = queued (xhub s) m
          \<or> queued (xhub t) m = [] \<and> (\<forall>i \<in> set (queued (xhub s) m). \<not> untaken (xhub s) i))
   \<and> (held (xhub t) = held (xhub s) \<or> held (xhub t) = filter (\<lambda>x. \<not> mark_until (snd x) \<le> clock_now (xhub t)) (held (xhub s)))
   \<and> dom (callers t) = dom (callers s)
   \<and> (\<forall>i p. callers t i = Some p \<longrightarrow>
        callers s i = Some p
        \<or> (\<exists>e. find_exec i (xhub s) = Some e \<and> taken e \<and> p = AwaitOutcome (result_timer e (xhub t))))
   \<and> (\<exists>es. trace t = trace s @ es \<and> (\<forall>ev \<in> set es. \<exists>w x. ev = WaitEnded w x))"

definition left_with :: "exec_system \<Rightarrow> exec \<Rightarrow> event \<Rightarrow> bool" where
  "left_with s e ev \<longleftrightarrow>
     find_exec (x_id e) (xhub s) = Some e \<and> callers s (x_id e) \<noteq> None
   \<and> (ev = CallerLeft (x_id e)
      \<or> (\<not> taken e \<and> ev = Ended (x_id e) (Inl (ExecLostError False)))
      \<or> (\<exists>d. callers s (x_id e) = Some (AwaitOutcome d) \<and> ev = Ended (x_id e) (result_outcome e)))"

lemma take_live_None: "take_live ok is = (js, None) \<longleftrightarrow> js = [] \<and> (\<forall>i \<in> set is. \<not> ok i)"
  by (induction "is") auto

lemma take_live_Some:
  "take_live ok is = (js, Some i) \<Longrightarrow> ok i \<and> (\<exists>a. is = a @ i # js \<and> (\<forall>j \<in> set a. \<not> ok j))"
proof (induction "is")
  case (Cons j "is")
  then show ?case
    by (cases "ok j") (auto intro: exI [of _ "[]"] exI [of _ "j # _"])
qed simp

lemma take_exec_None:
  "take_exec m h = (k, None) \<longleftrightarrow>
     (\<forall>i \<in> set (queued h m). \<not> untaken h i) \<and> k = h\<lparr>queued := (queued h)(m := [])\<rparr>"
proof -
  obtain js r where l: "take_live (untaken h) (queued h m) = (js, r)" by force
  then show ?thesis
    using take_live_None [of "untaken h" "queued h m"] l
    by (cases r) (auto simp: take_exec_def)
qed

lemma untaken_state [simp]:
  "untaken (h\<lparr>queued := q\<rparr>) = untaken h" "untaken (h\<lparr>holds := hs\<rparr>) = untaken h"
  by (simp_all add: untaken_def find_exec_def fun_eq_iff)

lemma find_exec_Some: "find_exec i h = Some e \<Longrightarrow> e \<in> set (execs h) \<and> x_id e = i"
  by (auto simp: find_exec_def dest: find_Some_iff_mem)

definition idle :: "exec_hub \<Rightarrow> exec_hub \<Rightarrow> bool" where
  "idle h k \<longleftrightarrow>
     execs k = execs h \<and> clock_now k = clock_now h \<and> keep_sec k = keep_sec h \<and> held k = held h
   \<and> (\<forall>m. queued k m = queued h m \<or> queued k m = [] \<and> (\<forall>i \<in> set (queued h m). \<not> untaken h i))"

lemma idle_holds [simp]: "idle h h" "idle h (h\<lparr>holds := hs\<rparr>)" "idle h (forget_waiter m w h)"
  by (simp_all add: idle_def forget_waiter_def)

lemma wait_park_idle:
  "wait_park m d w h = (k, x) \<Longrightarrow> idle h k \<and> (x = Nothing \<or> x = Parked) \<and> (\<exists>hs. k = h\<lparr>holds := hs\<rparr>)"
  by (auto simp: wait_park_def split: if_splits intro: exI [of _ "holds h"])

lemma wait_round_idle: "wait_round m d w h = (k, x) \<Longrightarrow> idle h k \<and> (\<forall>i. x \<noteq> Got i)"
  by (auto simp: wait_round_def dest: wait_park_idle split: if_splits)

lemma forget_waiter_sel [simp]:
  "execs (forget_waiter m w h) = execs h" "clock_now (forget_waiter m w h) = clock_now h"
  "keep_sec (forget_waiter m w h) = keep_sec h" "held (forget_waiter m w h) = held h"
  "queued (forget_waiter m w h) = queued h" "delivered (forget_waiter m w h) = delivered h"
  by (simp_all add: forget_waiter_def)

lemma untaken_forget [simp]: "untaken (forget_waiter m w h) = untaken h"
  by (simp add: untaken_def find_exec_def fun_eq_iff)

lemma wait_resumed_idle:
  assumes "wait_resumed m d w h = (k, x)"
  shows "idle h k \<and> (\<forall>i. x \<noteq> Got i)"
proof -
  have "idle h k" if "wait_round m d w (forget_waiter m w h) = (k, x)"
    using wait_round_idle [OF that] by (simp add: idle_def)
  with assms show ?thesis
    by (auto simp: wait_resumed_def Let_def dest: wait_round_idle split: option.splits bool.splits if_splits)
qed

lemma claim_answered_cases:
  assumes "claim_answered m d w final cur h = (k, x)"
  obtains (idle) "idle h k" "\<forall>i. x \<noteq> Got i" | (got) i where "x = Got i" "take_exec m h = (k, Some i)"
proof (cases "take_exec m h")
  case (Pair h1 r)
  show ?thesis
  proof (cases r)
    case None
    then have q: "\<forall>i \<in> set (queued h m). \<not> untaken h i" "h1 = h\<lparr>queued := (queued h)(m := [])\<rparr>"
      using Pair by (simp_all add: take_exec_None)
    have "idle h k" if "wait_park m d w h1 = (k, x)"
      using wait_park_idle [OF that] q by (elim conjE exE) (simp add: idle_def)
    moreover have "idle h h1" using q by (simp add: idle_def)
    ultimately show ?thesis
      using assms Pair None wait_park_idle [of m d w h1 k x]
      by (intro that(1)) (auto simp: claim_answered_def split: if_splits)
  next
    case (Some i)
    with assms Pair show ?thesis by (cases cur) (auto intro: that simp: claim_answered_def)
  qed
qed

lemma settle_inert:
  assumes "idle (xhub s) k" "\<forall>i. x \<noteq> Got i"
  shows "inert s (settle w m d (k, x) s)"
  using assms by (cases x) (auto simp: settle_def inert_def idle_def)

lemma settle_got:
  "settle w m d (k, Got i) s = s\<lparr>xhub := k, waits := (waits s)(w := None), trace := trace s @ [Handed i m (clock_now k)]\<rparr>"
  by (simp add: settle_def)

lemma queue_refused:
  assumes "queue_exec i q h = (k, Inl e)"
  shows "k = sweep_marks h"
  using assms by (auto simp: queue_exec_def Let_def split: if_splits)

lemma exec_step_cases [consumes 1, case_names inert started left got reported closed]:
  assumes "exec_step s t"
  obtains "inert s t"
  | i q h where "i \<notin> start_ids (trace s)" "queue_exec i q (xhub s) = (h, Inr i)"
      "t = s\<lparr>xhub := h, callers := (callers s)(i \<mapsto> AwaitTaken (clock_now h + OFFER_TTL_SEC)),
        trace := trace s @ [Started i (s_machine_id q) (timeout_sec (s_request q))]\<rparr>"
  | e ev where "left_with s e ev" "t = leave e ev s"
  | w m i k where "take_exec m (xhub s) = (k, Some i)"
      "t = s\<lparr>xhub := k, waits := (waits s)(w := None), trace := trace s @ [Handed i m (clock_now k)]\<rparr>"
  | m i r h ok where "deliver_exec m i r (xhub s) = (h, ok)"
      "t = s\<lparr>xhub := h, trace := trace s @ [Reported m i r ok]\<rparr>"
  | m where "t = s\<lparr>xhub := close_exec_machine m (xhub s), trace := trace s @ [MachineClosed m]\<rparr>"
  using assms
proof cases
  case (tick d)
  then show ?thesis by (intro that(1)) (simp add: inert_def)
next
  case (started i q h)
  then show ?thesis by (intro that(2))
next
  case (refused i q h e)
  then have "h = sweep_marks (xhub s)" by (auto dest: queue_refused)
  with refused(1) show ?thesis by (intro that(1)) (simp add: inert_def sweep_marks_def)
next
  case (offered i d e d')
  then show ?thesis
    by (intro that(1)) (auto simp: inert_def result_taken_def split: if_splits)
next
  case (unoffered i d e err)
  then have "left_with s e (Ended i (Inl err))"
    by (auto simp: left_with_def result_taken_def dest: find_exec_Some split: if_splits)
  with unoffered(1) show ?thesis by (rule_tac that(3))
next
  case (answered i d e)
  then have "left_with s e (Ended i (result_outcome e))" by (auto simp: left_with_def dest: find_exec_Some)
  with answered(1) show ?thesis by (rule_tac that(3))
next
  case (caller_left i e)
  then have "left_with s e (CallerLeft i)" by (auto simp: left_with_def dest: find_exec_Some)
  with caller_left(1) show ?thesis by (rule_tac that(3))
next
  case (wait_began w m sec)
  have "inert s t"
    unfolding wait_began by (cases "wait_start m sec w (xhub s)")
      (use wait_round_idle in \<open>force simp: wait_start_def intro: settle_inert\<close>)
  then show ?thesis by (rule that(1))
next
  case (wait_claimed w m d final is_current)
  obtain k x where k: "claim_answered m d w final is_current (xhub s) = (k, x)" by force
  then show ?thesis
  proof (cases rule: claim_answered_cases)
    case idle
    then show ?thesis using wait_claimed k by (intro that(1)) (simp add: settle_inert)
  next
    case (got i)
    then show ?thesis using wait_claimed k by (intro that(4)) (simp_all add: settle_got)
  qed
next
  case (wait_woke w m d)
  obtain k x where "wait_resumed m d w (xhub s) = (k, x)" by force
  with wait_woke wait_resumed_idle [OF this] show ?thesis by (intro that(1)) (simp add: settle_inert)
next
  case (wait_left w x)
  then show ?thesis by (intro that(1)) (simp add: inert_def)
next
  case (delivered m i r h ok)
  then show ?thesis by (intro that(5))
next
  case (closed m)
  then show ?thesis by (intro that(6))
qed

end
