(* ===== verification/Exec_Invariants.thy ===== *)
theory Exec_Invariants
  imports Exec_Machine
begin

text \<open>
  The invariants of the exec hub: which ids are live, that a command is handed out once and its
  caller is told the truth about it, that a machine runs no more commands than its limit, and that
  no host sleeps while a command waits for it.
\<close>

section \<open>Ids\<close>

abbreviation hub_ids :: "exec_system \<Rightarrow> exec_id set" where
  "hub_ids s \<equiv> x_id ` set (execs (xhub s))"

definition ids_ok :: "exec_system \<Rightarrow> bool" where
  "ids_ok s \<longleftrightarrow> distinct (map x_id (execs (xhub s))) \<and> hub_ids s = dom (callers s)
   \<and> (\<forall>e \<in> set (execs (xhub s)). Started (x_id e) (x_machine_id e) (timeout_sec (x_request e)) \<in> set (trace s))
   \<and> (\<forall>i m n m' n'. Started i m n \<in> set (trace s) \<longrightarrow> Started i m' n' \<in> set (trace s) \<longrightarrow> m = m' \<and> n = n')
   \<and> (\<forall>i m t. Handed i m t \<in> set (trace s) \<longrightarrow> i \<in> start_ids (trace s))
   \<and> (\<forall>i ev. ev \<in> set (trace s) \<longrightarrow> ev = CallerLeft i \<or> (\<exists>r. ev = Ended i r) \<longrightarrow>
        i \<in> start_ids (trace s) \<and> callers s i = None)"

lemma start_ids_append [simp]: "start_ids (a @ b) = start_ids a \<union> start_ids b"
  by (auto simp: start_ids_def)

lemma start_ids_single [simp]:
  "start_ids [] = {}" "start_ids [Started i m n] = {i}" "start_ids [Handed i m t] = {}" "start_ids [Reported m i r b] = {}"
  "start_ids [Ended i x] = {}" "start_ids [CallerLeft i] = {}" "start_ids [MachineClosed m] = {}" "start_ids [WaitEnded w y] = {}"
  by (auto simp: start_ids_def)

lemma start_idsI: "Started i m n \<in> set tr \<Longrightarrow> i \<in> start_ids tr"
  by (auto simp: start_ids_def)

lemma start_ids_waits: "\<forall>ev \<in> set es. \<exists>w x. ev = WaitEnded w x \<Longrightarrow> start_ids es = {}"
  by (auto simp: start_ids_def)

lemma find_exec_mem:
  "distinct (map x_id (execs h)) \<Longrightarrow> e \<in> set (execs h) \<Longrightarrow> find_exec (x_id e) h = Some e"
  by (auto simp: find_exec_def find_Some_iff distinct_map in_set_conv_nth nth_eq_iff_index_eq inj_on_def)
    (metis nth_eq_iff_index_eq nth_mem less_irrefl order.strict_trans)

lemma ids_okD:
  assumes "ids_ok s"
  shows "distinct (map x_id (execs (xhub s)))" "hub_ids s = dom (callers s)"
    "e \<in> set (execs (xhub s)) \<Longrightarrow> Started (x_id e) (x_machine_id e) (timeout_sec (x_request e)) \<in> set (trace s)"
    "Started i m n \<in> set (trace s) \<Longrightarrow> Started i m' n' \<in> set (trace s) \<Longrightarrow> m = m' \<and> n = n'"
    "Handed i m t \<in> set (trace s) \<Longrightarrow> i \<in> start_ids (trace s)"
    "Ended i r \<in> set (trace s) \<Longrightarrow> callers s i = None"
  using assms unfolding ids_ok_def by blast+

lemma release_sel [simp]:
  "execs (release e h) = filter (\<lambda>x. x_id x \<noteq> x_id e) (execs h)"
  "queued (release e h) = (queued h)(x_machine_id e := remove1 (x_id e) (queued h (x_machine_id e)))"
  "clock_now (release e h) = clock_now h" "keep_sec (release e h) = keep_sec h" "holds (release e h) = holds h"
  by (simp_all add: release_def Let_def split: option.splits)

lemma queue_execE:
  assumes "queue_exec i q h = (k, Inr j)"
  shows "j = i" "running (s_machine_id q) (sweep_marks h) < MAX_RUNNING_PER_MACHINE"
    "k = (sweep_marks h)\<lparr>starts := (starts (sweep_marks h))(s_user q := starts (sweep_marks h) (s_user q) @ [clock_now h]),
       execs := execs h @ [new_exec i q],
       queued := (queued h)(s_machine_id q := queued h (s_machine_id q) @ [i]),
       holds := (holds h)(s_machine_id q := map (set_future False) (holds h (s_machine_id q)))\<rparr>"
  using assms by (auto simp: queue_exec_def Let_def sweep_marks_def split: if_splits)

lemma take_execE:
  assumes "take_exec m h = (k, Some i)"
  obtains a b where "queued h m = a @ i # b" "untaken h i"
    "k = update_exec i (\<lambda>e. e\<lparr>handed_at := Some (clock_now h), taken := True\<rparr>) (h\<lparr>queued := (queued h)(m := b)\<rparr>)"
proof -
  obtain js r where l: "take_live (untaken h) (queued h m) = (js, r)" by force
  with assms have r: "r = Some i" by (cases r) (auto simp: take_exec_def)
  from take_live_Some [OF l [unfolded r]] obtain a where "queued h m = a @ i # js" "untaken h i" by blast
  with assms l r show ?thesis by (intro that) (auto simp: take_exec_def)
qed

lemma update_exec_sel [simp]:
  "execs (update_exec i f h) = map (\<lambda>e. if x_id e = i then f e else e) (execs h)"
  "queued (update_exec i f h) = queued h" "clock_now (update_exec i f h) = clock_now h"
  "keep_sec (update_exec i f h) = keep_sec h" "holds (update_exec i f h) = holds h" "held (update_exec i f h) = held h"
  by (simp_all add: update_exec_def)

lemma sweep_marks_sel [simp]:
  "execs (sweep_marks h) = execs h" "queued (sweep_marks h) = queued h" "clock_now (sweep_marks h) = clock_now h"
  "keep_sec (sweep_marks h) = keep_sec h" "holds (sweep_marks h) = holds h"
  "held (sweep_marks h) = filter (\<lambda>x. \<not> mark_until (snd x) \<le> clock_now h) (held h)"
  by (simp_all add: sweep_marks_def)

text \<open>What a report does, on each branch.\<close>

lemma deliver_cases:
  assumes "deliver_exec m i r h = (k, ok)"
  obtains (refused) "k = sweep_marks h" "\<not> ok"
  | (again) x where "k = sweep_marks h" "ok" "map_of (delivered (sweep_marks h)) i = Some x" "mark_machine x = m"
  | (answered) e d where "ok" "find_exec i h = Some e" "x_machine_id e = m" "handed_at e \<noteq> None" "outcome e = None"
      "k = (update_exec i (outcome_update (\<lambda>_. Some (Some r))) (sweep_marks h))\<lparr>delivered := d\<rparr>"
  | (late) x d where "ok" "find_exec i h = None" "map_of (held (sweep_marks h)) i = Some x" "mark_machine x = m"
      "k = (sweep_marks h)\<lparr>held := filter (\<lambda>x. fst x \<noteq> i) (held (sweep_marks h)), delivered := d\<rparr>"
proof -
  have f: "find_exec i (sweep_marks h) = find_exec i h" by (simp add: find_exec_def)
  consider x where "map_of (delivered (sweep_marks h)) i = Some x" "mark_machine x = m"
    | "\<not> (case map_of (delivered (sweep_marks h)) i of None \<Rightarrow> False | Some k \<Rightarrow> mark_machine k = m)"
    by (cases "map_of (delivered (sweep_marks h)) i") auto
  then show ?thesis
  proof cases
    case 1
    with assms show ?thesis by (intro again) (simp_all add: deliver_exec_def Let_def)
  next
    case 2
    show ?thesis
    proof (cases "find_exec i h")
      case (Some e)
      show ?thesis
      proof (cases "x_machine_id e \<noteq> m \<or> handed_at e = None \<or> outcome e \<noteq> None")
        case True
        with assms 2 Some show ?thesis by (intro refused) (simp_all add: deliver_exec_def Let_def f)
      next
        case False
        with assms 2 Some show ?thesis
          by (intro answered [of e]) (auto simp: deliver_exec_def Let_def f update_exec_def)
      qed
    next
      case None
      show ?thesis
      proof (cases "case map_of (held (sweep_marks h)) i of None \<Rightarrow> False | Some k \<Rightarrow> mark_machine k = m")
        case True
        then obtain x where "map_of (held (sweep_marks h)) i = Some x" "mark_machine x = m"
          by (cases "map_of (held (sweep_marks h)) i") auto
        with assms 2 None show ?thesis
          by (intro late [of x]) (auto simp: deliver_exec_def Let_def f)
      next
        case False
        with assms 2 None show ?thesis by (intro refused) (simp_all add: deliver_exec_def Let_def f)
      qed
    qed
  qed
qed

text \<open>What never changes of a command.\<close>

definition fixed :: "exec \<Rightarrow> exec_id \<times> exec_machine \<times> exec_request" where
  "fixed e = (x_id e, x_machine_id e, x_request e)"

lemma fixed_simps [simp]:
  "fixed (e\<lparr>taken := b\<rparr>) = fixed e" "fixed (e\<lparr>outcome := x\<rparr>) = fixed e" "fixed (e\<lparr>handed_at := y\<rparr>) = fixed e"
  by (simp_all add: fixed_def)

lemma fixed_ids: "map fixed es = map fixed fs \<Longrightarrow> map x_id es = map x_id fs"
  by (drule arg_cong [where f = "map fst"]) (simp add: fixed_def comp_def)

lemma fixed_mem:
  assumes "map fixed es = map fixed fs" "e \<in> set es"
  obtains f where "f \<in> set fs" "x_id f = x_id e" "x_machine_id f = x_machine_id e" "x_request f = x_request e"
proof -
  have "fixed e \<in> fixed ` set fs" using assms by (metis image_eqI image_set)
  then show ?thesis using that by (auto simp: fixed_def)
qed

lemma fixed_update [simp]: "(\<And>e. fixed (f e) = fixed e) \<Longrightarrow> map fixed (execs (update_exec i f h)) = map fixed (execs h)"
  by simp

lemma deliver_fixed: "deliver_exec m i r h = (k, ok) \<Longrightarrow> map fixed (execs k) = map fixed (execs h)"
  by (erule deliver_cases) simp_all

lemma close_fixed [simp]: "map fixed (execs (close_exec_machine m h)) = map fixed (execs h)"
  by (simp add: close_exec_machine_def)

definition quiet :: "event \<Rightarrow> bool" where
  "quiet ev \<longleftrightarrow> (case ev of Started i m n \<Rightarrow> False | Ended i r \<Rightarrow> False | CallerLeft i \<Rightarrow> False | _ \<Rightarrow> True)"

lemma ids_ok_quiet:
  assumes ok: "ids_ok s" and f: "map fixed (execs (xhub t)) = map fixed (execs (xhub s))"
    and c: "dom (callers t) = dom (callers s)" and tr: "trace t = trace s @ es" "\<forall>ev \<in> set es. quiet ev"
    and h: "\<And>i m x. Handed i m x \<in> set es \<Longrightarrow> i \<in> hub_ids s"
  shows "ids_ok t"
proof -
  note ids = fixed_ids [OF f]
  have hub: "hub_ids t = hub_ids s" using arg_cong [OF ids, of set] by simp
  have known: "i \<in> start_ids (trace s)" if "i \<in> hub_ids s" for i
    using ids_okD(3) [OF ok] that start_idsI by blast
  have gone: "callers t i = None" if "callers s i = None" for i using c that by auto
  show ?thesis
    unfolding ids_ok_def
  proof (intro conjI ballI allI impI)
    show "distinct (map x_id (execs (xhub t)))" "hub_ids t = dom (callers t)"
      using ids_okD(1,2) [OF ok] ids hub c by simp_all
    show "Started (x_id e) (x_machine_id e) (timeout_sec (x_request e)) \<in> set (trace t)" if "e \<in> set (execs (xhub t))" for e
      using fixed_mem [OF f that] ids_okD(3) [OF ok] tr(1) by (metis UnCI set_append)
    show "i \<in> start_ids (trace t)" if "Handed i m x \<in> set (trace t)" for i m x
      using that ids_okD(5) [OF ok] h known by (auto simp: tr(1))
    fix i m n m' n' assume "Started i m n \<in> set (trace t)" "Started i m' n' \<in> set (trace t)"
    then show "m = m'" "n = n'" using ids_okD(4) [OF ok] tr(2) by (auto simp: tr(1) quiet_def)
  next
    fix i ev assume "ev \<in> set (trace t)" "ev = CallerLeft i \<or> (\<exists>r. ev = Ended i r)"
    then have "ev \<in> set (trace s)" using tr by (auto simp: quiet_def)
    with \<open>ev = CallerLeft i \<or> (\<exists>r. ev = Ended i r)\<close> ok
    have "i \<in> start_ids (trace s)" "callers s i = None" unfolding ids_ok_def by blast+
    then show "i \<in> start_ids (trace t)" "callers t i = None" using gone by (simp_all add: tr(1))
  qed
qed

lemma untaken_mem: "untaken h i \<longleftrightarrow> (\<exists>e. find_exec i h = Some e \<and> \<not> taken e)"
  by (simp add: untaken_def split: option.split)

lemma take_exec_fixed:
  assumes "take_exec m h = (k, Some i)"
  shows "map fixed (execs k) = map fixed (execs h)" "i \<in> x_id ` set (execs h)" "clock_now k = clock_now h"
    "keep_sec k = keep_sec h" "held k = held h" "holds k = holds h"
  by (rule take_execE [OF assms], use find_exec_Some in \<open>force simp: untaken_mem\<close>)+

lemma ids_ok_step:
  assumes step: "exec_step s t" and ok: "ids_ok s"
  shows "ids_ok t"
  using step
proof (cases rule: exec_step_cases)
  case inert
  then obtain es where es: "trace t = trace s @ es" "\<forall>ev \<in> set es. \<exists>w x. ev = WaitEnded w x" by (auto simp: inert_def)
  show ?thesis by (rule ids_ok_quiet [OF ok _ _ es(1)]) (use inert es(2) in \<open>force simp: inert_def quiet_def\<close>)+
next
  case (started i q h)
  note q = queue_execE [OF started(2)]
  have e: "execs h = execs (xhub s) @ [new_exec i q]" by (simp add: q(3))
  have "hub_ids s \<subseteq> start_ids (trace s)" using ids_okD(3) [OF ok] by (auto intro: start_idsI)
  then have new: "i \<notin> hub_ids s" using started(1) by blast
  have k: "ev \<in> set (trace t) \<longleftrightarrow> ev = Started i (s_machine_id q) (timeout_sec (s_request q)) \<or> ev \<in> set (trace s)" for ev
    by (auto simp: started(3))
  have ids: "start_ids (trace t) = insert i (start_ids (trace s))" by (simp add: started(3))
  have hub: "execs (xhub t) = execs (xhub s) @ [new_exec i q]" "callers t = (callers s)(i \<mapsto> AwaitTaken (clock_now h + OFFER_TTL_SEC))"
    by (simp_all add: started(3) e)
  have nx: "x_id (new_exec i q) = i" "x_machine_id (new_exec i q) = s_machine_id q" "x_request (new_exec i q) = s_request q"
    by (simp_all add: new_exec_def)
  have fresh: "Started i m n \<notin> set (trace s)" for m n using started(1) start_idsI by blast
  show ?thesis
    unfolding ids_ok_def
  proof (intro conjI ballI allI impI)
    show "distinct (map x_id (execs (xhub t)))" using ids_okD(1) [OF ok] new(1) by (simp add: hub nx)
    show "hub_ids t = dom (callers t)" using ids_okD(2) [OF ok] by (simp add: hub nx)
    show "Started (x_id f) (x_machine_id f) (timeout_sec (x_request f)) \<in> set (trace t)" if "f \<in> set (execs (xhub t))" for f
      using that ids_okD(3) [OF ok] by (auto simp: hub k nx)
    show "j \<in> start_ids (trace t)" if "Handed j m x \<in> set (trace t)" for j m x
      using that ids_okD(5) [OF ok] by (auto simp: k ids)
    show "m = m'" "n = n'" if "Started j m n \<in> set (trace t)" "Started j m' n' \<in> set (trace t)" for j m n m' n'
      using that ids_okD(4) [OF ok] fresh by (auto simp: k)
  next
    fix j ev assume j: "ev \<in> set (trace t)" "ev = CallerLeft j \<or> (\<exists>r. ev = Ended j r)"
    then have "ev \<in> set (trace s)" by (auto simp: k)
    with j(2) ok have "j \<in> start_ids (trace s)" "callers s j = None" unfolding ids_ok_def by blast+
    with started(1) show "j \<in> start_ids (trace t)" "callers t j = None" by (auto simp: ids hub)
  qed
next
  case (left e ev)
  then have e: "e \<in> set (execs (xhub s))" by (auto simp: left_with_def dest: find_exec_Some)
  have ev: "ev = CallerLeft (x_id e) \<or> (\<exists>r. ev = Ended (x_id e) r)" using left(1) by (auto simp: left_with_def)
  have known: "x_id e \<in> start_ids (trace s)" using ids_okD(3) [OF ok e] by (rule start_idsI)
  have f: "i \<in> start_ids (trace s) \<and> callers s i = None"
    if "v \<in> set (trace s)" "v = CallerLeft i \<or> (\<exists>r. v = Ended i r)" for i v
    using ok that unfolding ids_ok_def by blast
  have st: "start_ids [ev] = {}" using ev by auto
  have k: "v \<in> set (trace t) \<longleftrightarrow> v = ev \<or> v \<in> set (trace s)" for v by (auto simp: left(2) leave_def)
  have ids: "start_ids (trace t) = start_ids (trace s)" by (simp add: left(2) leave_def st)
  have hub: "execs (xhub t) = filter (\<lambda>x. x_id x \<noteq> x_id e) (execs (xhub s))" "callers t = (callers s)(x_id e := None)"
    by (simp_all add: left(2) leave_def)
  show ?thesis
    unfolding ids_ok_def
  proof (intro conjI ballI allI impI)
    show "distinct (map x_id (execs (xhub t)))" using ids_okD(1) [OF ok] by (simp add: hub distinct_map_filter)
    show "hub_ids t = dom (callers t)" using ids_okD(2) [OF ok] by (auto simp: hub)
    show "Started (x_id f) (x_machine_id f) (timeout_sec (x_request f)) \<in> set (trace t)" if "f \<in> set (execs (xhub t))" for f
      using that ids_okD(3) [OF ok] by (auto simp: hub k)
    show "j \<in> start_ids (trace t)" if "Handed j m x \<in> set (trace t)" for j m x
      using that ids_okD(5) [OF ok] ev by (auto simp: k ids)
    show "m = m'" "n = n'" if "Started j m n \<in> set (trace t)" "Started j m' n' \<in> set (trace t)" for j m n m' n'
      using that ids_okD(4) [OF ok] ev by (auto simp: k)
    show "j \<in> start_ids (trace t)" "callers t j = None"
      if "v \<in> set (trace t)" "v = CallerLeft j \<or> (\<exists>r. v = Ended j r)" for j v
      using that f [of v j] ev known by (auto simp: k ids hub)
  qed
next
  case (got w m i k)
  note k = take_exec_fixed [OF got(1)]
  show ?thesis
    by (rule ids_ok_quiet [OF ok, where es = "[Handed i m (clock_now k)]"]) (use k in \<open>simp_all add: got(2) quiet_def\<close>)
next
  case (reported m i r h ok')
  show ?thesis
    by (rule ids_ok_quiet [OF ok, where es = "[Reported m i r ok']"])
      (use deliver_fixed [OF reported(1)] in \<open>simp_all add: reported(2) quiet_def\<close>)
next
  case (closed m)
  show ?thesis
    by (rule ids_ok_quiet [OF ok, where es = "[MachineClosed m]"]) (simp_all add: closed(1) quiet_def)
qed

end
