(* ===== verification/Exec_Safety.thy ===== *)
theory Exec_Safety
  imports Exec_Invariants
begin

text \<open>
  A command is handed out at most once, to a host of its own machine, and its caller is told the
  truth about whether it may have run.
\<close>

section \<open>The queue\<close>

lemma in_set_remove1D: "i \<in> set (remove1 j is) \<Longrightarrow> i \<in> set is"
  by (metis notin_set_remove1)

definition queue_ok :: "exec_system \<Rightarrow> bool" where
  "queue_ok s \<longleftrightarrow> (\<forall>m. distinct (queued (xhub s) m)
     \<and> (\<forall>i \<in> set (queued (xhub s) m). \<exists>e \<in> set (execs (xhub s)). x_id e = i \<and> x_machine_id e = m))"

lemma queue_ok_fixed:
  assumes "queue_ok s" "map fixed (execs (xhub t)) = map fixed (execs (xhub s))"
    and "\<And>m. distinct (queued (xhub t) m) \<and> set (queued (xhub t) m) \<subseteq> set (queued (xhub s) m)"
  shows "queue_ok t"
  unfolding queue_ok_def
proof (intro allI conjI ballI)
  fix m i assume "i \<in> set (queued (xhub t) m)"
  then obtain e where e: "e \<in> set (execs (xhub s))" "x_id e = i" "x_machine_id e = m"
    using assms(1,3) unfolding queue_ok_def by blast
  obtain f where "f \<in> set (execs (xhub t))" "x_id f = x_id e" "x_machine_id f = x_machine_id e"
    by (rule fixed_mem [OF assms(2) [symmetric] e(1)])
  with e show "\<exists>e \<in> set (execs (xhub t)). x_id e = i \<and> x_machine_id e = m" by auto
qed (use assms(3) in blast)

lemma exec_queue_ok_step:
  assumes step: "exec_step s t" and ids: "ids_ok s" and ok: "queue_ok s"
  shows "queue_ok t"
proof -
  have q: "distinct (queued (xhub s) m)" for m using ok by (simp add: queue_ok_def)
  from step show ?thesis
  proof (cases rule: exec_step_cases)
    case inert
    then have "execs (xhub t) = execs (xhub s)" "queued (xhub t) m = queued (xhub s) m \<or> queued (xhub t) m = []" for m
      by (auto simp: inert_def)
    then show ?thesis using q by (intro queue_ok_fixed [OF ok]) (metis distinct.simps(1) empty_subsetI order_refl set_empty2)+
  next
    case (started i q h)
    note k = queue_execE [OF started(2)]
    have "hub_ids s \<subseteq> start_ids (trace s)" using ids_okD(3) [OF ids] by (auto intro: start_idsI)
    moreover have "set (queued (xhub s) m) \<subseteq> hub_ids s" for m using ok unfolding queue_ok_def by fast
    ultimately have "i \<notin> set (queued (xhub s) m)" for m using started(1) by (meson subsetD)
    moreover have "execs (xhub t) = execs (xhub s) @ [new_exec i q]"
      "queued (xhub t) = (queued (xhub s))(s_machine_id q := queued (xhub s) (s_machine_id q) @ [i])"
      by (simp_all add: started(3) k(3))
    moreover have "x_id (new_exec i q) = i" "x_machine_id (new_exec i q) = s_machine_id q"
      by (simp_all add: new_exec_def)
    ultimately show ?thesis using ok by (simp add: queue_ok_def)
  next
    case (left e ev)
    have e: "e \<in> set (execs (xhub s))" using left(1) by (auto simp: left_with_def dest: find_exec_Some)
    show ?thesis
      unfolding queue_ok_def
    proof (intro allI conjI ballI)
      show "distinct (queued (xhub t) m)" for m using q by (simp add: left(2) leave_def)
      fix m i assume i: "i \<in> set (queued (xhub t) m)"
      then have "i \<in> set (queued (xhub s) m)" by (auto simp: left(2) leave_def split: if_splits dest: in_set_remove1D)
      then obtain f where f: "f \<in> set (execs (xhub s))" "x_id f = i" "x_machine_id f = m"
        using ok unfolding queue_ok_def by blast
      have "i \<noteq> x_id e"
      proof
        assume "i = x_id e"
        then have "f = e" using f(1,2) e find_exec_mem [OF ids_okD(1) [OF ids]] by (metis option.inject)
        then show False using i f q [of m] by (simp add: left(2) leave_def split: if_splits)
      qed
      with f show "\<exists>e \<in> set (execs (xhub t)). x_id e = i \<and> x_machine_id e = m"
        by (auto simp: left(2) leave_def)
    qed
  next
    case (got w m i k)
    note f = take_exec_fixed [OF got(1)]
    obtain a b where "queued (xhub s) m = a @ i # b" "queued k = (queued (xhub s))(m := b)"
      by (rule take_execE [OF got(1)]) (simp add: that)
    then show ?thesis using q [of m] q f(1) by (intro queue_ok_fixed [OF ok]) (auto simp: got(2))
  next
    case (reported m i r h ok')
    have "queued h = queued (xhub s)" by (rule deliver_cases [OF reported(1)]) simp_all
    then show ?thesis using q deliver_fixed [OF reported(1)] by (intro queue_ok_fixed [OF ok]) (simp_all add: reported(2))
  next
    case (closed m)
    then show ?thesis using q by (intro queue_ok_fixed [OF ok]) (simp_all add: close_exec_machine_def)
  qed
qed

section \<open>Handing out\<close>

fun handed_ids :: "event list \<Rightarrow> exec_id list" where
  "handed_ids [] = []"
| "handed_ids (Handed i m t # es) = i # handed_ids es"
| "handed_ids (ev # es) = handed_ids es"

lemma handed_ids_append [simp]: "handed_ids (a @ b) = handed_ids a @ handed_ids b"
  by (induction a rule: handed_ids.induct) simp_all

lemma set_handed_ids: "i \<in> set (handed_ids tr) \<longleftrightarrow> (\<exists>m x. Handed i m x \<in> set tr)"
  by (induction tr rule: handed_ids.induct) auto

lemma handed_ids_waits: "\<forall>ev \<in> set es. \<exists>w x. ev = WaitEnded w x \<Longrightarrow> handed_ids es = []"
  by (induction es rule: handed_ids.induct) auto

definition exec_fine :: "event list \<Rightarrow> exec \<Rightarrow> bool" where
  "exec_fine tr e \<longleftrightarrow>
     (\<forall>m x. Handed (x_id e) m x \<in> set tr \<longleftrightarrow> m = x_machine_id e \<and> handed_at e = Some x)
   \<and> (handed_at e \<noteq> None \<or> outcome e \<noteq> None \<longrightarrow> taken e)
   \<and> (taken e \<and> handed_at e = None \<longrightarrow> outcome e = Some None)
   \<and> (\<forall>r. outcome e = Some (Some r) \<longrightarrow>
        handed_at e \<noteq> None \<and> Reported (x_machine_id e) (x_id e) r True \<in> set tr)"

lemma exec_fine_append:
  assumes "exec_fine tr e" "x_id e \<notin> set (handed_ids es)"
  shows "exec_fine (tr @ es) e"
proof -
  have n: "Handed (x_id e) m x \<notin> set es" for m x using assms(2) unfolding set_handed_ids by blast
  show ?thesis using assms(1) n unfolding exec_fine_def set_append Un_iff by blast
qed

lemma exec_fine_reported:
  assumes "exec_fine tr e" "handed_at e \<noteq> None" "Reported (x_machine_id e) (x_id e) r True \<in> set tr"
  shows "exec_fine tr (e\<lparr>outcome := Some (Some r)\<rparr>)"
  using assms unfolding exec_fine_def by (simp; blast)

lemma exec_fine_closed:
  assumes "exec_fine tr e"
  shows "exec_fine tr (e\<lparr>taken := True, outcome := (case outcome e of None \<Rightarrow> Some None | Some r \<Rightarrow> Some r)\<rparr>)"
    (is "exec_fine tr ?f")
proof -
  have sel: "x_id ?f = x_id e" "x_machine_id ?f = x_machine_id e" "handed_at ?f = handed_at e" "taken ?f = True"
    by simp_all
  have out: "outcome ?f = Some (Some r) \<longleftrightarrow> outcome e = Some (Some r)"
    "outcome ?f = Some None \<longleftrightarrow> outcome e = Some None \<or> outcome e = None" for r
    by (cases "outcome e"; simp)+
  show ?thesis using assms unfolding exec_fine_def sel out by (cases "outcome e") blast+
qed

definition handed_ok :: "exec_system \<Rightarrow> bool" where
  "handed_ok s \<longleftrightarrow> (\<forall>e \<in> set (execs (xhub s)). exec_fine (trace s) e)
   \<and> distinct (handed_ids (trace s))
   \<and> (\<forall>i m x m' n. Handed i m x \<in> set (trace s) \<longrightarrow> Started i m' n \<in> set (trace s) \<longrightarrow> m = m')
   \<and> (\<forall>i d. callers s i = Some (AwaitOutcome d) \<longrightarrow> (\<exists>e. find_exec i (xhub s) = Some e \<and> taken e))"

lemma handed_okD:
  assumes "handed_ok s"
  shows "e \<in> set (execs (xhub s)) \<Longrightarrow> exec_fine (trace s) e" "distinct (handed_ids (trace s))"
    "Handed i m x \<in> set (trace s) \<Longrightarrow> Started i m' n \<in> set (trace s) \<Longrightarrow> m = m'"
    "callers s i = Some (AwaitOutcome d) \<Longrightarrow> \<exists>e. find_exec i (xhub s) = Some e \<and> taken e"
  using assms unfolding handed_ok_def by blast+

lemma find_exec_map:
  "(\<And>e. x_id (f e) = x_id e) \<Longrightarrow> List.find (\<lambda>e. x_id e = i) (map f es) = map_option f (List.find (\<lambda>e. x_id e = i) es)"
  by (induction es) auto

lemma find_exec_execs: "find_exec i h = List.find (\<lambda>e. x_id e = i) (execs h)"
  by (simp add: find_exec_def)

lemma find_update [simp]:
  "(\<And>e. x_id (f e) = x_id e) \<Longrightarrow>
     find_exec j (update_exec i f h) = map_option (\<lambda>e. if x_id e = i then f e else e) (find_exec j h)"
  by (simp add: find_exec_execs find_exec_map)

lemma find_filter: "i \<noteq> j \<Longrightarrow> List.find (\<lambda>e. x_id e = i) (filter (\<lambda>x. x_id x \<noteq> j) es) = List.find (\<lambda>e. x_id e = i) es"
  by (induction es) auto

lemma find_snoc: "List.find P (xs @ [x]) = (case List.find P xs of None \<Rightarrow> if P x then Some x else None | Some y \<Rightarrow> Some y)"
  by (induction xs) auto

lemma handed_ok_step:
  assumes step: "exec_step s t" and ids: "ids_ok s" and q: "queue_ok s" and ok: "handed_ok s"
  shows "handed_ok t"
proof -
  note fine = handed_okD(1) [OF ok]
  have grow: "handed_ok t" if "trace t = trace s @ es" "handed_ids es = []" "\<forall>ev \<in> set es. quiet ev"
    "\<And>f. f \<in> set (execs (xhub t)) \<Longrightarrow> exec_fine (trace t) f"
    "\<And>i d. callers t i = Some (AwaitOutcome d) \<Longrightarrow> \<exists>e. find_exec i (xhub t) = Some e \<and> taken e" for es
    unfolding handed_ok_def
  proof (intro conjI ballI allI impI)
    show "m = m'" if "Handed i m x \<in> set (trace t)" "Started i m' n \<in> set (trace t)" for i m x m' n
      using that handed_okD(3) [OF ok] \<open>handed_ids es = []\<close> \<open>\<forall>ev \<in> set es. quiet ev\<close> set_handed_ids [of i es]
      by (auto simp: \<open>trace t = trace s @ es\<close> quiet_def)
  qed (use that handed_okD(2) [OF ok] in simp_all)
  show ?thesis
    using step
  proof (cases rule: exec_step_cases)
    case inert
    then obtain es where es: "trace t = trace s @ es" "\<forall>ev \<in> set es. \<exists>w x. ev = WaitEnded w x" by (auto simp: inert_def)
    note none = handed_ids_waits [OF es(2)]
    have x: "execs (xhub t) = execs (xhub s)" using inert by (simp add: inert_def)
    show ?thesis
    proof (rule grow [OF es(1) none])
      show "\<forall>ev \<in> set es. quiet ev" using es(2) by (auto simp: quiet_def)
      show "exec_fine (trace t) f" if "f \<in> set (execs (xhub t))" for f
        using fine that x none exec_fine_append by (simp add: es(1))
      show "\<exists>e. find_exec i (xhub t) = Some e \<and> taken e" if "callers t i = Some (AwaitOutcome d)" for i d
        using that inert handed_okD(4) [OF ok] unfolding inert_def by (metis find_exec_execs)
    qed
  next
    case (started i q h)
    note k = queue_execE [OF started(2)]
    have new: "Handed i m x \<notin> set (trace s)" for m x using started(1) ids_okD(5) [OF ids] by blast
    have hub: "execs (xhub t) = execs (xhub s) @ [new_exec i q]" by (simp add: started(3) k(3))
    show ?thesis
      unfolding handed_ok_def
    proof (intro conjI ballI allI impI)
      show "exec_fine (trace t) f" if "f \<in> set (execs (xhub t))" for f
      proof (cases "f = new_exec i q")
        case True
        then show ?thesis using new by (auto simp: exec_fine_def new_exec_def started(3))
      next
        case False
        then have "f \<in> set (execs (xhub s))" using that by (simp add: hub)
        then show ?thesis using fine by (simp add: started(3) exec_fine_append)
      qed
      show "distinct (handed_ids (trace t))" using handed_okD(2) [OF ok] by (simp add: started(3))
      show "m = m'" if "Handed j m x \<in> set (trace t)" "Started j m' n \<in> set (trace t)" for j m x m' n
        using that new handed_okD(3) [OF ok] by (auto simp: started(3))
      show "\<exists>e. find_exec j (xhub t) = Some e \<and> taken e" if "callers t j = Some (AwaitOutcome d)" for j d
      proof -
        have "callers s j = Some (AwaitOutcome d)" using that by (auto simp: started(3) split: if_splits)
        then show ?thesis using handed_okD(4) [OF ok] by (fastforce simp: find_exec_execs hub find_snoc)
      qed
    qed
  next
    case (left e ev)
    have ev: "handed_ids [ev] = []" "\<forall>m n. ev \<noteq> Started i m n" for i using left(1) by (auto simp: left_with_def)
    have tr: "trace t = trace s @ [ev]" by (simp add: left(2) leave_def)
    have hub: "execs (xhub t) = filter (\<lambda>x. x_id x \<noteq> x_id e) (execs (xhub s))" by (simp add: left(2) leave_def)
    show ?thesis
      unfolding handed_ok_def
    proof (intro conjI ballI allI impI)
      show "exec_fine (trace t) f" if "f \<in> set (execs (xhub t))" for f
        using that fine ev(1) by (simp add: hub tr exec_fine_append)
      show "distinct (handed_ids (trace t))" using handed_okD(2) [OF ok] ev(1) by (simp add: tr)
      show "m = m'" if "Handed j m x \<in> set (trace t)" "Started j m' n \<in> set (trace t)" for j m x m' n
        using that ev set_handed_ids [of j "[ev]"] handed_okD(3) [OF ok] by (auto simp: tr)
      show "\<exists>f. find_exec j (xhub t) = Some f \<and> taken f" if "callers t j = Some (AwaitOutcome d)" for j d
      proof -
        have "j \<noteq> x_id e" "callers s j = Some (AwaitOutcome d)" using that by (auto simp: left(2) leave_def split: if_splits)
        then show ?thesis using handed_okD(4) [OF ok] by (fastforce simp: find_exec_execs hub find_filter)
      qed
    qed
  next
    case (got w m i k)
    obtain a b where b: "queued (xhub s) m = a @ i # b" "untaken (xhub s) i"
      and k: "k = update_exec i (\<lambda>e. e\<lparr>handed_at := Some (clock_now (xhub s)), taken := True\<rparr>) ((xhub s)\<lparr>queued := (queued (xhub s))(m := b)\<rparr>)"
      by (rule take_execE [OF got(1)])
    have clk: "clock_now k = clock_now (xhub s)" by (simp add: k)
    obtain e where e: "find_exec i (xhub s) = Some e" "\<not> taken e" using b(2) by (auto simp: untaken_mem)
    note em = find_exec_Some [OF e(1)]
    have m: "x_machine_id e = m"
      using q b(1) em find_exec_mem [OF ids_okD(1) [OF ids]] unfolding queue_ok_def
      by (metis e(1) in_set_conv_decomp option.inject)
    have none: "handed_at e = None" "outcome e = None" using fine [of e] em e(2) by (auto simp: exec_fine_def)
    have new: "Handed i m' x \<notin> set (trace s)" for m' x using fine [of e] em none by (auto simp: exec_fine_def)
    have tr: "trace t = trace s @ [Handed i m (clock_now k)]" by (simp add: got(2))
    show ?thesis
      unfolding handed_ok_def
    proof (intro conjI ballI allI impI)
      fix f assume "f \<in> set (execs (xhub t))"
      then obtain g where g: "g \<in> set (execs (xhub s))"
        "f = (if x_id g = i then g\<lparr>handed_at := Some (clock_now (xhub s)), taken := True\<rparr> else g)"
        by (auto simp: got(2) k)
      show "exec_fine (trace t) f"
      proof (cases "x_id g = i")
        case True
        then have "g = e" using g(1) em find_exec_mem [OF ids_okD(1) [OF ids]] by (metis e(1) option.inject)
        then show ?thesis using g(2) m none new em by (auto simp: exec_fine_def tr clk)
      next
        case False
        then show ?thesis using g fine [of g] by (simp add: tr exec_fine_append)
      qed
    next
      show "distinct (handed_ids (trace t))"
        using handed_okD(2) [OF ok] new set_handed_ids [of i "trace s"] by (simp add: tr)
      show "m1 = m2" if "Handed j m1 x \<in> set (trace t)" "Started j m2 n \<in> set (trace t)" for j m1 x m2 n
        using that handed_okD(3) [OF ok] ids_okD(3) [OF ids, of e] ids_okD(4) [OF ids] em m by (auto simp: tr)
      show "\<exists>e. find_exec j (xhub t) = Some e \<and> taken e" if "callers t j = Some (AwaitOutcome d)" for j d
      proof -
        have "callers s j = Some (AwaitOutcome d)" using that by (simp add: got(2))
        then obtain f where "find_exec j (xhub s) = Some f" "taken f" using handed_okD(4) [OF ok] by blast
        then show ?thesis by (simp add: got(2) k find_exec_execs find_exec_map)
      qed
    qed
  next
    case (reported m i r h ok')
    have tr: "trace t = trace s @ [Reported m i r ok']" by (simp add: reported(2))
    have "\<forall>f \<in> set (execs h). \<exists>g \<in> set (execs (xhub s)). (f = g \<or> (f = g\<lparr>outcome := Some (Some r)\<rparr> \<and> x_id g = i
        \<and> x_machine_id g = m \<and> handed_at g \<noteq> None \<and> ok'))"
    proof (rule deliver_cases [OF reported(1)])
      fix e d assume "ok'" "find_exec i (xhub s) = Some e" "x_machine_id e = m" "handed_at e \<noteq> None"
        "h = (update_exec i (outcome_update (\<lambda>_. Some (Some r))) (sweep_marks (xhub s)))\<lparr>delivered := d\<rparr>"
      then show ?thesis
        using find_exec_mem [OF ids_okD(1) [OF ids]] by (auto split: if_splits)
    qed auto
    note src = this
    have tk: "\<exists>e. find_exec j h = Some e \<and> taken e" if j: "find_exec j (xhub s) = Some f" "taken f" for j f
    proof (rule deliver_cases [OF reported(1)])
      fix e d assume "h = (update_exec i (outcome_update (\<lambda>_. Some (Some r))) (sweep_marks (xhub s)))\<lparr>delivered := d\<rparr>"
      then show ?thesis using j by (simp add: find_exec_execs find_exec_map)
    qed (use j in \<open>simp_all add: find_exec_execs\<close>)
    show ?thesis
    proof (rule grow [OF tr])
      show "exec_fine (trace t) f" if "f \<in> set (execs (xhub t))" for f
      proof -
        obtain g where g: "g \<in> set (execs (xhub s))" "f = g \<or> (f = g\<lparr>outcome := Some (Some r)\<rparr> \<and> x_id g = i
            \<and> x_machine_id g = m \<and> handed_at g \<noteq> None \<and> ok')"
          using src \<open>f \<in> set (execs (xhub t))\<close> by (auto simp: reported(2))
        have fg: "exec_fine (trace t) g" using fine [OF g(1)] by (simp add: tr exec_fine_append)
        from g(2) show ?thesis
        proof
          assume "f = g"
          with fg show ?thesis by simp
        next
          assume k: "f = g\<lparr>outcome := Some (Some r)\<rparr> \<and> x_id g = i \<and> x_machine_id g = m \<and> handed_at g \<noteq> None \<and> ok'"
          then have "Reported (x_machine_id g) (x_id g) r True \<in> set (trace t)" by (simp add: tr)
          with k exec_fine_reported [OF fg] show ?thesis by simp
        qed
      qed
      show "\<exists>e. find_exec j (xhub t) = Some e \<and> taken e" if "callers t j = Some (AwaitOutcome d)" for j d
        using handed_okD(4) [OF ok, of j d] that tk by (auto simp: reported(2))
    qed (simp_all add: quiet_def)
  next
    case (closed m)
    have tr: "trace t = trace s @ [MachineClosed m]" by (simp add: closed)
    let ?f = "\<lambda>e. if x_machine_id e = m
          then e\<lparr>taken := True, outcome := (case outcome e of None \<Rightarrow> Some None | Some r \<Rightarrow> Some r)\<rparr> else e"
    have hub: "execs (xhub t) = map ?f (execs (xhub s))" by (simp add: closed close_exec_machine_def)
    show ?thesis
    proof (rule grow [OF tr])
      show "exec_fine (trace t) f" if f: "f \<in> set (execs (xhub t))" for f
      proof -
        obtain g where g: "g \<in> set (execs (xhub s))" "f = ?f g" using f by (auto simp: hub)
        have "exec_fine (trace t) g" using fine [OF g(1)] by (simp add: tr exec_fine_append)
        then show ?thesis using exec_fine_closed by (simp add: g(2))
      qed
      show "\<exists>e. find_exec j (xhub t) = Some e \<and> taken e" if "callers t j = Some (AwaitOutcome d)" for j d
      proof -
        have "callers s j = Some (AwaitOutcome d)" using that by (simp add: closed)
        then obtain f where "find_exec j (xhub s) = Some f" "taken f" using handed_okD(4) [OF ok] by blast
        then show ?thesis by (simp add: find_exec_execs hub find_exec_map)
      qed
    qed (simp_all add: quiet_def)
  qed
qed

end
