(* ===== verification/Exec_Promises.thy ===== *)
theory Exec_Promises
  imports Exec_Safety
begin

text \<open>
  What the exec hub promises its two sides: a caller is told the truth about its command, a machine
  is not given more commands than it may hold, no host sleeps while a command waits for it, and no
  caller waits past its timers.
\<close>

section \<open>The truth\<close>

definition told :: "event list \<Rightarrow> exec_id \<Rightarrow> exec_error + exec_result \<Rightarrow> bool" where
  "told tr i r \<longleftrightarrow>
     (case r of
        Inr x \<Rightarrow> (\<exists>m t. Handed i m t \<in> set tr \<and> Reported m i x True \<in> set tr)
      | Inl (ExecLostError b) \<Rightarrow> b \<longleftrightarrow> i \<in> set (handed_ids tr)
      | Inl (ExecRevokedError b) \<Rightarrow> b \<longleftrightarrow> i \<in> set (handed_ids tr)
      | Inl _ \<Rightarrow> False)"

lemma told_append: "told tr i r \<Longrightarrow> i \<notin> set (handed_ids es) \<Longrightarrow> told (tr @ es) i r"
  by (auto simp: told_def split: sum.splits exec_error.splits)

definition ended_ok :: "exec_system \<Rightarrow> bool" where
  "ended_ok s \<longleftrightarrow> (\<forall>i r. Ended i r \<in> set (trace s) \<longrightarrow> told (trace s) i r)"

lemma ended_ok_more:
  assumes "ended_ok s" "trace t = trace s @ es" "\<forall>i r. Ended i r \<notin> set es"
    and "\<And>i r. Ended i r \<in> set (trace s) \<Longrightarrow> i \<notin> set (handed_ids es)"
  shows "ended_ok t"
  using assms told_append unfolding ended_ok_def by simp

lemma handed_fine:
  assumes "exec_fine tr e"
  shows "x_id e \<in> set (handed_ids tr) \<longleftrightarrow> handed_at e \<noteq> None"
  using assms unfolding set_handed_ids exec_fine_def by blast

lemma told_left:
  assumes fine: "exec_fine tr e" and how: "(\<not> taken e \<and> r = Inl (ExecLostError False)) \<or> (taken e \<and> r = result_outcome e)"
  shows "told tr (x_id e) r"
proof -
  note h = handed_fine [OF fine]
  have untaken: "handed_at e = None" if "\<not> taken e" using fine that unfolding exec_fine_def by blast
  have none: "handed_at e \<noteq> None" if "taken e" "outcome e = None"
    using fine that unfolding exec_fine_def by (metis option.distinct(1))
  have some: "\<exists>m t. Handed (x_id e) m t \<in> set tr \<and> Reported m (x_id e) x True \<in> set tr" if "outcome e = Some (Some x)" for x
    using fine that unfolding exec_fine_def by blast
  show ?thesis
  proof (cases "taken e")
    case False
    with how h untaken show ?thesis by (simp add: told_def)
  next
    case True
    show ?thesis
    proof (cases "outcome e")
      case None
      with True how h none show ?thesis by (simp add: told_def result_outcome_def)
    next
      case (Some o')
      then show ?thesis
        using True how h some by (cases o') (simp_all add: told_def result_outcome_def)
    qed
  qed
qed

lemma ended_ok_step:
  assumes step: "exec_step s t" and ids: "ids_ok s" and h: "handed_ok s" and ok: "ended_ok s"
  shows "ended_ok t"
  using step
proof (cases rule: exec_step_cases)
  case inert
  then obtain es where es: "trace t = trace s @ es" "\<forall>ev \<in> set es. \<exists>w x. ev = WaitEnded w x" by (auto simp: inert_def)
  then show ?thesis using handed_ids_waits [OF es(2)] by (intro ended_ok_more [OF ok es(1)]) auto
next
  case (left e ev)
  have e: "e \<in> set (execs (xhub s))" "find_exec (x_id e) (xhub s) = Some e"
    using left(1) by (auto simp: left_with_def dest: find_exec_Some)
  have tr: "trace t = trace s @ [ev]" by (simp add: left(2) leave_def)
  have ev: "handed_ids [ev] = []" using left(1) by (auto simp: left_with_def)
  have new: "told (trace s) i r" if r: "ev = Ended i r" for i r
  proof -
    have i: "i = x_id e" using r left(1) by (auto simp: left_with_def)
    have "(\<not> taken e \<and> r = Inl (ExecLostError False)) \<or> (taken e \<and> r = result_outcome e)"
      using left(1) r e(2) handed_okD(4) [OF h] by (fastforce simp: left_with_def)
    then show ?thesis unfolding i by (rule told_left [OF handed_okD(1) [OF h e(1)]])
  qed
  show ?thesis
    unfolding ended_ok_def
  proof (intro allI impI)
    fix i r assume "Ended i r \<in> set (trace t)"
    then have "told (trace s) i r" using new ok by (auto simp: tr ended_ok_def)
    then show "told (trace t) i r" using ev by (simp add: tr told_append)
  qed
next
  case (got w m i k)
  have "callers s i \<noteq> None" using take_exec_fixed(2) [OF got(1)] ids_okD(2) [OF ids] by auto
  then show ?thesis using ids_okD(6) [OF ids] by (intro ended_ok_more [OF ok, of t "[Handed i m (clock_now k)]"]) (auto simp: got(2))
qed (rule ended_ok_more [OF ok], auto)+

section \<open>Room\<close>

text \<open>
  The commands a machine may be running, as the outside sees them: those it was handed, less those
  it reported on and those of a machine revoked since.
\<close>

fun opened :: "event \<Rightarrow> (exec_id \<times> exec_machine \<times> rat) list \<Rightarrow> (exec_id \<times> exec_machine \<times> rat) list" where
  "opened (Handed i m t) xs = (i, m, t) # xs"
| "opened (Reported m i r ok) xs = (if ok then filter (\<lambda>x. \<not> (fst x = i \<and> fst (snd x) = m)) xs else xs)"
| "opened (MachineClosed m) xs = filter (\<lambda>x. fst (snd x) \<noteq> m) xs"
| "opened _ xs = xs"

definition open_commands :: "event list \<Rightarrow> (exec_id \<times> exec_machine \<times> rat) list" where
  "open_commands tr = fold opened tr []"

text \<open>A host stops a command at its timeout; the grace is for its report to arrive.\<close>

definition busy :: "exec_system \<Rightarrow> exec_machine \<Rightarrow> exec_id set" where
  "busy s m = {i. \<exists>t n. (i, m, t) \<in> set (open_commands (trace s)) \<and> Started i m n \<in> set (trace s)
     \<and> clock_now (xhub s) < t + rat_of_nat n + RESULT_GRACE_SEC}"

lemma open_snoc [simp]: "open_commands (tr @ [ev]) = opened ev (open_commands tr)"
  by (simp add: open_commands_def)

lemma open_waits: "\<forall>ev \<in> set es. \<exists>w x. ev = WaitEnded w x \<Longrightarrow> open_commands (tr @ es) = open_commands tr"
proof (induction es rule: rev_induct)
  case (snoc ev es)
  then have "open_commands ((tr @ es) @ [ev]) = open_commands (tr @ es)" by (subst open_snoc) auto
  with snoc show ?case by simp
qed simp

lemma open_handed: "(i, m, t) \<in> set (open_commands tr) \<Longrightarrow> Handed i m t \<in> set tr"
proof (induction tr rule: rev_induct)
  case (snoc ev tr)
  then show ?case by (cases ev) (auto split: if_splits)
qed (simp add: open_commands_def)

definition room_ok :: "exec_system \<Rightarrow> bool" where
  "room_ok s \<longleftrightarrow> distinct (map fst (held (xhub s))) \<and> (\<forall>x \<in> set (held (xhub s)). fst x \<notin> hub_ids s)
   \<and> (\<forall>x \<in> set (held (xhub s)). fst x \<in> start_ids (trace s))
   \<and> (\<forall>m. running m (xhub s) \<le> MAX_RUNNING_PER_MACHINE)
   \<and> (\<forall>i m x n. (i, m, x) \<in> set (open_commands (trace s)) \<longrightarrow> Started i m n \<in> set (trace s) \<longrightarrow>
        clock_now (xhub s) < x + rat_of_nat n + RESULT_GRACE_SEC \<longrightarrow>
        i \<in> hub_ids s \<or> (i, \<lparr>mark_machine = m, mark_until = x + rat_of_nat n + RESULT_GRACE_SEC\<rparr>) \<in> set (held (xhub s)))
   \<and> (\<forall>e \<in> set (execs (xhub s)). \<forall>m x. (x_id e, m, x) \<in> set (open_commands (trace s)) \<longrightarrow> outcome e = None)"

lemma room_okD:
  assumes "room_ok s"
  shows "distinct (map fst (held (xhub s)))" "x \<in> set (held (xhub s)) \<Longrightarrow> fst x \<notin> hub_ids s"
    "x \<in> set (held (xhub s)) \<Longrightarrow> fst x \<in> start_ids (trace s)"
    "running m (xhub s) \<le> MAX_RUNNING_PER_MACHINE"
    "(i, m, y) \<in> set (open_commands (trace s)) \<Longrightarrow> Started i m n \<in> set (trace s) \<Longrightarrow>
       clock_now (xhub s) < y + rat_of_nat n + RESULT_GRACE_SEC \<Longrightarrow>
       i \<in> hub_ids s \<or> (i, \<lparr>mark_machine = m, mark_until = y + rat_of_nat n + RESULT_GRACE_SEC\<rparr>) \<in> set (held (xhub s))"
    "e \<in> set (execs (xhub s)) \<Longrightarrow> (x_id e, m, y) \<in> set (open_commands (trace s)) \<Longrightarrow> outcome e = None"
  using assms unfolding room_ok_def by blast+

lemma fixed_count:
  assumes "map fixed es = map fixed fs"
  shows "length (filter (\<lambda>e. x_machine_id e = m) es) = length (filter (\<lambda>e. x_machine_id e = m) fs)"
proof -
  have "length (filter (\<lambda>e. x_machine_id e = m) gs) = length (filter (\<lambda>x. fst (snd x) = m) (map fixed gs))" for gs
    by (simp add: filter_map comp_def fixed_def)
  then show ?thesis by (simp only: assms)
qed

lemma running_le:
  assumes "map fixed (execs k) = map fixed (execs h)" "held k = filter P (held h)"
  shows "running m k \<le> running m h"
  using fixed_count [OF assms(1), of m] length_filter_le [of P "filter (\<lambda>x. mark_machine (snd x) = m) (held h)"]
  by (simp add: running_def assms(2) conj_commute)

lemma running_release:
  assumes e: "e \<in> set (execs h)"
  shows "running m (release e h) \<le> running m h"
proof -
  have le: "length (filter (\<lambda>x. x_machine_id x = m) (execs (release e h))) + (if x_machine_id e = m then 1 else 0)
      \<le> length (filter (\<lambda>x. x_machine_id x = m) (execs h))"
  proof -
    let ?f = "filter (\<lambda>x. x_machine_id x = m) (execs h)"
    have "length (filter (\<lambda>x. x_id x \<noteq> x_id e) ?f) + length (filter (\<lambda>x. x_id x = x_id e) ?f) = length ?f"
      using sum_length_filter_compl [of "\<lambda>x. x_id x \<noteq> x_id e" ?f] by simp
    moreover have "1 \<le> length (filter (\<lambda>x. x_id x = x_id e) ?f)" if "x_machine_id e = m"
      using e that by (simp add: Suc_le_eq filter_empty_conv) blast
    ultimately show ?thesis by (auto simp: conj_commute)
  qed
  have "length (filter (\<lambda>x. mark_machine (snd x) = m) (held (release e h)))
      \<le> length (filter (\<lambda>x. mark_machine (snd x) = m) (held h)) + (if x_machine_id e = m then 1 else 0)"
    using length_filter_le [of "\<lambda>x. fst x \<noteq> x_id e" "filter (\<lambda>x. mark_machine (snd x) = m) (held h)"]
    by (simp add: release_def Let_def set_mark_def conj_commute split: option.split)
  with le show ?thesis by (simp add: running_def)
qed

lemma held_release:
  "held (release e h) = held h \<or> held (release e h) = set_mark (x_id e)
     \<lparr>mark_machine = x_machine_id e, mark_until = the (handed_at e) + rat_of_nat (timeout_sec (x_request e)) + RESULT_GRACE_SEC\<rparr> (held h)"
  by (simp add: release_def Let_def split: option.split)

lemma fixed_hub_ids: "map fixed es = map fixed fs \<Longrightarrow> x_id ` set es = x_id ` set fs"
  by (drule fixed_ids, drule arg_cong [of _ _ set]) simp

text \<open>A step that keeps every command, drops held slots only, and opens nothing.\<close>

lemma room_ok_keep:
  assumes ok: "room_ok s" and f: "map fixed (execs (xhub t)) = map fixed (execs (xhub s))"
    and h: "held (xhub t) = filter P (held (xhub s))" and clk: "clock_now (xhub s) \<le> clock_now (xhub t)"
    and tr: "\<And>i m n. Started i m n \<in> set (trace t) \<longleftrightarrow> Started i m n \<in> set (trace s)"
    and op: "set (open_commands (trace t)) \<subseteq> set (open_commands (trace s))"
    and keep: "\<And>i m x n. (i, m, x) \<in> set (open_commands (trace t)) \<Longrightarrow>
        (i, \<lparr>mark_machine = m, mark_until = x + rat_of_nat n + RESULT_GRACE_SEC\<rparr>) \<in> set (held (xhub s)) \<Longrightarrow>
        clock_now (xhub t) < x + rat_of_nat n + RESULT_GRACE_SEC \<Longrightarrow>
        P (i, \<lparr>mark_machine = m, mark_until = x + rat_of_nat n + RESULT_GRACE_SEC\<rparr>)"
    and out: "\<And>e m x. e \<in> set (execs (xhub t)) \<Longrightarrow> (x_id e, m, x) \<in> set (open_commands (trace t)) \<Longrightarrow> outcome e = None"
  shows "room_ok t"
  unfolding room_ok_def
proof (intro conjI ballI allI impI)
  note ids = fixed_hub_ids [OF f]
  show "distinct (map fst (held (xhub t)))" using room_okD(1) [OF ok] by (simp add: h distinct_map_filter)
  show "fst x \<notin> hub_ids t" "fst x \<in> start_ids (trace t)" if "x \<in> set (held (xhub t))" for x
    using that room_okD(2,3) [OF ok, of x] tr by (simp_all add: h ids start_ids_def)
  show "running m (xhub t) \<le> MAX_RUNNING_PER_MACHINE" for m
    using running_le [OF f h, of m] room_okD(4) [OF ok, of m] by simp
  show "outcome e = None" if "e \<in> set (execs (xhub t))" "(x_id e, m, x) \<in> set (open_commands (trace t))" for e m x
    using that by (rule out)
  show "i \<in> hub_ids t \<or> (i, \<lparr>mark_machine = m, mark_until = x + rat_of_nat n + RESULT_GRACE_SEC\<rparr>) \<in> set (held (xhub t))"
    if *: "(i, m, x) \<in> set (open_commands (trace t))" "Started i m n \<in> set (trace t)"
      "clock_now (xhub t) < x + rat_of_nat n + RESULT_GRACE_SEC" for i m x n
  proof -
    have "(i, m, x) \<in> set (open_commands (trace s))" using op *(1) by blast
    moreover have "clock_now (xhub s) < x + rat_of_nat n + RESULT_GRACE_SEC" using clk *(3) by simp
    ultimately consider "i \<in> hub_ids s"
      | "(i, \<lparr>mark_machine = m, mark_until = x + rat_of_nat n + RESULT_GRACE_SEC\<rparr>) \<in> set (held (xhub s))"
      using room_okD(5) [OF ok] *(2) tr by blast
    then show ?thesis
      by cases (use keep *(1,3) ids h in auto)
  qed
qed

lemma opened_subset: "\<forall>i m t. ev \<noteq> Handed i m t \<Longrightarrow> set (opened ev xs) \<subseteq> set xs"
  by (cases ev) auto

lemma room_ok_step:
  assumes step: "exec_step s t" and ids: "ids_ok s" and h: "handed_ok s" and ok: "room_ok s"
  shows "room_ok t"
  using step
proof (cases rule: exec_step_cases)
  case inert
  then obtain es where es: "trace t = trace s @ es" "\<forall>ev \<in> set es. \<exists>w x. ev = WaitEnded w x" by (auto simp: inert_def)
  have held: "held (xhub t) = held (xhub s) \<or> held (xhub t) = filter (\<lambda>x. \<not> mark_until (snd x) \<le> clock_now (xhub t)) (held (xhub s))"
    using inert by (simp add: inert_def)
  then obtain P where P: "held (xhub t) = filter P (held (xhub s))" "\<And>x. clock_now (xhub t) < mark_until (snd x) \<Longrightarrow> P x"
  proof
    assume "held (xhub t) = held (xhub s)"
    then show ?thesis by (intro that [of "\<lambda>_. True"]) simp_all
  next
    assume "held (xhub t) = filter (\<lambda>x. \<not> mark_until (snd x) \<le> clock_now (xhub t)) (held (xhub s))"
    then show ?thesis by (rule that) simp
  qed
  have x: "execs (xhub t) = execs (xhub s)" "clock_now (xhub s) \<le> clock_now (xhub t)" using inert by (simp_all add: inert_def)
  have op: "open_commands (trace t) = open_commands (trace s)" using open_waits [OF es(2)] by (simp add: es(1))
  show ?thesis
  proof (rule room_ok_keep [OF ok _ P(1) x(2)])
    show "Started i m n \<in> set (trace t) \<longleftrightarrow> Started i m n \<in> set (trace s)" for i m n using es by auto
    show "outcome e = None" if "e \<in> set (execs (xhub t))" "(x_id e, m, y) \<in> set (open_commands (trace t))" for e m y
      using room_okD(6) [OF ok] that x op by simp
  qed (simp_all add: x op P(2))
next
  case (started i q k)
  note k = queue_execE [OF started(2)]
  have nx: "x_id (new_exec i q) = i" "x_machine_id (new_exec i q) = s_machine_id q" "outcome (new_exec i q) = None"
    by (simp_all add: new_exec_def)
  have hub: "execs (xhub t) = execs (xhub s) @ [new_exec i q]" "clock_now (xhub t) = clock_now (xhub s)"
    "held (xhub t) = filter (\<lambda>x. \<not> mark_until (snd x) \<le> clock_now (xhub s)) (held (xhub s))"
    by (simp_all add: started(3) k(3))
  have op: "open_commands (trace t) = open_commands (trace s)" by (simp add: started(3))
  have si: "start_ids (trace t) = insert i (start_ids (trace s))" by (simp add: started(3))
  have fresh: "(i, m, x) \<notin> set (open_commands (trace s))" for m x
    using started(1) ids_okD(5) [OF ids] open_handed by blast
  have run: "running m (xhub t) = running m (sweep_marks (xhub s)) + (if m = s_machine_id q then 1 else 0)" for m
    by (simp add: running_def hub nx)
  have swept: "running m (sweep_marks (xhub s)) \<le> MAX_RUNNING_PER_MACHINE" for m
    using running_le [of "sweep_marks (xhub s)" "xhub s" "\<lambda>x. \<not> mark_until (snd x) \<le> clock_now (xhub s)" m] room_okD(4) [OF ok, of m]
    by simp
  show ?thesis
    unfolding room_ok_def
  proof (intro conjI ballI allI impI)
    show "distinct (map fst (held (xhub t)))" using room_okD(1) [OF ok] by (simp add: hub distinct_map_filter)
    show "fst x \<in> start_ids (trace t)" if "x \<in> set (held (xhub t))" for x
      using that room_okD(3) [OF ok] by (simp add: hub si)
    show "fst x \<notin> hub_ids t" if "x \<in> set (held (xhub t))" for x
      using that room_okD(2,3) [OF ok, of x] started(1) by (auto simp: hub nx)
    show "running m (xhub t) \<le> MAX_RUNNING_PER_MACHINE" for m using k(2) swept [of m] by (simp add: run)
    show "outcome e = None" if "e \<in> set (execs (xhub t))" "(x_id e, m, y) \<in> set (open_commands (trace t))" for e m y
      using room_okD(6) [OF ok] that nx op by (auto simp: hub)
    show "j \<in> hub_ids t \<or> (j, \<lparr>mark_machine = m, mark_until = x + rat_of_nat n + RESULT_GRACE_SEC\<rparr>) \<in> set (held (xhub t))"
      if j: "(j, m, x) \<in> set (open_commands (trace t))" "Started j m n \<in> set (trace t)"
        "clock_now (xhub t) < x + rat_of_nat n + RESULT_GRACE_SEC" for j m x n
    proof -
      have "Started j m n \<in> set (trace s)" using j(1,2) fresh by (auto simp: started(3))
      then show ?thesis using room_okD(5) [OF ok, of j m x n] j(1,3) by (auto simp: op hub)
    qed
  qed
next
  case (left e ev)
  have e: "e \<in> set (execs (xhub s))" using left(1) by (auto simp: left_with_def dest: find_exec_Some)
  have ev: "\<forall>xs. opened ev xs = xs" "\<forall>i m n. ev \<noteq> Started i m n" using left(1) by (auto simp: left_with_def)
  have op: "open_commands (trace t) = open_commands (trace s)" by (simp add: left(2) leave_def ev)
  have tr: "Started i m n \<in> set (trace t) \<longleftrightarrow> Started i m n \<in> set (trace s)" for i m n using ev(2) by (auto simp: left(2) leave_def)
  have hub: "xhub t = release e (xhub s)" by (simp add: left(2) leave_def)
  let ?k = "\<lparr>mark_machine = x_machine_id e, mark_until = the (handed_at e) + rat_of_nat (timeout_sec (x_request e)) + RESULT_GRACE_SEC\<rparr>"
  have heldE: "x \<in> set (held (xhub s)) \<or> x = (x_id e, ?k)" if "x \<in> set (held (xhub t))" for x
    using that held_release [of e "xhub s"] by (auto simp: hub set_mark_def)
  have same: "x \<in> set (held (xhub t))" if "x \<in> set (held (xhub s))" for x
    using that held_release [of e "xhub s"] room_okD(2) [OF ok that] e by (auto simp: hub set_mark_def)
  show ?thesis
    unfolding room_ok_def
  proof (intro conjI ballI allI impI)
    show "distinct (map fst (held (xhub t)))"
      using held_release [of e "xhub s"] room_okD(1) [OF ok] by (auto simp: hub set_mark_def distinct_map_filter)
    show "fst x \<in> start_ids (trace t)" if "x \<in> set (held (xhub t))" for x
    proof -
      have "start_ids (trace t) = start_ids (trace s)" using tr by (simp add: start_ids_def)
      moreover have "fst x \<in> start_ids (trace s)"
        using heldE [OF that] room_okD(3) [OF ok, of x] start_idsI [OF ids_okD(3) [OF ids e]] by (metis fst_conv)
      ultimately show ?thesis by (simp only:)
    qed
    show "fst x \<notin> hub_ids t" if "x \<in> set (held (xhub t))" for x
      using heldE [OF that] room_okD(2) [OF ok, of x] by (auto simp: hub)
    show "running m (xhub t) \<le> MAX_RUNNING_PER_MACHINE" for m
      using running_release [OF e, of m] room_okD(4) [OF ok, of m] by (simp add: hub)
    show "outcome f = None" if "f \<in> set (execs (xhub t))" "(x_id f, m, y) \<in> set (open_commands (trace t))" for f m y
      using room_okD(6) [OF ok] that op by (simp add: hub)
    show "j \<in> hub_ids t \<or> (j, \<lparr>mark_machine = m, mark_until = x + rat_of_nat n + RESULT_GRACE_SEC\<rparr>) \<in> set (held (xhub t))"
      if j: "(j, m, x) \<in> set (open_commands (trace t))" "Started j m n \<in> set (trace t)"
        "clock_now (xhub t) < x + rat_of_nat n + RESULT_GRACE_SEC" for j m x n
    proof (cases "j = x_id e")
      case False
      then show ?thesis using room_okD(5) [OF ok, of j m x n] j same by (auto simp: op tr hub)
    next
      case True
      have "Handed (x_id e) m x \<in> set (trace s)" using j(1) open_handed by (simp add: op True)
      then have fx: "m = x_machine_id e" "handed_at e = Some x" using handed_okD(1) [OF h e] unfolding exec_fine_def by blast+
      have "n = timeout_sec (x_request e)" using j(2) ids_okD(3) [OF ids e] ids_okD(4) [OF ids] tr True by blast
      moreover have "outcome e = None" using room_okD(6) [OF ok e, of m x] j(1) by (simp add: op True)
      moreover have "clock_now (xhub s) < x + rat_of_nat n + RESULT_GRACE_SEC" using j(3) by (simp add: hub)
      ultimately show ?thesis using fx True by (simp add: hub release_def Let_def set_mark_def)
    qed
  qed
next
  case (got w m i k)
  note fx = take_exec_fixed [OF got(1)]
  have tr: "Started j m' n \<in> set (trace t) \<longleftrightarrow> Started j m' n \<in> set (trace s)" for j m' n by (simp add: got(2))
  have op: "open_commands (trace t) = (i, m, clock_now k) # open_commands (trace s)" by (simp add: got(2))
  have hub: "xhub t = k" by (simp add: got(2))
  obtain b where b: "untaken (xhub s) i" and kk: "k = update_exec i (\<lambda>e. e\<lparr>handed_at := Some (clock_now (xhub s)), taken := True\<rparr>) ((xhub s)\<lparr>queued := (queued (xhub s))(m := b)\<rparr>)"
    by (rule take_execE [OF got(1)])
  have out: "outcome f = None" if f: "f \<in> set (execs k)" "x_id f = i" for f
  proof -
    obtain g where "g \<in> set (execs (xhub s))"
      "f = (if x_id g = i then g\<lparr>handed_at := Some (clock_now (xhub s)), taken := True\<rparr> else g)"
      using f(1) by (auto simp: kk)
    then have g: "g \<in> set (execs (xhub s))" "x_id g = i" "outcome f = outcome g" using f(2) by (simp_all split: if_splits)
    then have "\<not> taken g" using b find_exec_mem [OF ids_okD(1) [OF ids]] by (auto simp: untaken_mem)
    with handed_okD(1) [OF h g(1)] show ?thesis unfolding g(3) exec_fine_def by blast
  qed
  have hid: "hub_ids t = hub_ids s" using fixed_hub_ids [OF fx(1)] by (simp add: hub)
  show ?thesis
    unfolding room_ok_def
  proof (intro conjI ballI allI impI)
    show "distinct (map fst (held (xhub t)))" using room_okD(1) [OF ok] by (simp add: hub fx(5))
    show "fst x \<in> start_ids (trace t)" "fst x \<notin> hub_ids t" if "x \<in> set (held (xhub t))" for x
      using that room_okD(2,3) [OF ok, of x] hid by (simp_all add: hub fx(5) got(2))
    show "running m (xhub t) \<le> MAX_RUNNING_PER_MACHINE" for m
      using running_le [OF fx(1), of "\<lambda>_. True" m] fx(5) room_okD(4) [OF ok, of m] by (simp add: hub)
    show "outcome f = None" if f: "f \<in> set (execs (xhub t))" "(x_id f, m', y) \<in> set (open_commands (trace t))" for f m' y
    proof (cases "x_id f = i")
      case True
      with f(1) out show ?thesis by (simp add: hub)
    next
      case False
      then have "f \<in> set (execs (xhub s))" using f(1) by (auto simp: hub kk split: if_splits)
      with f(2) False room_okD(6) [OF ok] show ?thesis by (simp add: op)
    qed
    show "j \<in> hub_ids t \<or> (j, \<lparr>mark_machine = m', mark_until = x + rat_of_nat n + RESULT_GRACE_SEC\<rparr>) \<in> set (held (xhub t))"
      if j: "(j, m', x) \<in> set (open_commands (trace t))" "Started j m' n \<in> set (trace t)"
        "clock_now (xhub t) < x + rat_of_nat n + RESULT_GRACE_SEC" for j m' x n
    proof (cases "j = i")
      case True
      with fx(2) show ?thesis by (simp add: hid)
    next
      case False
      then show ?thesis using room_okD(5) [OF ok, of j m' x n] j hid by (auto simp: op tr hub fx)
    qed
  qed
next
  case (reported m i r k b)
  have tr: "Started j m' n \<in> set (trace t) \<longleftrightarrow> Started j m' n \<in> set (trace s)" for j m' n by (simp add: reported(2))
  have op: "open_commands (trace t) = opened (Reported m i r b) (open_commands (trace s))" by (simp add: reported(2))
  have sub: "set (open_commands (trace t)) \<subseteq> set (open_commands (trace s))" unfolding op by (rule opened_subset) simp
  note keep = room_ok_keep [OF ok _ _ _ tr sub]
  have hub: "xhub t = k" by (simp add: reported(2))
  show ?thesis
  proof (rule deliver_cases [OF reported(1)])
    assume k: "k = sweep_marks (xhub s)" "\<not> b"
    show ?thesis by (rule keep [where P = "\<lambda>x. \<not> mark_until (snd x) \<le> clock_now (xhub s)"])
      (use room_okD(6) [OF ok] sub in \<open>auto simp: hub k\<close>)
  next
    fix x assume k: "k = sweep_marks (xhub s)" b
    show ?thesis by (rule keep [where P = "\<lambda>x. \<not> mark_until (snd x) \<le> clock_now (xhub s)"])
      (use room_okD(6) [OF ok] sub in \<open>auto simp: hub k(1)\<close>)
  next
    fix e d assume b: b and e: "find_exec i (xhub s) = Some e" "x_machine_id e = m"
      and k: "k = (update_exec i (outcome_update (\<lambda>_. Some (Some r))) (sweep_marks (xhub s)))\<lparr>delivered := d\<rparr>"
    have shut: "(i, m', x) \<notin> set (open_commands (trace t))" for m' x
    proof
      assume a: "(i, m', x) \<in> set (open_commands (trace t))"
      then have "Handed (x_id e) m' x \<in> set (trace s)" using sub open_handed find_exec_Some [OF e(1)] by blast
      then have "m' = m" using handed_okD(1) [OF h, of e] find_exec_Some [OF e(1)] e(2) unfolding exec_fine_def by blast
      with a b show False by (simp add: op)
    qed
    show ?thesis
    proof (rule keep [where P = "\<lambda>x. \<not> mark_until (snd x) \<le> clock_now (xhub s)"])
      fix f m' x assume f: "f \<in> set (execs (xhub t))" "(x_id f, m', x) \<in> set (open_commands (trace t))"
      then have "f \<in> set (execs (xhub s))" using shut by (auto simp: hub k split: if_splits)
      then show "outcome f = None" using f(2) sub room_okD(6) [OF ok] by blast
    qed (simp_all add: hub k)
  next
    fix x d assume b: b and x: "map_of (held (sweep_marks (xhub s))) i = Some x" "mark_machine x = m"
      and k: "k = (sweep_marks (xhub s))\<lparr>held := filter (\<lambda>x. fst x \<noteq> i) (held (sweep_marks (xhub s))), delivered := d\<rparr>"
    have x': "(i, x) \<in> set (held (xhub s))" using map_of_SomeD [OF x(1)] by simp
    show ?thesis
    proof (rule keep [where P = "\<lambda>x. fst x \<noteq> i \<and> \<not> mark_until (snd x) \<le> clock_now (xhub s)"])
      fix j m' y n assume a: "(j, m', y) \<in> set (open_commands (trace t))" "clock_now (xhub t) < y + rat_of_nat n + RESULT_GRACE_SEC"
        "(j, \<lparr>mark_machine = m', mark_until = y + rat_of_nat n + RESULT_GRACE_SEC\<rparr>) \<in> set (held (xhub s))"
      have "j \<noteq> i"
      proof
        assume "j = i"
        then have "x = \<lparr>mark_machine = m', mark_until = y + rat_of_nat n + RESULT_GRACE_SEC\<rparr>"
          using a(3) x' room_okD(1) [OF ok] by (auto dest: eq_key_imp_eq_value)
        with x(2) a(1) b \<open>j = i\<close> show False by (simp add: op)
      qed
      with a(2) show "fst (j, \<lparr>mark_machine = m', mark_until = y + rat_of_nat n + RESULT_GRACE_SEC\<rparr>) \<noteq> i \<and>
        \<not> mark_until (snd (j, \<lparr>mark_machine = m', mark_until = y + rat_of_nat n + RESULT_GRACE_SEC\<rparr>)) \<le> clock_now (xhub s)"
        by (simp add: hub k)
    qed (use room_okD(6) [OF ok] sub in \<open>auto simp: hub k conj_commute\<close>)
  qed
next
  case (closed m)
  have tr: "Started j m' n \<in> set (trace t) \<longleftrightarrow> Started j m' n \<in> set (trace s)" for j m' n by (simp add: closed)
  have op: "open_commands (trace t) = filter (\<lambda>x. fst (snd x) \<noteq> m) (open_commands (trace s))" by (simp add: closed)
  show ?thesis
  proof (rule room_ok_keep [OF ok, where P = "\<lambda>x. mark_machine (snd x) \<noteq> m"])
    fix f m' x assume f: "f \<in> set (execs (xhub t))" "(x_id f, m', x) \<in> set (open_commands (trace t))"
    then obtain g where g: "g \<in> set (execs (xhub s))" "x_id g = x_id f" "x_machine_id g \<noteq> m \<longrightarrow> f = g"
      by (auto simp: closed close_exec_machine_def split: if_splits)
    have o: "(x_id g, m', x) \<in> set (open_commands (trace s))" "m' \<noteq> m" using f(2) g(2) by (simp_all add: op)
    have "m' = x_machine_id g" using open_handed [OF o(1)] handed_okD(1) [OF h g(1)] unfolding exec_fine_def by blast
    with o(2) g(3) have "f = g" by simp
    with room_okD(6) [OF ok g(1) o(1)] show "outcome f = None" by simp
  qed (auto simp: tr op closed close_exec_machine_def)
qed

end
