(* ===== verification/Exec_Waits.thy ===== *)
theory Exec_Waits
  imports Exec_Promises
begin

text \<open>
  Nothing in the exec hub waits for ever: a queued command is one nobody was handed yet, every
  held wait of its machine has been woken, and every caller's timer is at most its limit away.
\<close>

section \<open>Queued commands are there to be taken\<close>

definition fresh_ok :: "exec_system \<Rightarrow> bool" where
  "fresh_ok s \<longleftrightarrow> (\<forall>m. \<forall>i \<in> set (queued (xhub s) m).
     \<exists>e \<in> set (execs (xhub s)). x_id e = i \<and> x_machine_id e = m \<and> \<not> taken e)"

lemma fresh_okD:
  assumes "fresh_ok s" "i \<in> set (queued (xhub s) m)"
  obtains e where "e \<in> set (execs (xhub s))" "x_id e = i" "x_machine_id e = m" "\<not> taken e"
  using assms unfolding fresh_ok_def by blast

lemma fresh_okI:
  assumes "\<And>m i. i \<in> set (queued (xhub t) m) \<Longrightarrow> \<exists>e \<in> set (execs (xhub t)). x_id e = i \<and> x_machine_id e = m \<and> \<not> taken e"
  shows "fresh_ok t"
  using assms unfolding fresh_ok_def by blast

lemma fresh_ok_step:
  assumes step: "exec_step s t" and ids: "ids_ok s" and q: "queue_ok s" and ok: "fresh_ok s"
  shows "fresh_ok t"
  using step
proof (cases rule: exec_step_cases)
  case inert
  then have x: "execs (xhub t) = execs (xhub s)" "queued (xhub t) m = queued (xhub s) m \<or> queued (xhub t) m = []" for m
    by (auto simp: inert_def)
  show ?thesis
  proof (rule fresh_okI)
    fix m i assume "i \<in> set (queued (xhub t) m)"
    then have "i \<in> set (queued (xhub s) m)" using x(2) [of m] by auto
    then show "\<exists>e \<in> set (execs (xhub t)). x_id e = i \<and> x_machine_id e = m \<and> \<not> taken e"
      by (rule fresh_okD [OF ok]) (use x(1) in auto)
  qed
next
  case (started i q h)
  note k = queue_execE [OF started(2)]
  have hub: "execs (xhub t) = execs (xhub s) @ [new_exec i q]"
    "queued (xhub t) = (queued (xhub s))(s_machine_id q := queued (xhub s) (s_machine_id q) @ [i])"
    by (simp_all add: started(3) k(3))
  show ?thesis
  proof (rule fresh_okI)
    fix m j assume "j \<in> set (queued (xhub t) m)"
    then consider "j = i" "m = s_machine_id q" | "j \<in> set (queued (xhub s) m)" by (auto simp: hub split: if_splits)
    then show "\<exists>e \<in> set (execs (xhub t)). x_id e = j \<and> x_machine_id e = m \<and> \<not> taken e"
    proof cases
      case 1
      then show ?thesis by (simp add: hub new_exec_def)
    next
      case 2
      then show ?thesis by (rule fresh_okD [OF ok]) (auto simp: hub)
    qed
  qed
next
  case (left e ev)
  have e: "e \<in> set (execs (xhub s))" using left(1) by (auto simp: left_with_def dest: find_exec_Some)
  have hub: "execs (xhub t) = filter (\<lambda>x. x_id x \<noteq> x_id e) (execs (xhub s))"
    "queued (xhub t) = (queued (xhub s))(x_machine_id e := remove1 (x_id e) (queued (xhub s) (x_machine_id e)))"
    by (simp_all add: left(2) leave_def)
  show ?thesis
  proof (rule fresh_okI)
    fix m i assume i: "i \<in> set (queued (xhub t) m)"
    then have "i \<in> set (queued (xhub s) m)" by (auto simp: hub split: if_splits dest: in_set_remove1D)
    then show "\<exists>e \<in> set (execs (xhub t)). x_id e = i \<and> x_machine_id e = m \<and> \<not> taken e"
    proof (rule fresh_okD [OF ok])
      fix f assume f: "f \<in> set (execs (xhub s))" "x_id f = i" "x_machine_id f = m" "\<not> taken f"
      have "i \<noteq> x_id e"
      proof
        assume "i = x_id e"
        then have "f = e" using f(1,2) e find_exec_mem [OF ids_okD(1) [OF ids]] by (metis option.inject)
        moreover have "distinct (queued (xhub s) m)" using q by (simp add: queue_ok_def)
        ultimately show False using i f by (simp add: hub)
      qed
      with f show ?thesis by (auto simp: hub)
    qed
  qed
next
  case (got w m i k)
  obtain a b where b: "queued (xhub s) m = a @ i # b"
    "k = update_exec i (\<lambda>e. e\<lparr>handed_at := Some (clock_now (xhub s)), taken := True\<rparr>) ((xhub s)\<lparr>queued := (queued (xhub s))(m := b)\<rparr>)"
    by (rule take_execE [OF got(1)])
  have d: "distinct (queued (xhub s) m)" using q by (simp add: queue_ok_def)
  obtain f where f: "f \<in> set (execs (xhub s))" "x_id f = i" "x_machine_id f = m"
    by (rule fresh_okD [OF ok, of i m]) (simp_all add: b(1))
  show ?thesis
  proof (rule fresh_okI)
    fix m' j assume j: "j \<in> set (queued (xhub t) m')"
    then have js: "j \<in> set (queued (xhub s) m')" using b by (auto simp: got(2) split: if_splits)
    then show "\<exists>e \<in> set (execs (xhub t)). x_id e = j \<and> x_machine_id e = m' \<and> \<not> taken e"
    proof (rule fresh_okD [OF ok])
      fix e assume e: "e \<in> set (execs (xhub s))" "x_id e = j" "x_machine_id e = m'" "\<not> taken e"
      have "j \<noteq> i"
      proof
        assume "j = i"
        then have "e = f" using e(1,2) f find_exec_mem [OF ids_okD(1) [OF ids]] by (metis option.inject)
        then have "m' = m" using e f by simp
        with j b d \<open>j = i\<close> show False by (simp add: got(2))
      qed
      with e show ?thesis by (auto simp: got(2) b(2) image_iff)
    qed
  qed
next
  case (reported m i r h ok')
  have "queued h = queued (xhub s)" by (rule deliver_cases [OF reported(1)]) simp_all
  moreover have "\<exists>f \<in> set (execs h). x_id f = x_id e \<and> x_machine_id f = x_machine_id e \<and> taken f = taken e"
    if "e \<in> set (execs (xhub s))" for e
  proof -
    have "map (\<lambda>e. (fixed e, taken e)) (execs h) = map (\<lambda>e. (fixed e, taken e)) (execs (xhub s))"
      by (rule deliver_cases [OF reported(1)]) simp_all
    from arg_cong [OF this, of set]
    have "(\<lambda>e. (fixed e, taken e)) ` set (execs h) = (\<lambda>e. (fixed e, taken e)) ` set (execs (xhub s))"
      by (simp only: set_map)
    moreover have "(fixed e, taken e) \<in> (\<lambda>e. (fixed e, taken e)) ` set (execs (xhub s))" using that by (rule imageI)
    ultimately have "(fixed e, taken e) \<in> (\<lambda>e. (fixed e, taken e)) ` set (execs h)" by (simp only:)
    then show ?thesis by (auto simp: fixed_def)
  qed
  ultimately show ?thesis
    by (intro fresh_okI) (simp add: reported(2), erule fresh_okD [OF ok], metis)
next
  case (closed m)
  show ?thesis
  proof (rule fresh_okI)
    fix m' i assume i: "i \<in> set (queued (xhub t) m')"
    then have i': "i \<in> set (queued (xhub s) m')" "m' \<noteq> m" by (auto simp: closed close_exec_machine_def split: if_splits)
    show "\<exists>e \<in> set (execs (xhub t)). x_id e = i \<and> x_machine_id e = m' \<and> \<not> taken e"
      by (rule fresh_okD [OF ok i'(1)]) (use i'(2) in \<open>auto simp: closed close_exec_machine_def image_iff\<close>)
  qed
qed

section \<open>Held waits are woken\<close>

definition wakeful :: "exec_hub \<Rightarrow> bool" where
  "wakeful h \<longleftrightarrow> (\<forall>m. queued h m \<noteq> [] \<longrightarrow> (\<forall>w. (w, None) \<notin> set (holds h m)))"

lemma wakeful_less:
  assumes "wakeful h" and "\<And>m. queued k m \<noteq> [] \<Longrightarrow> queued h m \<noteq> []"
    and "\<And>m w. (w, None) \<in> set (holds k m) \<Longrightarrow> (w, None) \<in> set (holds h m)"
  shows "wakeful k"
  using assms unfolding wakeful_def by blast

lemma wakeful_park:
  assumes "wakeful h" "queued h m = []" "wait_park m d w h = (k, x)"
  shows "wakeful k"
  using assms by (auto simp: wait_park_def wakeful_def split: if_splits)

lemma wakeful_round: "wakeful h \<Longrightarrow> wait_round m d w h = (k, x) \<Longrightarrow> wakeful k"
  using wakeful_park by (auto simp: wait_round_def split: if_splits)

lemma wakeful_forget [simp]: "wakeful h \<Longrightarrow> wakeful (forget_waiter m w h)"
  by (auto simp: wakeful_def forget_waiter_def)

lemma wakeful_take:
  assumes "wakeful h" "take_exec m h = (k, r)"
  shows "wakeful k \<and> (r = None \<longrightarrow> queued k m = [])"
proof (cases r)
  case None
  with assms show ?thesis by (auto simp: take_exec_None wakeful_def)
next
  case (Some i)
  show ?thesis
    by (rule take_execE [OF assms(2) [unfolded Some]]) (use assms(1) Some in \<open>auto simp: wakeful_def split: if_splits\<close>)
qed

lemma wakeful_claim:
  assumes "wakeful h" "claim_answered m d w final cur h = (k, x)"
  shows "wakeful k"
proof (cases "take_exec m h")
  case (Pair h1 r)
  note w = wakeful_take [OF assms(1) Pair]
  show ?thesis
  proof (cases "r = None \<and> cur \<and> \<not> final")
    case True
    then have "wait_park m d w h1 = (k, x)" using assms(2) Pair by (simp add: claim_answered_def)
    with wakeful_park w True show ?thesis by blast
  next
    case False
    then show ?thesis using assms w Pair by (auto simp: claim_answered_def split: if_splits option.splits)
  qed
qed

lemma wakeful_resumed:
  assumes "wakeful h" "wait_resumed m d w h = (k, x)"
  shows "wakeful k"
  using assms wakeful_round [OF wakeful_forget [OF assms(1)]]
  by (auto simp: wait_resumed_def Let_def split: option.splits bool.splits if_splits)

lemma settle_hub [simp]: "xhub (settle w m d x s) = fst x"
  by (auto simp: settle_def split: wait_stop.split)

lemma wakeful_step:
  assumes step: "exec_step s t" and ok: "wakeful (xhub s)"
  shows "wakeful (xhub t)"
  using step
proof cases
  case (started i q h)
  note k = queue_execE [OF started(3)]
  have "(w, None) \<notin> set (holds h (s_machine_id q))" for w
    by (auto simp: k(3) set_future_def split: option.splits)
  then show ?thesis using ok by (auto simp: started(1) wakeful_def k(3))
next
  case (refused i q h e)
  then show ?thesis using ok by (auto dest: queue_refused simp: wakeful_def)
next
  case (unoffered i d e err)
  then show ?thesis using ok by (intro wakeful_less [OF ok]) (auto simp: leave_def split: if_splits)
next
  case (answered i d e)
  then show ?thesis using ok by (intro wakeful_less [OF ok]) (auto simp: leave_def split: if_splits)
next
  case (caller_left i e)
  then show ?thesis using ok by (intro wakeful_less [OF ok]) (auto simp: leave_def split: if_splits)
next
  case (wait_began w m sec)
  then show ?thesis using wakeful_round [OF ok] by (simp add: wait_start_def) (metis prod.collapse)
next
  case (wait_claimed w m d final is_current)
  then show ?thesis using wakeful_claim [OF ok] by simp (metis prod.collapse)
next
  case (wait_woke w m d)
  then show ?thesis using wakeful_resumed [OF ok] by simp (metis prod.collapse)
next
  case (delivered m i r h b)
  have "queued h = queued (xhub s)" "holds h = holds (xhub s)" by (rule deliver_cases [OF delivered(2)]; simp)+
  then show ?thesis using ok by (simp add: delivered(1) wakeful_def)
next
  case (closed m)
  then show ?thesis using ok by (auto simp: wakeful_def close_exec_machine_def set_future_def)
next
  case (wait_left w x)
  then show ?thesis using ok by simp
qed (use ok in \<open>auto simp: wakeful_def\<close>)

section \<open>Timers\<close>

definition timers_ok :: "exec_system \<Rightarrow> bool" where
  "timers_ok s \<longleftrightarrow> (\<forall>i e p. find_exec i (xhub s) = Some e \<longrightarrow> callers s i = Some p \<longrightarrow>
     (case p of AwaitTaken d \<Rightarrow> d \<le> clock_now (xhub s) + OFFER_TTL_SEC
      | AwaitOutcome d \<Rightarrow> d \<le> clock_now (xhub s) + (rat_of_nat (timeout_sec (x_request e)) + RESULT_GRACE_SEC)))"

lemma find_fixed:
  assumes "map fixed es = map fixed fs" "List.find (\<lambda>e. x_id e = i) es = Some e"
  shows "\<exists>f. List.find (\<lambda>e. x_id e = i) fs = Some f \<and> x_request f = x_request e"
  using assms by (induction es arbitrary: fs) (auto simp: fixed_def split: if_splits)

lemma timers_ok_fixed:
  assumes ok: "timers_ok s" and f: "map fixed (execs (xhub t)) = map fixed (execs (xhub s))"
    and c: "callers t = callers s" and clk: "clock_now (xhub t) = clock_now (xhub s)"
  shows "timers_ok t"
  unfolding timers_ok_def
proof (intro allI impI)
  fix i e p assume "find_exec i (xhub t) = Some e" and p: "callers t i = Some p"
  then obtain g where "find_exec i (xhub s) = Some g" "x_request g = x_request e"
    using find_fixed [OF f] by (auto simp: find_exec_execs)
  with ok p show "case p of AwaitTaken d \<Rightarrow> d \<le> clock_now (xhub t) + OFFER_TTL_SEC
      | AwaitOutcome d \<Rightarrow> d \<le> clock_now (xhub t) + (rat_of_nat (timeout_sec (x_request e)) + RESULT_GRACE_SEC)"
    unfolding timers_ok_def by (metis c clk)
qed

lemma timers_ok_step:
  assumes step: "exec_step s t" and ok: "timers_ok s"
  shows "timers_ok t"
proof -
  have old: "case p of AwaitTaken d \<Rightarrow> d \<le> clock_now (xhub t) + OFFER_TTL_SEC
      | AwaitOutcome d \<Rightarrow> d \<le> clock_now (xhub t) + (rat_of_nat (timeout_sec (x_request e)) + RESULT_GRACE_SEC)"
    if "find_exec i (xhub s) = Some e" "callers s i = Some p" "clock_now (xhub s) \<le> clock_now (xhub t)" for i e p
  proof -
    have "case p of AwaitTaken d \<Rightarrow> d \<le> clock_now (xhub s) + OFFER_TTL_SEC
      | AwaitOutcome d \<Rightarrow> d \<le> clock_now (xhub s) + (rat_of_nat (timeout_sec (x_request e)) + RESULT_GRACE_SEC)"
      using ok that(1,2) unfolding timers_ok_def by blast
    with that(3) show ?thesis by (auto split: call.splits)
  qed
  from step show ?thesis
  proof (cases rule: exec_step_cases)
    case inert
    then have x: "execs (xhub t) = execs (xhub s)" "clock_now (xhub s) \<le> clock_now (xhub t)"
      and p: "\<And>i p. callers t i = Some p \<Longrightarrow> callers s i = Some p
        \<or> (\<exists>e. find_exec i (xhub s) = Some e \<and> taken e \<and> p = AwaitOutcome (result_timer e (xhub t)))"
      by (auto simp: inert_def)
    have f: "find_exec i (xhub t) = find_exec i (xhub s)" for i by (simp add: find_exec_execs x)
    show ?thesis
      unfolding timers_ok_def
    proof (intro allI impI)
      fix i e p' assume e: "find_exec i (xhub t) = Some e" and c: "callers t i = Some p'"
      from p [OF c] show "case p' of AwaitTaken d \<Rightarrow> d \<le> clock_now (xhub t) + OFFER_TTL_SEC
        | AwaitOutcome d \<Rightarrow> d \<le> clock_now (xhub t) + (rat_of_nat (timeout_sec (x_request e)) + RESULT_GRACE_SEC)"
      proof
        assume "callers s i = Some p'"
        then show ?thesis using e x(2) by (intro old [of i]) (simp_all add: f)
      next
        assume "\<exists>e. find_exec i (xhub s) = Some e \<and> taken e \<and> p' = AwaitOutcome (result_timer e (xhub t))"
        then show ?thesis using e by (auto simp: f result_timer_def)
      qed
    qed
  next
    case (started i q h)
    note k = queue_execE [OF started(2)]
    show ?thesis
      unfolding timers_ok_def
    proof (intro allI impI)
      fix j e p assume e: "find_exec j (xhub t) = Some e" and c: "callers t j = Some p"
      show "case p of AwaitTaken d \<Rightarrow> d \<le> clock_now (xhub t) + OFFER_TTL_SEC
        | AwaitOutcome d \<Rightarrow> d \<le> clock_now (xhub t) + (rat_of_nat (timeout_sec (x_request e)) + RESULT_GRACE_SEC)"
      proof (cases "j = i")
        case True
        then show ?thesis using c by (auto simp: started(3))
      next
        case False
        then have "find_exec j (xhub s) = Some e"
          using e by (simp add: started(3) k(3) find_exec_execs find_snoc new_exec_def split: option.splits)
        then show ?thesis using False c by (intro old) (simp_all add: started(3) k(3))
      qed
    qed
  next
    case (left e ev)
    show ?thesis
      unfolding timers_ok_def
    proof (intro allI impI)
      fix j f p assume f: "find_exec j (xhub t) = Some f" and c: "callers t j = Some p"
      have j: "j \<noteq> x_id e" "callers s j = Some p" using c by (auto simp: left(2) leave_def split: if_splits)
      then have "find_exec j (xhub s) = Some f" using f by (simp add: left(2) leave_def find_exec_execs find_filter)
      then show "case p of AwaitTaken d \<Rightarrow> d \<le> clock_now (xhub t) + OFFER_TTL_SEC
        | AwaitOutcome d \<Rightarrow> d \<le> clock_now (xhub t) + (rat_of_nat (timeout_sec (x_request f)) + RESULT_GRACE_SEC)"
        using j by (intro old) (simp_all add: left(2) leave_def)
    qed
  next
    case (got w m i k)
    then show ?thesis using take_exec_fixed [OF got(1)] by (intro timers_ok_fixed [OF ok]) simp_all
  next
    case (reported m i r h b)
    have "clock_now h = clock_now (xhub s)" by (rule deliver_cases [OF reported(1)]) simp_all
    then show ?thesis using deliver_fixed [OF reported(1)] by (intro timers_ok_fixed [OF ok]) (simp_all add: reported(2))
  next
    case (closed m)
    then show ?thesis by (intro timers_ok_fixed [OF ok]) (simp_all add: close_exec_machine_def)
  qed
qed

section \<open>The hub keeps its promises\<close>

definition exec_inv :: "exec_system \<Rightarrow> bool" where
  "exec_inv s \<longleftrightarrow> ids_ok s \<and> queue_ok s \<and> handed_ok s \<and> ended_ok s \<and> room_ok s \<and> fresh_ok s
     \<and> wakeful (xhub s) \<and> timers_ok s"

lemma exec_invD:
  assumes "exec_inv s"
  shows "ids_ok s" "queue_ok s" "handed_ok s" "ended_ok s" "room_ok s" "fresh_ok s" "wakeful (xhub s)" "timers_ok s"
  using assms by (simp_all add: exec_inv_def)

lemma exec_inv_start: "exec_start s \<Longrightarrow> exec_inv s"
  by (auto simp: exec_start_def exec_inv_def ExecHub_def ids_ok_def queue_ok_def handed_ok_def ended_ok_def room_ok_def
      fresh_ok_def wakeful_def timers_ok_def running_def open_commands_def)

lemma exec_inv_step: "exec_inv s \<Longrightarrow> exec_step s t \<Longrightarrow> exec_inv t"
  unfolding exec_inv_def
  using ids_ok_step exec_queue_ok_step handed_ok_step ended_ok_step room_ok_step fresh_ok_step wakeful_step timers_ok_step by blast

lemma trace_grows: "exec_step s t \<Longrightarrow> prefix (trace s) (trace t)"
  by (erule exec_step_cases) (auto simp: inert_def leave_def)

interpretation exec_machine: audited_system exec_start exec_step exec_inv trace
  by unfold_locales (auto intro: exec_inv_start exec_inv_step trace_grows)

end
