(* ===== verification/Exec_Claims.thy ===== *)
theory Exec_Claims
  imports Exec_Waits
begin

text \<open>The properties of the exec hub, over every run of \<open>exec_step\<close> from an empty hub.\<close>

section \<open>Slots\<close>

definition busy_slots :: "exec_machine \<Rightarrow> exec_hub \<Rightarrow> exec_id set" where
  "busy_slots m h = set (map x_id (filter (\<lambda>e. x_machine_id e = m) (execs h)))
     \<union> set (map fst (filter (\<lambda>x. mark_machine (snd x) = m) (held h)))"

lemma finite_busy_slots [simp]: "finite (busy_slots m h)"
  by (simp add: busy_slots_def)

lemma card_busy_slots: "card (busy_slots m h) \<le> running m h"
  unfolding busy_slots_def running_def
  by (rule order_trans [OF card_Un_le add_mono]) (metis card_length length_map)+

lemma busy_in_slots:
  assumes inv: "exec_inv s"
  shows "busy s m \<subseteq> busy_slots m (xhub s)"
proof
  fix i assume "i \<in> busy s m"
  then obtain t n where i: "(i, m, t) \<in> set (open_commands (trace s))" "Started i m n \<in> set (trace s)"
    "clock_now (xhub s) < t + rat_of_nat n + RESULT_GRACE_SEC" by (auto simp: busy_def)
  from room_okD(5) [OF exec_invD(5) [OF inv] i] show "i \<in> busy_slots m (xhub s)"
  proof
    assume "i \<in> hub_ids s"
    then obtain e where e: "e \<in> set (execs (xhub s))" "x_id e = i" by auto
    have "m = x_machine_id e"
      using open_handed [OF i(1)] handed_okD(1) [OF exec_invD(3) [OF inv] e(1)] e(2) unfolding exec_fine_def by blast
    with e show ?thesis by (auto simp: busy_slots_def)
  next
    assume "(i, \<lparr>mark_machine = m, mark_until = t + rat_of_nat n + RESULT_GRACE_SEC\<rparr>) \<in> set (held (xhub s))"
    then show ?thesis by (force simp: busy_slots_def)
  qed
qed

section \<open>Going on\<close>


lemma caller_answers:
  assumes "callers s i = Some (AwaitOutcome d)" "find_exec i (xhub s) = Some e"
  shows "\<exists>t r. exec_step\<^sup>*\<^sup>* s t \<and> trace t = trace s @ [Ended i r] \<and> callers t i = None
    \<and> clock_now (xhub t) = max d (clock_now (xhub s))"
proof -
  let ?d = "max d (clock_now (xhub s)) - clock_now (xhub s)"
  let ?u = "s\<lparr>xhub := (xhub s)\<lparr>clock_now := clock_now (xhub s) + ?d\<rparr>\<rparr>"
  have u: "exec_step s ?u" by (rule exec_step.tick) simp
  have f: "find_exec i (xhub ?u) = Some e" using assms(2) by (simp add: find_exec_def)
  have t: "exec_step ?u (leave e (Ended i (result_outcome e)) ?u)"
    by (rule exec_step.answered [OF _ f, of d]) (simp_all add: assms(1) until_done_def)
  have i: "x_id e = i" using find_exec_Some [OF assms(2)] by simp
  show ?thesis
    by (rule exI [of _ "leave e (Ended i (result_outcome e)) ?u"], rule exI [of _ "result_outcome e"])
      (use converse_rtranclp_into_rtranclp [OF u r_into_rtranclp [of exec_step, OF t]] i in \<open>simp add: leave_def\<close>)
qed

lemma caller_ends:
  assumes inv: "exec_inv s" and c: "callers s i = Some p"
  shows "\<exists>e t r. find_exec i (xhub s) = Some e \<and> exec_step\<^sup>*\<^sup>* s t \<and> trace t = trace s @ [Ended i r] \<and> callers t i = None
    \<and> clock_now (xhub t) \<le> clock_now (xhub s) + OFFER_TTL_SEC + (rat_of_nat (timeout_sec (x_request e)) + RESULT_GRACE_SEC)"
proof -
  note ids = exec_invD(1) [OF inv]
  have "i \<in> hub_ids s" using c ids_okD(2) [OF ids] by auto
  then obtain e where "e \<in> set (execs (xhub s))" "x_id e = i" by auto
  then have e: "find_exec i (xhub s) = Some e" "x_id e = i" using find_exec_mem [OF ids_okD(1) [OF ids]] by auto
  have grace: "0 \<le> rat_of_nat (timeout_sec (x_request e)) + RESULT_GRACE_SEC" by (simp add: RESULT_GRACE_SEC_def)
  have timer: "case p of AwaitTaken d \<Rightarrow> d \<le> clock_now (xhub s) + OFFER_TTL_SEC
      | AwaitOutcome d \<Rightarrow> d \<le> clock_now (xhub s) + (rat_of_nat (timeout_sec (x_request e)) + RESULT_GRACE_SEC)"
    using exec_invD(8) [OF inv] e c unfolding timers_ok_def by blast
  have off: "0 \<le> OFFER_TTL_SEC" by (simp add: OFFER_TTL_SEC_def)
  show ?thesis
  proof (cases p)
    case (AwaitOutcome d)
    obtain t r where "exec_step\<^sup>*\<^sup>* s t" "trace t = trace s @ [Ended i r]" "callers t i = None"
      "clock_now (xhub t) = max d (clock_now (xhub s))"
      using caller_answers [OF c [unfolded AwaitOutcome] e(1)] by blast
    with e timer AwaitOutcome off grace show ?thesis by (intro exI [of _ e] exI [of _ t] exI [of _ r]) auto
  next
    case (AwaitTaken d)
    let ?n = "max d (clock_now (xhub s))"
    let ?u = "s\<lparr>xhub := (xhub s)\<lparr>clock_now := clock_now (xhub s) + (?n - clock_now (xhub s))\<rparr>\<rparr>"
    have u: "exec_step s ?u" by (rule exec_step.tick) simp
    have f: "find_exec i (xhub ?u) = Some e" using e(1) by (simp add: find_exec_def)
    have n: "clock_now (xhub ?u) = ?n" "?n \<le> clock_now (xhub s) + OFFER_TTL_SEC" using timer AwaitTaken off by auto
    have cu: "callers ?u i = Some (AwaitTaken d)" "until_done d (taken e) (xhub ?u)"
      by (simp_all add: c AwaitTaken until_done_def)
    show ?thesis
    proof (cases "taken e")
      case False
      let ?t = "leave e (Ended i (Inl (ExecLostError False))) ?u"
      have "exec_step ?u ?t" by (rule exec_step.unoffered [OF cu(1) f cu(2)]) (simp add: result_taken_def False)
      with u have "exec_step\<^sup>*\<^sup>* s ?t" by (meson converse_rtranclp_into_rtranclp r_into_rtranclp)
      moreover have "trace ?t = trace s @ [Ended i (Inl (ExecLostError False))]" "callers ?t i = None" "clock_now (xhub ?t) = ?n"
        by (simp_all add: leave_def e)
      moreover have "?n \<le> clock_now (xhub s) + OFFER_TTL_SEC + (rat_of_nat (timeout_sec (x_request e)) + RESULT_GRACE_SEC)"
        using n(2) grace by linarith
      ultimately show ?thesis using e(1) by (metis (no_types, lifting))
    next
      case True
      let ?v = "?u\<lparr>callers := (callers ?u)(i \<mapsto> AwaitOutcome (result_timer e (xhub ?u)))\<rparr>"
      have "exec_step ?u ?v" by (rule exec_step.offered [OF cu(1) f cu(2)]) (simp add: result_taken_def True)
      with u have v: "exec_step\<^sup>*\<^sup>* s ?v" by (meson converse_rtranclp_into_rtranclp r_into_rtranclp)
      obtain t r where t: "exec_step\<^sup>*\<^sup>* ?v t" "trace t = trace ?v @ [Ended i r]" "callers t i = None"
        "clock_now (xhub t) = max (result_timer e (xhub ?u)) (clock_now (xhub ?v))"
        using caller_answers [of ?v i "result_timer e (xhub ?u)" e] f by auto
      have "clock_now (xhub t) = ?n + (rat_of_nat (timeout_sec (x_request e)) + RESULT_GRACE_SEC)"
        using grace by (simp add: t(4) result_timer_def)
      then have "clock_now (xhub t) \<le> clock_now (xhub s) + OFFER_TTL_SEC + (rat_of_nat (timeout_sec (x_request e)) + RESULT_GRACE_SEC)"
        using n(2) by linarith
      moreover have "exec_step\<^sup>*\<^sup>* s t" using v t(1) by (rule rtranclp_trans)
      moreover have "trace t = trace s @ [Ended i r]" using t(2) by simp
      ultimately show ?thesis using e(1) t(3) by blast
    qed
  qed
qed

section \<open>A run to try them on\<close>

text \<open>
  Alice runs \<open>ls\<close> on machine 7 while its host holds a wait. The host is woken and handed the
  command, reports exit code 0, and the caller takes the result.
\<close>

definition ls_request :: exec_request where
  "ls_request = \<lparr>command_line = ''ls'', start_cwd = ''/'', timeout_sec = 10, stdin_b64 = None, env_vars = None\<rparr>"

definition ls_submission :: submission where
  "ls_submission = \<lparr>s_user = ''alice'', s_machine_id = 7, s_machine = ''box'', s_request = ls_request\<rparr>"

definition ls_result :: exec_result where
  "ls_result = \<lparr>exit_code = 0, stdout_b64 = '''', stderr_b64 = '''', end_cwd = ''/'', truncated = False, duration_ms = 1\<rparr>"

definition ls_exec :: exec where
  "ls_exec = new_exec 0 ls_submission"

definition run0 :: exec_system where
  "run0 = \<lparr>xhub = ExecHub 0 60, callers = \<lambda>_. None, waits = \<lambda>_. None, trace = []\<rparr>"

definition run1 :: exec_system where
  "run1 = run0\<lparr>xhub := (ExecHub 0 60)\<lparr>holds := (\<lambda>_. [])(7 := [(3, None)])\<rparr>,
     waits := (\<lambda>_. None)(3 \<mapsto> \<lparr>w_machine = 7, w_deadline = 20, w_stop = Parked\<rparr>)\<rparr>"

definition run2 :: exec_system where
  "run2 = run1\<lparr>xhub := (ExecHub 0 60)\<lparr>execs := [ls_exec], queued := (\<lambda>_. [])(7 := [0]),
       starts := (\<lambda>_. [])(''alice'' := [0]), holds := (\<lambda>_. [])(7 := [(3, Some False)])\<rparr>,
     callers := (\<lambda>_. None)(0 \<mapsto> AwaitTaken 30), trace := [Started 0 7 10]\<rparr>"

definition run3 :: exec_system where
  "run3 = run2\<lparr>xhub := (xhub run2)\<lparr>holds := \<lambda>_. []\<rparr>,
     waits := (\<lambda>_. None)(3 \<mapsto> \<lparr>w_machine = 7, w_deadline = 20, w_stop = Asking False\<rparr>)\<rparr>"

definition run4 :: exec_system where
  "run4 = run3\<lparr>xhub := (xhub run3)\<lparr>queued := \<lambda>_. [], execs := [ls_exec\<lparr>handed_at := Some 0, taken := True\<rparr>]\<rparr>,
     waits := \<lambda>_. None, trace := [Started 0 7 10, Handed 0 7 0]\<rparr>"

lemmas run_defs = run0_def run1_def run2_def run3_def run4_def ls_exec_def ls_submission_def ls_request_def ExecHub_def

lemma run_step1: "exec_step run0 run1"
proof -
  have "settle 3 7 (clock_now (xhub run0) + 20) (wait_start 7 20 3 (xhub run0)) run0 = run1"
    by (simp add: run_defs wait_start_def wait_round_def wait_park_def settle_def)
  with exec_step.wait_began [of run0 3 7 20] show ?thesis by (simp add: run0_def)
qed

lemma run_step2: "exec_step run1 run2"
proof -
  have "queue_exec 0 ls_submission (xhub run1) = (xhub run2, Inr 0)"
    by (simp add: run_defs queue_exec_def Let_def sweep_marks_def running_def new_exec_def set_future_def
        MAX_EXECS_PER_MIN_PER_USER_def MAX_RUNNING_PER_MACHINE_def fun_eq_iff)
  from exec_step.started [OF _ this] show ?thesis by (simp add: run_defs OFFER_TTL_SEC_def start_ids_def)
qed

lemma run_step3: "exec_step run2 run3"
proof -
  have "settle 3 7 20 (wait_resumed 7 20 3 (xhub run2)) run2 = run3"
    by (simp add: run_defs wait_resumed_def wait_round_def forget_waiter_def settle_def fun_eq_iff Let_def)
  with exec_step.wait_woke [of run2 3 7 20] show ?thesis
    by (simp add: run2_def run1_def run0_def until_done_def)
qed

lemma run_step4: "exec_step run3 run4"
proof -
  have "settle 3 7 20 (claim_answered 7 20 3 False True (xhub run3)) run3 = run4"
    by (simp add: run_defs claim_answered_def take_exec_def untaken_def find_exec_def update_exec_def settle_def fun_eq_iff
        new_exec_def)
  with exec_step.wait_claimed [of run3 3 7 20 False True] show ?thesis by (simp add: run3_def)
qed

lemma run_start: "exec_start run0"
  unfolding exec_start_def run0_def by (intro exI [of _ 0] exI [of _ 60]) simp

lemma run_reaches2: "exec_step\<^sup>*\<^sup>* run0 run2"
  by (rule converse_rtranclp_into_rtranclp [OF run_step1 r_into_rtranclp [of exec_step, OF run_step2]])

lemma run_reaches4: "exec_step\<^sup>*\<^sup>* run0 run4"
  by (rule rtranclp_trans [OF run_reaches2 converse_rtranclp_into_rtranclp
        [OF run_step3 r_into_rtranclp [of exec_step, OF run_step4]]])

section \<open>Properties\<close>

text \<open>C35: A command is handed out at most once, and only to a host of the machine it was started on.
  When its caller's wait ends, the caller is told the truth: a result is one the machine it was
  handed to reported and had accepted; a lost or revoked command carries \<open>taken\<close> exactly when a
  host was handed it, then or in any later step, so a caller told that it did not run can safely
  run it again.
\<close>

theorem command_handed_once_and_told:
  assumes "exec_start s0" "exec_step\<^sup>*\<^sup>* s0 s"
  shows "distinct (handed_ids (trace s))
    \<and> (\<forall>i m x m' n. Handed i m x \<in> set (trace s) \<longrightarrow> Started i m' n \<in> set (trace s) \<longrightarrow> m = m')
    \<and> (\<forall>i r. Ended i r \<in> set (trace s) \<longrightarrow> told (trace s) i r)"
proof -
  note inv = exec_machine.reachable_inv [OF assms]
  show ?thesis
    using handed_okD(2,3) [OF exec_invD(3) [OF inv]] exec_invD(4) [OF inv] unfolding ended_ok_def by blast
qed

theorem command_handed_once_and_told_witness:
  "distinct (handed_ids (trace run4)) \<and> Handed 0 7 0 \<in> set (trace run4)"
  using command_handed_once_and_told [OF run_start run_reaches4] by (simp add: run4_def)

text \<open>C36: Whatever callers, hosts and revocations do, a machine is never running more than
  \<open>MAX_RUNNING_PER_MACHINE\<close> commands: those handed to it whose timeout and grace are not over, less
  those it reported and those of a machine revoked since. The slot of a command whose caller went
  away stays taken.
\<close>

theorem machine_never_overloaded:
  assumes "exec_start s0" "exec_step\<^sup>*\<^sup>* s0 s"
  shows "finite (busy s m) \<and> card (busy s m) \<le> MAX_RUNNING_PER_MACHINE"
proof -
  note inv = exec_machine.reachable_inv [OF assms]
  have sub: "busy s m \<subseteq> busy_slots m (xhub s)" by (rule busy_in_slots [OF inv])
  have "card (busy_slots m (xhub s)) \<le> running m (xhub s)" by (rule card_busy_slots)
  also have "\<dots> \<le> MAX_RUNNING_PER_MACHINE" by (rule room_okD(4) [OF exec_invD(5) [OF inv]])
  finally show ?thesis using sub by (meson card_mono finite_busy_slots finite_subset order_trans)
qed

theorem machine_never_overloaded_witness:
  "0 \<in> busy run4 7 \<and> card (busy run4 7) \<le> MAX_RUNNING_PER_MACHINE"
proof
  show "0 \<in> busy run4 7"
    by (simp add: busy_def run4_def run3_def run2_def run1_def run0_def ExecHub_def open_commands_def RESULT_GRACE_SEC_def)
qed (use machine_never_overloaded [OF run_start run_reaches4] in simp)



text \<open>C38: \<open>ExecHub.run\<close> ends. From any reachable state, a caller whose command is queued or running is
  still known to the hub and its own steps alone (no host, no report) end its wait, with a result or
  an error, within \<open>OFFER_TTL_SEC\<close> plus the command's timeout plus \<open>RESULT_GRACE_SEC\<close>.
\<close>

theorem run_ends:
  assumes "exec_start s0" "exec_step\<^sup>*\<^sup>* s0 s" "callers s i = Some p"
  shows "\<exists>e t r. find_exec i (xhub s) = Some e \<and> exec_step\<^sup>*\<^sup>* s t \<and> trace t = trace s @ [Ended i r] \<and> callers t i = None
    \<and> clock_now (xhub t) \<le> clock_now (xhub s) + OFFER_TTL_SEC + (rat_of_nat (timeout_sec (x_request e)) + RESULT_GRACE_SEC)"
  by (rule caller_ends [OF exec_machine.reachable_inv [OF assms(1,2)] assms(3)])

theorem run_ends_witness:
  "\<exists>t r. exec_step\<^sup>*\<^sup>* run2 t \<and> trace t = [Started 0 7 10, Ended 0 r] \<and> clock_now (xhub t) \<le> 55"
proof -
  obtain e t r where r: "find_exec 0 (xhub run2) = Some e" "exec_step\<^sup>*\<^sup>* run2 t" "trace t = trace run2 @ [Ended 0 r]"
    "clock_now (xhub t) \<le> clock_now (xhub run2) + OFFER_TTL_SEC + (rat_of_nat (timeout_sec (x_request e)) + RESULT_GRACE_SEC)"
    using run_ends [OF run_start run_reaches2, of 0 "AwaitTaken 30"] by (auto simp: run2_def)
  have "e = ls_exec" using r(1) by (simp add: run2_def find_exec_def ls_exec_def new_exec_def)
  with r(3,4) have "trace t = [Started 0 7 10, Ended 0 r]" "clock_now (xhub t) \<le> 55"
    by (simp_all add: run_defs new_exec_def OFFER_TTL_SEC_def RESULT_GRACE_SEC_def)
  with r(2) show ?thesis by blast
qed

end
