(* ===== verification/Submit_Bodies.thy ===== *)
theory Submit_Bodies
  imports Store_Machine
begin

text \<open>
  \<open>wire/bodies.py\<close>: what a client submits, and the validators every body passes before the store
  sees it. A body is the part every kind shares (\<open>SubmitBase\<close>) and the fields of its kind. An
  aware datetime is its instant with the text \<open>isoformat\<close> renders it as. A validator that rewrites
  its field (a blank scalar to \<open>None\<close>, later duplicates dropped) is part of \<open>parse_body\<close>.
\<close>

section \<open>Bodies\<close>

record submit_base =
  sb_title :: string
  sb_description :: "string option"
  sb_created :: "(nat \<times> string) option"
  sb_status :: "string option"
  sb_app :: "json option"
  sb_owner :: "string option"
  sb_account :: "string option"
  sb_actor :: "string option"
  sb_reason :: string
  sb_idempotency_key :: "uuid option"
  sb_labels :: "string list option"
  sb_subscribers :: "string list option"
  sb_modified :: "nat option"
  sb_marginal_cost :: cost

record citation =
  artifact_id :: uuid
  artifact_kind :: inquiry_kind
  cited_valence :: pyfloat

record paper_fields =
  pf_abstract :: "string option"
  pf_authors :: "string list option"
  pf_publication_type :: "string option"
  pf_venue :: "string option"
  pf_subvenue :: "string option"
  pf_publish_date :: "int option"
  pf_source :: "string option"
  pf_cluster_id :: "string option"
  pf_cites_id :: "string option"

text \<open>
  The fields in the order of the classes: \<open>SubmitIssue issue_kind validation priority narrows
  requires\<close>, \<open>SubmitExperiment codechanges outcome config\<close>, \<open>SubmitBelief judgement confidence proved_by
  favored_by\<close>, \<open>SubmitWebSearch query provider\<close>, \<open>SubmitAgentSession cli cli_session_id started rooms\<close>.
\<close>

datatype submit_body =
    SubmitIssue "string list option" "string option" "int option" "(uuid \<times> int option) list" "uuid list"
  | SubmitArtifact
  | SubmitExperiment "uuid list option" "string option" "json option"
  | SubmitPaper paper_fields
  | SubmitBelief "string option" "pyfloat option" "citation list" "citation list"
  | SubmitCodeChange "string option"
  | SubmitWebResult "string option"
  | SubmitWebSearch "string option" "string option"
  | SubmitAgentSession "string option" "string option" "int option" "string list option"
  | SubmitAccessGroup

fun submit_kind :: "submit_body \<Rightarrow> inquiry_kind" where
  "submit_kind (SubmitIssue _ _ _ _ _) = Issue"
| "submit_kind SubmitArtifact = Artifact"
| "submit_kind (SubmitExperiment _ _ _) = Experiment"
| "submit_kind (SubmitPaper _) = Paper"
| "submit_kind (SubmitBelief _ _ _ _) = Belief"
| "submit_kind (SubmitCodeChange _) = CodeChange"
| "submit_kind (SubmitWebResult _) = WebResult"
| "submit_kind (SubmitWebSearch _ _) = WebSearch"
| "submit_kind (SubmitAgentSession _ _ _ _) = AgentSession"
| "submit_kind SubmitAccessGroup = AccessGroup"

text \<open>Each endpoint of a batch's edge is a row of the batch, by index, or a stored row, by id.\<close>

datatype batch_end = FromIndex nat | FromId uuid

record batch_edge =
  be_from :: batch_end
  be_to :: batch_end
  be_kind :: edge_kind
  be_priority :: "int option"
  be_note :: string
  be_valence :: "pyfloat option"
  be_labels :: "string list"

section \<open>Validators\<close>

definition is_blank :: "string \<Rightarrow> bool" where
  "is_blank x \<longleftrightarrow> strip x = []"

definition unless_none :: "('a \<Rightarrow> bool) \<Rightarrow> 'a option \<Rightarrow> bool" where
  "unless_none P x \<longleftrightarrow> (case x of None \<Rightarrow> True | Some y \<Rightarrow> P y)"

definition reject_blank_strings :: "string list \<Rightarrow> bool" where
  "reject_blank_strings xs \<longleftrightarrow> list_all (\<lambda>x. \<not> is_blank x) xs"

definition validate_created :: "nat \<Rightarrow> nat \<Rightarrow> bool" where
  "validate_created now d \<longleftrightarrow> 0 < d \<and> d \<le> now"

definition check_modified :: "submit_base \<Rightarrow> bool" where
  "check_modified b \<longleftrightarrow>
     (case sb_modified b of
        None \<Rightarrow> True
      | Some m \<Rightarrow> (case sb_created b of None \<Rightarrow> False | Some (d, _) \<Rightarrow> d \<le> m))"

definition valid_base :: "nat \<Rightarrow> submit_base \<Rightarrow> bool" where
  "valid_base now b \<longleftrightarrow>
     \<not> is_blank (sb_title b)
   \<and> unless_none (\<lambda>d. validate_created now (fst d)) (sb_created b)
   \<and> unless_none (\<lambda>x. x \<in> set STATUSES) (sb_status b)
   \<and> unless_none (\<lambda>j. case j of JObj _ \<Rightarrow> True | _ \<Rightarrow> False) (sb_app b)
   \<and> unless_none (\<lambda>x. \<not> is_blank x) (sb_account b)
   \<and> unless_none (\<lambda>x. \<not> is_blank x) (sb_actor b)
   \<and> unless_none reject_blank_strings (sb_subscribers b)
   \<and> check_modified b"

definition blank_scalar_to_none :: "string option \<Rightarrow> string option" where
  "blank_scalar_to_none v =
     (case v of None \<Rightarrow> None | Some x \<Rightarrow> if is_blank x then None else Some x)"

text \<open>\<open>_dedupe_preserving_order\<close>: the loop over \<open>value\<close> with the markers seen so far.\<close>

fun dedupe_by :: "('a \<Rightarrow> 'b) \<Rightarrow> 'b set \<Rightarrow> 'a list \<Rightarrow> 'a list" where
  "dedupe_by f seen [] = []"
| "dedupe_by f seen (x # xs) =
     (if f x \<in> seen then dedupe_by f seen xs else x # dedupe_by f (insert (f x) seen) xs)"

definition validate_room_names :: "string list \<Rightarrow> bool" where
  "validate_room_names xs \<longleftrightarrow> reject_blank_strings xs \<and> list_all (\<lambda>x. CHR '','' \<notin> set x) xs"

definition CHAT_SESSION_PREFIX :: string where "CHAT_SESSION_PREFIX = ''chat:''"

definition in_unit :: "rat \<Rightarrow> pyfloat \<Rightarrow> bool" where
  "in_unit lo x \<longleftrightarrow> x \<noteq> NaN \<and> \<not> float_lt x (Fin lo) \<and> \<not> float_lt (Fin 1) x"

definition valid_citation :: "citation \<Rightarrow> bool" where
  "valid_citation c \<longleftrightarrow> in_unit (- 1) (cited_valence c) \<and> artifact_kind c \<notin> {Issue, AccessGroup}"

definition validate_source :: "string option \<Rightarrow> string option res" where
  "validate_source v =
     (case v of
        None \<Rightarrow> Inr None
      | Some x \<Rightarrow> if is_blank x then Inr None else if is_valid_source x then Inr (Some x) else Inl ValueError)"

text \<open>The fields of one kind: refused with \<open>ValueError\<close>, or as the validators leave them.\<close>

fun parse_body :: "submit_base \<Rightarrow> submit_body \<Rightarrow> submit_body res" where
  "parse_body b (SubmitIssue iks val prio ns rs) =
     (if unless_none (\<lambda>xs. xs \<noteq> [] \<and> set xs \<subseteq> set ISSUE_KINDS) iks
       \<and> unless_none (\<lambda>n. 0 \<le> n) prio
       \<and> list_all (\<lambda>n. unless_none (\<lambda>p. 0 \<le> p) (snd n)) ns
      then Inr (SubmitIssue iks val prio ns (dedupe_by (\<lambda>i. i) {} rs))
      else Inl ValueError)"
| "parse_body b SubmitArtifact = Inr SubmitArtifact"
| "parse_body b (SubmitExperiment ccs out cfg) =
     (if unless_none (\<lambda>j. case j of JObj _ \<Rightarrow> True | _ \<Rightarrow> False) cfg then Inr (SubmitExperiment ccs out cfg)
      else Inl ValueError)"
| "parse_body b (SubmitPaper p) =
     (if \<not> unless_none (\<lambda>x. x \<in> set PUBLICATION_TYPES) (pf_publication_type p) then Inl ValueError
      else bind_res (validate_source (pf_source p)) (\<lambda>src.
        Inr (SubmitPaper (p\<lparr>pf_abstract := blank_scalar_to_none (pf_abstract p),
               pf_venue := blank_scalar_to_none (pf_venue p),
               pf_subvenue := blank_scalar_to_none (pf_subvenue p),
               pf_cluster_id := blank_scalar_to_none (pf_cluster_id p),
               pf_cites_id := blank_scalar_to_none (pf_cites_id p), pf_source := src\<rparr>))))"
| "parse_body b (SubmitBelief j c ps fs) =
     (if unless_none (\<lambda>x. x \<in> set JUDGEMENTS) j \<and> unless_none (in_unit 0) c
       \<and> list_all valid_citation ps \<and> list_all valid_citation fs
      then Inr (SubmitBelief j c (dedupe_by artifact_id {} ps) (dedupe_by artifact_id {} fs))
      else Inl ValueError)"
| "parse_body b (SubmitCodeChange sha) = Inr (SubmitCodeChange (blank_scalar_to_none sha))"
| "parse_body b (SubmitWebResult url) = Inr (SubmitWebResult (blank_scalar_to_none url))"
| "parse_body b (SubmitWebSearch q p) = Inr (SubmitWebSearch (blank_scalar_to_none q) (blank_scalar_to_none p))"
| "parse_body b (SubmitAgentSession cli cid started rooms) =
     (if unless_none (\<lambda>x. \<not> is_blank x) cli \<and> unless_none (\<lambda>x. \<not> is_blank x) cid
       \<and> unless_none validate_room_names rooms
       \<and> \<not> (sb_created b \<noteq> None \<and> prefix CHAT_SESSION_PREFIX (case cid of None \<Rightarrow> [] | Some x \<Rightarrow> x))
      then Inr (SubmitAgentSession cli cid started rooms)
      else Inl ValueError)"
| "parse_body b SubmitAccessGroup = Inr SubmitAccessGroup"

definition parse_submit :: "nat \<Rightarrow> submit_base \<times> submit_body \<Rightarrow> (submit_base \<times> submit_body) res" where
  "parse_submit now item =
     (if valid_base now (fst item) then bind_res (parse_body (fst item) (snd item)) (\<lambda>body. Inr (fst item, body))
      else Inl ValueError)"

section \<open>Batches\<close>

definition BATCH_MAX_ITEMS :: nat where "BATCH_MAX_ITEMS = 1000"

text \<open>\<open>_check_endpoint_kind\<close>: only an endpoint named by its index has a kind the wire can see.\<close>

definition check_endpoint_kind :: "(submit_base \<times> submit_body) list \<Rightarrow> batch_end \<Rightarrow> kind_group \<Rightarrow> bool" where
  "check_endpoint_kind rows x g \<longleftrightarrow>
     (case x of FromId _ \<Rightarrow> True
      | FromIndex n \<Rightarrow> n < length rows \<and> submit_kind (snd (rows ! n)) \<in> set (kind_group_members g))"

definition valid_batch_edge :: "(submit_base \<times> submit_body) list \<Rightarrow> batch_edge \<Rightarrow> bool" where
  "valid_batch_edge rows e \<longleftrightarrow>
     unless_none (\<lambda>p. 0 \<le> p) (be_priority e) \<and> unless_none (in_unit (- 1)) (be_valence e)
   \<and> check_endpoint_kind rows (be_from e) (from_kinds (EDGE_POLICIES (be_kind e)))
   \<and> check_endpoint_kind rows (be_to e) (to_kinds (EDGE_POLICIES (be_kind e)))"

fun parse_items :: "nat \<Rightarrow> (submit_base \<times> submit_body) list \<Rightarrow> (submit_base \<times> submit_body) list res" where
  "parse_items now [] = Inr []"
| "parse_items now (x # xs) =
     bind_res (parse_submit now x) (\<lambda>y. bind_res (parse_items now xs) (\<lambda>ys. Inr (y # ys)))"

definition parse_batch ::
  "nat \<Rightarrow> (submit_base \<times> submit_body) list \<Rightarrow> batch_edge list
   \<Rightarrow> ((submit_base \<times> submit_body) list \<times> batch_edge list) res" where
  "parse_batch now rows es =
     bind_res (parse_items now rows) (\<lambda>its.
       let keys = map (\<lambda>x. sb_idempotency_key (fst x)) its in
       if its \<noteq> [] \<and> length its \<le> BATCH_MAX_ITEMS \<and> length es \<le> BATCH_MAX_ITEMS
         \<and> None \<notin> set keys \<and> distinct keys \<and> list_all (valid_batch_edge its) es
       then Inr (its, es) else Inl ValueError)"

end
