(* ===== verification/Submit_Store.thy ===== *)
theory Submit_Store
  imports Submit_Bodies
begin

text \<open>
  \<open>store/submit.py\<close>: the one insert path of every kind, and the batch. A transaction body fails
  with the error, whether the violated constraint is \<open>change_log_pkey\<close>, and what it leaves in the
  idempotency slot, which no rollback restores. \<open>seen\<close> is the change log as the probe of the
  transaction saw it; a change committed between the probe and the write is in the store but not
  in \<open>seen\<close>. The id \<open>uuid.uuid4()\<close> mints for the row is the argument \<open>new_id\<close>. The access policy's
  \<open>on_create\<close> is the argument \<open>grant\<close>: it may refuse, and writes in tables of its own. Embeddings are
  not modelled.
\<close>

record submit_failure =
  failed_with :: py_error
  on_change_log_pkey :: bool
  slot_left :: "uuid option"

definition failing :: "py_error \<Rightarrow> uuid option \<Rightarrow> submit_failure + 'a" where
  "failing e k = Inl \<lparr>failed_with = e, on_change_log_pkey = False, slot_left = k\<rparr>"

text \<open>A loop of statements; the first error ends it.\<close>

fun each_res :: "('a \<Rightarrow> 's \<Rightarrow> 's res) \<Rightarrow> 'a list \<Rightarrow> 's \<Rightarrow> 's res" where
  "each_res f [] s = Inr s"
| "each_res f (x # xs) s = bind_res (f x s) (each_res f xs)"

text \<open>\<open>uuid.uuid4()\<close> for a row: some id no row has and no change names.\<close>

definition mint_id :: "store \<Rightarrow> uuid" where
  "mint_id s = Suc (fold max (iq_ids s @ map subject_id (change_log s)) 0)"

section \<open>Columns of the new row\<close>

text \<open>The \<open>extras\<close> of each kind.\<close>

fun submit_extras :: "submit_body \<Rightarrow> uuid option \<Rightarrow> string \<Rightarrow> uuid \<Rightarrow> (column \<times> cval option) list" where
  "submit_extras (SubmitIssue iks val prio _ _) key aud i =
     [(IssueKind, map_option (VStrs \<circ> canonical_strs) iks), (IssueValidation, map_option VStr val),
      (IssuePriority, map_option VInt prio)]"
| "submit_extras SubmitArtifact key aud i = []"
| "submit_extras (SubmitExperiment ccs out cfg) key aud i =
     [(ExperimentCodechanges, Some (VIds (case ccs of None \<Rightarrow> [] | Some xs \<Rightarrow> xs))),
      (ExperimentOutcome, map_option VStr out), (ExperimentConfig, map_option VJson cfg)]"
| "submit_extras (SubmitPaper p) key aud i =
     [(PaperAbstract, map_option VStr (pf_abstract p)),
      (PaperAuthors, Some (VStrs (case pf_authors p of None \<Rightarrow> [] | Some xs \<Rightarrow> xs))),
      (PaperPublicationType, map_option VStr (pf_publication_type p)),
      (PaperVenue, map_option VStr (pf_venue p)), (PaperSubvenue, map_option VStr (pf_subvenue p)),
      (PaperPublishDate, map_option VTime (pf_publish_date p)), (PaperSource, map_option VStr (pf_source p)),
      (PaperClusterId, map_option VStr (pf_cluster_id p)), (PaperCitesId, map_option VStr (pf_cites_id p))]"
| "submit_extras (SubmitBelief j c _ _) key aud i =
     [(BeliefJudgement, map_option VStr j), (BeliefConfidence, map_option VFloat c)]"
| "submit_extras (SubmitCodeChange sha) key aud i = [(CodechangeSha, map_option VStr sha)]"
| "submit_extras (SubmitWebResult url) key aud i = [(WebresultUrl, map_option VStr url)]"
| "submit_extras (SubmitWebSearch q p) key aud i =
     [(WebsearchQuery, map_option VStr q), (WebsearchProvider, map_option VStr p)]"
| "submit_extras (SubmitAgentSession cli cid started rooms) key aud i =
     [(SessionCli, map_option VStr cli), (SessionCliId, map_option VStr cid), (SessionStarted, map_option VTime started),
      (SessionRooms, Some (VStrs (canonical_strs (case rooms of None \<Rightarrow> [] | Some xs \<Rightarrow> xs)))),
      (SessionOpenedBy, map_option VId key), (SessionAudience, Some (VStr aud))]"
| "submit_extras SubmitAccessGroup key aud i =
     [(GroupRead, Some (VId i)), (GroupWrite, Some (VId i)), (GroupSystem, Some (VBool False))]"

definition submit_values ::
  "submit_base \<Rightarrow> string \<Rightarrow> (column \<times> cval option) list \<Rightarrow> column \<Rightarrow> cval option" where
  "submit_values b account extras c =
     (case map_of extras c of
        Some v \<Rightarrow> v
      | None \<Rightarrow>
          (case c of
             Title \<Rightarrow> Some (VStr (sb_title b))
           | Description \<Rightarrow> map_option VStr (sb_description b)
           | Owner \<Rightarrow> map_option VStr (sb_owner b)
           | Account \<Rightarrow> Some (VStr account)
           | Labels \<Rightarrow> Some (VStrs (canonical_strs (case sb_labels b of None \<Rightarrow> [] | Some xs \<Rightarrow> xs)))
           | Subscribers \<Rightarrow> Some (VStrs (canonical_strs (case sb_subscribers b of None \<Rightarrow> [] | Some xs \<Rightarrow> xs)))
           | App \<Rightarrow> map_option VJson (sb_app b)
           | _ \<Rightarrow> None))"

section \<open>Before and after the row\<close>

definition pre_insert :: "submit_body \<Rightarrow> store \<Rightarrow> unit res" where
  "pre_insert body s =
     (case body of
        SubmitExperiment ccs _ _ \<Rightarrow>
          validate_list_references (references (COLUMN_SPECS ExperimentCodechanges))
            (map (\<lambda>i. (i, None)) (case ccs of None \<Rightarrow> [] | Some xs \<Rightarrow> xs)) s
      | _ \<Rightarrow> Inr ())"

definition link ::
  "uuid \<Rightarrow> inquiry_kind \<Rightarrow> edge_kind \<Rightarrow> uuid option \<Rightarrow> string \<Rightarrow> uuid \<Rightarrow> inquiry_kind option \<Rightarrow> bool
   \<Rightarrow> uuid \<times> int option \<times> pyfloat option \<Rightarrow> store \<Rightarrow> store res" where
  "link i k ek key who cause kind as_from x s =
     bind_res (insert_edge_and_audit i k (fst x) ek key who cause (fst (snd x)) (snd (snd x)) kind as_from s)
       (\<lambda>(t, inserted). Inr t)"

definition cite ::
  "uuid \<Rightarrow> edge_kind \<Rightarrow> uuid option \<Rightarrow> string \<Rightarrow> uuid \<Rightarrow> citation \<Rightarrow> store \<Rightarrow> store res" where
  "cite i ek key who cause c s =
     link i Belief ek key who cause (Some (artifact_kind c)) True (artifact_id c, None, Some (cited_valence c)) s"

definition post_insert :: "submit_body \<Rightarrow> uuid \<Rightarrow> uuid \<Rightarrow> uuid option \<Rightarrow> string \<Rightarrow> store \<Rightarrow> store res" where
  "post_insert body i cause key who s =
     (case body of
        SubmitIssue _ _ _ ns rs \<Rightarrow>
          bind_res (each_res (\<lambda>n. link i Issue Narrows key who cause None False (fst n, snd n, None)) ns s) (\<lambda>t.
          each_res (\<lambda>r. link i Issue Requires key who cause None False (r, None, None)) rs t)
      | SubmitBelief _ _ ps fs \<Rightarrow>
          bind_res (each_res (cite i Proves key who cause) ps s) (\<lambda>t.
          each_res (cite i Favors key who cause) fs t)
      | _ \<Rightarrow> Inr s)"

text \<open>\<open>UPDATE inquiries SET modified = $2 WHERE id = $1\<close>, for each stamp.\<close>

definition restamp_modified :: "(uuid \<times> nat) list \<Rightarrow> store \<Rightarrow> store" where
  "restamp_modified stamps s =
     fold (\<lambda>(i, m) s. s\<lparr>inquiries := (inquiries s)(i := map_option (iq_modified_update (\<lambda>_. m)) (inquiries s i))\<rparr>) stamps s"

definition backfill_reason :: "submit_base \<Rightarrow> string" where
  "backfill_reason b =
     (case sb_created b of
        None \<Rightarrow> []
      | Some (_, stamp) \<Rightarrow>
          ''backfill: created='' @ stamp @ (if sb_reason b \<noteq> [] then ''; '' @ sb_reason b else []))"

section \<open>One submit\<close>

definition lookup_existing_by_change :: "uuid \<Rightarrow> inquiry_kind \<Rightarrow> store \<Rightarrow> uuid option res" where
  "lookup_existing_by_change key kind s =
     (case find_change key s of
        None \<Rightarrow> Inr None
      | Some c \<Rightarrow>
          if change_kind c \<noteq> Created then Inl ConflictError
          else if subject_kind c \<noteq> kind then Inl ConflictError
          else Inr (Some (subject_id c)))"

definition effective_key :: "submit_base \<Rightarrow> store \<Rightarrow> uuid option" where
  "effective_key b s =
     (case sb_idempotency_key b of Some k \<Rightarrow> Some k | None \<Rightarrow> peek_client_change_id s)"

text \<open>The body of the \<open>try\<close>: the row and its grants, then what goes to the change log and the edges.\<close>

definition insert_row ::
  "(uuid \<Rightarrow> string \<Rightarrow> store \<Rightarrow> unit res) \<Rightarrow> submit_base \<Rightarrow> submit_body \<Rightarrow> string \<Rightarrow> uuid option \<Rightarrow> string \<Rightarrow> uuid
   \<Rightarrow> store \<Rightarrow> store res" where
  "insert_row grant b body account key aud new_id s =
     bind_res (insert_inquiry new_id (submit_kind body) (sb_status b) (map_option fst (sb_created b))
         (submit_values b account (submit_extras body key aud new_id)) s) (\<lambda>s1.
     bind_res (grant new_id account s1) (\<lambda>_. Inr s1))"

definition log_row ::
  "submit_base \<Rightarrow> submit_body \<Rightarrow> uuid option \<Rightarrow> string \<Rightarrow> uuid \<Rightarrow> store \<Rightarrow> store res" where
  "log_row b body key who new_id s =
     bind_res (emit_change ((emit_args new_id (submit_kind body) Created)\<lparr>em_api_key_id := key, em_actor := who,
         em_reason := backfill_reason b, em_marginal_cost := sb_marginal_cost b\<rparr>) True s) (\<lambda>(t, cause, subs).
     bind_res (post_insert body new_id cause key who t) (\<lambda>u.
       Inr (case sb_modified b of None \<Rightarrow> u | Some m \<Rightarrow> restamp_modified [(new_id, m)] u)))"

definition submit_on_conn ::
  "(uuid \<Rightarrow> string \<Rightarrow> store \<Rightarrow> unit res) \<Rightarrow> submit_base \<Rightarrow> submit_body \<Rightarrow> uuid option \<Rightarrow> string \<Rightarrow> string
   \<Rightarrow> store \<Rightarrow> store \<Rightarrow> submit_failure + store \<times> uuid" where
  "submit_on_conn grant b body key who aud seen s =
     (let slot = client_change_id s; new_id = mint_id s in
      case (case effective_key b s of None \<Rightarrow> Inr None | Some k \<Rightarrow> lookup_existing_by_change k (submit_kind body) seen) of
        Inl e \<Rightarrow> failing e slot
      | Inr (Some i) \<Rightarrow> Inr (set_client_change_id None s, i)
      | Inr None \<Rightarrow>
          (case pre_insert body s of
             Inl e \<Rightarrow> failing e slot
           | Inr _ \<Rightarrow>
               let s1 = (if sb_idempotency_key b \<noteq> None then set_client_change_id (sb_idempotency_key b) s else s);
                   account = (case sb_account b of None \<Rightarrow> [] | Some a \<Rightarrow> a)
               in if account = [] then failing ValueError (client_change_id s1)
                  else case insert_row grant b body account key aud new_id s1 of
                    Inl e \<Rightarrow> failing e None
                  | Inr s2 \<Rightarrow>
                      (case log_row b body key who new_id s2 of
                         Inl e \<Rightarrow> Inl \<lparr>failed_with = e, on_change_log_pkey = (e = UniqueViolation), slot_left = None\<rparr>
                       | Inr t \<Rightarrow> Inr (set_client_change_id None t, new_id))))"

text \<open>\<open>tx\<close> inside \<open>notify_after_commit\<close>, as \<open>transaction\<close>, for a body that reports the slot.\<close>

definition submit_tx :: "(store \<Rightarrow> submit_failure + store \<times> 'a) \<Rightarrow> store \<Rightarrow> store \<times> (submit_failure + 'a)" where
  "submit_tx f s =
     (case f (s\<lparr>buffer := []\<rparr>) of
        Inl x \<Rightarrow> (set_client_change_id (slot_left x) s, Inl x)
      | Inr (t, r) \<Rightarrow> (t\<lparr>published := published t @ buffer t, buffer := []\<rparr>, Inr r))"

definition submit_generic ::
  "(uuid \<Rightarrow> string \<Rightarrow> store \<Rightarrow> unit res) \<Rightarrow> submit_base \<Rightarrow> submit_body \<Rightarrow> uuid option \<Rightarrow> string \<Rightarrow> string
   \<Rightarrow> store \<Rightarrow> store \<Rightarrow> store \<times> uuid res" where
  "submit_generic grant b body key who aud seen s =
     (case submit_tx (submit_on_conn grant b body key who aud seen) s of
        (t, Inr i) \<Rightarrow> (t, Inr i)
      | (t, Inl x) \<Rightarrow>
          (case effective_key b s of
             Some k \<Rightarrow>
               if failed_with x = UniqueViolation \<and> on_change_log_pkey x
               then (case lookup_existing_by_change k (submit_kind body) t of
                       Inl e \<Rightarrow> (t, Inl e)
                     | Inr None \<Rightarrow> (t, Inl UniqueViolation)
                     | Inr (Some i) \<Rightarrow> (t, Inr i))
               else (t, Inl (failed_with x))
           | None \<Rightarrow> (t, Inl (failed_with x))))"

text \<open>\<open>submit\<close>: a session with no named audience is refused, and no other kind has one.\<close>

definition audience_missing :: "submit_body \<Rightarrow> string option \<Rightarrow> bool" where
  "audience_missing body aud \<longleftrightarrow> submit_kind body = AgentSession \<and> aud = None"

definition submit ::
  "(uuid \<Rightarrow> string \<Rightarrow> store \<Rightarrow> unit res) \<Rightarrow> submit_base \<Rightarrow> submit_body \<Rightarrow> uuid option \<Rightarrow> string \<Rightarrow> string option
   \<Rightarrow> store \<Rightarrow> store \<Rightarrow> store \<times> uuid res" where
  "submit grant b body key who aud seen s =
     (if audience_missing body aud then (s, Inl TypeError)
      else submit_generic grant b body key who (case aud of None \<Rightarrow> [] | Some a \<Rightarrow> a) seen s)"

section \<open>A batch\<close>

text \<open>\<open>item.actor or actor\<close>.\<close>

definition item_actor :: "submit_base \<Rightarrow> string \<Rightarrow> string" where
  "item_actor b who = (case sb_actor b of None \<Rightarrow> who | Some a \<Rightarrow> if a = [] then who else a)"

text \<open>\<open>_replayed_keys\<close>: the keys of the backdated rows an earlier submit used.\<close>

definition replayed_keys :: "(submit_base \<times> submit_body) list \<Rightarrow> store \<Rightarrow> uuid set" where
  "replayed_keys rows s =
     set (List.map_filter (\<lambda>(b, body). if sb_modified b \<noteq> None then sb_idempotency_key b else None) rows) \<inter> change_ids s"

fun submit_rows ::
  "(uuid \<Rightarrow> string \<Rightarrow> store \<Rightarrow> unit res) \<Rightarrow> uuid option \<Rightarrow> string \<Rightarrow> string option
   \<Rightarrow> (submit_base \<times> submit_body) list \<Rightarrow> store \<Rightarrow> submit_failure + store \<times> uuid list" where
  "submit_rows grant key who aud [] s = Inr (s, [])"
| "submit_rows grant key who aud ((b, body) # rows) s =
     (if audience_missing body aud then failing TypeError (client_change_id s)
      else bind_res (submit_on_conn grant b body key (item_actor b who) (case aud of None \<Rightarrow> [] | Some a \<Rightarrow> a)
               s s) (\<lambda>(t, i).
           bind_res (submit_rows grant key who aud rows t) (\<lambda>(u, ids). Inr (u, i # ids))))"

definition batch_id :: "uuid list \<Rightarrow> batch_end \<Rightarrow> uuid res" where
  "batch_id ids x =
     (case x of FromId i \<Rightarrow> Inr i | FromIndex n \<Rightarrow> if n < length ids then Inr (ids ! n) else Inl IndexError)"

definition add_batch_edge :: "uuid list \<Rightarrow> uuid option \<Rightarrow> string \<Rightarrow> batch_edge \<Rightarrow> store \<Rightarrow> store res" where
  "add_batch_edge ids key who e s =
     bind_res (batch_id ids (be_from e)) (\<lambda>f.
     bind_res (batch_id ids (be_to e)) (\<lambda>t.
     bind_res (add_edge_on_conn f t (be_kind e) (be_priority e) (be_note e) (be_valence e) (be_labels e) [] None True
         key who s) (\<lambda>(u, cid, created). Inr u)))"

definition batch_stamps :: "(submit_base \<times> submit_body) list \<Rightarrow> uuid list \<Rightarrow> uuid set \<Rightarrow> (uuid \<times> nat) list" where
  "batch_stamps rows ids replayed =
     List.map_filter (\<lambda>((b, body), i).
       case sb_modified b of
         None \<Rightarrow> None
       | Some m \<Rightarrow> if sb_idempotency_key b \<in> Some ` replayed then None else Some (i, m)) (zip rows ids)"

text \<open>A batch has a row, so the slot is clear once its rows are in.\<close>

definition submit_batch_on_conn ::
  "(uuid \<Rightarrow> string \<Rightarrow> store \<Rightarrow> unit res) \<Rightarrow> (submit_base \<times> submit_body) list \<Rightarrow> batch_edge list \<Rightarrow> uuid option
   \<Rightarrow> string \<Rightarrow> string option \<Rightarrow> store \<Rightarrow> submit_failure + store \<times> uuid list" where
  "submit_batch_on_conn grant rows es key who aud s =
     bind_res (submit_rows grant key who aud rows s) (\<lambda>(t, ids).
       case each_res (add_batch_edge ids key who) es t of
         Inl e \<Rightarrow> failing e None
       | Inr u \<Rightarrow> Inr (restamp_modified (batch_stamps rows ids (replayed_keys rows s)) u, ids))"

definition submit_batch where
  "submit_batch grant rows es key who aud s =
     (case submit_tx (submit_batch_on_conn grant rows es key who aud) s of
        (t, Inl x) \<Rightarrow> (t, Inl (failed_with x))
      | (t, Inr ids) \<Rightarrow> (t, Inr ids))"

end
