(* ===== verification/Submit_Lemmas.thy ===== *)
theory Submit_Lemmas
  imports Submit_Store
begin

text \<open>
  What the submit path keeps: the new row, its edges and its stamps leave every table sound and the
  log the record of the columns. With the submits, the batches and every other operation as steps,
  the store is one transition system.
\<close>

section \<open>An edge of a new row\<close>

lemma follows_trans: "follows s t \<Longrightarrow> follows t u \<Longrightarrow> follows s u"
  by (auto simp: follows_def intro: recorded_trans)

lemma audit_edge_cases:
  assumes "insert_edge_and_audit i ik peer k key who cause p v kind as_from s = Inr (s', ins)"
    and "map_option iq_kind (inquiries s i) = Some ik"
  obtains f fk t tk s1 where "(f, t) = (if as_from then (peer, i) else (i, peer))"
      "map_option iq_kind (inquiries s f) = Some fk" "insert_edge f fk t k p [] v [] s = Inr (s1, ins, tk)"
      "\<not> ins \<Longrightarrow> s1 = s \<and> (\<exists>cid. set_edge_annotation_on_conn f t k (or_absent p) ABSENT (or_absent v) ABSENT None []
           False key who s = Inr (s', cid))"
      "ins \<Longrightarrow> \<exists>s2 c2. emit_paired EdgeAdded (i, ik) (peer, if as_from then fk else tk) k None
           (Some (p, Some [], v, Some [])) (Some cause) True [] key who s1 = Inr (s2, c2)
         \<and> infer_produced_on_conn f t k (Some c2) key who s2 = Inr s'"
      "\<And>x. kind = Some x \<Longrightarrow> map_option iq_kind (inquiries s peer) = Some x"
proof -
  obtain f fk t where ft: "(f, t) = (if as_from then (peer, i) else (i, peer))"
    "map_option iq_kind (inquiries s f) = Some fk"
    "(if as_from then bind_res (lookup_kind peer s) (\<lambda>pk. Inr (peer, pk, i)) else Inr (i, ik, peer)) = Inr (f, fk, t)"
  proof (cases as_from)
    case True
    with assms obtain pk where "lookup_kind peer s = Inr pk"
      by (auto simp: insert_edge_and_audit_def bind_res_Inr_iff)
    with True show ?thesis by (intro that [of peer i pk]) (auto simp: res_simps)
  next
    case False
    with assms(2) show ?thesis by (intro that [of i peer ik]) auto
  qed
  obtain s1 tk where i: "insert_edge f fk t k p [] v [] s = Inr (s1, ins, tk)"
    and rest: "(let tk = (if as_from then fk else tk) in
     if kind \<noteq> None \<and> kind \<noteq> Some tk then Inl ConflictError
     else if \<not> ins then
       bind_res (set_edge_annotation_on_conn f t k (or_absent p) ABSENT (or_absent v) ABSENT None []
           False key who s1) (\<lambda>(s2, cid). Inr (s2, False))
     else
       bind_res (emit_paired EdgeAdded (i, ik) (peer, tk) k None (Some (p, Some [], v, Some []))
           (Some cause) True [] key who s1) (\<lambda>(s2, cause).
       bind_res (infer_produced_on_conn f t k (Some cause) key who s2) (\<lambda>s3. Inr (s3, True)))) = Inr (s', ins)"
  proof -
    obtain s1 ins' tk where i: "insert_edge f fk t k p [] v [] s = Inr (s1, ins', tk)"
      using assms(1) by (auto simp: insert_edge_and_audit_def ft(3) bind_res_Inr_iff)
    have "ins' = ins" using assms(1) by (cases ins') (auto simp: insert_edge_and_audit_def ft(3) i bind_res_Inr_iff Let_def split: if_splits)
    with i assms(1) show ?thesis by (intro that [of s1 tk]) (simp_all add: insert_edge_and_audit_def ft(3) Let_def)
  qed
  have tk: "map_option iq_kind (inquiries s t) = Some tk" using i by (auto elim: insert_edge_Inr)
  show ?thesis
  proof (rule that [OF ft(1,2) i])
    show "s1 = s \<and> (\<exists>cid. set_edge_annotation_on_conn f t k (or_absent p) ABSENT (or_absent v) ABSENT None []
           False key who s = Inr (s', cid))" if "\<not> ins"
      using rest that insert_edge_not_inserted [of f fk t k p "[]" v "[]" s s1 tk] i
      by (auto simp: Let_def bind_res_Inr_iff split: if_splits)
    show "\<exists>s2 c2. emit_paired EdgeAdded (i, ik) (peer, if as_from then fk else tk) k None
           (Some (p, Some [], v, Some [])) (Some cause) True [] key who s1 = Inr (s2, c2)
         \<and> infer_produced_on_conn f t k (Some c2) key who s2 = Inr s'" if "ins"
      using rest that by (auto simp: Let_def bind_res_Inr_iff split: if_splits)
    show "map_option iq_kind (inquiries s peer) = Some x" if "kind = Some x" for x
      using rest that ft tk by (auto simp: Let_def split: if_splits)
  qed
qed

lemma audit_edge_follows:
  assumes a: "insert_edge_and_audit i ik peer k key who cause p v kind as_from s = Inr (s', ins)"
    and kd: "map_option iq_kind (inquiries s i) = Some ik" and ok: "sound s"
  shows "follows s s'" "advances s s'"
proof -
  have sok: "store_ok s" using ok by (simp add: sound_def)
  from audit_edge_cases [OF a kd] obtain f fk t tk s1 where
    f: "map_option iq_kind (inquiries s f) = Some fk" "insert_edge f fk t k p [] v [] s = Inr (s1, ins, tk)"
    and up: "\<not> ins \<Longrightarrow> s1 = s \<and> (\<exists>cid. set_edge_annotation_on_conn f t k (or_absent p) ABSENT (or_absent v) ABSENT None []
           False key who s = Inr (s', cid))"
    and new: "ins \<Longrightarrow> \<exists>s2 c2. emit_paired EdgeAdded (i, ik) (peer, if as_from then fk else tk) k None
           (Some (p, Some [], v, Some [])) (Some cause) True [] key who s1 = Inr (s2, c2)
         \<and> infer_produced_on_conn f t k (Some c2) key who s2 = Inr s'" by metis
  have "advances s s' \<and> no_field_edit s s'"
  proof (cases ins)
    case False
    with up obtain cid where an: "set_edge_annotation_on_conn f t k (or_absent p) ABSENT (or_absent v) ABSENT None []
           False key who s = Inr (s', cid)" by blast
    show ?thesis using set_edge_annotation_advances(1) [OF an sok] unedited.annotate [OF an] by blast
  next
    case True
    with new obtain s2 c2 where e: "emit_paired EdgeAdded (i, ik) (peer, if as_from then fk else tk) k None
           (Some (p, Some [], v, Some [])) (Some cause) True [] key who s1 = Inr (s2, c2)"
      "infer_produced_on_conn f t k (Some c2) key who s2 = Inr s'" by blast
    have a1: "advances s s1" by (rule insert_edge_advances [OF f(2,1)])
    have a2: "advances s s2" using advances_trans [OF a1 emitted_advances [OF emit_paired_emitted(1) [OF e(1)]]] .
    have a3: "advances s2 s'" using add_edge_infer_advances(2) [OF e(2)] advancesD(1) [OF a2 sok] by blast
    have "no_field_edit s s1" by (rule unedited.insert_edge [OF f(2)])
    moreover have "no_field_edit s1 s2" by (rule unedited.emit_paired [OF e(1)]) simp
    moreover have "no_field_edit s2 s'" by (rule unedited.add_edge_infer(2) [OF e(2)])
    ultimately have "no_field_edit s s'" using unedited.R_trans by blast
    with advances_trans [OF a2 a3] show ?thesis by blast
  qed
  then show "follows s s'" "advances s s'" using follows_advances [OF _ _ ok] by blast+
qed

lemma each_res_keeps:
  assumes "each_res f xs s = Inr t" "I s" "\<And>x u v. x \<in> set xs \<Longrightarrow> f x u = Inr v \<Longrightarrow> I u \<Longrightarrow> I v"
  shows "I t"
  using assms
proof (induction xs arbitrary: s)
  case (Cons x xs)
  from Cons.prems(1) obtain u where u: "f x s = Inr u" "each_res f xs u = Inr t" by (auto simp: bind_res_Inr_iff)
  have "I u" by (rule Cons.prems(3) [OF _ u(1) Cons.prems(2)]) simp
  then show ?case by (rule Cons.IH [OF u(2)]) (rule Cons.prems(3), simp_all)
qed simp

text \<open>The row keeps its kind, so every edge of it starts from a live row of that kind.\<close>

definition grown :: "uuid \<Rightarrow> store \<Rightarrow> store \<Rightarrow> bool" where
  "grown i s t \<longleftrightarrow> follows s t \<and> advances s t"

lemma grown_refl: "sound s \<Longrightarrow> grown i s s"
  by (simp add: grown_def follows_refl)

lemma grown_trans: "grown i s t \<Longrightarrow> grown i t u \<Longrightarrow> grown i s u"
  by (auto simp: grown_def intro: follows_trans advances_trans)

lemma grown_kind: "grown i s t \<Longrightarrow> map_option iq_kind (inquiries t j) = map_option iq_kind (inquiries s j)"
  using advancesD(4) by (simp add: grown_def)

lemma link_grown:
  assumes "link i ik ek key who cause kind as_from x s = Inr t" "map_option iq_kind (inquiries s i) = Some ik" "sound s"
  shows "grown i s t"
  using assms audit_edge_follows by (auto simp: link_def bind_res_Inr_iff grown_def)

lemma links_grown:
  assumes l: "each_res f xs s = Inr t" and kd: "map_option iq_kind (inquiries s i) = Some ik" and ok: "sound s"
    and f: "\<And>x u v. f x u = Inr v \<Longrightarrow> map_option iq_kind (inquiries u i) = Some ik \<Longrightarrow> sound u \<Longrightarrow> grown i u v"
  shows "grown i s t"
proof (rule each_res_keeps [where I = "grown i s", OF l grown_refl [OF ok]])
  fix x u v assume x: "f x u = Inr v" "grown i s u"
  then have "grown i u v" using f [OF x(1)] grown_kind [OF x(2), of i] kd by (simp add: grown_def follows_def)
  with x(2) show "grown i s v" by (rule grown_trans)
qed

lemma post_insert_grown:
  assumes p: "post_insert body i cause key who s = Inr t" and kd: "map_option iq_kind (inquiries s i) = Some (submit_kind body)"
    and ok: "sound s"
  shows "grown i s t"
proof -
  have two: "grown i s t" if fg: "bind_res (each_res f xs s) (\<lambda>u. each_res g ys u) = Inr t"
    and f: "\<And>x u v. f x u = Inr v \<Longrightarrow> map_option iq_kind (inquiries u i) = Some (submit_kind body) \<Longrightarrow> sound u \<Longrightarrow> grown i u v"
    and g: "\<And>x u v. g x u = Inr v \<Longrightarrow> map_option iq_kind (inquiries u i) = Some (submit_kind body) \<Longrightarrow> sound u \<Longrightarrow> grown i u v"
    for f :: "'a \<Rightarrow> store \<Rightarrow> store res" and xs and g :: "'b \<Rightarrow> store \<Rightarrow> store res" and ys
  proof -
    obtain u where u: "each_res f xs s = Inr u" "each_res g ys u = Inr t" using fg by (auto simp: bind_res_Inr_iff)
    have a: "grown i s u" by (rule links_grown [OF u(1) kd ok f])
    have "grown i u t" by (rule links_grown [OF u(2) _ _ g]) (use a grown_kind [OF a] kd in \<open>simp_all add: grown_def follows_def\<close>)
    with a show ?thesis by (rule grown_trans)
  qed
  show ?thesis
  proof (cases body)
    case (SubmitIssue iks val prio ns rs)
    have "submit_kind body = Issue" by (simp add: SubmitIssue)
    with p show ?thesis
      by (intro two [of "\<lambda>n. link i Issue Narrows key who cause None False (fst n, snd n, None)" ns
            "\<lambda>r. link i Issue Requires key who cause None False (r, None, None)" rs])
        (auto simp: post_insert_def SubmitIssue intro: link_grown)
  next
    case (SubmitBelief j c ps fs)
    have "submit_kind body = Belief" by (simp add: SubmitBelief)
    with p show ?thesis
      by (intro two [of "cite i Proves key who cause" ps "cite i Favors key who cause" fs])
        (auto simp: post_insert_def SubmitBelief cite_def intro: link_grown)
  qed (use p grown_refl [OF ok] in \<open>simp_all add: post_insert_def\<close>)
qed

section \<open>Stamps\<close>

text \<open>What a stamp leaves: everything but the modification time of some rows.\<close>

definition restamped :: "store \<Rightarrow> store \<Rightarrow> bool" where
  "restamped s t \<longleftrightarrow> (\<exists>m. t = s\<lparr>inquiries := m\<rparr>
     \<and> (\<forall>i. map_option (iq_modified_update (\<lambda>_. 0)) (m i) = map_option (iq_modified_update (\<lambda>_. 0)) (inquiries s i)))"

lemma restamp_restamped: "restamped s (restamp_modified xs s)"
proof (induction xs arbitrary: s)
  case Nil
  show ?case by (auto simp: restamped_def restamp_modified_def intro: exI [of _ "inquiries s"])
next
  case (Cons x xs)
  obtain i m where x: "x = (i, m)" by force
  let ?s = "s\<lparr>inquiries := (inquiries s)(i := map_option (iq_modified_update (\<lambda>_. m)) (inquiries s i))\<rparr>"
  have e: "restamp_modified (x # xs) s = restamp_modified xs ?s" by (simp add: restamp_modified_def x)
  from Cons [of ?s] obtain g where g: "restamp_modified xs ?s = ?s\<lparr>inquiries := g\<rparr>"
    "\<And>j. map_option (iq_modified_update (\<lambda>_. 0)) (g j) = map_option (iq_modified_update (\<lambda>_. 0)) (inquiries ?s j)"
    by (auto simp: restamped_def)
  have "map_option (iq_modified_update (\<lambda>_. 0)) (inquiries ?s j) = map_option (iq_modified_update (\<lambda>_. 0)) (inquiries s j)" for j
    by (simp add: option.map_comp comp_def)
  with g show ?case unfolding e restamped_def by (intro exI [of _ g]) simp
qed

lemma restampedD:
  assumes "restamped s t"
  shows "change_log t = change_log s" "edges t = edges s" "iq_ids t = iq_ids s" "sequences t = sequences s"
    "buffer t = buffer s" "published t = published s" "clock t = clock s" "client_change_id t = client_change_id s"
    "rows_kept s t" "map_option iq_cost (inquiries t i) = map_option iq_cost (inquiries s i)"
    "map_option iq_kind (inquiries t i) = map_option iq_kind (inquiries s i)"
proof -
  obtain m where m: "t = s\<lparr>inquiries := m\<rparr>"
    "\<And>i. map_option (iq_modified_update (\<lambda>_. 0)) (m i) = map_option (iq_modified_update (\<lambda>_. 0)) (inquiries s i)"
    using assms by (auto simp: restamped_def)
  have through: "map_option f (m i) = map_option f (inquiries s i)"
    if "\<And>r. f (r\<lparr>iq_modified := 0\<rparr>) = f r" for f :: "inquiry \<Rightarrow> 'c" and i
    using arg_cong [OF m(2) [of i], of "map_option f"] that by (simp add: option.map_comp comp_def)
  show "change_log t = change_log s" "edges t = edges s" "iq_ids t = iq_ids s" "sequences t = sequences s"
    "buffer t = buffer s" "published t = published s" "clock t = clock s" "client_change_id t = client_change_id s"
    by (simp_all add: m(1))
  show "rows_kept s t" unfolding rows_kept_def by (simp add: m(1) through iq_static_def)
  show "map_option iq_cost (inquiries t i) = map_option iq_cost (inquiries s i)"
    "map_option iq_kind (inquiries t i) = map_option iq_kind (inquiries s i)" by (simp_all add: m(1) through)
qed

lemma restamped_follows:
  assumes "restamped s t" "sound s"
  shows "follows s t"
proof -
  note r = restampedD [OF assms(1)]
  have ok: "store_ok s" "rows_ok s" using assms(2) by (simp_all add: sound_def)
  have "edges_ok t" using edges_ok_cong [OF r(2) r(11)] ok(1) by (simp add: store_ok_def)
  moreover have "log_ok t" using ok(1) r(1,7) by (simp add: store_ok_def log_ok_def change_ids_def)
  moreover have "costs_ok t"
  proof (rule costs_ok_mono [OF store_okD(1) [OF ok(1)] r(1)])
    fix i x assume "inquiries t i = Some x"
    with r(10) [of i] show "\<exists>q. inquiries s i = Some q \<and> iq_cost q = iq_cost x" by (cases "inquiries s i") auto
  qed
  ultimately have "store_ok t" by (simp add: store_ok_def)
  moreover have "rows_ok t" by (rule rows_ok_kept [OF r(9,3,4) ok(2)])
  moreover have "recorded s t" using r(1) by (intro recorded_kept [OF _ r(9)]) (simp add: no_field_edit_def)
  ultimately show ?thesis by (simp add: follows_def sound_def)
qed

section \<open>Submits\<close>

lemma mint_never_used:
  assumes "rows_ok s"
  shows "never_used (mint_id s) s"
proof -
  have "x < mint_id s" if "x \<in> set (iq_ids s @ map subject_id (change_log s))" for x
    using fold_max_ge [OF that, of 0] by (simp only: mint_id_def less_Suc_eq_le)
  then have n: "mint_id s \<notin> set (iq_ids s @ map subject_id (change_log s))" by blast
  then have "mint_id s \<notin> set (iq_ids s)" "mint_id s \<notin> subject_id ` set (change_log s)" by simp_all
  with assms show ?thesis unfolding never_used_def rows_ok_def by blast
qed

lemma mint_id_state [simp]: "mint_id (s\<lparr>buffer := x\<rparr>) = mint_id s" "mint_id (set_client_change_id k s) = mint_id s"
  by (simp_all add: mint_id_def set_client_change_id_def)

lemma never_used_state [simp]:
  "never_used i (s\<lparr>buffer := x\<rparr>) = never_used i s" "never_used i (set_client_change_id k s) = never_used i s"
  by (simp_all add: never_used_def set_client_change_id_def)

lemma sound_slot [simp]: "sound (set_client_change_id k s) = sound s"
  by (simp add: set_client_change_id_def)

lemma follows_slot [simp]:
  "follows (set_client_change_id k s) t = follows s t" "follows s (set_client_change_id k t) = follows s t"
  by (simp_all add: follows_def set_client_change_id_def recorded_def subjects_def)

lemma follows_buffer [simp]: "follows (s\<lparr>buffer := x\<rparr>) t = follows s t"
  by (simp add: follows_def)

lemma insert_row_follows:
  assumes "insert_row grant b body account key aud i s = Inr t" "sound s" "never_used i s"
  shows "follows s t" "map_option iq_kind (inquiries t i) = Some (submit_kind body)"
proof -
  have ins: "insert_inquiry i (submit_kind body) (sb_status b) (map_option fst (sb_created b))
      (submit_values b account (submit_extras body key aud i)) s = Inr t"
    using assms(1) by (auto simp: insert_row_def bind_res_Inr_iff)
  show "follows s t" by (rule insert_inquiry_follows(1) [OF ins assms(2,3)])
  show "map_option iq_kind (inquiries t i) = Some (submit_kind body)"
    using ins by (auto simp: insert_inquiry_def Let_def res_simps split: if_splits)
qed

lemma log_rowE:
  assumes "log_row b body key who i s = Inr t"
  obtains u cause subs v where
    "emit_change ((emit_args i (submit_kind body) Created)\<lparr>em_api_key_id := key, em_actor := who,
         em_reason := backfill_reason b, em_marginal_cost := sb_marginal_cost b\<rparr>) True s = Inr (u, cause, subs)"
    "post_insert body i cause key who u = Inr v"
    "t = (case sb_modified b of None \<Rightarrow> v | Some m \<Rightarrow> restamp_modified [(i, m)] v)"
  using assms by (auto simp: log_row_def bind_res_Inr_iff)

lemma log_row_follows:
  assumes l: "log_row b body key who i s = Inr t" and ok: "sound s"
    and kd: "map_option iq_kind (inquiries s i) = Some (submit_kind body)"
  shows "follows s t" "rows_kept s t" "iq_ids t = iq_ids s" "sequences t = sequences s"
proof -
  from l obtain u cause subs v where
    e: "emit_change ((emit_args i (submit_kind body) Created)\<lparr>em_api_key_id := key, em_actor := who,
         em_reason := backfill_reason b, em_marginal_cost := sb_marginal_cost b\<rparr>) True s = Inr (u, cause, subs)"
    and p: "post_insert body i cause key who u = Inr v"
    and t: "t = (case sb_modified b of None \<Rightarrow> v | Some m \<Rightarrow> restamp_modified [(i, m)] v)"
    by (rule log_rowE)
  have adv: "advances s u" by (rule emitted_advances [OF emit_change_emitted(1) [OF e]])
  have "no_field_edit s u" by (rule unedited.emit_change [OF e]) (simp add: emit_args_def)
  then have su: "follows s u" using follows_advances [OF adv _ ok] by blast
  then have oku: "sound u" by (simp add: follows_def)
  have uv: "grown i u v" by (rule post_insert_grown [OF p _ oku]) (use advancesD(4) [OF adv] kd in simp)
  have okv: "sound v" using uv by (simp add: grown_def follows_def)
  have vt: "restamped v t"
    using restamp_restamped [of v "[]"] restamp_restamped [of v "[(i, m)]" for m]
    by (auto simp: t restamp_modified_def split: option.split)
  show "follows s t" using follows_trans [OF su follows_trans [OF _ restamped_follows [OF vt okv]]] uv by (simp add: grown_def)
  have "rows_kept s u" "rows_kept u v" using adv uv by (simp_all add: advances_def grown_def)
  with restampedD(9) [OF vt] show "rows_kept s t" by (simp add: rows_kept_def)
  show "iq_ids t = iq_ids s" "sequences t = sequences s"
    using adv uv restampedD(3,4) [OF vt] by (simp_all add: advances_def grown_def)
qed

text \<open>A submit that ends well found the row of its key, or made one.\<close>

lemma submit_on_conn_cases:
  assumes "submit_on_conn grant b body key who aud seen s = Inr (t, i)"
  obtains (replayed) k c where "effective_key b s = Some k" "find_change k seen = Some c" "change_kind c = Created"
      "subject_kind c = submit_kind body" "i = subject_id c" "t = set_client_change_id None s"
  | (created) account s1 s2 u where "\<And>k. effective_key b s = Some k \<Longrightarrow> find_change k seen = None" "pre_insert body s = Inr ()"
      "s1 = (if sb_idempotency_key b \<noteq> None then set_client_change_id (sb_idempotency_key b) s else s)"
      "sb_account b = Some account" "account \<noteq> []" "i = mint_id s"
      "insert_row grant b body account key aud i s1 = Inr s2" "log_row b body key who i s2 = Inr u"
      "t = set_client_change_id None u"
proof -
  let ?p = "case effective_key b s of None \<Rightarrow> Inr None | Some k \<Rightarrow> lookup_existing_by_change k (submit_kind body) seen"
  show ?thesis
  proof (cases ?p)
    case (Inl e)
    with assms show ?thesis by (simp add: submit_on_conn_def failing_def)
  next
    case (Inr r)
    show ?thesis
    proof (cases r)
      case (Some j)
      with Inr assms have "t = set_client_change_id None s" "i = j" by (simp_all add: submit_on_conn_def)
      with Inr Some show ?thesis
        by (auto simp: lookup_existing_by_change_def split: option.splits if_splits intro: replayed)
    next
      case None
      have free: "\<And>k. effective_key b s = Some k \<Longrightarrow> find_change k seen = None"
        using Inr None by (auto simp: lookup_existing_by_change_def split: option.splits if_splits)
      show ?thesis
      proof (cases "pre_insert body s")
        case (Inl e)
        with Inr None assms show ?thesis by (simp add: submit_on_conn_def failing_def)
      next
        case pre: (Inr x)
        let ?s = "if sb_idempotency_key b \<noteq> None then set_client_change_id (sb_idempotency_key b) s else s"
        obtain account where a: "sb_account b = Some account" "account \<noteq> []"
          using assms Inr None pre by (cases "sb_account b") (auto simp: submit_on_conn_def failing_def Let_def split: if_splits)
        obtain s2 where s2: "insert_row grant b body account key aud (mint_id s) ?s = Inr s2"
          using assms Inr None pre a
          by (cases "insert_row grant b body account key aud (mint_id s) ?s") (simp_all add: submit_on_conn_def failing_def Let_def)
        obtain u where u: "log_row b body key who (mint_id s) s2 = Inr u"
          using assms Inr None pre a s2
          by (cases "log_row b body key who (mint_id s) s2") (simp_all add: submit_on_conn_def failing_def Let_def)
        have "t = set_client_change_id None u" "i = mint_id s"
          using assms Inr None pre a s2 u by (simp_all add: submit_on_conn_def Let_def)
        then show ?thesis using free pre a s2 u by (intro created) simp_all
      qed
    qed
  qed
qed

lemma submit_on_conn_follows:
  assumes f: "submit_on_conn grant b body key who aud seen s = Inr (t, i)" and ok: "sound s"
  shows "follows s t"
  using f
proof (cases rule: submit_on_conn_cases)
  case (replayed k c)
  then show ?thesis using ok by (simp add: follows_refl)
next
  case (created account s1 s2 u)
  have n: "never_used i s" using ok mint_never_used by (simp add: created(6) sound_def)
  have s1: "sound s1" "never_used i s1" "follows s s1"
    using ok n follows_refl [OF ok] by (simp_all add: created(3))
  note ins = insert_row_follows [OF created(7) s1(1,2)]
  have "follows s2 u" using log_row_follows(1) [OF created(8)] ins by (simp add: follows_def)
  with s1(3) ins(1) show ?thesis unfolding created(9) by (auto intro: follows_trans)
qed

lemma submit_tx_follows:
  assumes "\<And>t r. f (s\<lparr>buffer := []\<rparr>) = Inr (t, r) \<Longrightarrow> follows s t" "sound s"
  shows "follows s (fst (submit_tx f s))"
proof (cases "f (s\<lparr>buffer := []\<rparr>)")
  case (Inl x)
  with assms(2) show ?thesis by (simp add: submit_tx_def follows_refl)
next
  case (Inr y)
  obtain t r where "y = (t, r)" by force
  with Inr assms(1) [of t r] show ?thesis by (simp add: submit_tx_def follows_def)
qed

lemma submit_generic_fst: "fst (submit_generic grant b body key who aud seen s) = fst (submit_tx (submit_on_conn grant b body key who aud seen) s)"
  by (auto simp: submit_generic_def split: prod.splits sum.splits option.splits)

lemma submit_step_follows:
  assumes "sound s"
  shows "follows s (fst (submit grant b body key who aud seen s))"
proof -
  have "follows s (fst (submit_tx (submit_on_conn grant b body key who a seen) s))" for a
    by (rule submit_tx_follows [OF _ assms]) (use submit_on_conn_follows [of grant b body key who a seen "s\<lparr>buffer := []\<rparr>"] assms in simp)
  then show ?thesis using assms by (simp add: submit_def submit_generic_fst follows_refl)
qed

section \<open>Batches\<close>

lemma submit_rows_follows:
  "submit_rows grant key who aud rows s = Inr (t, ids) \<Longrightarrow> sound s \<Longrightarrow> follows s t \<and> length ids = length rows"
proof (induction grant key who aud rows s arbitrary: t ids rule: submit_rows.induct)
  case (2 grant key who aud b body rows s)
  then have au: "\<not> audience_missing body aud" by (auto simp: failing_def)
  with 2 obtain u i us where u: "submit_on_conn grant b body key (item_actor b who) (case aud of None \<Rightarrow> [] | Some a \<Rightarrow> a) s s = Inr (u, i)"
    "submit_rows grant key who aud rows u = Inr (t, us)" "ids = i # us"
    by (auto simp: bind_res_Inr_iff)
  have "follows s u" by (rule submit_on_conn_follows [OF u(1) "2.prems"(2)])
  moreover have "follows u t \<and> length us = length rows"
    by (rule "2.IH" [OF au, of "(u, i)"]) (use u calculation in \<open>simp_all add: follows_def\<close>)
  ultimately show ?case using u(3) by (auto intro: follows_trans)
qed (simp add: follows_refl)

lemma add_batch_edge_follows:
  assumes "add_batch_edge ids key who e s = Inr t" "sound s"
  shows "follows s t"
proof -
  obtain f g cid new where a: "add_edge_on_conn f g (be_kind e) (be_priority e) (be_note e) (be_valence e) (be_labels e) [] None True
         key who s = Inr (t, cid, new)"
    using assms(1) by (auto simp: add_batch_edge_def bind_res_Inr_iff)
  show ?thesis
    using follows_advances [OF add_edge_infer_advances(1) [OF a] unedited.add_edge_infer(1) [OF a] assms(2)] assms(2)
    by (simp add: sound_def)
qed

lemma submit_batch_on_conn_cases:
  assumes "submit_batch_on_conn grant rows es key who aud s = Inr (t, ids)"
  obtains u v where "submit_rows grant key who aud rows s = Inr (u, ids)" "each_res (add_batch_edge ids key who) es u = Inr v"
    "t = restamp_modified (batch_stamps rows ids (replayed_keys rows s)) v"
proof -
  obtain u js where u: "submit_rows grant key who aud rows s = Inr (u, js)"
    using assms by (auto simp: submit_batch_on_conn_def bind_res_Inr_iff)
  with assms have "(case each_res (add_batch_edge js key who) es u of
         Inl e \<Rightarrow> failing e None
       | Inr v \<Rightarrow> Inr (restamp_modified (batch_stamps rows js (replayed_keys rows s)) v, js)) = Inr (t, ids)"
    by (simp add: submit_batch_on_conn_def)
  with u show ?thesis by (cases "each_res (add_batch_edge js key who) es u") (auto simp: failing_def intro: that)
qed

lemma submit_batch_on_conn_follows:
  assumes f: "submit_batch_on_conn grant rows es key who aud s = Inr (t, ids)" and ok: "sound s"
  shows "follows s t"
  using f
proof (cases rule: submit_batch_on_conn_cases)
  case (1 u v)
  have u: "follows s u" using submit_rows_follows [OF 1(1) ok] by blast
  have v: "follows s v"
  proof (rule each_res_keeps [where I = "follows s", OF 1(2) u])
    fix e x y assume "add_batch_edge ids key who e x = Inr y" "follows s x"
    then show "follows s y" using add_batch_edge_follows [of ids key who e x y] follows_trans [of s x y] by (simp add: follows_def)
  qed
  have "follows v t" unfolding 1(3) by (rule restamped_follows [OF restamp_restamped]) (use v in \<open>simp add: follows_def\<close>)
  with v show ?thesis by (rule follows_trans)
qed

lemma submit_batch_fst: "fst (submit_batch grant rows es key who aud s) = fst (submit_tx (submit_batch_on_conn grant rows es key who aud) s)"
  by (auto simp: submit_batch_def split: prod.splits sum.splits)

lemma submit_batch_follows:
  assumes "sound s"
  shows "follows s (fst (submit_batch grant rows es key who aud s))"
  unfolding submit_batch_fst
  by (rule submit_tx_follows [OF _ assms])
    (use submit_batch_on_conn_follows [of grant rows es key who aud "s\<lparr>buffer := []\<rparr>"] assms in simp)

section \<open>The store with its submits\<close>

inductive trax_step :: "store \<Rightarrow> store \<Rightarrow> bool" where
  stored: "store_step s t \<Longrightarrow> trax_step s t"
| submitted: "trax_step s (fst (submit grant b body key who aud seen s))"
| batched: "trax_step s (fst (submit_batch grant rows es key who aud s))"

lemma trax_step_follows:
  assumes "trax_step s t" "sound s"
  shows "follows s t"
  using assms
  by (induction rule: trax_step.induct) (auto intro: store_step_follows submit_step_follows submit_batch_follows)

interpretation trax: audited_system fresh_store trax_step sound change_log
proof
  show "sound s" if "fresh_store s" for s using that empty_sound by (simp add: fresh_store_def)
  show "sound t" if "sound s" "trax_step s t" for s t using trax_step_follows [OF that(2,1)] by (simp add: follows_def)
  show "prefix (change_log s) (change_log t)" if "sound s" "trax_step s t" for s t
    using trax_step_follows [OF that(2,1)] by (auto simp: follows_def recorded_def)
qed

lemma trax_run_recorded: "rtranclp trax_step s t \<Longrightarrow> sound s \<Longrightarrow> recorded s t"
proof (induction rule: rtranclp_induct)
  case (step t u)
  have "sound t" using trax.run_keeps [OF step(1,4)] .
  then have "recorded t u" using trax_step_follows [OF step(2)] by (simp add: follows_def)
  with step show ?case by (blast intro: recorded_trans)
qed simp

end
