(* ===== verification/Submit_Effects.thy ===== *)
theory Submit_Effects
  imports Submit_Lemmas
begin

text \<open>
  What one submit does to the tables, and what becomes of its idempotency key: the change it writes
  first carries the key, and a key that names a change is never given to another row.
\<close>

section \<open>The row\<close>

definition submitted_columns ::
  "submit_base \<Rightarrow> submit_body \<Rightarrow> string \<Rightarrow> uuid option \<Rightarrow> string \<Rightarrow> uuid \<Rightarrow> column \<Rightarrow> cval option" where
  "submitted_columns b body account key aud i c =
     (if c = Status then Some (VStr (case sb_status b of None \<Rightarrow> ''active'' | Some x \<Rightarrow> x))
      else normalize_for_insert c (submit_values b account (submit_extras body key aud i) c))"

lemma insert_row_row:
  assumes "insert_row grant b body account key aud i s = Inr t"
  obtains r where "inquiries t = (inquiries s)(i \<mapsto> r)" "iq_kind r = submit_kind body"
    "iq_seq r = Suc (sequences s (submit_kind body))" "iq_columns r = submitted_columns b body account key aud i"
    "iq_created r = (case sb_created b of None \<Rightarrow> clock s | Some d \<Rightarrow> fst d)"
    "inquiries s i = None" "change_log t = change_log s" "edges t = edges s" "iq_ids t = iq_ids s @ [i]"
    "client_change_id t = client_change_id s"
proof -
  have ins: "insert_inquiry i (submit_kind body) (sb_status b) (map_option fst (sb_created b))
      (submit_values b account (submit_extras body key aud i)) s = Inr t"
    using assms by (auto simp: insert_row_def bind_res_Inr_iff)
  let ?r = "\<lparr>iq_kind = submit_kind body, iq_seq = Suc (sequences s (submit_kind body)),
              iq_created = (case map_option fst (sb_created b) of None \<Rightarrow> clock s | Some d \<Rightarrow> d),
              iq_modified = clock s, iq_locked = False, iq_cost = 0,
              iq_columns = submitted_columns b body account key aud i\<rparr>"
  have row: "insert_inquiry_row i ?r (s\<lparr>sequences := (sequences s)(submit_kind body := Suc (sequences s (submit_kind body)))\<rparr>) = Inr t"
    using ins by (simp add: insert_inquiry_def Let_def submitted_columns_def [abs_def] split: if_splits)
  show ?thesis
    by (rule that [of ?r]) (use row in \<open>auto simp: res_simps split: option.split\<close>)
qed

lemma emit_created:
  assumes "emit_change e True s = Inr (t, cid, subs)" "em_kind e = Created"
  obtains c where "change_log t = change_log s @ [c]" "change_of cid e subs c" "edges t = edges s"
    "\<And>k. client_change_id s = Some k \<Longrightarrow> cid = k"
proof -
  have o: "emit_once e s = Inr (t, cid, subs, False)"
  proof -
    obtain r where r: "emit_once e s = Inr (t, cid, subs, r)"
      using assms by (auto simp: emit_change_def bind_res_Inr_iff non_propagating_def split: if_splits)
    have "\<not> r"
      using r assms(2) by (auto simp: emit_once_def consume_client_change_id_def bind_res_Inr_iff
          split: option.splits sum.splits if_splits)
    with r show ?thesis by simp
  qed
  have k: "cid = k" if "client_change_id s = Some k" for k
    using o that assms(2) by (auto simp: emit_once_def consume_client_change_id_def split: option.splits sum.splits if_splits)
  from o show ?thesis
  proof (cases rule: emit_once_cases)
    case (fresh c)
    then show ?thesis using k by (intro that [of c]) (auto simp: wrote_def)
  qed simp
qed

text \<open>The key of a submit is in the slot when its first change is written.\<close>

lemma submit_slot:
  "client_change_id (if sb_idempotency_key b \<noteq> None then set_client_change_id (sb_idempotency_key b) s else s) = effective_key b s"
  by (auto simp: effective_key_def peek_client_change_id_def set_client_change_id_def split: option.split)

text \<open>The first change of a submit, and the row, once everything is written.\<close>

definition submit_made ::
  "submit_base \<Rightarrow> submit_body \<Rightarrow> string \<Rightarrow> uuid option \<Rightarrow> string \<Rightarrow> string \<Rightarrow> uuid \<Rightarrow> store \<Rightarrow> store \<Rightarrow> bool" where
  "submit_made b body account key who aud i s t \<longleftrightarrow>
     inquiries s i = None \<and> iq_ids t = iq_ids s @ [i] \<and> client_change_id t = None
   \<and> (\<exists>r. inquiries t i = Some r \<and> iq_kind r = submit_kind body \<and> iq_seq r = Suc (sequences s (submit_kind body))
        \<and> iq_columns r = submitted_columns b body account key aud i
        \<and> (\<forall>d x. sb_created b = Some (d, x) \<longrightarrow> iq_created r = d)
        \<and> (\<forall>m. sb_modified b = Some m \<longrightarrow> iq_modified r = m))
   \<and> (\<forall>j. j \<noteq> i \<longrightarrow> map_option iq_static (inquiries t j) = map_option iq_static (inquiries s j))
   \<and> (\<exists>c cs. change_log t = change_log s @ c # cs \<and> change_kind c = Created \<and> subject_id c = i
        \<and> subject_kind c = submit_kind body \<and> actor c = who \<and> api_key_id c = key \<and> reason c = backfill_reason b
        \<and> (\<forall>k. effective_key b s = Some k \<longrightarrow> change_id c = k))"

lemma submit_on_conn_made:
  assumes f: "submit_on_conn grant b body key who aud seen s = Inr (t, i)" and ok: "sound s"
    and free: "\<And>k. effective_key b s = Some k \<Longrightarrow> find_change k seen = None"
  shows "\<exists>account. sb_account b = Some account \<and> i = mint_id s \<and> submit_made b body account key who aud i s t"
  using f
proof (cases rule: submit_on_conn_cases)
  case (replayed k c)
  with free show ?thesis by simp
next
  case (created account s1 s2 u)
  have n: "never_used i s" using ok mint_never_used by (simp add: created(6) sound_def)
  have ok1: "sound s1" "never_used i s1" using ok n by (simp_all add: created(3))
  have same: "inquiries s1 = inquiries s" "sequences s1 = sequences s" "change_log s1 = change_log s" "iq_ids s1 = iq_ids s"
    "clock s1 = clock s" "client_change_id s1 = effective_key b s"
    using submit_slot [of b s] by (simp_all add: created(3) set_client_change_id_def)
  from created(7) obtain r where r: "inquiries s2 = (inquiries s1)(i \<mapsto> r)" "iq_kind r = submit_kind body"
    "iq_seq r = Suc (sequences s1 (submit_kind body))" "iq_columns r = submitted_columns b body account key aud i"
    "iq_created r = (case sb_created b of None \<Rightarrow> clock s1 | Some d \<Rightarrow> fst d)"
    "inquiries s1 i = None" "change_log s2 = change_log s1" "iq_ids s2 = iq_ids s1 @ [i]"
    "client_change_id s2 = client_change_id s1" by (rule insert_row_row)
  have s2: "sound s2" "map_option iq_kind (inquiries s2 i) = Some (submit_kind body)"
    using insert_row_follows [OF created(7) ok1] by (simp_all add: follows_def)
  note lr = log_row_follows [OF created(8) s2]
  from created(8) obtain e cause subs v where
    e: "emit_change ((emit_args i (submit_kind body) Created)\<lparr>em_api_key_id := key, em_actor := who,
         em_reason := backfill_reason b, em_marginal_cost := sb_marginal_cost b\<rparr>) True s2 = Inr (e, cause, subs)"
    and v: "post_insert body i cause key who e = Inr v"
    and u: "u = (case sb_modified b of None \<Rightarrow> v | Some m \<Rightarrow> restamp_modified [(i, m)] v)"
    by (rule log_rowE)
  obtain c where c: "change_log e = change_log s2 @ [c]" "change_of cause ((emit_args i (submit_kind body) Created)\<lparr>em_api_key_id := key,
        em_actor := who, em_reason := backfill_reason b, em_marginal_cost := sb_marginal_cost b\<rparr>) subs c"
    "\<And>k. client_change_id s2 = Some k \<Longrightarrow> cause = k"
    using emit_created [OF e] by (auto simp: emit_args_def)
  have adv: "advances s2 e" by (rule emitted_advances [OF emit_change_emitted(1) [OF e]])
  have "no_field_edit s2 e" by (rule unedited.emit_change [OF e]) (simp add: emit_args_def)
  then have "sound e" using follows_advances [OF adv _ s2(1)] by (simp add: follows_def)
  then have ev: "grown i e v" by (rule post_insert_grown [OF v, rotated]) (use advancesD(4) [OF adv] s2(2) in simp)
  have vu: "change_log u = change_log v"
    using restampedD(1) [OF restamp_restamped] by (auto simp: u split: option.split)
  obtain cs where cs: "change_log u = change_log s @ c # cs"
    using ev c(1) r(7) same(3) unfolding vu grown_def advances_def prefix_def by auto
  have st: "map_option iq_static (inquiries u j) = map_option iq_static (inquiries s2 j)" for j
    using lr(2) by (simp add: rows_kept_def)
  obtain q where q: "inquiries u i = Some q" "iq_static q = iq_static r"
    using st [of i] r(1) by (cases "inquiries u i") auto
  have md: "iq_modified q = m" if "sb_modified b = Some m" for m
    using q(1) that by (cases "inquiries v i") (auto simp: u restamp_modified_def)
  have others: "map_option iq_static (inquiries u j) = map_option iq_static (inquiries s j)" if "j \<noteq> i" for j
    using st [of j] that r(1) same(1) by simp
  have qs: "iq_kind q = submit_kind body" "iq_seq q = Suc (sequences s (submit_kind body))"
    "iq_columns q = submitted_columns b body account key aud i" "iq_created q = iq_created r"
    using q(2) r same(2) by (simp_all add: iq_static_def)
  have key: "change_id c = k" if "effective_key b s = Some k" for k
    using c(2,3) that r(9) same(6) by (simp add: change_of_def)
  have ids: "iq_ids u = iq_ids s @ [i]" using lr(3) r(8) same(4) by simp
  have "submit_made b body account key who aud i s t"
    unfolding submit_made_def created(9)
  proof (intro conjI)
    show "inquiries s i = None" using r(6) same(1) by simp
    show "\<exists>r. inquiries (set_client_change_id None u) i = Some r \<and> iq_kind r = submit_kind body
        \<and> iq_seq r = Suc (sequences s (submit_kind body)) \<and> iq_columns r = submitted_columns b body account key aud i
        \<and> (\<forall>d x. sb_created b = Some (d, x) \<longrightarrow> iq_created r = d) \<and> (\<forall>m. sb_modified b = Some m \<longrightarrow> iq_modified r = m)"
      using q(1) qs md r(5) by (intro exI [of _ q]) (simp add: set_client_change_id_def)
    show "\<exists>c cs. change_log (set_client_change_id None u) = change_log s @ c # cs \<and> change_kind c = Created \<and> subject_id c = i
        \<and> subject_kind c = submit_kind body \<and> actor c = who \<and> api_key_id c = key \<and> reason c = backfill_reason b
        \<and> (\<forall>k. effective_key b s = Some k \<longrightarrow> change_id c = k)"
      using cs c(2) key by (intro exI [of _ c] exI [of _ cs]) (simp add: change_of_def emit_args_def set_client_change_id_def)
  qed (use ids others in \<open>simp_all add: set_client_change_id_def\<close>)
  with created(4,6) show ?thesis by blast
qed

section \<open>The key\<close>

text \<open>\<open>k\<close> names the creation of \<open>i\<close>.\<close>

definition created_by :: "uuid \<Rightarrow> uuid \<Rightarrow> inquiry_kind \<Rightarrow> store \<Rightarrow> bool" where
  "created_by k i kind s \<longleftrightarrow> (\<exists>c. find_change k s = Some c \<and> change_kind c = Created \<and> subject_id c = i \<and> subject_kind c = kind)"

lemma find_change_mono: "prefix (change_log s) (change_log t) \<Longrightarrow> find_change k s = Some c \<Longrightarrow> find_change k t = Some c"
  by (auto simp: prefix_def find_change_def intro: find_append)

lemma created_by_mono: "prefix (change_log s) (change_log t) \<Longrightarrow> created_by k i kind s \<Longrightarrow> created_by k i kind t"
  unfolding created_by_def using find_change_mono by blast

lemma created_by_state [simp]:
  "created_by k i kind (s\<lparr>buffer := x\<rparr>) = created_by k i kind s" "created_by k i kind (s\<lparr>published := y\<rparr>) = created_by k i kind s"
  "created_by k i kind (set_client_change_id q s) = created_by k i kind s"
  by (simp_all add: created_by_def find_change_def set_client_change_id_def)

lemma lookup_existing_created:
  "lookup_existing_by_change k kind s = Inr (Some i) \<longleftrightarrow> created_by k i kind s"
  by (auto simp: lookup_existing_by_change_def created_by_def split: option.splits)

lemma submit_on_conn_key:
  assumes f: "submit_on_conn grant b body key who aud seen s = Inr (t, i)" and ok: "sound s"
    and k: "effective_key b s = Some k" and seen: "prefix (change_log seen) (change_log s)"
  shows "created_by k i (submit_kind body) t"
proof (cases "find_change k seen")
  case (Some c)
  with f ok k have "created_by k i (submit_kind body) seen" "t = set_client_change_id None s"
    by (cases rule: submit_on_conn_cases; auto simp: created_by_def)+
  with created_by_mono [OF seen] show ?thesis by simp
next
  case None
  obtain account where m: "submit_made b body account key who aud i s t"
    using submit_on_conn_made [OF f ok] None k by auto
  then obtain c cs where c: "change_log t = change_log s @ c # cs" "change_kind c = Created" "subject_id c = i"
    "subject_kind c = submit_kind body" "change_id c = k"
    using k by (auto simp: submit_made_def)
  have "sound t" using submit_on_conn_follows [OF f ok] by (simp add: follows_def)
  then have "distinct (map change_id (change_log t))" by (simp add: sound_def store_ok_def log_ok_def)
  then have "k \<notin> change_id ` set (change_log s)" using c(1,5) by auto
  then have "find_change k t = Some c" using find_snoc_fresh [of k "change_log s" c cs] c(1,5) by (simp add: find_change_def)
  with c show ?thesis by (auto simp: created_by_def)
qed

text \<open>Of a transaction.\<close>

lemma submit_cases:
  assumes s: "submit grant b body key who aud seen s = (t, r)"
  obtains (refused) "audience_missing body aud" "t = s" "r = Inl TypeError"
  | (made) a u i where "submit_on_conn grant b body key who a seen (s\<lparr>buffer := []\<rparr>) = Inr (u, i)" "r = Inr i"
      "t = u\<lparr>published := published u @ buffer u, buffer := []\<rparr>" "\<not> audience_missing body aud"
      "a = (case aud of None \<Rightarrow> [] | Some a \<Rightarrow> a)"
  | (recovered) x :: submit_failure and k i where "r = Inr i" "t = set_client_change_id (slot_left x) s" "effective_key b s = Some k"
      "created_by k i (submit_kind body) s"
  | (failed) x :: submit_failure and e where "r = Inl e" "t = set_client_change_id (slot_left x) s"
proof (cases "audience_missing body aud")
  case True
  with s show ?thesis by (intro refused) (simp_all add: submit_def)
next
  case False
  let ?a = "case aud of None \<Rightarrow> [] | Some a \<Rightarrow> a"
  have g: "submit_generic grant b body key who ?a seen s = (t, r)" using s False by (simp add: submit_def)
  show ?thesis
  proof (cases "submit_on_conn grant b body key who ?a seen (s\<lparr>buffer := []\<rparr>)")
    case (Inr y)
    obtain u i where "y = (u, i)" by force
    with Inr g False show ?thesis by (intro made) (auto simp: submit_generic_def submit_tx_def)
  next
    case (Inl x)
    let ?t = "set_client_change_id (slot_left x) s"
    have tx: "submit_tx (submit_on_conn grant b body key who ?a seen) s = (?t, Inl x)" using Inl by (simp add: submit_tx_def)
    show ?thesis
    proof (cases "\<exists>k i. effective_key b s = Some k \<and> failed_with x = UniqueViolation \<and> on_change_log_pkey x
        \<and> lookup_existing_by_change k (submit_kind body) ?t = Inr (Some i)")
      case True
      then obtain k i where k: "effective_key b s = Some k" "failed_with x = UniqueViolation" "on_change_log_pkey x"
        "lookup_existing_by_change k (submit_kind body) ?t = Inr (Some i)" by blast
      with g tx have "r = Inr i" "t = ?t" by (simp_all add: submit_generic_def)
      with k show ?thesis by (intro recovered [of i x k]) (simp_all add: lookup_existing_created)
    next
      case False
      then have "t = ?t \<and> (\<exists>e. r = Inl e)"
        using g tx by (auto simp: submit_generic_def split: option.splits if_splits sum.splits)
      then show ?thesis by (auto intro: failed)
    qed
  qed
qed

lemma effective_key_buffer [simp]: "effective_key b (s\<lparr>buffer := x\<rparr>) = effective_key b s"
  by (simp add: effective_key_def peek_client_change_id_def split: option.split)

lemma submit_key:
  assumes s: "submit grant b body key who aud seen s = (t, Inr i)" and ok: "sound s"
    and k: "effective_key b s = Some k" and seen: "prefix (change_log seen) (change_log s)"
  shows "created_by k i (submit_kind body) t"
  using s
proof (cases rule: submit_cases)
  case (made a u j)
  have "created_by k j (submit_kind body) u"
    by (rule submit_on_conn_key [OF made(1)]) (use ok k seen in simp_all)
  then show ?thesis using made(2,3) by simp
next
  case (recovered x k' j)
  with k show ?thesis by simp
qed simp_all

end
