(* ===== verification/Submit_Accepts.thy ===== *)
theory Submit_Accepts
  imports Submit_Effects
begin

text \<open>
  The validators of the wire against the constraints of the tables: what a body has to satisfy
  beyond its validators for its row to go in.
\<close>

text \<open>What the validators leave to the database: the size of a number and of a document, and the
  state and audience of a session.\<close>

definition within_columns :: "submit_base \<Rightarrow> submit_body \<Rightarrow> string \<Rightarrow> bool" where
  "within_columns b body aud \<longleftrightarrow>
     unless_none (\<lambda>j. json_octets j \<le> 65536) (sb_app b)
   \<and> (case body of
        SubmitIssue _ _ prio _ _ \<Rightarrow> unless_none (\<lambda>n. n < 2 ^ 31) prio
      | SubmitAgentSession _ _ _ _ \<Rightarrow> audience_shape aud \<and> sb_status b \<noteq> Some ''complete''
      | _ \<Rightarrow> True)"

lemma normalize_insert_simps [simp]:
  "normalize_for_insert c None = None"
  "normalize_for_insert c (Some (VStr x)) = (if collapsible c \<and> strip x = [] then None else Some (VStr x))"
  "normalize_for_insert c (Some (VInt n)) = Some (VInt n)"
  "normalize_for_insert c (Some (VFloat y)) = Some (VFloat y)"
  "normalize_for_insert c (Some (VTime n)) = Some (VTime n)"
  "normalize_for_insert c (Some (VJson j)) = Some (VJson j)"
  "normalize_for_insert c (Some (VId i)) = Some (VId i)"
  "normalize_for_insert c (Some (VBool q)) = Some (VBool q)"
  "normalize_for_insert c (Some (VIds is)) = (if collapsible c \<and> is = [] then None else Some (VIds is))"
  by (simp_all add: normalize_for_insert_def normalize_col_def empty_str_to_none_def empty_list_to_none_def)

lemma normalize_insert_strs:
  "normalize_for_insert c (Some (VStrs xs)) = None \<or> (\<exists>ys. normalize_for_insert c (Some (VStrs xs)) = Some (VStrs ys))"
  by (simp add: normalize_for_insert_def normalize_col_def empty_list_to_none_def)

lemma has_type_strs [simp]: "has_type t (VStrs xs) = (t = TEXTS)"
  by simp

text \<open>A value of a column, as the CHECK of the table wants it.\<close>

definition insertable :: "inquiry_kind \<Rightarrow> column \<Rightarrow> cval option \<Rightarrow> bool" where
  "insertable k c v \<longleftrightarrow> typed c v
     \<and> (case v of None \<Rightarrow> \<not> (column_applies k c \<and> required (COLUMN_SPECS c))
        | Some x \<Rightarrow> column_applies k c \<and> column_check c x)"

lemma insertable_strs:
  assumes "column_applies k c" "sql_type_of c = TEXTS" "c \<noteq> IssueKind" "\<not> required (COLUMN_SPECS c)"
  shows "insertable k c (normalize_for_insert c (Some (VStrs xs)))"
  using normalize_insert_strs [of c xs] assms by (auto simp: insertable_def typed_def column_check_def)

lemma insertable_None: "\<not> (column_applies k c \<and> required (COLUMN_SPECS c)) \<Longrightarrow> insertable k c None"
  by (simp add: insertable_def typed_def)

lemma insertable_text:
  assumes "column_applies k c" "sql_type_of c = TEXT" "\<not> required (COLUMN_SPECS c)" "\<And>x. v = Some x \<Longrightarrow> column_check c (VStr x)"
  shows "insertable k c (normalize_for_insert c (map_option VStr v))"
  using assms by (cases v) (auto simp: insertable_def typed_def)

lemma plain_text [simp]:
  "c \<notin> {Status, BeliefJudgement, PaperPublicationType, SessionAudience} \<Longrightarrow> column_check c (VStr x)"
  by (simp add: column_check_def)

lemma issue_kinds_normal:
  assumes "xs \<noteq> []" "set xs \<subseteq> set ISSUE_KINDS"
  shows "canonical_strs xs \<noteq> []" "set (canonical_strs xs) \<subseteq> set ISSUE_KINDS"
proof -
  have k: "strip x = x \<and> x \<noteq> []" if "x \<in> set ISSUE_KINDS" for x
    using that by (auto simp: ISSUE_KINDS_def) (code_simp+)
  then have "strip ` set xs - {[]} = set xs" using assms(2) by (force simp: image_iff)
  then have s: "set (canonical_strs xs) = set xs" by (simp add: set_canonical_strs)
  with assms show "set (canonical_strs xs) \<subseteq> set ISSUE_KINDS" by simp
  from s assms(1) show "canonical_strs xs \<noteq> []" by (metis set_empty)
qed

lemma base_columns:
  assumes "valid_base now b" "account \<noteq> []" "within_columns b body aud"
    and "c \<in> {Title, Description, Labels, Owner, Account, Subscribers, Status, App}"
  shows "insertable k c (submitted_columns b body account key aud i c)"
proof -
  have base: "map_of (submit_extras body key aud i) c = None" using assms(4) by (cases body) auto
  have v: "sb_title b \<noteq> []" using assms(1) by (auto simp: valid_base_def is_blank_def strip_def lstrip_def)
  have st: "sb_status b = Some x \<Longrightarrow> x \<in> set STATUSES" for x using assms(1) by (simp add: valid_base_def unless_none_def)
  have act: "''active'' \<in> set STATUSES" by (simp add: STATUSES_def)
  have app: "sb_app b = Some j \<Longrightarrow> (case j of JObj _ \<Rightarrow> True | _ \<Rightarrow> False) \<and> json_octets j \<le> 65536" for j
    using assms(1,3) by (simp add: valid_base_def within_columns_def unless_none_def)
  have appl: "column_applies k c" using assms(4) by (auto simp: column_applies_def ColumnSpec_def)
  consider "c = Title" | "c = Description" | "c = Labels" | "c = Owner" | "c = Account" | "c = Subscribers" | "c = Status" | "c = App"
    using assms(4) by auto
  then show ?thesis
  proof cases
    case 1 then show ?thesis using base appl by (simp add: submitted_columns_def submit_values_def insertable_def typed_def collapsible_def ColumnSpec_def)
  next
    case 2 then show ?thesis using base appl
      by (simp add: submitted_columns_def submit_values_def insertable_text ColumnSpec_def)
  next
    case 3 then show ?thesis using base appl by (simp add: submitted_columns_def submit_values_def insertable_strs ColumnSpec_def)
  next
    case 4 then show ?thesis using base appl by (simp add: submitted_columns_def submit_values_def insertable_text ColumnSpec_def)
  next
    case 5 then show ?thesis using base appl by (simp add: submitted_columns_def submit_values_def insertable_def typed_def collapsible_def ColumnSpec_def)
  next
    case 6 then show ?thesis using base appl by (simp add: submitted_columns_def submit_values_def insertable_strs ColumnSpec_def)
  next
    case 7 then show ?thesis using st act appl by (auto simp: submitted_columns_def insertable_def typed_def column_check_def split: option.split)
  next
    case 8 then show ?thesis using base appl app
      by (cases "sb_app b") (simp_all add: submitted_columns_def submit_values_def insertable_def typed_def column_check_def ColumnSpec_def split: json.splits)
  qed
qed

lemma insertable_opt:
  assumes "column_applies k c" "\<not> required (COLUMN_SPECS c)"
    and "\<And>x. v = Some x \<Longrightarrow> has_type (sql_type_of c) (f x) \<and> column_check c (f x) \<and> normalize_for_insert c (Some (f x)) = Some (f x)"
  shows "insertable k c (normalize_for_insert c (map_option f v))"
  using assms by (cases v) (auto simp: insertable_def typed_def)

definition base_column_set :: "column set" where
  "base_column_set = {Title, Description, Labels, Owner, Account, Subscribers, Status, App}"

text \<open>What \<open>parse_body\<close> accepts, kind by kind.\<close>

lemma parsed_body:
  assumes "parse_body b0 body0 = Inr body"
  shows "case body of
      SubmitIssue iks val prio ns rs \<Rightarrow> unless_none (\<lambda>xs. xs \<noteq> [] \<and> set xs \<subseteq> set ISSUE_KINDS) iks \<and> unless_none (\<lambda>n. 0 \<le> n) prio
    | SubmitPaper p \<Rightarrow> unless_none (\<lambda>x. x \<in> set PUBLICATION_TYPES) (pf_publication_type p)
    | SubmitBelief j c ps fs \<Rightarrow> unless_none (\<lambda>x. x \<in> set JUDGEMENTS) j \<and> unless_none (in_unit 0) c
    | _ \<Rightarrow> True"
  using assms by (cases body0) (auto simp: bind_res_Inr_iff split: if_splits)

lemmas kind_column_simps =
  submitted_columns_def submit_values_def column_applies_def ColumnSpec_def base_column_set_def unless_none_def

lemma kind_columns:
  assumes p: "parse_body b0 body0 = Inr body" and w: "within_columns b body aud" and c: "c \<notin> base_column_set"
  shows "insertable (submit_kind body) c (submitted_columns b body account key aud i c)"
proof (cases body)
  case (SubmitIssue iks val prio ns rs)
  note ok = parsed_body [OF p, unfolded SubmitIssue submit_body.case]
  have ik: "insertable Issue IssueKind (normalize_for_insert IssueKind (map_option (VStrs \<circ> canonical_strs) iks))"
  proof (rule insertable_opt)
    fix xs assume "iks = Some xs"
    then have "xs \<noteq> []" "set xs \<subseteq> set ISSUE_KINDS" using ok by (simp_all add: unless_none_def)
    from issue_kinds_normal [OF this] show "has_type (sql_type_of IssueKind) ((VStrs \<circ> canonical_strs) xs)
        \<and> column_check IssueKind ((VStrs \<circ> canonical_strs) xs)
        \<and> normalize_for_insert IssueKind (Some ((VStrs \<circ> canonical_strs) xs)) = Some ((VStrs \<circ> canonical_strs) xs)"
      by (simp add: column_check_def ColumnSpec_def normalize_for_insert_def normalize_col_def collapsible_def Suc_le_eq)
  qed (simp_all add: column_applies_def ColumnSpec_def)
  have pr: "insertable Issue IssuePriority (normalize_for_insert IssuePriority (map_option VInt prio))"
    using ok w by (intro insertable_opt)
      (auto simp: column_applies_def ColumnSpec_def within_columns_def SubmitIssue unless_none_def column_check_def)
  show ?thesis using c ik pr unfolding SubmitIssue submit_kind.simps
    by (cases c) (auto simp: kind_column_simps insertable_None intro!: insertable_text)
next
  case SubmitArtifact
  show ?thesis using c unfolding SubmitArtifact submit_kind.simps
    by (cases c) (simp_all add: kind_column_simps insertable_None)
next
  case (SubmitExperiment ccs out cfg)
  have cf: "insertable Experiment ExperimentConfig (normalize_for_insert ExperimentConfig (map_option VJson cfg))"
    by (intro insertable_opt) (auto simp: column_applies_def ColumnSpec_def column_check_def)
  show ?thesis using c cf unfolding SubmitExperiment submit_kind.simps
    by (cases c) (auto simp: kind_column_simps insertable_None insertable_def [of _ ExperimentCodechanges] typed_def
        column_check_def intro!: insertable_text)
next
  case (SubmitPaper p)
  note ok = parsed_body [OF p, unfolded SubmitPaper submit_body.case]
  have pd: "insertable Paper PaperPublishDate (normalize_for_insert PaperPublishDate (map_option VTime (pf_publish_date p)))"
    by (intro insertable_opt) (auto simp: column_applies_def ColumnSpec_def column_check_def)
  show ?thesis using c ok pd unfolding SubmitPaper submit_kind.simps
    by (cases c) (auto simp: kind_column_simps column_check_def insertable_None insertable_strs intro!: insertable_text)
next
  case (SubmitBelief j conf ps fs)
  note ok = parsed_body [OF p, unfolded SubmitBelief submit_body.case]
  have co: "insertable Belief BeliefConfidence (normalize_for_insert BeliefConfidence (map_option VFloat conf))"
    using ok by (intro insertable_opt) (auto simp: column_applies_def ColumnSpec_def column_check_def in_unit_def unless_none_def)
  show ?thesis using c ok co unfolding SubmitBelief submit_kind.simps
    by (cases c) (auto simp: kind_column_simps column_check_def insertable_None intro!: insertable_text)
next
  case (SubmitCodeChange sha)
  show ?thesis using c unfolding SubmitCodeChange submit_kind.simps
    by (cases c) (auto simp: kind_column_simps insertable_None intro!: insertable_text)
next
  case (SubmitWebResult url)
  show ?thesis using c unfolding SubmitWebResult submit_kind.simps
    by (cases c) (auto simp: kind_column_simps insertable_None intro!: insertable_text)
next
  case (SubmitWebSearch q prov)
  show ?thesis using c unfolding SubmitWebSearch submit_kind.simps
    by (cases c) (auto simp: kind_column_simps insertable_None intro!: insertable_text)
next
  case (SubmitAgentSession cli cid started rooms)
  have aud: "audience_shape aud" using w by (simp add: within_columns_def SubmitAgentSession)
  then have au: "insertable AgentSession SessionAudience (Some (VStr aud))"
    by (simp add: insertable_def typed_def column_applies_def ColumnSpec_def column_check_def)
  have st: "insertable AgentSession SessionStarted (normalize_for_insert SessionStarted (map_option VTime started))"
    by (intro insertable_opt) (auto simp: column_applies_def ColumnSpec_def column_check_def)
  have ob: "insertable AgentSession SessionOpenedBy (normalize_for_insert SessionOpenedBy (map_option VId key))"
    by (intro insertable_opt) (auto simp: column_applies_def ColumnSpec_def column_check_def)
  show ?thesis using c au st ob unfolding SubmitAgentSession submit_kind.simps
    by (cases c) (auto simp: kind_column_simps collapsible_def column_check_def insertable_None insertable_strs
        intro!: insertable_text)
next
  case SubmitAccessGroup
  show ?thesis using c unfolding SubmitAccessGroup submit_kind.simps
    by (cases c) (auto simp: kind_column_simps insertable_None insertable_def [of _ GroupRead] insertable_def [of _ GroupWrite]
        insertable_def [of _ GroupSystem] typed_def column_check_def)
qed

section \<open>The row goes in\<close>

lemma submitted_insertable:
  assumes "parse_body b0 body0 = Inr body" "valid_base now b" "account \<noteq> []" "within_columns b body aud"
  shows "insertable (submit_kind body) c (submitted_columns b body account key aud i c)"
proof (cases "c \<in> base_column_set")
  case True
  then show ?thesis using base_columns [OF assms(2-4)] by (simp add: base_column_set_def)
next
  case False
  then show ?thesis by (rule kind_columns [OF assms(1,4)])
qed

lemma kind_only_columns:
  assumes "c \<in> {SessionEnded, GroupDomain}"
  shows "submitted_columns b body account key aud i c = None"
  using assms by (cases body) (auto simp: submitted_columns_def submit_values_def)

text \<open>A required column other than the status is given.\<close>

lemma submitted_required:
  assumes "c \<noteq> Status" "required (COLUMN_SPECS c)" "column_applies (submit_kind body) c"
  shows "submit_values b account (submit_extras body key aud i) c \<noteq> None"
  using assms by (cases c; cases body) (simp_all add: submit_values_def column_applies_def ColumnSpec_def)

text \<open>The owner of a live session is its name, which no other live session may have.\<close>

definition name_free :: "submit_base \<Rightarrow> submit_body \<Rightarrow> store \<Rightarrow> bool" where
  "name_free b body s \<longleftrightarrow>
     (submit_kind body = AgentSession \<longrightarrow> unless_none (\<lambda>x. is_blank x \<or> (\<forall>j \<in> set (iq_ids s).
        case inquiries s j of None \<Rightarrow> True | Some q \<Rightarrow> live_session_owner q \<noteq> Some x)) (sb_owner b))"

lemma submitted_owner:
  "submitted_columns b body account key aud i Owner
     = (case sb_owner b of None \<Rightarrow> None | Some x \<Rightarrow> if is_blank x then None else Some (VStr x))"
  by (cases body; cases "sb_owner b") (simp_all add: submitted_columns_def submit_values_def collapsible_def is_blank_def ColumnSpec_def)

lemma insert_row_accepts:
  assumes p: "parse_body b0 body0 = Inr body" and v: "valid_base now b" "account \<noteq> []" "within_columns b body aud"
    and ok: "rows_ok s" and i: "inquiries s i = None" and free: "name_free b body s"
    and grant: "\<And>u. grant i account u = Inr ()"
  shows "\<exists>t. insert_row grant b body account key aud i s = Inr t"
proof -
  let ?k = "submit_kind body" and ?c = "submitted_columns b body account key aud i"
  let ?r = "\<lparr>iq_kind = ?k, iq_seq = Suc (sequences s ?k),
              iq_created = (case map_option fst (sb_created b) of None \<Rightarrow> clock s | Some d \<Rightarrow> d),
              iq_modified = clock s, iq_locked = False, iq_cost = 0, iq_columns = ?c\<rparr>"
  let ?s = "s\<lparr>sequences := (sequences s)(?k := Suc (sequences s ?k))\<rparr>"
  note ins = submitted_insertable [where key = key and i = i, OF p v]
  have st: "sb_status b \<noteq> Some ''complete''" if "?k = AgentSession"
    using v(3) that by (cases body) (simp_all add: within_columns_def)
  have none: "?c SessionEnded = None" "?c GroupDomain = None" by (rule kind_only_columns, simp)+
  have rt: "row_typed ?r" using ins by (simp add: row_typed_def insertable_def)
  have nn: "not_null_check ?r"
  proof -
    have "?c c \<noteq> None" if "c \<in> {Title, Account, Status}" for c
      using ins [where c = c] that by (cases "?c c") (auto simp: insertable_def column_applies_def ColumnSpec_def)
    then show ?thesis by (simp add: not_null_check_def)
  qed
  have ic: "inquiry_row_check ?r"
    unfolding inquiry_row_check_def
  proof (intro conjI ballI impI)
    show "column_row_check ?r c" for c
      using ins [where c = c] by (simp add: column_row_check_def insertable_def split: option.splits)
    show "(iq_columns ?r SessionEnded \<noteq> None) = (iq_columns ?r Status = Some (VStr ''complete''))" if "iq_kind ?r = AgentSession"
      using st that none by (auto simp: submitted_columns_def [of _ _ _ _ _ _ Status] split: option.split)
  qed (simp add: none)
  have nc: "\<not> collides ?r q" if q: "inquiries s j = Some q" for j q
  proof -
    have "\<not> (iq_kind ?r = iq_kind q \<and> iq_seq ?r = iq_seq q)" using rows_okD(5) [OF ok q] by auto
    moreover have "iq_columns ?r GroupDomain = None" by (simp add: none)
    moreover have "live_session_owner ?r \<noteq> live_session_owner q" if "live_session_owner ?r \<noteq> None"
    proof -
      from that obtain x where x: "sb_owner b = Some x" "live_session_owner ?r = Some x" "\<not> is_blank x" "?k = AgentSession"
        by (auto simp: live_session_owner_def iq_owner_def submitted_owner split: option.splits if_splits)
      have "live_session_owner q \<noteq> Some x"
        using free x rows_okD(2) [OF ok q] q by (auto simp: name_free_def unless_none_def)
      with x(2) show ?thesis by simp
    qed
    ultimately show ?thesis unfolding collides_def by blast
  qed
  have "\<exists>t. place_inquiry_row i ?r ?s = Inr t"
  proof -
    have "\<forall>j \<in> set (iq_ids ?s). j \<noteq> i \<longrightarrow> (\<forall>q. inquiries ?s j = Some q \<longrightarrow> \<not> collides ?r q)"
      using nc by simp
    with rt nn ic show ?thesis unfolding place_inquiry_row_Inr by blast
  qed
  then have "\<exists>t. insert_inquiry_row i ?r ?s = Inr t" using i by (auto simp: insert_inquiry_row_def)
  moreover have "\<not> (\<exists>c \<in> set columns. c \<noteq> Status \<and> required (COLUMN_SPECS c) \<and> column_applies ?k c
      \<and> submit_values b account (submit_extras body key aud i) c = None)"
    using submitted_required by blast
  ultimately obtain t where "insert_inquiry i ?k (sb_status b) (map_option fst (sb_created b))
      (submit_values b account (submit_extras body key aud i)) s = Inr t"
    by (auto simp: insert_inquiry_def Let_def submitted_columns_def [abs_def])
  with grant show ?thesis by (auto simp: insert_row_def bind_res_Inr_iff)
qed

section \<open>The change goes in\<close>

lemma charge_gain:
  assumes "costs_ok s" "nonneg d"
  shows "\<exists>t oc nc subs. charge i d s = Inr (t, oc, nc, subs)"
  using assms costs_okD [OF assms(1), of i] by (cases "inquiries s i") (auto simp: charge_def Let_def nonneg_def)

lemma emit_created_total:
  assumes "unused_key s" "costs_ok s" "em_kind e = Created" "em_old e = empty_snapshot" "em_new e = empty_snapshot"
    and "em_caused_by e = None" "nonneg (em_marginal_cost e + em_cost_delta e)"
  shows "\<exists>t cid subs. emit_change e True s = Inr (t, cid, subs)"
proof -
  let ?s = "s\<lparr>client_change_id := None\<rparr>"
  let ?cid = "case client_change_id s of None \<Rightarrow> uuid4 ?s | Some k \<Rightarrow> k"
  obtain u oc nc subs where ch: "charge (em_subject_id e) (em_marginal_cost e + em_cost_delta e) ?s = Inr (u, oc, nc, subs)"
    using charge_gain [of ?s "em_marginal_cost e + em_cost_delta e" "em_subject_id e"] assms(2,7) unfolding costs_ok_slot by blast
  have u: "change_ids u = change_ids s" using charge_emitted(2) [OF ch] by (simp add: change_ids_def)
  have "?cid \<notin> change_ids s"
    using uuid4_fresh [of ?s] assms(1) by (simp add: change_ids_def unused_key_def split: option.splits)
  moreover have "change_row_check c" if "change_kind c = Created" "old c = empty_snapshot" "new c = empty_snapshot" for c
    using that by (simp add: change_row_check_def peers_check_def carries_peer_def annotation_check_def) (simp add: empty_snapshot_def)
  ultimately have "\<exists>v. apply_change ?cid e ?s = Inr v"
    using ch u by (auto simp: apply_change_def insert_change_def Let_def assms)
  then obtain v subs' where "emit_once e s = Inr (v, ?cid, subs', False)"
    by (cases "client_change_id s") (auto simp: emit_once_def consume_client_change_id_def)
  then show ?thesis using assms(3) by (simp add: emit_change_def bind_res_Inr_iff non_propagating_def)
qed

section \<open>The submit goes in\<close>

text \<open>A body that names no other inquiry.\<close>

definition linkless :: "submit_body \<Rightarrow> bool" where
  "linkless body \<longleftrightarrow>
     (case body of
        SubmitIssue _ _ _ ns rs \<Rightarrow> ns = [] \<and> rs = []
      | SubmitExperiment ccs _ _ \<Rightarrow> ccs = None \<or> ccs = Some []
      | SubmitBelief _ _ ps fs \<Rightarrow> ps = [] \<and> fs = []
      | _ \<Rightarrow> True)"

lemma linkless_before: "linkless body \<Longrightarrow> pre_insert body s = Inr ()"
  by (cases body) (auto simp: linkless_def pre_insert_def validate_list_references_def)

lemma linkless_after: "linkless body \<Longrightarrow> post_insert body i cause key who s = Inr s"
  by (cases body) (simp_all add: linkless_def post_insert_def)

text \<open>A body as the wire hands it on, for an open account, under no key or a key that names nothing yet.\<close>

definition admissible :: "nat \<Rightarrow> submit_base \<Rightarrow> submit_body \<Rightarrow> string option \<Rightarrow> store \<Rightarrow> bool" where
  "admissible now b body aud s \<longleftrightarrow>
     (\<exists>body0. parse_submit now (b, body0) = Inr (b, body)) \<and> linkless body \<and> sb_account b \<noteq> None
   \<and> within_columns b body (case aud of None \<Rightarrow> [] | Some a \<Rightarrow> a) \<and> name_free b body s
   \<and> nonneg (sb_marginal_cost b) \<and> unless_none (\<lambda>k. k \<notin> change_ids s) (effective_key b s)"

lemma submit_accepts:
  assumes a: "admissible now b body aud s" and ok: "sound s" and seen: "prefix (change_log seen) (change_log s)"
    and grant: "\<And>i x u. grant i x u = Inr ()"
  shows "\<exists>t i. submit grant b body key who aud seen s = (t, Inr i)"
proof -
  let ?a = "case aud of None \<Rightarrow> [] | Some a \<Rightarrow> a" and ?s = "s\<lparr>buffer := []\<rparr>"
  let ?i = "mint_id s"
  let ?s1 = "if sb_idempotency_key b \<noteq> None then set_client_change_id (sb_idempotency_key b) ?s else ?s"
  from a obtain body0 where p: "valid_base now b" "parse_body b body0 = Inr body"
    by (auto simp: admissible_def parse_submit_def bind_res_Inr_iff split: if_splits)
  from a obtain account where acc: "sb_account b = Some account" by (auto simp: admissible_def)
  then have acc': "account \<noteq> []" using p(1) by (auto simp: valid_base_def unless_none_def is_blank_def strip_def lstrip_def)
  have w: "within_columns b body ?a" using a by (simp add: admissible_def)
  have same: "inquiries ?s1 = inquiries s" "iq_ids ?s1 = iq_ids s" "rows_ok ?s1"
    using ok by (simp_all add: set_client_change_id_def sound_def)
  have new: "sound ?s1" "never_used ?i ?s1" using ok mint_never_used [of s] sound_def [of s] by simp_all
  have "\<exists>s2. insert_row grant b body account key ?a ?i ?s1 = Inr s2"
  proof (rule insert_row_accepts [OF p(2,1) acc' w same(3)])
    show "inquiries ?s1 ?i = None" using new(2) by (simp add: never_used_def)
    show "name_free b body ?s1" using a same(1,2) by (simp add: admissible_def name_free_def)
  qed (rule grant)
  then obtain s2 where s2: "insert_row grant b body account key ?a ?i ?s1 = Inr s2" by blast
  have ok2: "sound s2" using insert_row_follows(1) [OF s2 new] by (simp add: follows_def)
  have k2: "client_change_id s2 = effective_key b s" "change_log s2 = change_log s"
  proof -
    have "client_change_id s2 = client_change_id ?s1" "change_log s2 = change_log ?s1" by (rule insert_row_row [OF s2], assumption)+
    then show "client_change_id s2 = effective_key b s" "change_log s2 = change_log s"
      using submit_slot [of b ?s] by (simp_all add: set_client_change_id_def)
  qed
  have "change_ids s2 = change_ids s" by (simp add: k2(2) change_ids_def)
  then have "unused_key s2" using a k2(1) by (cases "effective_key b s") (simp_all add: unused_key_def admissible_def unless_none_def)
  then obtain u cause subs where "emit_change ((emit_args ?i (submit_kind body) Created)\<lparr>em_api_key_id := key, em_actor := who,
         em_reason := backfill_reason b, em_marginal_cost := sb_marginal_cost b\<rparr>) True s2 = Inr (u, cause, subs)"
    using emit_created_total [of s2 "(emit_args ?i (submit_kind body) Created)\<lparr>em_api_key_id := key, em_actor := who,
         em_reason := backfill_reason b, em_marginal_cost := sb_marginal_cost b\<rparr>"] ok2 a
    by (auto simp: emit_args_def sound_def store_ok_def admissible_def)
  then have l: "\<exists>t. log_row b body key who ?i s2 = Inr t"
    using a by (auto simp: log_row_def admissible_def linkless_after)
  have "find_change k seen = None" if "effective_key b ?s = Some k" for k
  proof (cases "find_change k seen")
    case (Some c)
    then have "k \<in> change_ids s" using find_change_mono [OF seen] find_change_ids by blast
    with a that show ?thesis by (simp add: admissible_def unless_none_def)
  qed
  then have probe: "(case effective_key b ?s of None \<Rightarrow> Inr None | Some k \<Rightarrow> lookup_existing_by_change k (submit_kind body) seen) = Inr None"
    by (auto simp: lookup_existing_by_change_def split: option.split)
  from l obtain t where t: "log_row b body key who ?i s2 = Inr t" by blast
  have "submit_on_conn grant b body key who ?a seen ?s = Inr (set_client_change_id None t, ?i)"
    unfolding submit_on_conn_def Let_def probe
    using a acc acc' s2 t by (simp add: admissible_def linkless_before)
  moreover have "\<not> audience_missing body aud"
    using w by (cases body; cases aud) (simp_all add: audience_missing_def within_columns_def audience_shape_def)
  ultimately show ?thesis by (simp add: submit_def submit_generic_def submit_tx_def)
qed

end
