(* ===== verification/Submit_Links.thy ===== *)
theory Submit_Links
  imports Submit_Effects
begin

text \<open>
  The edges of a submitted row. No statement of the submit path takes an edge away: annotating
  keeps the key, the cycle check and the inference only add. So every link the body names is an edge
  when the submit is done.
\<close>

section \<open>Keys that stay\<close>

definition keys_grow :: "store \<Rightarrow> store \<Rightarrow> bool" where
  "keys_grow s t \<longleftrightarrow> prefix (map edge_key (edges s)) (map edge_key (edges t))"

lemma keys_grow_refl [simp]: "keys_grow s s"
  by (simp add: keys_grow_def)

lemma keys_grow_same: "edges t = edges s \<Longrightarrow> keys_grow s t"
  by (simp add: keys_grow_def)

lemma keys_grow_trans: "keys_grow s t \<Longrightarrow> keys_grow t u \<Longrightarrow> keys_grow s u"
  unfolding keys_grow_def by (rule prefix_order.trans)

lemma keys_growD: "keys_grow s t \<Longrightarrow> x \<in> edge_key ` set (edges s) \<Longrightarrow> x \<in> edge_key ` set (edges t)"
  by (auto simp: keys_grow_def simp flip: set_map dest: set_mono_prefix)

lemma keys_grow_emitted: "emitted s t \<Longrightarrow> keys_grow s t"
  by (simp add: keys_grow_same emitted_edges)

lemma keys_grow_annotate:
  assumes "set_edge_annotation_on_conn f t k p n v ls delta why req key who s = Inr (s', cid)"
  shows "keys_grow s s'"
  using assms
proof (cases rule: set_edge_annotation_cases)
  case (changed row p' n' v' l' s1 cause)
  have "map edge_key (edges s1) = map edge_key (edges s)"
    using changed(9) by (auto simp: update_edge_row_def edge_key_def split: if_splits)
  then show ?thesis using emitted_edges [OF emit_paired_emitted(1) [OF changed(10)]] by (simp add: keys_grow_def)
qed simp_all

lemma keys_grow_insert:
  assumes "insert_edge f fk t k p n v ls s = Inr (s1, ins, tk)"
  shows "keys_grow s s1" "(f, t, k) \<in> edge_key ` set (edges s1)"
proof -
  obtain e where e: "insert_edge_row e s = Inr (s1, ins)" "edge_key e = (f, t, k)"
    using assms by (auto simp: insert_edge_def bind_res_Inr_iff edge_key_def)
  from e show "keys_grow s s1" by (cases ins) (auto simp: res_simps keys_grow_def)
  from e show "(f, t, k) \<in> edge_key ` set (edges s1)" by (cases ins) (auto simp: res_simps)
qed

lemma keys_grow_edges:
  shows "add_edge_on_conn f t k p n v ls why caused c key who s = Inr (s', cid, created)
      \<Longrightarrow> keys_grow s s' \<and> (f, t, k) \<in> edge_key ` set (edges s')"
    and "infer_produced_on_conn f t k caused key who s = Inr s' \<Longrightarrow> keys_grow s s'"
proof -
  have base: "keys_grow s s' \<and> (f, t, k) \<in> edge_key ` set (edges s')"
    if a: "add_edge_on_conn f t k p n v ls why caused c key who s = Inr (s', cid, created)"
      and infer: "\<And>caused u. infer_produced_on_conn f t k caused key who u = Inr s' \<Longrightarrow> keys_grow u s'"
    for f t k p n v ls why caused c key who s s' cid created
    using a
  proof (cases rule: add_edge_cases)
    case (upsert fk tk)
    have "keys_grow s s'" by (rule keys_grow_annotate [OF upsert(4)])
    with keys_grow_insert(2) [OF upsert(2)] show ?thesis using keys_growD by blast
  next
    case (created fk tk s1 s2 cause)
    have "keys_grow s1 s2" by (rule keys_grow_emitted [OF emit_paired_emitted(1) [OF created(5)]])
    moreover have "keys_grow s2 s'" by (rule infer [OF created(6)])
    ultimately have "keys_grow s1 s'" by (rule keys_grow_trans)
    with keys_grow_insert [OF created(4)] show ?thesis using keys_grow_trans keys_growD by blast
  qed
  have infer: "keys_grow s s'" if i: "infer_produced_on_conn f t k caused key who s = Inr s'"
    for f t k caused key who s s'
    using i
  proof (cases rule: infer_produced_cases)
    case (stamped producer produced w cid created)
    show ?thesis by (rule conjunct1 [OF base [OF stamped(3)]]) (auto simp: infer_produced_on_conn.simps)
  qed simp
  show "add_edge_on_conn f t k p n v ls why caused c key who s = Inr (s', cid, created)
      \<Longrightarrow> keys_grow s s' \<and> (f, t, k) \<in> edge_key ` set (edges s')"
    by (rule base) (auto intro: infer)
  show "infer_produced_on_conn f t k caused key who s = Inr s' \<Longrightarrow> keys_grow s s'" by (rule infer)
qed

section \<open>The links of a body\<close>

definition submit_links :: "submit_body \<Rightarrow> uuid \<Rightarrow> (uuid \<times> uuid \<times> edge_kind) list" where
  "submit_links body i =
     (case body of
        SubmitIssue _ _ _ ns rs \<Rightarrow> map (\<lambda>n. (i, fst n, Narrows)) ns @ map (\<lambda>r. (i, r, Requires)) rs
      | SubmitBelief _ _ ps fs \<Rightarrow> map (\<lambda>c. (artifact_id c, i, Proves)) ps @ map (\<lambda>c. (artifact_id c, i, Favors)) fs
      | _ \<Rightarrow> [])"

definition submit_citations :: "submit_body \<Rightarrow> citation list" where
  "submit_citations body = (case body of SubmitBelief _ _ ps fs \<Rightarrow> ps @ fs | _ \<Rightarrow> [])"

text \<open>What one link leaves: its key, and the kind the body says the peer has.\<close>

definition linked :: "uuid \<times> uuid \<times> edge_kind \<Rightarrow> (uuid \<times> inquiry_kind) option \<Rightarrow> store \<Rightarrow> bool" where
  "linked x peer s \<longleftrightarrow> x \<in> edge_key ` set (edges s)
     \<and> (case peer of None \<Rightarrow> True | Some (j, k) \<Rightarrow> map_option iq_kind (inquiries s j) = Some k)"

lemma link_linked:
  assumes l: "link i ik ek key who cause kind as_from x s = Inr t" and kd: "map_option iq_kind (inquiries s i) = Some ik"
    and ok: "sound s"
  shows "keys_grow s t" "linked (if as_from then (fst x, i, ek) else (i, fst x, ek)) (map_option (Pair (fst x)) kind) t"
proof -
  obtain ins where a: "insert_edge_and_audit i ik (fst x) ek key who cause (fst (snd x)) (snd (snd x)) kind as_from s = Inr (t, ins)"
    using l by (auto simp: link_def bind_res_Inr_iff)
  from audit_edge_cases [OF a kd] obtain f fk g tk s1 where
    fg: "(f, g) = (if as_from then (fst x, i) else (i, fst x))"
    and f: "insert_edge f fk g ek (fst (snd x)) [] (snd (snd x)) [] s = Inr (s1, ins, tk)"
    and up: "\<not> ins \<Longrightarrow> s1 = s \<and> (\<exists>cid. set_edge_annotation_on_conn f g ek (or_absent (fst (snd x))) ABSENT
           (or_absent (snd (snd x))) ABSENT None [] False key who s = Inr (t, cid))"
    and new: "ins \<Longrightarrow> \<exists>s2 c2. emit_paired EdgeAdded (i, ik) (fst x, if as_from then fk else tk) ek None
           (Some (fst (snd x), Some [], snd (snd x), Some [])) (Some cause) True [] key who s1 = Inr (s2, c2)
         \<and> infer_produced_on_conn f g ek (Some c2) key who s2 = Inr t"
    and pk: "\<And>x'. kind = Some x' \<Longrightarrow> map_option iq_kind (inquiries s (fst x)) = Some x'" by metis
  have "keys_grow s1 t"
  proof (cases ins)
    case False
    with up show ?thesis using keys_grow_annotate by blast
  next
    case True
    with new obtain s2 c2 where e: "emit_paired EdgeAdded (i, ik) (fst x, if as_from then fk else tk) ek None
           (Some (fst (snd x), Some [], snd (snd x), Some [])) (Some cause) True [] key who s1 = Inr (s2, c2)"
      "infer_produced_on_conn f g ek (Some c2) key who s2 = Inr t" by blast
    show ?thesis
      by (rule keys_grow_trans [OF keys_grow_emitted [OF emit_paired_emitted(1) [OF e(1)]] keys_grow_edges(2) [OF e(2)]])
  qed
  with keys_grow_insert [OF f] have k: "keys_grow s t" "(f, g, ek) \<in> edge_key ` set (edges t)"
    using keys_grow_trans keys_growD by blast+
  show "keys_grow s t" by (rule k(1))
  have "map_option iq_kind (inquiries t j) = map_option iq_kind (inquiries s j)" for j
    using grown_kind [OF link_grown [OF l kd ok]] .
  with k(2) fg pk show "linked (if as_from then (fst x, i, ek) else (i, fst x, ek)) (map_option (Pair (fst x)) kind) t"
    by (cases kind) (auto simp: linked_def split: if_splits)
qed

text \<open>A link stays while others are written.\<close>

lemma linked_stays:
  "linked x peer s \<Longrightarrow> keys_grow s t \<Longrightarrow> (\<And>j. map_option iq_kind (inquiries t j) = map_option iq_kind (inquiries s j))
    \<Longrightarrow> linked x peer t"
  unfolding linked_def by (auto intro: keys_growD split: option.splits)

lemma links_linked:
  assumes l: "each_res f xs s = Inr t" and kd: "map_option iq_kind (inquiries s i) = Some ik" and ok: "sound s"
    and f: "\<And>x u v. f x u = Inr v \<Longrightarrow> map_option iq_kind (inquiries u i) = Some ik \<Longrightarrow> sound u
        \<Longrightarrow> grown i u v \<and> keys_grow u v \<and> linked (e x) (p x) v"
  shows "grown i s t \<and> keys_grow s t \<and> (\<forall>x \<in> set xs. linked (e x) (p x) t)"
  using l kd ok
proof (induction xs arbitrary: s)
  case Nil
  then show ?case by (simp add: grown_refl)
next
  case (Cons x xs)
  then obtain u where u: "f x s = Inr u" "each_res f xs u = Inr t" by (auto simp: bind_res_Inr_iff)
  have a: "grown i s u" "keys_grow s u" "linked (e x) (p x) u" using f [OF u(1) Cons.prems(2,3)] by blast+
  have b: "grown i u t \<and> keys_grow u t \<and> (\<forall>x \<in> set xs. linked (e x) (p x) t)"
    by (rule Cons.IH [OF u(2)]) (use a(1) grown_kind [OF a(1)] Cons.prems(2) in \<open>simp_all add: grown_def follows_def\<close>)
  have "linked (e x) (p x) t" using linked_stays [OF a(3)] b grown_kind by blast
  with a b show ?case using grown_trans keys_grow_trans by auto
qed

text \<open>The kind a body says the peer of a link has.\<close>

definition links_made :: "submit_body \<Rightarrow> uuid \<Rightarrow> store \<Rightarrow> bool" where
  "links_made body i s \<longleftrightarrow> set (submit_links body i) \<subseteq> edge_key ` set (edges s)
     \<and> (\<forall>c \<in> set (submit_citations body). map_option iq_kind (inquiries s (artifact_id c)) = Some (artifact_kind c))"

lemma post_insert_links:
  assumes p: "post_insert body i cause key who s = Inr t" and kd: "map_option iq_kind (inquiries s i) = Some (submit_kind body)"
    and ok: "sound s"
  shows "keys_grow s t" "links_made body i t"
proof -
  have two: "keys_grow s t \<and> (\<forall>x \<in> set xs. linked (e x) (p x) t) \<and> (\<forall>y \<in> set ys. linked (d y) (q y) t)"
    if fg: "bind_res (each_res f xs s) (\<lambda>u. each_res g ys u) = Inr t"
    and f: "\<And>x u v. f x u = Inr v \<Longrightarrow> map_option iq_kind (inquiries u i) = Some (submit_kind body) \<Longrightarrow> sound u
        \<Longrightarrow> grown i u v \<and> keys_grow u v \<and> linked (e x) (p x) v"
    and g: "\<And>x u v. g x u = Inr v \<Longrightarrow> map_option iq_kind (inquiries u i) = Some (submit_kind body) \<Longrightarrow> sound u
        \<Longrightarrow> grown i u v \<and> keys_grow u v \<and> linked (d x) (q x) v"
    for f :: "'a \<Rightarrow> store \<Rightarrow> store res" and xs e p and g :: "'b \<Rightarrow> store \<Rightarrow> store res" and ys d q
  proof -
    obtain u where u: "each_res f xs s = Inr u" "each_res g ys u = Inr t" using fg by (auto simp: bind_res_Inr_iff)
    have a: "grown i s u \<and> keys_grow s u \<and> (\<forall>x \<in> set xs. linked (e x) (p x) u)" by (rule links_linked [OF u(1) kd ok f])
    then have gu: "grown i s u" by blast
    have b: "grown i u t \<and> keys_grow u t \<and> (\<forall>y \<in> set ys. linked (d y) (q y) t)"
      by (rule links_linked [OF u(2) _ _ g]) (use gu grown_kind [OF gu] kd in \<open>simp_all add: grown_def follows_def\<close>)
    have "linked (e x) (p x) t" if "x \<in> set xs" for x
      using linked_stays [of "e x" "p x" u t] a b that grown_kind [of i u t] by blast
    with a b show ?thesis using keys_grow_trans by blast
  qed
  have one: "grown i u v \<and> keys_grow u v
      \<and> linked (if as_from then (fst x, i, ek) else (i, fst x, ek)) (map_option (Pair (fst x)) kind) v"
    if "link i ik ek key who cause kind as_from x u = Inr v" "map_option iq_kind (inquiries u i) = Some ik" "sound u"
    for ik ek kind as_from x u v
    using link_grown [OF that] link_linked [OF that] by blast
  have "keys_grow s t \<and> links_made body i t"
  proof (cases body)
    case (SubmitIssue iks val prio ns rs)
    have k: "submit_kind body = Issue" by (simp add: SubmitIssue)
    have "keys_grow s t \<and> (\<forall>n \<in> set ns. linked (i, fst n, Narrows) None t) \<and> (\<forall>r \<in> set rs. linked (i, r, Requires) None t)"
    proof (rule two)
      show "bind_res (each_res (\<lambda>n. link i Issue Narrows key who cause None False (fst n, snd n, None)) ns s)
          (\<lambda>u. each_res (\<lambda>r. link i Issue Requires key who cause None False (r, None, None)) rs u) = Inr t"
        using p by (simp add: post_insert_def SubmitIssue)
      show "grown i u v \<and> keys_grow u v \<and> linked (i, fst x, Narrows) None v"
        if "link i Issue Narrows key who cause None False (fst x, snd x, None) u = Inr v"
          "map_option iq_kind (inquiries u i) = Some (submit_kind body)" "sound u" for x u v
        using one [OF that(1)] that(2,3) k by simp
      show "grown i u v \<and> keys_grow u v \<and> linked (i, x, Requires) None v"
        if "link i Issue Requires key who cause None False (x, None, None) u = Inr v"
          "map_option iq_kind (inquiries u i) = Some (submit_kind body)" "sound u" for x u v
        using one [OF that(1)] that(2,3) k by simp
    qed
    then show ?thesis by (auto simp: links_made_def submit_links_def submit_citations_def SubmitIssue linked_def)
  next
    case (SubmitBelief j c ps fs)
    have k: "submit_kind body = Belief" by (simp add: SubmitBelief)
    have cited: "grown i u v \<and> keys_grow u v \<and> linked (artifact_id x, i, ek) (Some (artifact_id x, artifact_kind x)) v"
      if "cite i ek key who cause x u = Inr v"
        "map_option iq_kind (inquiries u i) = Some (submit_kind body)" "sound u" for ek x u v
      using one [OF that(1) [unfolded cite_def]] that(2,3) k by simp
    have "keys_grow s t \<and> (\<forall>c \<in> set ps. linked (artifact_id c, i, Proves) (Some (artifact_id c, artifact_kind c)) t)
        \<and> (\<forall>c \<in> set fs. linked (artifact_id c, i, Favors) (Some (artifact_id c, artifact_kind c)) t)"
      by (rule two [OF _ cited cited]) (use p in \<open>simp add: post_insert_def SubmitBelief\<close>)
    then show ?thesis by (auto simp: links_made_def submit_links_def submit_citations_def SubmitBelief linked_def)
  qed (use p in \<open>simp_all add: post_insert_def links_made_def submit_links_def submit_citations_def\<close>)
  then show "keys_grow s t" "links_made body i t" by blast+
qed

lemma links_made_same:
  assumes "links_made body i s" "edges t = edges s" "\<And>j. map_option iq_kind (inquiries t j) = map_option iq_kind (inquiries s j)"
  shows "links_made body i t"
  using assms by (simp add: links_made_def)

lemma keys_grow_state [simp]:
  "keys_grow (s\<lparr>buffer := x\<rparr>) t = keys_grow s t"
  "keys_grow (set_client_change_id k s) t = keys_grow s t" "keys_grow s (set_client_change_id k t) = keys_grow s t"
  by (simp_all add: keys_grow_def set_client_change_id_def)

lemma links_made_state [simp]:
  "links_made body i (s\<lparr>published := y, buffer := x\<rparr>) = links_made body i s"
  "links_made body i (set_client_change_id k s) = links_made body i s"
  by (simp_all add: links_made_def set_client_change_id_def)

lemma submit_on_conn_links:
  assumes f: "submit_on_conn grant b body key who aud seen s = Inr (t, i)" and ok: "sound s"
    and free: "\<And>k. effective_key b s = Some k \<Longrightarrow> find_change k seen = None"
  shows "keys_grow s t" "links_made body i t"
proof -
  have "keys_grow s t \<and> links_made body i t"
    using f
  proof (cases rule: submit_on_conn_cases)
    case (replayed k c)
    with free show ?thesis by simp
  next
    case (created account s1 s2 u)
    have ok1: "sound s1" "never_used i s1" using ok mint_never_used [of s] sound_def [of s] by (simp_all add: created(3,6))
    have s2: "sound s2" "map_option iq_kind (inquiries s2 i) = Some (submit_kind body)"
      using insert_row_follows [OF created(7) ok1] by (simp_all add: follows_def)
    have "edges s2 = edges s1" by (rule insert_row_row [OF created(7)])
    then have k2: "keys_grow s s2" by (simp add: keys_grow_same created(3) set_client_change_id_def)
    from created(8) obtain e cause subs v where
      e: "emit_change ((emit_args i (submit_kind body) Created)\<lparr>em_api_key_id := key, em_actor := who,
           em_reason := backfill_reason b, em_marginal_cost := sb_marginal_cost b\<rparr>) True s2 = Inr (e, cause, subs)"
      and v: "post_insert body i cause key who e = Inr v"
      and u: "u = (case sb_modified b of None \<Rightarrow> v | Some m \<Rightarrow> restamp_modified [(i, m)] v)"
      by (rule log_rowE)
    have em: "emitted s2 e" by (rule emit_change_emitted(1) [OF e])
    have adv: "advances s2 e" by (rule emitted_advances [OF em])
    have "no_field_edit s2 e" by (rule unedited.emit_change [OF e]) (simp add: emit_args_def)
    then have oke: "sound e" using follows_advances [OF adv _ s2(1)] by (simp add: follows_def)
    have ke: "map_option iq_kind (inquiries e i) = Some (submit_kind body)" using advancesD(4) [OF adv] s2(2) by simp
    note pl = post_insert_links [OF v ke oke]
    have r: "edges u = edges v" "map_option iq_kind (inquiries u j) = map_option iq_kind (inquiries v j)" for j
      using restampedD(2,11) [OF restamp_restamped] by (auto simp: u split: option.split)
    have "keys_grow s u" using k2 keys_grow_emitted [OF em] pl(1) keys_grow_same [OF r(1)] keys_grow_trans by blast
    moreover have "links_made body i u" by (rule links_made_same [OF pl(2) r])
    ultimately show ?thesis by (simp add: created(9))
  qed
  then show "keys_grow s t" "links_made body i t" by blast+
qed

section \<open>A submit under a key not used yet\<close>

lemma submit_made_state [simp]:
  "submit_made b body account key who aud i (s\<lparr>buffer := x\<rparr>) t = submit_made b body account key who aud i s t"
  "submit_made b body account key who aud i s (t\<lparr>published := y, buffer := x\<rparr>) = submit_made b body account key who aud i s t"
  by (simp_all add: submit_made_def)

lemma submit_fresh:
  assumes s: "submit grant b body key who aud seen s = (t, Inr i)" and ok: "sound s"
    and seen: "prefix (change_log seen) (change_log s)"
    and free: "\<And>k. effective_key b s = Some k \<Longrightarrow> k \<notin> change_ids s"
  shows "\<exists>account. sb_account b = Some account \<and> submit_made b body account key who (case aud of None \<Rightarrow> [] | Some a \<Rightarrow> a) i s t
    \<and> keys_grow s t \<and> links_made body i t"
  using s
proof (cases rule: submit_cases)
  case (made a u j)
  have f: "find_change k seen = None" if "effective_key b (s\<lparr>buffer := []\<rparr>) = Some k" for k
    using free [of k] that find_change_mono [OF seen, of k] find_change_ids [of k s] by (cases "find_change k seen") auto
  obtain account where m: "sb_account b = Some account" "submit_made b body account key who a j (s\<lparr>buffer := []\<rparr>) u"
    using submit_on_conn_made [OF made(1) _ f] ok by auto
  have "keys_grow (s\<lparr>buffer := []\<rparr>) u" "links_made body j u"
    using submit_on_conn_links [OF made(1) _ f] ok by simp_all
  moreover have "keys_grow s t = keys_grow s u" by (simp add: made(3) keys_grow_def)
  ultimately show ?thesis using m made(2,3,5) by auto
next
  case (recovered x k j)
  then have "k \<in> change_ids s" by (auto simp: created_by_def dest: find_change_ids)
  with free recovered(3) show ?thesis by blast
qed simp_all

end
