(* ===== verification/Submit_Batches.thy ===== *)
theory Submit_Batches
  imports Submit_Links
begin

text \<open>
  A batch, row by row: every item's row is made or found by the time the edges are written, the
  rows come in the order of the items, and a batch sent again finds every row it made.
\<close>

section \<open>A key used before\<close>

lemma submit_on_conn_replay:
  assumes "effective_key b s = Some k" "created_by k i (submit_kind body) seen"
  shows "submit_on_conn grant b body key who aud seen s = Inr (set_client_change_id None s, i)"
  using assms by (simp add: submit_on_conn_def lookup_existing_created [symmetric])

lemma submit_replay:
  assumes "effective_key b s = Some k" "created_by k i (submit_kind body) seen" "\<not> audience_missing body aud"
  shows "submit grant b body key who aud seen s = (s\<lparr>client_change_id := None, buffer := []\<rparr>, Inr i)"
proof -
  have "submit_on_conn grant b body key who a seen (s\<lparr>buffer := []\<rparr>) = Inr (set_client_change_id None (s\<lparr>buffer := []\<rparr>), i)" for a
    by (rule submit_on_conn_replay) (use assms in simp_all)
  with assms(3) show ?thesis by (simp add: submit_def submit_generic_def submit_tx_def set_client_change_id_def)
qed

section \<open>What the rows of a batch are\<close>

definition batch_row :: "submit_base \<times> submit_body \<Rightarrow> uuid \<Rightarrow> store \<Rightarrow> bool" where
  "batch_row x i s \<longleftrightarrow>
     (\<forall>k. sb_idempotency_key (fst x) = Some k \<longrightarrow> created_by k i (submit_kind (snd x)) s)"

lemma batch_row_mono: "batch_row x i s \<Longrightarrow> prefix (change_log s) (change_log t) \<Longrightarrow> batch_row x i t"
  using created_by_mono unfolding batch_row_def by blast

lemma effective_body_key: "sb_idempotency_key b = Some k \<Longrightarrow> effective_key b s = Some k"
  by (simp add: effective_key_def)

lemma submit_on_conn_ids:
  assumes f: "submit_on_conn grant b body key who aud s s = Inr (t, i)" and ok: "sound s"
  shows "iq_ids t = iq_ids s \<and> i \<in> subjects s \<or> iq_ids t = iq_ids s @ [i]"
proof (cases "\<exists>k c. effective_key b s = Some k \<and> find_change k s = Some c")
  case True
  then obtain k c where k: "effective_key b s = Some k" "find_change k s = Some c" by blast
  from k(2) have "c \<in> set (change_log s)" by (auto simp: find_change_def dest: find_Some_iff_mem)
  moreover have "t = set_client_change_id None s" "i = subject_id c"
    using f k by (cases rule: submit_on_conn_cases; simp)+
  ultimately show ?thesis by (simp add: set_client_change_id_def subjects_def)
next
  case False
  with submit_on_conn_made [OF f ok] show ?thesis by (fastforce simp: submit_made_def)
qed

lemma follows_log: "follows s t \<Longrightarrow> prefix (change_log s) (change_log t)"
  by (auto simp: follows_def recorded_def)

text \<open>The rows an item list makes come last in the table, in the order of the items; an item whose row
  was there already adds none.\<close>

lemma submit_rows_made:
  assumes "submit_rows grant key who aud rows s = Inr (t, ids)" "sound s"
  shows "list_all2 (\<lambda>x i. batch_row x i t) rows ids
    \<and> (\<exists>fresh. iq_ids t = iq_ids s @ fresh \<and> subseq fresh ids)"
  using assms
proof (induction grant key who aud rows s arbitrary: t ids rule: submit_rows.induct)
  case (1 grant key who aud s)
  then show ?case by auto
next
  case (2 grant key who aud b body rows s)
  then have au: "\<not> audience_missing body aud" by (auto simp: failing_def)
  with 2 obtain u i us where u: "submit_on_conn grant b body key (item_actor b who) (case aud of None \<Rightarrow> [] | Some a \<Rightarrow> a) s s = Inr (u, i)"
    "submit_rows grant key who aud rows u = Inr (t, us)" "ids = i # us"
    by (auto simp: bind_res_Inr_iff)
  have su: "follows s u" by (rule submit_on_conn_follows [OF u(1) "2.prems"(2)])
  then have oku: "sound u" by (simp add: follows_def)
  have ut: "follows u t" using submit_rows_follows [OF u(2) oku] by blast
  have rest: "list_all2 (\<lambda>x i. batch_row x i t) rows us \<and> (\<exists>fresh. iq_ids t = iq_ids u @ fresh \<and> subseq fresh us)"
    by (rule "2.IH" [OF au, of "(u, i)"]) (use u oku in simp_all)
  have "batch_row (b, body) i u"
    using submit_on_conn_key [OF u(1) "2.prems"(2) effective_body_key] by (simp add: batch_row_def)
  then have "batch_row (b, body) i t" by (rule batch_row_mono) (rule follows_log [OF ut])
  moreover have "\<exists>fresh. iq_ids t = iq_ids s @ fresh \<and> subseq fresh (i # us)"
    using rest submit_on_conn_ids [OF u(1) "2.prems"(2)] by (auto intro: exI [of _ "i # xs" for xs])
  ultimately show ?case using rest u(3) by simp
qed

section \<open>Edges of a batch\<close>

definition batch_key :: "uuid list \<Rightarrow> batch_edge \<Rightarrow> (uuid \<times> uuid \<times> edge_kind) option" where
  "batch_key ids e =
     (case (batch_id ids (be_from e), batch_id ids (be_to e)) of
        (Inr f, Inr t) \<Rightarrow> Some (f, t, be_kind e)
      | _ \<Rightarrow> None)"

lemma add_batch_edge_keys:
  assumes "add_batch_edge ids key who e s = Inr t"
  shows "keys_grow s t \<and> (\<exists>x. batch_key ids e = Some x \<and> x \<in> edge_key ` set (edges t))"
proof -
  obtain f g cid new where a: "batch_id ids (be_from e) = Inr f" "batch_id ids (be_to e) = Inr g"
    "add_edge_on_conn f g (be_kind e) (be_priority e) (be_note e) (be_valence e) (be_labels e) [] None True
         key who s = Inr (t, cid, new)"
    using assms by (auto simp: add_batch_edge_def bind_res_Inr_iff)
  with keys_grow_edges(1) [OF a(3)] show ?thesis by (simp add: batch_key_def)
qed

lemma batch_edges_keys:
  assumes "each_res (add_batch_edge ids key who) es s = Inr t"
  shows "keys_grow s t \<and> (\<forall>e \<in> set es. \<exists>x. batch_key ids e = Some x \<and> x \<in> edge_key ` set (edges t))"
  using assms
proof (induction es arbitrary: s)
  case (Cons e es)
  then obtain u where u: "add_batch_edge ids key who e s = Inr u" "each_res (add_batch_edge ids key who) es u = Inr t"
    by (auto simp: bind_res_Inr_iff)
  from Cons.IH [OF u(2)] add_batch_edge_keys [OF u(1)] show ?case
    using keys_growD keys_grow_trans by (metis set_ConsD)
qed simp

lemma add_batch_edge_ids:
  assumes "add_batch_edge ids key who e s = Inr t" "sound s"
  shows "iq_ids t = iq_ids s"
proof -
  obtain f g cid new where a: "add_edge_on_conn f g (be_kind e) (be_priority e) (be_note e) (be_valence e) (be_labels e) [] None True
         key who s = Inr (t, cid, new)"
    using assms(1) by (auto simp: add_batch_edge_def bind_res_Inr_iff)
  show ?thesis using add_edge_infer_advances(1) [OF a] assms(2) by (simp add: advances_def sound_def)
qed

section \<open>The whole batch\<close>

text \<open>What a batch that ends well has made.\<close>

definition batch_made ::
  "(submit_base \<times> submit_body) list \<Rightarrow> batch_edge list \<Rightarrow> uuid list \<Rightarrow> store \<Rightarrow> store \<Rightarrow> bool" where
  "batch_made rows es ids s t \<longleftrightarrow>
     list_all2 (\<lambda>x i. batch_row x i t) rows ids
   \<and> (\<exists>fresh. iq_ids t = iq_ids s @ fresh \<and> subseq fresh ids)
   \<and> (\<forall>e \<in> set es. \<exists>x. batch_key ids e = Some x \<and> x \<in> edge_key ` set (edges t))"

lemma submit_batch_on_conn_made:
  assumes f: "submit_batch_on_conn grant rows es key who aud s = Inr (t, ids)" and ok: "sound s"
  shows "batch_made rows es ids s t"
  using f
proof (cases rule: submit_batch_on_conn_cases)
  case (1 u v)
  have u: "follows s u" using submit_rows_follows [OF 1(1) ok] by blast
  have uv: "follows u v \<and> iq_ids v = iq_ids u"
  proof (rule each_res_keeps [where I = "\<lambda>x. follows u x \<and> iq_ids x = iq_ids u", OF 1(2)])
    show "follows u u \<and> iq_ids u = iq_ids u" using u by (simp add: follows_def follows_refl [unfolded follows_def])
    fix e x y assume a: "add_batch_edge ids key who e x = Inr y" "follows u x \<and> iq_ids x = iq_ids u"
    then have "sound x" by (simp add: follows_def)
    with a show "follows u y \<and> iq_ids y = iq_ids u"
      using add_batch_edge_follows [OF a(1)] add_batch_edge_ids [OF a(1)] follows_trans by auto
  qed
  note made = submit_rows_made [OF 1(1) ok]
  note r = restampedD [OF restamp_restamped [of v "batch_stamps rows ids (replayed_keys rows s)"]]
  have "batch_row x i t" if "batch_row x i u" for x i
    using batch_row_mono [OF that] follows_log uv r(1) by (simp add: 1(3))
  then have "list_all2 (\<lambda>x i. batch_row x i t) rows ids" using made by (auto elim: list_all2_mono)
  moreover have "iq_ids t = iq_ids u" "edges t = edges v" using uv r(2,3) by (simp_all add: 1(3))
  ultimately show ?thesis using made batch_edges_keys [OF 1(2)] unfolding batch_made_def by simp
qed

text \<open>A batch of which every item was made before.\<close>

definition batch_replayed :: "(submit_base \<times> submit_body) list \<Rightarrow> uuid list \<Rightarrow> store \<Rightarrow> bool" where
  "batch_replayed rows ids s \<longleftrightarrow>
     list_all2 (\<lambda>x i. \<exists>k. sb_idempotency_key (fst x) = Some k \<and> created_by k i (submit_kind (snd x)) s) rows ids"

lemma batch_replayed_slot [simp]:
  "batch_replayed rows ids (s\<lparr>buffer := x\<rparr>) = batch_replayed rows ids s"
  "batch_replayed rows ids (set_client_change_id k s) = batch_replayed rows ids s"
  by (simp_all add: batch_replayed_def)

lemma slot_twice [simp]: "set_client_change_id k (set_client_change_id l s) = set_client_change_id k s"
  by (simp add: set_client_change_id_def)

lemma submit_rows_replay:
  assumes "batch_replayed rows ids s" "rows \<noteq> []" "list_all (\<lambda>x. \<not> audience_missing (snd x) aud) rows"
  shows "submit_rows grant key who aud rows s = Inr (set_client_change_id None s, ids)"
  using assms
proof (induction grant key who aud rows s arbitrary: ids rule: submit_rows.induct)
  case (2 grant key who aud b body rows s)
  from "2.prems"(1) obtain i us k where i: "ids = i # us" "sb_idempotency_key b = Some k" "created_by k i (submit_kind body) s"
    "batch_replayed rows us s"
    by (auto simp: batch_replayed_def list_all2_Cons1)
  have au: "\<not> audience_missing body aud" using "2.prems"(3) by simp
  have o: "submit_on_conn grant b body key (item_actor b who) (case aud of None \<Rightarrow> [] | Some a \<Rightarrow> a) s s
      = Inr (set_client_change_id None s, i)"
    by (rule submit_on_conn_replay [OF effective_body_key [OF i(2)] i(3)])
  show ?case
  proof (cases "rows = []")
    case True
    with i(1,4) have "ids = [i]" by (simp add: batch_replayed_def)
    with True au show ?thesis by (simp add: o)
  next
    case False
    have "submit_rows grant key who aud rows (set_client_change_id None s) = Inr (set_client_change_id None (set_client_change_id None s), us)"
      by (rule "2.IH" [OF au, of "(set_client_change_id None s, i)"]) (use False i(4) "2.prems"(3) in \<open>simp_all add: o\<close>)
    with au i(1) show ?thesis by (simp add: o)
  qed
qed simp

lemma replayed_keysI:
  assumes "x \<in> set rows" "sb_modified (fst x) \<noteq> None" "sb_idempotency_key (fst x) = Some k" "k \<in> change_ids s"
  shows "k \<in> replayed_keys rows s"
  unfolding replayed_keys_def List.map_filter_def set_map set_filter
  using assms by (intro IntI image_eqI [of _ _ x] CollectI conjI) (simp_all add: split_beta)

lemma batch_stamps_replayed:
  assumes "batch_replayed rows ids s"
  shows "batch_stamps rows ids (replayed_keys rows s) = []"
proof -
  have "sb_idempotency_key (fst x) \<in> Some ` replayed_keys rows s"
    if "(x, i) \<in> set (zip rows ids)" "sb_modified (fst x) \<noteq> None" for x i
  proof -
    have "x \<in> set rows" using that(1) by (rule set_zip_leftD)
    moreover have "\<exists>k. sb_idempotency_key (fst x) = Some k \<and> created_by k i (submit_kind (snd x)) s"
      using bspec [OF conjunct2 [OF assms [unfolded batch_replayed_def list_all2_iff]] that(1)] by simp
    ultimately show ?thesis using replayed_keysI [of x rows] that(2)
      by (auto simp: created_by_def dest: find_change_ids)
  qed
  then show ?thesis by (force simp: batch_stamps_def List.map_filter_def filter_empty_conv split: option.splits)
qed

lemma submit_batch_replay:
  assumes "batch_replayed rows ids s" "rows \<noteq> []" "list_all (\<lambda>x. \<not> audience_missing (snd x) aud) rows"
  shows "submit_batch grant rows [] key who aud s = (s\<lparr>client_change_id := None, buffer := []\<rparr>, Inr ids)"
proof -
  have "submit_rows grant key who aud rows (s\<lparr>buffer := []\<rparr>) = Inr (set_client_change_id None (s\<lparr>buffer := []\<rparr>), ids)"
    by (rule submit_rows_replay) (use assms in simp_all)
  moreover have "batch_stamps rows ids (replayed_keys rows (s\<lparr>buffer := []\<rparr>)) = []"
    by (rule batch_stamps_replayed) (use assms(1) in simp)
  ultimately show ?thesis
    by (simp add: submit_batch_def submit_tx_def submit_batch_on_conn_def restamp_modified_def set_client_change_id_def)
qed

lemma submit_batch_made:
  assumes "submit_batch grant rows es key who aud s = (t, Inr ids)" "sound s"
  shows "batch_made rows es ids s t"
proof (cases "submit_batch_on_conn grant rows es key who aud (s\<lparr>buffer := []\<rparr>)")
  case (Inl x)
  with assms(1) show ?thesis by (simp add: submit_batch_def submit_tx_def)
next
  case (Inr y)
  obtain u js where y: "y = (u, js)" by force
  with Inr assms(1) have t: "js = ids" "t = u\<lparr>published := published u @ buffer u, buffer := []\<rparr>"
    by (simp_all add: submit_batch_def submit_tx_def)
  have "batch_made rows es ids (s\<lparr>buffer := []\<rparr>) u"
    using submit_batch_on_conn_made [OF Inr [unfolded y]] assms(2) by (simp add: t(1))
  then show ?thesis by (simp add: t batch_made_def batch_row_def)
qed

lemma batch_made_replayed:
  assumes "batch_made rows es ids s t" "list_all (\<lambda>x. sb_idempotency_key (fst x) \<noteq> None) rows"
    and "prefix (change_log t) (change_log u)"
  shows "batch_replayed rows ids u"
proof -
  have "list_all2 (\<lambda>x i. batch_row x i t) rows ids" using assms(1) by (simp add: batch_made_def)
  then show ?thesis
    unfolding batch_replayed_def
  proof (rule list.rel_mono_strong)
    fix x i assume x: "x \<in> set rows" "batch_row x i t"
    obtain k where k: "sb_idempotency_key (fst x) = Some k" using assms(2) x(1) unfolding list_all_iff by blast
    with batch_row_mono [OF x(2) assms(3)]
    show "\<exists>k. sb_idempotency_key (fst x) = Some k \<and> created_by k i (submit_kind (snd x)) u" by (simp add: batch_row_def)
  qed
qed

end
