(* ===== verification/Submit_Claims.thy ===== *)
theory Submit_Claims
  imports Submit_Accepts Submit_Batches Edit_Claims
begin

text \<open>
  The properties of the submit path and of the store as a whole, its submits and batches
  included. The witnesses run on the empty tables, under a policy that grants every row.
\<close>

section \<open>A submit to run\<close>

definition open_grant :: "uuid \<Rightarrow> string \<Rightarrow> store \<Rightarrow> unit res" where
  "open_grant i account s = Inr ()"

definition demo_base :: submit_base where
  "demo_base = \<lparr>sb_title = ''a title'', sb_description = None, sb_created = None, sb_status = None, sb_app = None,
     sb_owner = None, sb_account = Some ''me'', sb_actor = None, sb_reason = [], sb_idempotency_key = Some 77,
     sb_labels = None, sb_subscribers = None, sb_modified = None, sb_marginal_cost = Cost 2 0\<rparr>"

definition demo_issue :: submit_body where
  "demo_issue = SubmitIssue None None (Some 3) [] []"

lemma demo_parsed: "parse_submit 9 (demo_base, demo_issue) = Inr (demo_base, demo_issue)"
  by code_simp

lemma demo_key [simp]: "effective_key demo_base s = Some 77" "submit_kind demo_issue = Issue" "audience_missing demo_issue aud = False"
  by (simp_all add: effective_key_def demo_base_def demo_issue_def audience_missing_def)

lemma demo_submit_admissible: "77 \<notin> change_ids s \<Longrightarrow> admissible 9 demo_base demo_issue None s"
  using demo_parsed
  by (auto simp: admissible_def linkless_def demo_issue_def demo_base_def within_columns_def unless_none_def name_free_def
      effective_key_def nonneg_def)

lemma demo_submitted_ok:
  assumes "sound s" "77 \<notin> change_ids s"
  obtains t i where "submit open_grant demo_base demo_issue None ''me'' None s s = (t, Inr i)"
  using submit_accepts [OF demo_submit_admissible [OF assms(2)] assms(1), of s open_grant] that by (auto simp: open_grant_def)

lemma no_rows_sound: "sound no_rows" "77 \<notin> change_ids no_rows" "change_log no_rows = []"
  using no_rows_fresh empty_sound by (simp_all add: fresh_store_def no_rows_def change_ids_def)

section \<open>The store as a whole\<close>

text \<open>Every store reached from empty tables by submits, batches, edge operations, field edits, cost edits,
  purges and claims is sound: edges well formed and acyclic per kind, costs equal to the log's sums, a
  consistent log, and every inquiry row within the constraints of its table, alone and against the other
  rows; and from any such store on, the change log only grows.\<close>

theorem trax_reachable_sound:
  assumes "fresh_store s" "rtranclp trax_step s t" "rtranclp trax_step t u"
  shows "store_ok u \<and> rows_ok u \<and> prefix (change_log t) (change_log u)"
  using trax.reachable_inv [OF assms(1,2)] trax.run_keeps [OF assms(3)] trax.trail_grows [OF assms(3)]
  by (simp add: sound_def)

theorem trax_reachable_sound_witness:
  "\<exists>t i. submit open_grant demo_base demo_issue None ''me'' None no_rows no_rows = (t, Inr i) \<and> store_ok t \<and> rows_ok t
    \<and> prefix (change_log no_rows) (change_log t)"
proof -
  obtain t i where t: "submit open_grant demo_base demo_issue None ''me'' None no_rows no_rows = (t, Inr i)"
    by (rule demo_submitted_ok [OF no_rows_sound(1,2)])
  then have "trax_step no_rows t" using trax_step.submitted [of no_rows open_grant demo_base demo_issue None "''me''" None no_rows] by simp
  with t trax_reachable_sound [OF no_rows_fresh, of no_rows t] show ?thesis by blast
qed

text \<open>C2: the change log is the record of every column: for a row that lives from one reachable store to
  a later one, replaying the field edits the log gained in between, each of which must find the value it
  says it replaced, turns the columns the row had into exactly the columns it has.\<close>

theorem trax_log_replays_columns:
  assumes "fresh_store s" "rtranclp trax_step s t" "rtranclp trax_step t u"
    and "inquiries t i = Some r" "inquiries u i = Some q"
  shows "replay_edits i (drop (length (change_log t)) (change_log u)) (iq_columns r) = Some (iq_columns q)"
proof -
  have "recorded t u" using trax_run_recorded [OF assms(3)] trax.reachable_inv [OF assms(1,2)] by simp
  with assms(4,5) show ?thesis by (auto simp: recorded_def)
qed

theorem trax_log_replays_columns_witness:
  "\<exists>t u r q. trax_step no_rows t \<and> trax_step t u \<and> inquiries t 4 = Some r \<and> inquiries u 4 = Some q
    \<and> iq_columns q Description = Some (VStr ''text'')
    \<and> replay_edits 4 (drop (length (change_log t)) (change_log u)) (iq_columns r) = Some (iq_columns q)"
proof -
  obtain t r where t: "store_step no_rows t" "sound t" "client_change_id t = None" "inquiries t 4 = Some r"
    "iq_columns r = demo_columns" "iq_kind r = Issue" by (rule demo_submitted)
  obtain u q where u: "store_step t u" "inquiries u 4 = Some q" "iq_columns q = demo_columns(Description \<mapsto> VStr ''text'')"
    by (rule demo_described [OF t(2-6)])
  have st: "trax_step no_rows t" "trax_step t u" using t(1) u(1) by (auto intro: trax_step.stored)
  then have "rtranclp trax_step no_rows t" "rtranclp trax_step t u" by auto
  from trax_log_replays_columns [OF no_rows_fresh this t(4) u(2)]
  have "replay_edits 4 (drop (length (change_log t)) (change_log u)) (iq_columns r) = Some (iq_columns q)" .
  moreover have "iq_columns q Description = Some (VStr ''text'')" by (simp add: u(3))
  ultimately show ?thesis using t(4) u(2) st by blast
qed



section \<open>One submit\<close>

text \<open>C4: a submit under a key that names nothing yet either fails, and leaves every table as it was, or
  makes one row: a new id, the next number of its kind, the columns of the body as the table stores them,
  every other row as it was, one \<open>created\<close> change under the key with the actor and the credential of the
  request, and after it the edges: every link of the body is there, and every citation names an inquiry of
  the kind it says.\<close>

theorem submit_effect:
  assumes "sound s" "prefix (change_log seen) (change_log s)" "unless_none (\<lambda>k. k \<notin> change_ids s) (effective_key b s)"
    and "submit grant b body key who aud seen s = (t, r)"
  shows "case r of
      Inl e \<Rightarrow> t = s\<lparr>client_change_id := client_change_id t\<rparr>
    | Inr i \<Rightarrow> \<exists>account. sb_account b = Some account
        \<and> submit_made b body account key who (case aud of None \<Rightarrow> [] | Some a \<Rightarrow> a) i s t
        \<and> keys_grow s t \<and> links_made body i t"
proof (cases r)
  case (Inl e)
  from assms(4) show ?thesis
    by (cases rule: submit_cases) (simp_all add: Inl set_client_change_id_def)
next
  case (Inr i)
  with submit_fresh [OF assms(4) [unfolded Inr] assms(1,2)] assms(3) show ?thesis
    by (cases "effective_key b s") (simp_all add: unless_none_def)
qed

theorem submit_effect_witness:
  "\<exists>t i. submit open_grant demo_base demo_issue None ''me'' None no_rows no_rows = (t, Inr i)
    \<and> submit_made demo_base demo_issue ''me'' None ''me'' [] i no_rows t"
proof -
  obtain t i where t: "submit open_grant demo_base demo_issue None ''me'' None no_rows no_rows = (t, Inr i)"
    by (rule demo_submitted_ok [OF no_rows_sound(1,2)])
  from submit_effect [OF no_rows_sound(1) _ _ t] no_rows_sound(2)
  have "\<exists>account. sb_account demo_base = Some account \<and> submit_made demo_base demo_issue account None ''me'' [] i no_rows t"
    by (auto simp: unless_none_def)
  with t show ?thesis by (auto simp: demo_base_def)
qed



text \<open>C5: a retry is a lookup. After a submit under a key, whatever the store does in between, another submit
  under that key gives the same id and changes no table when it is of the same kind, and is refused when it
  is of another: even when the row was edited, or purged.\<close>

theorem keyed_retry:
  assumes "sound s" "prefix (change_log seen) (change_log s)" "submit grant b body key who aud seen s = (t, Inr i)"
    and "effective_key b s = Some k" "rtranclp trax_step t u" "prefix (change_log t) (change_log seen')"
    and "effective_key b' u = Some k" "\<not> audience_missing body' aud'"
  shows "if submit_kind body' = submit_kind body
    then submit grant' b' body' key' who' aud' seen' u = (u\<lparr>client_change_id := None, buffer := []\<rparr>, Inr i)
    else submit grant' b' body' key' who' aud' seen' u = (u, Inl ConflictError)"
proof -
  have "created_by k i (submit_kind body) t" by (rule submit_key [OF assms(3,1,4,2)])
  then have c: "created_by k i (submit_kind body) seen'" by (rule created_by_mono [OF assms(6)])
  have "submit grant' b' body' key' who' aud' seen' u = (u, Inl ConflictError)" if "submit_kind body' \<noteq> submit_kind body"
  proof -
    have "lookup_existing_by_change k (submit_kind body') seen' = Inl ConflictError"
      using c that by (auto simp: created_by_def lookup_existing_by_change_def)
    then show ?thesis using assms(7,8)
      by (simp add: submit_def submit_generic_def submit_tx_def submit_on_conn_def failing_def set_client_change_id_def)
  qed
  with submit_replay [OF assms(7) _ assms(8), of i seen'] c show ?thesis by auto
qed

theorem keyed_retry_witness:
  "\<exists>t u i. submit open_grant demo_base demo_issue None ''me'' None no_rows no_rows = (t, Inr i)
    \<and> trax_step t u \<and> snd (submit open_grant demo_base demo_issue None ''you'' None u u) = Inr i"
proof -
  obtain t i where t: "submit open_grant demo_base demo_issue None ''me'' None no_rows no_rows = (t, Inr i)"
    by (rule demo_submitted_ok [OF no_rows_sound(1,2)])
  obtain u where u: "trax_step t u" "u = fst (submit open_grant (demo_base\<lparr>sb_idempotency_key := Some 78\<rparr>) demo_issue None ''me'' None t t)"
    using trax_step.submitted by blast
  have "trax_step no_rows t"
    using trax_step.submitted [of no_rows open_grant demo_base demo_issue None "''me''" None no_rows] t by simp
  then have "sound t" using trax.keep no_rows_sound(1) by blast
  then have p: "prefix (change_log t) (change_log u)" using trax_step_follows [OF u(1)] follows_log by blast
  have r: "rtranclp trax_step t u" using u(1) by blast
  from keyed_retry [OF no_rows_sound(1) _ t _ r p, of 77 demo_base demo_issue None open_grant None "''you''"]
  have "submit open_grant demo_base demo_issue None ''you'' None u u = (u\<lparr>client_change_id := None, buffer := []\<rparr>, Inr i)"
    by simp
  with t u(1) show ?thesis by auto
qed

text \<open>C6: a key that names a change makes no second row, however the requests interleave: whatever part of
  the log the probe of the submit saw, the submit leaves every table as it is, and if it succeeds it
  returns the row that change created.\<close>

theorem keyed_submit_once:
  assumes "sound s" "prefix (change_log seen) (change_log s)" "effective_key b s = Some k" "find_change k s = Some c"
    and "submit grant b body key who aud seen s = (t, r)"
  shows "inquiries t = inquiries s \<and> iq_ids t = iq_ids s \<and> edges t = edges s \<and> change_log t = change_log s
    \<and> (\<forall>i. r = Inr i \<longrightarrow> change_kind c = Created \<and> subject_kind c = submit_kind body \<and> i = subject_id c)"
  using assms(5)
proof (cases rule: submit_cases)
  case (made a u j)
  have k: "effective_key b (s\<lparr>buffer := []\<rparr>) = Some k" using assms(3) by simp
  show ?thesis
  proof (cases "find_change k seen")
    case (Some d)
    then have "d = c" using find_change_mono [OF assms(2) Some] assms(4) by simp
    with made(1) Some k have "u = set_client_change_id None (s\<lparr>buffer := []\<rparr>)" "j = subject_id c" "change_kind c = Created"
      "subject_kind c = submit_kind body" by (cases rule: submit_on_conn_cases; simp)+
    with made(2,3) show ?thesis by (simp add: set_client_change_id_def)
  next
    case None
    obtain account where m: "submit_made b body account key who a j (s\<lparr>buffer := []\<rparr>) u"
      using submit_on_conn_made [OF made(1)] None k assms(1) by auto
    then obtain d ds where d: "change_log u = change_log s @ d # ds" "change_id d = k"
      using assms(3) by (auto simp: submit_made_def)
    have "sound u" using submit_on_conn_follows [OF made(1)] assms(1) by (simp add: follows_def)
    then have "distinct (map change_id (change_log u))" by (simp add: sound_def store_ok_def log_ok_def)
    then have "k \<notin> change_id ` set (change_log s)" using d by auto
    moreover have "k \<in> change_ids s" by (rule find_change_ids [OF assms(4)])
    ultimately show ?thesis by (simp add: change_ids_def)
  qed
next
  case (recovered x k' j)
  with assms(3,4) show ?thesis by (auto simp: created_by_def set_client_change_id_def)
qed (simp_all add: set_client_change_id_def)

theorem keyed_submit_once_witness:
  "\<exists>t i c. submit open_grant demo_base demo_issue None ''me'' None no_rows no_rows = (t, Inr i) \<and> find_change 77 t = Some c
    \<and> iq_ids (fst (submit open_grant demo_base demo_issue None ''you'' None no_rows t)) = iq_ids t"
proof -
  obtain t i where t: "submit open_grant demo_base demo_issue None ''me'' None no_rows no_rows = (t, Inr i)"
    by (rule demo_submitted_ok [OF no_rows_sound(1,2)])
  have "created_by 77 i Issue t" using submit_key [OF t no_rows_sound(1)] by simp
  then obtain c where c: "find_change 77 t = Some c" by (auto simp: created_by_def)
  have "trax_step no_rows t"
    using trax_step.submitted [of no_rows open_grant demo_base demo_issue None "''me''" None no_rows] t by simp
  then have ok: "sound t" using trax.keep no_rows_sound(1) by blast
  obtain x y where x: "submit open_grant demo_base demo_issue None ''you'' None no_rows t = (x, y)" by force
  from keyed_submit_once [OF ok _ _ c x] have "iq_ids x = iq_ids t" by (simp add: no_rows_sound(3))
  with t c x show ?thesis by auto
qed

text \<open>The slot is not cleared on every exit. A submit with a key in its body and no account is refused
  after the key went into the slot and before the block that clears it: the tables are as they were, and the
  key is left for whatever the request does next.\<close>

theorem missing_account_leaks_key:
  assumes "sb_idempotency_key b = Some k" "sb_account b = None" "find_change k seen = None" "\<not> audience_missing body aud"
    and "pre_insert body (s\<lparr>buffer := []\<rparr>) = Inr ()"
  shows "submit grant b body key who aud seen s = (s\<lparr>client_change_id := Some k\<rparr>, Inl ValueError)"
proof -
  have "lookup_existing_by_change k (submit_kind body) seen = Inr None"
    using assms(3) by (simp add: lookup_existing_by_change_def)
  moreover have "effective_key b (s\<lparr>buffer := []\<rparr>) = Some k" "effective_key b s = Some k"
    using assms(1) by (simp_all add: effective_key_def)
  ultimately have "submit_on_conn grant b body key who a seen (s\<lparr>buffer := []\<rparr>) = failing ValueError (Some k)" for a
    using assms(1,2,5) by (simp add: submit_on_conn_def set_client_change_id_def)
  with assms(4) show ?thesis
    by (simp add: submit_def submit_generic_def submit_tx_def failing_def set_client_change_id_def split: option.split)
qed

text \<open>The next submit of the task has no key of its own, and is recorded under the one left behind.\<close>

theorem missing_account_leaks_key_witness:
  "\<exists>t i. submit open_grant (demo_base\<lparr>sb_account := None\<rparr>) demo_issue None ''me'' None no_rows no_rows = (t, Inl ValueError)
    \<and> snd (submit open_grant (demo_base\<lparr>sb_idempotency_key := None\<rparr>) demo_issue None ''me'' None t t) = Inr i
    \<and> created_by 77 i Issue (fst (submit open_grant (demo_base\<lparr>sb_idempotency_key := None\<rparr>) demo_issue None ''me'' None t t))"
proof -
  let ?b = "demo_base\<lparr>sb_idempotency_key := None\<rparr>" and ?t = "no_rows\<lparr>client_change_id := Some 77\<rparr>"
  have t: "submit open_grant (demo_base\<lparr>sb_account := None\<rparr>) demo_issue None ''me'' None no_rows no_rows = (?t, Inl ValueError)"
    by (rule missing_account_leaks_key)
      (simp_all add: demo_base_def demo_issue_def no_rows_def find_change_def pre_insert_def audience_missing_def)
  have ok: "sound ?t" and k: "effective_key ?b ?t = Some 77"
    using no_rows_sound by (simp_all add: effective_key_def demo_base_def peek_client_change_id_def)
  have "parse_submit 9 (?b, demo_issue) = Inr (?b, demo_issue)" by code_simp
  then have "admissible 9 ?b demo_issue None ?t"
    using k no_rows_sound(2)
    by (auto simp: admissible_def linkless_def demo_issue_def demo_base_def within_columns_def unless_none_def name_free_def
        nonneg_def)
  then obtain u i where u: "submit open_grant ?b demo_issue None ''me'' None ?t ?t = (u, Inr i)"
    using submit_accepts [OF _ ok, of 9 ?b demo_issue None ?t open_grant None "''me''"] by (auto simp: open_grant_def)
  have "created_by 77 i Issue u" using submit_key [OF u ok k] by simp
  with t u show ?thesis by auto
qed

section \<open>Batches\<close>

text \<open>C7: a batch goes in whole or not at all. If any item or edge is refused, every table is as it was before
  the batch. Otherwise each item has its row, under its key and of its kind, those it made are the last rows
  of the table in the order of the items, and every edge of the batch is there, between the rows its indexes
  name.\<close>

theorem batch_all_or_nothing:
  assumes "sound s" "submit_batch grant rows es key who aud s = (t, r)"
  shows "case r of
      Inl e \<Rightarrow> t = s\<lparr>client_change_id := client_change_id t\<rparr>
    | Inr ids \<Rightarrow> sound t \<and> batch_made rows es ids s t"
proof (cases r)
  case (Inl e)
  with assms(2) show ?thesis
    by (auto simp: submit_batch_def submit_tx_def set_client_change_id_def split: sum.splits)
next
  case (Inr ids)
  have "sound t" using submit_batch_follows [OF assms(1), of grant rows es key who aud] assms(2) by (simp add: follows_def)
  with submit_batch_made [OF assms(2) [unfolded Inr] assms(1)] show ?thesis by (simp add: Inr)
qed

definition demo_batch :: "(submit_base \<times> submit_body) list" where
  "demo_batch = [(demo_base, demo_issue), (demo_base\<lparr>sb_idempotency_key := Some 78, sb_title := ''more''\<rparr>, demo_issue)]"

definition demo_batch_edge :: batch_edge where
  "demo_batch_edge = \<lparr>be_from = FromIndex 1, be_to = FromIndex 0, be_kind = Narrows, be_priority = None, be_note = [],
     be_valence = None, be_labels = []\<rparr>"

lemma demo_batch_parsed: "parse_batch 9 demo_batch [demo_batch_edge] = Inr (demo_batch, [demo_batch_edge])"
  by code_simp

lemma demo_batch_runs:
  "case snd (submit_batch open_grant demo_batch [demo_batch_edge] None ''me'' None no_rows) of Inr ids \<Rightarrow> ids = [1, 2] | Inl e \<Rightarrow> False"
  by code_simp

lemma demo_batch_submitted:
  obtains t where "submit_batch open_grant demo_batch [demo_batch_edge] None ''me'' None no_rows = (t, Inr [1, 2])"
  using demo_batch_runs by (cases "submit_batch open_grant demo_batch [demo_batch_edge] None ''me'' None no_rows")
    (auto split: sum.splits)

theorem batch_all_or_nothing_witness:
  "\<exists>t. submit_batch open_grant demo_batch [demo_batch_edge] None ''me'' None no_rows = (t, Inr [1, 2])
    \<and> batch_row (demo_base, demo_issue) 1 t \<and> (2, 1, Narrows) \<in> edge_key ` set (edges t)"
proof -
  obtain t where t: "submit_batch open_grant demo_batch [demo_batch_edge] None ''me'' None no_rows = (t, Inr [1, 2])"
    by (rule demo_batch_submitted)
  have b: "batch_made demo_batch [demo_batch_edge] [1, 2] no_rows t"
    using batch_all_or_nothing [OF no_rows_sound(1) t] by simp
  have "batch_key [1, 2] demo_batch_edge = Some (2, 1, Narrows)" by code_simp
  with b t show ?thesis by (simp add: batch_made_def demo_batch_def)
qed

text \<open>A batch sent again makes nothing twice. When every item's key names the creation of its row, whatever
  happened to the rows since, the batch returns the same ids and changes no table: no row, no change and no
  modification time, although its items carry stamps.\<close>

theorem batch_retry_is_lookup:
  assumes "sound s" "submit_batch grant rows es key who aud s = (t, Inr ids)" "rows \<noteq> []"
    and "list_all (\<lambda>x. sb_idempotency_key (fst x) \<noteq> None \<and> \<not> audience_missing (snd x) aud') rows"
    and "rtranclp trax_step t u"
  shows "submit_batch grant' rows [] key' who' aud' u = (u\<lparr>client_change_id := None, buffer := []\<rparr>, Inr ids)"
proof (rule submit_batch_replay)
  have ok: "sound t" using submit_batch_follows [OF assms(1), of grant rows es key who aud] assms(2) by (simp add: follows_def)
  have "prefix (change_log t) (change_log u)" using trax.trail_grows [OF assms(5) ok] .
  then show "batch_replayed rows ids u"
    by (rule batch_made_replayed [OF submit_batch_made [OF assms(2,1)], rotated]) (use assms(4) in \<open>simp add: list_all_iff\<close>)
  show "list_all (\<lambda>x. \<not> audience_missing (snd x) aud') rows" using assms(4) by (auto simp: list_all_iff)
qed (rule assms(3))

theorem batch_retry_is_lookup_witness:
  "\<exists>t. submit_batch open_grant demo_batch [demo_batch_edge] None ''me'' None no_rows = (t, Inr [1, 2])
    \<and> submit_batch open_grant demo_batch [] None ''you'' None t = (t\<lparr>client_change_id := None, buffer := []\<rparr>, Inr [1, 2])"
proof -
  obtain t where t: "submit_batch open_grant demo_batch [demo_batch_edge] None ''me'' None no_rows = (t, Inr [1, 2])"
    by (rule demo_batch_submitted)
  from batch_retry_is_lookup [OF no_rows_sound(1) t, of None t open_grant None "''you''"] t show ?thesis
    by (auto simp: demo_batch_def demo_base_def)
qed

end
