(* ===== verification/Audience.thy ===== *)
theory Audience
  imports Graph_State "HOL-Library.AList"
begin

text \<open>
  \<open>wire/audience.py\<close> and \<open>server/audience.py\<close>: who holds which audience, and who reads which
  session's transcript. The test is SQL over one row, so it is written in three-valued logic,
  where NULL is \<open>None\<close>. An email address is ASCII.
\<close>

section \<open>The values\<close>

definition OPEN :: string where "OPEN = ''open''"
definition PRIVATE :: string where "PRIVATE = ''private''"
definition STAFF :: string where "STAFF = ''staff''"

definition AUDIENCES :: "string set" where "AUDIENCES = {OPEN, PRIVATE, STAFF}"

definition validate_audience :: "string \<Rightarrow> string res" where
  "validate_audience v = (if \<not> audience_shape v \<or> v \<notin> AUDIENCES then Inl ValueError else Inr v)"

record audiences =
  reads :: "string set"
  opens_into :: "string set"
  pinned :: "string option"

record session_reader =
  rd_audiences :: "string set"
  rd_email :: string
  rd_org :: "string option"
  every_session :: bool
  oversight :: bool
  shows_hidden :: bool

definition NOBODY :: session_reader where
  "NOBODY = \<lparr>rd_audiences = {}, rd_email = [], rd_org = None, every_session = False, oversight = False,
     shows_hidden = True\<rparr>"

section \<open>People and keys\<close>

definition SERVICE_DOMAIN :: string where "SERVICE_DOMAIN = ''service.invalid''"

definition is_service_address :: "string \<Rightarrow> bool" where
  "is_service_address email \<longleftrightarrow> suffix (CHR ''@'' # SERVICE_DOMAIN) (lower (strip email))"

text \<open>What follows the last \<open>@\<close>, the whole text when it has none.\<close>

definition after_at :: "string \<Rightarrow> string" where
  "after_at x = rev (takeWhile (\<lambda>c. c \<noteq> CHR ''@'') (rev x))"

definition mail_domain :: "string \<Rightarrow> string" where
  "mail_domain email = (if CHR ''@'' \<in> set email then after_at (lower email) else [])"

definition email_org :: "string \<Rightarrow> string option \<Rightarrow> string option" where
  "email_org email hosted_domain =
     (let domain = mail_domain email in
      if domain \<noteq> [] \<and> domain = lower (case hosted_domain of None \<Rightarrow> [] | Some d \<Rightarrow> d) then Some domain else None)"

text \<open>A staff pattern is \<open>user@host\<close>, or \<open>*@domain\<close>.\<close>

definition is_domain_pattern :: "string \<Rightarrow> bool" where
  "is_domain_pattern p \<longleftrightarrow> prefix ''*@'' p"

fun matches_staff :: "string \<Rightarrow> string \<Rightarrow> bool \<Rightarrow> string list \<Rightarrow> bool" where
  "matches_staff email domain in_domain [] = False"
| "matches_staff email domain in_domain (p # ps) =
     (if is_domain_pattern p \<and> in_domain \<and> p = ''*@'' @ domain then True
      else if \<not> is_domain_pattern p \<and> p = email then True
      else matches_staff email domain in_domain ps)"

definition person_audiences :: "string \<Rightarrow> string option \<Rightarrow> string list \<Rightarrow> string set" where
  "person_audiences email hosted_domain staff =
     (let email = lower email; domain = mail_domain email;
          in_domain = (case hosted_domain of None \<Rightarrow> False | Some d \<Rightarrow> lower d = domain)
      in if matches_staff email domain in_domain staff then {OPEN, PRIVATE, STAFF} else {OPEN, PRIVATE})"

definition key_audiences :: "string set \<Rightarrow> string option \<Rightarrow> audiences" where
  "key_audiences owner open_into =
     \<lparr>reads = owner, opens_into = (case open_into of None \<Rightarrow> owner | Some a \<Rightarrow> owner \<inter> {a}), pinned = open_into\<rparr>"

datatype chat_orgs = Single | Domain | Individual

definition caller_reader ::
  "string \<Rightarrow> string set \<Rightarrow> bool \<Rightarrow> chat_orgs \<Rightarrow> string \<Rightarrow> string option \<Rightarrow> bool \<Rightarrow> bool \<Rightarrow> session_reader" where
  "caller_reader email held admin orgs assistant hosted_domain delegated hidden =
     (let email = lower email;
          the_assistant = (assistant \<noteq> [] \<and> email = assistant);
          person = (\<not> the_assistant \<and> \<not> is_service_address email)
      in \<lparr>rd_audiences = held, rd_email = email,
          rd_org = (if person \<and> orgs = Domain then email_org email hosted_domain else None),
          every_session = (orgs = Single),
          oversight = (person \<and> \<not> delegated \<and> (STAFF \<in> held \<or> admin)),
          shows_hidden = hidden\<rparr>)"

section \<open>Three-valued logic\<close>

fun sql_and :: "bool option \<Rightarrow> bool option \<Rightarrow> bool option" where
  "sql_and (Some False) y = Some False"
| "sql_and (Some True) y = y"
| "sql_and None (Some False) = Some False"
| "sql_and None y = None"

fun sql_or :: "bool option \<Rightarrow> bool option \<Rightarrow> bool option" where
  "sql_or (Some True) y = Some True"
| "sql_or (Some False) y = y"
| "sql_or None (Some True) = Some True"
| "sql_or None y = None"

definition sql_not :: "bool option \<Rightarrow> bool option" where
  "sql_not x = map_option Not x"

definition sql_eq :: "'a option \<Rightarrow> 'a option \<Rightarrow> bool option" where
  "sql_eq x y = (case (x, y) of (Some a, Some b) \<Rightarrow> Some (a = b) | _ \<Rightarrow> None)"

text \<open>\<open>x = ANY(array)\<close> over an array with no NULL: NULL only when \<open>x\<close> is and the array is not empty.\<close>

definition sql_any :: "'a option \<Rightarrow> 'a set \<Rightarrow> bool option" where
  "sql_any x A = (case x of Some a \<Rightarrow> Some (a \<in> A) | None \<Rightarrow> if A = {} then Some False else None)"

definition coalesce :: "'a option \<Rightarrow> 'a \<Rightarrow> 'a" where
  "coalesce x d = (case x of None \<Rightarrow> d | Some y \<Rightarrow> y)"

section \<open>The transcript test\<close>

definition text_column :: "inquiry \<Rightarrow> column \<Rightarrow> string option" where
  "text_column r c = (case iq_columns r c of Some (VStr x) \<Rightarrow> Some x | _ \<Rightarrow> None)"

definition visible_sql :: "session_reader \<Rightarrow> inquiry \<Rightarrow> bool" where
  "visible_sql reader r =
     (let audience = text_column r SessionAudience; account = map_option lower (text_column r Account);
          shown = sql_or (sql_eq audience (Some STAFF))
                 (sql_or (sql_eq account (Some (rd_email reader)))
                 (sql_or (Some (oversight reader))
                   (sql_and (sql_eq audience (Some OPEN))
                     (sql_or (Some (every_session reader)) (sql_eq (map_option after_at account) (rd_org reader))))))
      in coalesce
           (sql_and (sql_any audience (rd_audiences reader))
             (sql_and (sql_or (sql_not (sql_eq audience (Some PRIVATE))) (Some (shows_hidden reader))) shown))
           False)"

definition hidden_exists_sql :: "session_reader \<Rightarrow> uuid option \<Rightarrow> store \<Rightarrow> bool" where
  "hidden_exists_sql reader sid s \<longleftrightarrow>
     \<not> (case sid of None \<Rightarrow> False
         | Some i \<Rightarrow> (case inquiries s i of None \<Rightarrow> False | Some r \<Rightarrow> \<not> visible_sql reader r))"

definition reads_session :: "session_reader \<Rightarrow> uuid \<Rightarrow> store \<Rightarrow> bool" where
  "reads_session reader i s \<longleftrightarrow> (case inquiries s i of None \<Rightarrow> False | Some r \<Rightarrow> visible_sql reader r)"

definition may_hide :: "string \<Rightarrow> string list \<Rightarrow> string option \<Rightarrow> bool" where
  "may_hide caller owners audience \<longleftrightarrow>
     (case audience of None \<Rightarrow> False | Some a \<Rightarrow> a \<in> {OPEN, PRIVATE})
   \<and> lower caller \<in> lower ` set (filter (\<lambda>x. x \<noteq> []) owners)"

section \<open>Pings\<close>

text \<open>
  \<open>TranscriptPings\<close>: an answer is kept under the session and the audience its ping names, for
  \<open>keep_sec\<close>; a full cache is emptied. The clock is read before the database is asked, whose state
  then is \<open>s\<close>.
\<close>

record pings =
  pg_reader :: session_reader
  keep_sec :: rat
  most_kept :: nat
  kept :: "((uuid \<times> string) \<times> (rat \<times> bool)) list"

definition Pings :: "session_reader \<Rightarrow> pings" where
  "Pings reader = \<lparr>pg_reader = reader, keep_sec = 30, most_kept = 4096, kept = []\<rparr>"

definition hears :: "rat \<Rightarrow> store \<Rightarrow> uuid \<Rightarrow> string \<Rightarrow> pings \<Rightarrow> pings \<times> bool" where
  "hears now s i audience p =
     (if audience \<notin> rd_audiences (pg_reader p) then (p, False)
      else
        let ask = (let heard = reads_session (pg_reader p) i s;
                       held = (if most_kept p \<le> length (kept p) then [] else kept p)
                   in (p\<lparr>kept := AList.update (i, audience) (now, heard) held\<rparr>, heard))
        in case map_of (kept p) (i, audience) of
             Some (asked, answer) \<Rightarrow> if now - asked < keep_sec p then (p, answer) else ask
           | None \<Rightarrow> ask)"

section \<open>Lemmas\<close>

lemma sql_simps [simp]:
  "sql_eq (Some a) (Some b) = Some (a = b)" "sql_eq None y = None" "sql_eq x None = None"
  "sql_not (Some t) = Some (\<not> t)" "sql_not None = None" "sql_any (Some a) A = Some (a \<in> A)"
  "coalesce (Some z) d = z" "coalesce None d = d"
  by (simp_all add: sql_eq_def sql_not_def sql_any_def coalesce_def split: option.split)

lemma sql_some [simp]: "sql_and (Some a) (Some b) = Some (a \<and> b)" "sql_or (Some a) (Some b) = Some (a \<or> b)"
  by (cases a; simp)+

lemma sql_null [simp]:
  "sql_and x None = (if x = Some False then Some False else None)" "sql_or x None = (if x = Some True then Some True else None)"
proof -
  show "sql_and x None = (if x = Some False then Some False else None)"
    by (cases "(x, None :: bool option)" rule: sql_and.cases) auto
  show "sql_or x None = (if x = Some True then Some True else None)"
    by (cases "(x, None :: bool option)" rule: sql_or.cases) auto
qed

text \<open>The closed form of the test: NULLs only ever hide a row.\<close>

definition reads_transcript :: "session_reader \<Rightarrow> string option \<Rightarrow> string option \<Rightarrow> bool" where
  "reads_transcript reader audience account \<longleftrightarrow>
     (case audience of None \<Rightarrow> False
      | Some a \<Rightarrow> a \<in> rd_audiences reader \<and> (a = PRIVATE \<longrightarrow> shows_hidden reader)
          \<and> (a = STAFF \<or> oversight reader
             \<or> (case account of None \<Rightarrow> a = OPEN \<and> every_session reader
                | Some x \<Rightarrow> lower x = rd_email reader
                    \<or> a = OPEN \<and> (every_session reader \<or> rd_org reader = Some (after_at (lower x))))))"

lemma distinct_audiences [simp]:
  "OPEN \<noteq> PRIVATE" "OPEN \<noteq> STAFF" "PRIVATE \<noteq> STAFF" "PRIVATE \<noteq> OPEN" "STAFF \<noteq> OPEN" "STAFF \<noteq> PRIVATE"
  by (simp_all add: OPEN_def PRIVATE_def STAFF_def)

lemma coalesce_and: "coalesce (sql_and (Some a) (sql_and (Some b) x)) False = (a \<and> b \<and> coalesce x False)"
  by (cases a; cases b; cases x) simp_all

lemma coalesce_and_null: "coalesce (sql_and None x) False = False"
  by (cases "(None :: bool option, x)" rule: sql_and.cases) simp_all

text \<open>The test with its columns and the reader's fields as booleans.\<close>

lemma visible_sql_cases:
  assumes "text_column r SessionAudience = Some a"
  shows "visible_sql reader r \<longleftrightarrow>
           a \<in> rd_audiences reader \<and> (a \<noteq> PRIVATE \<or> shows_hidden reader)
         \<and> coalesce (sql_or (Some (a = STAFF)) (sql_or (sql_eq (map_option lower (text_column r Account)) (Some (rd_email reader)))
             (sql_or (Some (oversight reader)) (sql_and (Some (a = OPEN)) (sql_or (Some (every_session reader))
                (sql_eq (map_option after_at (map_option lower (text_column r Account))) (rd_org reader))))))) False"
  by (simp only: visible_sql_def Let_def assms coalesce_and sql_simps sql_some)

lemma visible_sql_reads:
  "visible_sql reader r = reads_transcript reader (text_column r SessionAudience) (text_column r Account)"
proof (cases "text_column r SessionAudience")
  case None
  then show ?thesis by (simp add: visible_sql_def reads_transcript_def Let_def sql_any_def coalesce_and_null)
next
  case (Some a)
  show ?thesis unfolding visible_sql_cases [OF Some] Some
    by (cases "text_column r Account"; cases "rd_org reader"; cases "a = OPEN"; cases "oversight reader")
       (auto simp: reads_transcript_def)
qed

end
