(* ===== verification/Session_Access.thy ===== *)
theory Session_Access
  imports Audience
begin

text \<open>
  \<open>server/api/session_access.py\<close> and \<open>server/api/session_identity.py\<close>: who a request may act
  as, and what it may read, write, drain, send, purge, reassign and open. A check raises an
  \<open>HTTPException\<close>, here \<open>Inl\<close> of its status and detail. The reads of one check see one state of
  the store; the access policy an addon may install is not asked here.
\<close>

section \<open>Identities\<close>

datatype role = Viewer | Writer | Admin

record identity =
  user_id :: uuid
  id_key :: "uuid option"
  id_email :: string
  id_role :: role
  read_audiences :: "string set"
  open_audiences :: "string set"
  pinned_audience :: "string option"
  id_domain :: "string option"

record asker =
  as_email :: string
  as_role :: role
  as_audiences :: "string set"
  as_domain :: "string option"
  as_chat :: "uuid option"

text \<open>The assistant of the deployment: its actor and its account.\<close>

record assistant =
  at_actor :: string
  at_email :: string

text \<open>What the checks read of the server: \<open>None\<close> is a server with no assistant.\<close>

record server =
  the_assistant :: "assistant option"
  chat_orgs :: chat_orgs
  staff_patterns :: "string list"
  auth_disabled :: bool

text \<open>A row of \<open>users\<close>; \<open>email\<close> is its unique key.\<close>

record user =
  us_role :: role
  us_domain :: "string option"
  us_active :: bool

type_synonym users = "(string \<times> user) list"

datatype access_mode = Read | Write | Drain | Input

text \<open>A refusal: its status, and the audience or the rule its detail names.\<close>

datatype refusal =
    SessionAudience403 "string option"
  | AudienceNotHeld403 string
  | NotAttributable403 | OwnKeyRequired403 | NotPurgeable403 | SessionAccount403 | RowAccount403 | SessionIdChange403
  | UnknownSession404

type_synonym 'a checked = "refusal + 'a"

section \<open>The caller and the person it acts for\<close>

definition is_the_assistant :: "identity \<Rightarrow> assistant option \<Rightarrow> bool" where
  "is_the_assistant i a \<longleftrightarrow> (case a of None \<Rightarrow> False | Some x \<Rightarrow> id_email i = at_email x)"

definition assistant_email :: "server \<Rightarrow> string" where
  "assistant_email v = (case the_assistant v of None \<Rightarrow> [] | Some x \<Rightarrow> at_email x)"

definition asker_reader :: "server \<Rightarrow> asker \<Rightarrow> session_reader" where
  "asker_reader v a =
     caller_reader (as_email a) (as_audiences a) (as_role a = Admin) (chat_orgs v) (assistant_email v)
       (as_domain a) False True"

definition reader_of :: "server \<Rightarrow> identity \<Rightarrow> bool \<Rightarrow> session_reader" where
  "reader_of v i hidden =
     (if auth_disabled v
      then \<lparr>rd_audiences = AUDIENCES, rd_email = lower (id_email i), rd_org = None, every_session = True,
        oversight = True, shows_hidden = hidden\<rparr>
      else caller_reader (id_email i) (read_audiences i) (id_role i = Admin) (chat_orgs v) (assistant_email v)
        (id_domain i) False hidden)"

definition resolve_asker :: "server \<Rightarrow> users \<Rightarrow> identity \<Rightarrow> string option \<Rightarrow> uuid option \<Rightarrow> asker option" where
  "resolve_asker v us i email chat =
     (case email of None \<Rightarrow> None
      | Some e \<Rightarrow>
          if \<not> is_the_assistant i (the_assistant v) then None
          else (case map_of (filter (\<lambda>(_, u). us_active u) us) (lower e) of
              None \<Rightarrow> Some \<lparr>as_email = lower e, as_role = Viewer, as_audiences = {}, as_domain = None, as_chat = chat\<rparr>
            | Some u \<Rightarrow> Some \<lparr>as_email = lower e, as_role = us_role u,
                as_audiences = person_audiences (lower e) (us_domain u) (staff_patterns v),
                as_domain = us_domain u, as_chat = chat\<rparr>))"

definition require_attributable :: "identity \<Rightarrow> string \<Rightarrow> unit checked" where
  "require_attributable i account =
     guard_res (\<not> (is_service_address account \<and> lower account \<noteq> lower (id_email i) \<and> id_role i \<noteq> Admin))
       NotAttributable403"

definition granted_audience :: "identity \<Rightarrow> bool \<Rightarrow> string checked" where
  "granted_audience i private =
     (let audience = (case pinned_audience i of None \<Rightarrow> OPEN | Some a \<Rightarrow> a) in
      if audience \<notin> open_audiences i then Inl (AudienceNotHeld403 audience)
      else if \<not> private then Inr audience
      else if audience \<in> {OPEN, PRIVATE} then Inr PRIVATE
      else Inl (AudienceNotHeld403 PRIVATE))"

section \<open>A session\<close>

definition session_row :: "store \<Rightarrow> uuid \<Rightarrow> inquiry option" where
  "session_row s i = (case inquiries s i of None \<Rightarrow> None | Some r \<Rightarrow> if iq_kind r = AgentSession then Some r else None)"

definition account_of :: "inquiry \<Rightarrow> string" where
  "account_of r = (case text_column r Account of None \<Rightarrow> [] | Some a \<Rightarrow> a)"

definition opener_of :: "inquiry \<Rightarrow> uuid option" where
  "opener_of r = (case iq_columns r SessionOpenedBy of Some (VId k) \<Rightarrow> Some k | _ \<Rightarrow> None)"

definition require_session :: "store \<Rightarrow> uuid \<Rightarrow> inquiry checked" where
  "require_session s i = (case session_row s i of None \<Rightarrow> Inl UnknownSession404 | Some r \<Rightarrow> Inr r)"

definition opened_by :: "identity \<Rightarrow> uuid option \<Rightarrow> bool" where
  "opened_by i opener \<longleftrightarrow> (case id_key i of None \<Rightarrow> False | Some k \<Rightarrow> opener = Some k)"

definition holds_account :: "identity \<Rightarrow> string \<Rightarrow> bool" where
  "holds_account i account \<longleftrightarrow> lower account = lower (id_email i)"

definition require_session_write_access :: "identity \<Rightarrow> inquiry \<Rightarrow> unit checked" where
  "require_session_write_access i r =
     guard_res (\<not> (id_role i = Viewer \<and> (id_key i = None \<or> opener_of r \<noteq> id_key i))) OwnKeyRequired403"

definition require_input :: "identity \<Rightarrow> inquiry \<Rightarrow> asker option \<Rightarrow> unit checked" where
  "require_input i r asker =
     guard_res
       (case asker of
          Some a \<Rightarrow> as_role a \<in> {Writer, Admin} \<and> lower (as_email a) = lower (account_of r)
        | None \<Rightarrow> opened_by i (opener_of r) \<or> holds_account i (account_of r))
       (SessionAudience403 (text_column r SessionAudience))"

definition require_session_access ::
  "server \<Rightarrow> store \<Rightarrow> identity \<Rightarrow> uuid \<Rightarrow> inquiry \<Rightarrow> access_mode \<Rightarrow> asker option \<Rightarrow> unit checked" where
  "require_session_access v s i sid r mode asker =
     (let lender = (if is_the_assistant i (the_assistant v) then asker else None);
          refused = SessionAudience403 (text_column r SessionAudience)
      in if mode = Input then require_input i r lender
         else case (if mode = Read then lender else None) of
             Some a \<Rightarrow> guard_res (reads_session (asker_reader v a) sid s) refused
           | None \<Rightarrow>
               if opened_by i (opener_of r) then Inr ()
               else guard_res ((mode = Read \<or> holds_account i (account_of r))
                   \<and> reads_session (reader_of v i True) sid s) refused)"

section \<open>Writes by id\<close>

definition require_audience :: "identity \<Rightarrow> inquiry \<Rightarrow> unit checked" where
  "require_audience i r =
     guard_res (opened_by i (opener_of r)
         \<or> (case text_column r SessionAudience of None \<Rightarrow> False | Some a \<Rightarrow> a \<in> read_audiences i))
       (SessionAudience403 (text_column r SessionAudience))"

definition require_session_row_write :: "store \<Rightarrow> identity \<Rightarrow> uuid \<Rightarrow> unit checked" where
  "require_session_row_write s i target =
     (case inquiries s target of
        None \<Rightarrow> Inr ()
      | Some r \<Rightarrow> if iq_kind r \<noteq> AgentSession then Inr () else require_audience i r)"

definition require_row_purge :: "store \<Rightarrow> identity \<Rightarrow> uuid \<Rightarrow> unit checked" where
  "require_row_purge s i target =
     (case inquiries s target of
        None \<Rightarrow> Inr ()
      | Some r \<Rightarrow>
          bind_res (if iq_kind r = AgentSession then require_audience i r else Inr ()) (\<lambda>_.
          if id_role i = Admin then Inr () else guard_res (holds_account i (account_of r)) NotPurgeable403))"

definition require_row_account :: "store \<Rightarrow> identity \<Rightarrow> uuid \<Rightarrow> unit checked" where
  "require_row_account s i target =
     (case inquiries s target of
        None \<Rightarrow> Inr ()
      | Some r \<Rightarrow>
          if holds_account i (account_of r) then Inr ()
          else if iq_kind r = AgentSession then Inl SessionAccount403
          else guard_res (id_role i = Admin) RowAccount403)"

definition require_session_id_change :: "store \<Rightarrow> identity \<Rightarrow> uuid \<Rightarrow> unit checked" where
  "require_session_id_change s i target =
     (case inquiries s target of
        None \<Rightarrow> Inr ()
      | Some r \<Rightarrow>
          if iq_kind r \<noteq> AgentSession then Inr ()
          else guard_res (id_role i = Admin \<or> (id_key i \<noteq> None \<and> id_key i = opener_of r)) SessionIdChange403)"

end
