(* ===== verification/Access_Claims.thy ===== *)
theory Access_Claims
  imports Session_Access Edit_Claims
begin

text \<open>
  The properties of the session audiences: who reads a transcript, who is staff, who controls a
  session, what a key opens, and what a live stream tells.
\<close>

section \<open>The rule of the documentation\<close>

text \<open>A person is a caller that is neither the assistant nor a service account.\<close>

definition is_person :: "server \<Rightarrow> identity \<Rightarrow> bool" where
  "is_person v i \<longleftrightarrow>
     \<not> is_service_address (lower (id_email i)) \<and> (assistant_email v = [] \<or> lower (id_email i) \<noteq> assistant_email v)"

definition oversees :: "server \<Rightarrow> identity \<Rightarrow> bool" where
  "oversees v i \<longleftrightarrow> is_person v i \<and> (STAFF \<in> read_audiences i \<or> id_role i = Admin)"

definition same_organisation :: "server \<Rightarrow> identity \<Rightarrow> string \<Rightarrow> bool" where
  "same_organisation v i account \<longleftrightarrow>
     chat_orgs v = Single
   \<or> chat_orgs v = Domain \<and> is_person v i \<and> email_org (id_email i) (id_domain i) = Some (after_at (lower account))"

lemma lower_char_at [simp]: "CHR ''@'' = lower_char c \<longleftrightarrow> c = CHR ''@''"
proof
  assume at: "CHR ''@'' = lower_char c"
  show "c = CHR ''@''"
  proof (cases "65 \<le> code c \<and> code c \<le> 90")
    case True
    then have "code (lower_char c) = code c + 32" by (simp add: lower_char_def code_def)
    moreover have "code (CHR ''@'') = 64" by (simp add: code_def)
    ultimately show ?thesis using at True by simp
  next
    case False
    then show ?thesis using at unfolding lower_char_def by (simp only: if_False)
  qed
next
  assume "c = CHR ''@''"
  then show "CHR ''@'' = lower_char c" by (simp add: lower_char_def code_def)
qed

lemma set_lower [simp]: "CHR ''@'' \<in> set (lower x) \<longleftrightarrow> CHR ''@'' \<in> set x"
  by (auto simp: lower_def image_iff)

lemma email_org_lower [simp]: "email_org (lower x) d = email_org x d"
  by (simp add: email_org_def mail_domain_def)

lemma reader_simps [simp]:
  assumes "\<not> auth_disabled v"
  shows "rd_audiences (reader_of v i hidden) = read_audiences i" "rd_email (reader_of v i hidden) = lower (id_email i)"
    "shows_hidden (reader_of v i hidden) = hidden" "every_session (reader_of v i hidden) \<longleftrightarrow> chat_orgs v = Single"
    "oversight (reader_of v i hidden) \<longleftrightarrow> oversees v i"
    "rd_org (reader_of v i hidden)
      = (if is_person v i \<and> chat_orgs v = Domain then email_org (id_email i) (id_domain i) else None)"
  using assms
  by (auto simp: reader_of_def caller_reader_def Let_def oversees_def is_person_def)

lemma same_organisation_read:
  "chat_orgs v = Single
     \<or> (if is_person v i \<and> chat_orgs v = Domain then email_org (id_email i) (id_domain i) else None)
         = Some (after_at (lower account))
   \<longleftrightarrow> same_organisation v i account"
  by (simp add: same_organisation_def) blast

section \<open>Transcripts\<close>

text \<open>C15: what a credential that reads its owner's audiences sees of a session, on a server that
  authenticates: a private one is its owner's and the overseers', in a listing that shows it; a staff one is
  the staff's; an open one is its owner's, the overseers' and the organisation's; and a session with no
  audience, or another one, is no one's. The three-valued SQL test agrees with this rule on every row.\<close>

theorem transcript_read_rule:
  assumes "\<not> auth_disabled v" "read_audiences i = person_audiences (id_email i) (id_domain i) (staff_patterns v)"
    "inquiries s sid = Some r" "text_column r Account = Some account"
  shows "reads_session (reader_of v i hidden) sid s \<longleftrightarrow>
     (let own = (lower account = lower (id_email i)) in
      case text_column r SessionAudience of
        None \<Rightarrow> False
      | Some a \<Rightarrow>
          if a = PRIVATE then hidden \<and> (own \<or> oversees v i)
          else if a = STAFF then STAFF \<in> read_audiences i
          else a = OPEN \<and> (own \<or> oversees v i \<or> same_organisation v i account))"
proof -
  have "OPEN \<in> read_audiences i" "PRIVATE \<in> read_audiences i" "read_audiences i \<subseteq> {OPEN, PRIVATE, STAFF}"
    by (auto simp: assms(2) person_audiences_def Let_def)
  then show ?thesis
    unfolding reads_session_def assms(3) option.case visible_sql_reads reads_transcript_def assms(4) Let_def
      reader_simps [OF assms(1)]
    by (cases "text_column r SessionAudience") (auto simp: same_organisation_read)
qed

definition demo_server :: server where
  "demo_server = \<lparr>the_assistant = Some \<lparr>at_actor = ''helper'', at_email = ''helper@service.invalid''\<rparr>, chat_orgs = Domain,
     staff_patterns = [''*@corp.example''], auth_disabled = False\<rparr>"

definition demo_caller :: "string \<Rightarrow> string option \<Rightarrow> role \<Rightarrow> uuid option \<Rightarrow> identity" where
  "demo_caller email hosted rl key = \<lparr>user_id = 1, id_key = key, id_email = email, id_role = rl,
     read_audiences = person_audiences email hosted (staff_patterns demo_server),
     open_audiences = person_audiences email hosted (staff_patterns demo_server), pinned_audience = None, id_domain = hosted\<rparr>"

definition demo_session :: "string \<Rightarrow> string \<Rightarrow> inquiry" where
  "demo_session audience account = \<lparr>iq_kind = AgentSession, iq_seq = 1, iq_created = 1, iq_modified = 1, iq_locked = False,
     iq_cost = Cost 0 0,
     iq_columns = [SessionAudience \<mapsto> VStr audience, Account \<mapsto> VStr account, SessionOpenedBy \<mapsto> VId 5]\<rparr>"

definition demo_tables :: "string \<Rightarrow> string \<Rightarrow> store" where
  "demo_tables audience account = no_rows\<lparr>inquiries := [7 \<mapsto> demo_session audience account]\<rparr>"

lemma demo_tables_simps [simp]:
  "inquiries (demo_tables audience account) 7 = Some (demo_session audience account)"
  "text_column (demo_session audience account) Account = Some account"
  "text_column (demo_session audience account) SessionAudience = Some audience"
  "opener_of (demo_session audience account) = Some 5" "account_of (demo_session audience account) = account"
  by (simp_all add: demo_tables_def demo_session_def text_column_def opener_of_def account_of_def)

text \<open>A colleague reads an open session, and not a private one.\<close>

theorem transcript_read_rule_witness:
  "reads_session (reader_of demo_server (demo_caller ''a@lab.example'' (Some ''lab.example'') Writer None) True) 7
     (demo_tables OPEN ''b@lab.example'')
   \<and> \<not> reads_session (reader_of demo_server (demo_caller ''a@lab.example'' (Some ''lab.example'') Writer None) True) 7
     (demo_tables PRIVATE ''b@lab.example'')"
proof -
  let ?i = "demo_caller ''a@lab.example'' (Some ''lab.example'') Writer None"
  have pre: "\<not> auth_disabled demo_server" "read_audiences ?i = person_audiences (id_email ?i) (id_domain ?i) (staff_patterns demo_server)"
    by (simp_all add: demo_server_def demo_caller_def)
  have facts: "same_organisation demo_server ?i ''b@lab.example''" "\<not> oversees demo_server ?i"
    by code_simp+
  have no: "lower ''b@lab.example'' \<noteq> lower (id_email ?i)" by code_simp
  show ?thesis
    using transcript_read_rule [OF pre, of "demo_tables OPEN ''b@lab.example''" 7 "demo_session OPEN ''b@lab.example''" "''b@lab.example''" True]
      transcript_read_rule [OF pre, of "demo_tables PRIVATE ''b@lab.example''" 7 "demo_session PRIVATE ''b@lab.example''" "''b@lab.example''" True]
      facts no by (simp add: Let_def)
qed

text \<open>Who is staff: the holder of a literally listed address, or a member of a listed domain, the
  domain of the address and Google's claim naming the same one. An address that only looks like the
  domain's, or one that spells the pattern, is not, and belongs to no organisation either.\<close>

theorem staff_membership:
  "(STAFF \<in> person_audiences email hosted staff \<longleftrightarrow>
      lower email \<in> set staff \<and> \<not> is_domain_pattern (lower email)
      \<or> (\<exists>d. hosted = Some d \<and> lower d = mail_domain email \<and> ''*@'' @ mail_domain email \<in> set staff))
   \<and> (email_org email hosted \<noteq> None \<longleftrightarrow> (\<exists>d. hosted = Some d \<and> lower d = mail_domain email \<and> mail_domain email \<noteq> []))"
proof (intro conjI)
  have matches: "matches_staff e domain b ps \<longleftrightarrow>
      (\<exists>p \<in> set ps. is_domain_pattern p \<and> b \<and> p = ''*@'' @ domain \<or> \<not> is_domain_pattern p \<and> p = e)"
    for e domain b ps by (induction ps) auto
  have "is_domain_pattern (''*@'' @ d)" for d by (simp add: is_domain_pattern_def)
  moreover have "mail_domain (lower email) = mail_domain email" by (simp add: mail_domain_def)
  ultimately show "STAFF \<in> person_audiences email hosted staff \<longleftrightarrow>
      lower email \<in> set staff \<and> \<not> is_domain_pattern (lower email)
      \<or> (\<exists>d. hosted = Some d \<and> lower d = mail_domain email \<and> ''*@'' @ mail_domain email \<in> set staff)"
    by (auto simp: person_audiences_def matches Let_def split: option.splits)
  show "email_org email hosted \<noteq> None \<longleftrightarrow> (\<exists>d. hosted = Some d \<and> lower d = mail_domain email \<and> mail_domain email \<noteq> [])"
    by (auto simp: email_org_def Let_def split: option.splits)
qed

section \<open>Control\<close>

text \<open>C16: reading controls nothing: input reaches a session from its opening key or its account alone,
  whatever the caller's role, audiences or organisation; the assistant that names a person sends it for an
  active writer or admin who is the session's account, even where its own key opened the session.\<close>

theorem input_rights:
  assumes "distinct (map fst us)"
  shows "require_session_access v s i sid r Input (resolve_asker v us i email chat) = Inr () \<longleftrightarrow>
     (case (if is_the_assistant i (the_assistant v) then email else None) of
        None \<Rightarrow> (\<exists>k. id_key i = Some k \<and> opener_of r = Some k) \<or> lower (account_of r) = lower (id_email i)
      | Some e \<Rightarrow> \<exists>u. (lower e, u) \<in> set us \<and> us_active u \<and> us_role u \<noteq> Viewer \<and> lower e = lower (account_of r))"
proof -
  let ?active = "map_of (filter (\<lambda>(_, u). us_active u) us)"
  have active: "?active e = Some u \<longleftrightarrow> (e, u) \<in> set us \<and> us_active u" for e u
    using assms distinct_map_filter [of fst us] by (subst map_of_eq_Some_iff) auto
  have writes: "x \<noteq> Viewer \<longleftrightarrow> x = Writer \<or> x = Admin" for x by (cases x) auto
  show ?thesis
  proof (cases "is_the_assistant i (the_assistant v) \<and> email \<noteq> None")
    case False
    then show ?thesis
      by (auto simp: require_session_access_def require_input_def resolve_asker_def opened_by_def holds_account_def Let_def
          split: option.splits)
  next
    case True
    then obtain e where e: "email = Some e" "is_the_assistant i (the_assistant v)" by auto
    show ?thesis
    proof (cases "?active (lower e)")
      case None
      then have "\<not> (\<exists>u. (lower e, u) \<in> set us \<and> us_active u)" using active by (metis option.distinct(1))
      with None e show ?thesis by (auto simp: require_session_access_def require_input_def resolve_asker_def)
    next
      case (Some u)
      then have "(lower e, w) \<in> set us \<and> us_active w \<longleftrightarrow> w = u" for w using active [of "lower e" w] by auto
      then have "(\<exists>w. (lower e, w) \<in> set us \<and> us_active w \<and> us_role w \<noteq> Viewer \<and> lower e = lower (account_of r))
          \<longleftrightarrow> us_role u \<noteq> Viewer \<and> lower e = lower (account_of r)" by metis
      with Some e show ?thesis
        by (simp add: require_session_access_def require_input_def resolve_asker_def writes)
    qed
  qed
qed

theorem input_rights_witness:
  "\<not> require_session_access demo_server (demo_tables OPEN ''b@lab.example'') (demo_caller ''root@corp.example'' (Some ''corp.example'') Admin None)
      7 (demo_session OPEN ''b@lab.example'') Input (resolve_asker demo_server [] (demo_caller ''root@corp.example'' (Some ''corp.example'') Admin None) None None)
     = Inr ()"
proof -
  let ?i = "demo_caller ''root@corp.example'' (Some ''corp.example'') Admin None"
  have "\<not> is_the_assistant ?i (the_assistant demo_server)" "id_key ?i = None"
    "lower ''b@lab.example'' \<noteq> lower (id_email ?i)" by code_simp+
  then show ?thesis
    using input_rights [of "[]" demo_server "demo_tables OPEN ''b@lab.example''" ?i 7 "demo_session OPEN ''b@lab.example''" None None]
    by simp
qed

text \<open>A caller that passes a write or a drain opened the session, or is its account and reads it; and no
  check of a session by its id says anything of it but its audience.\<close>

theorem control_rights:
  "(mode \<in> {Write, Drain} \<longrightarrow>
     require_session_access v s i sid r mode asker = Inr () \<longleftrightarrow>
       (\<exists>k. id_key i = Some k \<and> opener_of r = Some k)
       \<or> lower (account_of r) = lower (id_email i) \<and> reads_session (reader_of v i True) sid s)
   \<and> (require_session_access v s i sid r mode asker = Inr ()
      \<or> require_session_access v s i sid r mode asker = Inl (SessionAudience403 (text_column r SessionAudience)))"
  by (auto simp: require_session_access_def require_input_def opened_by_def holds_account_def Let_def guard_res_def
      split: option.splits)

section \<open>Opening\<close>

text \<open>The audience a credential opens a session into is one its owner holds: its key's pin, and with no
  pin \<open>open\<close>; hiding narrows \<open>open\<close> alone. A pin the owner lost opens nothing.\<close>

theorem granted_is_held:
  assumes "owner = person_audiences email hosted staff" "K = key_audiences owner pin"
    "open_audiences i = opens_into K" "pinned_audience i = pinned K"
  shows "(case granted_audience i private of
            Inr a \<Rightarrow> a \<in> owner \<and> (pin \<noteq> None \<longrightarrow> a = the pin \<or> (private \<and> pin = Some OPEN \<and> a = PRIVATE))
               \<and> (pin = None \<longrightarrow> a = (if private then PRIVATE else OPEN))
          | Inl e \<Rightarrow> \<exists>a. pin = Some a \<and> e = AudienceNotHeld403 (if a \<in> owner then PRIVATE else a)
               \<and> (a \<notin> owner \<or> private \<and> a = STAFF))"
proof -
  have "OPEN \<in> owner" "PRIVATE \<in> owner" "owner \<subseteq> {OPEN, PRIVATE, STAFF}"
    by (auto simp: assms(1) person_audiences_def Let_def)
  with assms(2-4) show ?thesis
    by (auto simp: granted_audience_def key_audiences_def Let_def split: option.splits)
qed

theorem granted_is_held_witness:
  "granted_audience (demo_caller ''a@lab.example'' None Writer None\<lparr>open_audiences := {}, pinned_audience := Some STAFF\<rparr>) False
     = Inl (AudienceNotHeld403 STAFF)"
proof -
  let ?i = "demo_caller ''a@lab.example'' None Writer None\<lparr>open_audiences := {}, pinned_audience := Some STAFF\<rparr>"
  have "STAFF \<notin> person_audiences ''a@lab.example'' None []" by code_simp
  then show ?thesis
    using granted_is_held [OF refl refl, of ?i "''a@lab.example''" None "[]" "Some STAFF" False]
    by (auto simp: key_audiences_def split: sum.splits)
qed

section \<open>Reading for a person\<close>

text \<open>What the assistant reads for a person is what that person reads, their oversight included: an
  admin's assistant reads another person's private session.\<close>

theorem delegated_read_keeps_oversight:
  assumes "\<not> auth_disabled v" "is_the_assistant i (the_assistant v)" "id_email p = as_email a" "id_role p = as_role a"
    "read_audiences p = as_audiences a" "id_domain p = as_domain a"
  shows "require_session_access v s i sid r Read (Some a) = Inr () \<longleftrightarrow> reads_session (reader_of v p True) sid s"
proof -
  have "asker_reader v a = reader_of v p True" using assms by (simp add: asker_reader_def reader_of_def)
  with assms(2) show ?thesis by (simp add: require_session_access_def)
qed

definition demo_asker :: asker where
  "demo_asker = \<lparr>as_email = ''root@corp.example'', as_role = Admin,
     as_audiences = person_audiences ''root@corp.example'' None (staff_patterns demo_server), as_domain = None, as_chat = None\<rparr>"

theorem delegated_read_keeps_oversight_witness:
  "require_session_access demo_server (demo_tables PRIVATE ''b@lab.example'') (demo_caller ''helper@service.invalid'' None Writer None)
      7 (demo_session PRIVATE ''b@lab.example'') Read (Some demo_asker) = Inr ()"
proof -
  let ?p = "demo_caller ''root@corp.example'' None Admin None"
  let ?i = "demo_caller ''helper@service.invalid'' None Writer None"
  have pre: "\<not> auth_disabled demo_server" "is_the_assistant ?i (the_assistant demo_server)" "id_email ?p = as_email demo_asker"
    "id_role ?p = as_role demo_asker" "read_audiences ?p = as_audiences demo_asker" "id_domain ?p = as_domain demo_asker"
    by (simp_all add: demo_server_def demo_caller_def demo_asker_def is_the_assistant_def)
  have "oversees demo_server ?p" "PRIVATE \<in> read_audiences ?p" by code_simp+
  then have "reads_session (reader_of demo_server ?p True) 7 (demo_tables PRIVATE ''b@lab.example'')"
    using pre(1) by (simp add: reads_session_def visible_sql_reads reads_transcript_def)
  with delegated_read_keeps_oversight [OF pre] show ?thesis by blast
qed

section \<open>Live streams\<close>

text \<open>A stream's cache after its pings, and the times and states at which they came, newest first.\<close>

inductive listens :: "session_reader \<Rightarrow> pings \<Rightarrow> (rat \<times> store) list \<Rightarrow> bool" for reader where
  begins: "listens reader (Pings reader) []"
| pinged: "listens reader p h \<Longrightarrow> hears now s i a p = (q, b) \<Longrightarrow> listens reader q ((now, s) # h)"

definition pings_ok :: "session_reader \<Rightarrow> pings \<Rightarrow> (rat \<times> store) list \<Rightarrow> bool" where
  "pings_ok reader p h \<longleftrightarrow>
     pg_reader p = reader \<and> keep_sec p = 30 \<and> most_kept p = 4096 \<and> length (kept p) \<le> 4096
   \<and> (\<forall>((i, a), (t, b)) \<in> set (kept p). \<exists>s. (t, s) \<in> set h \<and> b = reads_session reader i s)"

lemma length_update: "length (AList.update k v al) \<le> Suc (length al)"
  by (induction al) auto

lemma set_update: "set (AList.update k v al) \<subseteq> insert (k, v) (set al)"
  by (induction al) auto

lemma asked_kept:
  assumes "pings_ok reader p h" "heard = reads_session reader i s"
  shows "pings_ok reader (p\<lparr>kept := AList.update (i, a) (now, heard) (if most_kept p \<le> length (kept p) then [] else kept p)\<rparr>)
           ((now, s) # h)"
proof -
  let ?held = "if most_kept p \<le> length (kept p) then [] else kept p"
  have "length ?held < 4096" using assms(1) by (auto simp: pings_ok_def)
  then have len: "length (AList.update (i, a) (now, heard) ?held) \<le> 4096"
    using length_update [of "(i, a)" "(now, heard)" ?held] by linarith
  have sub: "set (AList.update (i, a) (now, heard) ?held) \<subseteq> insert ((i, a), (now, heard)) (set (kept p))"
    using set_update [of "(i, a)" "(now, heard)" ?held] by (auto split: if_splits)
  have kept: "\<forall>((j, c), (t, b)) \<in> set (kept p). \<exists>u. (t, u) \<in> set ((now, s) # h) \<and> b = reads_session reader j u"
    using assms(1) unfolding pings_ok_def by fastforce
  have "\<forall>((j, c), (t, b)) \<in> set (AList.update (i, a) (now, heard) ?held).
      \<exists>u. (t, u) \<in> set ((now, s) # h) \<and> b = reads_session reader j u"
  proof (rule ballI)
    fix x assume "x \<in> set (AList.update (i, a) (now, heard) ?held)"
    then consider "x = ((i, a), (now, heard))" | "x \<in> set (kept p)" using sub by blast
    then show "(\<lambda>((j, c), (t, b)). \<exists>u. (t, u) \<in> set ((now, s) # h) \<and> b = reads_session reader j u) x"
    proof cases
      case 1
      show ?thesis unfolding 1 prod.case by (intro exI [of _ s]) (simp add: assms(2))
    next
      case 2
      show ?thesis by (rule bspec [OF kept 2])
    qed
  qed
  with len assms(1) show ?thesis unfolding pings_ok_def by simp
qed

lemma hears_ok:
  assumes "pings_ok reader p h" "hears now s i a p = (q, b)"
  shows "pings_ok reader q ((now, s) # h)"
    and "b \<longrightarrow> a \<in> rd_audiences reader"
    and "a \<in> rd_audiences reader \<longrightarrow> (\<exists>t u. (t, u) \<in> set ((now, s) # h) \<and> now - 30 < t \<and> b = reads_session reader i u)"
proof -
  have more: "pings_ok reader p ((now, s) # h)" using assms(1) unfolding pings_ok_def by fastforce
  have r: "pg_reader p = reader" "keep_sec p = 30" using assms(1) by (simp_all add: pings_ok_def)
  consider (deaf) "a \<notin> rd_audiences reader" "q = p" "\<not> b"
    | (held) t where "a \<in> rd_audiences reader" "map_of (kept p) (i, a) = Some (t, b)" "now - t < 30" "q = p"
    | (asked) "a \<in> rd_audiences reader" "b = reads_session reader i s"
        "q = p\<lparr>kept := AList.update (i, a) (now, b) (if most_kept p \<le> length (kept p) then [] else kept p)\<rparr>"
  proof (cases "a \<in> rd_audiences reader")
    case False
    then show thesis using assms(2) r deaf by (simp add: hears_def)
  next
    case True
    show thesis
    proof (cases "\<exists>t c. map_of (kept p) (i, a) = Some (t, c) \<and> now - t < 30")
      case held_now: True
      then obtain t c where t: "map_of (kept p) (i, a) = Some (t, c)" "now - t < 30" by blast
      then have "q = p" "b = c" using True assms(2) r by (simp_all add: hears_def Let_def)
      with t True show thesis by (intro held [of t]) simp_all
    next
      case False
      then have "hears now s i a p = (p\<lparr>kept := AList.update (i, a) (now, reads_session reader i s)
          (if most_kept p \<le> length (kept p) then [] else kept p)\<rparr>, reads_session reader i s)"
        using True r by (cases "map_of (kept p) (i, a)") (auto simp: hears_def Let_def)
      then have "b = reads_session reader i s" "q = p\<lparr>kept := AList.update (i, a) (now, reads_session reader i s)
          (if most_kept p \<le> length (kept p) then [] else kept p)\<rparr>" using assms(2) by (metis prod.inject)+
      with True show thesis by (intro asked) simp_all
    qed
  qed
  then show "pings_ok reader q ((now, s) # h)" "b \<longrightarrow> a \<in> rd_audiences reader"
    "a \<in> rd_audiences reader \<longrightarrow> (\<exists>t u. (t, u) \<in> set ((now, s) # h) \<and> now - 30 < t \<and> b = reads_session reader i u)"
  proof (atomize(full), cases)
    case held
    then have "((i, a), (t, b)) \<in> set (kept p)" by (simp add: map_of_SomeD)
    then obtain u where "(t, u) \<in> set h" "b = reads_session reader i u" using assms(1) unfolding pings_ok_def by blast
    moreover have "now - 30 < t" using held(3) by linarith
    ultimately have "\<exists>t u. (t, u) \<in> set ((now, s) # h) \<and> now - 30 < t \<and> b = reads_session reader i u" by auto
    then show "pings_ok reader q ((now, s) # h) \<and> (b \<longrightarrow> a \<in> rd_audiences reader)
      \<and> (a \<in> rd_audiences reader \<longrightarrow> (\<exists>t u. (t, u) \<in> set ((now, s) # h) \<and> now - 30 < t \<and> b = reads_session reader i u))"
      using held more by simp
  next
    case asked
    have "\<exists>t u. (t, u) \<in> set ((now, s) # h) \<and> now - 30 < t \<and> b = reads_session reader i u"
      by (intro exI [of _ now] exI [of _ s]) (simp add: asked(2))
    moreover have "pings_ok reader q ((now, s) # h)"
      unfolding asked(3) by (rule asked_kept [OF assms(1) asked(2)])
    ultimately show "pings_ok reader q ((now, s) # h) \<and> (b \<longrightarrow> a \<in> rd_audiences reader)
      \<and> (a \<in> rd_audiences reader \<longrightarrow> (\<exists>t u. (t, u) \<in> set ((now, s) # h) \<and> now - 30 < t \<and> b = reads_session reader i u))"
      using asked(1) by blast
  qed (use more in auto)
qed

lemma listens_ok: "listens reader p h \<Longrightarrow> pings_ok reader p h"
proof (induction rule: listens.induct)
  case begins
  then show ?case by (simp add: pings_ok_def Pings_def)
next
  case (pinged p h now s i a q b)
  then show ?case by (simp add: hears_ok(1))
qed

text \<open>Whatever the writes a stream is told of, the answer to a ping under an audience its viewer holds
  is what the transcript rule said of that session at most 30 seconds before, under another audience it is
  no, and the answers kept number at most 4,096.\<close>

theorem pings_answer:
  assumes "listens reader p h" "hears now s i a p = (q, b)"
  shows "(b \<longrightarrow> a \<in> rd_audiences reader)
       \<and> (a \<in> rd_audiences reader \<longrightarrow> (\<exists>t u. (t, u) \<in> set ((now, s) # h) \<and> now - 30 < t \<and> b = reads_session reader i u))
       \<and> length (kept q) \<le> 4096"
proof -
  note ok = hears_ok [OF listens_ok [OF assms(1)] assms(2)]
  have "length (kept q) \<le> 4096" using ok(1) by (simp add: pings_ok_def)
  with ok(2,3) show ?thesis by blast
qed

theorem pings_answer_witness:
  "\<exists>q. hears 5 (demo_tables OPEN ''b@lab.example'') 7 OPEN (Pings NOBODY) = (q, False) \<and> length (kept q) \<le> 4096"
proof -
  obtain q b where q: "hears 5 (demo_tables OPEN ''b@lab.example'') 7 OPEN (Pings NOBODY) = (q, b)"
    by (cases "hears 5 (demo_tables OPEN ''b@lab.example'') 7 OPEN (Pings NOBODY)") auto
  have "OPEN \<notin> rd_audiences NOBODY" by (simp add: NOBODY_def)
  with pings_answer [OF listens.begins q] q show ?thesis by auto
qed

end
