(* ===== verification/Session_Store.thy ===== *)
theory Session_Store
  imports Submit_Batches Session_Access
begin

text \<open>
  \<open>store/session.py\<close>, \<open>server/session_reaper.py\<close> and the route of
  \<open>server/api/session_audience_routes.py\<close>: how a session opens, resumes, ends, is reaped when it
  falls silent and revived when it comes back, and how its audience moves. The state is the store
  and the table \<open>session_liveness\<close>. An instant counts microseconds. A failed operation leaves the state as it was, its slot
  included: the request ends with it. Where the code empties the slot before it raises, and where it
  goes on after a failure (\<open>start_session\<close>), the slot is as the code leaves it. The users and
  keys of the server are the argument \<open>opener\<close>, the email behind an API key.
\<close>

section \<open>State\<close>

record liveness_row =
  last_seen :: int
  reaped :: bool
  lv_machine :: "string option"
  lv_run :: "string option"
  lv_cli :: "string option"
  lv_cwd :: "string option"

record world =
  tables :: store
  liveness :: "uuid \<Rightarrow> liveness_row option"

text \<open>The hooks of the access policy that hear a session's audience move.\<close>

record audience_policy =
  prepare_audience_change :: "store \<Rightarrow> unit res"
  on_audience :: "uuid \<Rightarrow> string \<Rightarrow> store \<Rightarrow> unit res"

record run_place =
  rp_machine :: "string option"
  rp_run :: "string option"
  rp_cli :: "string option"
  rp_cwd :: "string option"

record past_run =
  pr_session :: uuid
  pr_cli :: string
  pr_run :: "string option"
  pr_cwd :: "string option"
  pr_last_seen :: int
  pr_ended :: "int option"

text \<open>The store another statement left; a session that is gone takes its liveness with it (\<open>ON DELETE
  CASCADE\<close>).\<close>

definition with_tables :: "store \<Rightarrow> world \<Rightarrow> world" where
  "with_tables t w = w\<lparr>tables := t, liveness := (\<lambda>i. if inquiries t i = None then None else liveness w i)\<rparr>"

definition world_tx :: "(world \<Rightarrow> (world \<times> 'a) res) \<Rightarrow> world \<Rightarrow> world \<times> 'a res" where
  "world_tx f w =
     in_tx (\<lambda>w. bind_res (f (w\<lparr>tables := (tables w)\<lparr>buffer := []\<rparr>\<rparr>))
       (\<lambda>(v, x). Inr (v\<lparr>tables := (tables v)\<lparr>published := published (tables v) @ buffer (tables v), buffer := []\<rparr>\<rparr>, x))) w"

definition ended_of :: "inquiry \<Rightarrow> int option" where
  "ended_of r = (case iq_columns r SessionEnded of Some (VTime n) \<Rightarrow> Some n | _ \<Rightarrow> None)"

text \<open>\<open>UPDATE inquiries SET agentsession_ended, status, modified\<close>: one statement.\<close>

definition moved_row :: "int option \<Rightarrow> string \<Rightarrow> nat \<Rightarrow> inquiry \<Rightarrow> inquiry" where
  "moved_row ended status m r =
     r\<lparr>iq_columns := (iq_columns r)(SessionEnded := map_option VTime ended, Status := Some (VStr status)), iq_modified := m\<rparr>"

definition move_session :: "uuid \<Rightarrow> int option \<Rightarrow> string \<Rightarrow> store \<Rightarrow> store res" where
  "move_session i ended status s =
     update_inquiry_row i (moved_row ended status (clock s)) (s\<lparr>clock := Suc (clock s)\<rparr>)"

text \<open>\<open>_emit_field_change\<close> of a session's column, with no reason.\<close>

definition log_move ::
  "uuid \<Rightarrow> column \<Rightarrow> cval option \<Rightarrow> cval option \<Rightarrow> uuid option \<Rightarrow> string \<Rightarrow> store \<Rightarrow> store res" where
  "log_move i c v w key who s =
     bind_res (emit_field_change i AgentSession c v w key who [] [] s) (\<lambda>(t, cid, subs). Inr t)"

section \<open>Ending\<close>

definition backfill_cli_id ::
  "uuid \<Rightarrow> inquiry \<Rightarrow> string option \<Rightarrow> uuid option \<Rightarrow> string \<Rightarrow> store \<Rightarrow> store res" where
  "backfill_cli_id i r cid key who s =
     (case cid of
        None \<Rightarrow> Inr s
      | Some x \<Rightarrow>
          if text_column r SessionCliId = Some x then Inr s
          else bind_res (update_field i SessionCliId (Some (VStr x)) s)
            (log_move i SessionCliId (iq_columns r SessionCliId) (Some (VStr x)) key who))"

definition log_status :: "uuid \<Rightarrow> inquiry \<Rightarrow> string \<Rightarrow> uuid option \<Rightarrow> string \<Rightarrow> store \<Rightarrow> store res" where
  "log_status i r status key who s =
     (if iq_columns r Status = Some (VStr status) then Inr s
      else log_move i Status (iq_columns r Status) (Some (VStr status)) key who s)"

definition end_on_conn ::
  "uuid \<Rightarrow> inquiry \<Rightarrow> int \<Rightarrow> string option \<Rightarrow> uuid option \<Rightarrow> string \<Rightarrow> store \<Rightarrow> store res" where
  "end_on_conn i r ended cid key who s =
     bind_res (backfill_cli_id i r cid key who s) (\<lambda>s1.
     bind_res (move_session i (Some ended) ''complete'' s1) (\<lambda>s2.
     bind_res (log_move i SessionEnded None (Some (VTime ended)) key who s2)
       (log_status i r ''complete'' key who)))"

definition end_session_on_conn ::
  "uuid \<Rightarrow> int \<Rightarrow> string option \<Rightarrow> uuid option \<Rightarrow> string \<Rightarrow> store \<Rightarrow> (store \<times> int) res" where
  "end_session_on_conn i ended cid key who s =
     (case inquiries s i of
        None \<Rightarrow> Inl NotFoundError
      | Some r \<Rightarrow>
          if iq_kind r \<noteq> AgentSession then Inl ConflictError
          else case ended_of r of
            Some was \<Rightarrow>
              (case peek_client_change_id s of
                 Some k \<Rightarrow>
                   if \<exists>c \<in> set (change_log s). change_id c = k \<and> subject_id c = i
                   then Inr (set_client_change_id None s, was)
                   else Inl ConflictError
               | None \<Rightarrow> Inl ConflictError)
          | None \<Rightarrow> bind_res (end_on_conn i r ended cid key who s) (\<lambda>t. Inr (t, ended)))"

definition on_tables :: "(store \<Rightarrow> (store \<times> 'a) res) \<Rightarrow> world \<Rightarrow> (world \<times> 'a) res" where
  "on_tables f w = bind_res (f (tables w)) (\<lambda>(t, x). Inr (w\<lparr>tables := t\<rparr>, x))"

definition already_ended :: "uuid \<Rightarrow> store \<Rightarrow> bool" where
  "already_ended i s \<longleftrightarrow> (case session_row s i of None \<Rightarrow> False | Some r \<Rightarrow> ended_of r \<noteq> None)"

text \<open>A refused second close empties the slot before it raises.\<close>

definition end_session ::
  "uuid \<Rightarrow> int \<Rightarrow> string option \<Rightarrow> uuid option \<Rightarrow> string \<Rightarrow> world \<Rightarrow> world \<times> int res" where
  "end_session i ended cid key who w =
     (case world_tx (on_tables (end_session_on_conn i ended cid key who)) w of
        (v, Inl e) \<Rightarrow> (if already_ended i (tables w) then v\<lparr>tables := set_client_change_id None (tables v)\<rparr> else v, Inl e)
      | (v, Inr x) \<Rightarrow> (v, Inr x))"

section \<open>Reopening\<close>

definition reopen_on_conn :: "uuid \<Rightarrow> inquiry \<Rightarrow> uuid option \<Rightarrow> string \<Rightarrow> world \<Rightarrow> world res" where
  "reopen_on_conn i r key who w =
     bind_res (move_session i None ''active'' (tables w)) (\<lambda>s1.
       let l = (liveness w)(i := map_option (\<lambda>x. x\<lparr>reaped := False, last_seen := int (clock s1)\<rparr>) (liveness w i))
       in bind_res (log_move i SessionEnded (iq_columns r SessionEnded) None key who (s1\<lparr>clock := Suc (clock s1)\<rparr>)) (\<lambda>s2.
          bind_res (log_status i r ''active'' key who s2) (\<lambda>s3. Inr (w\<lparr>tables := s3, liveness := l\<rparr>))))"

definition reopen_session :: "uuid \<Rightarrow> string \<Rightarrow> world \<Rightarrow> world res" where
  "reopen_session i who w =
     (case inquiries (tables w) i of
        None \<Rightarrow> Inl NotFoundError
      | Some r \<Rightarrow>
          if iq_kind r \<noteq> AgentSession then Inl ConflictError
          else if ended_of r \<noteq> None then reopen_on_conn i r None who w
          else Inr w)"

section \<open>Liveness\<close>

definition SEEN_WRITE_EVERY :: int where "SEEN_WRITE_EVERY = 60000000"

definition kept_or :: "'a option \<Rightarrow> 'a option \<Rightarrow> 'a option" where
  "kept_or x y0 = (case x of None \<Rightarrow> y0 | Some y \<Rightarrow> Some y)"

text \<open>The upsert of a poll, and the refresh of any other sign of life; the first is held to the key of
  the session's row.\<close>

definition record_session_seen :: "uuid \<Rightarrow> int \<Rightarrow> bool \<Rightarrow> run_place option \<Rightarrow> world \<Rightarrow> world \<times> unit res" where
  "record_session_seen i now polled place w =
     (if \<not> polled
      then (w\<lparr>liveness := (liveness w)(i := map_option
              (\<lambda>x. if last_seen x < now - SEEN_WRITE_EVERY then x\<lparr>last_seen := now\<rparr> else x) (liveness w i))\<rparr>, Inr ())
      else
        let p = (case place of None \<Rightarrow> \<lparr>rp_machine = None, rp_run = None, rp_cli = None, rp_cwd = None\<rparr> | Some p \<Rightarrow> p) in
        case liveness w i of
          None \<Rightarrow>
            if inquiries (tables w) i = None then (w, Inl ForeignKeyViolation)
            else (w\<lparr>liveness := (liveness w)(i \<mapsto> \<lparr>last_seen = now, reaped = False, lv_machine = rp_machine p,
                     lv_run = rp_run p, lv_cli = rp_cli p, lv_cwd = rp_cwd p\<rparr>)\<rparr>, Inr ())
        | Some x \<Rightarrow>
            if last_seen x < now - SEEN_WRITE_EVERY \<or> (rp_machine p \<noteq> None \<and> lv_machine x \<noteq> rp_machine p)
            then (w\<lparr>liveness := (liveness w)(i \<mapsto> x\<lparr>last_seen := now, lv_machine := kept_or (rp_machine p) (lv_machine x),
                     lv_run := kept_or (rp_run p) (lv_run x), lv_cli := kept_or (rp_cli p) (lv_cli x),
                     lv_cwd := kept_or (rp_cwd p) (lv_cwd x)\<rparr>)\<rparr>, Inr ())
            else (w, Inr ()))"

text \<open>\<open>ORDER BY\<close> a column, then the id.\<close>

definition by_time :: "(uuid \<Rightarrow> int) \<Rightarrow> uuid list \<Rightarrow> uuid list" where
  "by_time f xs = sort_key f (sort xs)"

definition seen_of :: "world \<Rightarrow> uuid \<Rightarrow> int" where
  "seen_of w i = (case liveness w i of None \<Rightarrow> 0 | Some x \<Rightarrow> last_seen x)"

definition past_runs :: "string \<Rightarrow> string \<Rightarrow> nat \<Rightarrow> world \<Rightarrow> past_run list" where
  "past_runs machine account limit w =
     (let its = filter (\<lambda>i. case (inquiries (tables w) i, liveness w i) of
              (Some r, Some x) \<Rightarrow> lv_machine x = Some machine \<and> lv_cli x \<noteq> None \<and> lower (account_of r) = lower account
            | _ \<Rightarrow> False) (iq_ids (tables w))
      in map (\<lambda>i. let r = the (inquiries (tables w) i); x = the (liveness w i) in
            \<lparr>pr_session = i, pr_cli = the (lv_cli x), pr_run = lv_run x, pr_cwd = lv_cwd x,
             pr_last_seen = last_seen x, pr_ended = ended_of r\<rparr>)
          (take limit (by_time (\<lambda>i. - seen_of w i) its)))"

definition silent :: "int \<Rightarrow> world \<Rightarrow> uuid \<Rightarrow> bool" where
  "silent before w i \<longleftrightarrow>
     (case (inquiries (tables w) i, liveness w i) of
        (Some r, Some x) \<Rightarrow> \<not> reaped x \<and> last_seen x \<le> before \<and> ended_of r = None
      | _ \<Rightarrow> False)"

definition silent_sessions :: "int \<Rightarrow> world \<Rightarrow> uuid list" where
  "silent_sessions before w = by_time (seen_of w) (filter (silent before w) (iq_ids (tables w)))"

definition reap_on_conn :: "uuid \<Rightarrow> int \<Rightarrow> string \<Rightarrow> world \<Rightarrow> (world \<times> int option) res" where
  "reap_on_conn i before who w =
     (case (inquiries (tables w) i, liveness w i) of
        (Some r, Some x) \<Rightarrow>
          if reaped x \<or> before < last_seen x \<or> ended_of r \<noteq> None then Inr (w, None)
          else bind_res (end_on_conn i r (last_seen x) None None who (tables w)) (\<lambda>t.
            Inr (w\<lparr>tables := t, liveness := (liveness w)(i \<mapsto> x\<lparr>reaped := True\<rparr>)\<rparr>, Some (last_seen x)))
      | _ \<Rightarrow> Inr (w, None))"

definition reap_session :: "uuid \<Rightarrow> int \<Rightarrow> string \<Rightarrow> world \<Rightarrow> world \<times> int option res" where
  "reap_session i before who w = world_tx (reap_on_conn i before who) w"

definition revive_on_conn :: "uuid \<Rightarrow> string \<Rightarrow> world \<Rightarrow> (world \<times> bool) res" where
  "revive_on_conn i who w =
     (case (inquiries (tables w) i, liveness w i) of
        (Some r, Some x) \<Rightarrow>
          if \<not> reaped x \<or> ended_of r = None then Inr (w, False)
          else bind_res (reopen_on_conn i r None who w) (\<lambda>v. Inr (v, True))
      | _ \<Rightarrow> Inr (w, False))"

definition revive_reaped_session :: "uuid \<Rightarrow> string \<Rightarrow> world \<Rightarrow> world \<times> bool res" where
  "revive_reaped_session i who w = world_tx (revive_on_conn i who) w"

text \<open>The reaper: fifteen minutes of silence. The list is read once; \<open>release\<close> forgets the poller and
  drains the queue of a session that closed. An error ends the pass.\<close>

definition STALE_AFTER :: int where "STALE_AFTER = 900000000"
definition REAPER_ACTOR :: string where "REAPER_ACTOR = ''trackinizer''"

fun reap_each ::
  "int \<Rightarrow> (uuid \<Rightarrow> 'q \<Rightarrow> 'q) \<Rightarrow> uuid list \<Rightarrow> world \<Rightarrow> 'q \<Rightarrow> nat \<Rightarrow> world \<times> 'q \<times> nat res" where
  "reap_each before release [] w q n = (w, q, Inr n)"
| "reap_each before release (i # ids) w q n =
     (case reap_session i before REAPER_ACTOR w of
        (v, Inl e) \<Rightarrow> (v, q, Inl e)
      | (v, Inr None) \<Rightarrow> reap_each before release ids v q n
      | (v, Inr (Some t)) \<Rightarrow> reap_each before release ids v (release i q) (Suc n))"

definition reap_silent_sessions ::
  "(uuid \<Rightarrow> 'q \<Rightarrow> 'q) \<Rightarrow> int \<Rightarrow> world \<Rightarrow> 'q \<Rightarrow> world \<times> 'q \<times> nat res" where
  "reap_silent_sessions release now w q =
     (let before = now - STALE_AFTER in reap_each before release (silent_sessions before w) w q 0)"

end
