(* ===== verification/Session_Starts.thy ===== *)
theory Session_Starts
  imports Session_Store
begin

text \<open>
  \<open>store/session.py\<close>, how a session opens: the reservation of its name, the resume and the attach,
  the start with its retries, then the reads messaging makes and the moves of an audience with
  the route a person asks them by. What other requests do between two statements of \<open>start_session\<close>
  is an argument: a \<open>gap\<close> gives, from the store a reservation read, the store the insert's
  replay probe sees and the store it writes to.
\<close>

section \<open>Reserving a name\<close>

definition session_ids :: "store \<Rightarrow> uuid list" where
  "session_ids s = filter (\<lambda>i. session_row s i \<noteq> None) (iq_ids s)"

definition session_owners :: "store \<Rightarrow> string list" where
  "session_owners s = List.map_filter (\<lambda>i. case session_row s i of None \<Rightarrow> None | Some r \<Rightarrow> iq_owner r) (iq_ids s)"

definition suffixed :: "string \<Rightarrow> nat \<Rightarrow> string" where
  "suffixed requested n = requested @ ''#'' @ show_nat n"

definition taken_names :: "string \<Rightarrow> store \<Rightarrow> string list" where
  "taken_names requested s = filter (\<lambda>x. x = requested \<or> prefix (requested @ ''#'') x) (session_owners s)"

text \<open>The loop ends: the names tried differ, and finitely many are taken.\<close>

lemma suffixed_inject [simp]: "suffixed x m = suffixed x n \<longleftrightarrow> m = n"
proof
  assume "suffixed x m = suffixed x n"
  then have "read_nat (show_nat m) = read_nat (show_nat n)" by (simp add: suffixed_def)
  then show "m = n" by simp
qed simp

function next_suffix :: "string \<Rightarrow> string list \<Rightarrow> nat \<Rightarrow> nat" where
  "next_suffix requested taken n =
     (if suffixed requested n \<in> set taken then next_suffix requested taken (Suc n) else n)"
  by pat_completeness auto
termination
proof (relation "measure (\<lambda>(requested, taken, n). card {m. n \<le> m \<and> suffixed requested m \<in> set taken})")
  fix requested :: string and taken :: "string list" and n
  assume taken: "suffixed requested n \<in> set taken"
  let ?M = "\<lambda>n. {m. n \<le> m \<and> suffixed requested m \<in> set taken}"
  have "inj (suffixed requested)" by (simp add: inj_on_def)
  then have "finite {m. suffixed requested m \<in> set taken}"
    using finite_vimageI [of "set taken" "suffixed requested"] by (simp add: vimage_def)
  then have "finite (?M n)" by (rule rev_finite_subset) blast
  moreover have "?M (Suc n) \<subset> ?M n"
  proof
    show "?M (Suc n) \<subseteq> ?M n" by auto
    have "n \<in> ?M n" "n \<notin> ?M (Suc n)" using taken by simp_all
    then show "?M (Suc n) \<noteq> ?M n" by blast
  qed
  ultimately show "((requested, taken, Suc n), requested, taken, n)
      \<in> measure (\<lambda>(requested, taken, n). card {m. n \<le> m \<and> suffixed requested m \<in> set taken})"
    by (simp add: psubset_card_mono)
qed simp

declare next_suffix.simps [simp del]

definition reserve_session_actor :: "string \<Rightarrow> store \<Rightarrow> string" where
  "reserve_session_actor requested s =
     (let taken = taken_names requested s
      in if requested \<notin> set taken then requested else suffixed requested (next_suffix requested taken 2))"

section \<open>Resuming\<close>

definition hide_resumed ::
  "audience_policy \<Rightarrow> uuid \<Rightarrow> inquiry \<Rightarrow> uuid option \<Rightarrow> string \<Rightarrow> store \<Rightarrow> store res" where
  "hide_resumed pol i r key who s =
     (let held = (case text_column r SessionAudience of None \<Rightarrow> [] | Some a \<Rightarrow> a) in
      if held = PRIVATE then Inr s
      else if held \<noteq> OPEN then Inl ConflictError
      else bind_res (update_field i SessionAudience (Some (VStr PRIVATE)) s) (\<lambda>t.
           bind_res (emit_field_change i AgentSession SessionAudience (Some (VStr held)) (Some (VStr PRIVATE)) key who
             ''hidden by its owner on resume'' [] t) (\<lambda>(u, cid, subs).
           bind_res (on_audience pol i (account_of r) u) (\<lambda>_. Inr u))))"

definition join_rooms :: "uuid \<Rightarrow> string list \<Rightarrow> uuid option \<Rightarrow> string \<Rightarrow> store \<Rightarrow> store res" where
  "join_rooms i rooms key who =
     each_res (\<lambda>room s. bind_res (mutate_list_field_on_conn strs_shape i room SessionRooms key who [] True no_check s)
       (\<lambda>(t, cid). Inr t)) rooms"

text \<open>The session to re-attach: by id, or the first the same key opened under this CLI id.\<close>

definition resumable :: "string option \<Rightarrow> uuid option \<Rightarrow> uuid option \<Rightarrow> store \<Rightarrow> uuid option" where
  "resumable cid key attach s =
     (case attach of
        Some i \<Rightarrow> if session_row s i = None then None else Some i
      | None \<Rightarrow>
          (case sort_key (\<lambda>i. case inquiries s i of None \<Rightarrow> 0 | Some r \<Rightarrow> iq_seq r)
              (filter (\<lambda>i. case session_row s i of None \<Rightarrow> False
                 | Some r \<Rightarrow> cid \<noteq> None \<and> text_column r SessionCliId = cid \<and> opener_of r = key) (iq_ids s)) of
             [] \<Rightarrow> None
           | i # is \<Rightarrow> Some i))"

definition next_event_seq :: "uuid \<Rightarrow> nat" where
  "next_event_seq i = 0"

definition resume_on_conn ::
  "audience_policy \<Rightarrow> string option \<Rightarrow> string list \<Rightarrow> uuid option \<Rightarrow> string \<Rightarrow> bool \<Rightarrow> uuid option \<Rightarrow> world
   \<Rightarrow> (world \<times> (uuid \<times> string \<times> nat) option) res" where
  "resume_on_conn pol cid rooms key who hide attach w =
     bind_res (if hide then prepare_audience_change pol (tables w) else Inr ()) (\<lambda>_.
       case resumable cid key attach (tables w) of
         None \<Rightarrow> Inr (w, None)
       | Some i \<Rightarrow>
           (case session_row (tables w) i of
              None \<Rightarrow> Inr (w, None)
            | Some r \<Rightarrow>
                bind_res (if hide then hide_resumed pol i r key who (tables w) else Inr (tables w)) (\<lambda>s1.
                bind_res (if ended_of r \<noteq> None then reopen_on_conn i r key who (w\<lparr>tables := s1\<rparr>) else Inr (w\<lparr>tables := s1\<rparr>)) (\<lambda>w1.
                bind_res (join_rooms i rooms key who (tables w1)) (\<lambda>s2.
                  Inr (w1\<lparr>tables := s2\<rparr>, Some (i, case iq_owner r of None \<Rightarrow> [] | Some x \<Rightarrow> x, next_event_seq i)))))))"

definition resume_session where
  "resume_session pol cid rooms key who hide attach w =
     world_tx (resume_on_conn pol cid rooms key who hide attach) w"

section \<open>Starting\<close>

type_synonym gap = "store \<Rightarrow> store \<times> store"

type_synonym receipt = "uuid \<times> string \<times> nat"

definition name_live :: "string \<Rightarrow> store \<Rightarrow> bool" where
  "name_live name s \<longleftrightarrow> (\<exists>i \<in> set (iq_ids s). case inquiries s i of None \<Rightarrow> False | Some r \<Rightarrow> live_session_owner r = Some name)"

definition read_back :: "uuid \<Rightarrow> store \<Rightarrow> receipt res" where
  "read_back i s =
     (case inquiries s i of
        None \<Rightarrow> Inl AssertionError
      | Some r \<Rightarrow> (case iq_owner r of None \<Rightarrow> Inl AssertionError | Some x \<Rightarrow> Inr (i, x, next_event_seq i)))"

text \<open>One attempt for each gap. The slot is this request's own, whatever other requests do. A unique
  violation is the live name's when a live session has the name: the row is inserted before anything
  is logged.\<close>

fun start_attempts ::
  "(uuid \<Rightarrow> string \<Rightarrow> store \<Rightarrow> unit res) \<Rightarrow> submit_base \<Rightarrow> submit_body \<Rightarrow> string \<Rightarrow> string \<Rightarrow> uuid option \<Rightarrow> gap list
   \<Rightarrow> store \<Rightarrow> store \<times> receipt res" where
  "start_attempts grant b body requested aud key [] s = (s, Inl ConflictError)"
| "start_attempts grant b body requested aud key (gap # gaps) s =
     (let granted = reserve_session_actor requested s; (seen, s1) = gap s;
          s1 = set_client_change_id (client_change_id s) s1
      in case submit grant (b\<lparr>sb_owner := Some granted\<rparr>) body key granted (Some aud) seen s1 of
           (t, Inr i) \<Rightarrow> (t, read_back i t)
         | (t, Inl e) \<Rightarrow>
             if e = UniqueViolation \<and> name_live granted s1
             then start_attempts grant b body requested aud key gaps t
             else (t, Inl e))"

fun session_cli_id :: "submit_body \<Rightarrow> string option" where
  "session_cli_id (SubmitAgentSession cli cid started rooms) = cid"
| "session_cli_id body = None"

fun session_rooms :: "submit_body \<Rightarrow> string list" where
  "session_rooms (SubmitAgentSession cli cid started rooms) = (case rooms of None \<Rightarrow> [] | Some xs \<Rightarrow> xs)"
| "session_rooms body = []"

text \<open>The replay before the reservation.\<close>

definition start_replay :: "submit_base \<Rightarrow> store \<Rightarrow> (store \<times> receipt) option res" where
  "start_replay b s =
     (case effective_key b s of
        None \<Rightarrow> Inr None
      | Some k \<Rightarrow>
          bind_res (lookup_existing_by_change k AgentSession s) (\<lambda>x.
            case x of
              None \<Rightarrow> Inr None
            | Some i \<Rightarrow> bind_res (read_back i s) (\<lambda>got. Inr (Some (set_client_change_id None s, got)))))"

definition start_session ::
  "audience_policy \<Rightarrow> (uuid \<Rightarrow> string \<Rightarrow> store \<Rightarrow> unit res) \<Rightarrow> submit_base \<Rightarrow> submit_body \<Rightarrow> string \<Rightarrow> string
   \<Rightarrow> uuid option \<Rightarrow> uuid option \<Rightarrow> gap list \<Rightarrow> world \<Rightarrow> world \<times> receipt res" where
  "start_session pol grant b body requested aud key attach gaps w =
     (case attach of
        Some i \<Rightarrow>
          (case resume_session pol None (session_rooms body) key requested (aud = PRIVATE) (Some i) w of
             (v, Inl e) \<Rightarrow> (v, Inl e)
           | (v, Inr None) \<Rightarrow> (v, Inl NotFoundError)
           | (v, Inr (Some got)) \<Rightarrow> (v, Inr got))
      | None \<Rightarrow>
          (case (if session_cli_id body = None then (w, Inr None)
                 else resume_session pol (session_cli_id body) (session_rooms body) key requested (aud = PRIVATE) None w) of
             (v, Inl e) \<Rightarrow> (v, Inl e)
           | (v, Inr (Some got)) \<Rightarrow> (v, Inr got)
           | (v, Inr None) \<Rightarrow>
               (case start_replay b (tables v) of
                  Inl e \<Rightarrow> (v, Inl e)
                | Inr (Some (s, got)) \<Rightarrow> (v\<lparr>tables := s\<rparr>, Inr got)
                | Inr None \<Rightarrow>
                    let (s, got) = start_attempts grant b body requested aud key gaps (tables v)
                    in (with_tables s v, got))))"

text \<open>The default of \<open>max_reserve_attempts\<close>: one gap for each attempt.\<close>

definition MAX_RESERVE_ATTEMPTS :: nat where "MAX_RESERVE_ATTEMPTS = 16"

section \<open>Addressing\<close>

definition rooms_of :: "inquiry \<Rightarrow> string list" where
  "rooms_of r = (case iq_columns r SessionRooms of Some (VStrs xs) \<Rightarrow> xs | _ \<Rightarrow> [])"

definition resolve_live_sessions :: "string \<Rightarrow> string option \<Rightarrow> store \<Rightarrow> (uuid \<times> string list) list" where
  "resolve_live_sessions who room s =
     map (\<lambda>i. (i, rooms_of (the (inquiries s i))))
       (sort_key (\<lambda>i. iq_created (the (inquiries s i)))
         (sort (filter (\<lambda>i. case session_row s i of None \<Rightarrow> False
            | Some r \<Rightarrow> ended_of r = None \<and> iq_owner r = Some who
                \<and> (case room of None \<Rightarrow> True | Some x \<Rightarrow> x \<in> set (rooms_of r))) (iq_ids s))))"

definition read_push_audiences :: "uuid list \<Rightarrow> store \<Rightarrow> uuid \<Rightarrow> string option option" where
  "read_push_audiences ids s i =
     (if i \<notin> set ids then None
      else case session_row s i of
        None \<Rightarrow> None
      | Some r \<Rightarrow> if prefix CHAT_SESSION_PREFIX (case text_column r SessionCliId of None \<Rightarrow> [] | Some x \<Rightarrow> x) then None
                  else Some (text_column r SessionAudience))"

section \<open>Moving an audience\<close>

definition session_owner_emails :: "(uuid \<Rightarrow> string option) \<Rightarrow> inquiry \<Rightarrow> string list" where
  "session_owner_emails opener r =
     filter (\<lambda>x. x \<noteq> [])
       [account_of r, case opener_of r of None \<Rightarrow> [] | Some k \<Rightarrow> (case opener k of None \<Rightarrow> [] | Some x \<Rightarrow> x)]"

text \<open>One locked row; the flag says whether it moved. A session with no audience fails to decode.\<close>

definition move_audience ::
  "audience_policy \<Rightarrow> (uuid \<Rightarrow> string option) \<Rightarrow> string \<Rightarrow> string set \<Rightarrow> uuid option \<Rightarrow> string \<Rightarrow> string \<Rightarrow> string option
   \<Rightarrow> uuid \<times> inquiry \<Rightarrow> store \<Rightarrow> (store \<times> bool) res" where
  "move_audience pol opener audience replacing key who why caller x s =
     (let (i, r) = x in
      case text_column r SessionAudience of
        None \<Rightarrow> Inl ValueError
      | Some held \<Rightarrow>
          if (case caller of None \<Rightarrow> False | Some c \<Rightarrow> \<not> may_hide c (session_owner_emails opener r) (Some held))
          then Inl AccessDeniedError
          else if held \<notin> replacing then Inr (s, False)
          else bind_res (update_field i SessionAudience (Some (VStr audience)) s) (\<lambda>t.
               bind_res (emit_field_change i AgentSession SessionAudience (Some (VStr held)) (Some (VStr audience)) key who
                 why [] t) (\<lambda>(u, cid, subs).
               bind_res (on_audience pol i (account_of r) u) (\<lambda>_. Inr (u, True)))))"

fun move_audiences ::
  "(uuid \<times> inquiry \<Rightarrow> store \<Rightarrow> (store \<times> bool) res) \<Rightarrow> (uuid \<times> inquiry) list \<Rightarrow> store \<Rightarrow> (store \<times> uuid list) res" where
  "move_audiences f [] s = Inr (s, [])"
| "move_audiences f (x # xs) s =
     bind_res (f x s) (\<lambda>(t, moved).
     bind_res (move_audiences f xs t) (\<lambda>(u, ids). Inr (u, if moved then fst x # ids else ids)))"

definition locked_sessions :: "uuid list \<Rightarrow> store \<Rightarrow> (uuid \<times> inquiry) list" where
  "locked_sessions ids s =
     List.map_filter (\<lambda>i. map_option (\<lambda>r. (i, r)) (session_row s i)) (sort (filter (\<lambda>i. i \<in> set ids) (iq_ids s)))"

definition set_session_audience_on_conn ::
  "audience_policy \<Rightarrow> (uuid \<Rightarrow> string option) \<Rightarrow> uuid list \<Rightarrow> string \<Rightarrow> string set \<Rightarrow> string set \<Rightarrow> uuid option \<Rightarrow> string
   \<Rightarrow> string \<Rightarrow> string option \<Rightarrow> store \<Rightarrow> (store \<times> uuid list) res" where
  "set_session_audience_on_conn pol opener ids audience replacing refusing key who why caller s =
     bind_res (prepare_audience_change pol s) (\<lambda>_.
       let rows = locked_sessions ids s in
       if \<exists>(i, r) \<in> set rows. case text_column r SessionAudience of None \<Rightarrow> False | Some a \<Rightarrow> a \<in> refusing
       then Inl ConflictError
       else move_audiences (move_audience pol opener audience replacing key who why caller) rows s)"

definition set_session_audience where
  "set_session_audience pol opener ids audience replacing refusing key who why caller w =
     world_tx (on_tables (set_session_audience_on_conn pol opener ids audience replacing refusing key who why caller)) w"

text \<open>\<open>set_session_audience_route\<close>: the session it answers for is read in \<open>s0\<close>, before the move.\<close>

datatype route_refusal = Unknown404 | Staff409 | NotOwner403 | Failed500 py_error

definition set_session_audience_route ::
  "audience_policy \<Rightarrow> (uuid \<Rightarrow> string option) \<Rightarrow> identity \<Rightarrow> uuid \<Rightarrow> string \<Rightarrow> store \<Rightarrow> world
   \<Rightarrow> world \<times> (route_refusal + uuid list)" where
  "set_session_audience_route pol opener who i audience s0 w =
     (case session_row s0 i of
        None \<Rightarrow> (w, Inl Unknown404)
      | Some r \<Rightarrow>
          let held = text_column r SessionAudience in
          if held = Some STAFF then (w, Inl Staff409)
          else if \<not> may_hide (id_email who) (session_owner_emails opener r) held then (w, Inl NotOwner403)
          else case set_session_audience pol opener [i] audience ({OPEN, PRIVATE} - {audience}) {STAFF} (id_key who)
                 (id_email who) (if audience = PRIVATE then ''hidden by its owner'' else ''shown again'')
                 (Some (id_email who)) w of
              (v, Inr ids) \<Rightarrow> (v, Inr ids)
            | (v, Inl e) \<Rightarrow> (v, Inl (if e = AccessDeniedError then NotOwner403 else if e = ConflictError then Staff409
                                     else Failed500 e)))"

end
