(* ===== verification/Session_Lemmas.thy ===== *)
theory Session_Lemmas
  imports Session_Starts
begin

text \<open>
  What the session operations keep and do. A lifecycle move is one statement that writes two columns
  and one emission for each, so it is followed as a statement and its emissions; from there every
  operation keeps the store sound and every liveness row with its session.
\<close>

section \<open>Statements\<close>

lemma world_tx_cases:
  obtains (rolled_back) e where "f (w\<lparr>tables := (tables w)\<lparr>buffer := []\<rparr>\<rparr>) = Inl e" "world_tx f w = (w, Inl e)"
  | (committed) v x where "f (w\<lparr>tables := (tables w)\<lparr>buffer := []\<rparr>\<rparr>) = Inr (v, x)"
      "world_tx f w = (v\<lparr>tables := (tables v)\<lparr>published := published (tables v) @ buffer (tables v), buffer := []\<rparr>\<rparr>, Inr x)"
  by (cases "f (w\<lparr>tables := (tables w)\<lparr>buffer := []\<rparr>\<rparr>)") (auto simp: world_tx_def in_tx_def)

lemma moved_row_simps [simp]:
  "iq_kind (moved_row e st m r) = iq_kind r" "iq_seq (moved_row e st m r) = iq_seq r"
  "iq_created (moved_row e st m r) = iq_created r" "iq_cost (moved_row e st m r) = iq_cost r"
  "iq_columns (moved_row e st m r) = (iq_columns r)(SessionEnded := map_option VTime e, Status := Some (VStr st))"
  by (simp_all add: moved_row_def)

lemma store_ok_clock:
  assumes "store_ok s" "clock s \<le> n"
  shows "store_ok (s\<lparr>clock := n\<rparr>)"
proof -
  have "edges_ok (s\<lparr>clock := n\<rparr>) = edges_ok s" by (rule edges_ok_cong) simp_all
  moreover have "log_ok (s\<lparr>clock := n\<rparr>)" using assms by (force simp: store_ok_def log_ok_def change_ids_def)
  moreover have "costs_ok (s\<lparr>clock := n\<rparr>)"
    by (rule costs_ok_mono [OF store_okD(1) [OF assms(1)]]) auto
  ultimately show ?thesis using assms by (simp add: store_ok_def)
qed

lemma update_row_sound:
  assumes up: "update_inquiry_row i f (s\<lparr>clock := Suc (clock s)\<rparr>) = Inr t" and ok: "sound s"
    and f: "\<And>r. iq_kind (f r) = iq_kind r" "\<And>r. iq_cost (f r) = iq_cost r" "\<And>r. iq_seq (f r) = iq_seq r"
  shows "sound t"
proof (cases "inquiries s i")
  case None
  with up have "t = s\<lparr>clock := Suc (clock s)\<rparr>" by (simp add: update_inquiry_row_def)
  moreover have "store_ok (s\<lparr>clock := Suc (clock s)\<rparr>)"
    by (rule store_ok_clock) (use ok in \<open>simp_all add: sound_def\<close>)
  ultimately show ?thesis using ok by (simp add: sound_def)
next
  case (Some r)
  with up have p: "place_inquiry_row i (f r) (s\<lparr>clock := Suc (clock s)\<rparr>) = Inr t" by (simp add: update_inquiry_row_def)
  have "store_ok t" by (rule store_ok_place [OF p _ _ Some]) (use ok f in \<open>simp_all add: sound_def\<close>)
  moreover have "rows_ok t" by (rule rows_ok_place [OF _ p]) (use ok f Some in \<open>simp_all add: sound_def\<close>)
  ultimately show ?thesis by (simp add: sound_def)
qed

lemma move_session_sound: "move_session i e st s = Inr t \<Longrightarrow> sound s \<Longrightarrow> sound t"
  unfolding move_session_def by (erule update_row_sound) simp_all

lemma update_field_sound: "update_field i c v s = Inr t \<Longrightarrow> sound s \<Longrightarrow> sound t"
  unfolding update_field_Inr by (elim conjE, erule update_row_sound) simp_all

lemma emit_field_sound:
  assumes "emit_field_change i k c v w key who why ex s = Inr (t, cid, subs)" "sound s"
  shows "sound t" "emitted s t" "client_change_id t = None"
proof -
  have e: "emitted s t" "client_change_id t = None"
    using emit_change_emitted [of _ True s t cid subs] assms(1) by (auto simp: emit_field_change_def)
  then show "emitted s t" "client_change_id t = None" .
  show "sound t" using assms(2) emitted_store_ok [OF e(1)] rows_ok_emitted [OF e(1)] by (simp add: sound_def)
qed

lemma log_moveE:
  assumes "log_move i c v w key who s = Inr t"
  obtains cid subs where "emit_field_change i AgentSession c v w key who [] [] s = Inr (t, cid, subs)"
  using assms by (auto simp: log_move_def bind_res_Inr_iff)

lemma log_move_sound:
  assumes "log_move i c v w key who s = Inr t" "sound s"
  shows "sound t" "emitted s t" "client_change_id t = None"
  using assms(1) by (elim log_moveE, blast intro: emit_field_sound [OF _ assms(2)])+

section \<open>The world's invariant\<close>

text \<open>The store is sound, and every liveness row is a row's.\<close>

definition world_sound :: "world \<Rightarrow> bool" where
  "world_sound w \<longleftrightarrow> sound (tables w) \<and> (\<forall>i. liveness w i \<noteq> None \<longrightarrow> inquiries (tables w) i \<noteq> None)"

text \<open>No row goes, and the log grows.\<close>

definition present :: "store \<Rightarrow> store \<Rightarrow> bool" where
  "present s t \<longleftrightarrow> prefix (change_log s) (change_log t) \<and> (\<forall>i. inquiries s i \<noteq> None \<longrightarrow> inquiries t i \<noteq> None)"

lemma present_refl [simp]: "present s s"
  by (simp add: present_def)

lemma present_trans: "present s t \<Longrightarrow> present t u \<Longrightarrow> present s u"
  unfolding present_def by (meson prefix_order.trans)

lemma present_state [simp]:
  "present (s\<lparr>clock := n\<rparr>) t = present s t" "present (s\<lparr>buffer := b\<rparr>) t = present s t"
  "present s (t\<lparr>buffer := b\<rparr>) = present s t" "present s (t\<lparr>published := p\<rparr>) = present s t"
  "present s (set_client_change_id k t) = present s t"
  by (simp_all add: present_def set_client_change_id_def)

lemma emission_present: "emitted s t \<Longrightarrow> present s t"
  unfolding present_def emitted_def wrote_def by (metis rows_kept_present prefix_def)

lemma update_row_present: "update_inquiry_row i f s = Inr t \<Longrightarrow> present s t"
  by (auto simp: present_def update_inquiry_row_def place_inquiry_row_Inr split: option.splits)

lemma move_session_present: "move_session i e st s = Inr t \<Longrightarrow> present s t"
  unfolding move_session_def by (drule update_row_present) simp

lemma update_field_present: "update_field i c v s = Inr t \<Longrightarrow> present s t"
  unfolding update_field_Inr by (elim conjE, drule update_row_present) simp

lemma mutate_list_present:
  assumes "mutate_list_field_on_conn sh i x c key who why inc check s = Inr (t, res)" "sound s" "shape_ok sh"
  shows "present s t"
proof -
  have "wrote_field i c w key who why cid s t \<Longrightarrow> present s t" for w cid
    unfolding present_def by (elim wrote_fieldE) (metis column_written_present prefixI)
  then show ?thesis
    by (cases rule: mutate_list_cases [OF assms(1)]) (use assms(2,3) in \<open>auto simp: sound_def present_def\<close>)
qed

text \<open>An operation on the tables keeps the world: it stays sound, and no row goes.\<close>

definition keeps :: "store \<Rightarrow> store \<Rightarrow> bool" where
  "keeps s t \<longleftrightarrow> sound s \<longrightarrow> sound t \<and> present s t"

lemma keeps_refl [simp]: "keeps s s"
  by (simp add: keeps_def)

lemma keeps_trans: "keeps s t \<Longrightarrow> keeps t u \<Longrightarrow> keeps s u"
  unfolding keeps_def by (blast intro: present_trans)

lemma move_session_keeps: "move_session i e st s = Inr t \<Longrightarrow> keeps s t"
  by (simp add: keeps_def move_session_sound move_session_present)

lemma update_field_keeps: "update_field i c v s = Inr t \<Longrightarrow> keeps s t"
  by (simp add: keeps_def update_field_sound update_field_present)

lemma emit_field_keeps: "emit_field_change i k c v w key who why ex s = Inr (t, cid, subs) \<Longrightarrow> keeps s t"
  unfolding keeps_def by (blast intro: emit_field_sound emission_present)

lemma log_move_keeps: "log_move i c v w key who s = Inr t \<Longrightarrow> keeps s t"
  by (erule log_moveE) (rule emit_field_keeps)

lemma log_status_keeps: "log_status i r st key who s = Inr t \<Longrightarrow> keeps s t"
  by (auto simp: log_status_def split: if_splits intro: log_move_keeps)

lemma keeps_clock: "keeps s (s\<lparr>clock := Suc (clock s)\<rparr>)"
proof -
  have "sound s \<Longrightarrow> sound (s\<lparr>clock := Suc (clock s)\<rparr>)"
    using store_ok_clock [of s "Suc (clock s)"] by (simp add: sound_def)
  then show ?thesis by (simp add: keeps_def present_def)
qed

lemmas keeps_rules = move_session_keeps update_field_keeps emit_field_keeps log_move_keeps log_status_keeps

lemma backfill_keeps: "backfill_cli_id i r cid key who s = Inr t \<Longrightarrow> keeps s t"
  by (auto simp: backfill_cli_id_def bind_res_Inr_iff split: option.splits if_splits intro: keeps_trans dest!: keeps_rules)

lemma end_on_conn_keeps:
  assumes "end_on_conn i r ended cid key who s = Inr t"
  shows "keeps s t"
proof -
  obtain s1 s2 s3 where "backfill_cli_id i r cid key who s = Inr s1" "move_session i (Some ended) ''complete'' s1 = Inr s2"
    "log_move i SessionEnded None (Some (VTime ended)) key who s2 = Inr s3" "log_status i r ''complete'' key who s3 = Inr t"
    using assms by (auto simp: end_on_conn_def bind_res_Inr_iff)
  then show ?thesis by (blast dest: backfill_keeps keeps_rules intro: keeps_trans)
qed

lemma join_rooms_keeps:
  assumes "join_rooms i rooms key who s = Inr t"
  shows "keeps s t"
proof -
  have "keeps s t" if "sound s"
    using assms unfolding join_rooms_def
  proof (rule each_res_keeps [where I = "\<lambda>u. sound u \<and> keeps s u", THEN conjunct2])
    show "sound s \<and> keeps s s" using that by simp
    fix room u v
    assume f: "bind_res (mutate_list_field_on_conn strs_shape i room SessionRooms key who [] True no_check u)
         (\<lambda>(t, cid). Inr t) = Inr v" and u: "sound u \<and> keeps s u"
    then obtain cid where m: "mutate_list_field_on_conn strs_shape i room SessionRooms key who [] True no_check u = Inr (v, cid)"
      by (auto simp: bind_res_Inr_iff)
    have "sound v" using mutate_list_follows [OF m] u by (simp add: follows_def)
    moreover have "present u v" by (rule mutate_list_present [OF m]) (use u in simp_all)
    ultimately show "sound v \<and> keeps s v" using u that by (auto simp: keeps_def intro: present_trans)
  qed
  then show ?thesis by (auto simp: keeps_def)
qed

lemma hide_resumed_keeps: "hide_resumed pol i r key who s = Inr t \<Longrightarrow> keeps s t"
  by (auto simp: hide_resumed_def Let_def bind_res_Inr_iff split: if_splits intro: keeps_trans dest!: keeps_rules)

lemma move_audience_keeps: "move_audience pol opener aud repl key who why caller x s = Inr (t, moved) \<Longrightarrow> keeps s t"
  by (auto simp: move_audience_def bind_res_Inr_iff split: if_splits option.splits prod.splits intro: keeps_trans dest!: keeps_rules)

lemma move_audiences_keeps:
  assumes "\<And>x s t moved. f x s = Inr (t, moved) \<Longrightarrow> keeps s t"
  shows "move_audiences f xs s = Inr (t, ids) \<Longrightarrow> keeps s t"
proof (induction xs arbitrary: s ids)
  case (Cons x xs)
  then obtain u moved js where "f x s = Inr (u, moved)" "move_audiences f xs u = Inr (t, js)"
    by (auto simp: bind_res_Inr_iff)
  with assms Cons.IH show ?case by (blast intro: keeps_trans)
qed simp

lemma set_audience_keeps:
  "set_session_audience_on_conn pol opener ids aud repl refu key who why caller s = Inr (t, moved) \<Longrightarrow> keeps s t"
  by (auto simp: set_session_audience_on_conn_def bind_res_Inr_iff Let_def split: if_splits
      dest!: move_audiences_keeps [rotated] intro: move_audience_keeps)

lemma end_session_keeps:
  assumes "end_session_on_conn i ended cid key who s = Inr (t, x)"
  shows "keeps s t"
proof -
  have "keeps s (set_client_change_id None s)" by (simp add: keeps_def)
  with assms show ?thesis
    by (auto simp: end_session_on_conn_def bind_res_Inr_iff split: option.splits if_splits dest!: end_on_conn_keeps)
qed

section \<open>The world as a transition system\<close>

definition wkeeps :: "world \<Rightarrow> world \<Rightarrow> bool" where
  "wkeeps w v \<longleftrightarrow> world_sound w \<longrightarrow> world_sound v \<and> prefix (change_log (tables w)) (change_log (tables v))"

lemma wkeeps_refl [simp]: "wkeeps w w"
  by (simp add: wkeeps_def)

lemma wkeeps_trans: "wkeeps w v \<Longrightarrow> wkeeps v u \<Longrightarrow> wkeeps w u"
  unfolding wkeeps_def by (meson prefix_order.trans)

lemma wkeeps_tables:
  assumes "keeps (tables w) t" "\<And>i. l i \<noteq> None \<Longrightarrow> liveness w i \<noteq> None \<or> inquiries (tables w) i \<noteq> None"
  shows "wkeeps w (w\<lparr>tables := t, liveness := l\<rparr>)"
proof -
  have "tables (w\<lparr>tables := t, liveness := l\<rparr>) = t" "liveness (w\<lparr>tables := t, liveness := l\<rparr>) = l" by simp_all
  with assms show ?thesis unfolding wkeeps_def keeps_def world_sound_def present_def by metis
qed

lemma wkeeps_store: "keeps (tables w) t \<Longrightarrow> wkeeps w (w\<lparr>tables := t\<rparr>)"
  using wkeeps_tables [of w t "liveness w"] by simp

text \<open>A transaction keeps what its body keeps.\<close>

lemma wkeeps_commit:
  assumes "wkeeps (w\<lparr>tables := (tables w)\<lparr>buffer := []\<rparr>\<rparr>) v"
  shows "wkeeps w (v\<lparr>tables := (tables v)\<lparr>published := p, buffer := []\<rparr>\<rparr>)"
  using assms by (simp add: wkeeps_def world_sound_def)

lemma world_tx_keeps:
  assumes "\<And>v x. f (w\<lparr>tables := (tables w)\<lparr>buffer := []\<rparr>\<rparr>) = Inr (v, x) \<Longrightarrow> wkeeps (w\<lparr>tables := (tables w)\<lparr>buffer := []\<rparr>\<rparr>) v"
  shows "wkeeps w (fst (world_tx f w))"
  by (cases f w rule: world_tx_cases) (use assms wkeeps_commit in auto)

lemma on_tables_keeps:
  assumes "on_tables f w = Inr (v, x)" "\<And>t. f (tables w) = Inr (t, x) \<Longrightarrow> keeps (tables w) t"
  shows "wkeeps w v"
  using assms by (auto simp: on_tables_def bind_res_Inr_iff intro: wkeeps_store)

lemma reopen_keeps:
  assumes "reopen_on_conn i r key who w = Inr v"
  shows "wkeeps w v"
proof -
  obtain s1 s2 s3 l where m: "move_session i None ''active'' (tables w) = Inr s1"
    "log_move i SessionEnded (iq_columns r SessionEnded) None key who (s1\<lparr>clock := Suc (clock s1)\<rparr>) = Inr s2"
    "log_status i r ''active'' key who s2 = Inr s3" "v = w\<lparr>tables := s3, liveness := l\<rparr>"
    "l = (liveness w)(i := map_option (\<lambda>x. x\<lparr>reaped := False, last_seen := int (clock s1)\<rparr>) (liveness w i))"
    using assms by (auto simp: reopen_on_conn_def bind_res_Inr_iff Let_def)
  have "keeps (tables w) s3" using m(1-3) keeps_clock by (blast dest: keeps_rules intro: keeps_trans)
  then show ?thesis unfolding m(4) by (rule wkeeps_tables) (auto simp: m(5) split: if_splits)
qed

lemma resume_keeps:
  assumes "resume_on_conn pol cid rooms key who hide attach w = Inr (v, got)"
  shows "wkeeps w v"
proof (cases "\<exists>i r. resumable cid key attach (tables w) = Some i \<and> session_row (tables w) i = Some r")
  case False
  with assms have "v = w" by (auto simp: resume_on_conn_def bind_res_Inr_iff split: option.splits)
  then show ?thesis by simp
next
  case True
  then obtain i r where i: "resumable cid key attach (tables w) = Some i" "session_row (tables w) i = Some r" by blast
  obtain s1 w1 s2 where h: "(if hide then hide_resumed pol i r key who (tables w) else Inr (tables w)) = Inr s1"
    "(if ended_of r \<noteq> None then reopen_on_conn i r key who (w\<lparr>tables := s1\<rparr>) else Inr (w\<lparr>tables := s1\<rparr>)) = Inr w1"
    "join_rooms i rooms key who (tables w1) = Inr s2" "v = w1\<lparr>tables := s2\<rparr>"
    using assms i by (auto simp: resume_on_conn_def bind_res_Inr_iff)
  have "keeps (tables w) s1" using h(1) hide_resumed_keeps by (auto split: if_splits)
  then have "wkeeps w (w\<lparr>tables := s1\<rparr>)" by (rule wkeeps_store)
  moreover have "wkeeps (w\<lparr>tables := s1\<rparr>) w1" using h(2) reopen_keeps by (auto split: if_splits)
  moreover have "wkeeps w1 v" unfolding h(4) by (rule wkeeps_store [OF join_rooms_keeps [OF h(3)]])
  ultimately show ?thesis by (blast intro: wkeeps_trans)
qed

text \<open>What happens between two statements of a start: other requests, which keep the store sound and
  the log growing.\<close>

definition gap_ok :: "gap \<Rightarrow> bool" where
  "gap_ok g \<longleftrightarrow>
     (\<forall>s. sound s \<longrightarrow> sound (snd (g s)) \<and> prefix (change_log s) (change_log (fst (g s)))
        \<and> prefix (change_log (fst (g s))) (change_log (snd (g s))))"

lemma start_attempts_keeps:
  assumes "sound s" "\<forall>g \<in> set gaps. gap_ok g"
  shows "sound (fst (start_attempts grant b body requested aud key gaps s))
       \<and> prefix (change_log s) (change_log (fst (start_attempts grant b body requested aud key gaps s)))"
  using assms
proof (induction gaps arbitrary: s)
  case (Cons g gaps)
  obtain seen s1 where g: "g s = (seen, s1)" by force
  let ?s1 = "set_client_change_id (client_change_id s) s1"
  let ?granted = "reserve_session_actor requested s"
  obtain t r where t: "submit grant (b\<lparr>sb_owner := Some ?granted\<rparr>) body key ?granted (Some aud) seen ?s1 = (t, r)" by force
  have s1: "sound ?s1" "prefix (change_log s) (change_log ?s1)"
    using Cons.prems g unfolding gap_ok_def by (auto simp: set_client_change_id_def sound_slot [unfolded set_client_change_id_def] dest: prefix_order.trans)
  have "follows ?s1 t" using submit_step_follows [OF s1(1), of grant "b\<lparr>sb_owner := Some ?granted\<rparr>" body key ?granted "Some aud" seen] t by simp
  then have step: "sound t" "prefix (change_log s) (change_log t)"
    using prefix_order.trans [OF s1(2) follows_log] by (simp_all add: follows_def)
  have rest: "sound (fst (start_attempts grant b body requested aud key gaps t))
       \<and> prefix (change_log t) (change_log (fst (start_attempts grant b body requested aud key gaps t)))"
    by (rule Cons.IH [OF step(1)]) (use Cons.prems in simp)
  have "start_attempts grant b body requested aud key (g # gaps) s =
      (case r of Inr i \<Rightarrow> (t, read_back i t)
       | Inl e \<Rightarrow> if e = UniqueViolation \<and> name_live ?granted ?s1 then start_attempts grant b body requested aud key gaps t else (t, Inl e))"
    by (simp add: g t Let_def)
  then show ?case using step rest by (auto split: sum.split intro: prefix_order.trans)
qed simp

lemma with_tables_keeps:
  assumes "sound t" "prefix (change_log (tables w)) (change_log t)"
  shows "wkeeps w (with_tables t w)"
  using assms by (simp add: wkeeps_def world_sound_def with_tables_def)

end
