(* ===== verification/Session_Machine.thy ===== *)
theory Session_Machine
  imports Session_Lemmas
begin

text \<open>
  The world as a transition system: a step is a step of the store, or one session operation. What a
  run reaches is sound.
\<close>

inductive session_step :: "world \<Rightarrow> world \<Rightarrow> bool" where
  stored: "trax_step (tables w) t \<Longrightarrow> session_step w (with_tables t w)"
| ended: "session_step w (fst (end_session i ended cid key who w))"
| started: "\<forall>g \<in> set gaps. gap_ok g
    \<Longrightarrow> session_step w (fst (start_session pol grant b body requested aud key attach gaps w))"
| seen: "session_step w (fst (record_session_seen i now polled place w))"
| reaped: "session_step w (fst (reap_session i before who w))"
| revived: "session_step w (fst (revive_reaped_session i who w))"
| reopened: "session_step w (fst (world_tx (\<lambda>w. bind_res (reopen_session i who w) (\<lambda>v. Inr (v, ()))) w))"
| audience_moved: "session_step w (fst (set_session_audience pol opener ids aud repl refu key who why caller w))"

lemma end_session_wkeeps: "wkeeps w (fst (end_session i ended cid key who w))"
proof -
  have k: "wkeeps w (fst (world_tx (on_tables (end_session_on_conn i ended cid key who)) w))"
    by (rule world_tx_keeps) (erule on_tables_keeps, rule end_session_keeps)
  obtain v r where v: "world_tx (on_tables (end_session_on_conn i ended cid key who)) w = (v, r)" by force
  have slot: "wkeeps v (v\<lparr>tables := set_client_change_id None (tables v)\<rparr>)"
    by (rule wkeeps_store) (simp add: keeps_def)
  have "wkeeps w v" using k v by simp
  then show ?thesis using wkeeps_trans [OF _ slot] by (cases r) (auto simp: end_session_def v)
qed

lemma resume_session_wkeeps:
  "resume_session pol cid rooms key who hide attach w = (v, r) \<Longrightarrow> wkeeps w v"
  using world_tx_keeps [of "resume_on_conn pol cid rooms key who hide attach" w] resume_keeps
  unfolding resume_session_def by (metis fst_conv)

lemma start_session_wkeeps:
  assumes gaps: "\<forall>g \<in> set gaps. gap_ok g"
  shows "wkeeps w (fst (start_session pol grant b body requested aud key attach gaps w))"
proof (cases attach)
  case (Some i)
  obtain v r where v: "resume_session pol None (session_rooms body) key requested (aud = PRIVATE) (Some i) w = (v, r)" by force
  have "wkeeps w v" by (rule resume_session_wkeeps [OF v])
  then show ?thesis using Some v by (auto simp: start_session_def split: sum.split option.split)
next
  case None
  obtain v r where v: "(if session_cli_id body = None then (w, Inr None)
      else resume_session pol (session_cli_id body) (session_rooms body) key requested (aud = PRIVATE) None w) = (v, r)" by force
  have k: "wkeeps w v" using v resume_session_wkeeps by (auto split: if_splits)
  have replay: "wkeeps v (v\<lparr>tables := s\<rparr>)" if "start_replay b (tables v) = Inr (Some (s, got))" for s got
  proof (rule wkeeps_store)
    have "s = set_client_change_id None (tables v)"
      using that by (auto simp: start_replay_def bind_res_Inr_iff split: option.splits)
    then show "keeps (tables v) s" by (simp add: keeps_def)
  qed
  have fresh: "wkeeps v (with_tables (fst (start_attempts grant b body requested aud key gaps (tables v))) v)"
  proof (cases "world_sound v")
    case True
    then have "sound (tables v)" by (simp add: world_sound_def)
    from start_attempts_keeps [OF this gaps] show ?thesis by (intro with_tables_keeps) blast+
  qed (simp add: wkeeps_def)
  have "wkeeps v (fst (start_session pol grant b body requested aud key None gaps w))"
    using v replay fresh
    by (auto simp: start_session_def Let_def split: sum.splits option.splits prod.splits)
  with k None show ?thesis by (blast intro: wkeeps_trans)
qed

lemma reap_on_conn_wkeeps:
  assumes "reap_on_conn i before who w = Inr (v, got)"
  shows "wkeeps w v"
proof (cases "v = w")
  case False
  then obtain r x t where h: "liveness w i = Some x" "end_on_conn i r (last_seen x) None None who (tables w) = Inr t"
    "v = w\<lparr>tables := t, liveness := (liveness w)(i \<mapsto> x\<lparr>reaped := True\<rparr>)\<rparr>"
    using assms by (auto simp: reap_on_conn_def bind_res_Inr_iff split: option.splits if_splits)
  show ?thesis unfolding h(3) by (rule wkeeps_tables [OF end_on_conn_keeps [OF h(2)]]) (simp add: h(1) split: if_splits)
qed simp

lemma revive_on_conn_wkeeps: "revive_on_conn i who w = Inr (v, got) \<Longrightarrow> wkeeps w v"
  by (auto simp: revive_on_conn_def bind_res_Inr_iff split: option.splits if_splits dest!: reopen_keeps)

lemma reopen_session_wkeeps: "reopen_session i who w = Inr v \<Longrightarrow> wkeeps w v"
  by (auto simp: reopen_session_def split: option.splits if_splits dest!: reopen_keeps)

lemma record_seen_wkeeps: "wkeeps w (fst (record_session_seen i now polled place w))"
  by (auto simp: record_session_seen_def wkeeps_def world_sound_def Let_def split: option.splits if_splits)

lemma session_step_wkeeps: "session_step w v \<Longrightarrow> wkeeps w v"
proof (induction rule: session_step.induct)
  case (stored w t)
  show ?case
  proof (cases "world_sound w")
    case True
    then have "follows (tables w) t" using trax_step_follows [OF stored] by (simp add: world_sound_def)
    then show ?thesis using follows_log by (intro with_tables_keeps) (auto simp: follows_def)
  qed (simp add: wkeeps_def)
next
  case (ended w i ended cid key who)
  show ?case by (rule end_session_wkeeps)
next
  case (started gaps w pol grant b body requested aud key attach)
  then show ?case by (rule start_session_wkeeps)
next
  case (seen w i now polled place)
  show ?case by (rule record_seen_wkeeps)
next
  case (reaped w i before who)
  show ?case unfolding reap_session_def by (rule world_tx_keeps) (rule reap_on_conn_wkeeps)
next
  case (revived w i who)
  show ?case unfolding revive_reaped_session_def by (rule world_tx_keeps) (rule revive_on_conn_wkeeps)
next
  case (reopened w i who)
  show ?case by (rule world_tx_keeps) (auto simp: bind_res_Inr_iff intro: reopen_session_wkeeps)
next
  case (audience_moved w pol opener ids aud repl refu key who why caller)
  show ?case unfolding set_session_audience_def
    by (rule world_tx_keeps) (erule on_tables_keeps, rule set_audience_keeps)
qed

definition fresh_world :: "world \<Rightarrow> bool" where
  "fresh_world w \<longleftrightarrow> fresh_store (tables w) \<and> liveness w = (\<lambda>i. None)"

interpretation sessions: audited_system fresh_world session_step world_sound "\<lambda>w. change_log (tables w)"
proof
  show "world_sound w" if "fresh_world w" for w
    using that empty_sound by (simp add: fresh_world_def fresh_store_def world_sound_def)
  show "world_sound v" if "world_sound w" "session_step w v" for w v
    using session_step_wkeeps [OF that(2)] that(1) by (simp add: wkeeps_def)
  show "prefix (change_log (tables w)) (change_log (tables v))" if "world_sound w" "session_step w v" for w v
    using session_step_wkeeps [OF that(2)] that(1) by (simp add: wkeeps_def)
qed

end
