(* ===== verification/Session_Effects.thy ===== *)
theory Session_Effects
  imports Session_Machine Edit_Properties
begin

text \<open>
  What an end does, and when it succeeds: the columns of the session's row after it, and the changes
  that record them. Statements that write the row and emissions that log it alternate, so the two are
  followed apart: \<open>rows_at\<close> says what the rows are, \<open>logs\<close> that the log has gained edits
  of one row which take one set of columns to another.
\<close>

section \<open>Rows and their record\<close>

definition rows_at :: "uuid \<Rightarrow> (column \<Rightarrow> cval option) \<Rightarrow> store \<Rightarrow> store \<Rightarrow> bool" where
  "rows_at i cols s t \<longleftrightarrow>
     (\<forall>j. map_option iq_static (inquiries t j) =
        (if j = i then map_option (\<lambda>r. iq_static (r\<lparr>iq_columns := cols\<rparr>)) (inquiries s i)
         else map_option iq_static (inquiries s j)))
   \<and> edges t = edges s \<and> iq_ids t = iq_ids s"

definition logs :: "uuid \<Rightarrow> (column \<Rightarrow> cval option) \<Rightarrow> store \<Rightarrow> store \<Rightarrow> (column \<Rightarrow> cval option) \<Rightarrow> bool" where
  "logs i a s t b \<longleftrightarrow>
     (\<exists>chs. change_log t = change_log s @ chs \<and> replay_edits i chs a = Some b
        \<and> (\<forall>ch \<in> set chs. \<forall>c. change_kind ch = FieldEdited c \<longrightarrow> subject_id ch = i))"

lemma logs_refl: "change_log t = change_log s \<Longrightarrow> logs i a s t a"
  by (simp add: logs_def)

lemma logs_trans: "logs i a s t b \<Longrightarrow> logs i b t u c \<Longrightarrow> logs i a s u c"
  unfolding logs_def by (elim exE conjE, rule exI, rule conjI, simp, auto simp: replay_append)

lemma rows_at_row:
  assumes "rows_at i cols s t" "inquiries s i = Some r"
  obtains q where "inquiries t i = Some q" "iq_columns q = cols" "iq_kind q = iq_kind r" "iq_seq q = iq_seq r"
    "iq_created q = iq_created r" "iq_locked q = iq_locked r"
proof -
  have "map_option iq_static (inquiries t i) = Some (iq_static (r\<lparr>iq_columns := cols\<rparr>))"
    using assms by (simp add: rows_at_def)
  then obtain q where "inquiries t i = Some q" "iq_static q = iq_static (r\<lparr>iq_columns := cols\<rparr>)"
    by (cases "inquiries t i") auto
  then show ?thesis by (intro that [of q]) (simp_all add: iq_static_def)
qed

lemma rows_at_emitted: "rows_at i cols s t \<Longrightarrow> emitted t u \<Longrightarrow> rows_at i cols s u"
  by (simp add: rows_at_def emitted_def wrote_def rows_kept_def)

lemma rows_at_place:
  assumes "update_inquiry_row i f s0 = Inr t" "inquiries s0 = inquiries s" "edges s0 = edges s" "iq_ids s0 = iq_ids s"
    and "rows_at i a s1 s" "inquiries s i = Some r" "iq_static (f r) = iq_static (r\<lparr>iq_columns := b\<rparr>)"
  shows "rows_at i b s1 t"
proof -
  have t: "inquiries t = (inquiries s)(i \<mapsto> f r)" "edges t = edges s" "iq_ids t = iq_ids s"
    using assms(1-4,6) by (auto simp: update_inquiry_row_def place_inquiry_row_Inr)
  have "map_option iq_static (inquiries s i) = map_option (\<lambda>r. iq_static (r\<lparr>iq_columns := a\<rparr>)) (inquiries s1 i)"
    using assms(5) by (simp add: rows_at_def)
  then obtain p where p: "inquiries s1 i = Some p" "iq_static r = iq_static (p\<lparr>iq_columns := a\<rparr>)"
    using assms(6) by (cases "inquiries s1 i") auto
  have "iq_static (f r) = iq_static (p\<lparr>iq_columns := b\<rparr>)" using p(2) assms(7) by (simp add: iq_static_def)
  with assms(5) p(1) show ?thesis by (simp add: rows_at_def t)
qed

text \<open>An emission under an unused key logs its edit and leaves the slot empty.\<close>

lemma emit_field_logs:
  assumes em: "emit_field_change i k c v w key who why ex s = Inr (t, cid, subs)"
    and ok: "sound s" and key: "unused_key s" and a: "a c = v"
  shows "logs i a s t (a(c := w))" "emitted s t" "sound t" "client_change_id t = None"
proof -
  let ?e = "(emit_args i k (FieldEdited c))\<lparr>em_api_key_id := key, em_actor := who, em_reason := why,
       em_old := field_snapshot c v, em_new := field_snapshot c w, em_extra_subscribers := ex\<rparr>"
  have em': "emit_change ?e True s = Inr (t, cid, subs)" using em by (simp add: emit_field_change_def)
  obtain u rep where o: "emit_once ?e s = Inr (u, cid, subs, rep)"
    using em' by (auto simp: emit_change_def res_simps split: if_splits)
  then have o: "emit_once ?e s = Inr (u, cid, subs, False)" using emit_once_fresh [OF o key] by simp
  have st: "store_ok s" using ok by (simp add: sound_def)
  have np: "\<not> non_propagating (em_kind ?e)" by (simp add: emit_args_def)
  obtain t' ch cs where c: "emit_change ?e True s = Inr (t', cid, subs)" "change_log t' = change_log s @ ch # cs"
    "change_of cid ?e subs ch" "\<forall>x \<in> set cs. is_alert x"
    using emit_cascades [OF st o np] by blast
  have ch: "change_kind ch = FieldEdited c" "subject_id ch = i" "side (old ch) = v" "side (new ch) = w"
    using c(3) by (simp_all add: change_of_def emit_args_def field_snapshot_def side_def option.map_comp comp_def option.map_ident)
  have "replay_edits i cs b = Some b" for b
    by (rule replay_unedited) (use c(4) in \<open>auto simp: is_alert_def\<close>)
  then show "logs i a s t (a(c := w))"
    unfolding logs_def using c(1,2,4) em' ch a by (intro exI [of _ "ch # cs"]) (auto simp: is_alert_def)
  show "emitted s t" "sound t" "client_change_id t = None" using emit_field_sound [OF em ok] by blast+
qed

lemma emit_field_key:
  assumes em: "emit_field_change i k c v w key who why ex s = Inr (t, cid, subs)"
    and ok: "sound s" and key: "unused_key s" and n: "client_change_id s = Some n"
  shows "\<exists>ch \<in> set (change_log t). change_id ch = n \<and> subject_id ch = i"
proof -
  let ?e = "(emit_args i k (FieldEdited c))\<lparr>em_api_key_id := key, em_actor := who, em_reason := why,
       em_old := field_snapshot c v, em_new := field_snapshot c w, em_extra_subscribers := ex\<rparr>"
  have em': "emit_change ?e True s = Inr (t, cid, subs)" using em by (simp add: emit_field_change_def)
  obtain u rep where o: "emit_once ?e s = Inr (u, cid, subs, rep)"
    using em' by (auto simp: emit_change_def res_simps split: if_splits)
  then have o: "emit_once ?e s = Inr (u, cid, subs, False)" using emit_once_fresh [OF o key] by simp
  then have "cid = n"
    using n by (auto simp: emit_once_def consume_client_change_id_def res_simps split: option.splits sum.splits if_splits)
  moreover have st: "store_ok s" "\<not> non_propagating (em_kind ?e)" using ok by (simp_all add: sound_def emit_args_def)
  obtain t' ch cs where c: "emit_change ?e True s = Inr (t', cid, subs)" "change_log t' = change_log s @ ch # cs"
    "change_of cid ?e subs ch"
    using emit_cascades [OF st(1) o st(2)] by blast
  ultimately show ?thesis using em' by (auto simp: change_of_def emit_args_def)
qed

lemma unused_key_None: "client_change_id s = None \<Longrightarrow> unused_key s"
  by (simp add: unused_key_def)

section \<open>Ending\<close>

text \<open>The columns of a session once it has ended.\<close>

definition ended_columns :: "inquiry \<Rightarrow> int \<Rightarrow> string option \<Rightarrow> column \<Rightarrow> cval option" where
  "ended_columns r ended cid =
     (case cid of None \<Rightarrow> iq_columns r | Some x \<Rightarrow> (iq_columns r)(SessionCliId \<mapsto> VStr x))
       (SessionEnded \<mapsto> VTime ended, Status \<mapsto> VStr ''complete'')"

lemma live_row:
  assumes "sound s" "inquiries s i = Some r" "iq_kind r = AgentSession" "ended_of r = None"
  shows "iq_columns r SessionEnded = None" "iq_columns r Status \<noteq> Some (VStr ''complete'')" "iq_columns r Status \<noteq> None"
proof -
  have rows: "row_typed r" "not_null_check r" "inquiry_row_check r" using rows_okD(4) [of s i r] assms(1,2) by (auto simp: sound_def)
  have "typed SessionEnded (iq_columns r SessionEnded)" using rows(1) by (simp add: row_typed_def)
  with assms(4) show e: "iq_columns r SessionEnded = None"
    by (cases "iq_columns r SessionEnded") (auto simp: typed_def ended_of_def split: cval.splits)
  then show "iq_columns r Status \<noteq> Some (VStr ''complete'')" using rows(3) assms(3) by (simp add: inquiry_row_check_def)
  show "iq_columns r Status \<noteq> None" using rows(2) by (simp add: not_null_check_def)
qed

lemma text_column_Some: "text_column r c = Some x \<longleftrightarrow> iq_columns r c = Some (VStr x)"
  by (auto simp: text_column_def split: option.splits cval.splits)

lemma stored_cli_id: "\<not> is_blank x \<Longrightarrow> stored SessionCliId (Some (VStr x)) = Some (VStr x)"
  by (simp add: stored_def is_blank_def empty_str_to_none_def)

lemma update_field_at:
  assumes "update_field i c w s = Inr t" "stored c w = w" "inquiries s i = Some r" "rows_at i a s1 s" "iq_columns r = a"
  shows "rows_at i (a(c := w)) s1 t" "change_log t = change_log s" "client_change_id t = client_change_id s"
proof -
  have up: "update_inquiry_row i (\<lambda>r. edited_row c w (clock s) r) (s\<lparr>clock := Suc (clock s)\<rparr>) = Inr t"
    using assms(1) by (simp add: update_field_Inr assms(2))
  show "rows_at i (a(c := w)) s1 t"
    by (rule rows_at_place [OF up _ _ _ assms(4) assms(3)]) (simp_all add: iq_static_def assms(5))
  show "change_log t = change_log s" "client_change_id t = client_change_id s"
    using up assms(3) by (auto simp: update_inquiry_row_def place_inquiry_row_Inr)
qed

lemma move_session_at:
  assumes "move_session i e st s = Inr t" "inquiries s i = Some r" "rows_at i a s1 s" "iq_columns r = a"
  shows "rows_at i (a(SessionEnded := map_option VTime e, Status \<mapsto> VStr st)) s1 t" "change_log t = change_log s"
    "client_change_id t = client_change_id s"
proof -
  have up: "update_inquiry_row i (moved_row e st (clock s)) (s\<lparr>clock := Suc (clock s)\<rparr>) = Inr t"
    using assms(1) by (simp add: move_session_def)
  show "rows_at i (a(SessionEnded := map_option VTime e, Status \<mapsto> VStr st)) s1 t"
    by (rule rows_at_place [OF up _ _ _ assms(3) assms(2)]) (simp_all add: iq_static_def moved_row_def assms(4))
  show "change_log t = change_log s" "client_change_id t = client_change_id s"
    using up assms(2) by (auto simp: update_inquiry_row_def place_inquiry_row_Inr)
qed

lemma rows_at_refl: "inquiries s i = Some r \<Longrightarrow> rows_at i (iq_columns r) s s"
  by (simp add: rows_at_def)

lemma unused_key_same: "change_log t = change_log s \<Longrightarrow> client_change_id t = client_change_id s \<Longrightarrow> unused_key t = unused_key s"
  by (simp add: unused_key_def change_ids_def split: option.split)

lemma backfill_effect:
  assumes f: "backfill_cli_id i r cid key who s = Inr t" and ok: "sound s" "unused_key s" and r: "inquiries s i = Some r"
    and cid: "unless_none (\<lambda>x. \<not> is_blank x) cid"
  defines "a \<equiv> (case cid of None \<Rightarrow> iq_columns r | Some x \<Rightarrow> (iq_columns r)(SessionCliId \<mapsto> VStr x))"
  shows "rows_at i a s t" "logs i (iq_columns r) s t a" "sound t" "unused_key t"
proof -
  consider (same) "t = s" "a = iq_columns r"
    | (new) x u where "cid = Some x" "\<not> is_blank x" "update_field i SessionCliId (Some (VStr x)) s = Inr u"
        "log_move i SessionCliId (iq_columns r SessionCliId) (Some (VStr x)) key who u = Inr t"
        "a = (iq_columns r)(SessionCliId \<mapsto> VStr x)"
    using f cid by (auto simp: backfill_cli_id_def a_def bind_res_Inr_iff unless_none_def text_column_Some fun_upd_idem
        split: option.splits if_splits)
  then have "rows_at i a s t \<and> logs i (iq_columns r) s t a \<and> sound t \<and> unused_key t"
  proof cases
    case same
    then show ?thesis
      using ok rows_at_refl [OF r] by (simp add: logs_refl)
  next
    case (new x u)
    note u = update_field_at [OF new(3) stored_cli_id [OF new(2)] r rows_at_refl [OF r] refl]
    have oku: "sound u" "unused_key u" using update_field_sound [OF new(3) ok(1)] unused_key_same [OF u(2,3)] ok(2) by simp_all
    obtain cid' subs where e: "emit_field_change i AgentSession SessionCliId (iq_columns r SessionCliId) (Some (VStr x)) key who [] [] u
        = Inr (t, cid', subs)" by (rule log_moveE [OF new(4)])
    note t = emit_field_logs [OF e oku, of "iq_columns r"]
    have "logs i (iq_columns r) s u (iq_columns r)" by (rule logs_refl [OF u(2)])
    then have "logs i (iq_columns r) s t a" unfolding new(5) by (rule logs_trans) (rule t(1), simp)
    moreover have "rows_at i a s t" unfolding new(5) by (rule rows_at_emitted [OF u(1)]) (rule t(2), simp)
    ultimately show ?thesis using t(3,4) unused_key_None by simp
  qed
  then show "rows_at i a s t" "logs i (iq_columns r) s t a" "sound t" "unused_key t" by blast+
qed

lemma end_on_conn_effect:
  assumes f: "end_on_conn i r ended cid key who s = Inr t" and ok: "sound s" "unused_key s"
    and r: "inquiries s i = Some r" "iq_kind r = AgentSession" "ended_of r = None"
    and cid: "unless_none (\<lambda>x. \<not> is_blank x) cid"
  shows "rows_at i (ended_columns r ended cid) s t" "logs i (iq_columns r) s t (ended_columns r ended cid)"
    "sound t" "client_change_id t = None"
proof -
  let ?a = "case cid of None \<Rightarrow> iq_columns r | Some x \<Rightarrow> (iq_columns r)(SessionCliId \<mapsto> VStr x)"
  note live = live_row [OF ok(1) r]
  obtain s1 s2 s3 where h: "backfill_cli_id i r cid key who s = Inr s1" "move_session i (Some ended) ''complete'' s1 = Inr s2"
    "log_move i SessionEnded None (Some (VTime ended)) key who s2 = Inr s3" "log_status i r ''complete'' key who s3 = Inr t"
    using f by (auto simp: end_on_conn_def bind_res_Inr_iff)
  note b = backfill_effect [OF h(1) ok r(1) cid]
  obtain q where q: "inquiries s1 i = Some q" "iq_columns q = ?a" by (rule rows_at_row [OF b(1) r(1)])
  note m = move_session_at [OF h(2) q(1) b(1) q(2)]
  have ok2: "sound s2" "unused_key s2" using move_session_sound [OF h(2) b(3)] unused_key_same [OF m(2,3)] b(4) by simp_all
  obtain c1 u1 where e1: "emit_field_change i AgentSession SessionEnded None (Some (VTime ended)) key who [] [] s2 = Inr (s3, c1, u1)"
    by (rule log_moveE [OF h(3)])
  have a: "?a SessionEnded = None" "?a Status = iq_columns r Status" using live by (simp_all split: option.split)
  note l1 = emit_field_logs [where a = ?a, OF e1 ok2 a(1)]
  obtain c2 u2 where e2: "emit_field_change i AgentSession Status (iq_columns r Status) (Some (VStr ''complete'')) key who [] [] s3 = Inr (t, c2, u2)"
    using h(4) live(2) by (auto simp: log_status_def elim: log_moveE)
  have a2: "(?a(SessionEnded \<mapsto> VTime ended)) Status = iq_columns r Status" using a(2) by simp
  note l2 = emit_field_logs [where a = "?a(SessionEnded \<mapsto> VTime ended)", OF e2 l1(3) unused_key_None [OF l1(4)] a2]
  have cols: "?a(SessionEnded \<mapsto> VTime ended, Status \<mapsto> VStr ''complete'') = ended_columns r ended cid"
    by (simp add: ended_columns_def)
  show "rows_at i (ended_columns r ended cid) s t"
    using rows_at_emitted [OF rows_at_emitted [OF m(1) l1(2)] l2(2)] by (simp add: cols)
  show "logs i (iq_columns r) s t (ended_columns r ended cid)"
    using logs_trans [OF logs_trans [OF logs_trans [OF b(2) logs_refl [OF m(2)]] l1(1)] l2(1)] by (simp only: cols)
  show "sound t" "client_change_id t = None" by (fact l2)+
qed

text \<open>The key of the request names a change of the session.\<close>

lemma end_on_conn_key:
  assumes f: "end_on_conn i r ended cid key who s = Inr t" and ok: "sound s" "unused_key s"
    and r: "inquiries s i = Some r" "iq_kind r = AgentSession" "ended_of r = None"
    and cid: "unless_none (\<lambda>x. \<not> is_blank x) cid" and n: "client_change_id s = Some n"
  shows "\<exists>ch \<in> set (change_log t). change_id ch = n \<and> subject_id ch = i"
proof -
  obtain s1 s2 s3 where h: "backfill_cli_id i r cid key who s = Inr s1" "move_session i (Some ended) ''complete'' s1 = Inr s2"
    "log_move i SessionEnded None (Some (VTime ended)) key who s2 = Inr s3" "log_status i r ''complete'' key who s3 = Inr t"
    using f by (auto simp: end_on_conn_def bind_res_Inr_iff)
  note b = backfill_effect [OF h(1) ok r(1) cid]
  obtain q where q: "inquiries s1 i = Some q" by (rule rows_at_row [OF b(1) r(1)])
  have same: "change_log s2 = change_log s1" "client_change_id s2 = client_change_id s1"
    using h(2) q by (auto simp: move_session_def update_inquiry_row_def place_inquiry_row_Inr)
  have ok2: "sound s2" "unused_key s2" using move_session_sound [OF h(2) b(3)] unused_key_same [OF same] b(4) by simp_all
  obtain c1 u1 where e1: "emit_field_change i AgentSession SessionEnded None (Some (VTime ended)) key who [] [] s2 = Inr (s3, c1, u1)"
    by (rule log_moveE [OF h(3)])
  have grows: "present s1 s2" "present s2 s3" "present s3 t"
    using h(2-4) emission_present log_move_sound(2) [OF h(3) ok2(1)] log_move_sound(1) [OF h(3) ok2(1)] log_move_sound(2) move_session_present
    by (auto simp: log_status_def split: if_splits)
  have later: "\<exists>ch \<in> set (change_log t). change_id ch = n \<and> subject_id ch = i"
    if "\<exists>ch \<in> set (change_log x). change_id ch = n \<and> subject_id ch = i" "present x t" for x
    using that by (auto simp: present_def prefix_def)
  show ?thesis
  proof (cases "s1 = s")
    case True
    then have "client_change_id s2 = Some n" using same n by simp
    from emit_field_key [OF e1 ok2 this] show ?thesis by (rule later) (rule grows(3))
  next
    case False
    then obtain x u where x: "cid = Some x" "\<not> is_blank x" "update_field i SessionCliId (Some (VStr x)) s = Inr u"
        "log_move i SessionCliId (iq_columns r SessionCliId) (Some (VStr x)) key who u = Inr s1"
      using h(1) cid by (auto simp: backfill_cli_id_def bind_res_Inr_iff unless_none_def split: option.splits if_splits)
    note at = update_field_at [OF x(3) stored_cli_id [OF x(2)] r(1) rows_at_refl [OF r(1)] refl]
    have oku: "sound u" "unused_key u" "client_change_id u = Some n"
      using update_field_sound [OF x(3) ok(1)] unused_key_same [OF at(2,3)] ok(2) at(3) n by simp_all
    obtain c0 u0 where "emit_field_change i AgentSession SessionCliId (iq_columns r SessionCliId) (Some (VStr x)) key who [] [] u
        = Inr (s1, c0, u0)" by (rule log_moveE [OF x(4)])
    from emit_field_key [OF this oku] show ?thesis
      by (rule later) (rule present_trans [OF grows(1) present_trans [OF grows(2,3)]])
  qed
qed

section \<open>A live session can always end\<close>

lemma column_row_check_moved:
  "column_row_check (moved_row e st m r) c \<longleftrightarrow>
     (if c = Status then column_applies (iq_kind r) Status \<and> column_check Status (VStr st)
      else if c = SessionEnded then
        (case e of None \<Rightarrow> \<not> (column_applies (iq_kind r) SessionEnded \<and> required (COLUMN_SPECS SessionEnded))
         | Some n \<Rightarrow> column_applies (iq_kind r) SessionEnded \<and> column_check SessionEnded (VTime n))
      else column_row_check r c)"
  by (cases e) (simp_all add: column_row_check_def cong: option.case_cong)

lemma applies_session:
  "iq_kind r = AgentSession \<Longrightarrow> column_applies (iq_kind r) SessionEnded"
  "column_applies k Status" "column_check Status (VStr ''complete'')" "column_check SessionEnded (VTime n)"
  "iq_kind r = AgentSession \<Longrightarrow> column_applies (iq_kind r) SessionCliId" "column_check SessionCliId (VStr x)"
  by (simp_all add: column_applies_def ColumnSpec_def column_check_def STATUSES_def)

lemma move_session_ends:
  assumes ok: "sound s" and r: "inquiries s i = Some r" "iq_kind r = AgentSession" "ended_of r = None"
  shows "\<exists>t. move_session i (Some ended) ''complete'' s = Inr t"
proof -
  let ?q = "moved_row (Some ended) ''complete'' (clock s) r"
  have rows: "rows_ok s" using ok by (simp add: sound_def)
  note rk = rows_okD(4) [OF rows r(1)]
  have "row_typed ?q" using rk by (auto simp: row_typed_def typed_def)
  moreover have "not_null_check ?q" using rk by (simp add: not_null_check_def)
  moreover have "inquiry_row_check ?q"
    using rk r(2) unfolding inquiry_row_check_def
    by (auto simp: column_row_check_moved applies_session applies_session(1) [OF r(2), unfolded r(2)]
        split: option.splits cval.splits)
  moreover have "\<not> collides ?q x" if "inquiries s j = Some x" "j \<noteq> i" for j x
  proof -
    have "\<not> collides r x" using rows_okD(6) [OF rows r(1) that(1)] that(2) by blast
    then show ?thesis by (simp add: collides_def live_session_owner_def iq_owner_def)
  qed
  ultimately show ?thesis
    by (auto simp: move_session_def update_inquiry_row_def r(1) place_inquiry_row_Inr)
qed

lemma log_move_total:
  assumes "sound s" "unused_key s" "mirror_check (FieldEdited c) AgentSession (field_snapshot c v) (field_snapshot c w)"
  shows "\<exists>t. log_move i c v w key who s = Inr t"
proof -
  have "store_ok s" using assms(1) by (simp add: sound_def)
  then obtain t cid subs where "emit_field_change i AgentSession c v w key who [] [] s = Inr (t, cid, subs)"
    using emit_field_total [OF _ assms(2,3)] by blast
  then show ?thesis by (simp add: log_move_def)
qed

lemma backfill_total:
  assumes ok: "sound s" "unused_key s" and r: "inquiries s i = Some r" "iq_kind r = AgentSession"
    and cid: "unless_none (\<lambda>x. \<not> is_blank x) cid"
  shows "\<exists>t. backfill_cli_id i r cid key who s = Inr t"
proof (cases "\<exists>x. cid = Some x \<and> text_column r SessionCliId \<noteq> Some x")
  case False
  then show ?thesis by (auto simp: backfill_cli_id_def split: option.split)
next
  case True
  then obtain x where x: "cid = Some x" "text_column r SessionCliId \<noteq> Some x" by blast
  have nb: "\<not> is_blank x" using cid x(1) by (simp add: unless_none_def)
  have rows: "rows_ok s" using ok by (simp add: sound_def)
  have c: "free_column SessionCliId" "\<not> immutable (COLUMN_SPECS SessionCliId)"
    "column_accepts SessionCliId (Some (VStr x))"
    by (simp_all add: free_column_def ColumnSpec_def column_accepts_def typed_def column_check_def)
  obtain u where u: "update_field i SessionCliId (Some (VStr x)) s = Inr u"
    using update_field_accepts [OF rows r(1) applies_session(5) [OF r(2)] c(1) stored_cli_id [OF nb]] c(2,3) by blast
  note at = update_field_at [OF u stored_cli_id [OF nb] r(1) rows_at_refl [OF r(1)] refl]
  have "mirror_check (FieldEdited SessionCliId) AgentSession (field_snapshot SessionCliId (iq_columns r SessionCliId))
      (field_snapshot SessionCliId (Some (VStr x)))"
    using old_value_checks [OF rows r(1) applies_session(5) [OF r(2)]] applies_session(5) [OF r(2)] r(2) c(2)
    by (simp add: mirror_check_edit mirrored_columns column_check_def)
  then obtain t where "log_move i SessionCliId (iq_columns r SessionCliId) (Some (VStr x)) key who u = Inr t"
    using log_move_total update_field_sound [OF u ok(1)] unused_key_same [OF at(2,3)] ok(2) by blast
  with u x show ?thesis by (simp add: backfill_cli_id_def)
qed

lemma end_on_conn_total:
  assumes ok: "sound s" "unused_key s"
    and r: "inquiries s i = Some r" "iq_kind r = AgentSession" "ended_of r = None"
    and cid: "unless_none (\<lambda>x. \<not> is_blank x) cid"
  shows "\<exists>t. end_on_conn i r ended cid key who s = Inr t"
proof -
  note live = live_row [OF ok(1) r]
  obtain s1 where s1: "backfill_cli_id i r cid key who s = Inr s1" using backfill_total [OF ok r(1,2) cid] by blast
  note b = backfill_effect [OF s1 ok r(1) cid]
  let ?a = "case cid of None \<Rightarrow> iq_columns r | Some x \<Rightarrow> (iq_columns r)(SessionCliId \<mapsto> VStr x)"
  obtain q where q: "inquiries s1 i = Some q" "iq_columns q = ?a" "iq_kind q = iq_kind r" by (rule rows_at_row [OF b(1) r(1)])
  have "ended_of q = None" using live by (simp add: ended_of_def q(2) split: option.splits)
  then obtain s2 where s2: "move_session i (Some ended) ''complete'' s1 = Inr s2"
    using move_session_ends [OF b(3) q(1)] q(3) r(2) by auto
  note m = move_session_at [OF s2 q(1) b(1) q(2)]
  have ok2: "sound s2" "unused_key s2" using move_session_sound [OF s2 b(3)] unused_key_same [OF m(2,3)] b(4) by simp_all
  have "mirror_check (FieldEdited SessionEnded) AgentSession (field_snapshot SessionEnded None)
      (field_snapshot SessionEnded (Some (VTime ended)))"
    by (simp add: mirror_check_edit mirrored_columns column_applies_def ColumnSpec_def column_check_def del: field_snapshot_None)
  then obtain s3 where s3: "log_move i SessionEnded None (Some (VTime ended)) key who s2 = Inr s3"
    using log_move_total [OF ok2] by blast
  have k3: "sound s3" "client_change_id s3 = None" using log_move_sound [OF s3 ok2(1)] by simp_all
  have rows: "rows_ok s" using ok by (simp add: sound_def)
  have "mirror_check (FieldEdited Status) AgentSession (field_snapshot Status (iq_columns r Status))
      (field_snapshot Status (Some (VStr ''complete'')))"
    using old_value_checks [OF rows r(1) applies_session(2)]
    by (simp add: mirror_check_edit mirrored_columns column_applies_def ColumnSpec_def applies_session)
  then have "\<exists>t. log_status i r ''complete'' key who s3 = Inr t"
    using log_move_total [OF k3(1) unused_key_None [OF k3(2)]] by (simp add: log_status_def)
  with s1 s2 s3 show ?thesis by (auto simp: end_on_conn_def)
qed

end
