(* ===== verification/Session_Claims.thy ===== *)
theory Session_Claims
  imports Session_Effects Submit_Claims
begin

text \<open>
  The properties of a session's life: the invariant of every run, its end and the retry of one, the name
  it is given, what a start returns, the reaper, and the moves of its audience. The witnesses start from the empty
  tables.
\<close>

section \<open>A session to run\<close>

definition demo_agent_base :: submit_base where
  "demo_agent_base = demo_base\<lparr>sb_owner := Some ''claude''\<rparr>"

definition demo_agent :: submit_body where
  "demo_agent = SubmitAgentSession (Some ''claude'') None None None"

definition demo_world :: world where
  "demo_world = \<lparr>tables = no_rows, liveness = (\<lambda>i. None)\<rparr>"

lemma demo_world_fresh: "fresh_world demo_world"
  using no_rows_fresh by (simp add: fresh_world_def demo_world_def)

lemma demo_agent_parsed: "parse_submit 9 (demo_agent_base, demo_agent) = Inr (demo_agent_base, demo_agent)"
  by code_simp

lemma demo_agent_opened:
  obtains t i r where "submit open_grant demo_agent_base demo_agent (Some 5) ''claude'' (Some OPEN) no_rows no_rows = (t, Inr i)"
    "inquiries t i = Some r" "iq_kind r = AgentSession" "ended_of r = None" "sound t" "client_change_id t = None"
    "iq_owner r = Some ''claude''" "text_column r SessionAudience = Some OPEN" "account_of r = ''me''"
    "iq_ids t = [i]"
proof -
  have kinds: "submit_kind demo_agent = AgentSession" by (simp add: demo_agent_def)
  have key: "effective_key demo_agent_base s = Some 77" for s
    by (simp add: effective_key_def demo_agent_base_def demo_base_def)
  have "audience_shape OPEN" by code_simp
  then have "linkless demo_agent" "within_columns demo_agent_base demo_agent OPEN" "sb_account demo_agent_base \<noteq> None"
    "nonneg (sb_marginal_cost demo_agent_base)"
    by (simp_all add: linkless_def demo_agent_def within_columns_def unless_none_def demo_agent_base_def demo_base_def nonneg_def)
  moreover have "name_free demo_agent_base demo_agent no_rows"
    by (simp add: name_free_def no_rows_def unless_none_def split: option.split)
  ultimately have "admissible 9 demo_agent_base demo_agent (Some OPEN) no_rows"
    using demo_agent_parsed key no_rows_sound(2) by (auto simp: admissible_def unless_none_def)
  from submit_accepts [OF this no_rows_sound(1), of no_rows open_grant, where key = "Some 5" and who = "''claude''"]
  obtain t i where t: "submit open_grant demo_agent_base demo_agent (Some 5) ''claude'' (Some OPEN) no_rows no_rows = (t, Inr i)"
    by (auto simp: open_grant_def)
  from submit_fresh [OF t no_rows_sound(1)] no_rows_sound(2) key
  have made: "submit_made demo_agent_base demo_agent ''me'' (Some 5) ''claude'' OPEN i no_rows t"
    by (auto simp: demo_agent_base_def demo_base_def)
  then obtain r where r: "inquiries t i = Some r" "iq_kind r = AgentSession"
    "iq_columns r = submitted_columns demo_agent_base demo_agent ''me'' (Some 5) OPEN i"
    by (auto simp: submit_made_def kinds)
  have cols: "iq_columns r SessionEnded = None" "iq_columns r Owner = Some (VStr ''claude'')"
    "iq_columns r SessionAudience = Some (VStr OPEN)" "iq_columns r Account = Some (VStr ''me'')"
    unfolding r(3) by code_simp+
  have "sound t" using submit_step_follows [OF no_rows_sound(1), of open_grant demo_agent_base demo_agent "Some 5" "''claude''" "Some OPEN" no_rows] t
    by (simp add: follows_def)
  moreover have "client_change_id t = None" "iq_ids t = [i]" using made by (simp_all add: submit_made_def no_rows_def)
  moreover have "ended_of r = None" "iq_owner r = Some ''claude''" "text_column r SessionAudience = Some OPEN" "account_of r = ''me''"
    by (simp_all add: ended_of_def iq_owner_def text_column_def account_of_def cols)
  ultimately show ?thesis using t r(1,2) by (intro that)
qed

section \<open>Runs\<close>

text \<open>C1: every world a run of the server reaches, whatever sessions start, resume, end, fall silent, come back or
  change audience between the edits of the graph, and whatever other requests do inside a start, has a
  sound store and no liveness row without its session; and the change log only grows.\<close>

theorem world_reachable_sound:
  assumes "fresh_world w" "rtranclp session_step w v" "rtranclp session_step v u"
  shows "store_ok (tables u) \<and> rows_ok (tables u) \<and> (\<forall>i. liveness u i \<noteq> None \<longrightarrow> inquiries (tables u) i \<noteq> None)
       \<and> prefix (change_log (tables v)) (change_log (tables u))"
proof -
  note inv = sessions.reachable_inv [OF assms(1,2)]
  show ?thesis using sessions.run_keeps [OF assms(3) inv] sessions.trail_grows [OF assms(3) inv]
    by (simp add: world_sound_def sound_def)
qed

lemma demo_agent_run:
  obtains w i r where "rtranclp session_step demo_world w" "inquiries (tables w) i = Some r" "iq_kind r = AgentSession"
    "ended_of r = None" "sound (tables w)" "client_change_id (tables w) = None" "iq_owner r = Some ''claude''"
    "text_column r SessionAudience = Some OPEN" "account_of r = ''me''" "iq_ids (tables w) = [i]" "liveness w = (\<lambda>i. None)"
proof -
  obtain t i r where t: "submit open_grant demo_agent_base demo_agent (Some 5) ''claude'' (Some OPEN) no_rows no_rows = (t, Inr i)"
    "inquiries t i = Some r" "iq_kind r = AgentSession" "ended_of r = None" "sound t" "client_change_id t = None"
    "iq_owner r = Some ''claude''" "text_column r SessionAudience = Some OPEN" "account_of r = ''me''" "iq_ids t = [i]"
    by (rule demo_agent_opened)
  have "trax_step (tables demo_world) t"
    using trax_step.submitted [of no_rows open_grant demo_agent_base demo_agent "Some 5" "''claude''" "Some OPEN" no_rows] t(1)
    by (simp add: demo_world_def)
  then have "session_step demo_world (with_tables t demo_world)" by (rule session_step.stored)
  moreover have "tables (with_tables t demo_world) = t" "liveness (with_tables t demo_world) = (\<lambda>i. None)"
    by (auto simp: with_tables_def demo_world_def)
  ultimately show ?thesis using t by (intro that [of "with_tables t demo_world" i r]) simp_all
qed

theorem world_reachable_sound_witness:
  "\<exists>w i. rtranclp session_step demo_world w \<and> inquiries (tables w) i \<noteq> None \<and> rows_ok (tables w)"
proof -
  obtain w i r where w: "rtranclp session_step demo_world w" "inquiries (tables w) i = Some r"
    by (rule demo_agent_run)
  from world_reachable_sound [OF demo_world_fresh w(1)] w show ?thesis by blast
qed

section \<open>Ending\<close>

lemma tx_tables:
  "tables (w\<lparr>tables := t\<rparr>) = t" "liveness (w\<lparr>tables := t\<rparr>) = liveness w"
  by simp_all

lemma end_tx:
  assumes "inquiries (tables w) i = Some r" "iq_kind r = AgentSession" "ended_of r = None"
    and "end_on_conn i r ended cid key who ((tables w)\<lparr>buffer := []\<rparr>) = Inr t"
  shows "end_session i ended cid key who w = (w\<lparr>tables := t\<lparr>published := published t @ buffer t, buffer := []\<rparr>\<rparr>, Inr ended)"
  using assms by (simp add: end_session_def world_tx_def in_tx_def on_tables_def end_session_on_conn_def)

lemma rows_at_state [simp]:
  "rows_at i cols (s\<lparr>buffer := x\<rparr>) t = rows_at i cols s t" "rows_at i cols s (t\<lparr>buffer := x\<rparr>) = rows_at i cols s t"
  "rows_at i cols s (t\<lparr>published := y\<rparr>) = rows_at i cols s t"
  "logs i a (s\<lparr>buffer := x\<rparr>) t b = logs i a s t b" "logs i a s (t\<lparr>buffer := x\<rparr>) b = logs i a s t b"
  "logs i a s (t\<lparr>published := y\<rparr>) b = logs i a s t b"
  by (simp_all add: rows_at_def logs_def)

lemma unused_key_buffer [simp]: "unused_key (s\<lparr>buffer := x\<rparr>) = unused_key s"
  by (rule unused_key_same) simp_all

text \<open>C11: the whole outcome of an end under a key that names nothing yet. A live session always ends: its row
  is stamped ended and complete at once, with the CLI's id if one is given, nothing else of the graph
  changes, and the log gains edits of that row alone, which replay its columns before into its columns
  after. What is not there is not found, another kind of row is a conflict, and so is a session that has
  ended, whose refusal empties the slot.\<close>

theorem end_session_outcome:
  assumes "sound (tables w)" "unused_key (tables w)" "unless_none (\<lambda>x. \<not> is_blank x) cid"
  shows "\<exists>v res. end_session i ended cid key who w = (v, res) \<and>
    (case inquiries (tables w) i of
       None \<Rightarrow> res = Inl NotFoundError \<and> v = w
     | Some r \<Rightarrow>
         if iq_kind r \<noteq> AgentSession then res = Inl ConflictError \<and> v = w
         else if ended_of r \<noteq> None
         then res = Inl ConflictError \<and> v = w\<lparr>tables := set_client_change_id None (tables w)\<rparr>
         else res = Inr ended \<and> rows_at i (ended_columns r ended cid) (tables w) (tables v)
            \<and> logs i (iq_columns r) (tables w) (tables v) (ended_columns r ended cid)
            \<and> liveness v = liveness w \<and> client_change_id (tables v) = None)"
proof (cases "\<exists>r. inquiries (tables w) i = Some r \<and> iq_kind r = AgentSession \<and> ended_of r = None")
  case True
  then obtain r where r: "inquiries (tables w) i = Some r" "iq_kind r = AgentSession" "ended_of r = None" by blast
  let ?s = "(tables w)\<lparr>buffer := []\<rparr>"
  have s: "sound ?s" "unused_key ?s" "inquiries ?s i = Some r" using assms(1,2) r(1) by simp_all
  obtain t where t: "end_on_conn i r ended cid key who ?s = Inr t"
    using end_on_conn_total [OF s(1-3) r(2,3) assms(3)] by blast
  note e = end_on_conn_effect [OF t s(1-3) r(2,3) assms(3)]
  show ?thesis using r e end_tx [OF r t] by simp
next
  case False
  have no: "\<not> (\<exists>c \<in> set (change_log (tables w)). change_id c = k \<and> subject_id c = i)" if "client_change_id (tables w) = Some k" for k
    using assms(2) that by (auto simp: unused_key_def change_ids_def)
  from False no show ?thesis
    by (auto simp: end_session_def world_tx_def in_tx_def on_tables_def end_session_on_conn_def already_ended_def
        session_row_def peek_client_change_id_def split: option.splits)
qed

theorem end_session_outcome_witness:
  "\<exists>w v i. rtranclp session_step demo_world w \<and> end_session i 9 None None ''claude'' w = (v, Inr 9)
     \<and> map_option ended_of (inquiries (tables w) i) = Some None \<and> map_option ended_of (inquiries (tables v) i) = Some (Some 9)"
proof -
  obtain w i r where w: "rtranclp session_step demo_world w" "inquiries (tables w) i = Some r" "iq_kind r = AgentSession"
    "ended_of r = None" "sound (tables w)" "client_change_id (tables w) = None" by (rule demo_agent_run)
  from end_session_outcome [OF w(5) unused_key_None [OF w(6)], of None i 9 None "''claude''"] w
  obtain v where v: "end_session i 9 None None ''claude'' w = (v, Inr 9)" "rows_at i (ended_columns r 9 None) (tables w) (tables v)"
    by (auto simp: unless_none_def)
  obtain q where "inquiries (tables v) i = Some q" "iq_columns q = ended_columns r 9 None" by (rule rows_at_row [OF v(2) w(2)])
  then have "map_option ended_of (inquiries (tables v) i) = Some (Some 9)" by (simp add: ended_of_def ended_columns_def)
  with w v(1) show ?thesis by auto
qed

end
