(* ===== verification/Session_Claims2.thy ===== *)
theory Session_Claims2
  imports Session_Claims
begin

text \<open>
  More of a session's life: the retry of an end, the name a start reserves, what a start returns and
  what its key protects.
\<close>

section \<open>The retry of an end\<close>

text \<open>C12: the retry of an end under its key: whatever happened since, as long as the session is still closed, it
  returns the instant the session ended at, and changes nothing but the slot it empties.\<close>

theorem end_retry_replays:
  assumes "world_sound w" "unless_none (\<lambda>x. \<not> is_blank x) cid" "inquiries (tables w) i = Some r" "ended_of r = None"
    and "client_change_id (tables w) = Some k" "k \<notin> change_ids (tables w)"
    and "end_session i ended cid key who w = (v, Inr x)" "rtranclp session_step v u"
    and "inquiries (tables u) i = Some q" "iq_kind q = AgentSession" "ended_of q = Some y" "client_change_id (tables u) = Some k"
  shows "\<exists>u'. end_session i ended' cid' key' who' u = (u', Inr y) \<and> liveness u' = liveness u
    \<and> tables u' = (tables u)\<lparr>client_change_id := None, buffer := []\<rparr>"
proof -
  let ?s = "(tables w)\<lparr>buffer := []\<rparr>"
  have s: "sound ?s" "unused_key ?s" "inquiries ?s i = Some r" "client_change_id ?s = Some k"
    using assms(1,3,5,6) by (simp_all add: world_sound_def unused_key_def change_ids_def)
  have kind: "iq_kind r = AgentSession"
    using assms(3,7) by (auto simp: end_session_def world_tx_def in_tx_def on_tables_def end_session_on_conn_def split: if_splits sum.splits prod.splits)
  obtain t where t: "end_on_conn i r ended cid key who ?s = Inr t"
    using end_on_conn_total [OF s(1-3) kind assms(4) assms(2)] by blast
  have v: "change_log (tables v) = change_log t" using end_tx [OF assms(3) kind assms(4) t] assms(7) by auto
  have "session_step w v" using session_step.ended [of w i ended cid key who] assms(7) by simp
  then have "world_sound v" using sessions.run_keeps [of w v] assms(1) by blast
  then have "prefix (change_log (tables v)) (change_log (tables u))" using sessions.trail_grows [OF assms(8)] by blast
  moreover have "\<exists>ch \<in> set (change_log t). change_id ch = k \<and> subject_id ch = i"
    by (rule end_on_conn_key [OF t s(1-3) kind assms(4) assms(2) s(4)])
  ultimately have "\<exists>ch \<in> set (change_log (tables u)). change_id ch = k \<and> subject_id ch = i"
    by (auto simp: v prefix_def)
  with assms(9-12) show ?thesis
    by (simp add: end_session_def world_tx_def in_tx_def on_tables_def end_session_on_conn_def peek_client_change_id_def
        set_client_change_id_def)
qed

lemma keyed_step: "session_step w (with_tables ((tables w)\<lparr>client_change_id := k\<rparr>) w)"
proof -
  have "graph_step (tables w) (set_client_change_id k (tables w))" by (rule graph_step.keyed)
  then show ?thesis
    using session_step.stored [OF trax_step.stored [OF store_step.graph]] by (simp add: set_client_change_id_def)
qed

theorem end_retry_replays_witness:
  "\<exists>w v u u' i. end_session i 9 None None ''claude'' w = (v, Inr 9) \<and> session_step v u
     \<and> end_session i 20 None None ''claude'' u = (u', Inr 9)"
proof -
  obtain w0 i r where w0: "rtranclp session_step demo_world w0" "inquiries (tables w0) i = Some r" "iq_kind r = AgentSession"
    "ended_of r = None" "sound (tables w0)" by (rule demo_agent_run)
  obtain k where k: "k \<notin> change_ids (tables w0)" using uuid4_fresh by blast
  let ?w = "with_tables ((tables w0)\<lparr>client_change_id := Some k\<rparr>) w0"
  have w: "sound (tables ?w)" "unused_key (tables ?w)" "inquiries (tables ?w) i = Some r" "client_change_id (tables ?w) = Some k"
    "k \<notin> change_ids (tables ?w)" "world_sound ?w"
    using w0(2,5) k by (simp_all add: with_tables_def unused_key_def change_ids_def world_sound_def)
  from end_session_outcome [OF w(1,2), of None i 9 None "''claude''"] w(3) w0(3,4)
  obtain v where v: "end_session i 9 None None ''claude'' ?w = (v, Inr 9)"
    "rows_at i (ended_columns r 9 None) (tables ?w) (tables v)" by (auto simp: unless_none_def)
  obtain q where q: "inquiries (tables v) i = Some q" "iq_columns q = ended_columns r 9 None" "iq_kind q = iq_kind r"
    by (rule rows_at_row [OF v(2) w(3)])
  let ?u = "with_tables ((tables v)\<lparr>client_change_id := Some k\<rparr>) v"
  have step: "session_step v ?u" by (rule keyed_step)
  have u: "inquiries (tables ?u) i = Some q" "iq_kind q = AgentSession" "ended_of q = Some 9" "client_change_id (tables ?u) = Some k"
    using q w0(3) by (simp_all add: with_tables_def ended_of_def ended_columns_def)
  have run: "rtranclp session_step v ?u" using step by blast
  have "unless_none (\<lambda>x. \<not> is_blank x) None" by (simp add: unless_none_def)
  from end_retry_replays [OF w(6) this w(3) w0(4) w(4,5) v(1) run u, of 20 None None "''claude''"]
  obtain u' where "end_session i 20 None None ''claude'' ?u = (u', Inr 9)" by blast
  with v(1) step show ?thesis by blast
qed

section \<open>Names\<close>

lemma next_suffix_least:
  "suffixed x (next_suffix x taken n) \<notin> set taken \<and> n \<le> next_suffix x taken n
   \<and> (\<forall>m. n \<le> m \<longrightarrow> m < next_suffix x taken n \<longrightarrow> suffixed x m \<in> set taken)"
proof (induction x taken n rule: next_suffix.induct)
  case (1 x taken n)
  show ?case
  proof (cases "suffixed x n \<in> set taken")
    case True
    note ih = "1" [OF True]
    have "next_suffix x taken n = next_suffix x taken (Suc n)" using True by (simp add: next_suffix.simps [of x taken n])
    with ih True show ?thesis by (metis Suc_leD Suc_leI le_eq_less_or_eq)
  next
    case False
    then show ?thesis by (simp add: next_suffix.simps [of x taken n])
  qed
qed

lemma set_taken_names: "set (taken_names x s) = {y \<in> set (session_owners s). y = x \<or> prefix (x @ ''#'') y}"
  by (auto simp: taken_names_def)

lemma suffixed_taken: "suffixed x n \<in> set (taken_names x s) \<longleftrightarrow> suffixed x n \<in> set (session_owners s)"
  by (auto simp: set_taken_names suffixed_def)

text \<open>The reservation of a routing name ends, and gives the name asked for when no session, live or ended,
  has it, else the name with the least suffix from 2 on that is free.\<close>

theorem reserve_least_free:
  "reserve_session_actor requested s \<notin> set (session_owners s)
   \<and> (if requested \<notin> set (session_owners s) then reserve_session_actor requested s = requested
      else \<exists>m \<ge> 2. reserve_session_actor requested s = suffixed requested m
        \<and> (\<forall>n. 2 \<le> n \<longrightarrow> n < m \<longrightarrow> suffixed requested n \<in> set (session_owners s)))"
proof (cases "requested \<in> set (taken_names requested s)")
  case False
  then have "requested \<notin> set (session_owners s)" by (simp add: set_taken_names)
  with False show ?thesis by (simp add: reserve_session_actor_def)
next
  case True
  then have t: "requested \<in> set (session_owners s)" by (simp add: set_taken_names)
  have n: "reserve_session_actor requested s = suffixed requested (next_suffix requested (taken_names requested s) 2)"
    using True by (simp add: reserve_session_actor_def Let_def)
  show ?thesis unfolding n using t next_suffix_least [of requested "taken_names requested s" 2] suffixed_taken by auto
qed

theorem reserve_least_free_witness:
  "\<exists>w. rtranclp session_step demo_world w \<and> reserve_session_actor ''claude'' (tables w) = ''claude#2''"
proof -
  obtain w i r where w: "rtranclp session_step demo_world w" "inquiries (tables w) i = Some r" "iq_kind r = AgentSession"
    "iq_owner r = Some ''claude''" "iq_ids (tables w) = [i]" by (rule demo_agent_run)
  have o: "session_owners (tables w) = [''claude'']" using w(2-5) by (simp add: session_owners_def session_row_def List.map_filter_def)
  have two: "suffixed ''claude'' 2 = ''claude#2''" by code_simp
  obtain m where m: "2 \<le> m" "reserve_session_actor ''claude'' (tables w) = suffixed ''claude'' m"
    "\<forall>n. 2 \<le> n \<longrightarrow> n < m \<longrightarrow> suffixed ''claude'' n \<in> set (session_owners (tables w))"
    using reserve_least_free [of "''claude''" "tables w"] o by auto
  have "m = 2"
  proof (rule ccontr)
    assume "m \<noteq> 2"
    with m(1,3) have "suffixed ''claude'' 2 \<in> set (session_owners (tables w))" by simp
    then show False by (simp add: o two)
  qed
  with m(2) w(1) two show ?thesis by auto
qed

section \<open>Starting\<close>








definition demo_start :: "uuid option \<Rightarrow> submit_base" where
  "demo_start k = demo_agent_base\<lparr>sb_idempotency_key := k\<rparr>"

lemma demo_start_simps [simp]:
  "sb_idempotency_key (demo_start k) = k" "sb_account (demo_start k) = Some ''me''" "sb_owner (demo_start k) = Some ''claude''"
  "(demo_start k)\<lparr>sb_owner := Some ''claude''\<rparr> = demo_start k"
  by (simp_all add: demo_start_def demo_agent_base_def demo_base_def)








end
