(* ===== verification/Session_Claims3.thy ===== *)
theory Session_Claims3
  imports Session_Claims2
begin

text \<open>
  The reaper, and the move of a session's audience: what a pass closes, and who may hide or show
  what.
\<close>

section \<open>A pass of the reaper\<close>
















section \<open>Hiding and showing\<close>

lemma set_owner_emails:
  "set (session_owner_emails opener r) = {x. x \<noteq> [] \<and> (x = account_of r \<or> (\<exists>k. opener_of r = Some k \<and> opener k = Some x))}"
  by (auto simp: session_owner_emails_def split: option.splits)

lemma stored_audience: "stored SessionAudience (Some (VStr PRIVATE)) = Some (VStr PRIVATE)"
  "stored SessionAudience (Some (VStr OPEN)) = Some (VStr OPEN)"
  by code_simp+

lemma move_audience_at:
  assumes f: "move_audience pol opener audience replacing key who why (Some caller) (i, r) s = Inr (t, moved)"
    and ok: "sound s" "unused_key s" and r: "inquiries s i = Some r" and a: "audience \<in> {OPEN, PRIVATE}"
  obtains held where "text_column r SessionAudience = Some held" "may_hide caller (session_owner_emails opener r) (Some held)"
    "moved \<longleftrightarrow> held \<in> replacing"
    "rows_at i (if moved then (iq_columns r)(SessionAudience \<mapsto> VStr audience) else iq_columns r) s t"
    "logs i (iq_columns r) s t (if moved then (iq_columns r)(SessionAudience \<mapsto> VStr audience) else iq_columns r)"
proof -
  obtain held where h: "text_column r SessionAudience = Some held" "may_hide caller (session_owner_emails opener r) (Some held)"
    using f by (auto simp: move_audience_def split: option.splits if_splits)
  show ?thesis
  proof (cases "held \<in> replacing")
    case False
    then have "t = s" "\<not> moved" using f h by (simp_all add: move_audience_def)
    then show ?thesis using False h rows_at_refl [OF r] by (intro that [of held]) (simp_all add: logs_refl)
  next
    case True
    then obtain u cid subs where u: "update_field i SessionAudience (Some (VStr audience)) s = Inr u"
      "emit_field_change i AgentSession SessionAudience (Some (VStr held)) (Some (VStr audience)) key who why [] u = Inr (t, cid, subs)"
      "moved" using f h by (auto simp: move_audience_def bind_res_Inr_iff)
    have "stored SessionAudience (Some (VStr audience)) = Some (VStr audience)" using a stored_audience by auto
    note c = update_field_at [OF u(1) this r rows_at_refl [OF r] refl]
    have oku: "sound u" "unused_key u" using update_field_sound [OF u(1) ok(1)] unused_key_same [OF c(2,3)] ok(2) by simp_all
    have "iq_columns r SessionAudience = Some (VStr held)" using h(1) by (simp add: text_column_Some)
    note e = emit_field_logs [where a = "iq_columns r", OF u(2) oku this]
    show ?thesis
      using True h u(3) rows_at_emitted [OF c(1) e(2)] logs_trans [OF logs_refl [OF c(2)] e(1)] by (intro that [of held]) simp_all
  qed
qed

lemma filter_one: "distinct xs \<Longrightarrow> filter (\<lambda>j. j = i) xs = (if i \<in> set xs then [i] else [])"
  by (induction xs) auto

lemma locked_one:
  assumes "rows_ok s"
  shows "locked_sessions [i] s = (case session_row s i of None \<Rightarrow> [] | Some r \<Rightarrow> [(i, r)])"
proof -
  have "session_row s i = None" if "i \<notin> set (iq_ids s)"
    using that rows_okD(2) [OF assms] by (cases "inquiries s i") (auto simp: session_row_def)
  then show ?thesis using filter_one [OF rows_okD(1) [OF assms], of i]
    by (simp add: locked_sessions_def List.map_filter_def split: option.split)
qed

text \<open>C14: a session is hidden or shown again by its owner alone, its account or the person whose key opened it, an
  admin not excepted, however it changed since the request read it: a call that answers moved it from
  \<open>open\<close> or \<open>private\<close> to the audience asked for, in its row and in the log, or found it there; a
  \<open>staff\<close> session is never lowered; and a call that is refused leaves every row and the log as they were.\<close>

theorem audience_moved_by_its_owner:
  assumes "world_sound w" "unused_key (tables w)" "audience \<in> {OPEN, PRIVATE}"
    and "set_session_audience_route pol opener who i audience s0 w = (v, res)"
  shows "case res of
      Inl e \<Rightarrow> v = w
    | Inr ids \<Rightarrow>
        (case session_row (tables w) i of
           None \<Rightarrow> ids = [] \<and> inquiries (tables v) = inquiries (tables w) \<and> change_log (tables v) = change_log (tables w)
         | Some r \<Rightarrow>
             \<exists>held. held \<in> {OPEN, PRIVATE} \<and> text_column r SessionAudience = Some held
               \<and> lower (id_email who) \<in> lower ` {x. x \<noteq> [] \<and> (x = account_of r \<or> (\<exists>k. opener_of r = Some k \<and> opener k = Some x))}
               \<and> ids = (if held = audience then [] else [i])
               \<and> rows_at i ((iq_columns r)(SessionAudience \<mapsto> VStr audience)) (tables w) (tables v)
               \<and> logs i (iq_columns r) (tables w) (tables v) ((iq_columns r)(SessionAudience \<mapsto> VStr audience)))"
proof (cases res)
  case (Inl e)
  have "v = w"
    using assms(4) Inl unfolding set_session_audience_route_def set_session_audience_def world_tx_def in_tx_def Let_def
    by (auto split: option.splits if_splits sum.splits prod.splits)
  with Inl show ?thesis by simp
next
  case (Inr ids)
  let ?s = "(tables w)\<lparr>buffer := []\<rparr>"
  let ?f = "set_session_audience_on_conn pol opener [i] audience ({OPEN, PRIVATE} - {audience}) {STAFF} (id_key who) (id_email who)
    (if audience = PRIVATE then ''hidden by its owner'' else ''shown again'') (Some (id_email who))"
  obtain t where t: "?f ?s = Inr (t, ids)" "v = w\<lparr>tables := t\<lparr>published := published t @ buffer t, buffer := []\<rparr>\<rparr>"
    using assms(4) Inr unfolding set_session_audience_route_def set_session_audience_def world_tx_def in_tx_def Let_def
    by (auto simp: on_tables_def bind_res_Inr_iff split: option.splits if_splits sum.splits prod.splits)
  have ok: "sound ?s" "unused_key ?s" using assms(1,2) by (simp_all add: world_sound_def)
  then have rows: "rows_ok ?s" by (simp add: sound_def)
  note one = locked_one [OF rows, of i]
  show ?thesis
  proof (cases "session_row (tables w) i")
    case None
    then have "session_row ?s i = None" by (simp add: session_row_def)
    then show ?thesis using t Inr None one by (auto simp: set_session_audience_on_conn_def bind_res_Inr_iff)
  next
    case (Some r)
    then have r: "session_row ?s i = Some r" "inquiries ?s i = Some r" by (auto simp: session_row_def split: option.splits if_splits)
    have l: "locked_sessions [i] ?s = [(i, r)]" using one r(1) by simp
    obtain moved where m: "move_audience pol opener audience ({OPEN, PRIVATE} - {audience}) (id_key who) (id_email who)
        (if audience = PRIVATE then ''hidden by its owner'' else ''shown again'') (Some (id_email who)) (i, r) ?s = Inr (t, moved)"
      "ids = (if moved then [i] else [])"
      using t(1) by (auto simp: set_session_audience_on_conn_def bind_res_Inr_iff l Let_def split: if_splits)
    obtain held where h: "text_column r SessionAudience = Some held" "may_hide (id_email who) (session_owner_emails opener r) (Some held)"
      "moved \<longleftrightarrow> held \<in> {OPEN, PRIVATE} - {audience}"
      "rows_at i (if moved then (iq_columns r)(SessionAudience \<mapsto> VStr audience) else iq_columns r) ?s t"
      "logs i (iq_columns r) ?s t (if moved then (iq_columns r)(SessionAudience \<mapsto> VStr audience) else iq_columns r)"
      by (rule move_audience_at [OF m(1) ok r(2) assms(3)])
    have held: "held \<in> {OPEN, PRIVATE}" using h(2) by (simp add: may_hide_def)
    then have cols: "(if moved then (iq_columns r)(SessionAudience \<mapsto> VStr audience) else iq_columns r)
        = (iq_columns r)(SessionAudience \<mapsto> VStr audience)"
      using h(1,3) by (auto simp: text_column_Some fun_upd_idem)
    have who: "lower (id_email who) \<in> lower ` {x. x \<noteq> [] \<and> (x = account_of r \<or> (\<exists>k. opener_of r = Some k \<and> opener k = Some x))}"
      using h(2) set_owner_emails [of opener r] by (auto simp: may_hide_def)
    have "ids = (if held = audience then [] else [i])" using m(2) h(3) held by auto
    moreover have "rows_at i ((iq_columns r)(SessionAudience \<mapsto> VStr audience)) (tables w) (tables v)"
      "logs i (iq_columns r) (tables w) (tables v) ((iq_columns r)(SessionAudience \<mapsto> VStr audience))"
      using h(4,5) unfolding cols t(2) by simp_all
    ultimately show ?thesis using Inr Some held h(1) who by auto
  qed
qed

text \<open>A live session of the demonstration, hidden by its account.\<close>

definition open_policy :: audience_policy where
  "open_policy = \<lparr>prepare_audience_change = (\<lambda>s. Inr ()), on_audience = (\<lambda>i a s. Inr ())\<rparr>"

definition demo_owner :: identity where
  "demo_owner = \<lparr>user_id = 1, id_key = None, id_email = ''me'', id_role = Viewer, read_audiences = {OPEN, PRIVATE},
     open_audiences = {OPEN, PRIVATE}, pinned_audience = None, id_domain = None\<rparr>"

lemma hide_total:
  assumes ok: "sound s" "unused_key s" and r: "inquiries s i = Some r" "iq_kind r = AgentSession"
    and held: "text_column r SessionAudience = Some OPEN" and own: "account_of r = caller" "caller \<noteq> []"
  shows "\<exists>t. set_session_audience_on_conn open_policy opener [i] PRIVATE {OPEN} {STAFF} key who why (Some caller) s = Inr (t, [i])"
proof -
  have rows: "rows_ok s" using ok(1) by (simp add: sound_def)
  have c: "free_column SessionAudience" "\<not> immutable (COLUMN_SPECS SessionAudience)"
    by (simp_all add: free_column_def ColumnSpec_def)
  have shape: "audience_shape PRIVATE" "audience_shape OPEN" by code_simp+
  have acc: "column_accepts SessionAudience (Some (VStr PRIVATE))"
    using shape by (simp add: column_accepts_def typed_def column_check_def ColumnSpec_def)
  have ap: "column_applies (iq_kind r) SessionAudience" using r(2) by (simp add: column_applies_def ColumnSpec_def)
  obtain u where u: "update_field i SessionAudience (Some (VStr PRIVATE)) s = Inr u"
    using update_field_accepts [OF rows r(1) ap c(1) stored_audience(1)] c(2) acc by blast
  note at = update_field_at [OF u stored_audience(1) r(1) rows_at_refl [OF r(1)] refl]
  have oku: "store_ok u" "unused_key u" using update_field_sound [OF u ok(1)] unused_key_same [OF at(2,3)] ok(2) by (simp_all add: sound_def)
  have m: "mirror_check (FieldEdited SessionAudience) AgentSession (field_snapshot SessionAudience (Some (VStr OPEN)))
      (field_snapshot SessionAudience (Some (VStr PRIVATE)))"
    using shape ap r(2) c(2) by (simp add: mirror_check_edit mirrored_columns column_check_def)
  obtain t cid subs where t: "emit_field_change i AgentSession SessionAudience (Some (VStr OPEN)) (Some (VStr PRIVATE)) key who why [] u
      = Inr (t, cid, subs)" using emit_field_total [OF oku m] by blast
  have "may_hide caller (session_owner_emails opener r) (Some OPEN)"
    using own by (auto simp: may_hide_def session_owner_emails_def)
  then have "move_audience open_policy opener PRIVATE {OPEN} key who why (Some caller) (i, r) s = Inr (t, True)"
    using held u t by (simp add: move_audience_def open_policy_def)
  moreover have "locked_sessions [i] s = [(i, r)]" using locked_one [OF rows, of i] r by (simp add: session_row_def)
  ultimately show ?thesis using held by (simp add: set_session_audience_on_conn_def open_policy_def)
qed

theorem audience_moved_by_its_owner_witness:
  "\<exists>w v i r. rtranclp session_step demo_world w
     \<and> set_session_audience_route open_policy (\<lambda>k. None) demo_owner i PRIVATE (tables w) w = (v, Inr [i])
     \<and> inquiries (tables v) i = Some r \<and> text_column r SessionAudience = Some PRIVATE"
proof -
  obtain w i r where w: "rtranclp session_step demo_world w" "inquiries (tables w) i = Some r" "iq_kind r = AgentSession"
    "sound (tables w)" "client_change_id (tables w) = None" "text_column r SessionAudience = Some OPEN" "account_of r = ''me''"
    by (rule demo_agent_run)
  let ?who = "demo_owner"
  have key: "unused_key (tables w)" by (rule unused_key_None [OF w(5)])
  have row: "session_row (tables w) i = Some r" using w(2,3) by (simp add: session_row_def)
  have e: "id_email ?who = ''me''" "id_key ?who = None" by (simp_all add: demo_owner_def)
  have own: "may_hide ''me'' (session_owner_emails (\<lambda>k. None) r) (Some OPEN)"
    using w(7) by (auto simp: may_hide_def session_owner_emails_def)
  have "{OPEN, PRIVATE} - {PRIVATE} = {OPEN}" by auto
  moreover obtain t where "set_session_audience_on_conn open_policy (\<lambda>k. None) [i] PRIVATE {OPEN} {STAFF} None ''me'' ''hidden by its owner''
      (Some ''me'') ((tables w)\<lparr>buffer := []\<rparr>) = Inr (t, [i])"
    using hide_total [of "(tables w)\<lparr>buffer := []\<rparr>" i r "''me''" "\<lambda>k. None" None "''me''" "''hidden by its owner''"] w key by auto
  ultimately obtain v where v: "set_session_audience_route open_policy (\<lambda>k. None) ?who i PRIVATE (tables w) w = (v, Inr [i])"
    using row w(6) own by (simp add: set_session_audience_route_def set_session_audience_def world_tx_def in_tx_def on_tables_def e)
  have ok: "world_sound w" by (rule sessions.reachable_inv [OF demo_world_fresh w(1)])
  from audience_moved_by_its_owner [OF ok key _ v] row
  have "rows_at i ((iq_columns r)(SessionAudience \<mapsto> VStr PRIVATE)) (tables w) (tables v)" by auto
  then obtain q where "inquiries (tables v) i = Some q" "iq_columns q = (iq_columns r)(SessionAudience \<mapsto> VStr PRIVATE)"
    by (rule rows_at_row [OF _ w(2)])
  then have "inquiries (tables v) i = Some q" "text_column q SessionAudience = Some PRIVATE" by (simp_all add: text_column_Some)
  with w(1) v show ?thesis by blast
qed

end
