(* ===== verification/Ordered_Dict.thy ===== *)
theory Ordered_Dict
  imports Prelude "HOL-Library.AList"
begin

text \<open>
  A Python \<open>dict\<close> whose order matters: an association list in insertion order. Assigning to a
  key that is there keeps its place (\<open>AList.update\<close>), \<open>pop\<close> is \<open>AList.delete\<close>; here are the
  assignment followed by \<open>move_to_end\<close>, and the eviction of the oldest entries over a bound.
\<close>

definition keys :: "('k \<times> 'v) list \<Rightarrow> 'k list" where
  "keys d = map fst d"

definition get_or :: "'v \<Rightarrow> 'v option \<Rightarrow> 'v" where
  "get_or x y = (case y of None \<Rightarrow> x | Some z \<Rightarrow> z)"

definition put_last :: "'k \<Rightarrow> 'v \<Rightarrow> ('k \<times> 'v) list \<Rightarrow> ('k \<times> 'v) list" where
  "put_last k v d = AList.delete k d @ [(k, v)]"

text \<open>\<open>while len(d) > n: d.popitem(last=False)\<close>, and the same for a list or a deque.\<close>

definition newest :: "nat \<Rightarrow> 'a list \<Rightarrow> 'a list" where
  "newest n xs = drop (length xs - n) xs"

lemma get_or_simps [simp]: "get_or x None = x" "get_or x (Some y) = y"
  by (simp_all add: get_or_def)

lemma length_newest [simp]: "length (newest n xs) = min n (length xs)"
  by (simp add: newest_def)

lemma newest_all [simp]: "length xs \<le> n \<Longrightarrow> newest n xs = xs"
  by (simp add: newest_def)

lemma newest_split: "\<exists>ys. xs = ys @ newest n xs \<and> length ys = length xs - n"
  unfolding newest_def by (rule exI [of _ "take (length xs - n) xs"]) simp

lemma subseq_newest: "subseq (newest n xs) xs"
proof -
  obtain ys where "xs = ys @ newest n xs" using newest_split by blast
  then show ?thesis by (metis list_emb_append2 subseq_order.order_refl)
qed

lemma set_newest: "set (newest n xs) \<subseteq> set xs"
  by (simp add: newest_def set_drop_subset)

lemma distinct_newest [simp]: "distinct xs \<Longrightarrow> distinct (newest n xs)"
  by (simp add: newest_def)

lemma newest_newest [simp]: "newest n (newest n xs) = newest n xs"
  by (simp add: newest_def)

lemma map_newest: "map f (newest n xs) = newest n (map f xs)"
  by (simp add: newest_def drop_map)

lemma keys_delete [simp]: "keys (AList.delete k d) = filter (\<lambda>x. x \<noteq> k) (keys d)"
  by (induction d) (auto simp: keys_def)

lemma keys_simps [simp]:
  "keys [] = []" "keys ((k, v) # d) = k # keys d" "keys (d @ e) = keys d @ keys e"
  "keys (newest n d) = newest n (keys d)"
  "keys (put_last k v d) = filter (\<lambda>x. x \<noteq> k) (keys d) @ [k]" "length (keys d) = length d"
  using keys_delete [of k d] by (simp_all add: keys_def map_newest put_last_def)

lemma keys_update [simp]: "keys (AList.update k v d) = (if k \<in> set (keys d) then keys d else keys d @ [k])"
  by (induction d) auto

lemma set_keys: "k \<in> set (keys d) \<longleftrightarrow> map_of d k \<noteq> None"
  by (auto simp: keys_def map_of_eq_None_iff)

lemma map_of_put_last [simp]: "map_of (put_last k v d) = (map_of d)(k \<mapsto> v)"
  by (rule ext) (simp add: put_last_def map_of_append AList.delete_conv' map_add_def split: option.split)

lemma map_of_newest: "distinct (keys d) \<Longrightarrow> map_of (newest n d) k = Some v \<Longrightarrow> map_of d k = Some v"
  by (metis keys_def map_of_eq_Some_iff set_newest subset_iff distinct_newest map_newest)

end
