(* ===== verification/Inbound_Queue.thy ===== *)
theory Inbound_Queue
  imports Session_Access Ordered_Dict
begin

text \<open>
  \<open>server/inbound.py\<close>: the in-memory queues that carry messages to live sessions, the leases of their
  pollers, the receipts of keyed sends, and the lines handed out and not yet recorded. Every method
  runs under one lock, so it is one function of the state; it reads one instant of the clock, given
  as \<open>now\<close>. A waiter is an index into a heap of events; its loop is open, since it is
  suspended on it, and setting its event counts as done once it is scheduled on that loop. Of a canvas
  context only the conversation is read here; its visuals, fork, page, trail, marks, attachments, relay and prompt
  ride along as named values.
\<close>

section \<open>Messages and state\<close>

datatype inbound_kind = LineKind | CommandKind | AnswerKind | SettingsKind | InterruptKind | RunKind

record canvas_context =
  cx_canvas :: uuid
  cx_instructions :: "string option"
  cx_continuation :: "uuid option"
  cx_conversation :: "uuid option"
  cx_rest :: "(string \<times> json) list"

record inbound =
  ib_text :: string
  ib_kind :: inbound_kind
  ib_payload :: "(string \<times> json) list option"
  ib_source :: "string option"
  ib_role :: "role option"
  ib_room :: "string option"
  ib_context :: "canvas_context option"

datatype run_state = Idle | Running | RequiresAction | TakenOver

record poller_run =
  po_run :: "string option"
  po_machine :: "string option"
  po_cwd :: "string option"
  po_cli :: "string option"
  po_instance :: "string option"
  po_runs :: bool
  po_state :: run_state

record drain_refusal =
  rf_reason :: string
  rf_at :: int

record lease =
  ls_expires :: rat
  ls_where :: poller_run
  ls_account :: "string option"

record handed =
  hd_source :: "string option"
  hd_until :: rat

record send_receipt =
  sr_delivered :: "uuid list"
  sr_fingerprint :: string
  sr_source :: "string option"

record waiter =
  wt_event :: bool
  wt_released :: bool

datatype send_error = IdempotencyReuseError

record inbound_queue =
  max_per_session :: nat
  max_seen_keys :: nat
  max_handed_chats :: nat
  handed_ttl_sec :: rat
  max_turns :: nat
  turn_ttl_sec :: rat
  poller_ttl_sec :: rat
  max_gone :: nat
  max_retired :: nat
  max_stopped :: nat
  max_places :: nat
  max_refusals :: nat
  leases :: "(uuid \<times> lease) list"
  gone :: "uuid list"
  retired :: "(uuid \<times> string) list"
  stopped_runs :: "(uuid \<times> string) list"
  places :: "(uuid \<times> poller_run) list"
  refusals :: "(uuid \<times> drain_refusal) list"
  queues :: "(uuid \<times> inbound list) list"
  seen_sends :: "(uuid \<times> send_receipt) list"
  parked_waiters :: "(uuid \<times> nat list) list"
  waiter_at :: "nat \<Rightarrow> waiter option"
  handed_lines :: "(uuid \<times> handed list) list"
  turns :: "((uuid \<times> string) \<times> rat) list"

definition InboundQueue :: inbound_queue where
  "InboundQueue =
     \<lparr>max_per_session = 256, max_seen_keys = 4096, max_handed_chats = 10000, handed_ttl_sec = 600, max_turns = 10000,
      turn_ttl_sec = 3600, poller_ttl_sec = 45, max_gone = 1024, max_retired = 4096, max_stopped = 4096, max_places = 4096,
      max_refusals = 4096, leases = [], gone = [], retired = [], stopped_runs = [], places = [], refusals = [], queues = [],
      seen_sends = [], parked_waiters = [], waiter_at = (\<lambda>w. None), handed_lines = [], turns = []\<rparr>"

section \<open>Waking\<close>

definition parked :: "uuid \<Rightarrow> inbound_queue \<Rightarrow> nat list" where
  "parked i q = get_or [] (map_of (parked_waiters q) i)"

definition wake :: "uuid \<Rightarrow> inbound_queue \<Rightarrow> inbound_queue" where
  "wake i q = q\<lparr>waiter_at := (\<lambda>w. if w \<in> set (parked i q) then map_option (\<lambda>x. x\<lparr>wt_event := True\<rparr>) (waiter_at q w)
     else waiter_at q w)\<rparr>"

definition release_waiters :: "uuid \<Rightarrow> inbound_queue \<Rightarrow> inbound_queue" where
  "release_waiters i q = q\<lparr>waiter_at := (\<lambda>w. if w \<in> set (parked i q) then map_option (\<lambda>x. x\<lparr>wt_released := True\<rparr>) (waiter_at q w)
     else waiter_at q w)\<rparr>"

section \<open>Leases\<close>

text \<open>Only a CLI's run is noted.\<close>

definition lapse :: "uuid \<Rightarrow> lease \<Rightarrow> inbound_queue \<Rightarrow> inbound_queue" where
  "lapse i l q =
     (if po_cli (ls_where l) = None then q
      else q\<lparr>gone := newest (max_gone q) (filter (\<lambda>j. j \<noteq> i) (gone q) @ [i])\<rparr>)"

definition live_lease :: "rat \<Rightarrow> uuid \<Rightarrow> inbound_queue \<Rightarrow> inbound_queue \<times> lease option" where
  "live_lease now i q =
     (case map_of (leases q) i of
        None \<Rightarrow> (q, None)
      | Some l \<Rightarrow>
          if ls_expires l \<le> now then (lapse i l (q\<lparr>leases := AList.delete i (leases q)\<rparr>), None)
          else (q, Some l))"

definition drop_lease :: "uuid \<times> lease \<Rightarrow> inbound_queue \<Rightarrow> inbound_queue" where
  "drop_lease = (\<lambda>(i, l) q. lapse i l (q\<lparr>leases := AList.delete i (leases q)\<rparr>))"

definition sweep_leases :: "rat \<Rightarrow> inbound_queue \<Rightarrow> inbound_queue" where
  "sweep_leases now q = fold drop_lease (filter (\<lambda>(i, l). ls_expires l \<le> now) (leases q)) q"

text \<open>\<open>mark_poller\<close>: what the poller says of its run, its state at \<open>idle\<close>.\<close>

definition kept_state :: "poller_run \<Rightarrow> lease option \<Rightarrow> run_state" where
  "kept_state said held =
     (case held of None \<Rightarrow> Idle
      | Some l \<Rightarrow> if po_instance said = None \<or> po_instance (ls_where l) \<noteq> po_instance said then Idle else po_state (ls_where l))"

definition mark_poller :: "rat \<Rightarrow> uuid \<Rightarrow> poller_run \<Rightarrow> string option \<Rightarrow> inbound_queue \<Rightarrow> inbound_queue" where
  "mark_poller now i said account q =
     (let (q1, held) = live_lease now i (q\<lparr>refusals := AList.delete i (refusals q)\<rparr>);
          run = said\<lparr>po_state := kept_state said held\<rparr>;
          q2 = q1\<lparr>leases := AList.update i \<lparr>ls_expires = now + poller_ttl_sec q, ls_where = run, ls_account = account\<rparr> (leases q1)\<rparr>;
          q3 = (if po_run said \<noteq> None \<or> po_machine said \<noteq> None \<or> po_cwd said \<noteq> None
                then q2\<lparr>places := newest (max_places q) (put_last i run (places q2))\<rparr> else q2)
      in if length (leases q3) > 1024 then sweep_leases now q3 else q3)"

definition poller_run_of :: "rat \<Rightarrow> uuid \<Rightarrow> inbound_queue \<Rightarrow> inbound_queue \<times> poller_run option" where
  "poller_run_of now i q = (let (q1, l) = live_lease now i q in (q1, map_option ls_where l))"

definition has_poller :: "rat \<Rightarrow> uuid \<Rightarrow> inbound_queue \<Rightarrow> inbound_queue \<times> bool" where
  "has_poller now i q = (let (q1, r) = poller_run_of now i q in (q1, r \<noteq> None))"

definition last_run :: "uuid \<Rightarrow> inbound_queue \<Rightarrow> poller_run option" where
  "last_run i q = map_of (places q) i"

definition refuse :: "int \<Rightarrow> uuid \<Rightarrow> string \<Rightarrow> inbound_queue \<Rightarrow> inbound_queue" where
  "refuse utc i why q =
     (let when = (case map_of (refusals q) i of None \<Rightarrow> utc | Some r \<Rightarrow> if utc \<le> rf_at r then rf_at r + 1 else utc)
      in q\<lparr>refusals := newest (max_refusals q) (put_last i \<lparr>rf_reason = why, rf_at = when\<rparr> (refusals q))\<rparr>)"

definition refusal_of :: "uuid \<Rightarrow> inbound_queue \<Rightarrow> drain_refusal option" where
  "refusal_of i q = map_of (refusals q) i"

definition report_state :: "rat \<Rightarrow> uuid \<Rightarrow> string \<Rightarrow> run_state \<Rightarrow> inbound_queue \<Rightarrow> inbound_queue \<times> bool" where
  "report_state now i inst st q =
     (let (q1, held) = live_lease now i q in
      case held of
        None \<Rightarrow> (q1, False)
      | Some l \<Rightarrow>
          if po_instance (ls_where l) \<noteq> Some inst then (q1, False)
          else (q1\<lparr>leases := AList.update i (l\<lparr>ls_where := (ls_where l)\<lparr>po_state := st\<rparr>\<rparr>) (leases q1)\<rparr>, True))"

definition take_gone :: "rat \<Rightarrow> inbound_queue \<Rightarrow> inbound_queue \<times> uuid list" where
  "take_gone now q = (let q1 = sweep_leases now q in (q1\<lparr>gone := []\<rparr>, gone q1))"

definition active_poller_ids ::
  "rat \<Rightarrow> string option \<Rightarrow> string option \<Rightarrow> inbound_queue \<Rightarrow> inbound_queue \<times> uuid list" where
  "active_poller_ids now cli account q =
     (let q1 = sweep_leases now q in
      (q1, map fst (filter (\<lambda>(i, l). (cli = None \<or> po_cli (ls_where l) = cli)
         \<and> (case account of None \<Rightarrow> True | Some a \<Rightarrow> lower (get_or [] (ls_account l)) = lower a)) (leases q1))))"

definition held_by_another :: "rat \<Rightarrow> uuid \<Rightarrow> string \<Rightarrow> string \<Rightarrow> inbound_queue \<Rightarrow> inbound_queue \<times> bool" where
  "held_by_another now i cli inst q =
     (if map_of (retired q) i = Some inst then (q, True)
      else let (q1, held) = live_lease now i q in
        (q1, case held of None \<Rightarrow> False
             | Some l \<Rightarrow> po_cli (ls_where l) = Some cli \<and> po_instance (ls_where l) \<noteq> None
                 \<and> po_instance (ls_where l) \<noteq> Some inst))"

definition revoke :: "uuid \<Rightarrow> inbound_queue \<Rightarrow> inbound_queue" where
  "revoke i q =
     wake i (release_waiters i
       (case map_of (leases q) i of None \<Rightarrow> q | Some l \<Rightarrow> lapse i l (q\<lparr>leases := AList.delete i (leases q)\<rparr>)))"

definition forget_poller :: "uuid \<Rightarrow> inbound_queue \<Rightarrow> inbound_queue" where
  "forget_poller i q = revoke i q"

definition retire_run :: "uuid \<Rightarrow> inbound_queue \<Rightarrow> inbound_queue" where
  "retire_run i q =
     (let named = (case map_of (leases q) i of None \<Rightarrow> map_of (places q) i | Some l \<Rightarrow> Some (ls_where l)) in
      revoke i
        (case (case named of None \<Rightarrow> None | Some r \<Rightarrow> po_instance r) of
           None \<Rightarrow> q
         | Some inst \<Rightarrow> q\<lparr>retired := newest (max_retired q) (put_last i inst (retired q))\<rparr>))"

definition runs_on :: "rat \<Rightarrow> string \<Rightarrow> string \<Rightarrow> inbound_queue \<Rightarrow> inbound_queue \<times> (uuid \<times> poller_run) list" where
  "runs_on now machine account q =
     (let q1 = sweep_leases now q in
      (q1, map (\<lambda>(i, l). (i, ls_where l)) (filter (\<lambda>(i, l). po_cli (ls_where l) \<noteq> None
         \<and> po_machine (ls_where l) = Some machine
         \<and> (case ls_account l of None \<Rightarrow> False | Some a \<Rightarrow> lower a = lower account)) (leases q1))))"

definition stop_run :: "uuid \<Rightarrow> inbound_queue \<Rightarrow> inbound_queue" where
  "stop_run i q =
     revoke i
       (case (case map_of (leases q) i of None \<Rightarrow> None | Some l \<Rightarrow> po_instance (ls_where l)) of
          None \<Rightarrow> q
        | Some inst \<Rightarrow> q\<lparr>stopped_runs := newest (max_stopped q) (put_last i inst (stopped_runs q))\<rparr>)"

definition stopped :: "uuid \<Rightarrow> string \<Rightarrow> inbound_queue \<Rightarrow> bool" where
  "stopped i inst q \<longleftrightarrow> map_of (stopped_runs q) i = Some inst"

section \<open>Sending and draining\<close>

definition queue_of :: "uuid \<Rightarrow> inbound_queue \<Rightarrow> inbound list" where
  "queue_of i q = get_or [] (map_of (queues q) i)"

definition append_capped :: "uuid \<Rightarrow> inbound \<Rightarrow> inbound_queue \<Rightarrow> inbound_queue" where
  "append_capped i m q =
     wake i (q\<lparr>queues := AList.update i (newest (max_per_session q) (queue_of i q @ [m])) (queues q)\<rparr>)"

definition remember :: "uuid \<Rightarrow> send_receipt \<Rightarrow> inbound_queue \<Rightarrow> inbound_queue" where
  "remember k r q = q\<lparr>seen_sends := newest (max_seen_keys q) (AList.update k r (seen_sends q))\<rparr>"

definition send_once ::
  "uuid option \<Rightarrow> (uuid \<times> inbound) list \<Rightarrow> string \<Rightarrow> inbound_queue \<Rightarrow> inbound_queue \<times> (send_error + uuid list)" where
  "send_once key targets fingerprint q =
     (case (case key of None \<Rightarrow> None | Some k \<Rightarrow> map_of (seen_sends q) k) of
        Some seen \<Rightarrow>
          if sr_fingerprint seen \<noteq> fingerprint then (q, Inl IdempotencyReuseError) else (q, Inr (sr_delivered seen))
      | None \<Rightarrow>
          let q1 = fold (\<lambda>(i, m). append_capped i m) targets q; delivered = map fst targets in
          (case key of
             None \<Rightarrow> q1
           | Some k \<Rightarrow>
               if delivered = [] then q1
               else remember k \<lparr>sr_delivered = delivered, sr_fingerprint = fingerprint, sr_source = ib_source (snd (hd targets))\<rparr> q1,
           Inr delivered))"

definition key_sender :: "uuid \<Rightarrow> inbound_queue \<Rightarrow> string option" where
  "key_sender k q = (case map_of (seen_sends q) k of None \<Rightarrow> None | Some seen \<Rightarrow> sr_source seen)"

definition enqueue :: "uuid \<Rightarrow> inbound \<Rightarrow> inbound_queue \<Rightarrow> inbound_queue \<times> nat" where
  "enqueue i m q = (let q1 = append_capped i m q in (q1, length (queue_of i q1)))"

definition drain :: "uuid \<Rightarrow> inbound_queue \<Rightarrow> inbound_queue \<times> inbound list" where
  "drain i q = (q\<lparr>queues := AList.delete i (queues q)\<rparr>, queue_of i q)"

definition pending :: "uuid \<Rightarrow> inbound_queue \<Rightarrow> nat" where
  "pending i q = length (queue_of i q)"

definition is_full :: "uuid \<Rightarrow> inbound_queue \<Rightarrow> bool" where
  "is_full i q \<longleftrightarrow> max_per_session q \<le> pending i q"

text \<open>\<open>await_messages\<close>: the waiter registers before the first drain, and leaves however it ends.\<close>

definition register_waiter :: "uuid \<Rightarrow> nat \<Rightarrow> inbound_queue \<Rightarrow> inbound_queue" where
  "register_waiter i w q =
     q\<lparr>parked_waiters := AList.update i (parked i q @ [w]) (parked_waiters q),
       waiter_at := (waiter_at q)(w \<mapsto> \<lparr>wt_event = False, wt_released = False\<rparr>)\<rparr>"

definition release_waiter :: "uuid \<Rightarrow> nat \<Rightarrow> inbound_queue \<Rightarrow> inbound_queue" where
  "release_waiter i w q =
     (case map_of (parked_waiters q) i of
        None \<Rightarrow> q
      | Some ws \<Rightarrow>
          q\<lparr>parked_waiters := (if remove1 w ws = [] then AList.delete i (parked_waiters q)
              else AList.update i (remove1 w ws) (parked_waiters q))\<rparr>)"

section \<open>Lines of a chat\<close>

text \<open>\<open>del handed[:-n]\<close> deletes nothing when \<open>n\<close> is 0.\<close>

definition keep_last :: "nat \<Rightarrow> 'a list \<Rightarrow> 'a list" where
  "keep_last n xs = (if n = 0 then xs else newest n xs)"

definition hand_line :: "rat \<Rightarrow> uuid option \<Rightarrow> inbound \<Rightarrow> inbound_queue \<Rightarrow> inbound_queue" where
  "hand_line now taker m q =
     (case (case ib_context m of None \<Rightarrow> None | Some c \<Rightarrow> cx_conversation c) of
        None \<Rightarrow> q
      | Some c \<Rightarrow>
          let lines = get_or [] (map_of (handed_lines q) c) @ [\<lparr>hd_source = ib_source m, hd_until = now + handed_ttl_sec q\<rparr>];
              q1 = q\<lparr>handed_lines := put_last c (keep_last (max_per_session q) lines) (handed_lines q)\<rparr>
          in case (taker, ib_source m) of
               (Some t, Some s) \<Rightarrow> q1\<lparr>turns := put_last (t, lower s) (now + turn_ttl_sec q) (turns q)\<rparr>
             | _ \<Rightarrow> q1)"

definition hand_out :: "rat \<Rightarrow> inbound list \<Rightarrow> uuid option \<Rightarrow> inbound_queue \<Rightarrow> inbound_queue" where
  "hand_out now messages taker q =
     (let q1 = fold (hand_line now taker) messages q in
      q1\<lparr>handed_lines := newest (max_handed_chats q1) (handed_lines q1), turns := newest (max_turns q1) (turns q1)\<rparr>)"

definition took_line :: "rat \<Rightarrow> uuid \<Rightarrow> string \<Rightarrow> inbound_queue \<Rightarrow> bool" where
  "took_line now taker poster q \<longleftrightarrow> now < get_or 0 (map_of (turns q) (taker, lower poster))"

fun forget_line :: "string \<Rightarrow> handed list \<Rightarrow> handed list" where
  "forget_line sender [] = []"
| "forget_line sender (h # hs) =
     (if lower (get_or [] (hd_source h)) = lower sender then hs else h # forget_line sender hs)"

definition recorded :: "uuid \<Rightarrow> string list \<Rightarrow> inbound_queue \<Rightarrow> inbound_queue" where
  "recorded c senders q =
     (let lines = fold forget_line senders (get_or [] (map_of (handed_lines q) c)) in
      q\<lparr>handed_lines := (if lines = [] then AList.delete c (handed_lines q) else AList.update c lines (handed_lines q))\<rparr>)"

definition in_conversation :: "uuid \<Rightarrow> inbound \<Rightarrow> bool" where
  "in_conversation c m \<longleftrightarrow> (case ib_context m of None \<Rightarrow> False | Some x \<Rightarrow> cx_conversation x = Some c)"

definition conversation_senders :: "rat \<Rightarrow> uuid \<Rightarrow> inbound_queue \<Rightarrow> string option list" where
  "conversation_senders now c q =
     map ib_source (filter (in_conversation c) (concat (map snd (queues q))))
   @ map hd_source (filter (\<lambda>h. now < hd_until h) (get_or [] (map_of (handed_lines q) c)))"

definition drop_conversation :: "uuid \<Rightarrow> inbound_queue \<Rightarrow> inbound_queue \<times> nat" where
  "drop_conversation c q =
     (q\<lparr>handed_lines := AList.delete c (handed_lines q),
        queues := map (\<lambda>(i, ms). (i, filter (\<lambda>m. \<not> in_conversation c m) ms)) (queues q)\<rparr>,
      sum_list (map (\<lambda>(i, ms). length ms - length (filter (\<lambda>m. \<not> in_conversation c m) ms)) (queues q)))"

end
