(* ===== verification/Inbound_Machine.thy ===== *)
theory Inbound_Machine
  imports Inbound_Queue
begin

text \<open>
  The message queue as a transition system. A poll (\<open>await_messages\<close>) is a coroutine split where it
  takes the lock or awaits, so that sends, other polls, revocations and the clock run in between; every
  other method is one step. The history records what was sent, taken, dropped, polled and told.
\<close>

section \<open>Steps\<close>

datatype poll_end = Gave "inbound list" | Woke | TimedOut | Cancelled

datatype phase = Registered | Waiting | Leaving poll_end | Draining | Returned "inbound list"

datatype inbound_event =
    Sent uuid inbound
  | Overflowed uuid
  | Taken uuid "inbound list"
  | ChatDropped
  | Keyed uuid
  | Polled uuid "string option" rat
  | Told "uuid list" "uuid list"

record inbound_system =
  iq :: inbound_queue
  time_now :: rat
  polls :: "nat \<Rightarrow> (uuid \<times> phase) option"
  history :: "inbound_event list"

fun send_events :: "(uuid \<times> inbound) list \<Rightarrow> inbound_queue \<Rightarrow> inbound_event list" where
  "send_events [] q = []"
| "send_events ((i, m) # ts) q =
     Sent i m # (if is_full i q then [Overflowed i] else []) @ send_events ts (append_capped i m q)"

definition keyed_events :: "uuid option \<Rightarrow> (uuid \<times> inbound) list \<Rightarrow> inbound_queue \<Rightarrow> inbound_event list" where
  "keyed_events key targets q =
     (case key of
        None \<Rightarrow> send_events targets q
      | Some k \<Rightarrow> if map_of (seen_sends q) k \<noteq> None then []
          else send_events targets q @ (if targets = [] then [] else [Keyed k]))"

text \<open>The methods that read or write leases, and what the history notes of them: a poll with its CLI and
  time, and the sessions \<open>take_gone\<close> told beside those that hold a lease after it.\<close>

inductive lease_op :: "rat \<Rightarrow> inbound_queue \<Rightarrow> inbound_queue \<Rightarrow> inbound_event list \<Rightarrow> bool" for now q where
  marked: "lease_op now q (mark_poller now i said account q) [Polled i (po_cli said) now]"
| asked: "lease_op now q (fst (poller_run_of now i q)) []"
| refused: "lease_op now q (refuse utc i why q) []"
| reported: "lease_op now q (fst (report_state now i inst st q)) []"
| gone_taken: "lease_op now q (fst (take_gone now q)) [Told (snd (take_gone now q)) (keys (leases (fst (take_gone now q))))]"
| listed: "lease_op now q (fst (active_poller_ids now cli account q)) []"
| compared: "lease_op now q (fst (held_by_another now i cli' inst q)) []"
| forgotten: "lease_op now q (forget_poller i q) []"
| replaced: "lease_op now q (retire_run i q) []"
| machine_listed: "lease_op now q (fst (runs_on now machine owner q)) []"
| halted: "lease_op now q (stop_run i q) []"

definition poll_result :: "nat \<Rightarrow> poll_end \<Rightarrow> inbound_queue \<Rightarrow> phase" where
  "poll_result w e q =
     (case e of
        Gave ms \<Rightarrow> Returned ms
      | TimedOut \<Rightarrow> Returned []
      | Cancelled \<Rightarrow> Returned []
      | Woke \<Rightarrow> (case waiter_at q w of None \<Rightarrow> Draining | Some x \<Rightarrow> if wt_released x then Returned [] else Draining))"

inductive inbound_step :: "inbound_system \<Rightarrow> inbound_system \<Rightarrow> bool" where
  tick: "0 \<le> d \<Longrightarrow> inbound_step s (s\<lparr>time_now := time_now s + d\<rparr>)"
| leased: "lease_op (time_now s) (iq s) q evs \<Longrightarrow> inbound_step s (s\<lparr>iq := q, history := history s @ evs\<rparr>)"
| sent: "inbound_step s (s\<lparr>iq := fst (send_once key targets fingerprint (iq s)),
    history := history s @ keyed_events key targets (iq s)\<rparr>)"
| enqueued: "inbound_step s (s\<lparr>iq := fst (enqueue i m (iq s)), history := history s @ send_events [(i, m)] (iq s)\<rparr>)"
| drained: "inbound_step s (s\<lparr>iq := fst (drain i (iq s)), history := history s @ [Taken i (snd (drain i (iq s)))]\<rparr>)"
| registered: "polls s w = None \<Longrightarrow>
    inbound_step s (s\<lparr>iq := register_waiter i w (iq s), polls := (polls s)(w \<mapsto> (i, Registered))\<rparr>)"
| first_drained: "polls s w = Some (i, Registered) \<Longrightarrow>
    inbound_step s (s\<lparr>iq := fst (drain i (iq s)), history := history s @ [Taken i (snd (drain i (iq s)))],
      polls := (polls s)(w \<mapsto> (i, if snd (drain i (iq s)) = [] then Waiting else Leaving (Gave (snd (drain i (iq s))))))\<rparr>)"
| woken: "polls s w = Some (i, Waiting) \<Longrightarrow> waiter_at (iq s) w = Some x \<Longrightarrow> wt_event x \<Longrightarrow>
    inbound_step s (s\<lparr>polls := (polls s)(w \<mapsto> (i, Leaving Woke))\<rparr>)"
| timed_out: "polls s w = Some (i, Waiting) \<Longrightarrow> inbound_step s (s\<lparr>polls := (polls s)(w \<mapsto> (i, Leaving TimedOut))\<rparr>)"
| cancelled: "polls s w = Some (i, Waiting) \<Longrightarrow> inbound_step s (s\<lparr>polls := (polls s)(w \<mapsto> (i, Leaving Cancelled))\<rparr>)"
| released: "polls s w = Some (i, Leaving e) \<Longrightarrow>
    inbound_step s (s\<lparr>iq := release_waiter i w (iq s), polls := (polls s)(w \<mapsto> (i, poll_result w e (iq s)))\<rparr>)"
| last_drained: "polls s w = Some (i, Draining) \<Longrightarrow>
    inbound_step s (s\<lparr>iq := fst (drain i (iq s)), history := history s @ [Taken i (snd (drain i (iq s)))],
      polls := (polls s)(w \<mapsto> (i, Returned (snd (drain i (iq s)))))\<rparr>)"
| handed_out: "inbound_step s (s\<lparr>iq := hand_out (time_now s) messages taker (iq s)\<rparr>)"
| noted: "inbound_step s (s\<lparr>iq := recorded c senders (iq s)\<rparr>)"
| chat_dropped: "inbound_step s (s\<lparr>iq := fst (drop_conversation c (iq s)), history := history s @ [ChatDropped]\<rparr>)"

text \<open>The server starts with nothing queued, whatever its bounds.\<close>

definition inbound_start :: "inbound_system \<Rightarrow> bool" where
  "inbound_start s \<longleftrightarrow>
     leases (iq s) = [] \<and> gone (iq s) = [] \<and> queues (iq s) = [] \<and> seen_sends (iq s) = [] \<and> parked_waiters (iq s) = []
   \<and> (\<forall>w. waiter_at (iq s) w = None) \<and> (\<forall>w. polls s w = None) \<and> history s = []"

section \<open>What each method leaves alone\<close>

definition same_mail :: "inbound_queue \<Rightarrow> inbound_queue \<Rightarrow> bool" where
  "same_mail q r \<longleftrightarrow> queues r = queues q \<and> max_per_session r = max_per_session q
     \<and> seen_sends r = seen_sends q \<and> max_seen_keys r = max_seen_keys q"

definition same_leases :: "inbound_queue \<Rightarrow> inbound_queue \<Rightarrow> bool" where
  "same_leases q r \<longleftrightarrow> leases r = leases q \<and> gone r = gone q \<and> max_gone r = max_gone q"

definition same_caps :: "inbound_queue \<Rightarrow> inbound_queue \<Rightarrow> bool" where
  "same_caps q r \<longleftrightarrow> max_per_session r = max_per_session q \<and> max_seen_keys r = max_seen_keys q \<and> max_gone r = max_gone q"

text \<open>The same waiters, none with a flag taken back.\<close>

definition flags_grow :: "waiter option \<Rightarrow> waiter option \<Rightarrow> bool" where
  "flags_grow x y \<longleftrightarrow>
     (case x of
        None \<Rightarrow> y = None
      | Some a \<Rightarrow> (case y of None \<Rightarrow> False
          | Some b \<Rightarrow> (wt_event a \<longrightarrow> wt_event b) \<and> (wt_released a \<longrightarrow> wt_released b)))"

definition waiters_grow :: "inbound_queue \<Rightarrow> inbound_queue \<Rightarrow> bool" where
  "waiters_grow q r \<longleftrightarrow> parked_waiters r = parked_waiters q \<and> (\<forall>w. flags_grow (waiter_at q w) (waiter_at r w))"

lemma flags_grow_refl [simp]: "flags_grow x x"
  by (simp add: flags_grow_def split: option.split)

lemma flags_grow_trans: "flags_grow x y \<Longrightarrow> flags_grow y z \<Longrightarrow> flags_grow x z"
  by (cases x; cases y; cases z) (simp_all add: flags_grow_def)

lemma same_refl [simp]: "same_mail q q" "same_leases q q" "same_caps q q" "waiters_grow q q"
  by (simp_all add: same_mail_def same_leases_def same_caps_def waiters_grow_def)

lemma same_trans:
  "same_mail p q \<Longrightarrow> same_mail q r \<Longrightarrow> same_mail p r"
  "same_leases p q \<Longrightarrow> same_leases q r \<Longrightarrow> same_leases p r"
  "same_caps p q \<Longrightarrow> same_caps q r \<Longrightarrow> same_caps p r"
  by (simp_all add: same_mail_def same_leases_def same_caps_def)

lemma waiters_grow_trans: "waiters_grow p q \<Longrightarrow> waiters_grow q r \<Longrightarrow> waiters_grow p r"
  unfolding waiters_grow_def using flags_grow_trans by metis

lemma lapse_simps [simp]:
  "queues (lapse i l q) = queues q" "max_per_session (lapse i l q) = max_per_session q"
  "seen_sends (lapse i l q) = seen_sends q" "max_seen_keys (lapse i l q) = max_seen_keys q"
  "leases (lapse i l q) = leases q" "max_gone (lapse i l q) = max_gone q"
  "poller_ttl_sec (lapse i l q) = poller_ttl_sec q" "parked_waiters (lapse i l q) = parked_waiters q" "waiter_at (lapse i l q) = waiter_at q"
  by (simp_all add: lapse_def)

lemma wake_simps [simp]:
  "queues (wake i q) = queues q" "max_per_session (wake i q) = max_per_session q"
  "seen_sends (wake i q) = seen_sends q" "max_seen_keys (wake i q) = max_seen_keys q"
  "leases (wake i q) = leases q" "max_gone (wake i q) = max_gone q" "gone (wake i q) = gone q"
  "poller_ttl_sec (wake i q) = poller_ttl_sec q" "parked_waiters (wake i q) = parked_waiters q"
  "queues (release_waiters i q) = queues q" "max_per_session (release_waiters i q) = max_per_session q"
  "seen_sends (release_waiters i q) = seen_sends q" "max_seen_keys (release_waiters i q) = max_seen_keys q"
  "leases (release_waiters i q) = leases q" "max_gone (release_waiters i q) = max_gone q"
  "gone (release_waiters i q) = gone q" "poller_ttl_sec (release_waiters i q) = poller_ttl_sec q"
  "parked_waiters (release_waiters i q) = parked_waiters q"
  by (simp_all add: wake_def release_waiters_def)

lemma grow_wake: "waiters_grow q (wake i q)" "waiters_grow q (release_waiters i q)"
  by (auto simp: waiters_grow_def wake_def release_waiters_def flags_grow_def split: option.split)

lemma drop_lease_simps [simp]:
  "queues (drop_lease x q) = queues q" "max_per_session (drop_lease x q) = max_per_session q"
  "seen_sends (drop_lease x q) = seen_sends q" "max_seen_keys (drop_lease x q) = max_seen_keys q"
  "max_gone (drop_lease x q) = max_gone q" "poller_ttl_sec (drop_lease x q) = poller_ttl_sec q"
  "parked_waiters (drop_lease x q) = parked_waiters q" "waiter_at (drop_lease x q) = waiter_at q"
  "leases (drop_lease x q) = AList.delete (fst x) (leases q)"
  by (simp_all add: drop_lease_def split: prod.split)

lemma fold_drop_simps [simp]:
  "queues (fold drop_lease xs q) = queues q" "max_per_session (fold drop_lease xs q) = max_per_session q"
  "seen_sends (fold drop_lease xs q) = seen_sends q" "max_seen_keys (fold drop_lease xs q) = max_seen_keys q"
  "max_gone (fold drop_lease xs q) = max_gone q" "poller_ttl_sec (fold drop_lease xs q) = poller_ttl_sec q"
  "parked_waiters (fold drop_lease xs q) = parked_waiters q" "waiter_at (fold drop_lease xs q) = waiter_at q"
  by (induction xs arbitrary: q) simp_all

lemma live_lease_cases:
  obtains (unleased) "map_of (leases q) i = None" "live_lease now i q = (q, None)"
  | (lapsed) l where "map_of (leases q) i = Some l" "ls_expires l \<le> now" "live_lease now i q = (drop_lease (i, l) q, None)"
  | (held) l where "map_of (leases q) i = Some l" "now < ls_expires l" "live_lease now i q = (q, Some l)"
proof (cases "map_of (leases q) i")
  case (Some l)
  then show ?thesis by (cases "ls_expires l \<le> now") (auto simp: live_lease_def drop_lease_def intro: that)
qed (auto simp: live_lease_def intro: that)

lemma live_lease_simps [simp]:
  "queues (fst (live_lease now i q)) = queues q" "max_per_session (fst (live_lease now i q)) = max_per_session q"
  "seen_sends (fst (live_lease now i q)) = seen_sends q" "max_seen_keys (fst (live_lease now i q)) = max_seen_keys q"
  "max_gone (fst (live_lease now i q)) = max_gone q" "poller_ttl_sec (fst (live_lease now i q)) = poller_ttl_sec q"
  "parked_waiters (fst (live_lease now i q)) = parked_waiters q" "waiter_at (fst (live_lease now i q)) = waiter_at q"
  by (cases rule: live_lease_cases [where q = q and i = i and now = now]; simp)+

lemma sweep_simps [simp]:
  "queues (sweep_leases now q) = queues q" "max_per_session (sweep_leases now q) = max_per_session q"
  "seen_sends (sweep_leases now q) = seen_sends q" "max_seen_keys (sweep_leases now q) = max_seen_keys q"
  "max_gone (sweep_leases now q) = max_gone q" "poller_ttl_sec (sweep_leases now q) = poller_ttl_sec q"
  "parked_waiters (sweep_leases now q) = parked_waiters q" "waiter_at (sweep_leases now q) = waiter_at q"
  by (simp_all add: sweep_leases_def)

text \<open>No method on leases touches mail or bounds, and none takes a waiter's flag back.\<close>

lemma revoke_leaves: "same_mail q (revoke i q)" "same_caps q (revoke i q)" "waiters_grow q (revoke i q)"
  "poller_ttl_sec (revoke i q) = poller_ttl_sec q"
proof -
  let ?r = "case map_of (leases q) i of None \<Rightarrow> q | Some l \<Rightarrow> lapse i l (q\<lparr>leases := AList.delete i (leases q)\<rparr>)"
  have r: "same_mail q ?r" "same_caps q ?r" "waiters_grow q ?r" "poller_ttl_sec ?r = poller_ttl_sec q"
    by (simp_all add: same_mail_def same_caps_def waiters_grow_def split: option.split)
  show "same_mail q (revoke i q)" "same_caps q (revoke i q)" "poller_ttl_sec (revoke i q) = poller_ttl_sec q"
    using r by (simp_all add: revoke_def same_mail_def same_caps_def)
  show "waiters_grow q (revoke i q)"
    unfolding revoke_def using r(3) grow_wake waiters_grow_trans by blast
qed

lemma lease_op_leaves:
  assumes "lease_op now q r evs"
  shows "same_mail q r" "same_caps q r" "waiters_grow q r" "poller_ttl_sec r = poller_ttl_sec q"
proof -
  have "same_mail q r \<and> same_caps q r \<and> waiters_grow q r \<and> poller_ttl_sec r = poller_ttl_sec q"
    using assms
  proof cases
    case (forgotten i)
    then show ?thesis using revoke_leaves by (simp add: forget_poller_def)
  next
    case (replaced i)
    obtain x where "r = revoke i (q\<lparr>retired := x\<rparr>)"
      using replaced by (auto simp: retire_run_def Let_def split: option.splits) (metis inbound_queue.surjective inbound_queue.update_convs(15))+
    moreover have "same_mail q (q\<lparr>retired := x\<rparr>)" "same_caps q (q\<lparr>retired := x\<rparr>)" "waiters_grow q (q\<lparr>retired := x\<rparr>)"
      by (simp_all add: same_mail_def same_caps_def waiters_grow_def)
    ultimately show ?thesis using revoke_leaves [where q = "q\<lparr>retired := x\<rparr>" and i = i]
      by (auto intro: same_trans waiters_grow_trans)
  next
    case (halted i)
    obtain x where "r = revoke i (q\<lparr>stopped_runs := x\<rparr>)"
      using halted by (auto simp: stop_run_def Let_def split: option.splits) (metis inbound_queue.surjective inbound_queue.update_convs(16))+
    moreover have "same_mail q (q\<lparr>stopped_runs := x\<rparr>)" "same_caps q (q\<lparr>stopped_runs := x\<rparr>)" "waiters_grow q (q\<lparr>stopped_runs := x\<rparr>)"
      by (simp_all add: same_mail_def same_caps_def waiters_grow_def)
    ultimately show ?thesis using revoke_leaves [where q = "q\<lparr>stopped_runs := x\<rparr>" and i = i]
      by (auto intro: same_trans waiters_grow_trans)
  qed (simp_all add: mark_poller_def poller_run_of_def refuse_def report_state_def take_gone_def active_poller_ids_def
      held_by_another_def runs_on_def Let_def split_beta same_mail_def same_caps_def waiters_grow_def split: option.split)
  then show "same_mail q r" "same_caps q r" "waiters_grow q r" "poller_ttl_sec r = poller_ttl_sec q" by blast+
qed

end
