(* ===== verification/Inbound_Mail.thy ===== *)
theory Inbound_Mail
  imports Inbound_Machine
begin

text \<open>
  What becomes of messages: the queues are first in first out, give each message at most once and lose none
  below the bound; no poll sleeps on a message; and a send under a key is remembered. Each is an invariant,
  or a relation of a state to its successors, proved by rule induction on the steps.
\<close>

section \<open>First in, first out\<close>

definition sent_to :: "uuid \<Rightarrow> inbound_event list \<Rightarrow> inbound list" where
  "sent_to i tr = List.map_filter (\<lambda>e. case e of Sent j m \<Rightarrow> if j = i then Some m else None | _ \<Rightarrow> None) tr"

definition taken_from :: "uuid \<Rightarrow> inbound_event list \<Rightarrow> inbound list" where
  "taken_from i tr = concat (map (\<lambda>e. case e of Taken j ms \<Rightarrow> if j = i then ms else [] | _ \<Rightarrow> []) tr)"

definition lossless :: "uuid \<Rightarrow> inbound_event list \<Rightarrow> bool" where
  "lossless i tr \<longleftrightarrow> Overflowed i \<notin> set tr \<and> ChatDropped \<notin> set tr"

lemma history_simps [simp]:
  "sent_to i [] = []" "sent_to i (tr @ tr') = sent_to i tr @ sent_to i tr'"
  "sent_to i (Sent j m # tr) = (if j = i then [m] else []) @ sent_to i tr"
  "sent_to i (Overflowed j # tr) = sent_to i tr" "sent_to i (Taken j ms # tr) = sent_to i tr"
  "sent_to i (ChatDropped # tr) = sent_to i tr" "sent_to i (Keyed k # tr) = sent_to i tr"
  "sent_to i (Polled j c t # tr) = sent_to i tr" "sent_to i (Told is js # tr) = sent_to i tr"
  "taken_from i [] = []" "taken_from i (tr @ tr') = taken_from i tr @ taken_from i tr'"
  "taken_from i (Sent j m # tr) = taken_from i tr" "taken_from i (Overflowed j # tr) = taken_from i tr"
  "taken_from i (Taken j ms # tr) = (if j = i then ms else []) @ taken_from i tr"
  "taken_from i (ChatDropped # tr) = taken_from i tr" "taken_from i (Keyed k # tr) = taken_from i tr"
  "taken_from i (Polled j c t # tr) = taken_from i tr" "taken_from i (Told is js # tr) = taken_from i tr"
  "lossless i []" "lossless i (tr @ tr') \<longleftrightarrow> lossless i tr \<and> lossless i tr'"
  by (auto simp: sent_to_def taken_from_def lossless_def List.map_filter_def)

definition mail_ok :: "inbound_queue \<Rightarrow> inbound_event list \<Rightarrow> bool" where
  "mail_ok q h \<longleftrightarrow>
     (\<forall>i. length (queue_of i q) \<le> max_per_session q)
   \<and> (\<forall>i. subseq (taken_from i h @ queue_of i q) (sent_to i h))
   \<and> (\<forall>i. lossless i h \<longrightarrow> taken_from i h @ queue_of i q = sent_to i h)"

lemma queue_of_append [simp]:
  "queue_of j (append_capped i m q) = (if j = i then newest (max_per_session q) (queue_of i q @ [m]) else queue_of j q)"
  by (simp add: queue_of_def append_capped_def wake_def update_conv')

lemma queue_of_drain [simp]: "queue_of j (fst (drain i q)) = (if j = i then [] else queue_of j q)"
  "snd (drain i q) = queue_of i q"
  by (simp_all add: queue_of_def drain_def delete_conv')

lemma queue_of_dropped [simp]:
  "queue_of j (fst (drop_conversation c q)) = filter (\<lambda>m. \<not> in_conversation c m) (queue_of j q)"
proof -
  have "map_of (map (\<lambda>(i, ms). (i, filter (\<lambda>m. \<not> in_conversation c m) ms)) d) j
      = map_option (filter (\<lambda>m. \<not> in_conversation c m)) (map_of d j)" for d :: "(uuid \<times> inbound list) list"
    by (induction d) auto
  then show ?thesis by (cases "map_of (queues q) j") (simp_all add: queue_of_def drop_conversation_def)
qed

lemma caps_kept [simp]:
  "max_per_session (append_capped i m q) = max_per_session q" "max_seen_keys (append_capped i m q) = max_seen_keys q"
  "seen_sends (append_capped i m q) = seen_sends q"
  "max_per_session (fst (drain i q)) = max_per_session q" "max_per_session (fst (drop_conversation c q)) = max_per_session q"
  "max_per_session (remember k r q) = max_per_session q" "queues (remember k r q) = queues q"
  by (simp_all add: append_capped_def drain_def drop_conversation_def remember_def)

lemma mail_ok_append:
  assumes "mail_ok q h"
  shows "mail_ok (append_capped i m q) (h @ Sent i m # (if is_full i q then [Overflowed i] else []))"
proof -
  let ?n = "max_per_session q"
  have fit: "newest ?n (queue_of i q @ [m]) = queue_of i q @ [m]" if "\<not> is_full i q"
    using that by (simp add: is_full_def pending_def)
  have sub: "subseq (taken_from i h @ newest ?n (queue_of i q @ [m])) (sent_to i h @ [m])"
  proof -
    have "subseq (taken_from i h @ newest ?n (queue_of i q @ [m])) (taken_from i h @ queue_of i q @ [m])"
      by (rule subseq_append' [THEN iffD2]) (rule subseq_newest)
    moreover have "subseq ((taken_from i h @ queue_of i q) @ [m]) (sent_to i h @ [m])"
      using assms by (intro list_emb_append_mono) (auto simp: mail_ok_def)
    ultimately show ?thesis using subseq_order.order_trans by fastforce
  qed
  show ?thesis
    unfolding mail_ok_def using assms fit sub
    by (auto simp: mail_ok_def lossless_def is_full_def pending_def)
qed

lemma mail_ok_sends: "mail_ok q h \<Longrightarrow> mail_ok (fold (\<lambda>(i, m). append_capped i m) ts q) (h @ send_events ts q)"
proof (induction ts arbitrary: q h)
  case (Cons t ts)
  obtain i m where t: "t = (i, m)" by (cases t)
  show ?case using Cons.IH [OF mail_ok_append [OF Cons.prems, of i m]] by (simp add: t)
qed simp

lemma mail_ok_quiet:
  assumes "mail_ok q h" "queues r = queues q" "max_per_session r = max_per_session q"
    and "\<forall>e \<in> set evs. (case e of Sent i m \<Rightarrow> False | Taken i ms \<Rightarrow> False | _ \<Rightarrow> True)"
  shows "mail_ok r (h @ evs)"
proof -
  have "sent_to i evs = [] \<and> taken_from i evs = []" for i
    using assms(4) by (induction evs) (auto split: inbound_event.splits)
  moreover have "queue_of i r = queue_of i q" for i using assms(2) by (simp add: queue_of_def)
  ultimately show ?thesis using assms(1,3) by (simp add: mail_ok_def)
qed

lemma mail_ok_drain: "mail_ok q h \<Longrightarrow> mail_ok (fst (drain i q)) (h @ [Taken i (queue_of i q)])"
  by (auto simp: mail_ok_def lossless_def)

lemma mail_ok_dropped: "mail_ok q h \<Longrightarrow> mail_ok (fst (drop_conversation c q)) (h @ [ChatDropped])"
  unfolding mail_ok_def
proof (elim conjE, intro conjI allI)
  fix i
  assume len: "\<forall>i. length (queue_of i q) \<le> max_per_session q"
    and sub: "\<forall>i. subseq (taken_from i h @ queue_of i q) (sent_to i h)"
  show "length (queue_of i (fst (drop_conversation c q))) \<le> max_per_session (fst (drop_conversation c q))"
    using len by (simp add: order_trans [OF length_filter_le])
  have "subseq (taken_from i h @ filter (\<lambda>m. \<not> in_conversation c m) (queue_of i q)) (taken_from i h @ queue_of i q)"
    by (rule subseq_append' [THEN iffD2]) simp
  then show "subseq (taken_from i (h @ [ChatDropped]) @ queue_of i (fst (drop_conversation c q))) (sent_to i (h @ [ChatDropped]))"
    using subseq_order.order_trans [OF _ sub [rule_format, of i]] by simp
  show "lossless i (h @ [ChatDropped]) \<longrightarrow>
      taken_from i (h @ [ChatDropped]) @ queue_of i (fst (drop_conversation c q)) = sent_to i (h @ [ChatDropped])"
    by (simp add: lossless_def)
qed

lemma send_once_cases:
  obtains (replayed) k seen where "key = Some k" "map_of (seen_sends q) k = Some seen"
      "fst (send_once key targets fp q) = q" "keyed_events key targets q = []"
      "snd (send_once key targets fp q) = (if sr_fingerprint seen = fp then Inr (sr_delivered seen) else Inl IdempotencyReuseError)"
  | (unkeyed) "key = None \<or> targets = []" "fst (send_once key targets fp q) = fold (\<lambda>(i, m). append_capped i m) targets q"
      "keyed_events key targets q = send_events targets q" "snd (send_once key targets fp q) = Inr (map fst targets)"
  | (kept_key) k r where "key = Some k" "map_of (seen_sends q) k = None" "targets \<noteq> []"
      "sr_delivered r = map fst targets" "sr_fingerprint r = fp"
      "fst (send_once key targets fp q) = remember k r (fold (\<lambda>(i, m). append_capped i m) targets q)"
      "keyed_events key targets q = send_events targets q @ [Keyed k]" "snd (send_once key targets fp q) = Inr (map fst targets)"
proof (cases key)
  case None
  then show ?thesis by (intro unkeyed) (simp_all add: send_once_def keyed_events_def Let_def)
next
  case (Some k)
  show ?thesis
  proof (cases "map_of (seen_sends q) k")
    case None
    show ?thesis
    proof (cases "targets = []")
      case True
      with Some None show ?thesis by (intro unkeyed) (simp_all add: send_once_def keyed_events_def Let_def)
    next
      case False
      with Some None show ?thesis
        by (intro kept_key [where r = "\<lparr>sr_delivered = map fst targets, sr_fingerprint = fp, sr_source = ib_source (snd (hd targets))\<rparr>"])
           (simp_all add: send_once_def keyed_events_def Let_def)
    qed
  next
    case (Some seen)
    with \<open>key = Some k\<close> show ?thesis by (intro replayed) (auto simp: send_once_def keyed_events_def)
  qed
qed

lemma lease_events_quiet:
  "lease_op now q r evs \<Longrightarrow> \<forall>e \<in> set evs. (case e of Sent i m \<Rightarrow> False | Taken i ms \<Rightarrow> False | _ \<Rightarrow> True)"
  by (erule lease_op.cases) simp_all

lemma mail_ok_lease: "lease_op now q r evs \<Longrightarrow> mail_ok q h \<Longrightarrow> mail_ok r (h @ evs)"
  using lease_op_leaves(1) [of now q r evs] lease_events_quiet by (intro mail_ok_quiet) (auto simp: same_mail_def)

lemma mail_ok_nothing: "mail_ok q h \<Longrightarrow> queues r = queues q \<Longrightarrow> max_per_session r = max_per_session q \<Longrightarrow> mail_ok r h"
  using mail_ok_quiet [of q h r "[]"] by simp

lemma hand_line_simps [simp]:
  "queues (hand_line now taker m q) = queues q" "max_per_session (hand_line now taker m q) = max_per_session q"
  "seen_sends (hand_line now taker m q) = seen_sends q" "max_seen_keys (hand_line now taker m q) = max_seen_keys q"
  "leases (hand_line now taker m q) = leases q" "gone (hand_line now taker m q) = gone q"
  "max_gone (hand_line now taker m q) = max_gone q" "poller_ttl_sec (hand_line now taker m q) = poller_ttl_sec q"
  "parked_waiters (hand_line now taker m q) = parked_waiters q" "waiter_at (hand_line now taker m q) = waiter_at q"
  by (simp_all add: hand_line_def Let_def split: option.split)

lemma fold_hand_simps [simp]:
  "queues (fold (hand_line now taker) ms q) = queues q" "max_per_session (fold (hand_line now taker) ms q) = max_per_session q"
  "seen_sends (fold (hand_line now taker) ms q) = seen_sends q" "max_seen_keys (fold (hand_line now taker) ms q) = max_seen_keys q"
  "leases (fold (hand_line now taker) ms q) = leases q" "gone (fold (hand_line now taker) ms q) = gone q"
  "max_gone (fold (hand_line now taker) ms q) = max_gone q" "poller_ttl_sec (fold (hand_line now taker) ms q) = poller_ttl_sec q"
  "parked_waiters (fold (hand_line now taker) ms q) = parked_waiters q" "waiter_at (fold (hand_line now taker) ms q) = waiter_at q"
  by (induction ms arbitrary: q) simp_all

lemma line_simps [simp]:
  "queues (hand_out now ms taker q) = queues q" "max_per_session (hand_out now ms taker q) = max_per_session q"
  "seen_sends (hand_out now ms taker q) = seen_sends q" "max_seen_keys (hand_out now ms taker q) = max_seen_keys q"
  "leases (hand_out now ms taker q) = leases q" "gone (hand_out now ms taker q) = gone q"
  "max_gone (hand_out now ms taker q) = max_gone q" "poller_ttl_sec (hand_out now ms taker q) = poller_ttl_sec q"
  "parked_waiters (hand_out now ms taker q) = parked_waiters q" "waiter_at (hand_out now ms taker q) = waiter_at q"
  "queues (recorded c senders q) = queues q" "max_per_session (recorded c senders q) = max_per_session q"
  "seen_sends (recorded c senders q) = seen_sends q" "max_seen_keys (recorded c senders q) = max_seen_keys q"
  "leases (recorded c senders q) = leases q" "gone (recorded c senders q) = gone q"
  "max_gone (recorded c senders q) = max_gone q" "poller_ttl_sec (recorded c senders q) = poller_ttl_sec q"
  "parked_waiters (recorded c senders q) = parked_waiters q" "waiter_at (recorded c senders q) = waiter_at q"
  by (simp_all add: hand_out_def recorded_def Let_def)

lemma waiter_simps [simp]:
  "queues (register_waiter i w q) = queues q" "max_per_session (register_waiter i w q) = max_per_session q"
  "seen_sends (register_waiter i w q) = seen_sends q" "max_seen_keys (register_waiter i w q) = max_seen_keys q"
  "leases (register_waiter i w q) = leases q" "gone (register_waiter i w q) = gone q"
  "max_gone (register_waiter i w q) = max_gone q" "poller_ttl_sec (register_waiter i w q) = poller_ttl_sec q"
  "queues (release_waiter i w q) = queues q" "max_per_session (release_waiter i w q) = max_per_session q"
  "seen_sends (release_waiter i w q) = seen_sends q" "max_seen_keys (release_waiter i w q) = max_seen_keys q"
  "leases (release_waiter i w q) = leases q" "gone (release_waiter i w q) = gone q"
  "max_gone (release_waiter i w q) = max_gone q" "poller_ttl_sec (release_waiter i w q) = poller_ttl_sec q"
  "waiter_at (release_waiter i w q) = waiter_at q"
  by (simp_all add: register_waiter_def release_waiter_def split: option.split)

lemma mail_ok_remember: "mail_ok q (h @ evs) \<Longrightarrow> mail_ok (remember k r q) (h @ evs @ [Keyed k])"
  using mail_ok_quiet [of q "h @ evs" "remember k r q" "[Keyed k]"] by simp

lemma mail_ok_step:
  assumes "inbound_step s t" "mail_ok (iq s) (history s)"
  shows "mail_ok (iq t) (history t)"
  using assms
proof cases
  case (leased q evs)
  then show ?thesis using mail_ok_lease assms(2) by simp
next
  case (sent key targets fp)
  show ?thesis
    unfolding sent
    by (cases rule: send_once_cases [where key = key and targets = targets and fp = fp and q = "iq s"])
       (use assms(2) mail_ok_sends [OF assms(2)] in \<open>simp_all add: mail_ok_remember\<close>)
next
  case (enqueued i m)
  then show ?thesis using mail_ok_sends [OF assms(2), of "[(i, m)]"] by (simp add: enqueue_def Let_def)
next
  case (drained i)
  then show ?thesis using mail_ok_drain [OF assms(2)] by simp
next
  case (first_drained w i)
  then show ?thesis using mail_ok_drain [OF assms(2)] by simp
next
  case (last_drained w i)
  then show ?thesis using mail_ok_drain [OF assms(2)] by simp
next
  case (chat_dropped c)
  then show ?thesis using mail_ok_dropped [OF assms(2)] by simp
qed (auto intro: mail_ok_nothing)

lemma history_grows: "inbound_step s t \<Longrightarrow> prefix (history s) (history t)"
  by (erule inbound_step.cases) simp_all

interpretation mail: audited_system inbound_start inbound_step "\<lambda>s. mail_ok (iq s) (history s)" history
proof
  show "mail_ok (iq s) (history s)" if "inbound_start s" for s
    using that by (simp add: inbound_start_def mail_ok_def queue_of_def)
  show "mail_ok (iq t) (history t)" if "mail_ok (iq s) (history s)" "inbound_step s t" for s t
    using mail_ok_step that by blast
  show "prefix (history s) (history t)" if "inbound_step s t" for s t
    by (rule history_grows [OF that])
qed

section \<open>No poll sleeps on a message\<close>

fun at_queue :: "phase \<Rightarrow> bool" where
  "at_queue Registered = True"
| "at_queue Waiting = True"
| "at_queue (Leaving e) = True"
| "at_queue Draining = False"
| "at_queue (Returned ms) = False"

definition wait_ok :: "inbound_queue \<Rightarrow> (nat \<Rightarrow> (uuid \<times> phase) option) \<Rightarrow> bool" where
  "wait_ok q ps \<longleftrightarrow>
     (\<forall>i w. w \<in> set (parked i q) \<longleftrightarrow> (\<exists>ph. ps w = Some (i, ph) \<and> at_queue ph))
   \<and> (\<forall>i. distinct (parked i q))
   \<and> (\<forall>w. ps w \<noteq> None \<longrightarrow> waiter_at q w \<noteq> None)
   \<and> (\<forall>w i x. ps w = Some (i, Waiting) \<longrightarrow> waiter_at q w = Some x \<longrightarrow> queue_of i q \<noteq> [] \<longrightarrow> wt_event x)"

text \<open>A step that parks no one keeps this when it takes no flag back and wakes whom it sends to.\<close>

lemma wait_ok_grow:
  assumes "wait_ok q ps" "waiters_grow q r"
    and "\<And>i. queue_of i r \<noteq> [] \<Longrightarrow> queue_of i q \<noteq> [] \<or> (\<forall>w \<in> set (parked i q). \<forall>x. waiter_at r w = Some x \<longrightarrow> wt_event x)"
  shows "wait_ok r ps"
proof -
  have p: "parked i r = parked i q" for i using assms(2) by (simp add: waiters_grow_def parked_def)
  have f: "flags_grow (waiter_at q w) (waiter_at r w)" for w using assms(2) by (simp add: waiters_grow_def)
  have "wt_event x" if "ps w = Some (i, Waiting)" "waiter_at r w = Some x" "queue_of i r \<noteq> []" for w i x
  proof (cases "queue_of i q = []")
    case True
    have "w \<in> set (parked i q)" using assms(1) that(1) unfolding wait_ok_def by (metis at_queue.simps(2))
    then show ?thesis using assms(3) [OF that(3)] True that(2) by blast
  next
    case False
    have "ps w \<noteq> None" using that(1) by simp
    then have "waiter_at q w \<noteq> None" using assms(1) unfolding wait_ok_def by blast
    then obtain y where "waiter_at q w = Some y" by auto
    then show ?thesis using assms(1) that f [of w] False by (auto simp: wait_ok_def flags_grow_def)
  qed
  moreover have "waiter_at r w \<noteq> None" if "ps w \<noteq> None" for w
  proof -
    have "waiter_at q w \<noteq> None" using assms(1) that unfolding wait_ok_def by blast
    then show ?thesis using f [of w] by (auto simp: flags_grow_def split: option.splits)
  qed
  ultimately show ?thesis using assms(1) unfolding wait_ok_def p by blast
qed

lemma append_grows: "waiters_grow q (append_capped i m q)"
  "\<forall>w \<in> set (parked i q). \<forall>x. waiter_at (append_capped i m q) w = Some x \<longrightarrow> wt_event x"
  by (auto simp: append_capped_def wake_def waiters_grow_def flags_grow_def parked_def split: option.split)

lemma wait_ok_append: "wait_ok q ps \<Longrightarrow> wait_ok (append_capped i m q) ps"
  by (erule wait_ok_grow [OF _ append_grows(1)]) (use append_grows(2) in \<open>auto split: if_splits\<close>)

lemma wait_ok_sends: "wait_ok q ps \<Longrightarrow> wait_ok (fold (\<lambda>(i, m). append_capped i m) ts q) ps"
  by (induction ts arbitrary: q) (auto intro: wait_ok_append)

lemma wait_ok_same: "wait_ok q ps \<Longrightarrow> parked_waiters r = parked_waiters q \<Longrightarrow> waiter_at r = waiter_at q
    \<Longrightarrow> (\<And>i. queue_of i r \<noteq> [] \<Longrightarrow> queue_of i q \<noteq> []) \<Longrightarrow> wait_ok r ps"
  by (erule wait_ok_grow) (simp_all add: waiters_grow_def)

lemma wait_ok_phase:
  assumes "wait_ok q ps" "ps w = Some (i, ph)" "at_queue ph = at_queue ph'" "ph' = Waiting \<Longrightarrow> queue_of i q = []"
  shows "wait_ok q (ps(w \<mapsto> (i, ph')))"
  using assms unfolding wait_ok_def by (auto split: if_splits)

end
