(* ===== verification/Inbound_Waits.thy ===== *)
theory Inbound_Waits
  imports Inbound_Mail
begin

text \<open>
  Every step keeps the polls sound: a poll is in its session's list exactly while it is between its
  registration and its release, and a waiting poll whose session has a message has been woken. And a poll whose
  lease was revoked takes nothing.
\<close>

lemma mail_simps [simp]:
  "parked_waiters (fst (drain i q)) = parked_waiters q" "waiter_at (fst (drain i q)) = waiter_at q"
  "parked_waiters (fst (drop_conversation c q)) = parked_waiters q" "waiter_at (fst (drop_conversation c q)) = waiter_at q"
  "parked_waiters (remember k r q) = parked_waiters q" "waiter_at (remember k r q) = waiter_at q"
  "queue_of i (remember k r q) = queue_of i q"
  by (simp_all add: drain_def drop_conversation_def remember_def queue_of_def)

lemma parked_register [simp]: "parked j (register_waiter i w q) = (if j = i then parked i q @ [w] else parked j q)"
  by (simp add: parked_def register_waiter_def update_conv')

lemma parked_release [simp]: "parked j (release_waiter i w q) = (if j = i then remove1 w (parked i q) else parked j q)"
  by (cases "map_of (parked_waiters q) i") (auto simp: parked_def release_waiter_def update_conv' delete_conv')

lemma queue_of_waiter [simp]: "queue_of j (register_waiter i w q) = queue_of j q" "queue_of j (release_waiter i w q) = queue_of j q"
  by (simp_all add: queue_of_def)

lemma wait_ok_register:
  assumes "wait_ok q ps" "ps w = None"
  shows "wait_ok (register_waiter i w q) (ps(w \<mapsto> (i, Registered)))"
proof -
  have new: "w \<notin> set (parked j q)" for j using assms unfolding wait_ok_def by auto
  have "waiter_at (register_waiter i w q) = (waiter_at q)(w \<mapsto> \<lparr>wt_event = False, wt_released = False\<rparr>)"
    by (simp add: register_waiter_def)
  with assms new show ?thesis unfolding wait_ok_def by (auto split: if_splits)
qed

lemma wait_ok_release:
  assumes "wait_ok q ps" "ps w = Some (i, Leaving e)" "\<not> at_queue ph"
  shows "wait_ok (release_waiter i w q) (ps(w \<mapsto> (i, ph)))"
proof -
  have "distinct (parked i q)" "ph \<noteq> Waiting" using assms(1,3) unfolding wait_ok_def by auto
  with assms show ?thesis unfolding wait_ok_def by (auto split: if_splits)
qed

lemma wait_ok_drain: "wait_ok q ps \<Longrightarrow> wait_ok (fst (drain i q)) ps"
  by (erule wait_ok_same) (auto split: if_splits)

lemma wait_ok_remember: "wait_ok q ps \<Longrightarrow> wait_ok (remember k r q) ps"
  by (erule wait_ok_same) simp_all

lemma poll_result_leaves: "\<not> at_queue (poll_result w e q)"
  by (simp add: poll_result_def split: poll_end.split option.split)

lemma wait_ok_step:
  assumes "inbound_step s t" "wait_ok (iq s) (polls s)"
  shows "wait_ok (iq t) (polls t)"
  using assms(1)
proof cases
  case (leased q evs)
  have "queue_of i q = queue_of i (iq s)" for i using lease_op_leaves(1) [OF leased(2)] by (simp add: same_mail_def queue_of_def)
  then show ?thesis using leased(1) wait_ok_grow [OF assms(2) lease_op_leaves(3) [OF leased(2)]] by simp
next
  case (sent key targets fp)
  show ?thesis
    unfolding sent
    by (cases rule: send_once_cases [where key = key and targets = targets and fp = fp and q = "iq s"])
       (use assms(2) wait_ok_sends [OF assms(2)] in \<open>simp_all add: wait_ok_remember\<close>)
next
  case (enqueued i m)
  then show ?thesis using wait_ok_append [OF assms(2)] by (simp add: enqueue_def Let_def)
next
  case (first_drained w i)
  have "wait_ok (fst (drain i (iq s))) (polls s)" by (rule wait_ok_drain [OF assms(2)])
  from wait_ok_phase [OF this first_drained(2)] show ?thesis unfolding first_drained(1) by (auto split: if_splits)
next
  case (last_drained w i)
  have "wait_ok (fst (drain i (iq s))) (polls s)" by (rule wait_ok_drain [OF assms(2)])
  from wait_ok_phase [OF this last_drained(2)] show ?thesis unfolding last_drained(1) by simp
next
  case (registered w i)
  then show ?thesis using wait_ok_register [OF assms(2)] by simp
next
  case (released w i e)
  then show ?thesis using wait_ok_release [OF assms(2) released(2) poll_result_leaves] by simp
next
  case (drained i)
  then show ?thesis using wait_ok_drain [OF assms(2)] by simp
next
  case (woken w i x)
  then show ?thesis using wait_ok_phase [OF assms(2) woken(2), where ph' = "Leaving Woke"] by simp
next
  case (timed_out w i)
  then show ?thesis using wait_ok_phase [OF assms(2) timed_out(2), where ph' = "Leaving TimedOut"] by simp
next
  case (cancelled w i)
  then show ?thesis using wait_ok_phase [OF assms(2) cancelled(2), where ph' = "Leaving Cancelled"] by simp
next
  case (chat_dropped c)
  have "wait_ok (fst (drop_conversation c (iq s))) (polls s)" by (rule wait_ok_same [OF assms(2)]) auto
  then show ?thesis using chat_dropped by simp
next
  case (handed_out ms taker)
  have "wait_ok (hand_out (time_now s) ms taker (iq s)) (polls s)" by (rule wait_ok_same [OF assms(2)]) (auto simp: queue_of_def)
  then show ?thesis using handed_out by simp
next
  case (noted c senders)
  have "wait_ok (recorded c senders (iq s)) (polls s)" by (rule wait_ok_same [OF assms(2)]) (auto simp: queue_of_def)
  then show ?thesis using noted by simp
qed (use assms(2) in simp)

interpretation waiting: transition_system inbound_start inbound_step "\<lambda>s. wait_ok (iq s) (polls s)"
proof
  show "wait_ok (iq s) (polls s)" if "inbound_start s" for s
    using that by (simp add: inbound_start_def wait_ok_def parked_def)
  show "wait_ok (iq t) (polls t)" if "wait_ok (iq s) (polls s)" "inbound_step s t" for s t
    using wait_ok_step that by blast
qed

section \<open>A revoked poll\<close>

text \<open>Where a poll whose lease was revoked while it waited may be, until it returns.\<close>

definition revoked_at :: "nat \<Rightarrow> uuid \<Rightarrow> inbound_system \<Rightarrow> bool" where
  "revoked_at w i s \<longleftrightarrow>
     (\<exists>x. waiter_at (iq s) w = Some x \<and> wt_event x \<and> wt_released x)
   \<and> (\<exists>ph. polls s w = Some (i, ph) \<and> ph \<in> {Waiting, Leaving Woke, Leaving TimedOut, Leaving Cancelled, Returned []})"

lemma grow_flags:
  "waiters_grow q r \<Longrightarrow> \<exists>x. waiter_at q w = Some x \<and> wt_event x \<and> wt_released x
    \<Longrightarrow> \<exists>x. waiter_at r w = Some x \<and> wt_event x \<and> wt_released x"
  unfolding waiters_grow_def flags_grow_def by (auto split: option.splits dest!: spec [of _ w])

lemma sends_grow: "waiters_grow q (fold (\<lambda>(i, m). append_capped i m) ts q)"
proof (induction ts arbitrary: q)
  case (Cons t ts)
  obtain i m where "t = (i, m)" by (cases t)
  then show ?case using waiters_grow_trans [OF append_grows(1) Cons.IH] by simp
qed simp

lemma send_once_grows: "waiters_grow q (fst (send_once key targets fp q))"
  by (cases rule: send_once_cases [where key = key and targets = targets and fp = fp and q = q])
     (use sends_grow [where ts = targets and q = q] in \<open>simp_all add: waiters_grow_def\<close>)

lemma revoked_step:
  assumes "inbound_step s t" "revoked_at w i s"
  shows "revoked_at w i t"
  using assms(1)
proof cases
  case (leased q evs)
  then show ?thesis using grow_flags [OF lease_op_leaves(3) [OF leased(2)]] assms(2) by (simp add: revoked_at_def)
next
  case (sent key targets fp)
  then show ?thesis using grow_flags [OF send_once_grows] assms(2) by (simp add: revoked_at_def)
next
  case (enqueued j m)
  then show ?thesis using grow_flags [OF append_grows(1)] assms(2) by (simp add: revoked_at_def enqueue_def Let_def)
next
  case (registered v j)
  then show ?thesis using assms(2) by (auto simp: revoked_at_def register_waiter_def)
next
  case (released v j e)
  then show ?thesis using assms(2) by (cases e) (auto simp: revoked_at_def poll_result_def split: if_splits)
qed (use assms(2) in \<open>auto simp: revoked_at_def\<close>)

lemma revoked_run: "rtranclp inbound_step s t \<Longrightarrow> revoked_at w i s \<Longrightarrow> revoked_at w i t"
  by (induction rule: rtranclp_induct) (auto intro: revoked_step)

lemma revoke_flags:
  assumes "wait_ok q ps" "ps w = Some (i, Waiting)"
  shows "\<exists>x. waiter_at (revoke i q) w = Some x \<and> wt_event x \<and> wt_released x"
proof -
  let ?r = "case map_of (leases q) i of None \<Rightarrow> q | Some l \<Rightarrow> lapse i l (q\<lparr>leases := AList.delete i (leases q)\<rparr>)"
  have r: "parked i ?r = parked i q" "waiter_at ?r = waiter_at q" by (simp_all add: parked_def split: option.split)
  have "w \<in> set (parked i q)" using assms unfolding wait_ok_def by (metis at_queue.simps(2))
  moreover have "waiter_at q w \<noteq> None" using assms unfolding wait_ok_def by (metis option.distinct(1))
  ultimately show ?thesis using r by (auto simp: revoke_def wake_def release_waiters_def parked_def)
qed

section \<open>Keys\<close>

definition keyed_in :: "inbound_event list \<Rightarrow> uuid list" where
  "keyed_in tr = List.map_filter (\<lambda>e. case e of Keyed k \<Rightarrow> Some k | _ \<Rightarrow> None) tr"

lemma keyed_in_simps [simp]:
  "keyed_in [] = []" "keyed_in (tr @ tr') = keyed_in tr @ keyed_in tr'" "keyed_in (Keyed k # tr) = k # keyed_in tr"
  "keyed_in (Sent i m # tr) = keyed_in tr" "keyed_in (Overflowed i # tr) = keyed_in tr" "keyed_in (Taken i ms # tr) = keyed_in tr"
  "keyed_in (ChatDropped # tr) = keyed_in tr" "keyed_in (Polled i c t # tr) = keyed_in tr" "keyed_in (Told is js # tr) = keyed_in tr"
  by (simp_all add: keyed_in_def List.map_filter_def)

lemma keyed_in_sends [simp]: "keyed_in (send_events ts q) = []"
  by (induction ts q rule: send_events.induct) simp_all

lemma keyed_in_lease: "lease_op now q r evs \<Longrightarrow> keyed_in evs = []"
  by (erule lease_op.cases) simp_all

lemma sends_keep [simp]:
  "seen_sends (fold (\<lambda>(i, m). append_capped i m) ts q) = seen_sends q"
  "max_seen_keys (fold (\<lambda>(i, m). append_capped i m) ts q) = max_seen_keys q"
  by (induction ts arbitrary: q) (auto split: prod.split)

lemma drain_keeps [simp]:
  "seen_sends (fst (drain i q)) = seen_sends q" "max_seen_keys (fst (drain i q)) = max_seen_keys q"
  "seen_sends (fst (drop_conversation c q)) = seen_sends q" "max_seen_keys (fst (drop_conversation c q)) = max_seen_keys q"
  by (simp_all add: drain_def drop_conversation_def)

text \<open>The receipts after a step are the newest of those before it and of the one it recorded.\<close>

lemma seen_step:
  assumes "inbound_step s t"
  shows "max_seen_keys (iq t) = max_seen_keys (iq s)
    \<and> (seen_sends (iq t) = seen_sends (iq s) \<and> keyed_in (history t) = keyed_in (history s)
     \<or> (\<exists>k r. map_of (seen_sends (iq s)) k = None \<and> keyed_in (history t) = keyed_in (history s) @ [k]
          \<and> seen_sends (iq t) = newest (max_seen_keys (iq s)) (seen_sends (iq s) @ [(k, r)])))"
  using assms
proof cases
  case (leased q evs)
  then show ?thesis using lease_op_leaves(1) [OF leased(2)] keyed_in_lease [OF leased(2)] by (simp add: same_mail_def)
next
  case (sent key targets fp)
  have up: "AList.update k r d = d @ [(k, r)]" if "map_of d k = None" for k and r :: send_receipt and d
    using that by (induction d) auto
  show ?thesis
    unfolding sent
    by (cases rule: send_once_cases [where key = key and targets = targets and fp = fp and q = "iq s"])
       (auto simp: remember_def up)
qed (simp_all add: enqueue_def Let_def)

definition receipts_ok :: "inbound_queue \<Rightarrow> bool" where
  "receipts_ok q \<longleftrightarrow> length (seen_sends q) \<le> max_seen_keys q \<and> distinct (keys (seen_sends q))"

interpretation receipts: transition_system inbound_start inbound_step "\<lambda>s. receipts_ok (iq s)"
proof
  show "receipts_ok (iq s)" if "inbound_start s" for s
    using that by (simp add: inbound_start_def receipts_ok_def)
  show "receipts_ok (iq t)" if ok: "receipts_ok (iq s)" and st: "inbound_step s t" for s t
  proof -
    consider "seen_sends (iq t) = seen_sends (iq s)" "max_seen_keys (iq t) = max_seen_keys (iq s)"
      | k r where "map_of (seen_sends (iq s)) k = None" "max_seen_keys (iq t) = max_seen_keys (iq s)"
          "seen_sends (iq t) = newest (max_seen_keys (iq s)) (seen_sends (iq s) @ [(k, r)])"
      using seen_step [OF st] by blast
    then show ?thesis
    proof cases
      case (2 k r)
      have "k \<notin> set (keys (seen_sends (iq s)))" using 2(1) by (simp add: set_keys)
      then have "distinct (keys (seen_sends (iq s) @ [(k, r)]))" using ok by (simp add: receipts_ok_def)
      then show ?thesis using 2(2,3) by (simp add: receipts_ok_def del: keys_simps(3))
    qed (use ok in \<open>simp add: receipts_ok_def\<close>)
  qed
qed

lemma newest_append: "newest n (newest n xs @ ys) = newest n (xs @ ys)"
  by (cases "length xs \<le> n") (simp_all add: newest_def add.commute)

lemma seen_run:
  assumes "rtranclp inbound_step s t" "receipts_ok (iq s)"
  shows "max_seen_keys (iq t) = max_seen_keys (iq s)
    \<and> (\<exists>rs. seen_sends (iq t) = newest (max_seen_keys (iq s)) (seen_sends (iq s) @ rs)
         \<and> keyed_in (history t) = keyed_in (history s) @ keys rs)"
  using assms(1)
proof (induction rule: rtranclp_induct)
  case base
  show ?case using assms(2) by (intro conjI exI [of _ "[]"]) (simp_all add: receipts_ok_def)
next
  case (step t u)
  then obtain rs where rs: "max_seen_keys (iq t) = max_seen_keys (iq s)"
    "seen_sends (iq t) = newest (max_seen_keys (iq s)) (seen_sends (iq s) @ rs)"
    "keyed_in (history t) = keyed_in (history s) @ keys rs" by blast
  consider (same) "seen_sends (iq u) = seen_sends (iq t)" "keyed_in (history u) = keyed_in (history t)"
    | (more) k r where "keyed_in (history u) = keyed_in (history t) @ [k]"
        "seen_sends (iq u) = newest (max_seen_keys (iq t)) (seen_sends (iq t) @ [(k, r)])"
    using seen_step [OF step(2)] by blast
  then show ?case
  proof cases
    case same
    then show ?thesis using rs seen_step [OF step(2)] by auto
  next
    case (more k r)
    have "seen_sends (iq u) = newest (max_seen_keys (iq s)) (seen_sends (iq s) @ rs @ [(k, r)])"
      using more(2) rs(1,2) newest_append [of "max_seen_keys (iq s)" "seen_sends (iq s) @ rs" "[(k, r)]"] by simp
    then show ?thesis using more(1) rs seen_step [OF step(2)] by (intro conjI exI [of _ "rs @ [(k, r)]"]) auto
  qed
qed

text \<open>An entry with fewer than \<open>n\<close> after it is among the newest \<open>n\<close>.\<close>

lemma newest_keeps: "length ys < n \<Longrightarrow> x \<in> set (newest n (xs @ x # ys))"
proof -
  assume n: "length ys < n"
  have "newest n (xs @ x # ys) = drop (length xs + Suc (length ys) - n) xs @ drop (length xs + Suc (length ys) - n - length xs) (x # ys)"
    by (simp add: newest_def)
  moreover have "length xs + Suc (length ys) - n - length xs = 0" using n by simp
  ultimately show ?thesis by simp
qed

lemma receipt_kept:
  assumes "rtranclp inbound_step s u" "receipts_ok (iq s)" "seen_sends (iq s) = xs @ [(k, r)]"
    and "length (keyed_in (history u)) < length (keyed_in (history s)) + max_seen_keys (iq s)"
  shows "map_of (seen_sends (iq u)) k = Some r"
proof -
  obtain rs where rs: "seen_sends (iq u) = newest (max_seen_keys (iq s)) (seen_sends (iq s) @ rs)"
    "keyed_in (history u) = keyed_in (history s) @ keys rs" using seen_run [OF assms(1,2)] by blast
  have "length rs < max_seen_keys (iq s)" using assms(4) rs(2) by simp
  then have "(k, r) \<in> set (seen_sends (iq u))" using newest_keeps [of rs "max_seen_keys (iq s)" "(k, r)" xs] rs(1) assms(3) by simp
  moreover have "distinct (keys (seen_sends (iq u)))"
    using receipts.run_keeps [OF assms(1,2)] by (simp add: receipts_ok_def)
  ultimately show ?thesis by (simp add: keys_def)
qed

end
