(* ===== verification/Inbound_Leases.thy ===== *)
theory Inbound_Leases
  imports Inbound_Waits
begin

text \<open>
  What becomes of leases: a lease is the last poll's, for as long as its session is polled in time, and one that
  ends is noted once it was a CLI's. \<open>sheds\<close> is what every method but the renewal does to leases.
\<close>

section \<open>The history of polls\<close>

definition polled :: "inbound_event list \<Rightarrow> uuid set" where
  "polled tr = {i. \<exists>c t. Polled i c t \<in> set tr}"

definition last_poll :: "uuid \<Rightarrow> inbound_event list \<Rightarrow> (string option \<times> rat) option" where
  "last_poll i tr = fold (\<lambda>e b. case e of Polled j c t \<Rightarrow> if j = i then Some (c, t) else b | _ \<Rightarrow> b) tr None"

text \<open>The time of the last poll of a CLI's run that nobody was told of since it went offline.\<close>

definition untold :: "uuid \<Rightarrow> inbound_event list \<Rightarrow> rat option" where
  "untold i tr = fold (\<lambda>e b. case e of
       Polled j c t \<Rightarrow> if j = i then (if c = None then None else Some t) else b
     | Told js still \<Rightarrow> if i \<in> set js \<and> i \<notin> set still then None else b
     | _ \<Rightarrow> b) tr None"

lemma polls_simps [simp]:
  "polled [] = {}" "polled (tr @ tr') = polled tr \<union> polled tr'" "polled (Polled i c t # tr) = insert i (polled tr)"
  "last_poll i [] = None" "untold i [] = None"
  "last_poll i (tr @ [Polled j c t]) = (if j = i then Some (c, t) else last_poll i tr)"
  "untold i (tr @ [Polled j c t]) = (if j = i then (if c = None then None else Some t) else untold i tr)"
  "last_poll i (tr @ [Told js still]) = last_poll i tr" "polled [Told js still] = {}"
  "untold i (tr @ [Told js still]) = (if i \<in> set js \<and> i \<notin> set still then None else untold i tr)"
  by (auto simp: polled_def last_poll_def untold_def)

definition silent_events :: "inbound_event list \<Rightarrow> bool" where
  "silent_events tr \<longleftrightarrow> (\<forall>e \<in> set tr. case e of Polled i c t \<Rightarrow> False | Told js still \<Rightarrow> False | _ \<Rightarrow> True)"

lemma fold_id_on: "(\<And>e b. e \<in> set evs \<Longrightarrow> f e b = b) \<Longrightarrow> fold f evs b = b"
  by (induction evs arbitrary: b) auto

lemma silent_simps:
  assumes "silent_events evs"
  shows "polled (tr @ evs) = polled tr" "last_poll i (tr @ evs) = last_poll i tr" "untold i (tr @ evs) = untold i tr"
proof -
  have "polled evs = {}" using assms by (auto simp: silent_events_def polled_def)
  then show "polled (tr @ evs) = polled tr" by simp
  show "last_poll i (tr @ evs) = last_poll i tr"
    unfolding last_poll_def fold_append comp_def
    by (rule fold_id_on) (use assms in \<open>auto simp: silent_events_def split: inbound_event.splits\<close>)
  show "untold i (tr @ evs) = untold i tr"
    unfolding untold_def fold_append comp_def
    by (rule fold_id_on) (use assms in \<open>auto simp: silent_events_def split: inbound_event.splits\<close>)
qed

lemma untold_polled: "untold i tr = Some t \<Longrightarrow> \<exists>c. last_poll i tr = Some (Some c, t)"
proof (induction tr rule: rev_induct)
  case (snoc e tr)
  then show ?case
    by (cases e) (auto split: if_splits simp: silent_simps(2,3) [where evs = "[_]"] silent_events_def)
qed simp

section \<open>Shedding leases\<close>

definition leases_in :: "uuid set \<Rightarrow> inbound_queue \<Rightarrow> bool" where
  "leases_in P q \<longleftrightarrow> finite P \<and> distinct (keys (leases q)) \<and> set (keys (leases q)) \<subseteq> P \<and> distinct (gone q) \<and> set (gone q) \<subseteq> P"

definition sheds :: "uuid set \<Rightarrow> inbound_queue \<Rightarrow> inbound_queue \<Rightarrow> bool" where
  "sheds P q r \<longleftrightarrow>
     leases_in P r \<and> max_gone r = max_gone q
   \<and> (\<forall>i l. map_of (leases r) i = Some l \<longrightarrow> map_of (leases q) i = Some l)
   \<and> (card P \<le> max_gone q \<longrightarrow> set (gone q) \<subseteq> set (gone r)
       \<and> (\<forall>i l. map_of (leases q) i = Some l \<longrightarrow> po_cli (ls_where l) \<noteq> None \<longrightarrow> map_of (leases r) i = None \<longrightarrow> i \<in> set (gone r)))"

lemma sheds_refl: "leases_in P q \<Longrightarrow> sheds P q q"
  by (simp add: sheds_def)

lemma sheds_trans:
  assumes "sheds P q r" "sheds P r s"
  shows "sheds P q s"
  unfolding sheds_def
proof (intro conjI allI impI)
  show "leases_in P s" "max_gone s = max_gone q" using assms by (simp_all add: sheds_def)
  show "map_of (leases q) i = Some l" if "map_of (leases s) i = Some l" for i l
    using that assms by (simp add: sheds_def)
  assume room: "card P \<le> max_gone q"
  then show "set (gone q) \<subseteq> set (gone s)" using assms by (auto simp: sheds_def)
  fix i l assume l: "map_of (leases q) i = Some l" "po_cli (ls_where l) \<noteq> None" "map_of (leases s) i = None"
  show "i \<in> set (gone s)"
  proof (cases "map_of (leases r) i")
    case None
    then have "i \<in> set (gone r)" using assms(1) room l by (simp add: sheds_def)
    then show ?thesis using assms room by (auto simp: sheds_def)
  next
    case (Some k)
    then have "k = l" using assms(1) l(1) by (simp add: sheds_def)
    then show ?thesis using assms room l Some by (auto simp: sheds_def)
  qed
qed

lemma gone_room:
  assumes "leases_in P q" "i \<in> P" "card P \<le> max_gone q"
  shows "length (filter (\<lambda>j. j \<noteq> i) (gone q) @ [i]) \<le> max_gone q"
proof -
  have "distinct (filter (\<lambda>j. j \<noteq> i) (gone q) @ [i])" using assms(1) by (simp add: leases_in_def)
  moreover have "set (filter (\<lambda>j. j \<noteq> i) (gone q) @ [i]) \<subseteq> P" "finite P" using assms(1,2) by (auto simp: leases_in_def)
  ultimately show ?thesis using assms(3) by (metis card_mono distinct_card le_trans)
qed

lemma drop_sheds:
  assumes ok: "leases_in P q" and l: "map_of (leases q) i = Some l"
  shows "sheds P q (drop_lease (i, l) q)"
proof -
  have i: "i \<in> P" using ok l set_keys [of i "leases q"] by (auto simp: leases_in_def)
  have g: "gone (drop_lease (i, l) q)
      = (if po_cli (ls_where l) = None then gone q else newest (max_gone q) (filter (\<lambda>j. j \<noteq> i) (gone q) @ [i]))"
    by (simp add: drop_lease_def lapse_def)
  have "distinct (filter (\<lambda>j. j \<noteq> i) (gone q) @ [i])" "set (filter (\<lambda>j. j \<noteq> i) (gone q) @ [i]) \<subseteq> P"
    using ok i by (auto simp: leases_in_def)
  then have "leases_in P (drop_lease (i, l) q)"
    using ok set_newest [of "max_gone q" "filter (\<lambda>j. j \<noteq> i) (gone q) @ [i]"] by (auto simp: leases_in_def g)
  then show ?thesis
    using l gone_room [OF ok i] by (auto simp: sheds_def delete_conv' g split: if_splits)
qed

lemma live_sheds: "leases_in P q \<Longrightarrow> sheds P q (fst (live_lease now i q))"
  by (cases rule: live_lease_cases [where q = q and i = i and now = now]) (simp_all add: sheds_refl drop_sheds)

lemma fold_drop_sheds:
  assumes "leases_in P q" "distinct (keys xs)" "\<forall>(i, l) \<in> set xs. map_of (leases q) i = Some l"
  shows "sheds P q (fold drop_lease xs q)
    \<and> (\<forall>i. map_of (leases (fold drop_lease xs q)) i = (if i \<in> set (keys xs) then None else map_of (leases q) i))"
  using assms
proof (induction xs arbitrary: q)
  case Nil
  then show ?case by (simp add: sheds_refl)
next
  case (Cons x xs)
  obtain i l where x: "x = (i, l)" by (cases x)
  let ?r = "drop_lease (i, l) q"
  have s: "sheds P q ?r" using Cons.prems by (intro drop_sheds) (auto simp: x)
  have "\<forall>(j, k) \<in> set xs. map_of (leases ?r) j = Some k"
    using Cons.prems(2,3) by (auto simp: x delete_conv' keys_def rev_image_eqI)
  then have "sheds P ?r (fold drop_lease xs ?r)
    \<and> (\<forall>j. map_of (leases (fold drop_lease xs ?r)) j = (if j \<in> set (keys xs) then None else map_of (leases ?r) j))"
    using s Cons.prems(2) by (intro Cons.IH) (auto simp: x sheds_def)
  then show ?case using sheds_trans [OF s] by (auto simp: x delete_conv')
qed

lemma sweep_sheds:
  assumes "leases_in P q"
  shows "sheds P q (sweep_leases now q)"
    and "map_of (leases (sweep_leases now q)) i = (case map_of (leases q) i of None \<Rightarrow> None
          | Some l \<Rightarrow> if ls_expires l \<le> now then None else Some l)"
proof -
  let ?xs = "filter (\<lambda>(i, l). ls_expires l \<le> now) (leases q)"
  have d: "distinct (map fst (leases q))" using assms by (simp add: leases_in_def keys_def)
  have x: "distinct (keys ?xs)" "\<forall>(i, l) \<in> set ?xs. map_of (leases q) i = Some l"
    using d by (auto simp: keys_def distinct_map_filter)
  note f = fold_drop_sheds [OF assms x]
  show "sheds P q (sweep_leases now q)" using f by (simp add: sweep_leases_def)
  have "i \<in> set (keys ?xs) \<longleftrightarrow> (\<exists>l. map_of (leases q) i = Some l \<and> ls_expires l \<le> now)"
    using d by (force simp: keys_def)
  then show "map_of (leases (sweep_leases now q)) i = (case map_of (leases q) i of None \<Rightarrow> None
      | Some l \<Rightarrow> if ls_expires l \<le> now then None else Some l)"
    using f by (auto simp: sweep_leases_def split: option.split)
qed

lemma sheds_same:
  "sheds P q r \<Longrightarrow> leases r' = leases r \<Longrightarrow> gone r' = gone r \<Longrightarrow> max_gone r' = max_gone r \<Longrightarrow> sheds P q r'"
  "sheds P q r \<Longrightarrow> leases q' = leases q \<Longrightarrow> gone q' = gone q \<Longrightarrow> max_gone q' = max_gone q \<Longrightarrow> sheds P q' r"
  by (simp_all add: sheds_def leases_in_def)

lemma revoke_sheds:
  assumes "leases_in P q"
  shows "sheds P q (revoke i q)"
proof (cases "map_of (leases q) i")
  case None
  then show ?thesis by (intro sheds_same(1) [OF sheds_refl [OF assms]]) (simp_all add: revoke_def)
next
  case (Some l)
  then show ?thesis by (intro sheds_same(1) [OF drop_sheds [OF assms Some]]) (simp_all add: revoke_def drop_lease_def)
qed

section \<open>Leases follow the polls\<close>

definition lease_ok :: "inbound_queue \<Rightarrow> inbound_event list \<Rightarrow> bool" where
  "lease_ok q h \<longleftrightarrow>
     leases_in (polled h) q
   \<and> (\<forall>i l. map_of (leases q) i = Some l \<longrightarrow> last_poll i h = Some (po_cli (ls_where l), ls_expires l - poller_ttl_sec q))
   \<and> (card (polled h) \<le> max_gone q \<longrightarrow> (\<forall>i. untold i h \<noteq> None \<longrightarrow> i \<in> set (gone q) \<or> map_of (leases q) i \<noteq> None))"

lemma lease_ok_sheds:
  assumes ok: "lease_ok q h" and s: "sheds (polled h) q r" and ttl: "poller_ttl_sec r = poller_ttl_sec q" and quiet: "silent_events evs"
  shows "lease_ok r (h @ evs)"
proof -
  have "i \<in> set (gone r) \<or> map_of (leases r) i \<noteq> None" if room: "card (polled h) \<le> max_gone r" and u: "untold i h \<noteq> None" for i
  proof -
    have mg: "max_gone r = max_gone q" using s by (simp add: sheds_def)
    from room have room: "card (polled h) \<le> max_gone q" unfolding mg .
    then consider "i \<in> set (gone q)" | l where "map_of (leases q) i = Some l" using ok u by (auto simp: lease_ok_def)
    then show ?thesis
    proof cases
      case 1
      then show ?thesis using s room by (auto simp: sheds_def)
    next
      case (2 l)
      then have "last_poll i h = Some (po_cli (ls_where l), ls_expires l - poller_ttl_sec q)" using ok by (simp add: lease_ok_def)
      moreover obtain t c where "last_poll i h = Some (Some c, t)" using untold_polled u by blast
      ultimately have "po_cli (ls_where l) = Some c" by simp
      then have "po_cli (ls_where l) \<noteq> None" by simp
      then show ?thesis using s room 2 by (auto simp: sheds_def)
    qed
  qed
  with ok s ttl show ?thesis unfolding lease_ok_def silent_simps [OF quiet] by (simp add: sheds_def)
qed

lemma lease_ok_unchanged:
  assumes "lease_ok q h" "leases r = leases q" "gone r = gone q" "max_gone r = max_gone q" "poller_ttl_sec r = poller_ttl_sec q"
    and "silent_events evs"
  shows "lease_ok r (h @ evs)"
proof -
  have "sheds (polled h) q q" using assms(1) by (intro sheds_refl) (simp add: lease_ok_def)
  from lease_ok_sheds [OF assms(1) sheds_same(1) [OF this assms(2-4)] assms(5,6)] show ?thesis .
qed

lemma lease_ok_poll:
  assumes ok: "lease_ok q h" and L: "ls_expires L = t + poller_ttl_sec q" "po_cli (ls_where L) = c"
    and r: "leases r = AList.update i L (leases q)" "gone r = gone q" "max_gone r = max_gone q" "poller_ttl_sec r = poller_ttl_sec q"
  shows "lease_ok r (h @ [Polled i c t])"
proof -
  have m: "map_of (leases r) j = (if j = i then Some L else map_of (leases q) j)" for j by (simp add: r(1) update_conv')
  have fin: "finite (polled h)" using ok by (simp add: lease_ok_def leases_in_def)
  then have "card (polled h) \<le> card (insert i (polled h))" by (simp add: card_insert_le)
  moreover have "leases_in (insert i (polled h)) r"
    using ok r by (auto simp: lease_ok_def leases_in_def)
  ultimately show ?thesis using ok L r(2-4) by (auto simp: lease_ok_def m)
qed

lemma lease_ok_touch:
  assumes ok: "lease_ok q h" and l: "map_of (leases q) i = Some l" "ls_expires l' = ls_expires l" "po_cli (ls_where l') = po_cli (ls_where l)"
  shows "lease_ok (q\<lparr>leases := AList.update i l' (leases q)\<rparr>) h"
proof -
  have "i \<in> set (keys (leases q))" using l(1) by (simp add: set_keys)
  then show ?thesis using ok l by (auto simp: lease_ok_def leases_in_def update_conv')
qed

lemma lease_ok_sheds': "lease_ok q h \<Longrightarrow> sheds (polled h) q r \<Longrightarrow> poller_ttl_sec r = poller_ttl_sec q \<Longrightarrow> lease_ok r h"
  using lease_ok_sheds [of q h r "[]"] by (simp add: silent_events_def)

lemma lease_ok_in: "lease_ok q h \<Longrightarrow> leases_in (polled h) q"
  by (simp add: lease_ok_def)

lemma lease_ok_mark:
  assumes "lease_ok q h"
  shows "lease_ok (mark_poller now i said account q) (h @ [Polled i (po_cli said) now])"
proof -
  let ?q0 = "q\<lparr>refusals := AList.delete i (refusals q)\<rparr>"
  obtain q1 l where q1: "live_lease now i ?q0 = (q1, l)" by force
  let ?run = "said\<lparr>po_state := kept_state said l\<rparr>"
  let ?L = "\<lparr>ls_expires = now + poller_ttl_sec q, ls_where = ?run, ls_account = account\<rparr>"
  have ok0: "lease_ok ?q0 h" using lease_ok_unchanged [OF assms, of ?q0 "[]"] by (simp add: silent_events_def)
  have s1: "sheds (polled h) ?q0 q1" using live_sheds [OF lease_ok_in [OF ok0], of now i] q1 by simp
  have ttl: "poller_ttl_sec q1 = poller_ttl_sec q" using live_lease_simps(6) [of now i ?q0] q1 by simp
  have ok1: "lease_ok q1 h" using lease_ok_sheds' [OF ok0 s1] ttl by simp
  let ?q3 = "if po_run said \<noteq> None \<or> po_machine said \<noteq> None \<or> po_cwd said \<noteq> None
      then q1\<lparr>leases := AList.update i ?L (leases q1), places := newest (max_places q) (put_last i ?run (places q1))\<rparr>
      else q1\<lparr>leases := AList.update i ?L (leases q1)\<rparr>"
  have q3: "leases ?q3 = AList.update i ?L (leases q1)" "gone ?q3 = gone q1" "max_gone ?q3 = max_gone q1"
    "poller_ttl_sec ?q3 = poller_ttl_sec q1"
    "mark_poller now i said account q = (if 1024 < length (leases ?q3) then sweep_leases now ?q3 else ?q3)"
    by (simp_all add: mark_poller_def q1 Let_def)
  have "lease_ok ?q3 (h @ [Polled i (po_cli said) now])"
    by (rule lease_ok_poll [OF ok1 _ _ q3(1-4)]) (simp_all add: ttl)
  then show ?thesis
    unfolding q3(5) using lease_ok_sheds' [OF _ sweep_sheds(1) [OF lease_ok_in]] by simp
qed

lemma lease_ok_take:
  assumes ok: "lease_ok q h"
  shows "lease_ok (fst (take_gone now q)) (h @ [Told (snd (take_gone now q)) (keys (leases (fst (take_gone now q))))])"
proof -
  let ?r = "sweep_leases now q"
  have r: "lease_ok ?r h" using lease_ok_sheds' [OF ok sweep_sheds(1) [OF lease_ok_in [OF ok]]] by simp
  have t: "fst (take_gone now q) = ?r\<lparr>gone := []\<rparr>" "snd (take_gone now q) = gone ?r" by (simp_all add: take_gone_def Let_def)
  show ?thesis unfolding t using r by (auto simp: lease_ok_def leases_in_def set_keys split: if_splits)
qed

lemma lease_ok_op:
  assumes op: "lease_op now q r evs" and ok: "lease_ok q h"
  shows "lease_ok r (h @ evs)"
proof -
  note inP = lease_ok_in [OF ok]
  note live = lease_ok_sheds' [OF ok live_sheds [OF inP], simplified]
  note swept = lease_ok_sheds' [OF ok sweep_sheds(1) [OF inP], simplified]
  have same: "lease_ok s h" if "leases s = leases q" "gone s = gone q" "max_gone s = max_gone q" "poller_ttl_sec s = poller_ttl_sec q" for s
    using lease_ok_unchanged [OF ok that, of "[]"] by (simp add: silent_events_def)
  have revoked: "lease_ok (revoke i s) h" if "lease_ok s h" for s i
    using lease_ok_sheds' [OF that revoke_sheds [OF lease_ok_in [OF that]] revoke_leaves(4)] .
  show ?thesis
    using op
  proof cases
    case (marked i said account)
    then show ?thesis using lease_ok_mark [OF ok] by simp
  next
    case (reported i inst st)
    show ?thesis
    proof (cases rule: live_lease_cases [where q = q and i = i and now = now])
      case (held l)
      then show ?thesis using reported ok lease_ok_touch [OF ok held(1)] by (simp add: report_state_def)
    qed (use reported live [of now i] in \<open>simp_all add: report_state_def\<close>)
  next
    case gone_taken
    then show ?thesis using lease_ok_take [OF ok] by simp
  next
    case (asked i)
    then show ?thesis using live [of now i] by (simp add: poller_run_of_def split_beta)
  next
    case (refused utc i why)
    then show ?thesis using same [of r] by (simp add: refuse_def)
  next
    case (listed cli account)
    then show ?thesis using swept by (simp add: active_poller_ids_def Let_def)
  next
    case (compared i cli' inst)
    then show ?thesis using ok live [of now i] by (simp add: held_by_another_def split_beta)
  next
    case (forgotten i)
    then show ?thesis using revoked [OF ok] by (simp add: forget_poller_def)
  next
    case (replaced i)
    then show ?thesis by (auto simp: retire_run_def Let_def intro!: revoked same ok split: option.split)
  next
    case (machine_listed machine owner)
    then show ?thesis using swept by (simp add: runs_on_def Let_def)
  next
    case (halted i)
    then show ?thesis by (auto simp: stop_run_def Let_def intro!: revoked same ok split: option.split)
  qed
qed

lemma mail_leaves_leases [simp]:
  "leases (append_capped i m q) = leases q" "gone (append_capped i m q) = gone q"
  "max_gone (append_capped i m q) = max_gone q" "poller_ttl_sec (append_capped i m q) = poller_ttl_sec q"
  "leases (remember k r q) = leases q" "gone (remember k r q) = gone q"
  "max_gone (remember k r q) = max_gone q" "poller_ttl_sec (remember k r q) = poller_ttl_sec q"
  "leases (fst (drain i q)) = leases q" "gone (fst (drain i q)) = gone q"
  "max_gone (fst (drain i q)) = max_gone q" "poller_ttl_sec (fst (drain i q)) = poller_ttl_sec q"
  "leases (fst (drop_conversation c q)) = leases q" "gone (fst (drop_conversation c q)) = gone q"
  "max_gone (fst (drop_conversation c q)) = max_gone q" "poller_ttl_sec (fst (drop_conversation c q)) = poller_ttl_sec q"
  by (simp_all add: append_capped_def remember_def drain_def drop_conversation_def)

lemma sends_leave_leases [simp]:
  "leases (fold (\<lambda>(i, m). append_capped i m) ts q) = leases q" "gone (fold (\<lambda>(i, m). append_capped i m) ts q) = gone q"
  "max_gone (fold (\<lambda>(i, m). append_capped i m) ts q) = max_gone q"
  "poller_ttl_sec (fold (\<lambda>(i, m). append_capped i m) ts q) = poller_ttl_sec q"
  by (induction ts arbitrary: q) (auto split: prod.split)

lemma silent_append: "silent_events (tr @ tr') \<longleftrightarrow> silent_events tr \<and> silent_events tr'"
  "silent_events (e # tr) \<longleftrightarrow> (case e of Polled i c t \<Rightarrow> False | Told js still \<Rightarrow> False | _ \<Rightarrow> True) \<and> silent_events tr"
  by (auto simp: silent_events_def)

lemma silent_sends: "silent_events (send_events ts q)"
  by (induction ts q rule: send_events.induct) (simp_all add: silent_append, simp_all add: silent_events_def)

lemma lease_ok_step:
  assumes "inbound_step s t" "lease_ok (iq s) (history s)"
  shows "lease_ok (iq t) (history t)"
  using assms(1)
proof cases
  case (leased q evs)
  then show ?thesis using lease_ok_op assms(2) by simp
next
  case (sent key targets fp)
  have quiet: "silent_events (keyed_events key targets (iq s))"
    by (simp add: keyed_events_def silent_append silent_sends split: option.split) (simp add: silent_events_def)
  show ?thesis unfolding sent
    by (cases rule: send_once_cases [where key = key and targets = targets and fp = fp and q = "iq s"])
       (use quiet assms(2) in \<open>auto intro: lease_ok_unchanged [OF assms(2)]\<close>)
next
  case (enqueued i m)
  then show ?thesis using silent_sends [of "[(i, m)]" "iq s"]
    by (auto simp: enqueue_def Let_def intro!: lease_ok_unchanged [OF assms(2)])
qed (use lease_ok_unchanged [OF assms(2), of _ "[]"] lease_ok_unchanged [OF assms(2)] assms(2) in \<open>auto simp: silent_events_def\<close>)

interpretation lease: audited_system inbound_start inbound_step "\<lambda>s. lease_ok (iq s) (history s)" history
proof
  show "lease_ok (iq s) (history s)" if "inbound_start s" for s
    using that by (simp add: inbound_start_def lease_ok_def leases_in_def)
  show "lease_ok (iq t) (history t)" if "lease_ok (iq s) (history s)" "inbound_step s t" for s t
    using lease_ok_step that by blast
  show "prefix (history s) (history t)" if "inbound_step s t" for s t
    by (rule history_grows [OF that])
qed

end
