(* ===== verification/Inbound_Claims.thy ===== *)
theory Inbound_Claims
  imports Inbound_Leases
begin

text \<open>
  The properties of the message queue: order and loss, waking, revocation, keyed sends, and what the releaser
  of open questions is told.
\<close>

definition demo_inbox :: inbound_system where
  "demo_inbox = \<lparr>iq = InboundQueue, time_now = 0, polls = (\<lambda>w. None), history = []\<rparr>"

definition demo_line :: "string \<Rightarrow> inbound" where
  "demo_line x = \<lparr>ib_text = x, ib_kind = LineKind, ib_payload = None, ib_source = Some ''me'', ib_role = Some Writer,
     ib_room = None, ib_context = None\<rparr>"

lemma demo_inbox_starts: "inbound_start demo_inbox"
  by (simp add: inbound_start_def demo_inbox_def InboundQueue_def)

lemma forgets_step: "inbound_step s (s\<lparr>iq := forget_poller i (iq s)\<rparr>)"
proof -
  have "s\<lparr>iq := q, history := history s @ []\<rparr> = s\<lparr>iq := q\<rparr>" for q by (cases s) simp
  then show ?thesis using inbound_step.leased [OF lease_op.forgotten [of "time_now s" "iq s" i]] by metis
qed

lemma steps_2: "inbound_step a b \<Longrightarrow> inbound_step b c \<Longrightarrow> rtranclp inbound_step a c"
  by (rule rtranclp.rtrancl_into_rtrancl [OF r_into_rtranclp])

lemma steps_3: "inbound_step a b \<Longrightarrow> inbound_step b c \<Longrightarrow> inbound_step c d \<Longrightarrow> rtranclp inbound_step a d"
  by (rule rtranclp.rtrancl_into_rtrancl [OF steps_2])

section \<open>Messages\<close>

text \<open>C28: whatever polls, sends, revocations and deletions interleave, what a session's polls have taken, followed by
  what is queued for it, is what was sent to it in the order it was sent, nothing twice; with nothing
  missing unless the queue overflowed or a chat was dropped; and no queue exceeds its bound.\<close>

theorem messages_in_order:
  assumes "inbound_start s0" "rtranclp inbound_step s0 s"
  shows "subseq (taken_from i (history s) @ queue_of i (iq s)) (sent_to i (history s))
    \<and> (Overflowed i \<notin> set (history s) \<and> ChatDropped \<notin> set (history s)
        \<longrightarrow> taken_from i (history s) @ queue_of i (iq s) = sent_to i (history s))
    \<and> pending i (iq s) \<le> max_per_session (iq s)"
  using mail.reachable_inv [OF assms] by (simp add: mail_ok_def lossless_def pending_def)

lemma demo_sent:
  "inbound_step s (s\<lparr>iq := append_capped i m (iq s),
     history := history s @ Sent i m # (if is_full i (iq s) then [Overflowed i] else [])\<rparr>)"
  using inbound_step.enqueued [of s i m] by (simp add: enqueue_def Let_def)

theorem messages_in_order_witness:
  "\<exists>s. rtranclp inbound_step demo_inbox s \<and> taken_from 7 (history s) = [demo_line ''a'', demo_line ''b''] \<and> queue_of 7 (iq s) = []"
proof -
  let ?s1 = "demo_inbox\<lparr>iq := append_capped 7 (demo_line ''a'') (iq demo_inbox), history := [Sent 7 (demo_line ''a'')]\<rparr>"
  let ?s2 = "?s1\<lparr>iq := append_capped 7 (demo_line ''b'') (iq ?s1), history := [Sent 7 (demo_line ''a''), Sent 7 (demo_line ''b'')]\<rparr>"
  let ?s3 = "?s2\<lparr>iq := fst (drain 7 (iq ?s2)), history := history ?s2 @ [Taken 7 (snd (drain 7 (iq ?s2)))]\<rparr>"
  have room: "\<not> is_full 7 (iq demo_inbox)" "\<not> is_full 7 (iq ?s1)"
    by (simp_all add: is_full_def pending_def demo_inbox_def InboundQueue_def queue_of_def append_capped_def wake_def)
  have s1: "inbound_step demo_inbox ?s1" using demo_sent [of demo_inbox 7 "demo_line ''a''"] room by (simp add: demo_inbox_def)
  have s2: "inbound_step ?s1 ?s2" using demo_sent [of ?s1 7 "demo_line ''b''"] room(2) by simp
  have s3: "inbound_step ?s2 ?s3" by (rule inbound_step.drained)
  note run = steps_3 [OF s1 s2 s3]
  have q: "queue_of 7 (iq ?s3) = []" by simp
  have "Overflowed 7 \<notin> set (history ?s3)" "ChatDropped \<notin> set (history ?s3)"
    "sent_to 7 (history ?s3) = [demo_line ''a'', demo_line ''b'']" by simp_all
  with q have "taken_from 7 (history ?s3) = [demo_line ''a'', demo_line ''b'']"
    using messages_in_order [OF demo_inbox_starts run, of 7] by (metis append_Nil2)
  show ?thesis by (intro exI conjI) (rule run, fact, rule q)
qed

text \<open>C29: no poll sleeps on a message: a poll that waits while its session has one queued has been woken, so it can go on
  at once; and unless its lease was revoked it then takes all that is queued.\<close>

theorem no_poll_sleeps:
  assumes "inbound_start s0" "rtranclp inbound_step s0 s" "polls s w = Some (i, Waiting)" "queue_of i (iq s) \<noteq> []"
  shows "\<exists>x t. waiter_at (iq s) w = Some x \<and> inbound_step s (s\<lparr>polls := (polls s)(w \<mapsto> (i, Leaving Woke))\<rparr>)
    \<and> (\<not> wt_released x \<longrightarrow> rtranclp inbound_step s t \<and> polls t w = Some (i, Returned (queue_of i (iq s))))"
proof -
  have ok: "wait_ok (iq s) (polls s)" by (rule waiting.reachable_inv [OF assms(1,2)])
  have "polls s w \<noteq> None" using assms(3) by simp
  then have "waiter_at (iq s) w \<noteq> None" using ok unfolding wait_ok_def by blast
  then obtain x where x: "waiter_at (iq s) w = Some x" by blast
  have e: "wt_event x" using ok assms(3,4) x unfolding wait_ok_def by blast
  let ?s1 = "s\<lparr>polls := (polls s)(w \<mapsto> (i, Leaving Woke))\<rparr>"
  let ?s2 = "?s1\<lparr>iq := release_waiter i w (iq ?s1), polls := (polls ?s1)(w \<mapsto> (i, poll_result w Woke (iq ?s1)))\<rparr>"
  let ?s3 = "?s2\<lparr>iq := fst (drain i (iq ?s2)), history := history ?s2 @ [Taken i (snd (drain i (iq ?s2)))],
     polls := (polls ?s2)(w \<mapsto> (i, Returned (snd (drain i (iq ?s2)))))\<rparr>"
  have s1: "inbound_step s ?s1" by (rule inbound_step.woken [OF assms(3) x e])
  have "rtranclp inbound_step s ?s3 \<and> polls ?s3 w = Some (i, Returned (queue_of i (iq s)))" if "\<not> wt_released x"
  proof -
    have s2: "inbound_step ?s1 ?s2" by (rule inbound_step.released) simp
    have s3: "inbound_step ?s2 ?s3" by (rule inbound_step.last_drained) (simp add: poll_result_def x that)
    show ?thesis using steps_3 [OF s1 s2 s3] by simp
  qed
  with x s1 show ?thesis by blast
qed

text \<open>A poll that found nothing, and then a message.\<close>

definition demo_waiting :: inbound_system where
  "demo_waiting = demo_inbox\<lparr>iq := register_waiter 7 3 InboundQueue, polls := [3 \<mapsto> (7, Waiting)], history := [Taken 7 []]\<rparr>"

lemma demo_waits: "rtranclp inbound_step demo_inbox demo_waiting"
proof -
  let ?s1 = "demo_inbox\<lparr>iq := register_waiter 7 3 (iq demo_inbox), polls := (polls demo_inbox)(3 \<mapsto> (7, Registered))\<rparr>"
  have s1: "inbound_step demo_inbox ?s1" by (rule inbound_step.registered) (simp add: demo_inbox_def)
  have "polls ?s1 3 = Some (7, Registered)" by simp
  from inbound_step.first_drained [OF this] have s2: "inbound_step ?s1 demo_waiting"
    by (simp add: demo_waiting_def demo_inbox_def InboundQueue_def register_waiter_def drain_def queue_of_def parked_def)
  show ?thesis by (rule steps_2 [OF s1 s2])
qed

lemma demo_waiting_simps [simp]:
  "polls demo_waiting 3 = Some (7, Waiting)" "history demo_waiting = [Taken 7 []]" "time_now demo_waiting = 0"
  "queue_of 7 (iq demo_waiting) = []" "waiter_at (iq demo_waiting) 3 = Some \<lparr>wt_event = False, wt_released = False\<rparr>"
  "parked 7 (iq demo_waiting) = [3]" "max_per_session (iq demo_waiting) = 256"
  by (simp_all add: demo_waiting_def demo_inbox_def register_waiter_def InboundQueue_def queue_of_def parked_def)

theorem no_poll_sleeps_witness:
  "\<exists>t. rtranclp inbound_step demo_inbox t \<and> polls t 3 = Some (7, Returned [demo_line ''a''])"
proof -
  let ?s = "demo_waiting\<lparr>iq := append_capped 7 (demo_line ''a'') (iq demo_waiting),
    history := history demo_waiting @ Sent 7 (demo_line ''a'') # (if is_full 7 (iq demo_waiting) then [Overflowed 7] else [])\<rparr>"
  have run: "rtranclp inbound_step demo_inbox ?s" using demo_waits demo_sent [of demo_waiting 7 "demo_line ''a''"] by (rule rtranclp.rtrancl_into_rtrancl)
  have q: "queue_of 7 (iq ?s) = [demo_line ''a'']" by simp
  have w: "waiter_at (iq ?s) 3 = Some \<lparr>wt_event = True, wt_released = False\<rparr>"
    by (simp add: append_capped_def wake_def parked_def) (simp flip: parked_def)
  have p: "polls ?s 3 = Some (7, Waiting)" by simp
  obtain x t where "waiter_at (iq ?s) 3 = Some x"
    "\<not> wt_released x \<longrightarrow> rtranclp inbound_step ?s t \<and> polls t 3 = Some (7, Returned (queue_of 7 (iq ?s)))"
    using no_poll_sleeps [OF demo_inbox_starts run p] q by auto
  then have "rtranclp inbound_step ?s t" "polls t 3 = Some (7, Returned [demo_line ''a''])" using w q by simp_all
  with run show ?thesis by (meson rtranclp_trans)
qed

text \<open>C30: a revocation ends the polls it finds waiting, empty-handed: each of them is woken, and whatever is sent in the
  meantime it returns nothing, so that the message stays queued for the run that comes next.\<close>

theorem revoked_poll_takes_nothing:
  assumes "inbound_start s0" "rtranclp inbound_step s0 s" "polls s w = Some (i, Waiting)"
    and "rtranclp inbound_step (s\<lparr>iq := forget_poller i (iq s)\<rparr>) u"
  shows "(\<exists>x. waiter_at (iq u) w = Some x \<and> wt_event x \<and> wt_released x)
    \<and> polls u w \<in> Some ` Pair i ` {Waiting, Leaving Woke, Leaving TimedOut, Leaving Cancelled, Returned []}"
proof -
  have "wait_ok (iq s) (polls s)" by (rule waiting.reachable_inv [OF assms(1,2)])
  from revoke_flags [OF this assms(3)] have "revoked_at w i (s\<lparr>iq := forget_poller i (iq s)\<rparr>)"
    using assms(3) by (simp add: revoked_at_def forget_poller_def)
  from revoked_run [OF assms(4) this] show ?thesis unfolding revoked_at_def by blast
qed

theorem revoked_poll_takes_nothing_witness:
  "\<exists>u. rtranclp inbound_step demo_inbox u \<and> polls u 3 = Some (7, Returned []) \<and> queue_of 7 (iq u) = [demo_line ''a'']"
proof -
  let ?t = "demo_waiting\<lparr>iq := forget_poller 7 (iq demo_waiting)\<rparr>"
  let ?u1 = "?t\<lparr>iq := append_capped 7 (demo_line ''a'') (iq ?t),
    history := history ?t @ Sent 7 (demo_line ''a'') # (if is_full 7 (iq ?t) then [Overflowed 7] else [])\<rparr>"
  have "inbound_step demo_waiting ?t" by (rule forgets_step)
  then have start: "rtranclp inbound_step demo_inbox ?t" using demo_waits by simp
  have r1: "rtranclp inbound_step ?t ?u1" using demo_sent [of ?t 7 "demo_line ''a''"] by blast
  have p1: "polls ?u1 3 = Some (7, Waiting)" by simp
  obtain x where x: "waiter_at (iq ?u1) 3 = Some x" "wt_event x" "wt_released x"
    using revoked_poll_takes_nothing [OF demo_inbox_starts demo_waits _ r1, of 3] by auto
  let ?u2 = "?u1\<lparr>polls := (polls ?u1)(3 \<mapsto> (7, Leaving Woke))\<rparr>"
  let ?u3 = "?u2\<lparr>iq := release_waiter 7 3 (iq ?u2), polls := (polls ?u2)(3 \<mapsto> (7, poll_result 3 Woke (iq ?u2)))\<rparr>"
  have s2: "inbound_step ?u1 ?u2" by (rule inbound_step.woken [OF p1 x(1,2)])
  have s3: "inbound_step ?u2 ?u3" by (rule inbound_step.released) simp
  note r3 = rtranclp_trans [OF r1 steps_2 [OF s2 s3]]
  have "polls ?u3 3 = Some (7, Returned [])" using x by (simp add: poll_result_def)
  moreover have "queue_of 7 (iq ?t) = []" "max_per_session (iq ?t) = 256"
    using revoke_leaves(1) [of "iq demo_waiting" 7] demo_waiting_simps(4,7)
    by (simp_all add: forget_poller_def same_mail_def queue_of_def)
  then have "queue_of 7 (iq ?u3) = [demo_line ''a'']" by simp
  ultimately show ?thesis using start r3 by (meson rtranclp_trans)
qed

section \<open>Keys\<close>

text \<open>C31: a send under a key is made once: until as many other keyed sends as the server remembers have been made, a
  send under that key enqueues nothing and returns the first receipt if it says the same, and is
  refused if it says something else.\<close>

theorem keyed_message_once:
  assumes "inbound_start s0" "rtranclp inbound_step s0 s" "targets \<noteq> []"
    and "send_once (Some k) targets fingerprint (iq s) = (q, Inr ids)" "map_of (seen_sends (iq s)) k = None"
    and "rtranclp inbound_step (s\<lparr>iq := q, history := history s @ keyed_events (Some k) targets (iq s)\<rparr>) u"
    and "length (keyed_in (history u)) \<le> length (keyed_in (history s)) + max_seen_keys (iq s)"
  shows "send_once (Some k) targets' fingerprint' (iq u)
    = (iq u, if fingerprint' = fingerprint then Inr (map fst targets) else Inl IdempotencyReuseError)"
proof -
  let ?s = "s\<lparr>iq := q, history := history s @ keyed_events (Some k) targets (iq s)\<rparr>"
  have step: "inbound_step s ?s" using inbound_step.sent [of s "Some k" targets fingerprint] assms(4) by simp
  have ok: "receipts_ok (iq s)" by (rule receipts.reachable_inv [OF assms(1,2)])
  then have ok': "receipts_ok (iq ?s)" using receipts.keep [OF _ step] by simp
  obtain r where r: "sr_delivered r = map fst targets" "sr_fingerprint r = fingerprint"
    "q = remember k r (fold (\<lambda>(i, m). append_capped i m) targets (iq s))"
    "keyed_events (Some k) targets (iq s) = send_events targets (iq s) @ [Keyed k]"
    by (cases rule: send_once_cases [where key = "Some k" and targets = targets and fp = fingerprint and q = "iq s"])
       (use assms(3-5) in auto)
  have caps: "max_seen_keys q = max_seen_keys (iq s)" using r(3) by (simp add: remember_def)
  have keyed: "keyed_in (history ?s) = keyed_in (history s) @ [k]" using r(4) by simp
  have "prefix (history ?s) (history u)" using mail.trail_grows [OF assms(6)] mail.reachable_inv [OF assms(1), of ?s] step assms(2)
    by (meson rtranclp.rtrancl_into_rtrancl)
  then obtain h where "history u = history ?s @ h" by (auto simp: prefix_def)
  then have pos: "0 < max_seen_keys (iq s)" using assms(7) keyed by simp
  have up: "AList.update k r d = d @ [(k, r)]" if "map_of d k = None" for d
    using that by (induction d) auto
  have "seen_sends q = newest (max_seen_keys (iq s)) (seen_sends (iq s) @ [(k, r)])"
    using assms(5) by (simp add: r(3) remember_def up)
  then obtain xs where "seen_sends (iq ?s) = xs @ [(k, r)]" using pos by (auto simp: newest_def Suc_diff_le)
  from receipt_kept [OF assms(6) ok' this] assms(7) keyed caps have "map_of (seen_sends (iq u)) k = Some r" by simp
  then show ?thesis using r(1,2) by (simp add: send_once_def)
qed

theorem keyed_message_once_witness:
  "\<exists>u. rtranclp inbound_step demo_inbox u
    \<and> send_once (Some 5) [(7, demo_line ''a'')] ''x'' (iq u) = (iq u, Inr [7])
    \<and> send_once (Some 5) [(7, demo_line ''b'')] ''y'' (iq u) = (iq u, Inl IdempotencyReuseError)"
proof -
  obtain q where q: "send_once (Some 5) [(7, demo_line ''a'')] ''x'' (iq demo_inbox) = (q, Inr [7])"
    by (simp add: send_once_def Let_def demo_inbox_def InboundQueue_def)
  let ?u = "demo_inbox\<lparr>iq := q, history := history demo_inbox @ keyed_events (Some 5) [(7, demo_line ''a'')] (iq demo_inbox)\<rparr>"
  have step: "inbound_step demo_inbox ?u" using inbound_step.sent [of demo_inbox "Some 5" "[(7, demo_line ''a'')]" "''x''"] q by simp
  have "map_of (seen_sends (iq demo_inbox)) 5 = None" "max_seen_keys (iq demo_inbox) = 4096" "history demo_inbox = []"
    by (simp_all add: demo_inbox_def InboundQueue_def)
  moreover have "length (keyed_in (keyed_events (Some 5) [(7, demo_line ''a'')] (iq demo_inbox))) \<le> 1"
    by (simp add: keyed_events_def)
  ultimately have once: "send_once (Some 5) ts f (iq ?u) = (iq ?u, if f = ''x'' then Inr [7] else Inl IdempotencyReuseError)" for ts f
    using keyed_message_once [OF demo_inbox_starts rtranclp.rtrancl_refl _ q _ rtranclp.rtrancl_refl, of ts f] by simp
  have "send_once (Some 5) [(7, demo_line ''a'')] ''x'' (iq ?u) = (iq ?u, Inr [7])"
    "send_once (Some 5) [(7, demo_line ''b'')] ''y'' (iq ?u) = (iq ?u, Inl IdempotencyReuseError)"
    unfolding once by simp_all
  with step show ?thesis by blast
qed

section \<open>Runs that went offline\<close>




end
