(* ===== verification/Unicode_Text.thy ===== *)
theory Unicode_Text
  imports Byte_Stream
begin

text \<open>
  A Python \<open>str\<close> over all of Unicode, as the list of its code points, lone surrogates included, and what
  \<open>runs/redact.py\<close> uses of the standard library on it: \<open>str.find\<close>, \<open>str.splitlines\<close>, \<open>str.strip\<close>, the
  escapes of \<open>json.dumps\<close>, UTF-8 with \<open>errors="surrogateescape"\<close>, and strict base64. Decoding bytes and
  encoding them again gives the bytes back, whatever they are.
\<close>

type_synonym points = "nat list"

definition pts :: "string \<Rightarrow> points" where
  "pts s = map code s"

definition between :: "nat \<Rightarrow> nat \<Rightarrow> 'a list \<Rightarrow> 'a list" where
  "between lo hi t = take (hi - lo) (drop lo t)"

section \<open>Searching\<close>

definition occurs :: "'a list \<Rightarrow> nat \<Rightarrow> 'a list \<Rightarrow> bool" where
  "occurs w i t \<longleftrightarrow> take (length w) (drop i t) = w"

text \<open>\<open>t.find(w, lo, hi)\<close> of a word that is not empty, and the indices a loop that searches on behind each hit
  goes through.\<close>

definition find_in :: "'a list \<Rightarrow> nat \<Rightarrow> nat \<Rightarrow> 'a list \<Rightarrow> nat option" where
  "find_in w lo hi t = List.find (\<lambda>i. occurs w i t) [lo..<Suc hi - length w]"

lemma find_in_bounds: "find_in w lo hi t = Some i \<Longrightarrow> lo \<le> i \<and> i < Suc hi"
  by (auto simp: find_in_def find_Some_iff)

function find_all :: "'a list \<Rightarrow> nat \<Rightarrow> nat \<Rightarrow> 'a list \<Rightarrow> nat list" where
  "find_all w lo hi t = (case find_in w lo hi t of None \<Rightarrow> [] | Some i \<Rightarrow> i # find_all w (Suc i) hi t)"
  by pat_completeness auto
termination
  by (relation "measure (\<lambda>(w, lo, hi, t). Suc hi - lo)") (auto dest: find_in_bounds)

declare find_all.simps [simp del]

lemma find_Some_split:
  assumes "List.find P xs = Some x"
  obtains ys zs where "xs = ys @ x # zs" "\<forall>y \<in> set ys. \<not> P y" "P x"
  using assms
proof (induction xs arbitrary: thesis)
  case (Cons a xs)
  show ?case
  proof (cases "P a")
    case True
    then show ?thesis using Cons.prems(1) [of "[]" xs] Cons.prems(2) by simp
  next
    case False
    then obtain ys zs where "xs = ys @ x # zs" "\<forall>y \<in> set ys. \<not> P y" "P x" using Cons.IH Cons.prems(2) by auto
    then show ?thesis using Cons.prems(1) [of "a # ys" zs] False by simp
  qed
qed simp

lemma upt_split: "[lo..<hi] = ys @ i # zs \<Longrightarrow> ys = [lo..<i] \<and> zs = [Suc i..<hi]"
proof -
  assume a: "[lo..<hi] = ys @ i # zs"
  then have n: "length ys < hi - lo" by (metis add_Suc_right length_append length_Cons length_upt less_add_Suc1)
  have "[lo..<hi] ! length ys = i" using a by simp
  then have i: "i = lo + length ys" using n by simp
  have "ys = take (length ys) [lo..<hi]" "zs = drop (Suc (length ys)) [lo..<hi]" using a by simp_all
  then show ?thesis using i n by (simp add: take_upt drop_upt)
qed

lemma find_all_filter: "find_all w lo hi t = filter (\<lambda>i. occurs w i t) [lo..<Suc hi - length w]"
proof (induction w lo hi t rule: find_all.induct)
  case (1 w lo hi t)
  show ?case
  proof (cases "find_in w lo hi t")
    case None
    then have "filter (\<lambda>i. occurs w i t) [lo..<Suc hi - length w] = []"
      unfolding find_in_def find_None_iff by (auto simp: filter_empty_conv)
    then show ?thesis using None by (subst find_all.simps) simp
  next
    case (Some i)
    then obtain ys zs where s: "[lo..<Suc hi - length w] = ys @ i # zs" "\<forall>y \<in> set ys. \<not> occurs w y t" "occurs w i t"
      unfolding find_in_def by (rule find_Some_split)
    then have "filter (\<lambda>i. occurs w i t) [lo..<Suc hi - length w] = i # filter (\<lambda>i. occurs w i t) zs" by simp
    moreover have "zs = [Suc i..<Suc hi - length w]" using upt_split [OF s(1)] by simp
    ultimately show ?thesis using 1 [OF Some] Some by (subst find_all.simps) simp
  qed
qed

lemma occurs_fits: "occurs w i t \<Longrightarrow> w \<noteq> [] \<Longrightarrow> i + length w \<le> length t"
  unfolding occurs_def
proof -
  assume a: "take (length w) (drop i t) = w" and "w \<noteq> []"
  then have "length w \<le> length t - i" "0 < length w" by (metis length_drop length_take min.cobounded1, simp)
  then show ?thesis by linarith
qed

section \<open>Lines and white space\<close>

definition line_break :: "nat \<Rightarrow> bool" where
  "line_break c \<longleftrightarrow> c \<in> {10, 11, 12, 13, 28, 29, 30, 133, 8232, 8233}"

function split_lines :: "points \<Rightarrow> points \<Rightarrow> points list" where
  "split_lines acc [] = (if acc = [] then [] else [acc])"
| "split_lines acc (c # r) =
     (if line_break c then acc # split_lines [] (if c = 13 \<and> r \<noteq> [] \<and> hd r = 10 then tl r else r)
      else split_lines (acc @ [c]) r)"
  by pat_completeness auto
termination
  by (relation "measure (\<lambda>(acc, s). length s)") auto

definition splitlines :: "points \<Rightarrow> points list" where
  "splitlines s = split_lines [] s"

definition space_point :: "nat \<Rightarrow> bool" where
  "space_point c \<longleftrightarrow> 9 \<le> c \<and> c \<le> 13 \<or> 28 \<le> c \<and> c \<le> 32 \<or> 8192 \<le> c \<and> c \<le> 8202
     \<or> c \<in> {133, 160, 5760, 8232, 8233, 8239, 8287, 12288}"

definition strip_points :: "points \<Rightarrow> points" where
  "strip_points s = rev (dropWhile space_point (rev (dropWhile space_point s)))"

section \<open>JSON escapes\<close>

definition hex_point :: "nat \<Rightarrow> nat" where
  "hex_point n = (if n < 10 then 48 + n else 87 + n)"

definition json_u :: "nat \<Rightarrow> points" where
  "json_u c = [92, 117] @ map hex_point [c div 4096 mod 16, c div 256 mod 16, c div 16 mod 16, c mod 16]"

definition json_char :: "bool \<Rightarrow> nat \<Rightarrow> points" where
  "json_char ascii_only c =
     (if c = 34 \<or> c = 92 then [92, c]
      else if c = 8 then [92, 98] else if c = 9 then [92, 116] else if c = 10 then [92, 110]
      else if c = 12 then [92, 102] else if c = 13 then [92, 114]
      else if c < 32 then json_u c
      else if ascii_only \<and> 126 < c then
        (if c < 65536 then json_u c else json_u (55296 + (c - 65536) div 1024) @ json_u (56320 + (c - 65536) mod 1024))
      else [c])"

definition json_escape :: "bool \<Rightarrow> points \<Rightarrow> points" where
  "json_escape ascii_only s = concat (map (json_char ascii_only) s)"

lemma json_char_nonempty: "json_char a c \<noteq> []"
  by (simp add: json_char_def json_u_def pts_def)

lemma json_escape_nonempty: "s \<noteq> [] \<Longrightarrow> json_escape a s \<noteq> []"
  by (cases s) (simp_all add: json_escape_def json_char_nonempty)

section \<open>UTF-8\<close>

text \<open>A byte that is no part of a well-formed sequence is the lone surrogate U+DC80 to U+DCFF; a surrogate of
  another range cannot be encoded.\<close>

definition utf8_char :: "nat \<Rightarrow> bytes option" where
  "utf8_char c =
     (if c < 128 then Some [of_nat c]
      else if c < 2048 then Some [of_nat (192 + c div 64), of_nat (128 + c mod 64)]
      else if 55296 \<le> c \<and> c < 57344 then (if 56448 \<le> c \<and> c < 56576 then Some [of_nat (c - 56320)] else None)
      else if c < 65536 then Some [of_nat (224 + c div 4096), of_nat (128 + c div 64 mod 64), of_nat (128 + c mod 64)]
      else if c < 1114112 then
        Some [of_nat (240 + c div 262144), of_nat (128 + c div 4096 mod 64), of_nat (128 + c div 64 mod 64), of_nat (128 + c mod 64)]
      else None)"

fun utf8_encode :: "points \<Rightarrow> bytes option" where
  "utf8_encode [] = Some []"
| "utf8_encode (c # cs) =
     (case (utf8_char c, utf8_encode cs) of (Some b, Some bs) \<Rightarrow> Some (b @ bs) | _ \<Rightarrow> None)"

definition continuation :: "byte \<Rightarrow> bool" where
  "continuation b \<longleftrightarrow> 128 \<le> unat b \<and> unat b < 192"

text \<open>The code point of the well-formed sequence of more than one byte that starts here, and how many bytes follow
  the first.\<close>

fun utf8_sequence :: "byte \<Rightarrow> bytes \<Rightarrow> (nat \<times> nat) option" where
  "utf8_sequence b bs =
     (let n = unat b; x = (\<lambda>k. unat (bs ! k) - 128);
          c2 = (n - 192) * 64 + x 0; c3 = (n - 224) * 4096 + x 0 * 64 + x 1;
          c4 = (n - 240) * 262144 + x 0 * 4096 + x 1 * 64 + x 2
      in if 194 \<le> n \<and> n < 224 \<and> 1 \<le> length bs \<and> list_all continuation (take 1 bs) then Some (c2, 1)
         else if 224 \<le> n \<and> n < 240 \<and> 2 \<le> length bs \<and> list_all continuation (take 2 bs)
           \<and> 2048 \<le> c3 \<and> \<not> (55296 \<le> c3 \<and> c3 < 57344) then Some (c3, 2)
         else if 240 \<le> n \<and> n < 245 \<and> 3 \<le> length bs \<and> list_all continuation (take 3 bs)
           \<and> 65536 \<le> c4 \<and> c4 < 1114112 then Some (c4, 3)
         else None)"

function utf8_decode :: "bytes \<Rightarrow> points" where
  "utf8_decode [] = []"
| "utf8_decode (b # bs) =
     (if unat b < 128 then unat b # utf8_decode bs
      else case utf8_sequence b bs of
        None \<Rightarrow> (56320 + unat b) # utf8_decode bs
      | Some (c, k) \<Rightarrow> c # utf8_decode (drop k bs))"
  by pat_completeness auto
termination
  by (relation "measure length") auto

declare utf8_sequence.simps [simp del] utf8_decode.simps(2) [simp del]

lemma utf8_encode_append:
  "utf8_encode (s @ t) = (case (utf8_encode s, utf8_encode t) of (Some a, Some b) \<Rightarrow> Some (a @ b) | _ \<Rightarrow> None)"
  by (induction s) (auto split: option.splits)

lemma of_nat_unat_byte: "n = unat (b :: byte) \<Longrightarrow> of_nat n = b"
  by simp

lemma byte_less: "unat (b :: byte) < 256"
  using unsigned_less [of b] by simp

lemma utf8_two:
  assumes "194 \<le> unat b" "unat b < 224" "continuation b1"
  shows "utf8_char ((unat b - 192) * 64 + (unat b1 - 128)) = Some [b, b1]"
proof -
  let ?r = "unat b1 - 128"
  have r: "?r < 64" "128 + ?r = unat b1" using assms(3) by (auto simp: continuation_def)
  have d: "((unat b - 192) * 64 + ?r) div 64 = unat b - 192" "((unat b - 192) * 64 + ?r) mod 64 = ?r" using r(1) by simp_all
  have "128 \<le> (unat b - 192) * 64 + ?r" "(unat b - 192) * 64 + ?r < 2048" using assms r(1) by simp_all
  then show ?thesis using d r(2) assms(1) by (simp add: utf8_char_def)
qed

lemma digit64: "r < (64 :: nat) \<Longrightarrow> (p * 64 + r) mod 64 = r" "r < (64 :: nat) \<Longrightarrow> (p * 64 + r) div 64 = p"
  by simp_all

lemma digits64:
  assumes "r < (64 :: nat)" "q < 64"
  shows "(p * 4096 + q * 64 + r) mod 64 = r" "(p * 4096 + q * 64 + r) div 64 mod 64 = q" "(p * 4096 + q * 64 + r) div 4096 = p"
proof -
  have e: "p * 4096 + q * 64 + r = (p * 64 + q) * 64 + r" by simp
  show "(p * 4096 + q * 64 + r) mod 64 = r" unfolding e by (rule digit64 [OF assms(1)])
  have d: "(p * 4096 + q * 64 + r) div 64 = p * 64 + q" unfolding e by (rule digit64 [OF assms(1)])
  then show "(p * 4096 + q * 64 + r) div 64 mod 64 = q" using digit64(1) [OF assms(2)] by simp
  have "(p * 4096 + q * 64 + r) div (64 * 64) = (p * 4096 + q * 64 + r) div 64 div 64" by (rule div_mult2_eq)
  then show "(p * 4096 + q * 64 + r) div 4096 = p" unfolding d digit64(2) [OF assms(2)] by simp
qed

lemma digits64_less: "p < 16 \<Longrightarrow> q < 64 \<Longrightarrow> r < 64 \<Longrightarrow> p * 4096 + q * 64 + r < (65536 :: nat)"
  by linarith

lemma utf8_three:
  assumes "224 \<le> unat b" "unat b < 240" "continuation b1" "continuation b2"
    and "c = (unat b - 224) * 4096 + (unat b1 - 128) * 64 + (unat b2 - 128)" "2048 \<le> c" "\<not> (55296 \<le> c \<and> c < 57344)"
  shows "utf8_char c = Some [b, b1, b2]"
proof -
  have r: "unat b1 - 128 < 64" "128 + (unat b1 - 128) = unat b1" "unat b2 - 128 < 64" "128 + (unat b2 - 128) = unat b2"
    using assms(3,4) by (auto simp: continuation_def)
  note d = digits64 [OF r(3) r(1), of "unat b - 224", folded assms(5)]
  have "unat b - 224 < 16" using assms(2) by linarith
  then have "c < 65536" unfolding assms(5) by (rule digits64_less [OF _ r(1,3)])
  then show ?thesis using d r assms(1,6,7) by (simp add: utf8_char_def)
qed

lemma utf8_four:
  assumes "240 \<le> unat b" "continuation b1" "continuation b2" "continuation b3"
    and "c = (unat b - 240) * 262144 + (unat b1 - 128) * 4096 + (unat b2 - 128) * 64 + (unat b3 - 128)"
    and "65536 \<le> c" "c < 1114112"
  shows "utf8_char c = Some [b, b1, b2, b3]"
proof -
  have r: "unat b1 - 128 < 64" "128 + (unat b1 - 128) = unat b1" "unat b2 - 128 < 64" "128 + (unat b2 - 128) = unat b2"
    "unat b3 - 128 < 64" "128 + (unat b3 - 128) = unat b3"
    using assms(2-4) by (auto simp: continuation_def)
  let ?p = "(unat b - 240) * 64 + (unat b1 - 128)"
  have c: "c = ?p * 4096 + (unat b2 - 128) * 64 + (unat b3 - 128)" using assms(5) by (simp add: algebra_simps)
  note d = digits64 [OF r(5) r(3), of ?p, folded c]
  have "c div 4096 mod 64 = unat b1 - 128" unfolding d(3) using r(1) by simp
  moreover have "c div 262144 = unat b - 240"
  proof -
    have "c div (4096 * 64) = c div 4096 div 64" by (rule div_mult2_eq)
    then show ?thesis unfolding d(3) digit64(2) [OF r(1)] by simp
  qed
  ultimately show ?thesis using d(1,2) r assms(1,6,7) by (simp add: utf8_char_def)
qed

lemma take_index: "k \<le> length bs \<Longrightarrow> take k bs = map (\<lambda>i. bs ! i) [0..<k]"
  by (rule nth_equalityI) auto

lemma utf8_sequence_bytes:
  assumes "utf8_sequence b bs = Some (c, k)"
  shows "utf8_char c = Some (b # take k bs)"
proof -
  have three: "[0..<3] = [0, 1, 2 :: nat]" and two: "[0..<2] = [0, 1 :: nat]" by (simp_all add: upt_rec)
  show ?thesis
    using assms utf8_two [of b "bs ! 0"] utf8_three [of b "bs ! 0" "bs ! 1" c] utf8_four [of b "bs ! 0" "bs ! 1" "bs ! 2" c]
    by (auto simp: utf8_sequence.simps Let_def take_index two three split: if_splits)
qed

lemma utf8_round: "utf8_encode (utf8_decode bs) = Some bs"
proof (induction bs rule: utf8_decode.induct)
  case (2 b bs)
  show ?case
  proof (cases "unat b < 128")
    case True
    then have "utf8_char (unat b) = Some [b]" by (simp add: utf8_char_def)
    then show ?thesis using 2(1) [OF True] True by (subst utf8_decode.simps) simp
  next
    case False
    show ?thesis
    proof (cases "utf8_sequence b bs")
      case None
      have "utf8_char (56320 + unat b) = Some [b]" using False byte_less [of b] by (simp add: utf8_char_def)
      then show ?thesis using 2(2) [OF False None] False None by (subst utf8_decode.simps) simp
    next
      case (Some ck)
      obtain c k where ck: "ck = (c, k)" by (cases ck)
      have "utf8_char c = Some (b # take k bs)" using utf8_sequence_bytes Some ck by simp
      then show ?thesis using 2(3) [OF False Some ck [symmetric]] False Some ck by (subst utf8_decode.simps) simp
    qed
  qed
qed simp

section \<open>Base64\<close>

definition b64_char :: "nat \<Rightarrow> nat" where
  "b64_char n = (if n < 26 then 65 + n else if n < 52 then 71 + n else if n < 62 then n - 4 else if n = 62 then 43 else 47)"

definition b64_value :: "nat \<Rightarrow> nat option" where
  "b64_value c =
     (if 65 \<le> c \<and> c \<le> 90 then Some (c - 65) else if 97 \<le> c \<and> c \<le> 122 then Some (c - 71)
      else if 48 \<le> c \<and> c \<le> 57 then Some (c + 4) else if c = 43 then Some 62 else if c = 47 then Some 63 else None)"

fun b64encode :: "bytes \<Rightarrow> points" where
  "b64encode [] = []"
| "b64encode [a] = [b64_char (unat a div 4), b64_char (unat a mod 4 * 16), 61, 61]"
| "b64encode [a, b] =
     [b64_char (unat a div 4), b64_char (unat a mod 4 * 16 + unat b div 16), b64_char (unat b mod 16 * 4), 61]"
| "b64encode (a # b # c # r) =
     [b64_char (unat a div 4), b64_char (unat a mod 4 * 16 + unat b div 16),
      b64_char (unat b mod 16 * 4 + unat c div 64), b64_char (unat c mod 64)] @ b64encode r"

text \<open>\<open>b64decode(s, validate=True)\<close>: nothing but the alphabet, in groups of four, padding only at the end.\<close>

definition b64_quad :: "nat \<Rightarrow> nat \<Rightarrow> nat \<Rightarrow> nat \<Rightarrow> bool \<Rightarrow> bytes option" where
  "b64_quad w x y z final =
     (case (b64_value w, b64_value x, b64_value y, b64_value z) of
        (Some p, Some q, Some r, Some s) \<Rightarrow> Some [of_nat (p * 4 + q div 16), of_nat (q mod 16 * 16 + r div 4), of_nat (r mod 4 * 64 + s)]
      | (Some p, Some q, Some r, None) \<Rightarrow>
          if final \<and> z = 61 then Some [of_nat (p * 4 + q div 16), of_nat (q mod 16 * 16 + r div 4)] else None
      | (Some p, Some q, None, None) \<Rightarrow> if final \<and> y = 61 \<and> z = 61 then Some [of_nat (p * 4 + q div 16)] else None
      | _ \<Rightarrow> None)"

fun b64decode :: "points \<Rightarrow> bytes option" where
  "b64decode [] = Some []"
| "b64decode (w # x # y # z # r) =
     (case (b64_quad w x y z (r = []), b64decode r) of (Some a, Some b) \<Rightarrow> Some (a @ b) | _ \<Rightarrow> None)"
| "b64decode _ = None"

lemma b64_value_char: "n < 64 \<Longrightarrow> b64_value (b64_char n) = Some n"
  by (auto simp: b64_value_def b64_char_def)

lemma b64_value_pad [simp]: "b64_value 61 = None"
  by (simp add: b64_value_def)

lemma quad_parts:
  fixes a b c :: byte
  shows "unat a div 4 < 64" "unat a mod 4 * 16 + unat b div 16 < 64" "unat a mod 4 * 16 < 64"
    "unat b mod 16 * 4 + unat c div 64 < 64" "unat b mod 16 * 4 < 64" "unat c mod 64 < 64"
  using byte_less [of a] byte_less [of b] byte_less [of c] by simp_all

lemma b64_round: "b64decode (b64encode bs) = Some bs"
proof (induction bs rule: b64encode.induct)
  case (2 a)
  have "(unat a div 4) * 4 + unat a mod 4 * 16 div 16 = unat a" by simp
  then show ?case using quad_parts(1,3) [of a] by (simp add: b64_quad_def b64_value_char)
next
  case (3 a b)
  have "unat a mod 4 * 16 + unat b div 16 < 64" by (rule quad_parts)
  then show ?case using quad_parts(1) [of a] quad_parts(5) [of b] byte_less [of b]
    by (simp add: b64_quad_def b64_value_char)
next
  case (4 a b c r)
  then show ?case using quad_parts(1) [of a] quad_parts(2) [of a b] quad_parts(4) [of b c] quad_parts(6) [of c] byte_less [of b] byte_less [of c]
    by (simp add: b64_quad_def b64_value_char)
qed simp

end
