(* ===== verification/Redact.thy ===== *)
theory Redact
  imports Unicode_Text Ordered_Dict
begin

text \<open>
  \<open>runs/redact.py\<close>: replacing the values of secrets by placeholders in text, JSON and attached bytes before
  they leave a process. The text that \<open>str\<close> gives of a float is an argument.
\<close>

section \<open>The redactor\<close>

definition TRUNCATED :: points where
  "TRUNCATED = pts ''... (truncated)''"

definition MIN_SECRET_LENGTH :: nat where
  "MIN_SECRET_LENGTH = 8"

definition MIN_LINE_LENGTH :: nat where
  "MIN_LINE_LENGTH = 4"

definition BYTES_TAG :: points where
  "BYTES_TAG = pts ''py/b64''"

type_synonym redactor = "(points \<times> points list) list"

definition matchable_lines :: "points \<Rightarrow> points list" where
  "matchable_lines value =
     (let lines = splitlines value in
      if length lines < 2 then [] else filter (\<lambda>l. MIN_LINE_LENGTH \<le> length l) (map strip_points lines))"

definition needles_of :: "points \<Rightarrow> points list" where
  "needles_of value = concat (map (\<lambda>part. [part, json_escape False part, json_escape True part]) (value # matchable_lines value))"

definition add_needle :: "points \<Rightarrow> points \<Rightarrow> redactor \<Rightarrow> redactor" where
  "add_needle name needle d =
     (let names = get_or [] (map_of d needle)
      in AList.update needle (if name \<in> set names then names else names @ [name]) d)"

fun add_secrets :: "(points \<times> points) list \<Rightarrow> redactor \<Rightarrow> redactor res" where
  "add_secrets [] d = Inr d"
| "add_secrets ((name, value) # rest) d =
     (if value = [] then Inl ValueError else add_secrets rest (fold (add_needle name) (needles_of value) d))"

definition Redactor :: "(points \<times> points) list \<Rightarrow> redactor res" where
  "Redactor secrets = add_secrets secrets []"

section \<open>Finding the values\<close>

text \<open>\<open>text.endswith(_TRUNCATED, start, end)\<close>.\<close>

definition line_cuts :: "points \<Rightarrow> nat \<Rightarrow> nat \<Rightarrow> (nat \<times> nat) list" where
  "line_cuts t start end' =
     (start, end') #
     (if start + length TRUNCATED \<le> end' \<and> occurs TRUNCATED (end' - length TRUNCATED) t
      then [(start, end' - length TRUNCATED)] else [])"

fun cuts_from :: "points \<Rightarrow> nat \<Rightarrow> nat list \<Rightarrow> (nat \<times> nat) list" where
  "cuts_from t start [] = line_cuts t start (length t)"
| "cuts_from t start (e # es) = line_cuts t start e @ cuts_from t (Suc e) es"

definition cuts :: "points \<Rightarrow> (nat \<times> nat) list" where
  "cuts t = cuts_from t 0 (filter (\<lambda>i. t ! i = 10 \<or> t ! i = 13) [0..<length t])"

definition starts :: "points \<Rightarrow> points \<Rightarrow> nat list" where
  "starts t needle = find_all needle 0 (length t) t"

text \<open>The length of the opening or closing line of a PEM block at the start, by the regular expression
  \<open>_ARMOUR\<close>: no character of its middle is a dash, so the first run of them is the only match.\<close>

definition armour_char :: "nat \<Rightarrow> bool" where
  "armour_char c \<longleftrightarrow> 65 \<le> c \<and> c \<le> 90 \<or> 48 \<le> c \<and> c \<le> 57 \<or> c = 32"

definition armour_after :: "points \<Rightarrow> points \<Rightarrow> nat" where
  "armour_after head t =
     (let middle = takeWhile armour_char (drop (length head) t) in
      if occurs head 0 t \<and> middle \<noteq> [] \<and> occurs (pts ''-----'') (length head + length middle) t
      then length head + length middle + 5 else 0)"

definition framing :: "points \<Rightarrow> nat" where
  "framing needle = max (armour_after (pts ''-----BEGIN '') needle) (armour_after (pts ''-----END '') needle)"

definition cut_prefixes :: "points \<Rightarrow> points \<Rightarrow> (nat \<times> nat) list \<Rightarrow> (nat \<times> nat) list" where
  "cut_prefixes t needle cs =
     concat (map (\<lambda>(line_start, cut).
       map (\<lambda>start. (start, cut))
         (filter (\<lambda>start. framing needle < cut - start \<and> occurs (between start cut t) 0 needle)
           (find_all (take 4 needle) (max line_start (Suc cut - length needle)) cut t))) cs)"

definition extend_found :: "points list \<Rightarrow> nat \<times> nat \<Rightarrow> ((nat \<times> nat) \<times> points list) list \<Rightarrow> ((nat \<times> nat) \<times> points list) list" where
  "extend_found names k d = AList.update k (get_or [] (map_of d k) @ names) d"

definition spans_of :: "points \<Rightarrow> points \<Rightarrow> (nat \<times> nat) list" where
  "spans_of t needle = map (\<lambda>start. (start, start + length needle)) (starts t needle) @ cut_prefixes t needle (cuts t)"

definition found_in :: "redactor \<Rightarrow> points \<Rightarrow> ((nat \<times> nat) \<times> points list) list" where
  "found_in r t = fold (\<lambda>(needle, names). fold (extend_found names) (spans_of t needle)) r []"

text \<open>\<open>sorted(found.items(), key=_longest_first)\<close>: by start, then by minus the end; a stable sort by the second key
  before one by the first.\<close>

definition longest_first :: "((nat \<times> nat) \<times> points list) list \<Rightarrow> ((nat \<times> nat) \<times> points list) list" where
  "longest_first found = sort_key (\<lambda>((s, e), names). s) (sort_key (\<lambda>((s, e), names). - int e) found)"

section \<open>Redacting\<close>

definition placeholder :: "points \<Rightarrow> points" where
  "placeholder name = pts ''[redacted:'' @ name @ pts '']''"

definition placeholders :: "points list \<Rightarrow> points" where
  "placeholders block = concat (map placeholder block)"

definition extend_block :: "points list \<Rightarrow> points list \<Rightarrow> points list" where
  "extend_block names block = fold (\<lambda>name b. if name \<in> set b then b else b @ [name]) names block"

fun write_blocks :: "points \<Rightarrow> ((nat \<times> nat) \<times> points list) list \<Rightarrow> nat \<Rightarrow> points list \<Rightarrow> points" where
  "write_blocks t [] reach block = placeholders block @ drop reach t"
| "write_blocks t (((start, end'), names) # rest) reach block =
     (if end' \<le> reach then write_blocks t rest reach block
      else if reach \<le> start
      then placeholders block @ between reach start t @ write_blocks t rest end' (extend_block names [])
      else write_blocks t rest end' (extend_block names block))"

definition redact :: "redactor \<Rightarrow> points \<Rightarrow> points" where
  "redact r t = (let found = found_in r t in if found = [] then t else write_blocks t (longest_first found) 0 [])"

text \<open>Plain data; an encoding that UTF-8 cannot write is the \<open>UnicodeEncodeError\<close>, a \<open>ValueError\<close>.\<close>

datatype 'f plain = PNull | PBool bool | PInt int | PFloat 'f | PStr points | PList "'f plain list" | PMap "(points \<times> 'f plain) list"

definition redact_encoded_bytes :: "redactor \<Rightarrow> points \<Rightarrow> points res" where
  "redact_encoded_bytes r encoded =
     (case b64decode encoded of
        None \<Rightarrow> Inr (redact r encoded)
      | Some raw \<Rightarrow>
          let t = utf8_decode raw; redacted = redact r t in
          if redacted = t then Inr (redact r encoded)
          else case utf8_encode redacted of None \<Rightarrow> Inl ValueError | Some b \<Rightarrow> Inr (b64encode b))"

definition number_text :: "redactor \<Rightarrow> points \<Rightarrow> 'f plain \<Rightarrow> 'f plain" where
  "number_text r t value = (if redact r t = t then value else PStr (redact r t))"

text \<open>The mapping of one key \<open>py/b64\<close> that holds a string.\<close>

fun tagged_bytes :: "(points \<times> 'f plain) list \<Rightarrow> points option" where
  "tagged_bytes [(k, PStr s)] = (if k = BYTES_TAG then Some s else None)"
| "tagged_bytes _ = None"

fun redact_json :: "('f \<Rightarrow> points) \<Rightarrow> redactor \<Rightarrow> 'f plain \<Rightarrow> 'f plain res"
and redact_items :: "('f \<Rightarrow> points) \<Rightarrow> redactor \<Rightarrow> 'f plain list \<Rightarrow> 'f plain list res"
and redact_members :: "('f \<Rightarrow> points) \<Rightarrow> redactor \<Rightarrow> (points \<times> 'f plain) list \<Rightarrow> (points \<times> 'f plain) list
      \<Rightarrow> (points \<times> 'f plain) list res" where
  "redact_json sf r (PStr s) = Inr (PStr (redact r s))"
| "redact_json sf r (PMap m) =
     (case tagged_bytes m of
        Some s \<Rightarrow> bind_res (redact_encoded_bytes r s) (\<lambda>b. Inr (PMap [(BYTES_TAG, PStr b)]))
      | None \<Rightarrow> bind_res (redact_members sf r m []) (\<lambda>d. Inr (PMap d)))"
| "redact_json sf r (PList xs) = bind_res (redact_items sf r xs) (\<lambda>ys. Inr (PList ys))"
| "redact_json sf r (PInt i) = Inr (number_text r (pts (show_int i)) (PInt i))"
| "redact_json sf r (PFloat f) = Inr (number_text r (sf f) (PFloat f))"
| "redact_json sf r (PBool b) = Inr (PBool b)"
| "redact_json sf r PNull = Inr PNull"
| "redact_items sf r [] = Inr []"
| "redact_items sf r (x # xs) = bind_res (redact_json sf r x) (\<lambda>y. bind_res (redact_items sf r xs) (\<lambda>ys. Inr (y # ys)))"
| "redact_members sf r [] d = Inr d"
| "redact_members sf r ((k, v) # m) d =
     bind_res (redact_json sf r v) (\<lambda>y. redact_members sf r m (AList.update (redact r k) y d))"

definition redact_mapping :: "('f \<Rightarrow> points) \<Rightarrow> redactor \<Rightarrow> (points \<times> 'f plain) list \<Rightarrow> (points \<times> 'f plain) list res" where
  "redact_mapping sf r m =
     (case tagged_bytes m of
        Some s \<Rightarrow> bind_res (redact_encoded_bytes r s) (\<lambda>b. Inr [(BYTES_TAG, PStr b)])
      | None \<Rightarrow> redact_members sf r m [])"

section \<open>Where the secrets come from\<close>

text \<open>A \<open>SystemExit\<close> carries the names that are missing or short.\<close>

datatype environ_error = SystemExitMissing "points list" | SystemExitShort "points list" | EmptySecret

fun split_comma :: "points \<Rightarrow> points \<Rightarrow> points list" where
  "split_comma acc [] = [acc]"
| "split_comma acc (c # s) = (if c = 44 then acc # split_comma [] s else split_comma (acc @ [c]) s)"

definition redactor_from_environ ::
  "(points \<times> points) list \<Rightarrow> (points \<times> points) list \<Rightarrow> environ_error + redactor option" where
  "redactor_from_environ environ also =
     (let listed = get_or [] (map_of environ (pts ''TRAX_REDACT_NAMES''));
          names = filter (\<lambda>n. n \<noteq> []) (map strip_points (split_comma [] listed));
          missing = filter (\<lambda>n. map_of environ n = None) names;
          short = filter (\<lambda>n. length (get_or [] (map_of environ n)) < MIN_SECRET_LENGTH) names;
          secrets = fold (\<lambda>(n, v). AList.update n v) also
            (fold (\<lambda>n. AList.update n (get_or [] (map_of environ n))) names [])
      in if missing \<noteq> [] then Inl (SystemExitMissing missing)
         else if short \<noteq> [] then Inl (SystemExitShort short)
         else if secrets = [] then Inr None
         else case Redactor secrets of Inl e \<Rightarrow> Inl EmptySecret | Inr r \<Rightarrow> Inr (Some r))"

record 'f record_body =
  rb_idx :: nat
  rb_kind :: points
  rb_context :: "nat option"
  rb_timestamp :: "points option"
  rb_model :: "points option"
  rb_payload :: "(points \<times> 'f plain) list"
  rb_text :: points
  rb_ciphertext :: "points option"

definition redact_body :: "('f \<Rightarrow> points) \<Rightarrow> redactor option \<Rightarrow> 'f record_body \<Rightarrow> 'f record_body res" where
  "redact_body sf redactor body =
     (case redactor of
        None \<Rightarrow> Inr body
      | Some r \<Rightarrow> bind_res (redact_mapping sf r (rb_payload body))
          (\<lambda>p. Inr (body\<lparr>rb_payload := p, rb_text := redact r (rb_text body)\<rparr>)))"

end
