(* ===== verification/Redact_Lemmas.thy ===== *)
theory Redact_Lemmas
  imports Redact
begin

text \<open>
  What a redactor hides, stated without its search: the occurrences of each value, of its JSON forms and of its
  longer lines, and of their beginnings where a line was cut. The lemmas show that the search finds exactly
  these, and that the writer replaces exactly what was found.
\<close>

section \<open>Where a line may have been cut\<close>

definition breaks :: "points \<Rightarrow> nat \<Rightarrow> bool" where
  "breaks t i \<longleftrightarrow> i < length t \<and> (t ! i = 10 \<or> t ! i = 13)"

definition line_end :: "points \<Rightarrow> nat \<Rightarrow> bool" where
  "line_end t c \<longleftrightarrow> c = length t \<or> breaks t c"

definition cut_end :: "points \<Rightarrow> nat \<Rightarrow> bool" where
  "cut_end t c \<longleftrightarrow> line_end t c \<or> (occurs TRUNCATED c t \<and> line_end t (c + length TRUNCATED))"

definition one_line :: "points \<Rightarrow> nat \<Rightarrow> nat \<Rightarrow> bool" where
  "one_line t s c \<longleftrightarrow> (\<forall>j. s \<le> j \<longrightarrow> j < c \<longrightarrow> \<not> breaks t j)"

lemma TRUNCATED_eq: "TRUNCATED = [46, 46, 46, 32, 40, 116, 114, 117, 110, 99, 97, 116, 101, 100, 41]"
  by (simp add: TRUNCATED_def pts_def code_def)

lemma length_TRUNCATED: "length TRUNCATED = 15"
  by (simp add: TRUNCATED_eq)

lemma marker_one_line:
  assumes "occurs TRUNCATED c t"
  shows "one_line t c (c + 15)" "c + 15 \<le> length t"
proof -
  show fit: "c + 15 \<le> length t" using occurs_fits [OF assms] by (simp add: TRUNCATED_eq)
  have "\<not> breaks t j" if "c \<le> j" "j < c + 15" for j
  proof -
    have "take 15 (drop c t) = TRUNCATED" using assms by (simp add: occurs_def length_TRUNCATED)
    then have "TRUNCATED ! (j - c) = take 15 (drop c t) ! (j - c)" by (rule arg_cong [OF sym])
    also have "\<dots> = t ! j" using that fit by simp
    finally have "t ! j = TRUNCATED ! (j - c)" by (rule sym)
    moreover have "TRUNCATED ! (j - c) \<in> set TRUNCATED" using that by (intro nth_mem) (simp add: length_TRUNCATED)
    ultimately show ?thesis by (auto simp: breaks_def TRUNCATED_eq)
  qed
  then show "one_line t c (c + 15)" by (simp add: one_line_def)
qed

lemma filter_head:
  assumes "filter P [a..<n] = e # es"
  shows "a \<le> e" "e < n" "P e" "\<forall>j. a \<le> j \<longrightarrow> j < e \<longrightarrow> \<not> P j" "es = filter P [Suc e..<n]"
proof -
  obtain us vs where s: "[a..<n] = us @ e # vs" "\<forall>u \<in> set us. \<not> P u" "P e" "es = filter P vs"
    using assms by (auto simp: filter_eq_Cons_iff)
  have "e \<in> set [a..<n]" using s(1) by simp
  then show "a \<le> e" "e < n" by simp_all
  show "P e" by fact
  have u: "us = [a..<e]" "vs = [Suc e..<n]" using upt_split [OF s(1)] by simp_all
  then show "\<forall>j. a \<le> j \<longrightarrow> j < e \<longrightarrow> \<not> P j" "es = filter P [Suc e..<n]" using s by auto
qed

lemma cuts_from_iff:
  assumes "es = filter (breaks t) [a..<length t]" "a \<le> length t" "s \<le> c"
  shows "(\<exists>b \<le> s. (b, c) \<in> set (cuts_from t a es)) \<longleftrightarrow> a \<le> s \<and> c \<le> length t \<and> cut_end t c \<and> one_line t s c"
  using assms
proof (induction es arbitrary: a)
  case Nil
  have no: "\<not> breaks t j" if "a \<le> j" for j
    using Nil(1) that unfolding breaks_def by (auto simp: filter_empty_conv breaks_def dest: sym)
  have m: "c + 15 = length t" if "occurs TRUNCATED c t" "line_end t (c + 15)" "a \<le> s"
    using that no [of "c + 15"] Nil(3) by (auto simp: line_end_def)
  have k: "length t - 15 = c" if "c + 15 = length t" using that by simp
  show ?case
    using no Nil(3) m k marker_one_line(2) [of c t]
    by (auto simp: line_cuts_def cut_end_def line_end_def one_line_def length_TRUNCATED)
next
  case (Cons e es)
  note h = filter_head [OF Cons.prems(1) [symmetric]]
  have IH: "(\<exists>b \<le> s. (b, c) \<in> set (cuts_from t (Suc e) es)) \<longleftrightarrow> Suc e \<le> s \<and> c \<le> length t \<and> cut_end t c \<and> one_line t s c"
    using Cons.IH [OF h(5)] h(2) Cons.prems(3) by simp
  have first: "(\<exists>b \<le> s. (b, c) \<in> set (line_cuts t a e)) \<longleftrightarrow> a \<le> s \<and> s \<le> e \<and> c \<le> length t \<and> cut_end t c \<and> one_line t s c"
  proof
    assume "\<exists>b \<le> s. (b, c) \<in> set (line_cuts t a e)"
    then have "a \<le> s" and c: "c = e \<or> (c + 15 = e \<and> occurs TRUNCATED c t)"
      by (auto simp: line_cuts_def length_TRUNCATED split: if_splits)
    moreover have "c \<le> e" using c by auto
    ultimately show "a \<le> s \<and> s \<le> e \<and> c \<le> length t \<and> cut_end t c \<and> one_line t s c"
      using h(2-4) Cons.prems(3) by (auto simp: cut_end_def line_end_def one_line_def length_TRUNCATED)
  next
    assume r: "a \<le> s \<and> s \<le> e \<and> c \<le> length t \<and> cut_end t c \<and> one_line t s c"
    then have ce: "c \<le> e" using h(3) unfolding one_line_def by (meson leI)
    have "c = e \<or> (c + 15 = e \<and> occurs TRUNCATED c t)"
    proof (cases "line_end t c")
      case True
      then show ?thesis using ce h(2,4) r Cons.prems(3) by (auto simp: line_end_def)
    next
      case False
      then have o: "occurs TRUNCATED c t" "line_end t (c + 15)" using r by (auto simp: cut_end_def length_TRUNCATED)
      then have "c + 15 \<le> e" using marker_one_line(1) [OF o(1)] h(3) ce unfolding one_line_def by (meson leI)
      moreover have "breaks t (c + 15)" using o(2) calculation h(2) by (auto simp: line_end_def)
      then have "\<not> c + 15 < e" using h(4) r Cons.prems(3) by (meson le_trans trans_le_add1)
      ultimately have "c + 15 = e" by simp
      then show ?thesis using o(1) by simp
    qed
    then show "\<exists>b \<le> s. (b, c) \<in> set (line_cuts t a e)"
      using r Cons.prems(3) by (auto simp: line_cuts_def length_TRUNCATED)
  qed
  have "(\<exists>b \<le> s. (b, c) \<in> set (cuts_from t a (e # es)))
      \<longleftrightarrow> (\<exists>b \<le> s. (b, c) \<in> set (line_cuts t a e)) \<or> (\<exists>b \<le> s. (b, c) \<in> set (cuts_from t (Suc e) es))"
    by auto
  then show ?case unfolding IH first using h(1) by (cases "s \<le> e") simp_all
qed

lemma cuts_iff:
  "s \<le> c \<Longrightarrow> (\<exists>b \<le> s. (b, c) \<in> set (cuts t)) \<longleftrightarrow> c \<le> length t \<and> cut_end t c \<and> one_line t s c"
proof -
  have "filter (\<lambda>i. t ! i = 10 \<or> t ! i = 13) [0..<length t] = filter (breaks t) [0..<length t]"
    by (rule filter_cong) (auto simp: breaks_def)
  then show "s \<le> c \<Longrightarrow> ?thesis" using cuts_from_iff [of _ t 0 s c] by (simp add: cuts_def)
qed

section \<open>What is hidden\<close>

definition hides :: "points \<Rightarrow> points \<Rightarrow> nat \<Rightarrow> nat \<Rightarrow> bool" where
  "hides w t s e \<longleftrightarrow>
     (occurs w s t \<and> e = s + length w)
   \<or> (4 \<le> e - s \<and> e - s < length w \<and> framing w < e - s \<and> e \<le> length t \<and> between s e t = take (e - s) w
      \<and> cut_end t e \<and> one_line t s e)"

definition hidden :: "(points \<times> points) list \<Rightarrow> points \<Rightarrow> nat \<Rightarrow> bool" where
  "hidden secrets t i \<longleftrightarrow>
     (\<exists>(n, v) \<in> set secrets. \<exists>w \<in> set (needles_of v). \<exists>s e. hides w t s e \<and> s \<le> i \<and> i < e)"

lemma starts_iff: "w \<noteq> [] \<Longrightarrow> s \<in> set (starts t w) \<longleftrightarrow> occurs w s t"
  using occurs_fits [of w s t] by (auto simp: starts_def find_all_filter)

lemma length_between: "e \<le> length t \<Longrightarrow> length (between s e t) = e - s"
  by (simp add: between_def)

lemma cut_prefix_iff:
  assumes "c \<le> length t" "w \<noteq> []"
  shows "s \<in> set (filter (\<lambda>s. framing w < c - s \<and> occurs (between s c t) 0 w)
        (find_all (take 4 w) (max a (Suc c - length w)) c t))
    \<longleftrightarrow> a \<le> s \<and> 4 \<le> c - s \<and> c - s < length w \<and> framing w < c - s \<and> between s c t = take (c - s) w"
proof
  assume "s \<in> set (filter (\<lambda>s. framing w < c - s \<and> occurs (between s c t) 0 w)
      (find_all (take 4 w) (max a (Suc c - length w)) c t))"
  then have p: "framing w < c - s" "occurs (between s c t) 0 w" "a \<le> s" "Suc c - length w \<le> s" "s < Suc c - min (length w) 4"
    by (auto simp: find_all_filter)
  moreover have "4 \<le> length w" using p(4,5) assms(2) by (cases "4 \<le> length w") (auto simp: min_def)
  moreover have "4 \<le> c - s" using p(5) calculation(6) by (simp add: min_def split: if_splits)
  ultimately show "a \<le> s \<and> 4 \<le> c - s \<and> c - s < length w \<and> framing w < c - s \<and> between s c t = take (c - s) w"
    using length_between [OF assms(1), of s] by (auto simp: occurs_def min_def)
next
  assume r: "a \<le> s \<and> 4 \<le> c - s \<and> c - s < length w \<and> framing w < c - s \<and> between s c t = take (c - s) w"
  then have "take 4 (between s c t) = take 4 w" by simp
  then have "occurs (take 4 w) s t" using r by (simp add: occurs_def between_def min_def)
  moreover have "occurs (between s c t) 0 w" using r length_between [OF assms(1), of s] by (simp add: occurs_def)
  ultimately show "s \<in> set (filter (\<lambda>s. framing w < c - s \<and> occurs (between s c t) 0 w)
      (find_all (take 4 w) (max a (Suc c - length w)) c t))"
    using r by (auto simp: find_all_filter)
qed

lemma cuts_in: "(a, c) \<in> set (cuts t) \<Longrightarrow> a \<le> c \<Longrightarrow> c \<le> length t"
  using cuts_iff [of c c t] by blast

lemma line_cuts_ordered: "start \<le> e \<Longrightarrow> (a, c) \<in> set (line_cuts t start e) \<Longrightarrow> a \<le> c"
  by (auto simp: line_cuts_def split: if_splits)

lemma cuts_from_ordered:
  "es = filter P [a..<length t] \<Longrightarrow> a \<le> length t \<Longrightarrow> (b, c) \<in> set (cuts_from t a es) \<Longrightarrow> b \<le> c"
proof (induction es arbitrary: a)
  case (Cons e es)
  note h = filter_head [OF Cons.prems(1) [symmetric]]
  show ?case using Cons.IH [OF h(5)] Cons.prems(3) h(1,2) line_cuts_ordered [OF h(1)] by auto
qed (auto intro: line_cuts_ordered)

lemma cuts_ordered: "(a, c) \<in> set (cuts t) \<Longrightarrow> a \<le> c \<and> c \<le> length t"
  using cuts_from_ordered [OF refl, of 0 t a c] cuts_in [of a c t] by (simp add: cuts_def)

lemma spans_iff:
  assumes "w \<noteq> []"
  shows "(s, e) \<in> set (spans_of t w) \<longleftrightarrow> hides w t s e"
proof -
  have "(s, e) \<in> set (cut_prefixes t w (cuts t)) \<longleftrightarrow>
      (\<exists>a. (a, e) \<in> set (cuts t) \<and> a \<le> s \<and> 4 \<le> e - s \<and> e - s < length w \<and> framing w < e - s \<and> between s e t = take (e - s) w)"
    (is "?l \<longleftrightarrow> ?r")
  proof -
    have "?l \<longleftrightarrow> (\<exists>a. (a, e) \<in> set (cuts t) \<and> s \<in> set (filter (\<lambda>s. framing w < e - s \<and> occurs (between s e t) 0 w)
        (find_all (take 4 w) (max a (Suc e - length w)) e t)))"
      by (auto simp: cut_prefixes_def)
    then show ?thesis using cut_prefix_iff [OF _ assms] cuts_ordered by meson
  qed
  also have "\<dots> \<longleftrightarrow> 4 \<le> e - s \<and> e - s < length w \<and> framing w < e - s \<and> e \<le> length t \<and> between s e t = take (e - s) w
      \<and> cut_end t e \<and> one_line t s e"
  proof (cases "s \<le> e")
    case True
    then show ?thesis using cuts_iff [OF True, of t] by blast
  qed simp
  finally show ?thesis using starts_iff [OF assms, of s t] by (auto simp: spans_of_def hides_def)
qed

lemma hides_in: "hides w t s e \<Longrightarrow> w \<noteq> [] \<Longrightarrow> s < e \<and> e \<le> length t"
  using occurs_fits [of w s t] by (auto simp: hides_def)

section \<open>What a redactor knows\<close>

lemma needles_nonempty: "v \<noteq> [] \<Longrightarrow> w \<in> set (needles_of v) \<Longrightarrow> w \<noteq> []"
proof -
  assume v: "v \<noteq> []" and "w \<in> set (needles_of v)"
  then obtain part where part: "part = v \<or> part \<in> set (matchable_lines v)"
    "w = part \<or> w = json_escape False part \<or> w = json_escape True part"
    by (auto simp: needles_of_def)
  then have "part \<noteq> []" using v by (auto simp: matchable_lines_def MIN_LINE_LENGTH_def Let_def split: if_splits)
  then have "json_escape False part \<noteq> []" "json_escape True part \<noteq> []" by (rule json_escape_nonempty)+
  then show "w \<noteq> []" using part(2) \<open>part \<noteq> []\<close> by (elim disjE) simp_all
qed

definition knows :: "redactor \<Rightarrow> points \<Rightarrow> points \<Rightarrow> bool" where
  "knows r n w \<longleftrightarrow> n \<in> set (get_or [] (map_of r w))"

definition redactor_ok :: "redactor \<Rightarrow> bool" where
  "redactor_ok r \<longleftrightarrow> distinct (map fst r) \<and> (\<forall>(w, ns) \<in> set r. ns \<noteq> [])"

lemma update_in: "x \<in> set (AList.update k v d) \<Longrightarrow> x = (k, v) \<or> x \<in> set d"
  by (induction d) (auto split: if_splits)

lemma add_needle_ok: "redactor_ok r \<Longrightarrow> redactor_ok (add_needle n w r)"
  unfolding redactor_ok_def add_needle_def Let_def
  by (auto dest!: update_in simp: distinct_update split: if_splits)

lemma knows_add: "knows (add_needle n w r) n' w' \<longleftrightarrow> knows r n' w' \<or> (n' = n \<and> w' = w)"
  by (auto simp: knows_def add_needle_def Let_def update_conv')

lemma fold_needles:
  "redactor_ok r \<Longrightarrow> redactor_ok (fold (add_needle n) ws r)
    \<and> (\<forall>n' w. knows (fold (add_needle n) ws r) n' w \<longleftrightarrow> knows r n' w \<or> (n' = n \<and> w \<in> set ws))"
  by (induction ws arbitrary: r) (auto simp: add_needle_ok knows_add)

lemma add_secrets_knows:
  "add_secrets ss d = Inr r \<Longrightarrow> redactor_ok d \<Longrightarrow> redactor_ok r \<and> (\<forall>(n, v) \<in> set ss. v \<noteq> [])
    \<and> (\<forall>n w. knows r n w \<longleftrightarrow> knows d n w \<or> (\<exists>v. (n, v) \<in> set ss \<and> w \<in> set (needles_of v)))"
proof (induction ss arbitrary: d)
  case (Cons s ss)
  obtain n v where s: "s = (n, v)" by (cases s)
  have v: "v \<noteq> []" and rest: "add_secrets ss (fold (add_needle n) (needles_of v) d) = Inr r"
    using Cons.prems(1) by (auto simp: s split: if_splits)
  note f = fold_needles [OF Cons.prems(2), of n "needles_of v"]
  show ?case using Cons.IH [OF rest] f v by (auto simp: s)
qed simp

lemma Redactor_knows:
  assumes "Redactor ss = Inr r"
  shows "redactor_ok r" "(n, v) \<in> set ss \<Longrightarrow> v \<noteq> []"
    "knows r n w \<longleftrightarrow> (\<exists>v. (n, v) \<in> set ss \<and> w \<in> set (needles_of v))"
  using add_secrets_knows [of ss "[]" r] assms by (auto simp: Redactor_def redactor_ok_def knows_def)

lemma knows_in: "redactor_ok r \<Longrightarrow> (w, ns) \<in> set r \<Longrightarrow> n \<in> set ns \<Longrightarrow> knows r n w"
  by (simp add: redactor_ok_def knows_def)

lemma in_knows: "knows r n w \<Longrightarrow> \<exists>ns. (w, ns) \<in> set r \<and> n \<in> set ns"
  unfolding knows_def by (cases "map_of r w") (auto dest: map_of_SomeD)

section \<open>What is found\<close>

definition spans_named :: "points set \<Rightarrow> ((nat \<times> nat) \<times> points list) list \<Rightarrow> bool" where
  "spans_named N d \<longleftrightarrow> (\<forall>(k, ns) \<in> set d. ns \<noteq> [] \<and> set ns \<subseteq> N)"

lemma extend_named:
  assumes "spans_named N d" "ns \<noteq> []" "set ns \<subseteq> N"
  shows "spans_named N (extend_found ns k d)" "set (keys (extend_found ns k d)) = insert k (set (keys d))"
proof -
  have "set (get_or [] (map_of d k)) \<subseteq> N"
    using assms(1) by (cases "map_of d k") (auto simp: spans_named_def dest!: map_of_SomeD)
  then show "spans_named N (extend_found ns k d)"
    using assms unfolding spans_named_def extend_found_def by (auto dest!: update_in)
  show "set (keys (extend_found ns k d)) = insert k (set (keys d))" by (auto simp: extend_found_def)
qed

lemma fold_extend:
  "spans_named N d \<Longrightarrow> ns \<noteq> [] \<Longrightarrow> set ns \<subseteq> N \<Longrightarrow>
    spans_named N (fold (extend_found ns) ks d) \<and> set (keys (fold (extend_found ns) ks d)) = set ks \<union> set (keys d)"
  by (induction ks arbitrary: d) (auto simp: extend_named)

lemma fold_found:
  "spans_named N d \<Longrightarrow> \<forall>(w, ns) \<in> set r. ns \<noteq> [] \<and> set ns \<subseteq> N \<Longrightarrow>
    spans_named N (fold (\<lambda>(w, ns). fold (extend_found ns) (spans_of t w)) r d)
    \<and> set (keys (fold (\<lambda>(w, ns). fold (extend_found ns) (spans_of t w)) r d))
      = (\<Union>(w, ns) \<in> set r. set (spans_of t w)) \<union> set (keys d)"
proof (induction r arbitrary: d)
  case (Cons p r)
  obtain w ns where p: "p = (w, ns)" by (cases p)
  have "spans_named N (fold (extend_found ns) (spans_of t w) d)
      \<and> set (keys (fold (extend_found ns) (spans_of t w) d)) = set (spans_of t w) \<union> set (keys d)"
    by (rule fold_extend) (use Cons.prems p in auto)
  then show ?case using Cons.IH [of "fold (extend_found ns) (spans_of t w) d"] Cons.prems(2) by (auto simp: p)
qed simp

lemma found_spans:
  assumes "Redactor ss = Inr r"
  shows "spans_named (fst ` set ss) (found_in r t)"
    "(\<exists>ns. ((s, e), ns) \<in> set (found_in r t)) \<longleftrightarrow> (\<exists>(n, v) \<in> set ss. \<exists>w \<in> set (needles_of v). hides w t s e)"
proof -
  note k = Redactor_knows [OF assms]
  have ok: "\<forall>(w, ns) \<in> set r. ns \<noteq> [] \<and> set ns \<subseteq> fst ` set ss"
  proof (intro ballI, clarify)
    fix w ns assume w: "(w, ns) \<in> set r"
    have "ns \<noteq> []" using k(1) w by (auto simp: redactor_ok_def)
    moreover have "n \<in> fst ` set ss" if "n \<in> set ns" for n
      using knows_in [OF k(1) w that] k(3) by force
    ultimately show "ns \<noteq> [] \<and> set ns \<subseteq> fst ` set ss" by blast
  qed
  have f: "spans_named (fst ` set ss) (found_in r t)
      \<and> set (keys (found_in r t)) = (\<Union>(w, ns) \<in> set r. set (spans_of t w))"
    using fold_found [of "fst ` set ss" "[]" r t, OF _ ok] by (simp add: spans_named_def found_in_def)
  then show "spans_named (fst ` set ss) (found_in r t)" by blast
  have w: "(\<exists>ns. (w, ns) \<in> set r) \<longleftrightarrow> (\<exists>(n, v) \<in> set ss. w \<in> set (needles_of v))" for w
  proof
    assume "\<exists>ns. (w, ns) \<in> set r"
    then obtain ns where ns: "(w, ns) \<in> set r" by blast
    then obtain n where "n \<in> set ns" using ok by (cases ns) auto
    then show "\<exists>(n, v) \<in> set ss. w \<in> set (needles_of v)" using knows_in [OF k(1) ns] k(3) by blast
  next
    assume "\<exists>(n, v) \<in> set ss. w \<in> set (needles_of v)"
    then obtain n where "knows r n w" using k(3) by blast
    then show "\<exists>ns. (w, ns) \<in> set r" using in_knows by blast
  qed
  have "(\<exists>ns. ((s, e), ns) \<in> set (found_in r t)) \<longleftrightarrow> (\<exists>w. (\<exists>ns. (w, ns) \<in> set r) \<and> (s, e) \<in> set (spans_of t w))"
  proof -
    have "(\<exists>ns. ((s, e), ns) \<in> set (found_in r t)) \<longleftrightarrow> (s, e) \<in> set (keys (found_in r t))"
      by (force simp: keys_def)
    then show ?thesis using f by auto
  qed
  also have "\<dots> \<longleftrightarrow> (\<exists>(n, v) \<in> set ss. \<exists>w \<in> set (needles_of v). hides w t s e)"
  proof -
    have "(s, e) \<in> set (spans_of t w) \<longleftrightarrow> hides w t s e" if "(n, v) \<in> set ss" "w \<in> set (needles_of v)" for n v w
      using spans_iff [OF needles_nonempty [OF k(2) [OF that(1)] that(2)]] by blast
    then show ?thesis unfolding w by blast
  qed
  finally show "(\<exists>ns. ((s, e), ns) \<in> set (found_in r t)) \<longleftrightarrow> (\<exists>(n, v) \<in> set ss. \<exists>w \<in> set (needles_of v). hides w t s e)" .
qed

end
