(* ===== verification/Redact_Writing.thy ===== *)
theory Redact_Writing
  imports Redact_Lemmas
begin

text \<open>
  What the writer makes of the spans found: the text falls into kept and masked stretches, one after the other,
  and each masked one becomes its placeholders.
\<close>

definition covered :: "((nat \<times> nat) \<times> points list) list \<Rightarrow> nat \<Rightarrow> bool" where
  "covered spans i \<longleftrightarrow> (\<exists>((s, e), ns) \<in> set spans. s \<le> i \<and> i < e)"

text \<open>Stretches: what is masked, the names shown for it, and what is kept behind it.\<close>

type_synonym stretches = "(points \<times> points list \<times> points) list"

definition stretch_text :: "stretches \<Rightarrow> points" where
  "stretch_text ps = concat (map (\<lambda>(m, ns, k). m @ k) ps)"

definition stretch_output :: "stretches \<Rightarrow> points" where
  "stretch_output ps = concat (map (\<lambda>(m, ns, k). placeholders ns @ k) ps)"

definition stretch_marks :: "stretches \<Rightarrow> bool list" where
  "stretch_marks ps = concat (map (\<lambda>(m, ns, k). replicate (length m) True @ replicate (length k) False) ps)"

definition stretches_named :: "points set \<Rightarrow> stretches \<Rightarrow> bool" where
  "stretches_named N ps \<longleftrightarrow> (\<forall>(m, ns, k) \<in> set ps. m \<noteq> [] \<and> ns \<noteq> [] \<and> set ns \<subseteq> N)"

lemma stretch_simps [simp]:
  "stretch_text [] = []" "stretch_output [] = []" "stretch_marks [] = []" "stretches_named N []"
  "stretch_text ((m, ns, k) # ps) = m @ k @ stretch_text ps"
  "stretch_output ((m, ns, k) # ps) = placeholders ns @ k @ stretch_output ps"
  "stretch_marks ((m, ns, k) # ps) = replicate (length m) True @ replicate (length k) False @ stretch_marks ps"
  "stretches_named N ((m, ns, k) # ps) \<longleftrightarrow> m \<noteq> [] \<and> ns \<noteq> [] \<and> set ns \<subseteq> N \<and> stretches_named N ps"
  by (auto simp: stretch_text_def stretch_output_def stretch_marks_def stretches_named_def)

lemma set_extend_block: "set (extend_block ns b) = set ns \<union> set b"
  unfolding extend_block_def by (induction ns arbitrary: b) auto

lemma extend_block_nonempty: "ns \<noteq> [] \<Longrightarrow> extend_block ns b \<noteq> []"
  using set_extend_block [of ns b] by (metis Un_empty set_empty)

lemma drop_between: "lo \<le> hi \<Longrightarrow> drop lo t = between lo hi t @ drop hi t"
  unfolding between_def by (metis append_take_drop_id drop_drop le_add_diff_inverse2)

definition spans_in :: "points set \<Rightarrow> points \<Rightarrow> ((nat \<times> nat) \<times> points list) list \<Rightarrow> bool" where
  "spans_in N t xs \<longleftrightarrow> sorted (map (\<lambda>((s, e), ns). s) xs) \<and> spans_named N xs
     \<and> (\<forall>((s, e), ns) \<in> set xs. s < e \<and> e \<le> length t)"

lemma spans_in_Cons:
  "spans_in N t (((s, e), ns) # xs) \<longleftrightarrow>
     s < e \<and> e \<le> length t \<and> ns \<noteq> [] \<and> set ns \<subseteq> N \<and> (\<forall>((s', e'), ns') \<in> set xs. s \<le> s') \<and> spans_in N t xs"
  by (auto simp: spans_in_def spans_named_def)

definition written :: "points set \<Rightarrow> points \<Rightarrow> ((nat \<times> nat) \<times> points list) list \<Rightarrow> nat \<Rightarrow> points list
    \<Rightarrow> points \<Rightarrow> points list \<Rightarrow> points \<Rightarrow> stretches \<Rightarrow> bool" where
  "written N t xs reach block m ns k ps \<longleftrightarrow>
     write_blocks t xs reach block = placeholders ns @ k @ stretch_output ps
   \<and> drop reach t = m @ k @ stretch_text ps
   \<and> map (covered xs) [reach..<length t] = replicate (length m) True @ replicate (length k) False @ stretch_marks ps
   \<and> stretches_named N ps \<and> set ns \<subseteq> N \<and> (block \<noteq> [] \<longrightarrow> ns \<noteq> [])
   \<and> ((\<forall>((s, e), ms) \<in> set xs. reach \<le> s) \<longrightarrow> m = [] \<and> ns = block)"

lemma written_names: "written N t xs reach block m ns k ps \<Longrightarrow> block \<noteq> [] \<Longrightarrow> ns \<noteq> []"
  by (simp add: written_def)

lemma written_first:
  assumes "written N t xs 0 block m ns k ps"
  shows "m = []" "ns = block"
proof -
  have "(\<forall>((s, e), ms) \<in> set xs. 0 \<le> s) \<longrightarrow> m = [] \<and> ns = block" using assms unfolding written_def by (elim conjE)
  then show "m = []" "ns = block" by auto
qed

lemma map_const: "(\<forall>i \<in> set is. f i = b) \<Longrightarrow> map f is = replicate (length is) b"
  by (induction "is") auto

lemma covered_Nil [simp]: "covered [] = (\<lambda>i. False)"
  by (simp add: covered_def fun_eq_iff)

lemma upt_two: "a \<le> b \<Longrightarrow> b \<le> c \<Longrightarrow> [a..<c] = [a..<b] @ [b..<c]"
  using upt_add_eq_append [of a b "c - b"] by simp

lemma covered_marks:
  assumes "reach \<le> e" "e \<le> length t" "s < e" "\<forall>((s', e'), ns') \<in> set xs. s \<le> s'"
  shows "map (covered (((s, e), ns) # xs)) [reach..<length t]
    = replicate (s - reach) False @ replicate (e - max s reach) True @ map (covered xs) [e..<length t]"
proof -
  have "[reach..<length t] = [reach..<max s reach] @ [max s reach..<e] @ [e..<length t]"
    using assms(1-3) upt_two [of reach "max s reach" "length t"] upt_two [of "max s reach" e "length t"] by simp
  moreover have "map (covered (((s, e), ns) # xs)) [reach..<max s reach] = replicate (s - reach) False"
  proof -
    have "\<forall>i \<in> set [reach..<max s reach]. covered (((s, e), ns) # xs) i = False"
      using assms(4) by (fastforce simp: covered_def)
    from map_const [OF this] show ?thesis by (simp add: max_def)
  qed
  moreover have "map (covered (((s, e), ns) # xs)) [max s reach..<e] = replicate (e - max s reach) True"
  proof -
    have "\<forall>i \<in> set [max s reach..<e]. covered (((s, e), ns) # xs) i = True" by (auto simp: covered_def)
    from map_const [OF this] show ?thesis by simp
  qed
  moreover have "map (covered (((s, e), ns) # xs)) [e..<length t] = map (covered xs) [e..<length t]"
    by (auto simp: covered_def)
  ultimately show ?thesis by simp
qed

lemma write_blocks_written:
  "spans_in N t xs \<Longrightarrow> reach \<le> length t \<Longrightarrow> set block \<subseteq> N \<Longrightarrow> \<exists>m ns k ps. written N t xs reach block m ns k ps"
proof (induction xs arbitrary: reach block)
  case Nil
  have "written N t [] reach block [] block (drop reach t) []"
    using Nil by (simp add: written_def map_replicate_const)
  then show ?case by blast
next
  case (Cons x xs)
  obtain s e names where x: "x = ((s, e), names)" by (metis prod.exhaust)
  note c = Cons.prems(1) [unfolded x spans_in_Cons]
  have rest: "spans_in N t xs" and se: "s < e" "e \<le> length t" and nn: "names \<noteq> []" "set names \<subseteq> N"
    and later: "\<forall>((s', e'), ns') \<in> set xs. s \<le> s'"
    using c by blast+
  show ?case
  proof (cases "e \<le> reach")
    case True
    obtain m ns k ps where w: "written N t xs reach block m ns k ps" using Cons.IH [OF rest Cons.prems(2,3)] by blast
    have "map (covered (x # xs)) [reach..<length t] = map (covered xs) [reach..<length t]"
      using True by (auto simp: covered_def x)
    moreover have "write_blocks t (x # xs) reach block = write_blocks t xs reach block" using True by (simp add: x)
    moreover have "\<not> (\<forall>((s, e), ms) \<in> set (x # xs). reach \<le> s)" using True se(1) by (auto simp: x)
    ultimately have "written N t (x # xs) reach block m ns k ps" using w unfolding written_def by argo
    then show ?thesis by blast
  next
    case False
    note marks = covered_marks [OF _ se(2,1) later, of reach names, folded x]
    have "\<exists>m ns k ps. written N t xs e b m ns k ps \<and> ns \<noteq> []" if "b = extend_block names [] \<or> b = extend_block names block" for b
    proof -
      have "set b \<subseteq> N" using that nn(2) Cons.prems(3) by (auto simp: set_extend_block)
      moreover have "b \<noteq> []" by (rule disjE [OF that]) (simp_all add: extend_block_nonempty nn(1))
      ultimately show ?thesis using Cons.IH [OF rest se(2)] written_names by meson
    qed
    note IH = this
    show ?thesis
    proof (cases "reach \<le> s")
      case True
      obtain m ns k ps where w: "written N t xs e (extend_block names []) m ns k ps" "ns \<noteq> []" using IH by blast
      have "drop reach t = between reach s t @ between s e t @ drop e t"
        using drop_between [OF True, of t] drop_between [of s e t] se(1) by simp
      moreover have len: "length (between reach s t) = s - reach" "length (between s e t) = e - s" "max s reach = s"
        using True se by (simp_all add: length_between max_def)
      moreover obtain M where M: "M = between s e t @ m" by blast
      moreover have "M \<noteq> []" using len(2) se(1) M by auto
      moreover have "replicate (length M) True = replicate (e - s) True @ replicate (length m) True"
        unfolding M length_append len(2) by (rule replicate_add)
      ultimately have "written N t (x # xs) reach block [] block (between reach s t) ((M, ns, k) # ps)"
        using w marks False True se Cons.prems(3) unfolding written_def x by auto
      then show ?thesis by blast
    next
      case outside: False
      obtain m ns k ps where w: "written N t xs e (extend_block names block) m ns k ps" "ns \<noteq> []" using IH by blast
      have "drop reach t = between reach e t @ drop e t" using drop_between [of reach e t] False by simp
      moreover have len: "length (between reach e t) = e - reach" "max s reach = reach" "s - reach = 0"
        using outside se False by (simp_all add: length_between max_def)
      moreover obtain M where M: "M = between reach e t @ m" by blast
      moreover have "replicate (length M) True = replicate (e - reach) True @ replicate (length m) True"
        unfolding M length_append len(1) by (rule replicate_add)
      ultimately have "written N t (x # xs) reach block M ns k ps"
        using w marks False outside se unfolding written_def x by auto
      then show ?thesis by blast
    qed
  qed
qed

lemma longest_first_in:
  assumes "spans_named N d" "\<forall>((s, e), ns) \<in> set d. s < e \<and> e \<le> length t"
  shows "spans_in N t (longest_first d)" "covered (longest_first d) = covered d" "longest_first d = [] \<longleftrightarrow> d = []"
proof -
  have s: "set (longest_first d) = set d" by (simp add: longest_first_def)
  have "sorted (map (\<lambda>((s, e), ns). s) (longest_first d))" unfolding longest_first_def by (rule sorted_sort_key)
  then show "spans_in N t (longest_first d)" using assms s by (simp add: spans_in_def spans_named_def)
  show "covered (longest_first d) = covered d" using s by (auto simp: covered_def fun_eq_iff)
  show "longest_first d = [] \<longleftrightarrow> d = []" using s by (metis set_empty)
qed

text \<open>Together: the redacted text is the kept stretches with placeholders between them.\<close>

lemma redact_stretches:
  assumes "Redactor ss = Inr r"
  shows "\<exists>k ps. t = k @ stretch_text ps \<and> redact r t = k @ stretch_output ps
    \<and> map (hidden ss t) [0..<length t] = replicate (length k) False @ stretch_marks ps \<and> stretches_named (fst ` set ss) ps"
proof -
  let ?d = "found_in r t"
  note f = found_spans(1) [OF assms, of t] found_spans(2) [OF assms, where t = t]
  have inside: "\<forall>((s, e), ns) \<in> set ?d. s < e \<and> e \<le> length t"
  proof (intro ballI, clarify)
    fix s e ns assume "((s, e), ns) \<in> set ?d"
    then obtain n v w where w: "(n, v) \<in> set ss" "w \<in> set (needles_of v)" "hides w t s e" using f(2) by blast
    have "w \<noteq> []" using needles_nonempty [OF Redactor_knows(2) [OF assms w(1)] w(2)] .
    then show "s < e \<and> e \<le> length t" using hides_in [OF w(3)] by blast
  qed
  note l = longest_first_in [OF f(1) inside]
  have cov: "covered ?d = hidden ss t"
  proof
    fix i
    have "covered ?d i \<longleftrightarrow> (\<exists>s e. (\<exists>ns. ((s, e), ns) \<in> set ?d) \<and> s \<le> i \<and> i < e)" by (fastforce simp: covered_def)
    also have "\<dots> \<longleftrightarrow> hidden ss t i" unfolding f(2) hidden_def by blast
    finally show "covered ?d i = hidden ss t i" .
  qed
  show ?thesis
  proof (cases "?d = []")
    case True
    have "redact r t = t" using True by (simp add: redact_def)
    moreover have "map (hidden ss t) [0..<length t] = replicate (length t) False"
      unfolding cov [symmetric] True by (simp add: map_replicate_const)
    ultimately show ?thesis by (intro exI [of _ t] exI [of _ "[]"]) simp
  next
    case False
    obtain m ns k ps where w: "written (fst ` set ss) t (longest_first ?d) 0 [] m ns k ps"
      using write_blocks_written [OF l(1), of 0 "[]"] by auto
    note mn = written_first [OF w]
    have wd: "write_blocks t (longest_first ?d) 0 [] = placeholders [] @ k @ stretch_output ps"
      "drop 0 t = [] @ k @ stretch_text ps"  "stretches_named (fst ` set ss) ps"
      using w unfolding written_def mn by blast+
    have "map (covered (longest_first ?d)) [0..<length t] = replicate (length []) True @ replicate (length k) False @ stretch_marks ps"
      using w unfolding written_def mn by (elim conjE) (simp only: list.size(3))
    note wd = wd this [unfolded l(2) cov]
    have "redact r t = k @ stretch_output ps" using wd(1) False by (simp add: redact_def placeholders_def)
    moreover have "t = k @ stretch_text ps" using wd(2) unfolding drop_0 append_Nil .
    moreover have "map (hidden ss t) [0..<length t] = replicate (length k) False @ stretch_marks ps"
      using wd(4) unfolding list.size(3) replicate_0 append_Nil .
    ultimately show ?thesis using wd(3) by blast
  qed
qed

end
