(* ===== verification/Line_Capture.thy ===== *)
theory Line_Capture
  imports Byte_Stream
begin

text \<open>
  \<open>types/line_capture.py\<close> and \<open>types/streams.py\<close>: a terminal child's bytes, which arrive in arbitrary
  chunks, cut into lines of bounded length, and the records a captured stream of lines is read as. The
  consumer is the list of lines handed to it, in order; what it raises is swallowed by the code, so it does
  not show.
\<close>

section \<open>Framing\<close>

definition MAX_LINE_BYTES :: nat where
  "MAX_LINE_BYTES = 16384"

definition newline :: byte where
  "newline = 10"

definition truncated_marker :: bytes where
  "truncated_marker = map of_char ''... (truncated)''"

record line_capture =
  lc_buffer :: bytes
  lc_dropped :: nat

definition LineCapture :: line_capture where
  "LineCapture = \<lparr>lc_buffer = [], lc_dropped = 0\<rparr>"

text \<open>\<open>_emit_line\<close>: the line handed over, and the count reset.\<close>

definition emit_line :: "bytes \<Rightarrow> bool \<Rightarrow> line_capture \<Rightarrow> line_capture \<times> bytes" where
  "emit_line raw terminated c =
     (let cut = (if length raw > MAX_LINE_BYTES then take MAX_LINE_BYTES raw else raw);
          truncated = (lc_dropped c > 0 \<or> length raw > MAX_LINE_BYTES)
      in (c\<lparr>lc_dropped := 0\<rparr>,
          cut @ (if truncated then truncated_marker else []) @ (if terminated then [newline] else [])))"

definition find_newline :: "bytes \<Rightarrow> nat option" where
  "find_newline b = (let i = length (takeWhile (\<lambda>x. x \<noteq> newline) b) in if i < length b then Some i else None)"

lemma find_newline_less: "find_newline b = Some i \<Longrightarrow> i < length b"
  by (simp add: find_newline_def Let_def split: if_splits)

text \<open>The loop of \<open>feed\<close>, on what is in the buffer.\<close>

function feed_loop :: "line_capture \<Rightarrow> line_capture \<times> bytes list" where
  "feed_loop c =
     (case find_newline (lc_buffer c) of
        None \<Rightarrow>
          if length (lc_buffer c) > MAX_LINE_BYTES
          then (c\<lparr>lc_dropped := lc_dropped c + (length (lc_buffer c) - MAX_LINE_BYTES),
                  lc_buffer := take MAX_LINE_BYTES (lc_buffer c)\<rparr>, [])
          else (c, [])
      | Some i \<Rightarrow>
          let line = take i (lc_buffer c);
              (c1, out) = emit_line line True (c\<lparr>lc_buffer := drop (Suc i) (lc_buffer c)\<rparr>);
              (c2, outs) = feed_loop c1
          in (c2, out # outs))"
  by pat_completeness auto
termination
  by (relation "measure (\<lambda>c. length (lc_buffer c))") (auto simp: emit_line_def Let_def dest: find_newline_less)

declare feed_loop.simps [simp del]

definition feed :: "bytes \<Rightarrow> line_capture \<Rightarrow> line_capture \<times> bytes list" where
  "feed chunk c = feed_loop (c\<lparr>lc_buffer := lc_buffer c @ chunk\<rparr>)"

definition close_capture :: "line_capture \<Rightarrow> line_capture \<times> bytes list" where
  "close_capture c =
     (if lc_buffer c = [] then (c, [])
      else let (c1, out) = emit_line (lc_buffer c) False c in (c1\<lparr>lc_buffer := []\<rparr>, [out]))"

text \<open>What the pump does with a child's output: it feeds each chunk and closes at the end.\<close>

fun feeds :: "bytes list \<Rightarrow> line_capture \<Rightarrow> line_capture \<times> bytes list" where
  "feeds [] c = (c, [])"
| "feeds (x # xs) c = (let (c1, out) = feed x c; (c2, outs) = feeds xs c1 in (c2, out @ outs))"

definition capture :: "bytes list \<Rightarrow> bytes list" where
  "capture chunks = (let (c, out) = feeds chunks LineCapture in out @ snd (close_capture c))"

section \<open>Records\<close>

record stream_text =
  st_context :: "nat option"
  st_timestamp :: "string option"
  st_text :: string

text \<open>A \<open>TurnContext\<close> and a \<open>ContextClear\<close> are the classes of the agents' own records; here, the two
  flags \<open>normalize\<close> sets in them.\<close>

datatype trax_record = Stdin stream_text | Stdout stream_text | Stderr stream_text
  | TurnContext bool
  | ContextClear bool

definition ends_with :: "'a list \<Rightarrow> 'a list \<Rightarrow> bool" where
  "ends_with suf s \<longleftrightarrow> drop (length s - length suf) s = suf"

definition stdout_line :: "string \<Rightarrow> trax_record" where
  "stdout_line line = Stdout \<lparr>st_context = None, st_timestamp = None, st_text = line\<rparr>"

fun normalize_lines :: "nat \<Rightarrow> bool \<Rightarrow> string list \<Rightarrow> trax_record list" where
  "normalize_lines n ends [] = (if n \<noteq> 0 \<and> \<not> ends then [TurnContext False] else [])"
| "normalize_lines n ends (line # rest) =
     (if n = 0 then [TurnContext True, ContextClear True] else [])
     @ stdout_line line # normalize_lines (n + 1) (ends_with [CHR 10] line) rest"

definition normalize_stream :: "string list \<Rightarrow> trax_record list" where
  "normalize_stream lines = normalize_lines 0 True lines"

section \<open>The lines of a stream\<close>

text \<open>The reference: the lines of the whole stream without their newlines, each cut at the cap.\<close>

fun cut_lines :: "bytes \<Rightarrow> bytes \<Rightarrow> bytes list \<times> bytes" where
  "cut_lines p [] = ([], p)"
| "cut_lines p (b # bs) =
     (if b = newline then let (ls, r) = cut_lines [] bs in (p # ls, r) else cut_lines (p @ [b]) bs)"

definition clamp_line :: "bytes \<Rightarrow> bytes" where
  "clamp_line l = (if length l > MAX_LINE_BYTES then take MAX_LINE_BYTES l @ truncated_marker else l)"

definition captured_lines :: "bytes \<Rightarrow> bytes list" where
  "captured_lines bs =
     (let (ls, r) = cut_lines [] bs
      in map (\<lambda>l. clamp_line l @ [newline]) ls @ (if r = [] then [] else [clamp_line r]))"

definition holds :: "line_capture \<Rightarrow> bytes \<Rightarrow> bool" where
  "holds c p \<longleftrightarrow> newline \<notin> set p \<and> lc_buffer c = take MAX_LINE_BYTES p \<and> lc_dropped c = length p - MAX_LINE_BYTES"

lemma cut_lines_append:
  "cut_lines p (xs @ ys) = (fst (cut_lines p xs) @ fst (cut_lines (snd (cut_lines p xs)) ys), snd (cut_lines (snd (cut_lines p xs)) ys))"
  by (induction xs arbitrary: p) (auto simp: split_beta Let_def)

lemma cut_lines_no_newline: "newline \<notin> set xs \<Longrightarrow> cut_lines p xs = ([], p @ xs)"
  by (induction xs arbitrary: p) auto

lemma cut_lines_rest: "newline \<notin> set p \<Longrightarrow> newline \<notin> set (snd (cut_lines p xs))"
  by (induction xs arbitrary: p) (auto simp: split_beta Let_def)

lemma cut_lines_whole: "concat (map (\<lambda>l. l @ [newline]) (fst (cut_lines p xs))) @ snd (cut_lines p xs) = p @ xs"
  by (induction xs arbitrary: p) (auto simp: split_beta Let_def)

lemma find_newline_None: "find_newline b = None \<longleftrightarrow> newline \<notin> set b"
proof (cases "newline \<in> set b")
  case True
  then obtain xs ys where b: "b = xs @ newline # ys" "newline \<notin> set xs" by (meson split_list_first)
  then have "takeWhile (\<lambda>x. x \<noteq> newline) b = xs" by (simp add: b(1), subst takeWhile_append2) auto
  then show ?thesis using True b(1) by (simp add: find_newline_def)
next
  case False
  then have "takeWhile (\<lambda>x. x \<noteq> newline) b = b" by (simp add: takeWhile_eq_all_conv) metis
  then have "length (takeWhile (\<lambda>x. x \<noteq> newline) b) = length b" by (rule arg_cong)
  then show ?thesis using False unfolding find_newline_def Let_def by simp
qed

lemma find_newline_split: "newline \<notin> set xs \<Longrightarrow> find_newline (xs @ newline # ys) = Some (length xs)"
proof -
  assume "newline \<notin> set xs"
  then have "takeWhile (\<lambda>x. x \<noteq> newline) (xs @ newline # ys) = xs" by (subst takeWhile_append2) auto
  then show ?thesis by (simp add: find_newline_def)
qed

lemma emit_holds:
  assumes "holds c p" "lc_dropped c' = lc_dropped c"
  shows "snd (emit_line (lc_buffer c @ q) e c') = clamp_line (p @ q) @ (if e then [newline] else [])"
  using assms
  by (cases "length p \<le> MAX_LINE_BYTES") (auto simp: emit_line_def Let_def clamp_line_def holds_def)

lemma feed_loop_holds:
  assumes "holds c p"
  shows "\<exists>c'. feed_loop (c\<lparr>lc_buffer := lc_buffer c @ chunk\<rparr>)
      = (c', map (\<lambda>l. clamp_line l @ [newline]) (fst (cut_lines p chunk)))
    \<and> holds c' (snd (cut_lines p chunk))"
  using assms
proof (induction chunk arbitrary: c p rule: length_induct)
  case (1 chunk)
  have nb: "newline \<notin> set (lc_buffer c)" "newline \<notin> set p"
    using 1(2) by (auto simp: holds_def dest: in_set_takeD)
  show ?case
  proof (cases "newline \<in> set chunk")
    case False
    then have "find_newline (lc_buffer c @ chunk) = None" using nb by (simp add: find_newline_None)
    then show ?thesis using 1(2) False nb
      by (subst feed_loop.simps; cases "length p \<le> MAX_LINE_BYTES") (auto simp: cut_lines_no_newline holds_def)
  next
    case True
    then obtain xs ys where split: "chunk = xs @ newline # ys" "newline \<notin> set xs" by (meson split_list_first)
    let ?b = "lc_buffer c @ xs"
    let ?c1 = "c\<lparr>lc_buffer := ys\<rparr>"
    have f: "find_newline (lc_buffer c @ chunk) = Some (length ?b)"
      using find_newline_split [of ?b ys] split nb by simp
    have out: "snd (emit_line ?b True ?c1) = clamp_line (p @ xs) @ [newline]"
      using emit_holds [OF 1(2), of ?c1 xs True] by simp
    have st: "fst (emit_line ?b True ?c1) = \<lparr>lc_buffer = ys, lc_dropped = 0\<rparr>" by (simp add: emit_line_def Let_def)
    have "holds \<lparr>lc_buffer = [], lc_dropped = 0\<rparr> []" by (simp add: holds_def)
    then obtain c' where c': "feed_loop \<lparr>lc_buffer = ys, lc_dropped = 0\<rparr>
        = (c', map (\<lambda>l. clamp_line l @ [newline]) (fst (cut_lines [] ys)))" "holds c' (snd (cut_lines [] ys))"
      using 1(1) [rule_format, of ys] split(1) by fastforce
    have "feed_loop (c\<lparr>lc_buffer := lc_buffer c @ chunk\<rparr>)
        = (c', (clamp_line (p @ xs) @ [newline]) # map (\<lambda>l. clamp_line l @ [newline]) (fst (cut_lines [] ys)))"
      using f out st c'(1) split(1)
      by (subst feed_loop.simps) (simp add: split_beta Let_def prod_eq_iff)
    moreover have "cut_lines p chunk = ((p @ xs) # fst (cut_lines [] ys), snd (cut_lines [] ys))"
      by (simp add: split(1) cut_lines_append cut_lines_no_newline [OF split(2)] split_beta)
    ultimately show ?thesis using c'(2) by simp
  qed
qed

lemma feeds_holds:
  "holds c p \<Longrightarrow> \<exists>c'. feeds chunks c = (c', map (\<lambda>l. clamp_line l @ [newline]) (fst (cut_lines p (concat chunks))))
    \<and> holds c' (snd (cut_lines p (concat chunks)))"
proof (induction chunks arbitrary: c p)
  case (Cons x xs)
  obtain c1 where c1: "feed x c = (c1, map (\<lambda>l. clamp_line l @ [newline]) (fst (cut_lines p x)))"
    "holds c1 (snd (cut_lines p x))"
    using feed_loop_holds [OF Cons.prems, of x] unfolding feed_def by blast
  obtain c2 where "feeds xs c1 = (c2, map (\<lambda>l. clamp_line l @ [newline]) (fst (cut_lines (snd (cut_lines p x)) (concat xs))))"
    "holds c2 (snd (cut_lines (snd (cut_lines p x)) (concat xs)))"
    using Cons.IH [OF c1(2)] by blast
  then show ?case using c1(1) by (simp add: cut_lines_append)
qed simp

lemma LineCapture_holds: "holds LineCapture []"
  by (simp add: holds_def LineCapture_def)

lemma cap_pos: "MAX_LINE_BYTES \<noteq> 0"
  by (simp add: MAX_LINE_BYTES_def)

lemma close_holds: "holds c p \<Longrightarrow> snd (close_capture c) = (if p = [] then [] else [clamp_line p])"
  using emit_holds [of c p c "[]" False] cap_pos
  by (auto simp: close_capture_def holds_def split_beta Let_def)

lemma capture_lines: "capture chunks = captured_lines (concat chunks)"
proof -
  obtain c where "feeds chunks LineCapture = (c, map (\<lambda>l. clamp_line l @ [newline]) (fst (cut_lines [] (concat chunks))))"
    "holds c (snd (cut_lines [] (concat chunks)))"
    using feeds_holds [OF LineCapture_holds] by blast
  then show ?thesis by (simp add: capture_def captured_lines_def split_beta close_holds)
qed

lemma feeds_bounded: "length (lc_buffer (fst (feeds chunks LineCapture))) \<le> MAX_LINE_BYTES"
  using feeds_holds [OF LineCapture_holds, of chunks] by (auto simp: holds_def)

lemma captured_whole:
  assumes "\<forall>l \<in> set (fst (cut_lines [] bs)) \<union> {snd (cut_lines [] bs)}. length l \<le> MAX_LINE_BYTES"
  shows "concat (captured_lines bs) = bs"
proof -
  have lines: "map (\<lambda>l. clamp_line l @ [newline]) (fst (cut_lines [] bs)) = map (\<lambda>l. l @ [newline]) (fst (cut_lines [] bs))"
    using assms by (auto simp: clamp_line_def)
  have "clamp_line (snd (cut_lines [] bs)) = snd (cut_lines [] bs)" using assms by (simp add: clamp_line_def)
  then show ?thesis using cut_lines_whole [of "[]" bs] unfolding captured_lines_def split_beta Let_def lines by auto
qed

end
