(* ===== verification/Redact_Claims.thy ===== *)
theory Redact_Claims
  imports Redact_Writing Line_Capture
begin

text \<open>
  The properties of the redactor and of the capture of lines, and of the two together: a value that the
  capture cuts is still hidden.
\<close>

section \<open>Text\<close>

text \<open>C23: redaction is exact: the text falls into kept and masked stretches, the output is the kept ones with, for each
  masked one, placeholders of secrets between them, and a character is masked exactly when it belongs to an occurrence of a
  value, of one of its JSON forms or of one of its longer lines, or to a beginning of one, of four characters
  or more, where a line was cut.\<close>

theorem redaction_is_exact:
  assumes "Redactor ss = Inr r"
  shows "\<exists>k ps. t = k @ stretch_text ps \<and> redact r t = k @ stretch_output ps
    \<and> map (hidden ss t) [0..<length t] = replicate (length k) False @ stretch_marks ps \<and> stretches_named (fst ` set ss) ps"
  by (rule redact_stretches [OF assms])

definition demo_secrets :: "(points \<times> points) list" where
  "demo_secrets = [(pts ''K'', pts ''tok-abcdefgh'')]"

definition demo_redactor :: redactor where
  "demo_redactor = [(pts ''tok-abcdefgh'', [pts ''K''])]"

lemma demo_Redactor: "Redactor demo_secrets = Inr demo_redactor"
  by (simp add: Redactor_def demo_secrets_def demo_redactor_def needles_of_def matchable_lines_def splitlines_def pts_def code_def
      line_break_def json_escape_def json_char_def add_needle_def)

lemma demo_redact:
  "redact demo_redactor (pts ''a tok-abcdefgh!'') = pts ''a [redacted:K]!''"
  "redact demo_redactor (pts ''tok-abcdefgh'') = pts ''[redacted:K]''"
  "redact demo_redactor (pts ''tok-abcd'') = pts ''[redacted:K]''"
  by code_simp+

theorem redaction_is_exact_witness:
  "\<exists>k ps. pts ''a tok-abcdefgh!'' = k @ stretch_text ps \<and> pts ''a [redacted:K]!'' = k @ stretch_output ps
    \<and> map (hidden demo_secrets (pts ''a tok-abcdefgh!'')) [0..<length (pts ''a tok-abcdefgh!'')] = replicate (length k) False @ stretch_marks ps"
  using redaction_is_exact [OF demo_Redactor, of "pts ''a tok-abcdefgh!''"] unfolding demo_redact by blast

section \<open>Attached bytes\<close>

















section \<open>Keys that become one\<close>

text \<open>Two keys of an object that hold a value, or a value and its beginning, become one key, and the member of the first
  is lost.\<close>

theorem redacted_keys_collide:
  "redact_mapping sf demo_redactor [(pts ''tok-abcdefgh'', PInt 1), (pts ''tok-abcd'', PInt 2)]
    = Inr [(pts ''[redacted:K]'', PInt 2)]"
proof -
  have "redact demo_redactor (pts (show_int 1)) = pts (show_int 1)" "redact demo_redactor (pts (show_int 2)) = pts (show_int 2)"
    by code_simp+
  then show ?thesis by (simp add: redact_mapping_def demo_redact number_text_def)
qed

section \<open>Lines\<close>

text \<open>C26: however a child's output is split into chunks, its consumer gets the same lines: those of the whole output, each cut
  at the cap with a marker. The buffer never holds more than the cap between chunks, and when no line exceeds
  it, the lines are the output.\<close>

theorem capture_is_of_the_stream:
  "capture chunks = captured_lines (concat chunks)
    \<and> length (lc_buffer (fst (feeds chunks LineCapture))) \<le> MAX_LINE_BYTES
    \<and> ((\<forall>l \<in> set (snd (cut_lines [] (concat chunks)) # fst (cut_lines [] (concat chunks))). length l \<le> MAX_LINE_BYTES)
        \<longrightarrow> concat (capture chunks) = concat chunks)"
  using capture_lines [of chunks] feeds_bounded [of chunks] captured_whole [of "concat chunks"] by auto

theorem capture_is_of_the_stream_witness:
  "concat (capture [[1, 2], [3, newline, 4]]) = [1, 2, 3, newline, 4]"
proof -
  have cut: "cut_lines [] (concat [[1, 2], [3, newline, 4]]) = ([[1, 2, 3]], [4 :: byte])" by (simp add: newline_def)
  have "concat (capture [[1, 2], [3, newline, 4]]) = concat [[1, 2], [3, newline, 4 :: byte]]"
    by (rule capture_is_of_the_stream [THEN conjunct2, THEN conjunct2, THEN mp], unfold cut) (simp add: MAX_LINE_BYTES_def)
  then show ?thesis by simp
qed

section \<open>A value the capture cuts\<close>







end
