(* ===== verification/Spec2Isabelle.thy ===== *)
theory Spec2Isabelle
  imports Seq_Ranges Graph_Claims2 Terminal_Claims Edit_Claims2 Exec_Claims Submit_Claims Access_Claims Session_Claims3 Inbound_Claims Redact_Claims
begin

text \<open>
  A verification library for trackinizer, the server that keeps a graph of inquiries (issues,
  beliefs, papers, experiments, sessions, access groups) in PostgreSQL and relays live
  sessions between browsers and machines. Paths below are relative to \<open>src/trackinizer/\<close>.

  \<^bold>\<open>The parts and how they interact\<close>

  \<^item> The graph store. \<open>server/store/\<close> is a stack of mixins over one database: \<open>cascade.py\<close> writes every
    change row, charges costs and alerts dependents; \<open>edge.py\<close>, \<open>edit.py\<close>, \<open>submit.py\<close> and
    \<open>session.py\<close> call it from inside one transaction each; \<open>server/primitives.py\<close> holds the guarded SQL
    they share, and the tables and their constraints are in \<open>server/assets/schema.sql\<close> and
    \<open>server/schema_gen.py\<close>. A request's \<open>Idempotency-Key\<close> travels in a context variable
    (\<open>store/change_id_slot.py\<close>), which the emission consumes.
  \<^item> Sessions. An agent's run opens an inquiry of kind \<open>AgentSession\<close>, resumes it, ends it, or falls silent
    and is closed by the reaper (\<open>store/session.py\<close>, \<open>server/session_reaper.py\<close>). Who may read its transcript, feed
    it input or hide it is decided by \<open>server/audience.py\<close> and \<open>server/api/session_access.py\<close>.
  \<^item> The hubs: in-memory objects whose handlers run on one event loop and interleave at their awaits. The
    terminal hub (\<open>server/terminals.py\<close>, frames in \<open>lib/posix/host.py\<close> and \<open>wire/wire_terminals.py\<close>, the
    output ring in \<open>lib/posix/ring.py\<close>) attaches browsers to hosts; the exec hub (\<open>server/execs.py\<close>) hands
    commands to machines that wait for them; the message queue (\<open>server/inbound.py\<close>) carries chat lines to the
    sessions' runs, which poll it, and keeps their leases.

  \<^item> What leaves an agent's process. Its terminal's bytes are framed into lines (\<open>types/line_capture.py\<close>), and the
    secrets it was given are masked in the text, JSON and attachments it sends (\<open>runs/redact.py\<close>).

  \<^bold>\<open>Theories of the graph store\<close>

  \<^item> \<^verbatim>\<open>Prelude\<close>: results of fallible calls, code points and \<open>str\<close> methods, decimal numerals, floats
    (exact rationals with infinities and NaN); \<^verbatim>\<open>Values\<close> (\<open>server/values.py\<close>) and \<^verbatim>\<open>Seq_Ranges\<close>
    (\<open>wire/seq_ranges.py\<close>): normalizers and the interval parser.
  \<^item> \<^verbatim>\<open>Ontology\<close> (\<open>types/edges.py\<close>), \<^verbatim>\<open>Column_Specs\<close> (the \<open>ColumnSpec\<close> of every inquiry column, its checks
    and hooks), \<^verbatim>\<open>Accounting\<close> (\<open>types/cost.py\<close>).
  \<^item> \<^verbatim>\<open>Graph_State\<close>: the tables as a record. A uuid is a natural number, a table a list in insertion
    order or a map, time a counter the database clock advances. Every CHECK, NOT NULL, unique and
    foreign key of the inquiries, edges and change_log tables is a test whose failure is a value of
    \<open>py_error\<close>; \<open>transaction\<close> is \<open>notify.tx\<close>: an error restores the state, a commit publishes.
  \<^item> \<^verbatim>\<open>Change_Emission\<close>, \<^verbatim>\<open>Cascade\<close>, \<^verbatim>\<open>Purge\<close> (\<open>store/cascade.py\<close>), \<^verbatim>\<open>Edge_Primitives\<close> (\<open>primitives.py\<close>),
    \<^verbatim>\<open>Edge_Store\<close> (\<open>store/edge.py\<close>), \<^verbatim>\<open>Cost_Edits\<close>, \<^verbatim>\<open>Field_Edits\<close>, \<^verbatim>\<open>List_Edits\<close>, \<^verbatim>\<open>Issue_Queue\<close>
    (\<open>store/edit.py\<close>, \<open>sql_fragments.py\<close>): one definition per operation, in the code's order of guards.
    An \<open>_on_conn\<close> definition is the body inside the transaction.
  \<^item> \<^verbatim>\<open>Submit_Bodies\<close> (\<open>wire/bodies.py\<close>: the request bodies, and the validators in the order pydantic runs them),
    \<^verbatim>\<open>Submit_Store\<close> (\<open>store/submit.py\<close>): one insert path for every kind, with the idempotency probe, the
    access policy's hook \<open>grant\<close>, the audit row, the links and the stamps. \<open>seen\<close> is the state the probe
    reads, the store the one the insert writes to: they differ when another request runs in between, and the
    race recovery is the branch where they do. \<open>Submit_Links\<close>, \<open>Submit_Lemmas\<close>, \<open>Submit_Effects\<close>,
    \<open>Submit_Accepts\<close>, \<open>Submit_Batches\<close> prove what an insert keeps and changes and when it succeeds.
  \<^item> \<^verbatim>\<open>Graph_Invariants\<close>, \<^verbatim>\<open>Graph_Machine\<close>, \<^verbatim>\<open>Graph_Properties\<close>: what every edge operation keeps (keys unique,
    endpoints live and admitted, acyclic per kind, log consistent, costs the sums of the log), the
    step relation, and the cases of each operation. \<^verbatim>\<open>Row_Invariants\<close>, \<^verbatim>\<open>Edit_Lemmas\<close>,
    \<^verbatim>\<open>Audit_Trail\<close>, \<^verbatim>\<open>Store_Machine\<close>, \<^verbatim>\<open>Edit_Properties\<close> do the same for the rows and the field
    edits; the locales \<^verbatim>\<open>audited_system\<close> and \<^verbatim>\<open>log_relation\<close> state what a system with an append-only
    log gives and are interpreted on the graph, on the store with its submissions, and on the sessions.
  \<^item> \<^verbatim>\<open>Graph_Claims\<close>, \<^verbatim>\<open>Graph_Claims2\<close>, \<^verbatim>\<open>Edit_Claims\<close>, \<^verbatim>\<open>Edit_Claims2\<close>, \<^verbatim>\<open>Submit_Claims\<close>: the properties,
    each with a witness.

  \<^bold>\<open>Theories of the sessions\<close>

  \<^item> \<^verbatim>\<open>Audience\<close> (\<open>server/audience.py\<close>, \<open>wire/audience.py\<close>): the transcript test in three-valued logic over one
    row, its closed form, who is staff, what a key holds, the answers a live stream keeps. \<^verbatim>\<open>Session_Access\<close>
    (\<open>api/session_access.py\<close>, \<open>api/session_identity.py\<close>): the checks; the users table is an argument.
    \<^verbatim>\<open>Access_Claims\<close>: the properties.
  \<^item> \<^verbatim>\<open>Session_Store\<close>, \<^verbatim>\<open>Session_Starts\<close>: a world is the store and the table \<open>session_liveness\<close>; instants count
    microseconds. A start reserves a name, lets other requests run (a gap, one for each of its sixteen
    attempts) and inserts; what a gap may do is \<open>gap_ok\<close>: keep the store sound and the log growing.
    \<^verbatim>\<open>Session_Lemmas\<close>, \<^verbatim>\<open>Session_Machine\<close>, \<^verbatim>\<open>Session_Effects\<close>: what the operations keep, the step relation, and the rows
    and log after an end. \<^verbatim>\<open>Session_Claims\<close>, \<^verbatim>\<open>Session_Claims2\<close>, \<^verbatim>\<open>Session_Claims3\<close>: the properties.

  \<^bold>\<open>Theories of the hubs\<close>

  \<^item> \<^verbatim>\<open>Byte_Stream\<close> (the ring, as the tail of an ever longer stream), \<^verbatim>\<open>Frame_Codec\<close> (frames and their
    payloads), \<^verbatim>\<open>Terminal_State\<close>, \<^verbatim>\<open>Terminal_Hub\<close>, \<^verbatim>\<open>Terminal_Relay\<close>: the hub's objects in a heap and
    one definition per handler, split where the source awaits.
  \<^item> \<^verbatim>\<open>Terminal_Machine\<close>: the step relation, where a replay in progress is part of the state.
    \<^verbatim>\<open>Terminal_Frames\<close>, \<^verbatim>\<open>Terminal_Replay\<close>, \<^verbatim>\<open>Terminal_Limits\<close>, \<^verbatim>\<open>Terminal_Queue\<close> prove its invariants by
    rule induction; \<^verbatim>\<open>Terminal_Claims\<close> states the properties.
  \<^item> \<^verbatim>\<open>Exec_Hub\<close>: the exec hub, its coroutines split at their awaits; \<^verbatim>\<open>Exec_Machine\<close>: callers, waiting machines,
    timers and cancellations as one step relation over exact rational time. \<^verbatim>\<open>Exec_Invariants\<close>,
    \<^verbatim>\<open>Exec_Safety\<close>, \<^verbatim>\<open>Exec_Waits\<close>, \<^verbatim>\<open>Exec_Promises\<close>: its invariants; \<^verbatim>\<open>Exec_Claims\<close>: the properties.
  \<^item> \<^verbatim>\<open>Ordered_Dict\<close> (a \<open>dict\<close> or \<open>OrderedDict\<close> as an association list), \<^verbatim>\<open>Inbound_Queue\<close>: every method of the
    queue, a function of its state and one reading of the clock, since each runs under one lock.
    \<^verbatim>\<open>Inbound_Machine\<close>: sends, leases, the clock and the polls as one step relation; a poll is split where it takes the
    lock or awaits, and the history notes what was sent, taken, polled and told. \<^verbatim>\<open>Inbound_Mail\<close> (order, loss),
    \<^verbatim>\<open>Inbound_Waits\<close> (waking, receipts), \<^verbatim>\<open>Inbound_Leases\<close> (which runs went offline): its invariants;
    \<^verbatim>\<open>Inbound_Claims\<close>: the properties. The waking of a closed loop, which does nothing, is left out.

  \<^bold>\<open>Theories of redaction\<close>

  \<^item> \<^verbatim>\<open>Line_Capture\<close>: chunks into bounded lines, equal to cutting the whole stream. \<^verbatim>\<open>Unicode_Text\<close>: text as a
    list of code points over all of Unicode, searching, \<open>splitlines\<close>, the escapes of \<open>json.dumps\<close>, UTF-8 with
    \<open>surrogateescape\<close> (encoding what was decoded gives the bytes back) and strict base64 (decoding what was encoded does).
  \<^item> \<^verbatim>\<open>Redact\<close>: the redactor. \<^verbatim>\<open>Redact_Lemmas\<close>: what it must hide, without its search, and that the search
    finds just that; \<^verbatim>\<open>Redact_Writing\<close>: what the writer makes of it; \<^verbatim>\<open>Redact_Claims\<close>: the properties.

  \<^bold>\<open>Loops and bounds\<close>

  The cascade and the cycle test recurse on the set of marked or visited rows, which grows within
  the finite edges table; the search for a free name recurses on the finite set of names taken: all are total
  functions with a measure, and nothing uses fuel. A start makes at most sixteen attempts. Frame
  lengths and offsets are kept as the unsigned 32 and 64 bit integers of the wire.

  \<^bold>\<open>Decisions\<close>

  A transaction runs alone: row locks, advisory locks and \<open>FOR SHARE\<close> have no content, and what two
  operations do is what they do in sequence. The keyed slot of a failed call is kept only where the request goes on after the failure
  (\<open>start_session\<close>, a missing account); the gap a rollback
  leaves in a sequence is not modelled. Strings are over the code points up to U+00FF, but in
  redaction; NUL is not told apart. Floats are exact, so rounding is outside the claims. What the server asks of the
  deployment (the access policy, the rows \<open>SKIP LOCKED\<close> passes over, the users and keys) is a parameter.

  \<^bold>\<open>Not modelled\<close>

  HTTP routes but the one that moves an audience, authentication, embeddings and search, the feed and the records of a
  session's transcript (\<open>lib/agent\<close>, \<open>store/session_*.py\<close>, \<open>read_feed\<close>), the clients (\<open>client/\<close>, \<open>trax/\<close>, \<open>web/\<close>),
  the launching of agent runs and the server-side agent (\<open>runs/\<close>, \<open>sagent/\<close>), the filter grammar and its regular expressions, process
  supervision (\<open>lib/posix\<close> beyond the codec), deployment tools and visual reports: they are input and
  output around the core, or call services outside the repository.
\<close>

end
